(* ===== verification/Prelude.thy ===== *)
theory Prelude
  imports Main "HOL-Library.Word"
begin

unbundle bit_operations_syntax

section \<open>Prelude: machine integers, byte order, outcomes\<close>

text \<open>
  Shared vocabulary of the development. The kernel-style integer types of
  \<^verbatim>\<open>types.h\<close> are words of the same width. The modelled host is little-endian
  (the branch \<^verbatim>\<open>__BYTE_ORDER == __LITTLE_ENDIAN\<close> of the headers, which is what every Android
  target uses), so a multi-byte load is little-endian and \<^verbatim>\<open>ntohs\<close>, \<^verbatim>\<open>htons\<close>,
  \<^verbatim>\<open>ntohl\<close>, \<^verbatim>\<open>htonl\<close> swap bytes.

  A C object (a packet buffer, a struct) is a list of bytes and a pointer into it is an offset.
  Where C leaves the behaviour undefined (a load or a store outside the object) or stops the
  process (a failed \<^verbatim>\<open>assert\<close>, a call of \<^verbatim>\<open>die\<close>), the model has a value for it: the
  constructors \<open>Oob\<close> and \<open>Die\<close> of the type \<open>run\<close>.
\<close>

subsection \<open>Integer types\<close>

type_synonym u8 = "8 word"
type_synonym u16 = "16 word"
type_synonym u32 = "32 word"
type_synonym u64 = "64 word"
type_synonym bytes = "u8 list"

subsection \<open>Collections of facts\<close>

named_theorems byte_simps \<open>loads, stores and byte order\<close>
named_theorems run_simps \<open>sequencing of outcomes\<close>

subsection \<open>Outcomes\<close>

text \<open>The outcome of running a piece of C: a value, an access outside the object, or a stop.\<close>

datatype 'a run = Done 'a | Oob | Die

fun rbind :: "'a run \<Rightarrow> ('a \<Rightarrow> 'b run) \<Rightarrow> 'b run" where
  "rbind (Done x) f = f x"
| "rbind Oob f = Oob"
| "rbind Die f = Die"

text \<open>\<^verbatim>\<open>assert(b)\<close> followed by the rest of the function.\<close>

definition check :: "bool \<Rightarrow> 'a run \<Rightarrow> 'a run" where
  "check b r = (if b then r else Die)"

lemma rbind_Done_iff [run_simps]:
  "rbind r f = Done y \<longleftrightarrow> (\<exists>x. r = Done x \<and> f x = Done y)"
  by (cases r) auto

lemma rbind_Oob_iff [run_simps]:
  "rbind r f = Oob \<longleftrightarrow> r = Oob \<or> (\<exists>x. r = Done x \<and> f x = Oob)"
  by (cases r) auto

lemma rbind_Die_iff [run_simps]:
  "rbind r f = Die \<longleftrightarrow> r = Die \<or> (\<exists>x. r = Done x \<and> f x = Die)"
  by (cases r) auto

lemma check_True [simp]: "check True r = r"
  by (simp add: check_def)

lemma check_False [simp]: "check False r = Die"
  by (simp add: check_def)

lemma check_Done_iff [run_simps]: "check b r = Done x \<longleftrightarrow> b \<and> r = Done x"
  by (simp add: check_def)

lemma check_Oob_iff [run_simps]: "check b r = Oob \<longleftrightarrow> b \<and> r = Oob"
  by (simp add: check_def)

lemma check_Die_iff [run_simps]: "check b r = Die \<longleftrightarrow> (b \<longrightarrow> r = Die)"
  by (simp add: check_def)

subsection \<open>Status codes\<close>

text \<open>\<^verbatim>\<open>enum status_t\<close>, and the result of a function that fills in \<^verbatim>\<open>*error\<close>:
  \<open>Inl\<close> the message, \<open>Inr\<close> the value.\<close>

datatype status = STATUS_OK | STATUS_ERR | STATUS_WARN

subsection \<open>Byte order\<close>

text \<open>Little-endian loads of the host, big-endian ones of the wire.\<close>

definition le16 :: "u8 \<Rightarrow> u8 \<Rightarrow> u16" where
  "le16 a b = word_of_nat (unat a + 256 * unat b)"

definition le32 :: "u8 \<Rightarrow> u8 \<Rightarrow> u8 \<Rightarrow> u8 \<Rightarrow> u32" where
  "le32 a b c d = word_of_nat (unat a + 256 * unat b + 65536 * unat c + 16777216 * unat d)"

definition be16 :: "u8 \<Rightarrow> u8 \<Rightarrow> u16" where
  "be16 a b = le16 b a"

definition be32 :: "u8 \<Rightarrow> u8 \<Rightarrow> u8 \<Rightarrow> u8 \<Rightarrow> u32" where
  "be32 a b c d = le32 d c b a"

definition byte_of :: "nat \<Rightarrow> 'a::len word \<Rightarrow> u8" where
  "byte_of i w = word_of_nat (unat w div 256 ^ i)"

text \<open>\<^verbatim>\<open>htons\<close> and \<^verbatim>\<open>ntohs\<close> on a little-endian host; likewise the 32-bit pair.\<close>

definition htons :: "u16 \<Rightarrow> u16" where
  "htons w = le16 (byte_of 1 w) (byte_of 0 w)"

definition htonl :: "u32 \<Rightarrow> u32" where
  "htonl w = le32 (byte_of 3 w) (byte_of 2 w) (byte_of 1 w) (byte_of 0 w)"

text \<open>Bounds of the fixed widths, for linear arithmetic.\<close>

lemma u8_lt: "unat (a :: u8) < 256"
  using unsigned_less [of a, where ?'a = nat] by simp

lemma u16_lt: "unat (a :: u16) < 65536"
  using unsigned_less [of a, where ?'a = nat] by simp

lemma u32_lt: "unat (a :: u32) < 4294967296"
  using unsigned_less [of a, where ?'a = nat] by simp

lemma u64_lt: "unat (a :: u64) < 2 ^ 64"
  using unsigned_less [of a, where ?'a = nat] by simp

text \<open>Widening keeps the value.\<close>

lemma unat_ucast_up:
  assumes "LENGTH('a) \<le> LENGTH('b)"
  shows "unat (ucast (x :: 'a::len word) :: 'b::len word) = unat x"
proof -
  have "unat x < 2 ^ LENGTH('a)" by (rule unsigned_less)
  also have "(2 :: nat) ^ LENGTH('a) \<le> 2 ^ LENGTH('b)" using assms by simp
  finally show ?thesis
    unfolding unsigned_ucast_eq by (rule take_bit_nat_eq_self)
qed

lemma unat_ucast_widths [byte_simps]:
  "unat (ucast (a :: u8) :: u16) = unat a" "unat (ucast (a :: u8) :: u32) = unat a"
  "unat (ucast (a :: u8) :: u64) = unat a" "unat (ucast (b :: u16) :: u32) = unat b"
  "unat (ucast (b :: u16) :: u64) = unat b" "unat (ucast (c :: u32) :: u64) = unat c"
  by (rule unat_ucast_up; simp)+

text \<open>The base-256 digits of a number.\<close>

lemma digits4:
  "x mod 256 + 256 * (x div 256 mod 256) + 65536 * (x div 65536 mod 256)
    + 16777216 * (x div 16777216) = (x :: nat)"
proof -
  define y where "y = x div 256"
  define z where "z = y div 256"
  have e: "x div 256 = y" "x div 65536 = z" "x div 16777216 = z div 256"
    by (simp_all add: y_def z_def div_mult2_eq [symmetric])
  have "x = 256 * y + x mod 256" "y = 256 * z + y mod 256" "z = 256 * (z div 256) + z mod 256"
    by (simp_all add: y_def z_def)
  then show ?thesis
    unfolding e by linarith
qed

lemma digits4_of:
  assumes "a < 256" "b < 256" "c < (256 :: nat)"
  shows "(a + 256 * b + 65536 * c + 16777216 * d) mod 256 = a"
    "(a + 256 * b + 65536 * c + 16777216 * d) div 256 = b + 256 * c + 65536 * d"
    "(a + 256 * b + 65536 * c + 16777216 * d) div 65536 = c + 256 * d"
    "(a + 256 * b + 65536 * c + 16777216 * d) div 16777216 = d"
proof -
  have 1: "(a + 256 * r) mod 256 = a" "(a + 256 * r) div 256 = r" for r
    using assms(1) by simp_all
  have eq: "a + 256 * b + 65536 * c + 16777216 * d = a + 256 * (b + 256 * (c + 256 * d))"
    by simp
  show "(a + 256 * b + 65536 * c + 16777216 * d) mod 256 = a"
    unfolding eq by (rule 1)
  show 2: "(a + 256 * b + 65536 * c + 16777216 * d) div 256 = b + 256 * c + 65536 * d"
    unfolding eq 1 by simp
  have "(a + 256 * b + 65536 * c + 16777216 * d) div 65536
      = (a + 256 * b + 65536 * c + 16777216 * d) div 256 div 256"
    by (simp add: div_mult2_eq [symmetric])
  then show 3: "(a + 256 * b + 65536 * c + 16777216 * d) div 65536 = c + 256 * d"
    unfolding 2 using assms(2) by simp
  have "(a + 256 * b + 65536 * c + 16777216 * d) div 16777216
      = (a + 256 * b + 65536 * c + 16777216 * d) div 65536 div 256"
    by (simp add: div_mult2_eq [symmetric])
  then show "(a + 256 * b + 65536 * c + 16777216 * d) div 16777216 = d"
    unfolding 3 using assms(3) by simp
qed

lemma unat_le16 [byte_simps]: "unat (le16 a b) = unat a + 256 * unat b"
proof -
  have "unat a < 256" "unat b < 256"
    using u8_lt by blast+
  then have "unat a + 256 * unat b < 2 ^ LENGTH(16)" by simp
  then show ?thesis by (simp only: le16_def unat_of_nat mod_less)
qed

lemma unat_le32 [byte_simps]:
  "unat (le32 a b c d) = unat a + 256 * unat b + 65536 * unat c + 16777216 * unat d"
proof -
  have "unat a < 256" "unat b < 256" "unat c < 256" "unat d < 256"
    using u8_lt by blast+
  then have "unat a + 256 * unat b + 65536 * unat c + 16777216 * unat d < 2 ^ LENGTH(32)" by simp
  then show ?thesis by (simp only: le32_def unat_of_nat mod_less)
qed

lemma unat_be16 [byte_simps]: "unat (be16 a b) = 256 * unat a + unat b"
  by (simp add: be16_def unat_le16)

lemma unat_be32 [byte_simps]:
  "unat (be32 a b c d) = 16777216 * unat a + 65536 * unat b + 256 * unat c + unat d"
  by (simp add: be32_def unat_le32)

lemma unat_byte_of [byte_simps]: "unat (byte_of i w) = unat w div 256 ^ i mod 256"
  by (simp add: byte_of_def unat_of_nat)

lemma le16_bytes [simp]: "le16 (byte_of 0 w) (byte_of (Suc 0) w) = (w :: u16)"
proof (rule word_unat_eq_iff [THEN iffD2])
  have "unat w < 65536"
    using u16_lt [of w] by simp
  then show "unat (le16 (byte_of 0 w) (byte_of (Suc 0) w)) = unat w"
    by (simp add: byte_simps)
qed

lemma be16_bytes [simp]: "be16 (byte_of (Suc 0) w) (byte_of 0 w) = (w :: u16)"
  by (simp add: be16_def)

lemma le32_bytes [simp]:
  "le32 (byte_of 0 w) (byte_of (Suc 0) w) (byte_of 2 w) (byte_of 3 w) = (w :: u32)"
proof (rule word_unat_eq_iff [THEN iffD2])
  have "unat w div 16777216 mod 256 = unat w div 16777216"
    using u32_lt [of w] by simp
  then show "unat (le32 (byte_of 0 w) (byte_of (Suc 0) w) (byte_of 2 w) (byte_of 3 w)) = unat w"
    using digits4 [of "unat w"] by (simp add: byte_simps)
qed

lemma be32_bytes [simp]:
  "be32 (byte_of 3 w) (byte_of 2 w) (byte_of (Suc 0) w) (byte_of 0 w) = (w :: u32)"
  by (simp add: be32_def)

lemma byte_of_le16 [simp]: "byte_of 0 (le16 a b) = a" "byte_of (Suc 0) (le16 a b) = b"
  using u8_lt [of a] u8_lt [of b]
  by (simp_all add: word_unat_eq_iff byte_simps)

lemma byte_of_le32 [simp]:
  "byte_of 0 (le32 a b c d) = a" "byte_of (Suc 0) (le32 a b c d) = b"
  "byte_of 2 (le32 a b c d) = c" "byte_of 3 (le32 a b c d) = d"
proof -
  have "x + 256 * y + 65536 * z = x + (y + 256 * z) * 256" for x y z :: nat
    by simp
  then have "(x + 256 * y + 65536 * z) mod 256 = x" if "x < 256" for x y z :: nat
    using that by (simp only: mod_mult_self1 mod_less)
  moreover have "(x + 256 * y) mod 256 = x" if "x < 256" for x y :: nat
    using that by simp
  ultimately have m: "(unat v + 256 * y + 65536 * z) mod 256 = unat v"
    "(unat v + 256 * y) mod 256 = unat v" for v :: u8 and y z
    using u8_lt by blast+
  show "byte_of 0 (le32 a b c d) = a" "byte_of (Suc 0) (le32 a b c d) = b"
    "byte_of 2 (le32 a b c d) = c" "byte_of 3 (le32 a b c d) = d"
    using digits4_of [OF u8_lt u8_lt u8_lt, of a b c "unat d"] u8_lt [of d]
    by (simp_all add: word_unat_eq_iff byte_simps m)
qed

lemma htons_htons [simp]: "htons (htons w) = w"
  by (simp add: htons_def)

lemma htonl_htonl [simp]: "htonl (htonl w) = w"
  by (simp add: htonl_def)

lemma htons_le16: "htons (le16 a b) = be16 a b"
  by (simp add: htons_def be16_def)

lemma htonl_le32: "htonl (le32 a b c d) = be32 a b c d"
  by (simp add: htonl_def be32_def)

subsection \<open>Loads and stores at an offset\<close>

text \<open>A load at an offset of an object; outside the object it is \<open>Oob\<close>.\<close>

definition ld8 :: "bytes \<Rightarrow> nat \<Rightarrow> u8 run" where
  "ld8 bs i = (if i < length bs then Done (bs ! i) else Oob)"

definition ld_be16 :: "bytes \<Rightarrow> nat \<Rightarrow> u16 run" where
  "ld_be16 bs i = (if i + 1 < length bs then Done (be16 (bs ! i) (bs ! (i + 1))) else Oob)"

definition ld_be32 :: "bytes \<Rightarrow> nat \<Rightarrow> u32 run" where
  "ld_be32 bs i = (if i + 3 < length bs
     then Done (be32 (bs ! i) (bs ! (i + 1)) (bs ! (i + 2)) (bs ! (i + 3))) else Oob)"

text \<open>A store of a run of bytes at an offset.\<close>

definition poke :: "bytes \<Rightarrow> nat \<Rightarrow> bytes \<Rightarrow> bytes" where
  "poke bs i xs = take i bs @ xs @ drop (i + length xs) bs"

definition store :: "bytes \<Rightarrow> nat \<Rightarrow> bytes \<Rightarrow> bytes run" where
  "store bs i xs = (if i + length xs \<le> length bs then Done (poke bs i xs) else Oob)"

text \<open>The bytes of a 16- or 32-bit value in host order and in wire order.\<close>

definition le16_bytes_of :: "u16 \<Rightarrow> bytes" where
  "le16_bytes_of w = [byte_of 0 w, byte_of 1 w]"

definition be16_bytes_of :: "u16 \<Rightarrow> bytes" where
  "be16_bytes_of w = [byte_of 1 w, byte_of 0 w]"

definition be32_bytes_of :: "u32 \<Rightarrow> bytes" where
  "be32_bytes_of w = [byte_of 3 w, byte_of 2 w, byte_of 1 w, byte_of 0 w]"

lemma length_bytes_of [simp]:
  "length (le16_bytes_of w) = 2" "length (be16_bytes_of w) = 2" "length (be32_bytes_of v) = 4"
  by (simp_all add: le16_bytes_of_def be16_bytes_of_def be32_bytes_of_def)

lemma length_poke [simp]: "i + length xs \<le> length bs \<Longrightarrow> length (poke bs i xs) = length bs"
  by (simp add: poke_def)

lemma nth_poke:
  "i + length xs \<le> length bs \<Longrightarrow> j < length bs \<Longrightarrow>
   poke bs i xs ! j = (if i \<le> j \<and> j < i + length xs then xs ! (j - i) else bs ! j)"
  by (auto simp: poke_def nth_append)

lemma store_in: "i + length xs \<le> length bs \<Longrightarrow> store bs i xs = Done (poke bs i xs)"
  by (simp add: store_def)

lemma poke_split:
  assumes "i + length xs \<le> length bs"
  obtains p q r where "bs = p @ q @ r" "length p = i" "length q = length xs"
    "poke bs i xs = p @ xs @ r"
proof
  show "bs = take i bs @ take (length xs) (drop i bs) @ drop (i + length xs) bs"
    by (metis add.commute append_take_drop_id drop_drop)
  show "poke bs i xs = take i bs @ xs @ drop (i + length xs) bs"
    by (simp add: poke_def)
qed (use assms in auto)

lemma poke_append [simp]: "length p = i \<Longrightarrow> length q = length xs \<Longrightarrow> poke (p @ q @ r) i xs = p @ xs @ r"
  by (simp add: poke_def)

subsection \<open>Printing numbers\<close>

text \<open>The conversions \<^verbatim>\<open>%u\<close> and \<^verbatim>\<open>%02x\<close> of \<^verbatim>\<open>printf\<close>.\<close>

definition digit_char :: "nat \<Rightarrow> char" where
  "digit_char n = (if n < 10 then char_of (48 + n) else char_of (87 + n))"

fun dec :: "nat \<Rightarrow> string" where
  "dec n = (if n < 10 then [digit_char n] else dec (n div 10) @ [digit_char (n mod 10)])"

declare dec.simps [simp del]

definition hex2 :: "u8 \<Rightarrow> string" where
  "hex2 b = [digit_char (unat b div 16), digit_char (unat b mod 16)]"

text \<open>Sequences of outcomes.\<close>

fun run_map :: "('a \<Rightarrow> 'b run) \<Rightarrow> 'a list \<Rightarrow> 'b list run" where
  "run_map f [] = Done []"
| "run_map f (x # xs) = rbind (f x) (\<lambda>y. rbind (run_map f xs) (\<lambda>ys. Done (y # ys)))"

lemma ld8_Done_iff [run_simps]: "ld8 bs i = Done b \<longleftrightarrow> i < length bs \<and> b = bs ! i"
  by (auto simp: ld8_def)

lemma ld8_not_Die [run_simps]: "ld8 bs i \<noteq> Die" "ld8 bs i = Oob \<longleftrightarrow> length bs \<le> i"
  by (auto simp: ld8_def)

lemma ld8_in [simp]: "i < length bs \<Longrightarrow> ld8 bs i = Done (bs ! i)"
  by (simp add: ld8_def)

end
