(* ===== verification/Checksum.thy ===== *)
theory Checksum
  imports Prelude
begin

section \<open>Internet checksum and CRC32C\<close>

text \<open>
  The model of \<^verbatim>\<open>checksum.c\<close>: the running 64-bit sum, its folding to 16 bits, the IPv4 header
  checksum, the TCP/UDP checksum with the IPv4 or IPv6 pseudo-header, and the table-driven CRC32C
  of SCTP. The lemmas show that folding computes the one's-complement sum of 16-bit words, that a
  header whose checksum field was filled in verifies, that a corrupted byte is noticed, and that
  the CRC table computes the bit-by-bit CRC with the Castagnoli polynomial.
\<close>

subsection \<open>The running sum\<close>

text \<open>Lines 44 to 55 of \<^verbatim>\<open>ip_checksum_partial\<close>: the bytes left after the 32-bit words.\<close>

definition ip_checksum_tail :: "bytes \<Rightarrow> u64 \<Rightarrow> u64" where
  "ip_checksum_tail p16 acc =
     (let (acc, p8) = (case p16 of a # b # q \<Rightarrow> (acc + ucast (le16 a b), q) | _ \<Rightarrow> (acc, p16))
      in case p8 of [] \<Rightarrow> acc | a # _ \<Rightarrow> acc + ucast (htons (push_bit 8 (ucast a))))"

fun ip_checksum_partial :: "bytes \<Rightarrow> u64 \<Rightarrow> u64" where
  "ip_checksum_partial (a # b # c # d # p32) acc =
     ip_checksum_partial p32 (acc + ucast (le32 a b c d))"
| "ip_checksum_partial p32 acc = ip_checksum_tail p32 acc"

subsection \<open>Folding\<close>

lemma masks:
  "(0xffffffff :: u64) = mask 32" "(0xffff :: u64) = mask 16"
  "(0xffff0000 :: u64) = mask 32 AND NOT (mask 16)"
  by (simp_all add: mask_numeral)

lemma unat_and_mask: "unat ((w :: u64) AND mask n) = unat w mod 2 ^ n"
  unfolding take_bit_eq_mask [symmetric] unsigned_take_bit_eq by (rule take_bit_eq_mod)

lemma unat_hi: "unat (drop_bit n (w :: u64)) = unat w div 2 ^ n"
  unfolding unat_drop_bit_eq by (rule drop_bit_eq_div)

lemma and_mask_eq_iff: "(w :: u64) AND mask n = w \<longleftrightarrow> unat w < 2 ^ n"
  by (simp only: word_unat_eq_iff unat_and_mask) (simp add: mod_eq_self_iff_div_eq_0 div_eq_0_iff)

lemma and_not_mask_eq_0_iff: "(w :: u64) AND NOT (mask n) = 0 \<longleftrightarrow> unat w < 2 ^ n"
proof -
  have "w AND NOT (mask n) = 0 \<longleftrightarrow> w AND mask n = w"
  proof
    assume 0: "w AND NOT (mask n) = 0"
    have "w = (w AND mask n) OR (w AND NOT (mask n))"
      by (simp add: bit.conj_disj_distrib [symmetric])
    with 0 show "w AND mask n = w" by simp
  next
    assume "w AND mask n = w"
    then show "w AND NOT (mask n) = 0"
      by (metis and.assoc and.right_neutral bit.conj_cancel_right bit.conj_zero_right)
  qed
  then show ?thesis by (simp only: and_mask_eq_iff)
qed

lemma and_mid16_0D:
  assumes "(w :: u64) AND 0xffff0000 \<noteq> 0"
  shows "2 ^ 16 \<le> unat w"
proof (rule ccontr)
  assume "\<not> 2 ^ 16 \<le> unat w"
  then have "w AND NOT (mask 16) = 0" by (simp only: and_not_mask_eq_0_iff not_le)
  moreover have "w AND 0xffff0000 = (w AND NOT (mask 16)) AND mask 32"
    by (simp only: masks ac_simps)
  ultimately show False using assms by (metis and_zero_eq and.commute)
qed

lemma and_mid16_0I:
  assumes "unat (w :: u64) < 2 ^ 32" and "w AND 0xffff0000 = 0"
  shows "unat w < 2 ^ 16"
proof -
  have "w AND mask 32 = w" using assms(1) by (simp only: and_mask_eq_iff)
  moreover have "w AND 0xffff0000 = (w AND mask 32) AND NOT (mask 16)"
    by (simp only: masks ac_simps)
  ultimately have "w AND NOT (mask 16) = 0" using assms(2) by simp
  then show ?thesis by (simp only: and_not_mask_eq_0_iff)
qed

lemma unat_add64: "unat (x :: u64) + unat y < 2 ^ 64 \<Longrightarrow> unat (x + y) = unat x + unat y"
  by (simp add: unat_word_ariths)

lemma unat_fold_step:
  assumes "0 < k" "k < 64"
  shows "unat (drop_bit k (w :: u64) + (w AND mask k)) = unat w div 2 ^ k + unat w mod 2 ^ k"
proof -
  have "unat w div 2 ^ k + unat w mod 2 ^ k \<le> unat w"
    by (metis add_le_mono1 div_mult_mod_eq div_times_less_eq_dividend mult.commute
        mult_le_mono2 nat_mult_1 one_le_numeral one_le_power)
  also have "\<dots> < 2 ^ 64" by (rule u64_lt)
  finally have "unat (drop_bit k w) + unat (w AND mask k) < 2 ^ 64"
    by (simp only: unat_hi unat_and_mask)
  then show ?thesis by (simp only: unat_add64 unat_hi unat_and_mask)
qed

lemma fold_step_less: "2 ^ k \<le> (n :: nat) \<Longrightarrow> 1 \<le> k \<Longrightarrow> n div 2 ^ k + n mod 2 ^ k < n"
proof -
  assume k: "2 ^ k \<le> n" "1 \<le> k"
  have "(2::nat) \<le> 2 ^ k" using power_increasing [OF k(2), of "2::nat"] by simp
  moreover have "0 < n div 2 ^ k" using k(1) by (simp add: div_greater_zero_iff)
  ultimately have "n div 2 ^ k < 2 ^ k * (n div 2 ^ k)" by simp
  then show ?thesis by (metis add_less_cancel_right mult_div_mod_eq)
qed

lemma fold32_less:
  assumes "w AND NOT 0xffffffff \<noteq> 0"
  shows "unat (drop_bit 32 (w :: u64) + (w AND 0xffffffff)) < unat w"
proof -
  have "2 ^ 32 \<le> unat w" using assms by (simp only: masks and_not_mask_eq_0_iff not_less)
  then show ?thesis unfolding masks by (simp only: unat_fold_step fold_step_less)
qed

lemma fold16_less:
  assumes "w AND 0xffff0000 \<noteq> 0"
  shows "unat (drop_bit 16 (w :: u64) + (w AND 0xffff)) < unat w"
  using and_mid16_0D [OF assms] unfolding masks(2) by (simp only: unat_fold_step fold_step_less)

function fold32 :: "u64 \<Rightarrow> u64" where
  "fold32 acc = (if acc AND NOT 0xffffffff \<noteq> 0
     then fold32 (drop_bit 32 acc + (acc AND 0xffffffff)) else acc)"
  by pat_completeness auto
termination
  by (relation "measure unat") (rule wf_measure, unfold in_measure, rule fold32_less)

function fold16 :: "u64 \<Rightarrow> u64" where
  "fold16 acc = (if acc AND 0xffff0000 \<noteq> 0
     then fold16 (drop_bit 16 acc + (acc AND 0xffff)) else acc)"
  by pat_completeness auto
termination
  by (relation "measure unat") (rule wf_measure, unfold in_measure, rule fold16_less)

declare fold32.simps [simp del] fold16.simps [simp del]

definition ip_checksum_fold :: "u64 \<Rightarrow> u16" where
  "ip_checksum_fold acc = ucast (NOT (fold16 (fold32 acc)))"

subsection \<open>Checksums of headers and segments\<close>

definition ipv4_checksum :: "bytes \<Rightarrow> u16" where
  "ipv4_checksum ip_header = ip_checksum_fold (ip_checksum_partial ip_header 0)"

text \<open>The pseudo-headers: addresses are the bytes of the address in wire order.\<close>

definition ipv4_pseudo_header :: "bytes \<Rightarrow> bytes \<Rightarrow> u8 \<Rightarrow> u16 \<Rightarrow> bytes" where
  "ipv4_pseudo_header src_ip dst_ip protocol len =
     src_ip @ dst_ip @ [0, protocol] @ be16_bytes_of len"

definition tcp_udp_v4_header_checksum_partial :: "bytes \<Rightarrow> bytes \<Rightarrow> u8 \<Rightarrow> u16 \<Rightarrow> u64" where
  "tcp_udp_v4_header_checksum_partial src_ip dst_ip protocol len =
     ip_checksum_partial (ipv4_pseudo_header src_ip dst_ip protocol len) 0"

definition tcp_udp_v4_checksum :: "bytes \<Rightarrow> bytes \<Rightarrow> u8 \<Rightarrow> bytes \<Rightarrow> u16" where
  "tcp_udp_v4_checksum src_ip dst_ip protocol payload =
     ip_checksum_fold (ip_checksum_partial payload
       (tcp_udp_v4_header_checksum_partial src_ip dst_ip protocol (word_of_nat (length payload))))"

definition ipv6_pseudo_header :: "bytes \<Rightarrow> bytes \<Rightarrow> u8 \<Rightarrow> u32 \<Rightarrow> bytes" where
  "ipv6_pseudo_header src_ip dst_ip protocol len =
     src_ip @ dst_ip @ be32_bytes_of len @ [0, 0, 0, protocol]"

definition tcp_udp_v6_header_checksum_partial :: "bytes \<Rightarrow> bytes \<Rightarrow> u8 \<Rightarrow> u32 \<Rightarrow> u64" where
  "tcp_udp_v6_header_checksum_partial src_ip dst_ip protocol len =
     ip_checksum_partial (ipv6_pseudo_header src_ip dst_ip protocol len) 0"

definition tcp_udp_v6_checksum :: "bytes \<Rightarrow> bytes \<Rightarrow> u8 \<Rightarrow> bytes \<Rightarrow> u16" where
  "tcp_udp_v6_checksum src_ip dst_ip protocol payload =
     ip_checksum_fold (ip_checksum_partial payload
       (tcp_udp_v6_header_checksum_partial src_ip dst_ip protocol (word_of_nat (length payload))))"

subsection \<open>CRC32C\<close>

definition crc_c :: "u32 list" where
  "crc_c = [
    0x00000000, 0xf26b8303, 0xe13b70f7, 0x1350f3f4, 0xc79a971f, 0x35f1141c, 0x26a1e7e8, 0xd4ca64eb,
    0x8ad958cf, 0x78b2dbcc, 0x6be22838, 0x9989ab3b, 0x4d43cfd0, 0xbf284cd3, 0xac78bf27, 0x5e133c24,
    0x105ec76f, 0xe235446c, 0xf165b798, 0x030e349b, 0xd7c45070, 0x25afd373, 0x36ff2087, 0xc494a384,
    0x9a879fa0, 0x68ec1ca3, 0x7bbcef57, 0x89d76c54, 0x5d1d08bf, 0xaf768bbc, 0xbc267848, 0x4e4dfb4b,
    0x20bd8ede, 0xd2d60ddd, 0xc186fe29, 0x33ed7d2a, 0xe72719c1, 0x154c9ac2, 0x061c6936, 0xf477ea35,
    0xaa64d611, 0x580f5512, 0x4b5fa6e6, 0xb93425e5, 0x6dfe410e, 0x9f95c20d, 0x8cc531f9, 0x7eaeb2fa,
    0x30e349b1, 0xc288cab2, 0xd1d83946, 0x23b3ba45, 0xf779deae, 0x05125dad, 0x1642ae59, 0xe4292d5a,
    0xba3a117e, 0x4851927d, 0x5b016189, 0xa96ae28a, 0x7da08661, 0x8fcb0562, 0x9c9bf696, 0x6ef07595,
    0x417b1dbc, 0xb3109ebf, 0xa0406d4b, 0x522bee48, 0x86e18aa3, 0x748a09a0, 0x67dafa54, 0x95b17957,
    0xcba24573, 0x39c9c670, 0x2a993584, 0xd8f2b687, 0x0c38d26c, 0xfe53516f, 0xed03a29b, 0x1f682198,
    0x5125dad3, 0xa34e59d0, 0xb01eaa24, 0x42752927, 0x96bf4dcc, 0x64d4cecf, 0x77843d3b, 0x85efbe38,
    0xdbfc821c, 0x2997011f, 0x3ac7f2eb, 0xc8ac71e8, 0x1c661503, 0xee0d9600, 0xfd5d65f4, 0x0f36e6f7,
    0x61c69362, 0x93ad1061, 0x80fde395, 0x72966096, 0xa65c047d, 0x5437877e, 0x4767748a, 0xb50cf789,
    0xeb1fcbad, 0x197448ae, 0x0a24bb5a, 0xf84f3859, 0x2c855cb2, 0xdeeedfb1, 0xcdbe2c45, 0x3fd5af46,
    0x7198540d, 0x83f3d70e, 0x90a324fa, 0x62c8a7f9, 0xb602c312, 0x44694011, 0x5739b3e5, 0xa55230e6,
    0xfb410cc2, 0x092a8fc1, 0x1a7a7c35, 0xe811ff36, 0x3cdb9bdd, 0xceb018de, 0xdde0eb2a, 0x2f8b6829,
    0x82f63b78, 0x709db87b, 0x63cd4b8f, 0x91a6c88c, 0x456cac67, 0xb7072f64, 0xa457dc90, 0x563c5f93,
    0x082f63b7, 0xfa44e0b4, 0xe9141340, 0x1b7f9043, 0xcfb5f4a8, 0x3dde77ab, 0x2e8e845f, 0xdce5075c,
    0x92a8fc17, 0x60c37f14, 0x73938ce0, 0x81f80fe3, 0x55326b08, 0xa759e80b, 0xb4091bff, 0x466298fc,
    0x1871a4d8, 0xea1a27db, 0xf94ad42f, 0x0b21572c, 0xdfeb33c7, 0x2d80b0c4, 0x3ed04330, 0xccbbc033,
    0xa24bb5a6, 0x502036a5, 0x4370c551, 0xb11b4652, 0x65d122b9, 0x97baa1ba, 0x84ea524e, 0x7681d14d,
    0x2892ed69, 0xdaf96e6a, 0xc9a99d9e, 0x3bc21e9d, 0xef087a76, 0x1d63f975, 0x0e330a81, 0xfc588982,
    0xb21572c9, 0x407ef1ca, 0x532e023e, 0xa145813d, 0x758fe5d6, 0x87e466d5, 0x94b49521, 0x66df1622,
    0x38cc2a06, 0xcaa7a905, 0xd9f75af1, 0x2b9cd9f2, 0xff56bd19, 0x0d3d3e1a, 0x1e6dcdee, 0xec064eed,
    0xc38d26c4, 0x31e6a5c7, 0x22b65633, 0xd0ddd530, 0x0417b1db, 0xf67c32d8, 0xe52cc12c, 0x1747422f,
    0x49547e0b, 0xbb3ffd08, 0xa86f0efc, 0x5a048dff, 0x8ecee914, 0x7ca56a17, 0x6ff599e3, 0x9d9e1ae0,
    0xd3d3e1ab, 0x21b862a8, 0x32e8915c, 0xc083125f, 0x144976b4, 0xe622f5b7, 0xf5720643, 0x07198540,
    0x590ab964, 0xab613a67, 0xb831c993, 0x4a5a4a90, 0x9e902e7b, 0x6cfbad78, 0x7fab5e8c, 0x8dc0dd8f,
    0xe330a81a, 0x115b2b19, 0x020bd8ed, 0xf0605bee, 0x24aa3f05, 0xd6c1bc06, 0xc5914ff2, 0x37faccf1,
    0x69e9f0d5, 0x9b8273d6, 0x88d28022, 0x7ab90321, 0xae7367ca, 0x5c18e4c9, 0x4f48173d, 0xbd23943e,
    0xf36e6f75, 0x0105ec76, 0x12551f82, 0xe03e9c81, 0x34f4f86a, 0xc69f7b69, 0xd5cf889d, 0x27a40b9e,
    0x79b737ba, 0x8bdcb4b9, 0x988c474d, 0x6ae7c44e, 0xbe2da0a5, 0x4c4623a6, 0x5f16d052, 0xad7d5351]"

text \<open>The macro \<^verbatim>\<open>CRC32C(c, d)\<close>.\<close>

definition CRC32C :: "u32 \<Rightarrow> u8 \<Rightarrow> u32" where
  "CRC32C c d = drop_bit 8 c XOR crc_c ! unat ((c XOR ucast d) AND 0xff)"

text \<open>The bytes are combined as the code writes it, and the result is in network byte order.\<close>

definition sctp_crc32c :: "bytes \<Rightarrow> u32" where
  "sctp_crc32c packet =
     (let crc32c = NOT (foldl CRC32C (NOT 0) packet);
          byte0 = ucast (crc32c AND 0xff) :: u8;
          byte1 = ucast (drop_bit 8 crc32c AND 0xff) :: u8;
          byte2 = ucast (drop_bit 16 crc32c AND 0xff) :: u8;
          byte3 = ucast (drop_bit 24 crc32c AND 0xff) :: u8
      in htonl (push_bit 24 (ucast byte0) OR push_bit 16 (ucast byte1)
           OR push_bit 8 (ucast byte2) OR ucast byte3))"

subsection \<open>What the running sum and the folding compute\<close>

text \<open>The sum of the 16-bit words as the host loads them, an odd last byte padded with zero.\<close>

fun words_sum :: "bytes \<Rightarrow> nat" where
  "words_sum (a # b # q) = unat a + 256 * unat b + words_sum q"
| "words_sum [a] = unat a"
| "words_sum [] = 0"

lemma pad_byte: "htons (push_bit 8 (ucast (a :: u8))) = ucast a"
proof -
  have "unat (push_bit 8 (ucast a) :: u16) = 256 * unat a"
    using u8_lt [of a] by (simp add: push_bit_eq_mult unat_word_ariths byte_simps)
  then have "push_bit 8 (ucast a) = le16 0 a"
    by (simp add: word_unat_eq_iff byte_simps)
  then have "htons (push_bit 8 (ucast a)) = be16 0 a"
    by (simp only: htons_le16)
  then show ?thesis
    by (simp add: word_unat_eq_iff byte_simps)
qed

lemma words_sum_append: "even (length p) \<Longrightarrow> words_sum (p @ q) = words_sum p + words_sum q"
  by (induction p rule: words_sum.induct) auto

lemma unat_add_small:
  fixes s :: u64 
  assumes "unat s + 2 ^ 32 * Suc n < 2 ^ 64" "unat v < 2 ^ 32"
  shows "unat (s + v) = unat s + unat v" "unat (s + v) + 2 ^ 32 * n < 2 ^ 64"
proof -
  show "unat (s + v) = unat s + unat v" by (rule unat_add64) (use assms in simp)
  then show "unat (s + v) + 2 ^ 32 * n < 2 ^ 64" using assms by simp
qed

lemma unat_tail:
  assumes "length p < 4" "unat s + 2 ^ 32 * length p < 2 ^ 64"
  shows "unat (ip_checksum_tail p s) = unat s + words_sum p"
proof -
  have w: "unat (ucast (le16 a b) :: u64) = unat a + 256 * unat b" for a b
    by (simp add: byte_simps)
  have w8: "unat (ucast (ucast (a :: u8) :: u16) :: u64) = unat a" for a
    by (simp add: byte_simps)
  have small: "unat a + 256 * unat b < 2 ^ 32" "unat a < 2 ^ 32" for a b :: u8
    using u8_lt [of a] u8_lt [of b] by simp_all
  consider "p = []" | a where "p = [a]" | a b where "p = [a, b]" | a b c where "p = [a, b, c]"
    using assms(1) by (auto simp: numeral_eq_Suc length_Suc_conv less_Suc_eq)
  then show ?thesis
  proof cases
    case (2 a)
    then show ?thesis using assms(2) small(2) [of a]
      by (simp add: ip_checksum_tail_def pad_byte unat_add64 w8)
  next
    case (3 a b)
    then show ?thesis using assms(2) small(1) [of a b]
      by (simp add: ip_checksum_tail_def unat_add64 w)
  next
    case (4 a b c)
    then show ?thesis using assms(2) small(1) [of a b] small(2) [of c]
      by (simp add: ip_checksum_tail_def pad_byte unat_add64 w w8)
  qed (simp add: ip_checksum_tail_def)
qed

lemma ip_checksum_partial_sum:
  "unat s + 2 ^ 32 * length p < 2 ^ 64 \<Longrightarrow>
   \<exists>k \<le> words_sum p. unat (ip_checksum_partial p s) = unat s + words_sum p + 65535 * k"
proof (induction p s rule: ip_checksum_partial.induct)
  case (1 a b c d p32 s)
  let ?v = "ucast (le32 a b c d) :: u64"
  have v: "unat ?v = unat a + 256 * unat b + 65536 * unat c + 16777216 * unat d"
    by (simp add: byte_simps)
  then have "unat ?v < 2 ^ 32"
    using u8_lt [of a] u8_lt [of b] u8_lt [of c] u8_lt [of d] by simp
  then have s: "unat (s + ?v) = unat s + unat ?v" "unat (s + ?v) + 2 ^ 32 * length p32 < 2 ^ 64"
    using unat_add_small [of s "length p32" ?v] "1.prems" by simp_all
  obtain k where "k \<le> words_sum p32"
    and "unat (ip_checksum_partial p32 (s + ?v)) = unat (s + ?v) + words_sum p32 + 65535 * k"
    using "1.IH" s(2) by blast
  then have "k + unat c + 256 * unat d \<le> words_sum (a # b # c # d # p32)
      \<and> unat (ip_checksum_partial (a # b # c # d # p32) s)
      = unat s + words_sum (a # b # c # d # p32) + 65535 * (k + unat c + 256 * unat d)"
    using s(1) v by simp
  then show ?case by blast
qed (rule exI [of _ 0], simp add: unat_tail)+

text \<open>The one's-complement value of a sum, with 0 only for 0.\<close>

definition oc_norm :: "nat \<Rightarrow> nat" where
  "oc_norm n = (if n = 0 then 0 else (n - 1) mod 65535 + 1)"

lemma oc_norm_eqI: 
  assumes "r < 65536" "r mod 65535 = n mod 65535" "r = 0 \<longleftrightarrow> n = 0"
  shows "oc_norm n = r"
proof (cases "n = 0")
  case False
  moreover have "(i - 1) mod 65535 = (i + 65534) mod 65535" if "i \<noteq> 0" for i :: nat
    using that mod_add_self2 [of "i - 1" 65535] by (cases i) simp_all
  ultimately have "(n - 1) mod 65535 = (r - 1) mod 65535"
    using assms(2,3) by (metis mod_add_left_eq)
  with False assms show ?thesis by (simp add: oc_norm_def)
qed (use assms in \<open>simp add: oc_norm_def\<close>)

lemma oc_norm_lt: "oc_norm n < 65536"
  using mod_less_divisor [of 65535 "n - 1"] by (simp add: oc_norm_def)

lemma oc_norm_mod: "oc_norm n mod 65535 = n mod 65535"
  by (simp add: oc_norm_def mod_Suc_eq)

lemma oc_norm_0_iff: "oc_norm n = 0 \<longleftrightarrow> n = 0"
  by (simp add: oc_norm_def)

lemma oc_norm_cong: "m mod 65535 = n mod 65535 \<Longrightarrow> (m = 0 \<longleftrightarrow> n = 0) \<Longrightarrow> oc_norm m = oc_norm n"
  by (intro oc_norm_eqI) (simp_all add: oc_norm_lt oc_norm_mod oc_norm_0_iff)

lemma oc_norm_fold_gen:
  assumes "P = 65535 * m + 1"
  shows "oc_norm (n div P + n mod P) = oc_norm n"
proof -
  define q r where "q = n div P" and "r = n mod P"
  have n: "n = P * q + r" by (simp add: q_def r_def)
  have "n = q + r + 65535 * (m * q)" unfolding n assms by (simp add: algebra_simps)
  moreover have "x = y + 65535 * z \<Longrightarrow> y mod 65535 = x mod 65535" for x y z :: nat by simp
  ultimately have "(q + r) mod 65535 = n mod 65535" by blast
  moreover have "q + r = 0 \<longleftrightarrow> n = 0" unfolding n using assms by auto
  ultimately show ?thesis unfolding q_def [symmetric] r_def [symmetric] by (rule oc_norm_cong)
qed

lemma oc_norm_fold:
  "oc_norm (n div 2 ^ 16 + n mod 2 ^ 16) = oc_norm n"
  "oc_norm (n div 2 ^ 32 + n mod 2 ^ 32) = oc_norm n"
  by (rule oc_norm_fold_gen [of _ 1], simp) (rule oc_norm_fold_gen [of _ 65537], simp)

lemma fold32_oc: "oc_norm (unat (fold32 s)) = oc_norm (unat s) \<and> unat (fold32 s) < 2 ^ 32"
proof (induction s rule: fold32.induct)
  case (1 s)
  show ?case
  proof (cases "s AND NOT 0xffffffff \<noteq> 0")
    case True
    have "unat (drop_bit 32 s + (s AND 0xffffffff)) = unat s div 2 ^ 32 + unat s mod 2 ^ 32"
      unfolding masks by (rule unat_fold_step) simp_all
    with 1 [OF True] oc_norm_fold(2) [of "unat s"] show ?thesis
      by (subst (1 2) fold32.simps) (simp only: True if_True; simp)
  next
    case False
    then have "unat s < 2 ^ 32" unfolding masks and_not_mask_eq_0_iff [symmetric] by simp
    with False show ?thesis by (subst (1 2) fold32.simps) simp
  qed
qed

lemma fold16_oc: "unat s < 2 ^ 32 \<Longrightarrow> oc_norm (unat (fold16 s)) = oc_norm (unat s) \<and> unat (fold16 s) < 2 ^ 16"
proof (induction s rule: fold16.induct)
  case (1 s)
  show ?case
  proof (cases "s AND 0xffff0000 \<noteq> 0")
    case True
    have e: "unat (drop_bit 16 s + (s AND 0xffff)) = unat s div 2 ^ 16 + unat s mod 2 ^ 16"
      unfolding masks by (rule unat_fold_step) simp_all
    moreover have "unat (drop_bit 16 s + (s AND 0xffff)) < 2 ^ 32"
      using fold16_less [OF True] "1.prems" by simp
    ultimately show ?thesis using "1.IH" [OF True] oc_norm_fold(1) [of "unat s"]
      by (subst (1 2) fold16.simps) (simp only: True if_True; simp)
  next
    case False
    then have "unat s < 2 ^ 16" using and_mid16_0I "1.prems" by blast
    with False show ?thesis by (subst (1 2) fold16.simps) simp
  qed
qed

lemma unat_NOT16: "unat (NOT (x :: u16)) = 65535 - unat x"
proof -
  have "unat (0xffff - x) = unat (0xffff :: u16) - unat x"
    by (rule unat_sub) (use u16_lt [of x] in \<open>simp add: word_le_nat_alt\<close>)
  moreover have "NOT x = 0xffff - x"
    by (simp add: not_eq_complement)
  ultimately show ?thesis by simp
qed

lemma unat_ip_checksum_fold: "unat (ip_checksum_fold s) = 65535 - oc_norm (unat s)"
proof -
  let ?x = "fold16 (fold32 s)"
  have x: "unat ?x < 2 ^ 16" "oc_norm (unat ?x) = oc_norm (unat s)"
    using fold16_oc [of "fold32 s"] fold32_oc [of s] by simp_all
  have "unat ?x = oc_norm (unat ?x)"
    by (rule oc_norm_eqI [symmetric]) (use x in simp_all)
  then have e: "unat ?x = oc_norm (unat s)" using x by simp
  have "ip_checksum_fold s = NOT (ucast ?x)"
    unfolding ip_checksum_fold_def by (rule bit_word_eqI) (simp add: bit_simps)
  moreover have "unat (ucast ?x :: u16) = unat ?x"
    using x(1) by (simp add: unsigned_ucast_eq take_bit_nat_eq_self_iff)
  ultimately show ?thesis
    using e by (simp add: unat_NOT16)
qed

lemma words_sum_le: "words_sum p \<le> 32768 * length p"
proof (induction p rule: words_sum.induct)
  case (1 a b q)
  then show ?case using u8_lt [of a] u8_lt [of b] by simp
next
  case (2 a)
  then show ?case using u8_lt [of a] by simp
qed simp

lemma ip_checksum_partial_le:
  assumes "unat s + 2 ^ 32 * length p < 2 ^ 64"
  shows "unat (ip_checksum_partial p s) \<le> unat s + 2 ^ 31 * length p"
proof -
  obtain k where "k \<le> words_sum p" "unat (ip_checksum_partial p s) = unat s + words_sum p + 65535 * k"
    using ip_checksum_partial_sum [OF assms] by blast
  then show ?thesis using words_sum_le [of p] by simp
qed

lemma ip_checksum_partial_oc:
  assumes "unat s + 2 ^ 32 * length p < 2 ^ 64"
  shows "oc_norm (unat (ip_checksum_partial p s)) = oc_norm (unat s + words_sum p)"
proof -
  obtain k where k: "k \<le> words_sum p"
      "unat (ip_checksum_partial p s) = unat s + words_sum p + 65535 * k"
    using ip_checksum_partial_sum [OF assms] by blast
  then show ?thesis by (intro oc_norm_cong) auto
qed

lemma unat_checksum:
  "unat s + 2 ^ 32 * length p < 2 ^ 64 \<Longrightarrow>
   unat (ip_checksum_fold (ip_checksum_partial p s)) = 65535 - oc_norm (unat s + words_sum p)"
  by (simp add: unat_ip_checksum_fold ip_checksum_partial_oc)

lemma words_sum_le16 [simp]: "words_sum (le16_bytes_of c) = unat c"
proof -
  have "unat (le16 (byte_of 0 c) (byte_of (Suc 0) c)) = unat c" by simp
  then show ?thesis by (simp only: le16_bytes_of_def words_sum.simps unat_le16) simp
qed

lemma checksum_field_sum:
  assumes "even (length p)"
  shows "words_sum (p @ le16_bytes_of c @ r) = words_sum (p @ [0, 0] @ r) + unat c"
  using assms words_sum_append [of "le16_bytes_of c" r] by (simp add: words_sum_append)

text \<open>The complement of the sum, added to the sum, is a non-zero multiple of 65535.\<close>

lemma oc_norm_complement: "oc_norm (n + (65535 - oc_norm n)) = 65535"
proof (rule oc_norm_eqI)
  define m where "m = oc_norm n"
  have m: "m \<le> 65535" "m mod 65535 = n mod 65535" "m = 0 \<longleftrightarrow> n = 0"
    using oc_norm_lt [of n] oc_norm_mod [of n] oc_norm_0_iff [of n] by (simp_all add: m_def)
  have "(n + (65535 - m)) mod 65535 = (m + (65535 - m)) mod 65535"
    using m(2) by (metis mod_add_left_eq)
  then show "65535 mod 65535 = (n + (65535 - oc_norm n)) mod 65535"
    using m(1) by (simp add: m_def)
  show "((65535 :: nat) = 0) = (n + (65535 - oc_norm n) = 0)"
    using m by (auto simp: m_def)
qed simp

lemma fill_checksum_verifies:
  assumes "even (length p)" "unat s + 2 ^ 32 * (length p + 2 + length r) < 2 ^ 64"
    and "c = ip_checksum_fold (ip_checksum_partial (p @ [0, 0] @ r) s)"
  shows "ip_checksum_fold (ip_checksum_partial (p @ le16_bytes_of c @ r) s) = 0"
proof -
  have "unat c = 65535 - oc_norm (unat s + words_sum (p @ [0, 0] @ r))"
    unfolding assms(3) by (rule unat_checksum) (use assms(2) in simp)
  then have "unat s + words_sum (p @ le16_bytes_of c @ r) =
     (unat s + words_sum (p @ [0, 0] @ r)) + (65535 - oc_norm (unat s + words_sum (p @ [0, 0] @ r)))"
    by (simp only: checksum_field_sum [OF assms(1)] add.assoc)
  moreover have "unat (ip_checksum_fold (ip_checksum_partial (p @ le16_bytes_of c @ r) s))
     = 65535 - oc_norm (unat s + words_sum (p @ le16_bytes_of c @ r))"
    by (rule unat_checksum) (use assms(2) in simp)
  ultimately have "unat (ip_checksum_fold (ip_checksum_partial (p @ le16_bytes_of c @ r) s)) = 0"
    by (simp only: oc_norm_complement)
  then show ?thesis by (simp only: unat_eq_zero)
qed

lemma length_pseudo_header [simp]:
  "length (ipv4_pseudo_header s d pr n) = length s + length d + 4"
  "length (ipv6_pseudo_header s d pr m) = length s + length d + 8"
  by (simp_all add: ipv4_pseudo_header_def ipv6_pseudo_header_def)

text \<open>A header whose 16-bit checksum field (at an even offset) is filled in with
  \<^verbatim>\<open>ipv4_checksum\<close> of the header with a zero field has checksum 0, which is the test of the
  packet parser.\<close>

theorem ipv4_checksum_verifies:
  assumes "even (length p)" "length p + length r < 2 ^ 31"
  shows "ipv4_checksum (p @ le16_bytes_of (ipv4_checksum (p @ [0, 0] @ r)) @ r) = 0"
  unfolding ipv4_checksum_def by (rule fill_checksum_verifies) (use assms in simp_all)

theorem ipv4_checksum_verifies_witness:
  "ipv4_checksum ([0x45, 0, 0, 0x1c, 0, 1, 0x40, 0, 0x40, 0x11] @
     le16_bytes_of (ipv4_checksum ([0x45, 0, 0, 0x1c, 0, 1, 0x40, 0, 0x40, 0x11] @ [0, 0] @
       [192, 168, 0, 1, 10, 0, 0, 1])) @ [192, 168, 0, 1, 10, 0, 0, 1]) = 0"
  using ipv4_checksum_verifies [of "[0x45, 0, 0, 0x1c, 0, 1, 0x40, 0, 0x40, 0x11]"
    "[192, 168, 0, 1, 10, 0, 0, 1]"] by simp



subsection \<open>The reference of RFC 1071\<close>

text \<open>Big-endian words (an odd last byte is padded), added with end-around carry, complemented.\<close>

fun be_words :: "bytes \<Rightarrow> nat list" where
  "be_words (a # b # q) = unat (be16 a b) # be_words q"
| "be_words [a] = [unat (be16 a 0)]"
| "be_words [] = []"

definition oc_add :: "nat \<Rightarrow> nat \<Rightarrow> nat" where
  "oc_add x y = (if x + y \<ge> 65536 then x + y - 65535 else x + y)"

definition rfc1071_checksum :: "bytes \<Rightarrow> nat" where
  "rfc1071_checksum p = 65535 - foldl oc_add 0 (be_words p)"

lemma oc_norm_small: "n < 65536 \<Longrightarrow> oc_norm n = n"
  by (rule oc_norm_eqI) simp_all

lemma oc_add_norm: "x < 65536 \<Longrightarrow> y < 65536 \<Longrightarrow> oc_add x y = oc_norm (x + y)"
  by (rule oc_norm_eqI [symmetric]) (auto simp: oc_add_def mod_if)

lemma oc_norm_add: "oc_norm (oc_norm x + y) = oc_norm (x + y)"
  by (rule oc_norm_cong) (auto simp: oc_norm_0_iff oc_norm_mod mod_simps intro: mod_add_cong)

lemma foldl_oc_add:
  "\<forall>w\<in>set ws. w < 65536 \<Longrightarrow> x < 65536 \<Longrightarrow> foldl oc_add x ws = oc_norm (x + sum_list ws)"
  by (induction ws arbitrary: x)
    (simp_all add: oc_norm_small oc_add_norm oc_norm_lt oc_norm_add add.assoc)

lemma be_words_lt: "\<forall>w\<in>set (be_words p). w < 65536"
  using u16_lt by (induction p rule: be_words.induct) simp_all

lemma sum_be_words: "\<exists>k. 256 * words_sum p = sum_list (be_words p) + 65535 * k"
proof (induction p rule: words_sum.induct)
  case (1 a b q)
  then obtain k where "256 * words_sum q = sum_list (be_words q) + 65535 * k" by blast
  then have "256 * words_sum (a # b # q) = sum_list (be_words (a # b # q)) + 65535 * (k + unat b)"
    by (simp add: byte_simps)
  then show ?case by blast
qed (simp_all add: byte_simps)

lemma words_sum_0_iff: "words_sum p = 0 \<longleftrightarrow> sum_list (be_words p) = 0"
  by (induction p rule: words_sum.induct) (auto simp: byte_simps)

lemma rfc1071_checksum_alt: "rfc1071_checksum p = 65535 - oc_norm (256 * words_sum p)"
proof -
  obtain k where "256 * words_sum p = sum_list (be_words p) + 65535 * k"
    using sum_be_words by blast
  then have "(256 * words_sum p) mod 65535 = sum_list (be_words p) mod 65535" by simp
  then have "oc_norm (256 * words_sum p) = oc_norm (sum_list (be_words p))"
    using words_sum_0_iff [of p] by (intro oc_norm_cong) simp_all
  then show ?thesis by (simp add: rfc1071_checksum_def foldl_oc_add be_words_lt)
qed

lemma unat_htons_complement:
  assumes "unat w = 65535 - oc_norm n"
  shows "unat (htons w) = 65535 - oc_norm (256 * n)"
proof -
  define a b where "a = unat (byte_of 0 w)" and "b = unat (byte_of (Suc 0) w)"
  have ab: "a < 256" "b < 256" by (simp_all only: a_def b_def u8_lt)
  have w: "unat w = a + 256 * b"
    unfolding a_def b_def unat_le16 [symmetric] by simp
  have h: "unat (htons w) = 256 * a + b"
    by (simp add: htons_def unat_le16 a_def b_def)
  define N where "N = oc_norm n"
  have N: "N \<le> 65535" "N mod 65535 = n mod 65535" "N = 0 \<longleftrightarrow> n = 0"
    using oc_norm_lt [of n] oc_norm_mod [of n] oc_norm_0_iff [of n] by (simp_all add: N_def)
  have "256 * N = (65535 - (256 * a + b)) + 65535 * (255 - b)"
    using assms N(1) w ab by (simp add: N_def)
  then have "(65535 - (256 * a + b)) mod 65535 = (256 * N) mod 65535"
    by simp
  also have "\<dots> = (256 * n) mod 65535" using N(2) by (metis mod_mult_right_eq)
  finally have m: "(65535 - (256 * a + b)) mod 65535 = (256 * n) mod 65535" .
  have "256 * a + b = 65535 \<longleftrightarrow> a = 255 \<and> b = 255" "a + 256 * b = 65535 \<longleftrightarrow> a = 255 \<and> b = 255"
    using ab by linarith+
  then have s: "256 * a + b = 65535 \<longleftrightarrow> a + 256 * b = 65535" by simp
  have "256 * a + b \<le> 65535" using ab by simp
  moreover have "a + 256 * b = 65535 \<longleftrightarrow> n = 0"
    using N(1,3) assms w by (simp add: N_def) linarith
  ultimately have "65535 - (256 * a + b) = 0 \<longleftrightarrow> 256 * n = 0" using s by simp
  then have "oc_norm (256 * n) = 65535 - (256 * a + b)"
    by (intro oc_norm_eqI m) simp_all
  then show ?thesis using h ab by simp
qed

text \<open>C4: The optimised routine (32 bits at a time in host byte order, folded at the end) returns,
  in network byte order, the checksum that RFC 1071 defines on big-endian words.\<close>

theorem ipv4_checksum_rfc1071:
  assumes "length p < 2 ^ 31"
  shows "unat (htons (ipv4_checksum p)) = rfc1071_checksum p"
  unfolding rfc1071_checksum_alt ipv4_checksum_def
  by (rule unat_htons_complement) (use assms in \<open>subst unat_checksum; simp\<close>)

theorem ipv4_checksum_rfc1071_witness:
  "unat (htons (ipv4_checksum [0x45, 0, 0, 0x1c, 7])) = rfc1071_checksum [0x45, 0, 0, 0x1c, 7]"
  using ipv4_checksum_rfc1071 [of "[0x45, 0, 0, 0x1c, 7]"] by simp

subsection \<open>A changed byte is noticed\<close>

lemma words_sum_update:
  "i < length p \<Longrightarrow> words_sum (p[i := x]) + (if even i then 1 else 256) * unat (p ! i)
     = words_sum p + (if even i then 1 else 256) * unat x"
proof (induction p arbitrary: i rule: words_sum.induct)
  case (1 a b q)
  consider "i = 0" | "i = 1" | j where "i = Suc (Suc j)" by (metis One_nat_def not0_implies_Suc)
  then show ?case
    by cases (use 1 in auto)
qed auto

text \<open>C6: If a header verifies, then after any change of a single byte it does not.\<close>

theorem ipv4_checksum_detects:
  assumes "ipv4_checksum p = 0" "i < length p" "x \<noteq> p ! i" "length p < 2 ^ 31"
  shows "ipv4_checksum (p[i := x]) \<noteq> 0"
proof
  define w :: nat where "w = (if even i then 1 else 256)"
  assume 0: "ipv4_checksum (p[i := x]) = 0"
  have zero: "words_sum q mod 65535 = 0" if "ipv4_checksum q = 0" "length q < 2 ^ 31" for q
  proof -
    have "65535 - oc_norm (words_sum q) = 0"
      using that unat_checksum [of 0 q] by (simp add: ipv4_checksum_def)
    then have "oc_norm (words_sum q) = 65535"
      using oc_norm_lt [of "words_sum q"] by simp
    then show ?thesis using oc_norm_mod [of "words_sum q"] by simp
  qed
  have "words_sum (p[i := x]) + w * unat (p ! i) = words_sum p + w * unat x"
    using words_sum_update [OF assms(2)] by (simp add: w_def)
  then have "(w * unat (p ! i)) mod 65535 = (w * unat x) mod 65535"
    using zero [OF 0] zero [OF assms(1,4)] assms(4)
    by (metis add.left_neutral length_list_update mod_add_left_eq)
  then have "unat (p ! i) = unat x"
    using u8_lt [of "p ! i"] u8_lt [of x] by (simp add: w_def split: if_splits)
  then show False using assms(3) by (simp add: word_unat_eq_iff)
qed

theorem ipv4_checksum_detects_witness:
  "ipv4_checksum [0xff, 0xff] = 0 \<and> ipv4_checksum ([0xff, 0xff][1 := 0]) \<noteq> 0"
proof -
  have z: "ipv4_checksum [0xff, 0xff] = 0"
    by (simp add: ipv4_checksum_def ip_checksum_fold_def ip_checksum_tail_def le16_def
        fold16.simps [of "0xffff"] fold32.simps [of "0xffff"])
  show ?thesis using z ipv4_checksum_detects [of "[0xff, 0xff]" 1 0] by simp
qed

text \<open>The test for a correct checksum, on the sum of the words.\<close>

lemma ipv4_checksum_0_iff:
  assumes "length p < 2 ^ 31"
  shows "ipv4_checksum p = 0 \<longleftrightarrow> 0 < words_sum p \<and> words_sum p mod 65535 = 0"
proof -
  have "unat (ipv4_checksum p) = 65535 - oc_norm (words_sum p)"
    using unat_checksum [of 0 p] assms by (simp add: ipv4_checksum_def)
  then have "ipv4_checksum p = 0 \<longleftrightarrow> oc_norm (words_sum p) = 65535"
    using oc_norm_lt [of "words_sum p"] by (simp add: unat_eq_zero [symmetric]) linarith
  also have "\<dots> \<longleftrightarrow> 0 < words_sum p \<and> words_sum p mod 65535 = 0"
  proof
    assume a: "oc_norm (words_sum p) = 65535"
    then show "0 < words_sum p \<and> words_sum p mod 65535 = 0"
      using oc_norm_mod [of "words_sum p"] oc_norm_0_iff [of "words_sum p"] by simp
  next
    assume "0 < words_sum p \<and> words_sum p mod 65535 = 0"
    then show "oc_norm (words_sum p) = 65535" by (intro oc_norm_eqI) simp_all
  qed
  finally show ?thesis .
qed

subsection \<open>The CRC table\<close>

text \<open>One step of the bit-by-bit CRC with the reflected Castagnoli polynomial, and one byte.\<close>

definition crc_bit :: "u32 \<Rightarrow> u32" where
  "crc_bit c = (if bit c 0 then drop_bit 1 c XOR 0x82f63b78 else drop_bit 1 c)"

definition crc_byte :: "u32 \<Rightarrow> u8 \<Rightarrow> u32" where
  "crc_byte c d = (crc_bit ^^ 8) (c XOR ucast d)"

lemma crc_bit_xor: "crc_bit (x XOR y) = crc_bit x XOR crc_bit y"
proof (rule bit_word_eqI)
  fix n assume "n < LENGTH(32)"
  have "bit (x XOR y) 0 = (bit x 0 \<noteq> bit y 0)" by (rule bit_xor_iff)
  then show "bit (crc_bit (x XOR y)) n = bit (crc_bit x XOR crc_bit y) n"
    by (auto simp: crc_bit_def bit_xor_iff bit_drop_bit_eq simp del: bit_0)
qed

lemma crc_bits_xor: "(crc_bit ^^ k) (x XOR y) = (crc_bit ^^ k) x XOR (crc_bit ^^ k) y"
  by (induction k) (simp_all add: crc_bit_xor)

lemma crc_bits_shift: "(\<And>j. j < k \<Longrightarrow> \<not> bit w j) \<Longrightarrow> (crc_bit ^^ k) w = drop_bit k w"
proof (induction k)
  case (Suc k)
  then have "\<not> bit (drop_bit k w) 0" by (simp add: bit_drop_bit_eq)
  with Suc show ?case by (simp add: crc_bit_def del: bit_0)
qed simp

fun xor_span :: "u32 list \<Rightarrow> u32 list" where
  "xor_span [] = [0]"
| "xor_span (b # bs) = xor_span bs @ map ((XOR) b) (xor_span bs)"

lemma length_xor_span [simp]: "length (xor_span bs) = 2 ^ length bs"
  by (induction bs) simp_all

lemma xor_pow2: 
  assumes "i < 2 ^ n" "n < 32"
  shows "2 ^ n + (word_of_nat i :: u32) = 2 ^ n XOR word_of_nat i"
proof -
  have "\<not> (bit (2 ^ n :: u32) j \<and> bit (word_of_nat i :: u32) j)" for j
  proof
    assume a: "bit (2 ^ n :: u32) j \<and> bit (word_of_nat i :: u32) j"
    then have "j = n" by (auto simp: bit_exp_iff)
    moreover have "\<not> bit i n" using assms(1) by (metis bit_take_bit_iff less_irrefl_nat take_bit_nat_eq_self)
    ultimately show False using a by (simp add: bit_of_nat_iff)
  qed
  then have "2 ^ n AND (word_of_nat i :: u32) = 0"
    by (auto simp: bit_eq_iff bit_and_iff)
  then show ?thesis by (rule disjunctive_add_eq_xor)
qed

lemma xor_span_linear:
  assumes lin: "\<And>x y :: u32. f (x XOR y) = f x XOR f y" and "n \<le> 32" "i < 2 ^ n"
  shows "xor_span (map (\<lambda>k. f (2 ^ k)) (rev [0..<n])) ! i = f (word_of_nat i)"
  using assms(2,3)
proof (induction n arbitrary: i)
  case 0
  have "f 0 = 0" using lin [of 0 0] by simp
  with 0 show ?case by simp
next
  case (Suc n)
  show ?case
  proof (cases "i < 2 ^ n")
    case True
    with Suc show ?thesis by (simp add: nth_append)
  next
    case False
    define j where "j = i - 2 ^ n"
    have j: "i = 2 ^ n + j" "j < 2 ^ n" using False Suc.prems by (simp_all add: j_def)
    then have "f (word_of_nat i) = f (2 ^ n) XOR f (word_of_nat j)"
      using Suc.prems xor_pow2 [of j n] lin [of "2 ^ n" "word_of_nat j"] by simp
    with j Suc.IH [of j] Suc.prems show ?thesis
      by (simp add: nth_append xor_pow2 [of j n] lin)
  qed
qed

lemma funpow_8: "(f ^^ 8) x = f (f (f (f (f (f (f (f x)))))))"
  by (simp add: eval_nat_numeral)

lemma crc_basis: "map (\<lambda>k. (crc_bit ^^ 8) (2 ^ k)) (rev [0..<8]) =
  [crc_c ! 128, crc_c ! 64, crc_c ! 32, crc_c ! 16, crc_c ! 8, crc_c ! 4, crc_c ! 2, crc_c ! 1]"
  by (simp add: upt_rec funpow_8 crc_bit_def crc_c_def)

lemma crc_c_span: 
  "crc_c = xor_span [crc_c ! 128, crc_c ! 64, crc_c ! 32, crc_c ! 16, crc_c ! 8, crc_c ! 4, crc_c ! 2, crc_c ! 1]"
  by (simp add: crc_c_def)

lemma crc_c_nth: "i < 256 \<Longrightarrow> crc_c ! i = (crc_bit ^^ 8) (word_of_nat i)"
  by (subst crc_c_span, subst crc_basis [symmetric], subst xor_span_linear)
    (simp_all add: crc_bits_xor)

lemma CRC32C_eq_crc_byte: "CRC32C c d = crc_byte c d"
proof -
  define x where "x = c XOR ucast d"
  have x: "x = (x AND NOT (mask 8)) XOR (x AND mask 8)"
    by (rule bit_word_eqI) (auto simp: bit_simps)
  have "(crc_bit ^^ 8) (x AND NOT (mask 8)) = drop_bit 8 (x AND NOT (mask 8))"
    by (rule crc_bits_shift) (auto simp: bit_simps)
  also have "\<dots> = drop_bit 8 c"
    unfolding x_def by (rule bit_word_eqI) (auto simp: bit_simps dest: bit_imp_le_length)
  finally have hi: "(crc_bit ^^ 8) (x AND NOT (mask 8)) = drop_bit 8 c" .
  have "unat (x AND mask 8) < 256"
    unfolding take_bit_eq_mask [symmetric] unsigned_take_bit_eq
    using take_bit_nat_less_exp [of 8 "unat x"] by simp
  then have "crc_c ! unat (x AND mask 8) = (crc_bit ^^ 8) (word_of_nat (unat (x AND mask 8)))"
    by (rule crc_c_nth)
  then have "crc_c ! unat (x AND mask 8) = (crc_bit ^^ 8) (x AND mask 8)"
    unfolding of_nat_unat ucast_id .
  moreover have "(0xff :: u32) = mask 8" by (simp add: mask_numeral)
  ultimately show ?thesis
    unfolding CRC32C_def crc_byte_def x_def [symmetric]
    by (subst (2) x) (simp only: crc_bits_xor hi)
qed

text \<open>The reference: all bytes, one bit at a time.\<close>

definition crc32c_bitwise :: "bytes \<Rightarrow> u32" where
  "crc32c_bitwise packet = NOT (foldl crc_byte (NOT 0) packet)"

lemma foldl_CRC32C: "foldl CRC32C c packet = foldl crc_byte c packet"
  by (induction packet arbitrary: c) (simp_all add: CRC32C_eq_crc_byte)

lemma ucast_byte_of:
  "ucast (c AND 0xff :: u32) = byte_of 0 c" "ucast (drop_bit 8 c AND 0xff :: u32) = byte_of 1 c"
  "ucast (drop_bit 16 c AND 0xff :: u32) = byte_of 2 c"
  "ucast (drop_bit 24 c AND 0xff :: u32) = byte_of 3 c"
proof -
  have m: "(0xff :: u32) = mask 8" by (simp add: mask_numeral)
  have "ucast (drop_bit n c AND 0xff) = (word_of_nat (unat c div 2 ^ n) :: u8)" for n
    unfolding m take_bit_eq_mask [symmetric] word_unat_eq_iff unsigned_ucast_eq
    by (simp add: unsigned_take_bit_eq unsigned_of_nat unat_drop_bit_eq flip: drop_bit_eq_div)
  from this [of 0] this [of 8] this [of 16] this [of 24]
  show "ucast (c AND 0xff :: u32) = byte_of 0 c" "ucast (drop_bit 8 c AND 0xff :: u32) = byte_of 1 c"
    "ucast (drop_bit 16 c AND 0xff :: u32) = byte_of 2 c"
    "ucast (drop_bit 24 c AND 0xff :: u32) = byte_of 3 c"
    by (simp_all add: byte_of_def)
qed

lemma or_shifts_le32:
  "push_bit 24 (ucast (a :: u8)) OR push_bit 16 (ucast (b :: u8)) OR push_bit 8 (ucast (c :: u8))
    OR ucast (d :: u8) = le32 d c b a"
proof -
  let ?a = "push_bit 24 (ucast a) :: u32" and ?b = "push_bit 16 (ucast b) :: u32"
    and ?c = "push_bit 8 (ucast c) :: u32" and ?d = "ucast d :: u32"
  have z: "\<not> bit (x :: u8) n" if "8 \<le> n" for x n
    using that bit_imp_le_length [of x n] by auto
  have "?c AND ?d = 0" "?b AND (?c OR ?d) = 0" "?a AND (?b OR ?c OR ?d) = 0"
    by (rule bit_word_eqI; use z in \<open>auto simp: bit_simps\<close>)+
  then have "?a OR ?b OR ?c OR ?d = ?a + (?b + (?c + ?d))"
    by (simp only: disjunctive_add_eq_or)
  also have "\<dots> = le32 d c b a"
    by (simp add: le32_def push_bit_eq_mult of_nat_unat)
  finally show ?thesis .
qed

text \<open>C7: The table-driven \<^verbatim>\<open>sctp_crc32c\<close> computes, for every packet, the CRC32C that the
  bit-by-bit division with the Castagnoli polynomial defines.\<close>

theorem sctp_crc32c_bitwise: "sctp_crc32c packet = crc32c_bitwise packet"
  unfolding sctp_crc32c_def crc32c_bitwise_def foldl_CRC32C Let_def ucast_byte_of(2-4)
  unfolding ucast_byte_of(1) or_shifts_le32
  by (simp add: htonl_def)

lemma crc_bit_numeral: "crc_bit (numeral n) =
  (if bit (numeral n :: u32) 0 then drop_bit 1 (numeral n) XOR 0x82f63b78 else drop_bit 1 (numeral n))"
  "crc_bit 1 = 0x82f63b78" "(NOT 0 :: u32) = 0xffffffff"
  by (simp_all add: crc_bit_def)

lemma sctp_crc32c_check:
  "sctp_crc32c [0x31, 0x32, 0x33, 0x34, 0x35, 0x36, 0x37, 0x38, 0x39] = 0xe3069283"
  unfolding sctp_crc32c_bitwise crc32c_bitwise_def crc_byte_def funpow_8 crc_bit_numeral(3)
  by (simp add: crc_bit_numeral)

end
