(* ===== verification/Hash.thy ===== *)
theory Hash
  imports Checksum
begin

section \<open>MurmurHash3\<close>

text \<open>
  The model of \<^verbatim>\<open>hash.c\<close>: the 32-bit and the two 128-bit MurmurHash3 functions, on a
  little-endian host, and \<^verbatim>\<open>hash_key\<close> of \<^verbatim>\<open>hash_map.c\<close>, the only caller. Every step of the
  mix is invertible, so no two 32-bit keys have the same hash: a bucket collision of the hash map
  comes from the bucket mask alone.

  A \<^verbatim>\<open>switch\<close> that falls through from \<^verbatim>\<open>case\<close> n down to \<^verbatim>\<open>case 1\<close> is a sequence of steps
  each taken when enough bytes are left.
\<close>

unbundle bit_operations_syntax

definition rotl32 :: "u32 \<Rightarrow> nat \<Rightarrow> u32" where
  "rotl32 x r = push_bit r x OR drop_bit (32 - r) x"

definition rotl64 :: "u64 \<Rightarrow> nat \<Rightarrow> u64" where
  "rotl64 x r = push_bit r x OR drop_bit (64 - r) x"

text \<open>The i-th 32- and 64-bit block of the key.\<close>

definition getblock_32 :: "bytes \<Rightarrow> nat \<Rightarrow> u32" where
  "getblock_32 p i = le32 (p ! (4 * i)) (p ! (4 * i + 1)) (p ! (4 * i + 2)) (p ! (4 * i + 3))"

definition getblock_64 :: "bytes \<Rightarrow> nat \<Rightarrow> u64" where
  "getblock_64 p i = foldr (\<lambda>b w. ucast b + 256 * w) (take 8 (drop (8 * i) p)) 0"

definition fmix_32 :: "u32 \<Rightarrow> u32" where
  "fmix_32 h =
     (let h = h XOR drop_bit 16 h;
          h = h * 0x85ebca6b;
          h = h XOR drop_bit 13 h;
          h = h * 0xc2b2ae35;
          h = h XOR drop_bit 16 h
      in h)"

definition fmix_64 :: "u64 \<Rightarrow> u64" where
  "fmix_64 k =
     (let k = k XOR drop_bit 33 k;
          k = k * 0xff51afd7ed558ccd;
          k = k XOR drop_bit 33 k;
          k = k * 0xc4ceb9fe1a85ec53;
          k = k XOR drop_bit 33 k
      in k)"

subsection \<open>The 32-bit hash\<close>

definition mur32_round :: "u32 \<Rightarrow> u32 \<Rightarrow> u32" where
  "mur32_round h1 k1 =
     (let k1 = k1 * 0xcc9e2d51;
          k1 = rotl32 k1 15;
          k1 = k1 * 0x1b873593;
          h1 = h1 XOR k1;
          h1 = rotl32 h1 13
      in h1 * 5 + 0xe6546b64)"

definition mur32_tail :: "u32 \<Rightarrow> bytes \<Rightarrow> u32" where
  "mur32_tail h1 tail =
     (let k1 = 0;
          k1 = (if 3 \<le> length tail then k1 XOR push_bit 16 (ucast (tail ! 2)) else k1);
          k1 = (if 2 \<le> length tail then k1 XOR push_bit 8 (ucast (tail ! 1)) else k1)
      in if 1 \<le> length tail
         then (let k1 = k1 XOR ucast (tail ! 0);
                   k1 = k1 * 0xcc9e2d51;
                   k1 = rotl32 k1 15;
                   k1 = k1 * 0x1b873593
               in h1 XOR k1)
         else h1)"

definition MurmurHash3_x86_32 :: "bytes \<Rightarrow> u32 \<Rightarrow> u32" where
  "MurmurHash3_x86_32 key seed =
     (let nblocks = length key div 4;
          h1 = foldl mur32_round seed (map (getblock_32 key) [0..<nblocks]);
          h1 = mur32_tail h1 (drop (nblocks * 4) key);
          h1 = h1 XOR word_of_nat (length key)
      in fmix_32 h1)"

subsection \<open>The 128-bit hash with 32-bit lanes\<close>

type_synonym lanes32 = "u32 \<times> u32 \<times> u32 \<times> u32"

definition mur128_round :: "bytes \<Rightarrow> lanes32 \<Rightarrow> nat \<Rightarrow> lanes32" where
  "mur128_round data = (\<lambda>(h1, h2, h3, h4) i.
     (let k1 = getblock_32 data (i * 4 + 0);
          k2 = getblock_32 data (i * 4 + 1);
          k3 = getblock_32 data (i * 4 + 2);
          k4 = getblock_32 data (i * 4 + 3);
          k1 = rotl32 (k1 * 0x239b961b) 15 * 0xab0e9789;
          h1 = h1 XOR k1;
          h1 = rotl32 h1 19 + h2;
          h1 = h1 * 5 + 0x561ccd1b;
          k2 = rotl32 (k2 * 0xab0e9789) 16 * 0x38b34ae5;
          h2 = h2 XOR k2;
          h2 = rotl32 h2 17 + h3;
          h2 = h2 * 5 + 0x0bcaa747;
          k3 = rotl32 (k3 * 0x38b34ae5) 17 * 0xa1e38b93;
          h3 = h3 XOR k3;
          h3 = rotl32 h3 15 + h4;
          h3 = h3 * 5 + 0x96cd1c35;
          k4 = rotl32 (k4 * 0xa1e38b93) 18 * 0x239b961b;
          h4 = h4 XOR k4;
          h4 = rotl32 h4 13 + h1;
          h4 = h4 * 5 + 0x32ac3b17
      in (h1, h2, h3, h4)))"

text \<open>One \<^verbatim>\<open>case\<close> label of the tail switch: byte \<open>j\<close>, shifted, is mixed into the lane key.\<close>

definition tail_byte :: "bytes \<Rightarrow> nat \<Rightarrow> nat \<Rightarrow> 'a::len word \<Rightarrow> 'a word" where
  "tail_byte tail j n k = (if j < length tail then k XOR push_bit n (ucast (tail ! j)) else k)"

definition mur128_tail :: "lanes32 \<Rightarrow> bytes \<Rightarrow> lanes32" where
  "mur128_tail = (\<lambda>(h1, h2, h3, h4) tail.
     (let k4 = tail_byte tail 12 0 (tail_byte tail 13 8 (tail_byte tail 14 16 0));
          h4 = (if 13 \<le> length tail
                then h4 XOR rotl32 (k4 * 0xa1e38b93) 18 * 0x239b961b else h4);
          k3 = tail_byte tail 8 0 (tail_byte tail 9 8 (tail_byte tail 10 16 (tail_byte tail 11 24 0)));
          h3 = (if 9 \<le> length tail
                then h3 XOR rotl32 (k3 * 0x38b34ae5) 17 * 0xa1e38b93 else h3);
          k2 = tail_byte tail 4 0 (tail_byte tail 5 8 (tail_byte tail 6 16 (tail_byte tail 7 24 0)));
          h2 = (if 5 \<le> length tail
                then h2 XOR rotl32 (k2 * 0xab0e9789) 16 * 0x38b34ae5 else h2);
          k1 = tail_byte tail 0 0 (tail_byte tail 1 8 (tail_byte tail 2 16 (tail_byte tail 3 24 0)));
          h1 = (if 1 \<le> length tail
                then h1 XOR rotl32 (k1 * 0x239b961b) 15 * 0xab0e9789 else h1)
      in (h1, h2, h3, h4)))"

definition mur128_final :: "u32 \<Rightarrow> lanes32 \<Rightarrow> lanes32" where
  "mur128_final len = (\<lambda>(h1, h2, h3, h4).
     (let h1 = h1 XOR len; h2 = h2 XOR len; h3 = h3 XOR len; h4 = h4 XOR len;
          h1 = h1 + h2; h1 = h1 + h3; h1 = h1 + h4;
          h2 = h2 + h1; h3 = h3 + h1; h4 = h4 + h1;
          h1 = fmix_32 h1; h2 = fmix_32 h2; h3 = fmix_32 h3; h4 = fmix_32 h4;
          h1 = h1 + h2; h1 = h1 + h3; h1 = h1 + h4;
          h2 = h2 + h1; h3 = h3 + h1; h4 = h4 + h1
      in (h1, h2, h3, h4)))"

definition MurmurHash3_x86_128 :: "bytes \<Rightarrow> u32 \<Rightarrow> lanes32" where
  "MurmurHash3_x86_128 key seed =
     (let nblocks = length key div 16;
          h = foldl (mur128_round key) (seed, seed, seed, seed) [0..<nblocks];
          h = mur128_tail h (drop (nblocks * 16) key)
      in mur128_final (word_of_nat (length key)) h)"

subsection \<open>The 128-bit hash with 64-bit lanes\<close>

definition mur64_round :: "bytes \<Rightarrow> u64 \<times> u64 \<Rightarrow> nat \<Rightarrow> u64 \<times> u64" where
  "mur64_round data = (\<lambda>(h1, h2) i.
     (let k1 = getblock_64 data (i * 2 + 0);
          k2 = getblock_64 data (i * 2 + 1);
          k1 = rotl64 (k1 * 0x87c37b91114253d5) 31 * 0x4cf5ad432745937f;
          h1 = h1 XOR k1;
          h1 = rotl64 h1 27 + h2;
          h1 = h1 * 5 + 0x52dce729;
          k2 = rotl64 (k2 * 0x4cf5ad432745937f) 33 * 0x87c37b91114253d5;
          h2 = h2 XOR k2;
          h2 = rotl64 h2 31 + h1;
          h2 = h2 * 5 + 0x38495ab5
      in (h1, h2)))"

definition mur64_tail :: "u64 \<times> u64 \<Rightarrow> bytes \<Rightarrow> u64 \<times> u64" where
  "mur64_tail = (\<lambda>(h1, h2) tail.
     (let k2 = tail_byte tail 8 0 (tail_byte tail 9 8 (tail_byte tail 10 16 (tail_byte tail 11 24
                 (tail_byte tail 12 32 (tail_byte tail 13 40 (tail_byte tail 14 48 0))))));
          h2 = (if 9 \<le> length tail
                then h2 XOR rotl64 (k2 * 0x4cf5ad432745937f) 33 * 0x87c37b91114253d5 else h2);
          k1 = tail_byte tail 0 0 (tail_byte tail 1 8 (tail_byte tail 2 16 (tail_byte tail 3 24
                 (tail_byte tail 4 32 (tail_byte tail 5 40 (tail_byte tail 6 48 (tail_byte tail 7 56 0)))))));
          h1 = (if 1 \<le> length tail
                then h1 XOR rotl64 (k1 * 0x87c37b91114253d5) 31 * 0x4cf5ad432745937f else h1)
      in (h1, h2)))"

definition mur64_final :: "u64 \<Rightarrow> u64 \<times> u64 \<Rightarrow> u64 \<times> u64" where
  "mur64_final len = (\<lambda>(h1, h2).
     (let h1 = h1 XOR len; h2 = h2 XOR len;
          h1 = h1 + h2; h2 = h2 + h1;
          h1 = fmix_64 h1; h2 = fmix_64 h2;
          h1 = h1 + h2; h2 = h2 + h1
      in (h1, h2)))"

definition MurmurHash3_x64_128 :: "bytes \<Rightarrow> u32 \<Rightarrow> u64 \<times> u64" where
  "MurmurHash3_x64_128 key seed =
     (let nblocks = length key div 16;
          h = foldl (mur64_round key) (ucast seed, ucast seed) [0..<nblocks];
          h = mur64_tail h (drop (nblocks * 16) key)
      in mur64_final (word_of_nat (length key)) h)"

subsection \<open>The key hash of the hash map\<close>

text \<open>\<^verbatim>\<open>hash_key\<close> hashes the four bytes of the key as they lie in memory.\<close>

definition hash_key :: "u32 \<Rightarrow> u64" where
  "hash_key key = ucast (MurmurHash3_x86_32
     [byte_of 0 key, byte_of 1 key, byte_of 2 key, byte_of 3 key] 0)"

subsection \<open>Every step is invertible\<close>

lemma inj_mult_unit:
  assumes "c * d = (1 :: 'a::len word)"
  shows "x * c = y * c \<longleftrightarrow> x = y"
  by (metis assms mult.assoc mult.right_neutral)

lemma rotation_index:
  assumes "n < w" "r < (w :: nat)"
  shows "(n + w - r) mod w = (if r \<le> n then n - r else n + w - r)"
proof (cases "r \<le> n")
  case True
  then have "n + w - r = (n - r) + w" by simp
  then have "(n + w - r) mod w = (n - r) mod w" by (simp only: mod_add_self2)
  with True assms show ?thesis by simp
qed (use assms in simp)

lemma rotation_eq:
  fixes x :: "'a::len word"
  assumes "0 < r" "r < LENGTH('a)"
  shows "push_bit r x OR drop_bit (LENGTH('a) - r) x = word_rotl r x"
proof (rule bit_word_eqI)
  fix n assume n: "n < LENGTH('a)"
  have rot: "bit (word_rotl r x) n = bit x (if r \<le> n then n - r else n + LENGTH('a) - r)"
    unfolding bit_word_rotl_iff using n assms rotation_index [OF n assms(2)] by simp
  show "bit (push_bit r x OR drop_bit (LENGTH('a) - r) x) n = bit (word_rotl r x) n"
    unfolding rot using n assms
    by (auto simp: bit_or_iff bit_push_bit_iff bit_drop_bit_eq add.commute dest: bit_imp_le_length)
qed

lemma rotl32_eq: "0 < r \<Longrightarrow> r < 32 \<Longrightarrow> rotl32 x r = word_rotl r x"
  using rotation_eq [of r x] by (simp add: rotl32_def)

lemma rotl64_eq: "0 < r \<Longrightarrow> r < 64 \<Longrightarrow> rotl64 x r = word_rotl r x"
  using rotation_eq [of r x] by (simp add: rotl64_def)

lemma inj_xorshift:
  fixes x y :: "'a::len word"
  assumes "0 < n"
  shows "x XOR drop_bit n x = y XOR drop_bit n y \<longleftrightarrow> x = y"
proof
  assume eq: "x XOR drop_bit n x = y XOR drop_bit n y"
  have "bit x i = bit y i" for i
  proof (induction "LENGTH('a) - i" arbitrary: i rule: less_induct)
    case less
    show ?case
    proof (cases "i < LENGTH('a)")
      case True
      then have "bit x (n + i) = bit y (n + i)" using assms by (intro less) simp
      moreover have "bit (x XOR drop_bit n x) i = bit (y XOR drop_bit n y) i" by (simp only: eq)
      ultimately show ?thesis by (auto simp: bit_xor_iff bit_drop_bit_eq)
    qed (auto dest: bit_imp_le_length)
  qed
  then show "x = y" by (simp add: bit_eq_iff)
qed simp

lemma inj_fmix_32: "fmix_32 x = fmix_32 y \<longleftrightarrow> x = y"
proof -
  have "(0x85ebca6b :: u32) * 0xa5cb9243 = 1" "(0xc2b2ae35 :: u32) * 0x7ed1b41d = 1"
    by simp_all
  note units = this [THEN inj_mult_unit]
  show ?thesis
    by (simp add: fmix_32_def Let_def inj_xorshift units)
qed

lemma inj_fmix_64: "fmix_64 x = fmix_64 y \<longleftrightarrow> x = y"
proof -
  have "(0xff51afd7ed558ccd :: u64) * 0x4f74430c22a54005 = 1"
    "(0xc4ceb9fe1a85ec53 :: u64) * 0x9cb4b2f8129337db = 1"
    by simp_all
  note units = this [THEN inj_mult_unit]
  show ?thesis
    by (simp add: fmix_64_def Let_def inj_xorshift units)
qed

lemma inj_rotl32: "0 < r \<Longrightarrow> r < 32 \<Longrightarrow> rotl32 x r = rotl32 y r \<longleftrightarrow> x = y"
  by (simp add: rotl32_eq) (metis word_rot_lr)

lemma inj_mur32_round: "mur32_round h k = mur32_round h k' \<longleftrightarrow> k = k'"
proof -
  have "(0xcc9e2d51 :: u32) * 0xdee13bb1 = 1" "(0x1b873593 :: u32) * 0x56ed309b = 1"
    "(5 :: u32) * 0xcccccccd = 1"
    by simp_all
  note units = this [THEN inj_mult_unit]
  have x: "h XOR a = h XOR b \<longleftrightarrow> a = b" for a b
    by (metis xor.left_commute xor_self_eq xor.right_neutral)
  show ?thesis
    by (simp add: mur32_round_def Let_def inj_rotl32 units x)
qed

lemma hash_key_alt: "hash_key key = ucast (fmix_32 (mur32_round 0 key XOR 4))"
  by (simp add: hash_key_def MurmurHash3_x86_32_def getblock_32_def mur32_tail_def)

text \<open>Different 32-bit keys have different MurmurHash3 hashes: the hash map's key hash is
  injective, so keys share a bucket only because of the bucket mask.\<close>

theorem hash_key_injective: "hash_key k = hash_key k' \<longleftrightarrow> k = k'"
proof -
  have u: "(ucast (a :: u32) :: u64) = ucast b \<longleftrightarrow> a = b" for a b
    by (metis word_unat_eq_iff unat_ucast_widths(6))
  have x: "a XOR c = b XOR c \<longleftrightarrow> a = b" for a b c :: u32
    by (metis xor.assoc xor_self_eq xor.right_neutral)
  show ?thesis
    unfolding hash_key_alt u inj_fmix_32 x inj_mur32_round ..
qed

end
