(* ===== verification/MapInterface.thy ===== *)
theory MapInterface
  imports Main
begin

section \<open>The interface of a map\<close>

text \<open>
  What the clients of the program's maps rely on: a new map is empty, and a lookup after an insertion
  finds the inserted value under its key and is unchanged elsewhere. A lookup answers a value of
  its own type: \<open>found v\<close> for a stored value, \<open>missing\<close> otherwise (the two coincide where the code
  answers a miss with an ordinary value).
\<close>

locale map_interface =
  fixes new :: 'm
    and insert :: "'m \<Rightarrow> 'k \<Rightarrow> 'v \<Rightarrow> 'm"
    and lookup :: "'m \<Rightarrow> 'k \<Rightarrow> 'r"
    and ok :: "'m \<Rightarrow> bool"
    and found :: "'v \<Rightarrow> 'r"
    and missing :: 'r
  assumes ok_new: "ok new"
    and lookup_new: "lookup new k = missing"
    and ok_insert: "ok m \<Longrightarrow> ok (insert m k v)"
    and lookup_insert: "ok m \<Longrightarrow> lookup (insert m k v) k' = (if k' = k then found v else lookup m k')"
begin

lemma ok_inserts: "ok m \<Longrightarrow> ok (foldl (\<lambda>m (k, v). insert m k v) m kvs)"
  by (induction kvs arbitrary: m) (auto simp: ok_insert)

lemma lookup_inserts:
  "ok m \<Longrightarrow> lookup (foldl (\<lambda>m (k, v). insert m k v) m kvs) k =
     (case map_of (rev kvs) k of None \<Rightarrow> lookup m k | Some v \<Rightarrow> found v)"
proof (induction kvs rule: rev_induct)
  case (snoc kv kvs)
  then show ?case by (cases kv) (simp add: lookup_insert ok_inserts)
qed simp

text \<open>The history of a new map: the last insertion of a key counts.\<close>

lemma lookup_history:
  "lookup (foldl (\<lambda>m (k, v). insert m k v) new kvs) k =
     (case map_of (rev kvs) k of None \<Rightarrow> missing | Some v \<Rightarrow> found v)"
  by (simp add: lookup_inserts ok_new lookup_new split: option.split)

lemma insert_overwrites: "ok m \<Longrightarrow> lookup (insert (insert m k v) k v') = lookup (insert m k v')"
  by (rule ext) (simp add: lookup_insert ok_insert)

lemma insert_commutes:
  "ok m \<Longrightarrow> k \<noteq> k' \<Longrightarrow> lookup (insert (insert m k v) k' v') = lookup (insert (insert m k' v') k v)"
  by (rule ext) (simp add: lookup_insert ok_insert)

end

end
