(* ===== verification/HashMap.thy ===== *)
theory HashMap
  imports Hash MapInterface "HOL-Library.While_Combinator" "HOL-Library.Multiset"
begin

section \<open>The hash map from u32 to u32\<close>

text \<open>
  The model of \<^verbatim>\<open>hash_map.c\<close>. A bucket is the list of its nodes in the order of the linked list;
  the bucket array is a list of buckets. Allocation succeeds. The interface \<open>map_interface\<close> states what
  a client relies on (what a lookup returns after an insertion); it is interpreted here by the
  hash map, and by the flow table in its own theory.
\<close>

unbundle bit_operations_syntax

subsection \<open>Data\<close>

record hash_node =
  hn_key :: u32
  hn_value :: u32

record hash_map =
  num_keys :: u64
  num_buckets :: u64
  bucket_mask :: u64
  buckets :: "hash_node list list"

definition MAX_BUCKETS :: u64 where
  "MAX_BUCKETS = push_bit 30 1"

subsection \<open>Operations\<close>

definition hash_bucket_num :: "hash_map \<Rightarrow> u32 \<Rightarrow> nat" where
  "hash_bucket_num m k = unat (hash_key k AND bucket_mask m)"

definition hash_map_pick_bucket_count :: "u64 \<Rightarrow> u64" where
  "hash_map_pick_bucket_count n =
     while (\<lambda>b. b < n \<and> b < MAX_BUCKETS) (push_bit 1) 1"

definition hash_map_new :: "u64 \<Rightarrow> hash_map" where
  "hash_map_new keys =
     (let n = hash_map_pick_bucket_count keys
      in \<lparr>num_keys = 0, num_buckets = n, bucket_mask = n - 1, buckets = replicate (unat n) []\<rparr>)"

definition hash_map_link :: "hash_map \<Rightarrow> hash_node \<Rightarrow> hash_map" where
  "hash_map_link m node =
     (let bucket_num = hash_bucket_num m (hn_key node)
      in m\<lparr>buckets := (buckets m)[bucket_num := node # buckets m ! bucket_num]\<rparr>)"

definition hash_map_grow :: "hash_map \<Rightarrow> hash_map" where
  "hash_map_grow m =
     (let old_num_buckets = num_buckets m;
          old_buckets = buckets m;
          m = m\<lparr>num_buckets := num_buckets m * 2\<rparr>;
          m = m\<lparr>bucket_mask := num_buckets m - 1\<rparr>;
          m = m\<lparr>buckets := replicate (unat (num_buckets m)) []\<rparr>
      in foldl (foldl hash_map_link) m (take (unat old_num_buckets) old_buckets))"

definition hash_map_insert :: "hash_map \<Rightarrow> u32 \<Rightarrow> u32 \<Rightarrow> hash_map" where
  "hash_map_insert m k v =
     (let m = (if num_buckets m \<le> num_keys m \<and> num_buckets m < MAX_BUCKETS
                 then hash_map_grow m else m);
          m = m\<lparr>num_keys := num_keys m + 1\<rparr>
      in hash_map_link m \<lparr>hn_key = k, hn_value = v\<rparr>)"

text \<open>The walk along a bucket: \<^verbatim>\<open>None\<close> when no node has the key.\<close>

fun bucket_set :: "u32 \<Rightarrow> u32 \<Rightarrow> hash_node list \<Rightarrow> hash_node list option" where
  "bucket_set k v [] = None"
| "bucket_set k v (node # rest) =
     (if hn_key node = k then Some (node\<lparr>hn_value := v\<rparr> # rest)
      else map_option ((#) node) (bucket_set k v rest))"

fun bucket_get :: "u32 \<Rightarrow> hash_node list \<Rightarrow> u32 option" where
  "bucket_get k [] = None"
| "bucket_get k (node # rest) = (if hn_key node = k then Some (hn_value node) else bucket_get k rest)"

definition hash_map_set :: "hash_map \<Rightarrow> u32 \<Rightarrow> u32 \<Rightarrow> hash_map" where
  "hash_map_set m k v =
     (let bucket_num = hash_bucket_num m k
      in case bucket_set k v (buckets m ! bucket_num) of
           Some nodes \<Rightarrow> m\<lparr>buckets := (buckets m)[bucket_num := nodes]\<rparr>
         | None \<Rightarrow> hash_map_insert m k v)"

definition hash_map_get :: "hash_map \<Rightarrow> u32 \<Rightarrow> u32 option" where
  "hash_map_get m k = bucket_get k (buckets m ! hash_bucket_num m k)"

subsection \<open>Well-formed maps and the finite map they stand for\<close>

definition hash_nodes :: "hash_map \<Rightarrow> hash_node list" where
  "hash_nodes m = concat (buckets m)"

definition hash_map_placed :: "hash_map \<Rightarrow> bool" where
  "hash_map_placed m \<longleftrightarrow>
     (\<exists>k \<le> 30. unat (num_buckets m) = 2 ^ k \<and> bucket_mask m = mask k \<and>
        length (buckets m) = 2 ^ k) \<and>
     (\<forall>i < length (buckets m). \<forall>node \<in> set (buckets m ! i). hash_bucket_num m (hn_key node) = i)"

definition hash_map_ok :: "hash_map \<Rightarrow> bool" where
  "hash_map_ok m \<longleftrightarrow> hash_map_placed m \<and> distinct (map hn_key (hash_nodes m)) \<and>
     num_keys m = word_of_nat (length (hash_nodes m))"

text \<open>The abstraction: the finite map of all the nodes, wherever they are.\<close>

definition hash_map_abs :: "hash_map \<Rightarrow> u32 \<rightharpoonup> u32" where
  "hash_map_abs m = map_of (map (\<lambda>node. (hn_key node, hn_value node)) (hash_nodes m))"

subsection \<open>The number of buckets\<close>

lemma MAX_BUCKETS_eq: "unat MAX_BUCKETS = 2 ^ 30"
  by (simp add: MAX_BUCKETS_def push_bit_eq_mult)

lemma pick_step:
  assumes "unat (b :: u64) = 2 ^ j" "j < 30"
  shows "unat (push_bit 1 b) = 2 ^ Suc j"
proof -
  have "2 * unat b < 2 ^ 64" using assms power_strict_increasing [of j 63 "2 :: nat"] by simp
  then have "unat (b * 2) = 2 * unat b" by (simp add: unat_word_ariths)
  then show ?thesis using assms(1) by (simp add: push_bit_eq_mult)
qed

lemma pick_bucket_count:
  "\<exists>k \<le> 30. unat (hash_map_pick_bucket_count n) = 2 ^ k \<and> (unat n \<le> 2 ^ k \<or> k = 30) \<and>
     (\<forall>j < k. 2 ^ j < unat n)"
proof -
  define P where "P b \<longleftrightarrow> (\<exists>k \<le> 30. unat b = 2 ^ k \<and> (\<forall>j < k. 2 ^ j < unat n))" for b :: u64
  define G where "G b \<longleftrightarrow> b < n \<and> b < MAX_BUCKETS" for b
  have step: "P (push_bit 1 b) \<and> unat (push_bit 1 b) > unat b \<and> unat b < 2 ^ 30" if "P b" "G b" for b
  proof -
    from \<open>P b\<close> obtain k where k: "k \<le> 30" "unat b = 2 ^ k" "\<forall>j < k. 2 ^ j < unat n"
      unfolding P_def by blast
    from \<open>G b\<close> have b: "unat b < unat n" "unat b < 2 ^ 30"
      by (simp_all add: G_def word_less_nat_alt MAX_BUCKETS_eq)
    have "(2 :: nat) ^ k < 2 ^ 30" using b(2) k(2) by simp
    then have "k < 30" by (rule power_less_imp_less_exp [rotated]) simp
    then have "unat (push_bit 1 b) = 2 ^ Suc k" using pick_step k(2) by blast
    moreover have "\<forall>j < Suc k. 2 ^ j < unat n" using k(2,3) b(1) by (simp add: less_Suc_eq)
    ultimately show ?thesis unfolding P_def using \<open>k < 30\<close> k(2) b(2)
      by (metis Suc_leI lessI power_strict_increasing one_less_numeral_iff semiring_norm(76))
  qed
  have "P (while G (push_bit 1) 1) \<and> \<not> G (while G (push_bit 1) 1)"
  proof (rule while_rule [where P = P and r = "measure (\<lambda>b. 2 ^ 30 - unat b)"])
    show "P 1" by (simp add: P_def) (rule exI [of _ 0], simp)
    show "(push_bit 1 b, b) \<in> measure (\<lambda>b. 2 ^ 30 - unat b)" if "P b" "G b" for b :: u64
      using step [OF that] by (simp add: diff_less_mono2)
  qed (use step in auto)
  moreover have "while G (push_bit 1) 1 = hash_map_pick_bucket_count n"
    by (simp add: hash_map_pick_bucket_count_def G_def [abs_def])
  ultimately obtain k where k: "k \<le> 30" "unat (hash_map_pick_bucket_count n) = 2 ^ k"
    "\<forall>j < k. 2 ^ j < unat n" and g: "\<not> G (hash_map_pick_bucket_count n)"
    unfolding P_def by metis
  have "unat n \<le> 2 ^ k \<or> k = 30"
    using g k(1,2) unfolding G_def word_less_nat_alt MAX_BUCKETS_eq
    by (metis le_neq_implies_less not_le power_strict_increasing_iff one_less_numeral_iff semiring_norm(76))
  with k show ?thesis by blast
qed


subsection \<open>Linking nodes\<close>

lemma mask_AND_less: "unat (h AND mask k :: u64) < 2 ^ k"
  by (simp only: unat_and_mask) simp

lemma mset_concat_update:
  "i < length bs \<Longrightarrow> mset (concat (bs[i := x # bs ! i])) = add_mset x (mset (concat bs))"
proof (induction bs arbitrary: i)
  case (Cons b bs)
  then show ?case by (cases i) simp_all
qed simp

lemma bucket_num_less: "hash_map_placed m \<Longrightarrow> hash_bucket_num m k < length (buckets m)"
  unfolding hash_map_placed_def hash_bucket_num_def by (metis mask_AND_less)

lemma link_simps [simp]:
  "num_keys (hash_map_link m n) = num_keys m" "num_buckets (hash_map_link m n) = num_buckets m"
  "bucket_mask (hash_map_link m n) = bucket_mask m"
  "length (buckets (hash_map_link m n)) = length (buckets m)"
  "hash_bucket_num (hash_map_link m n) = hash_bucket_num m"
  by (simp_all add: hash_map_link_def Let_def hash_bucket_num_def [abs_def])

lemma link_placed:
  assumes "hash_map_placed m"
  shows "hash_map_placed (hash_map_link m n)"
    "mset (hash_nodes (hash_map_link m n)) = add_mset n (mset (hash_nodes m))"
proof -
  have less: "hash_bucket_num m (hn_key n) < length (buckets m)"
    using assms by (rule bucket_num_less)
  then show "mset (hash_nodes (hash_map_link m n)) = add_mset n (mset (hash_nodes m))"
    by (simp add: hash_map_link_def hash_nodes_def Let_def mset_concat_update)
  have "hash_bucket_num m (hn_key x) = i"
    if "i < length (buckets m)" "x \<in> set (buckets (hash_map_link m n) ! i)" for i x
    using that assms less unfolding hash_map_placed_def
    by (cases "i = hash_bucket_num m (hn_key n)") (auto simp: hash_map_link_def Let_def)
  then show "hash_map_placed (hash_map_link m n)"
    using assms unfolding hash_map_placed_def by simp
qed

lemma foldl_link_placed:
  assumes "hash_map_placed m"
  shows "hash_map_placed (foldl hash_map_link m ns) \<and>
    mset (hash_nodes (foldl hash_map_link m ns)) = mset ns + mset (hash_nodes m) \<and>
    num_keys (foldl hash_map_link m ns) = num_keys m \<and>
    num_buckets (foldl hash_map_link m ns) = num_buckets m"
  using assms by (induction ns arbitrary: m) (simp_all add: link_placed)

lemma foldl_foldl: "foldl (foldl f) a xss = foldl f a (concat xss)"
  by (induction xss arbitrary: a) simp_all

text \<open>An array of empty buckets is well placed.\<close>

lemma empty_placed:
  assumes "unat (num_buckets m) = 2 ^ k" "k \<le> 30"
  shows "hash_map_placed (m\<lparr>bucket_mask := num_buckets m - 1,
    buckets := replicate (unat (num_buckets m)) []\<rparr>)"
proof -
  have "(2 :: u64) ^ k = word_of_nat (2 ^ k)" by simp
  also have "\<dots> = num_buckets m" by (simp only: assms(1) [symmetric] of_nat_unat ucast_id)
  finally have "num_buckets m - 1 = mask k" by (simp add: mask_eq_exp_minus_1)
  then show ?thesis using assms by (auto simp: hash_map_placed_def)
qed

lemma grow_placed:
  assumes "hash_map_placed m" "num_buckets m < MAX_BUCKETS"
  shows "hash_map_placed (hash_map_grow m)"
    "mset (hash_nodes (hash_map_grow m)) = mset (hash_nodes m)"
    "num_keys (hash_map_grow m) = num_keys m"
    "num_buckets (hash_map_grow m) = num_buckets m * 2"
proof -
  obtain k where k: "k \<le> 30" "unat (num_buckets m) = 2 ^ k" "length (buckets m) = 2 ^ k"
    using assms(1) unfolding hash_map_placed_def by blast
  have "(2 :: nat) ^ k < 2 ^ 30"
    using assms(2) k(2) MAX_BUCKETS_eq by (simp only: word_less_nat_alt)
  then have "k < 30" by (rule power_less_imp_less_exp [rotated]) simp
  then have "unat (num_buckets m * 2) = 2 ^ Suc k"
    using pick_step [OF k(2)] by (simp add: push_bit_eq_mult)
  then have p: "hash_map_placed (m\<lparr>num_buckets := num_buckets m * 2, bucket_mask := num_buckets m * 2 - 1,
      buckets := replicate (unat (num_buckets m * 2)) []\<rparr>)" (is "hash_map_placed ?m0")
    using empty_placed [of "m\<lparr>num_buckets := num_buckets m * 2\<rparr>" "Suc k"] \<open>k < 30\<close> by simp
  have g: "hash_map_grow m = foldl hash_map_link ?m0 (hash_nodes m)"
    using k by (simp add: hash_map_grow_def Let_def foldl_foldl hash_nodes_def)
  have "hash_nodes ?m0 = []" by (simp add: hash_nodes_def)
  with foldl_link_placed [OF p, of "hash_nodes m"]
  show "hash_map_placed (hash_map_grow m)"
    "mset (hash_nodes (hash_map_grow m)) = mset (hash_nodes m)"
    "num_keys (hash_map_grow m) = num_keys m"
    "num_buckets (hash_map_grow m) = num_buckets m * 2"
    unfolding g by simp_all
qed


subsection \<open>Refinement of the finite map\<close>

abbreviation ent :: "hash_node \<Rightarrow> u32 \<times> u32" where
  "ent n \<equiv> (hn_key n, hn_value n)"

lemma map_fst_ent: "map fst (map ent ns) = map hn_key ns"
  by simp

lemma bucket_get_map_of: "bucket_get k ns = map_of (map ent ns) k"
  by (induction ns) simp_all

lemma bucket_set_None: "bucket_set k v ns = None \<longleftrightarrow> k \<notin> hn_key ` set ns"
  by (induction ns) auto

lemma bucket_set_Some:
  "bucket_set k v ns = Some ns' \<Longrightarrow>
   map hn_key ns' = map hn_key ns \<and> map_of (map ent ns') = (map_of (map ent ns))(k \<mapsto> v)"
  by (induction ns arbitrary: ns') (auto split: if_splits)

lemma map_of_concat_bucket:
  assumes "i < length bs" "\<And>j. j < length bs \<Longrightarrow> j \<noteq> i \<Longrightarrow> k \<notin> hn_key ` set (bs ! j)"
  shows "map_of (map ent (concat bs)) k = map_of (map ent (bs ! i)) k"
  using assms
proof (induction bs arbitrary: i)
  case (Cons b bs)
  have none: "map_of (map ent ns) k = None" if "k \<notin> hn_key ` set ns" for ns
    using that by (simp add: map_of_eq_None_iff image_image)
  show ?case
  proof (cases i)
    case 0
    have "k \<notin> hn_key ` set x" if "x \<in> set bs" for x
      using Cons.prems(2) 0 that by (metis Suc_less_eq in_set_conv_nth length_Cons nat.simps(3) nth_Cons_Suc)
    then have "map_of (map ent (concat bs)) k = None" by (intro none) auto
    with 0 show ?thesis by (simp add: map_add_def split: option.split)
  next
    case (Suc j)
    have "k \<notin> hn_key ` set (bs ! ja)" if "ja < length bs" "ja \<noteq> j" for ja
      using Cons.prems(2) [of "Suc ja"] that Suc by simp
    then have "map_of (map ent (concat bs)) k = map_of (map ent (bs ! j)) k"
      using Cons.prems(1) Suc by (intro Cons.IH) simp_all
    moreover have "map_of (map ent b) k = None"
      using Cons.prems(2) [of 0] Suc by (intro none) simp
    ultimately show ?thesis using Suc by (simp add: map_add_def split: option.split)
  qed
qed simp

lemma placed_elsewhere:
  "hash_map_placed m \<Longrightarrow> j < length (buckets m) \<Longrightarrow> j \<noteq> hash_bucket_num m k \<Longrightarrow>
   k \<notin> hn_key ` set (buckets m ! j)"
  unfolding hash_map_placed_def by auto

lemma get_eq_abs: "hash_map_placed m \<Longrightarrow> hash_map_get m k = hash_map_abs m k"
  unfolding hash_map_get_def hash_map_abs_def hash_nodes_def bucket_get_map_of
  by (rule map_of_concat_bucket [symmetric]) (simp_all add: bucket_num_less placed_elsewhere)

lemma abs_cong:
  assumes "mset (hash_nodes m) = mset ns" "distinct (map hn_key ns)"
  shows "hash_map_abs m = map_of (map ent ns)" "distinct (map hn_key (hash_nodes m))"
proof -
  have "mset (map hn_key (hash_nodes m)) = mset (map hn_key ns)"
    by (simp only: mset_map assms(1))
  then show d: "distinct (map hn_key (hash_nodes m))"
    using assms(2) mset_eq_imp_distinct_iff by blast
  have "set (map ent (hash_nodes m)) = set (map ent ns)"
    using mset_eq_setD [OF assms(1)] by simp
  then show "hash_map_abs m = map_of (map ent ns)"
    unfolding hash_map_abs_def using d assms(2)
    by (intro map_of_inject_set [THEN iffD2]) (simp_all only: map_fst_ent)
qed

lemma insert_ok:
  assumes ok: "hash_map_ok m" and new: "hash_map_abs m k = None"
  shows "hash_map_ok (hash_map_insert m k v) \<and> hash_map_abs (hash_map_insert m k v) = (hash_map_abs m)(k \<mapsto> v)"
proof -
  define m1 where "m1 = (if num_buckets m \<le> num_keys m \<and> num_buckets m < MAX_BUCKETS
                 then hash_map_grow m else m)"
  define m2 where "m2 = m1\<lparr>num_keys := num_keys m1 + 1\<rparr>"
  define n where "n = \<lparr>hn_key = k, hn_value = v\<rparr>"
  have ins: "hash_map_insert m k v = hash_map_link m2 n"
    by (simp add: hash_map_insert_def Let_def m1_def m2_def n_def)
  have placed: "hash_map_placed m" and d: "distinct (map hn_key (hash_nodes m))"
    and cnt: "num_keys m = word_of_nat (length (hash_nodes m))"
    using ok by (simp_all add: hash_map_ok_def)
  have 1: "hash_map_placed m1" "mset (hash_nodes m1) = mset (hash_nodes m)" "num_keys m1 = num_keys m"
    using grow_placed [OF placed] placed by (auto simp: m1_def)
  have "hash_bucket_num m2 = hash_bucket_num m1" "hash_nodes m2 = hash_nodes m1"
    by (simp_all add: m2_def hash_bucket_num_def [abs_def] hash_nodes_def)
  with 1 have 2: "hash_map_placed m2" "mset (hash_nodes m2) = mset (hash_nodes m)"
    by (simp_all add: hash_map_placed_def m2_def)
  have perm: "mset (hash_nodes (hash_map_link m2 n)) = mset (n # hash_nodes m)"
    by (simp add: link_placed [OF 2(1)] 2(2))
  have "k \<notin> hn_key ` set (hash_nodes m)"
    using new by (simp add: hash_map_abs_def map_of_eq_None_iff image_image)
  then have "distinct (map hn_key (n # hash_nodes m))"
    using d by (simp add: n_def)
  note abs = abs_cong [OF perm this]
  have "num_keys (hash_map_link m2 n) = word_of_nat (length (hash_nodes (hash_map_link m2 n)))"
    using perm 1(3) cnt by (simp add: m2_def flip: size_mset)
  with abs link_placed [OF 2(1)] show ?thesis
    by (simp add: ins hash_map_ok_def n_def hash_map_abs_def)
qed

lemma concat_update_keys:
  "i < length bs \<Longrightarrow> map hn_key b = map hn_key (bs ! i) \<Longrightarrow>
   map hn_key (concat (bs[i := b])) = map hn_key (concat bs)"
proof (induction bs arbitrary: i)
  case (Cons x bs)
  then show ?case by (cases i) simp_all
qed simp

lemma set_ok:
  assumes ok: "hash_map_ok m"
  shows "hash_map_ok (hash_map_set m k v) \<and> hash_map_abs (hash_map_set m k v) = (hash_map_abs m)(k \<mapsto> v)"
proof (cases "bucket_set k v (buckets m ! hash_bucket_num m k)")
  case None
  have "hash_map_get m k = None"
    using None by (simp add: hash_map_get_def bucket_get_map_of bucket_set_None map_of_eq_None_iff image_image)
  then have "hash_map_abs m k = None"
    using ok get_eq_abs by (simp add: hash_map_ok_def)
  with None insert_ok [OF ok] show ?thesis by (simp add: hash_map_set_def)
next
  case (Some ns)
  have placed: "hash_map_placed m" using ok by (simp add: hash_map_ok_def)
  define i where "i = hash_bucket_num m k"
  define m' where "m' = m\<lparr>buckets := (buckets m)[i := ns]\<rparr>"
  have set: "hash_map_set m k v = m'" using Some by (simp add: hash_map_set_def m'_def i_def)
  have i: "i < length (buckets m)" using placed by (simp add: i_def bucket_num_less)
  have ns: "map hn_key ns = map hn_key (buckets m ! i)"
    "map_of (map ent ns) = (map_of (map ent (buckets m ! i)))(k \<mapsto> v)"
    using bucket_set_Some Some unfolding i_def by blast+
  have bn: "hash_bucket_num m' = hash_bucket_num m"
    by (simp add: m'_def hash_bucket_num_def [abs_def])
  have keys: "map hn_key (hash_nodes m') = map hn_key (hash_nodes m)"
    unfolding m'_def hash_nodes_def using i ns(1) by (simp add: concat_update_keys)
  have "hn_key ` set (buckets m' ! j) = hn_key ` set (buckets m ! j)" if "j < length (buckets m)" for j
    using that i arg_cong [OF ns(1), of set] by (cases "j = i") (simp_all add: m'_def)
  then have placed': "hash_map_placed m'"
    using placed bn unfolding hash_map_placed_def
    by (simp add: m'_def) (metis (no_types, lifting) image_iff)
  have b': "buckets m' = (buckets m)[i := ns]" by (simp add: m'_def)
  have "hash_map_get m' x = ((hash_map_get m)(k \<mapsto> v)) x" for x
    using i ns(2) unfolding hash_map_get_def bn bucket_get_map_of b'
    by (cases "hash_bucket_num m x = i") (auto simp: i_def)
  then have "hash_map_abs m' = (hash_map_abs m)(k \<mapsto> v)"
    using get_eq_abs [OF placed] get_eq_abs [OF placed'] by auto
  moreover have "length (hash_nodes m') = length (hash_nodes m)"
    using keys by (metis length_map)
  ultimately show ?thesis
    using placed' keys ok by (simp add: set hash_map_ok_def m'_def)
qed

lemma new_ok: "hash_map_ok (hash_map_new n) \<and> hash_map_abs (hash_map_new n) = Map.empty"
proof -
  let ?c = "hash_map_pick_bucket_count n"
  obtain k where "k \<le> 30" "unat ?c = 2 ^ k" using pick_bucket_count by blast
  then have "hash_map_placed (hash_map_new n)"
    using empty_placed [of "\<lparr>num_keys = 0, num_buckets = ?c, bucket_mask = 0, buckets = []\<rparr>" k]
    by (simp add: hash_map_new_def Let_def)
  then show ?thesis
    by (simp add: hash_map_ok_def hash_map_abs_def hash_nodes_def hash_map_new_def Let_def)
qed


subsection \<open>The interface\<close>

interpretation hm: map_interface "hash_map_new n" hash_map_set hash_map_get hash_map_ok Some None
  for n
proof
  have get: "hash_map_ok m \<Longrightarrow> hash_map_get m = hash_map_abs m" for m
    by (rule ext) (simp add: hash_map_ok_def get_eq_abs)
  show "hash_map_ok (hash_map_new n)" "hash_map_get (hash_map_new n) k = None" for k
    using new_ok by (simp_all add: get)
  show "hash_map_ok (hash_map_set m k v)" if "hash_map_ok m" for m k v
    using set_ok [OF that] by blast
  show "hash_map_get (hash_map_set m k v) k' = (if k' = k then Some v else hash_map_get m k')"
    if "hash_map_ok m" for m k v k'
    using set_ok [OF that] that by (simp add: get)
qed

subsection \<open>Properties\<close>

text \<open>The bucket count chosen for n keys is the smallest power of two that is at least n, capped at
  the maximum of 2 to the 30 (the comment in the source says ``greater than''): in particular the
  loop ends.\<close>

theorem pick_bucket_count_least:
  "unat (hash_map_pick_bucket_count n) = min (2 ^ 30) (2 ^ (LEAST k. unat n \<le> 2 ^ k))"
proof -
  obtain k where k: "k \<le> 30" "unat (hash_map_pick_bucket_count n) = 2 ^ k"
    "unat n \<le> 2 ^ k \<or> k = 30" "\<forall>j < k. 2 ^ j < unat n"
    using pick_bucket_count by blast
  have above: "k \<le> (LEAST k. unat n \<le> 2 ^ k)"
  proof (rule ccontr)
    assume "\<not> ?thesis"
    then have "2 ^ (LEAST k. unat n \<le> 2 ^ k) < unat n" using k(4) by simp
    moreover have "unat n \<le> 2 ^ (LEAST k. unat n \<le> 2 ^ k)"
      by (rule LeastI [of _ 64]) (use u64_lt [of n] in simp)
    ultimately show False by simp
  qed
  have "(LEAST k. unat n \<le> 2 ^ k) = k" if "unat n \<le> 2 ^ k"
    using that above by (meson Least_le antisym)
  moreover have "(2 :: nat) ^ k \<le> 2 ^ 30" using k(1) by (intro power_increasing) simp_all
  moreover have "(2 :: nat) ^ k \<le> 2 ^ (LEAST k. unat n \<le> 2 ^ k)"
    using above by (intro power_increasing) simp_all
  ultimately show ?thesis using k(2,3) by (metis min.absorb1 min.absorb2)
qed

text \<open>C1: Refinement: \<^verbatim>\<open>hash_map_set\<close>, growth of the table included, keeps the invariant (a power of two
  of buckets, every node in the bucket of its hash, no key twice, the count right) and updates the
  finite map that the nodes stand for, and \<^verbatim>\<open>hash_map_get\<close> reads that map.\<close>

theorem hash_map_set_refines:
  assumes "hash_map_ok m"
  shows "hash_map_ok (hash_map_set m k v)
    \<and> hash_map_abs (hash_map_set m k v) = (hash_map_abs m)(k \<mapsto> v)
    \<and> hash_map_get m = hash_map_abs m"
proof -
  have "hash_map_get m = hash_map_abs m"
    using assms by (intro ext) (simp add: hash_map_ok_def get_eq_abs)
  with set_ok [OF assms] show ?thesis by blast
qed

theorem hash_map_set_refines_witness:
  "hash_map_abs (hash_map_set (hash_map_new 4) 7 1) = [7 \<mapsto> 1]"
  using hash_map_set_refines [of "hash_map_new 4" 7 1] new_ok [of 4] by simp

text \<open>A map created for any number of keys and then set any number of times answers every key with
  the value it was last set to, and with a miss when it never was.\<close>

theorem hash_map_history:
  "hash_map_get (foldl (\<lambda>m (k, v). hash_map_set m k v) (hash_map_new n) kvs) k = map_of (rev kvs) k"
  using hm.lookup_history [of n kvs k] by (simp split: option.splits)

end
