(* ===== verification/FlowMaps.thy ===== *)
theory FlowMaps
  imports Prelude MapInterface "HOL-Library.Signed_Division"
begin

section \<open>The flow table\<close>

text \<open>
  The model of \<^verbatim>\<open>flowmaps.c\<close>: a hash table with chaining from an int key (a flow time) to an int
  value, with a fixed number of lists. C's \<^verbatim>\<open>%\<close> truncates towards zero, which is \<open>smod\<close>.
  A table of size 0 divides by zero (undefined behaviour); the table is created with a positive size.
  The candidate table repeats this code word by word, with a wrong structure name.
\<close>

record flow =
  fl_key :: int
  fl_val :: int

record flowtable =
  ft_size :: int
  ft_list :: "flow list list"

definition create_flow_table :: "int \<Rightarrow> flowtable" where
  "create_flow_table n = \<lparr>ft_size = n, ft_list = replicate (nat n) []\<rparr>"

definition hashCode :: "flowtable \<Rightarrow> int \<Rightarrow> int" where
  "hashCode t key = (if key < 0 then - (key smod ft_size t) else key smod ft_size t)"

fun flow_overwrite :: "int \<Rightarrow> int \<Rightarrow> flow list \<Rightarrow> flow list option" where
  "flow_overwrite key val [] = None"
| "flow_overwrite key val (temp # rest) =
     (if fl_key temp = key then Some (temp\<lparr>fl_val := val\<rparr> # rest)
      else map_option ((#) temp) (flow_overwrite key val rest))"

definition insert_flow :: "flowtable \<Rightarrow> int \<Rightarrow> int \<Rightarrow> flowtable" where
  "insert_flow t key val =
     (let pos = nat (hashCode t key);
          l = ft_list t ! pos
      in case flow_overwrite key val l of
           Some l' \<Rightarrow> t\<lparr>ft_list := (ft_list t)[pos := l']\<rparr>
         | None \<Rightarrow> t\<lparr>ft_list := (ft_list t)[pos := \<lparr>fl_key = key, fl_val = val\<rparr> # l]\<rparr>)"

fun flow_find :: "int \<Rightarrow> flow list \<Rightarrow> int" where
  "flow_find key [] = -1"
| "flow_find key (temp # rest) = (if fl_key temp = key then fl_val temp else flow_find key rest)"

definition lookup_flow :: "flowtable \<Rightarrow> int \<Rightarrow> int" where
  "lookup_flow t key = flow_find key (ft_list t ! nat (hashCode t key))"

definition flowtable_ok :: "flowtable \<Rightarrow> bool" where
  "flowtable_ok t \<longleftrightarrow> 0 < ft_size t \<and> int (length (ft_list t)) = ft_size t"

text \<open>Every key, negative ones included, indexes the array of lists.\<close>

lemma hashCode_range:
  assumes "0 < ft_size t"
  shows "0 \<le> hashCode t key" "hashCode t key < ft_size t"
  using assms by (auto simp: hashCode_def signed_modulo_int_def signed_divide_int_def sgn_if abs_if
      minus_div_mult_eq_mod minus_mod_eq_mult_div)

lemma flow_overwrite_None: "flow_overwrite k v l = None \<longleftrightarrow> k \<notin> fl_key ` set l"
  by (induction l) auto

lemma flow_find_missing: "k \<notin> fl_key ` set l \<Longrightarrow> flow_find k l = -1"
  by (induction l) auto

lemma flow_find_overwrite:
  "flow_overwrite k v l = Some l' \<Longrightarrow> flow_find k' l' = (if k' = k then v else flow_find k' l)"
  by (induction l arbitrary: l') (auto split: if_splits)

lemma insert_flow_parts [simp]:
  "ft_size (insert_flow t k v) = ft_size t"
  "length (ft_list (insert_flow t k v)) = length (ft_list t)"
  "hashCode (insert_flow t k v) = hashCode t"
proof -
  show s: "ft_size (insert_flow t k v) = ft_size t"
    "length (ft_list (insert_flow t k v)) = length (ft_list t)"
    by (simp_all add: insert_flow_def Let_def split: option.split)
  show "hashCode (insert_flow t k v) = hashCode t"
    by (rule ext) (simp only: hashCode_def s)
qed

lemma lookup_insert_flow:
  assumes "flowtable_ok t"
  shows "lookup_flow (insert_flow t k v) k' = (if k' = k then v else lookup_flow t k')"
proof -
  have "nat (hashCode t x) < length (ft_list t)" for x
    using assms hashCode_range [of t x] by (simp add: flowtable_ok_def nat_less_iff)
  then show ?thesis
    unfolding lookup_flow_def insert_flow_parts
    by (cases "nat (hashCode t k') = nat (hashCode t k)")
      (auto simp: insert_flow_def Let_def flow_find_overwrite split: option.split)
qed

text \<open>The table is a map whose miss is the value -1.\<close>

interpretation ft: map_interface "create_flow_table (1 + int n)" insert_flow lookup_flow flowtable_ok
    "\<lambda>v. v" "-1"
  for n
proof
  show "flowtable_ok (create_flow_table (1 + int n))"
    by (simp add: flowtable_ok_def create_flow_table_def)
  show "lookup_flow (create_flow_table (1 + int n)) k = -1" for k
  proof -
    have "nat (hashCode (create_flow_table (1 + int n)) k) < Suc n"
      using hashCode_range [of "create_flow_table (1 + int n)" k]
      by (simp add: create_flow_table_def nat_less_iff)
    then show ?thesis by (simp add: lookup_flow_def create_flow_table_def del: replicate.simps)
  qed
  show "flowtable_ok (insert_flow m k v)" if "flowtable_ok m" for m k v
    using that by (simp add: flowtable_ok_def)
qed (simp add: lookup_insert_flow)

text \<open>A flow table of any positive size answers every key (negative keys included) with the value
  last inserted under it, and with -1 when there is none; -1 is therefore ambiguous when it was stored.\<close>

theorem flow_table_history:
  "lookup_flow (foldl (\<lambda>t (k, v). insert_flow t k v) (create_flow_table (1 + int n)) kvs) k =
     (case map_of (rev kvs) k of None \<Rightarrow> -1 | Some v \<Rightarrow> v)"
  by (rule ft.lookup_history)

end
