(* ===== verification/LruCache.thy ===== *)
theory LruCache
  imports Prelude
begin

section \<open>The LRU cache\<close>

text \<open>
  The model of \<^verbatim>\<open>lrucache.h\<close>: a doubly linked list of key-value pairs, most recent first, and
  an unordered map from a key to an iterator of the list. A list node is identified by a number that
  stands for its address; the iterator is that number. The unordered map is an association list
  whose order carries no meaning. The specification is the list of pairs alone.
\<close>

record ('k, 'v) lru_cache =
  cache_items_list :: "(nat \<times> 'k \<times> 'v) list"
  cache_items_map :: "('k \<times> nat) list"
  max_size :: nat
  next_node :: nat

definition lru_cache :: "nat \<Rightarrow> ('k, 'v) lru_cache" where
  "lru_cache n = \<lparr>cache_items_list = [], cache_items_map = [], max_size = n, next_node = 0\<rparr>"

text \<open>\<^verbatim>\<open>list::erase\<close> through an iterator, \<^verbatim>\<open>unordered_map::erase\<close> of a key.\<close>

definition list_erase :: "nat \<Rightarrow> (nat \<times> 'k \<times> 'v) list \<Rightarrow> (nat \<times> 'k \<times> 'v) list" where
  "list_erase it xs = filter (\<lambda>(i, _). i \<noteq> it) xs"

definition map_erase :: "'k \<Rightarrow> ('k \<times> nat) list \<Rightarrow> ('k \<times> nat) list" where
  "map_erase k m = filter (\<lambda>(k', _). k' \<noteq> k) m"

definition erase_if_exists :: "('k, 'v) lru_cache \<Rightarrow> 'k \<Rightarrow> ('k, 'v) lru_cache" where
  "erase_if_exists c k =
     (case map_of (cache_items_map c) k of
        None \<Rightarrow> c
      | Some it \<Rightarrow> c\<lparr>cache_items_list := list_erase it (cache_items_list c),
                    cache_items_map := map_erase k (cache_items_map c)\<rparr>)"

text \<open>\<^verbatim>\<open>put\<close>: the first lines are \<^verbatim>\<open>erase_if_exists\<close> written out.\<close>

definition put :: "('k, 'v) lru_cache \<Rightarrow> 'k \<Rightarrow> 'v \<Rightarrow> ('k, 'v) lru_cache" where
  "put c k v =
     (let c = (case map_of (cache_items_map c) k of
                 None \<Rightarrow> c
               | Some it \<Rightarrow> c\<lparr>cache_items_list := list_erase it (cache_items_list c),
                             cache_items_map := map_erase k (cache_items_map c)\<rparr>);
          n = next_node c;
          c = c\<lparr>cache_items_list := (n, k, v) # cache_items_list c, next_node := n + 1\<rparr>;
          c = c\<lparr>cache_items_map := (k, n) # map_erase k (cache_items_map c)\<rparr>
      in if max_size c < length (cache_items_map c)
         then (let (_, k', _) = last (cache_items_list c)
               in c\<lparr>cache_items_map := map_erase k' (cache_items_map c),
                    cache_items_list := butlast (cache_items_list c)\<rparr>)
         else c)"

definition get :: "('k, 'v) lru_cache \<Rightarrow> 'k \<Rightarrow> string + ('v \<times> ('k, 'v) lru_cache)" where
  "get c k =
     (case map_of (cache_items_map c) k of
        None \<Rightarrow> Inl ''There is no such key in cache''
      | Some it \<Rightarrow>
          (case filter (\<lambda>(i, _). i = it) (cache_items_list c) of
             (i, k', v) # _ \<Rightarrow>
               Inr (v, c\<lparr>cache_items_list := (i, k', v) # list_erase it (cache_items_list c)\<rparr>)
           | [] \<Rightarrow> Inl ''invalid iterator''))"

text \<open>\<^verbatim>\<open>erase_if\<close> walks the unordered map in its own order and erases while it walks.\<close>

fun erase_if_loop :: "('v \<Rightarrow> bool) \<Rightarrow> ('k \<times> nat) list \<Rightarrow> ('k, 'v) lru_cache \<Rightarrow> ('k, 'v) lru_cache" where
  "erase_if_loop f [] c = c"
| "erase_if_loop f ((k, it) # rest) c =
     (if list_ex (\<lambda>(i, _, v). i = it \<and> f v) (cache_items_list c)
      then erase_if_loop f rest (c\<lparr>cache_items_list := list_erase it (cache_items_list c),
             cache_items_map := map_erase k (cache_items_map c)\<rparr>)
      else erase_if_loop f rest c)"

definition erase_if :: "('k, 'v) lru_cache \<Rightarrow> ('v \<Rightarrow> bool) \<Rightarrow> ('k, 'v) lru_cache" where
  "erase_if c f = erase_if_loop f (cache_items_map c) c"

definition clear :: "('k, 'v) lru_cache \<Rightarrow> ('k, 'v) lru_cache" where
  "clear c = c\<lparr>cache_items_map := [], cache_items_list := []\<rparr>"

definition exists :: "('k, 'v) lru_cache \<Rightarrow> 'k \<Rightarrow> bool" where
  "exists c k \<longleftrightarrow> map_of (cache_items_map c) k \<noteq> None"

definition cache_size :: "('k, 'v) lru_cache \<Rightarrow> nat" where
  "cache_size c = length (cache_items_map c)"

subsection \<open>The invariant and the specification\<close>

definition node_id :: "nat \<times> 'k \<times> 'v \<Rightarrow> nat" where "node_id = (\<lambda>(i, _, _). i)"
definition node_key :: "nat \<times> 'k \<times> 'v \<Rightarrow> 'k" where "node_key = (\<lambda>(_, k, _). k)"
definition node_entry :: "nat \<times> 'k \<times> 'v \<Rightarrow> 'k \<times> nat" where "node_entry = (\<lambda>(i, k, _). (k, i))"

lemma node_simps [simp]:
  "node_id (i, k, v) = i" "node_key (i, k, v) = k" "node_entry (i, k, v) = (k, i)"
  by (simp_all add: node_id_def node_key_def node_entry_def)

definition lru_ok :: "('k, 'v) lru_cache \<Rightarrow> bool" where
  "lru_ok c \<longleftrightarrow> distinct (map node_id (cache_items_list c)) \<and>
     (\<forall>x \<in> set (cache_items_list c). node_id x < next_node c) \<and>
     distinct (map node_key (cache_items_list c)) \<and>
     distinct (map fst (cache_items_map c)) \<and>
     set (cache_items_map c) = node_entry ` set (cache_items_list c) \<and>
     length (cache_items_list c) \<le> max_size c"

text \<open>What the cache means: its pairs, most recently used first.\<close>

definition lru_abs :: "('k, 'v) lru_cache \<Rightarrow> ('k \<times> 'v) list" where
  "lru_abs c = map snd (cache_items_list c)"

definition spec_remove :: "'k \<Rightarrow> ('k \<times> 'v) list \<Rightarrow> ('k \<times> 'v) list" where
  "spec_remove k xs = filter (\<lambda>(k', _). k' \<noteq> k) xs"

definition spec_put :: "nat \<Rightarrow> 'k \<Rightarrow> 'v \<Rightarrow> ('k \<times> 'v) list \<Rightarrow> ('k \<times> 'v) list" where
  "spec_put n k v xs = take n ((k, v) # spec_remove k xs)"

lemma node_key_unique:
  "lru_ok c \<Longrightarrow> x \<in> set (cache_items_list c) \<Longrightarrow> y \<in> set (cache_items_list c) \<Longrightarrow>
   node_key x = node_key y \<Longrightarrow> x = y"
  by (auto simp: lru_ok_def distinct_map dest: inj_onD)

lemma lru_okD:
  assumes "lru_ok c"
  shows "map_of (cache_items_map c) k = Some i \<longleftrightarrow> (\<exists>v. (i, k, v) \<in> set (cache_items_list c))"
    "map_of (cache_items_map c) k = None \<longleftrightarrow> (\<forall>x \<in> set (cache_items_list c). node_key x \<noteq> k)"
    "length (cache_items_map c) = length (cache_items_list c)"
proof -
  have d: "distinct (map fst (cache_items_map c))"
    and s: "set (cache_items_map c) = node_entry ` set (cache_items_list c)"
    using assms by (simp_all add: lru_ok_def)
  show "map_of (cache_items_map c) k = Some i \<longleftrightarrow> (\<exists>v. (i, k, v) \<in> set (cache_items_list c))"
    using map_of_eq_Some_iff [OF d] s by (auto simp: image_iff) (metis node_simps(3))
  show "map_of (cache_items_map c) k = None \<longleftrightarrow> (\<forall>x \<in> set (cache_items_list c). node_key x \<noteq> k)"
    by (auto simp: map_of_eq_None_iff s image_image image_iff)
  have "distinct (map node_entry (cache_items_list c))"
  proof (rule distinct_map [THEN iffD2, OF conjI])
    show "distinct (cache_items_list c)" using assms by (simp add: lru_ok_def distinct_map)
    show "inj_on node_entry (set (cache_items_list c))"
      by (rule inj_onI, rule node_key_unique [OF assms])
        (auto simp: node_entry_def node_key_def split: prod.splits)
  qed
  then have "card (set (cache_items_map c)) = length (cache_items_list c)"
    by (metis s distinct_card length_map set_map)
  moreover have "distinct (cache_items_map c)" using d by (simp add: distinct_map)
  ultimately show "length (cache_items_map c) = length (cache_items_list c)"
    by (metis distinct_card)
qed

text \<open>Erasing through the iterator of a key erases the key's pair.\<close>

lemma list_erase_key:
  assumes "lru_ok c" "map_of (cache_items_map c) k = Some it"
  shows "list_erase it (cache_items_list c) = filter (\<lambda>x. node_key x \<noteq> k) (cache_items_list c)"
proof -
  obtain v where v: "(it, k, v) \<in> set (cache_items_list c)"
    using assms lru_okD(1) by metis
  have "inj_on node_id (set (cache_items_list c))" "inj_on node_key (set (cache_items_list c))"
    using assms(1) by (simp_all add: lru_ok_def distinct_map)
  then have "node_id x = it \<longleftrightarrow> node_key x = k" if "x \<in> set (cache_items_list c)" for x
    using v that by (metis inj_on_eq_iff node_simps(1,2))
  moreover have "list_erase it xs = filter (\<lambda>x. node_id x \<noteq> it) xs" for xs :: "(nat \<times> 'a \<times> 'b) list"
    by (simp add: list_erase_def node_id_def case_prod_unfold)
  ultimately show ?thesis by (simp cong: filter_cong)
qed

definition without :: "'k \<Rightarrow> ('k, 'v) lru_cache \<Rightarrow> ('k, 'v) lru_cache" where
  "without k c = c\<lparr>cache_items_list := filter (\<lambda>x. node_key x \<noteq> k) (cache_items_list c),
     cache_items_map := map_erase k (cache_items_map c)\<rparr>"

lemma erase_if_exists_eq:
  assumes "lru_ok c"
  shows "erase_if_exists c k = without k c"
proof (cases "map_of (cache_items_map c) k")
  case None
  then have "filter (\<lambda>x. node_key x \<noteq> k) (cache_items_list c) = cache_items_list c"
    using lru_okD(2) [OF assms] by (simp add: filter_id_conv)
  moreover have "map_erase k (cache_items_map c) = cache_items_map c"
    using None by (force simp: map_erase_def filter_id_conv map_of_eq_None_iff)
  ultimately show ?thesis using None by (simp add: erase_if_exists_def without_def)
next
  case (Some it)
  then show ?thesis
    using list_erase_key [OF assms Some] by (simp add: erase_if_exists_def without_def)
qed

lemma distinct_map_filter_gen: "distinct (map f xs) \<Longrightarrow> distinct (map f (filter P xs))"
  by (induction xs) auto

lemma without_ok:
  assumes "lru_ok c"
  shows "lru_ok (without k c)" "lru_abs (without k c) = spec_remove k (lru_abs c)"
proof -
  have "length (filter (\<lambda>x. node_key x \<noteq> k) (cache_items_list c)) \<le> max_size c"
    using assms by (auto simp: lru_ok_def intro: order_trans [OF length_filter_le])
  moreover have "set (map_erase k (cache_items_map c)) =
      node_entry ` set (filter (\<lambda>x. node_key x \<noteq> k) (cache_items_list c))"
    using assms by (auto simp: lru_ok_def map_erase_def image_iff)
  ultimately show "lru_ok (without k c)"
    using assms by (auto simp: lru_ok_def without_def map_erase_def intro: distinct_map_filter_gen)
  show "lru_abs (without k c) = spec_remove k (lru_abs c)"
    by (simp add: lru_abs_def without_def spec_remove_def filter_map comp_def case_prod_unfold node_key_def)
qed


lemma put_eq:
  assumes "lru_ok c"
  shows "put c k v =
     (let c' = without k c;
          xs = (next_node c, k, v) # cache_items_list c';
          m = (k, next_node c) # cache_items_map c'
      in if max_size c < length m
         then c'\<lparr>next_node := next_node c + 1, cache_items_list := butlast xs,
                cache_items_map := map_erase (node_key (last xs)) m\<rparr>
         else c'\<lparr>next_node := next_node c + 1, cache_items_list := xs, cache_items_map := m\<rparr>)"
proof -
  have e: "(case map_of (cache_items_map c) k of None \<Rightarrow> c
      | Some it \<Rightarrow> c\<lparr>cache_items_list := list_erase it (cache_items_list c),
                   cache_items_map := map_erase k (cache_items_map c)\<rparr>) = without k c"
    using erase_if_exists_eq [OF assms] by (simp add: erase_if_exists_def)
  have m: "map_erase k (cache_items_map (without k c)) = cache_items_map (without k c)"
    by (simp add: without_def map_erase_def)
  have e2: "map_erase k (map_erase k x) = map_erase k x" for x :: "('a \<times> nat) list"
    by (simp add: map_erase_def)
  show ?thesis
    unfolding put_def e
    by (rule lru_cache.equality)
      (simp_all add: Let_def m e2 without_def case_prod_unfold node_key_def)
qed

text \<open>A fresh pair in front of the others.\<close>

lemma push_front_ok:
  assumes "lru_ok c" "\<forall>x \<in> set (cache_items_list c). node_key x \<noteq> k"
    and "length (cache_items_list c) < max_size c"
  shows "lru_ok (c\<lparr>next_node := next_node c + 1,
    cache_items_list := (next_node c, k, v) # cache_items_list c,
    cache_items_map := (k, next_node c) # cache_items_map c\<rparr>)"
proof -
  have "\<forall>x \<in> set (cache_items_list c). node_id x < next_node c" using assms(1) by (simp add: lru_ok_def)
  then have "next_node c \<notin> node_id ` set (cache_items_list c)" by force
  moreover have "k \<notin> fst ` set (cache_items_map c)"
    using assms(1,2) by (auto simp: lru_ok_def node_entry_def)
  moreover have "k \<notin> node_key ` set (cache_items_list c)" using assms(2) by blast
  ultimately show ?thesis using assms(1,3) by (auto simp: lru_ok_def)
qed

lemma butlast_without_last:
  "distinct (map f xs) \<Longrightarrow> xs \<noteq> [] \<Longrightarrow> filter (\<lambda>x. f x \<noteq> f (last xs)) xs = butlast xs"
  by (cases xs rule: rev_cases) (auto simp: filter_id_conv, metis image_eqI)

text \<open>The cache of one more than its size, its last pair dropped.\<close>

lemma put_refines:
  assumes "lru_ok c"
  shows "lru_ok (put c k v)" "lru_abs (put c k v) = spec_put (max_size c) k v (lru_abs c)"
    "max_size (put c k v) = max_size c"
proof -
  define c' where "c' = without k c"
  have c': "lru_ok c'" "lru_abs c' = spec_remove k (lru_abs c)" "next_node c' = next_node c"
    "max_size c' = max_size c" "\<forall>x \<in> set (cache_items_list c'). node_key x \<noteq> k"
    using without_ok [OF assms] by (simp_all add: c'_def without_def)
  define xs where "xs = (next_node c, k, v) # cache_items_list c'"
  define m where "m = (k, next_node c) # cache_items_map c'"
  have len: "length m = length xs" using lru_okD(3) [OF c'(1)] by (simp add: xs_def m_def)
  define big where "big = c'\<lparr>max_size := Suc (max_size c), next_node := next_node c + 1,
     cache_items_list := xs, cache_items_map := m\<rparr>"
  have "lru_ok (c'\<lparr>max_size := Suc (max_size c)\<rparr>)" using c' by (auto simp: lru_ok_def)
  then have big: "lru_ok big"
    using push_front_ok [of "c'\<lparr>max_size := Suc (max_size c)\<rparr>" k v] c'
    by (simp add: big_def xs_def m_def lru_ok_def)
  have xs: "length xs \<le> Suc (max_size c)" "map snd xs = (k, v) # spec_remove k (lru_abs c)"
    using big c'(2) by (simp_all add: big_def lru_ok_def xs_def lru_abs_def)
  have put: "put c k v = (if max_size c < length xs
     then big\<lparr>max_size := max_size c, cache_items_list := butlast xs,
            cache_items_map := map_erase (node_key (last xs)) m\<rparr>
     else big\<lparr>max_size := max_size c\<rparr>)"
    unfolding put_eq [OF assms] len [symmetric] Let_def
    by (simp add: big_def c'(4) flip: c'_def m_def xs_def)
  show "max_size (put c k v) = max_size c" by (simp add: put)
  have "lru_ok (put c k v) \<and> lru_abs (put c k v) = spec_put (max_size c) k v (lru_abs c)"
  proof (cases "max_size c < length xs")
    case False
    then have "take (max_size c) (map snd xs) = map snd xs" by simp
    then show ?thesis
      using False big xs by (simp add: put lru_ok_def big_def lru_abs_def spec_put_def)
  next
    case True
    let ?k = "node_key (last xs)"
    have "distinct (map node_key xs)" using big by (simp add: lru_ok_def big_def)
    then have bl: "filter (\<lambda>x. node_key x \<noteq> ?k) xs = butlast xs"
      by (rule butlast_without_last) (simp add: xs_def)
    have "put c k v = (without ?k big)\<lparr>max_size := max_size c\<rparr>"
      using True by (simp add: put without_def big_def bl)
    moreover have "lru_ok (without ?k big)" using big by (rule without_ok)
    moreover have "cache_items_list (without ?k big) = butlast xs"
      by (simp add: without_def big_def bl)
    moreover have "length xs = Suc (max_size c)" using True xs(1) by simp
    then have b: "butlast xs = take (max_size c) xs" by (simp add: butlast_conv_take)
    have "map snd (butlast xs) = spec_put (max_size c) k v (lru_abs c)"
      unfolding b take_map [symmetric] xs(2) spec_put_def ..
    moreover have "length (butlast xs) \<le> max_size c" using xs(1) by simp
    ultimately show ?thesis by (simp add: lru_ok_def lru_abs_def)
  qed
  then show "lru_ok (put c k v)" "lru_abs (put c k v) = spec_put (max_size c) k v (lru_abs c)"
    by blast+
qed

lemma filter_unique: "distinct (map f xs) \<Longrightarrow> x \<in> set xs \<Longrightarrow> filter (\<lambda>y. f y = f x) xs = [x]"
  by (induction xs) (auto simp: filter_empty_conv, metis image_eqI)

lemma get_refines:
  assumes "lru_ok c"
  shows "(case get c k of
      Inl e \<Rightarrow> e = ''There is no such key in cache'' \<and> map_of (lru_abs c) k = None
    | Inr (v, c') \<Rightarrow> map_of (lru_abs c) k = Some v \<and> lru_ok c' \<and>
        lru_abs c' = (k, v) # spec_remove k (lru_abs c) \<and> max_size c' = max_size c)"
proof (cases "map_of (cache_items_map c) k")
  case None
  then have "k \<notin> fst ` set (lru_abs c)"
    using lru_okD(2) [OF assms] by (auto simp: lru_abs_def node_key_def)
  then have "map_of (lru_abs c) k = None" by (simp only: map_of_eq_None_iff not_False_eq_True)
  then show ?thesis using None by (simp add: get_def)
next
  case (Some it)
  obtain v where v: "(it, k, v) \<in> set (cache_items_list c)"
    using Some lru_okD(1) [OF assms] by blast
  have d: "distinct (map node_id (cache_items_list c))" "distinct (map node_key (cache_items_list c))"
    using assms by (simp_all add: lru_ok_def)
  have f: "filter (\<lambda>(i, _). i = it) (cache_items_list c) = [(it, k, v)]"
    using filter_unique [OF d(1) v] by (simp add: node_id_def case_prod_unfold)
  define c' where "c' = c\<lparr>cache_items_list := (it, k, v) # list_erase it (cache_items_list c)\<rparr>"
  have g: "get c k = Inr (v, c')" using Some f by (simp add: get_def c'_def)
  note e = list_erase_key [OF assms Some]
  have ids: "it \<notin> node_id ` set (list_erase it (cache_items_list c))"
    by (auto simp: list_erase_def)
  have "set ((it, k, v) # list_erase it (cache_items_list c)) = set (cache_items_list c)"
  proof -
    have "node_key x = k \<longleftrightarrow> x = (it, k, v)" if "x \<in> set (cache_items_list c)" for x
      using node_key_unique [OF assms that v] by auto
    then show ?thesis using v unfolding e by (auto simp del: node_simps)
  qed
  moreover have "length (list_erase it (cache_items_list c)) < length (cache_items_list c)"
    unfolding e using v by (auto intro!: length_filter_less)
  moreover have "k \<notin> node_key ` set (list_erase it (cache_items_list c))"
    unfolding e by auto
  moreover have "distinct (map node_id (list_erase it (cache_items_list c)))"
    "distinct (map node_key (list_erase it (cache_items_list c)))"
    using d by (simp_all add: list_erase_def distinct_map_filter_gen)
  ultimately have "lru_ok c'"
    using assms ids by (simp add: lru_ok_def c'_def del: set_simps)
  moreover have "(k, v) \<in> snd ` set (cache_items_list c)" using v by force
  then have "map_of (lru_abs c) k = Some v"
    using d(2) by (intro map_of_is_SomeI) (simp_all add: lru_abs_def comp_def node_key_def case_prod_unfold)
  moreover have "lru_abs c' = (k, v) # spec_remove k (lru_abs c)"
    by (simp add: c'_def e lru_abs_def spec_remove_def filter_map comp_def case_prod_unfold node_key_def)
  ultimately show ?thesis unfolding g by (simp add: c'_def)
qed

text \<open>Erasing by predicate: the walk over the map visits every pair once.\<close>

lemma erase_if_loop_refines:
  assumes "lru_ok c" "distinct (map fst m)" "set m \<subseteq> set (cache_items_map c)"
  shows "lru_ok (erase_if_loop f m c) \<and>
    lru_abs (erase_if_loop f m c) = filter (\<lambda>(k, v). \<not> (k \<in> fst ` set m \<and> f v)) (lru_abs c)"
  using assms
proof (induction m arbitrary: c)
  case (Cons e rest)
  obtain k it where e: "e = (k, it)" by (cases e)
  have ok: "lru_ok c" and dk: "distinct (map node_key (cache_items_list c))"
    using Cons.prems by (simp_all add: lru_ok_def)
  have some: "map_of (cache_items_map c) k = Some it"
    using Cons.prems e by (auto simp: lru_ok_def map_of_eq_Some_iff)
  then obtain v where v: "(it, k, v) \<in> set (cache_items_list c)"
    using lru_okD(1) [OF ok] by blast
  have uniq: "node_key x = k \<longleftrightarrow> x = (it, k, v)" if "x \<in> set (cache_items_list c)" for x
    using node_key_unique [OF ok that v] by auto
  have uid: "node_id x = it \<longleftrightarrow> x = (it, k, v)" if "x \<in> set (cache_items_list c)" for x
  proof -
    have "inj_on node_id (set (cache_items_list c))" using ok by (simp add: lru_ok_def distinct_map)
    from inj_on_eq_iff [OF this that v] show ?thesis by simp
  qed
  have "list_ex (\<lambda>(i, _, v). i = it \<and> f v) (cache_items_list c) \<longleftrightarrow> f v"
    using v uid by (force simp: list_ex_iff)
  moreover have "c\<lparr>cache_items_list := list_erase it (cache_items_list c),
             cache_items_map := map_erase k (cache_items_map c)\<rparr> = without k c"
    using list_erase_key [OF ok some] by (simp add: without_def)
  ultimately have step: "erase_if_loop f (e # rest) c =
      erase_if_loop f rest (if f v then without k c else c)"
    by (simp add: e)
  let ?c = "if f v then without k c else c"
  have "lru_ok ?c" using ok without_ok by auto
  moreover have "set rest \<subseteq> set (cache_items_map ?c)"
    using Cons.prems e by (force simp: without_def map_erase_def)
  ultimately have IH: "lru_ok (erase_if_loop f rest ?c) \<and>
      lru_abs (erase_if_loop f rest ?c) = filter (\<lambda>(k, v). \<not> (k \<in> fst ` set rest \<and> f v)) (lru_abs ?c)"
    using Cons.prems(2) by (intro Cons.IH) simp_all
  have kv: "w = v" if "(k, w) \<in> set (lru_abs c)" for w
    using that uniq by (force simp: lru_abs_def node_key_def)
  have "lru_abs ?c = filter (\<lambda>(k', w). \<not> (k' = k \<and> f w)) (lru_abs c)"
    using kv without_ok(2) [OF ok, of k]
    by (auto simp: spec_remove_def intro!: filter_cong [OF refl] filter_True [symmetric])
  then show ?case
    using IH unfolding step by (auto simp: e intro!: filter_cong)
qed (simp add: case_prod_unfold)

lemma erase_if_refines:
  assumes "lru_ok c"
  shows "lru_ok (erase_if c f)" "lru_abs (erase_if c f) = filter (\<lambda>(k, v). \<not> f v) (lru_abs c)"
proof -
  have d: "distinct (map fst (cache_items_map c))" using assms by (simp add: lru_ok_def)
  have "fst x \<in> fst ` set (cache_items_map c)" if "x \<in> set (lru_abs c)" for x
    using that assms by (force simp: lru_abs_def lru_ok_def)
  then have "filter (\<lambda>(k, v). \<not> (k \<in> fst ` set (cache_items_map c) \<and> f v)) (lru_abs c)
      = filter (\<lambda>(k, v). \<not> f v) (lru_abs c)"
    by (intro filter_cong) auto
  with erase_if_loop_refines [OF assms d subset_refl, of f]
  show "lru_ok (erase_if c f)" "lru_abs (erase_if c f) = filter (\<lambda>(k, v). \<not> f v) (lru_abs c)"
    by (simp_all add: erase_if_def)
qed

subsection \<open>Properties\<close>

text \<open>C8: \<^verbatim>\<open>put\<close> and \<^verbatim>\<open>get\<close> implement a least-recently-used list: the iterator map and the list stay
  consistent, \<^verbatim>\<open>put\<close> moves the pair to the front and drops the oldest pair beyond the size, and
  \<^verbatim>\<open>get\<close> answers the stored value and moves its pair to the front, or throws and changes nothing.\<close>

theorem lru_refines:
  assumes "lru_ok c"
  shows "lru_ok (put c k v) \<and> lru_abs (put c k v) = spec_put (max_size c) k v (lru_abs c) \<and>
    (case get c k of
      Inl e \<Rightarrow> e = ''There is no such key in cache'' \<and> map_of (lru_abs c) k = None
    | Inr (v, c') \<Rightarrow> map_of (lru_abs c) k = Some v \<and> lru_ok c' \<and>
        lru_abs c' = (k, v) # spec_remove k (lru_abs c) \<and> max_size c' = max_size c)"
  using put_refines [OF assms] get_refines [OF assms] by blast

lemma lru_cache_ok [simp]: "lru_ok (lru_cache n)" "lru_abs (lru_cache n) = []" "max_size (lru_cache n) = n"
  by (simp_all add: lru_cache_def lru_ok_def lru_abs_def)

theorem lru_refines_witness:
  "lru_abs (put (lru_cache 2) (3 :: nat) ''a'') = [(3, ''a'')]"
  using lru_refines [of "lru_cache 2" "3 :: nat" "''a''"]
  by (simp add: spec_put_def spec_remove_def)

text \<open>\<^verbatim>\<open>erase_if\<close>, which erases from the map it is walking over, erases exactly the pairs whose
  value satisfies the predicate, and \<^verbatim>\<open>erase_if_exists\<close> exactly the pair of the key; the sizes of map
  and list agree throughout.\<close>

theorem lru_erase_refines:
  assumes "lru_ok c"
  shows "lru_ok (erase_if c f) \<and> lru_abs (erase_if c f) = filter (\<lambda>(k, v). \<not> f v) (lru_abs c) \<and>
    lru_ok (erase_if_exists c k) \<and> lru_abs (erase_if_exists c k) = spec_remove k (lru_abs c) \<and>
    cache_size c = length (lru_abs c) \<and> (exists c k \<longleftrightarrow> k \<in> fst ` set (lru_abs c))"
proof -
  have "exists c k \<longleftrightarrow> k \<in> fst ` set (lru_abs c)"
    using lru_okD(2) [OF assms] by (auto simp: exists_def lru_abs_def node_key_def image_iff) force+
  moreover have "cache_size c = length (lru_abs c)"
    using lru_okD(3) [OF assms] by (simp add: cache_size_def lru_abs_def)
  ultimately show ?thesis
    using erase_if_refines [OF assms] without_ok [OF assms] by (simp add: erase_if_exists_eq assms)
qed

theorem lru_erase_refines_witness:
  "lru_abs (erase_if (put (lru_cache 2) (3 :: nat) (5 :: nat)) (\<lambda>v. v = 5)) = []"
proof -
  have "lru_ok (put (lru_cache 2) (3 :: nat) (5 :: nat))"
    "lru_abs (put (lru_cache 2) (3 :: nat) (5 :: nat)) = [(3, 5)]"
    using put_refines [of "lru_cache 2" "3 :: nat" "5 :: nat"]
    by (simp_all add: spec_put_def spec_remove_def)
  then show ?thesis using lru_erase_refines [of "put (lru_cache 2) (3 :: nat) (5 :: nat)" "\<lambda>v. v = 5"] by simp
qed

end
