(* ===== verification/TcpOptions.thy ===== *)
theory TcpOptions
  imports Prelude
begin

section \<open>TCP options\<close>

text \<open>
  The model of \<^verbatim>\<open>tcp_options.c\<close>, \<^verbatim>\<open>tcp_options_iterator.c\<close> and \<^verbatim>\<open>tcp_options_to_string.c\<close>: the
  options of a segment in wire format, the iterator that walks over them and checks every length
  byte, and their printing. A pointer is an offset into the packet buffer. The lemmas show that
  the iterator ends, never leaves the buffer and visits exactly the options of a well-formed block,
  and that the printing, which reads an option before the iterator has checked its length, does
  leave it.
\<close>

subsection \<open>Kinds and lengths\<close>

definition TCPOPT_EOL :: u8 where "TCPOPT_EOL = 0"
definition TCPOPT_NOP :: u8 where "TCPOPT_NOP = 1"
definition TCPOPT_MAXSEG :: u8 where "TCPOPT_MAXSEG = 2"
definition TCPOLEN_MAXSEG :: u8 where "TCPOLEN_MAXSEG = 4"
definition TCPOPT_WINDOW :: u8 where "TCPOPT_WINDOW = 3"
definition TCPOLEN_WINDOW :: u8 where "TCPOLEN_WINDOW = 3"
definition TCPOPT_SACK_PERMITTED :: u8 where "TCPOPT_SACK_PERMITTED = 4"
definition TCPOLEN_SACK_PERMITTED :: u8 where "TCPOLEN_SACK_PERMITTED = 2"
definition TCPOPT_SACK :: u8 where "TCPOPT_SACK = 5"
definition TCPOPT_TIMESTAMP :: u8 where "TCPOPT_TIMESTAMP = 8"
definition TCPOLEN_TIMESTAMP :: u8 where "TCPOLEN_TIMESTAMP = 10"
definition TCPOPT_MD5SIG :: u8 where "TCPOPT_MD5SIG = 19"
definition TCPOLEN_MD5SIG :: u8 where "TCPOLEN_MD5SIG = 18"
definition TCPOLEN_MD5_BASE :: u8 where "TCPOLEN_MD5_BASE = 2"
definition TCPOPT_FASTOPEN :: u8 where "TCPOPT_FASTOPEN = 34"
definition TCPOPT_EXP :: u8 where "TCPOPT_EXP = 254"
definition TCPOPT_FASTOPEN_MAGIC :: u16 where "TCPOPT_FASTOPEN_MAGIC = 0xF989"
definition TCPOLEN_EXP_FASTOPEN_BASE :: nat where "TCPOLEN_EXP_FASTOPEN_BASE = 4"
definition TCPOLEN_FASTOPEN_BASE :: nat where "TCPOLEN_FASTOPEN_BASE = 2"
definition MAX_TCP_OPTION_BYTES :: nat where "MAX_TCP_OPTION_BYTES = 40"

lemmas tcpopt_defs = TCPOPT_EOL_def TCPOPT_NOP_def TCPOPT_MAXSEG_def TCPOLEN_MAXSEG_def
  TCPOPT_WINDOW_def TCPOLEN_WINDOW_def TCPOPT_SACK_PERMITTED_def TCPOLEN_SACK_PERMITTED_def
  TCPOPT_SACK_def TCPOPT_TIMESTAMP_def TCPOLEN_TIMESTAMP_def TCPOPT_MD5SIG_def
  TCPOLEN_MD5SIG_def TCPOLEN_MD5_BASE_def TCPOPT_FASTOPEN_def TCPOPT_EXP_def
  TCPOPT_FASTOPEN_MAGIC_def TCPOLEN_EXP_FASTOPEN_BASE_def TCPOLEN_FASTOPEN_BASE_def
  MAX_TCP_OPTION_BYTES_def

subsection \<open>Building a block of options\<close>

text \<open>A \<^verbatim>\<open>struct tcp_options\<close>: the 40 bytes of data and the length in use. A \<^verbatim>\<open>struct tcp_option\<close>
  is its 40-byte image: kind, length, then the union.\<close>

record tcp_options =
  opts_data :: bytes
  opts_length :: u8

definition tcp_options_new :: tcp_options where
  "tcp_options_new = \<lparr>opts_data = replicate MAX_TCP_OPTION_BYTES 0, opts_length = 0\<rparr>"

definition tcp_option_new :: "u8 \<Rightarrow> u8 \<Rightarrow> bytes" where
  "tcp_option_new kind len = kind # len # replicate 38 0"

definition tcp_options_append :: "tcp_options \<Rightarrow> bytes \<Rightarrow> (status \<times> tcp_options) run" where
  "tcp_options_append options option =
     (let len = option ! 1
      in if MAX_TCP_OPTION_BYTES < unat (opts_length options) + unat len
         then Done (STATUS_ERR, options)
         else rbind (store (opts_data options) (unat (opts_length options)) (take (unat len) option))
           (\<lambda>data. let options = options\<lparr>opts_data := data, opts_length := opts_length options + len\<rparr>
              in check (unat (opts_length options) \<le> MAX_TCP_OPTION_BYTES)
                   (Done (STATUS_OK, options))))"

definition num_sack_blocks :: "u8 \<Rightarrow> string + nat" where
  "num_sack_blocks opt_len =
     (if opt_len \<le> 2 then Inl ''TCP SACK option too short''
      else (let num_bytes = unat opt_len - 2
            in if num_bytes mod 8 \<noteq> 0
               then Inl ''TCP SACK option not a multiple of SACK block size''
               else Inr (num_bytes div 8)))"

subsection \<open>The iterator\<close>

definition get_expected_tcp_option_length :: "u8 \<Rightarrow> string + u8" where
  "get_expected_tcp_option_length kind =
     (if kind = TCPOPT_EOL \<or> kind = TCPOPT_NOP then Inr 1
      else if kind = TCPOPT_MAXSEG then Inr TCPOLEN_MAXSEG
      else if kind = TCPOPT_WINDOW then Inr TCPOLEN_WINDOW
      else if kind = TCPOPT_SACK_PERMITTED then Inr TCPOLEN_SACK_PERMITTED
      else if kind = TCPOPT_TIMESTAMP then Inr TCPOLEN_TIMESTAMP
      else if kind = TCPOPT_SACK \<or> kind = TCPOPT_MD5SIG \<or> kind = TCPOPT_FASTOPEN \<or> kind = TCPOPT_EXP
      then Inr 0
      else Inl (''unexpected TCP option kind: '' @ dec (unat kind)))"

definition get_tcp_option_length :: "bytes \<Rightarrow> nat \<Rightarrow> nat \<Rightarrow> u8 \<Rightarrow> (string + u8) run" where
  "get_tcp_option_length bs option limit expected_length =
     (if limit \<le> option + 1 then Done (Inl ''TCP option length byte extends too far'')
      else rbind (ld8 bs (option + 1)) (\<lambda>length. Done
        (if length < 2 then Inl ''TCP option with length byte is too short''
         else if limit < option + unat length then Inl ''TCP option data extends too far''
         else if expected_length \<noteq> 0 \<and> length \<noteq> expected_length
         then Inl (''bad TCP option length: was '' @ dec (unat length) @ '' but expected '' @
                   dec (unat expected_length))
         else Inr length)))"

text \<open>The iterator; \<open>None\<close> is the null pointer.\<close>

record tcp_options_iterator =
  current_option :: "nat option"
  options_end :: nat

definition get_current_option ::
  "nat \<Rightarrow> tcp_options_iterator \<Rightarrow> (nat option \<times> tcp_options_iterator) run" where
  "get_current_option cur iter =
     check (cur \<le> options_end iter)
       (let iter = iter\<lparr>current_option := (if options_end iter \<le> cur then None else Some cur)\<rparr>
        in Done (current_option iter, iter))"

text \<open>\<^verbatim>\<open>tcp_options_begin\<close>, given the options and the payload of the packet.\<close>

definition tcp_options_begin :: "nat \<Rightarrow> nat \<Rightarrow> (nat option \<times> tcp_options_iterator) run" where
  "tcp_options_begin options payload =
     get_current_option options \<lparr>current_option = Some options, options_end = payload\<rparr>"

text \<open>The part of \<^verbatim>\<open>tcp_options_next\<close> that finds the length of the option at the iterator; both
  failures go to its label \<^verbatim>\<open>out\<close>.\<close>

definition this_option_length :: "bytes \<Rightarrow> nat \<Rightarrow> nat \<Rightarrow> (string + u8) run" where
  "this_option_length bs cur limit =
     rbind (ld8 bs cur) (\<lambda>kind.
       case get_expected_tcp_option_length kind of
         Inl e \<Rightarrow> Done (Inl e)
       | Inr expected_length \<Rightarrow>
           (if expected_length = 1 then Done (Inr 1)
            else get_tcp_option_length bs cur limit expected_length))"

text \<open>The option returned, the iterator, and the error if one was set.\<close>

definition tcp_options_next ::
  "bytes \<Rightarrow> tcp_options_iterator \<Rightarrow> (nat option \<times> tcp_options_iterator \<times> string option) run" where
  "tcp_options_next bs iter =
     (case current_option iter of
        None \<Rightarrow> Die
      | Some cur \<Rightarrow>
          check (cur < options_end iter)
            (rbind (this_option_length bs cur (options_end iter)) (\<lambda>r. case r of
               Inl e \<Rightarrow> Done (None, iter, Some e)
             | Inr len \<Rightarrow>
                 check (0 < len) (
                   let cur = cur + unat len
                   in check (cur \<le> options_end iter)
                        (rbind (get_current_option cur iter)
                          (\<lambda>(p, iter). Done (p, iter, None)))))))"

text \<open>A length that was found is positive and stays inside the block.\<close>

lemma this_option_length_Inr:
  assumes "this_option_length bs cur limit = Done (Inr len)" "cur < limit"
  shows "0 < unat len" "cur + unat len \<le> limit"
  using assms
  by (auto simp: this_option_length_def get_tcp_option_length_def run_simps word_less_nat_alt
      word_le_nat_alt split: sum.splits if_splits)

lemma this_option_length_safe:
  assumes "cur < limit" "limit \<le> length bs"
  obtains (error) e where "this_option_length bs cur limit = Done (Inl e)"
    | (length) len where "this_option_length bs cur limit = Done (Inr len)"
        "0 < unat len" "cur + unat len \<le> limit"
proof -
  have "this_option_length bs cur limit \<noteq> Oob" "this_option_length bs cur limit \<noteq> Die"
    using assms
    by (auto simp: this_option_length_def get_tcp_option_length_def run_simps split: sum.splits)
  then obtain r where r: "this_option_length bs cur limit = Done r"
    by (cases "this_option_length bs cur limit") auto
  then show ?thesis
    using that this_option_length_Inr [OF _ assms(1)] by (cases r) auto
qed

subsection \<open>The loop over all options\<close>

lemma next_advances:
  assumes "tcp_options_next bs iter = Done (Some q, iter', err)"
  shows "options_end iter' = options_end iter \<and> current_option iter' = Some q \<and> err = None \<and>
    q < options_end iter \<and> (\<exists>p. current_option iter = Some p \<and> p < q)"
proof -
  obtain p r where p: "current_option iter = Some p" "p < options_end iter"
    and r: "this_option_length bs p (options_end iter) = Done r"
    using assms by (auto simp: tcp_options_next_def run_simps split: option.splits)
  then obtain len where "r = Inr len"
    using assms by (cases r) (auto simp: tcp_options_next_def)
  with p r assms show ?thesis
    by (auto simp: tcp_options_next_def get_current_option_def run_simps Let_def word_less_nat_alt
        split: if_splits)
qed

text \<open>The loop \<^verbatim>\<open>for (option = begin; option != NULL; option = next)\<close> of every client, with the
  body that only records the option: the options visited and the error that ended the walk.\<close>

function options_loop :: "bytes \<Rightarrow> nat option \<Rightarrow> tcp_options_iterator \<Rightarrow> (nat list \<times> string option) run" where
  "options_loop bs None iter = Done ([], None)"
| "options_loop bs (Some p) iter =
     (case tcp_options_next bs iter of
        Oob \<Rightarrow> Oob | Die \<Rightarrow> Die
      | Done (q, iter', err) \<Rightarrow>
          (case q of
             None \<Rightarrow> Done ([p], err)
           | Some _ \<Rightarrow> rbind (options_loop bs q iter') (\<lambda>(ps, e). Done (p # ps, e))))"
  by pat_completeness auto

termination
  by (relation "measure (\<lambda>(bs, q, iter). case current_option iter of
      None \<Rightarrow> 0 | Some p \<Rightarrow> options_end iter - p)") (auto dest!: next_advances)

definition tcp_options_walk :: "bytes \<Rightarrow> nat \<Rightarrow> nat \<Rightarrow> (nat list \<times> string option) run" where
  "tcp_options_walk bs options payload =
     rbind (tcp_options_begin options payload) (\<lambda>(p, iter). options_loop bs p iter)"

subsection \<open>Printing\<close>

definition tcp_md5_option_to_string :: "bytes \<Rightarrow> nat \<Rightarrow> (status \<times> string) run" where
  "tcp_md5_option_to_string bs option =
     rbind (ld8 bs (option + 1)) (\<lambda>length.
       if length < TCPOLEN_MD5_BASE \<or> TCPOLEN_MD5SIG < length then Done (STATUS_ERR, [])
       else (let digest_bytes = unat length - unat TCPOLEN_MD5_BASE
             in rbind (run_map (\<lambda>i. ld8 bs (option + 2 + i)) [0..<digest_bytes]) (\<lambda>digest.
                  Done (STATUS_OK, ''md5'' @ (if 0 < digest_bytes then '' '' else []) @
                    concat (map hex2 digest)))))"

definition tcp_fast_open_option_to_string :: "bytes \<Rightarrow> nat \<Rightarrow> bool \<Rightarrow> (status \<times> string) run" where
  "tcp_fast_open_option_to_string bs option exp =
     rbind (ld8 bs (option + 1)) (\<lambda>length.
       let base = (if exp then TCPOLEN_EXP_FASTOPEN_BASE else TCPOLEN_FASTOPEN_BASE);
           cookie_bytes = int (unat length) - int base
       in rbind (if exp
                 then (if unat length < TCPOLEN_EXP_FASTOPEN_BASE then Done True
                       else rbind (ld_be16 bs (option + 2)) (\<lambda>magic. Done (magic \<noteq> TCPOPT_FASTOPEN_MAGIC)))
                 else Done False)
            (\<lambda>bad. if bad then Done (STATUS_ERR, [])
              else check (0 \<le> cookie_bytes) (check (cookie_bytes \<le> int MAX_TCP_OPTION_BYTES - int base)
                (rbind (run_map (\<lambda>i. ld8 bs (option + base + i)) [0..<nat cookie_bytes]) (\<lambda>cookie.
                   Done (STATUS_OK, (if exp then ''FOEXP'' else ''FO'') @
                     (if 0 < cookie_bytes then '' '' else []) @ concat (map hex2 cookie)))))))"

text \<open>The SACK blocks from the i-th on, n of them.\<close>

fun sack_blocks_to_string :: "bytes \<Rightarrow> nat \<Rightarrow> nat \<Rightarrow> nat \<Rightarrow> string run" where
  "sack_blocks_to_string bs option i 0 = Done []"
| "sack_blocks_to_string bs option i (Suc n) =
     rbind (ld_be32 bs (option + 2 + 8 * i)) (\<lambda>left.
     rbind (ld_be32 bs (option + 6 + 8 * i)) (\<lambda>right.
     rbind (sack_blocks_to_string bs option (i + 1) n) (\<lambda>rest.
       Done ((if 0 < i then '' '' else []) @ dec (unat left) @ '':'' @ dec (unat right) @ rest))))"

text \<open>The \<^verbatim>\<open>switch\<close> of the loop body: what is printed, and the error of a \<^verbatim>\<open>goto out\<close>.\<close>

definition tcp_option_to_string :: "bytes \<Rightarrow> nat \<Rightarrow> (string \<times> string option) run" where
  "tcp_option_to_string bs option =
     rbind (ld8 bs option) (\<lambda>kind.
       if kind = TCPOPT_EOL then Done (''eol'', None)
       else if kind = TCPOPT_NOP then Done (''nop'', None)
       else if kind = TCPOPT_MAXSEG
       then rbind (ld_be16 bs (option + 2)) (\<lambda>mss. Done (''mss '' @ dec (unat mss), None))
       else if kind = TCPOPT_WINDOW
       then rbind (ld8 bs (option + 2)) (\<lambda>shift_count. Done (''wscale '' @ dec (unat shift_count), None))
       else if kind = TCPOPT_SACK_PERMITTED then Done (''sackOK'', None)
       else if kind = TCPOPT_SACK
       then rbind (ld8 bs (option + 1)) (\<lambda>length.
              case num_sack_blocks length of
                Inl e \<Rightarrow> Done (''sack '', Some e)
              | Inr num_blocks \<Rightarrow>
                  rbind (sack_blocks_to_string bs option 0 num_blocks) (\<lambda>s. Done (''sack '' @ s, None)))
       else if kind = TCPOPT_TIMESTAMP
       then rbind (ld_be32 bs (option + 2)) (\<lambda>val. rbind (ld_be32 bs (option + 6)) (\<lambda>ecr.
              Done (''TS val '' @ dec (unat val) @ '' ecr '' @ dec (unat ecr), None)))
       else if kind = TCPOPT_MD5SIG
       then rbind (tcp_md5_option_to_string bs option) (\<lambda>(_, s). Done (s, None))
       else if kind = TCPOPT_FASTOPEN
       then rbind (tcp_fast_open_option_to_string bs option False) (\<lambda>(_, s). Done (s, None))
       else if kind = TCPOPT_EXP
       then rbind (tcp_fast_open_option_to_string bs option True) (\<lambda>(st, s).
              Done (s, if st = STATUS_OK then None else Some ''unknown experimental option''))
       else Done ([], Some (''unexpected TCP option kind: '' @ dec (unat kind))))"

function to_string_loop ::
  "bytes \<Rightarrow> nat option \<Rightarrow> tcp_options_iterator \<Rightarrow> nat \<Rightarrow> string \<Rightarrow>
   (status \<times> string \<times> string option) run" where
  "to_string_loop bs None iter index s = Done (STATUS_OK, s, None)"
| "to_string_loop bs (Some p) iter index s =
     (case tcp_option_to_string bs p of
        Oob \<Rightarrow> Oob | Die \<Rightarrow> Die
      | Done (text, goto_out) \<Rightarrow>
          (if goto_out \<noteq> None
           then Done (STATUS_ERR, s @ (if 0 < index then '','' else []) @ text, goto_out)
           else (case tcp_options_next bs iter of
                   Oob \<Rightarrow> Oob | Die \<Rightarrow> Die
                 | Done (q, iter', error) \<Rightarrow>
                     (case q of
                        None \<Rightarrow> Done (if error = None then STATUS_OK else STATUS_ERR,
                                      s @ (if 0 < index then '','' else []) @ text, error)
                      | Some _ \<Rightarrow> to_string_loop bs q iter' (index + 1)
                                  (s @ (if 0 < index then '','' else []) @ text)))))"
  by pat_completeness auto
termination
  by (relation "measure (\<lambda>(bs, q, iter, _). case current_option iter of
      None \<Rightarrow> 0 | Some p \<Rightarrow> options_end iter - p)") (auto dest!: next_advances)

text \<open>\<^verbatim>\<open>tcp_options_to_string\<close>: status, the string printed, and the error.\<close>

definition tcp_options_to_string ::
  "bytes \<Rightarrow> nat \<Rightarrow> nat \<Rightarrow> (status \<times> string \<times> string option) run" where
  "tcp_options_to_string bs options payload =
     rbind (tcp_options_begin options payload) (\<lambda>(p, iter). to_string_loop bs p iter 0 [])"

subsection \<open>The iterator is safe\<close>

lemma options_loop_next:
  assumes "current_option iter = Some p" "p < options_end iter"
  shows "options_loop bs (Some p) iter =
    (case this_option_length bs p (options_end iter) of
       Oob \<Rightarrow> Oob | Die \<Rightarrow> Die
     | Done (Inl e) \<Rightarrow> Done ([p], Some e)
     | Done (Inr len) \<Rightarrow>
         (if p + unat len = options_end iter then Done ([p], None)
          else rbind (options_loop bs (Some (p + unat len)) (iter\<lparr>current_option := Some (p + unat len)\<rparr>))
                 (\<lambda>(ps, e). Done (p # ps, e))))"
proof (cases "this_option_length bs p (options_end iter)")
  case (Done r)
  show ?thesis
  proof (cases r)
    case (Inr len)
    note l = this_option_length_Inr [OF Done [unfolded Inr] assms(2)]
    then show ?thesis using assms Done Inr
      by (auto simp: tcp_options_next_def get_current_option_def Let_def word_less_nat_alt)
  qed (use assms Done in \<open>simp add: tcp_options_next_def\<close>)
qed (use assms in \<open>simp_all add: tcp_options_next_def\<close>)

declare options_loop.simps(2) [simp del]

text \<open>From any position inside a block that lies inside the buffer, the walk ends, without a
  fault, and visits positions inside the block.\<close>

lemma options_loop_safe:
  assumes "current_option iter = Some p" "p < options_end iter" "options_end iter \<le> length bs"
  shows "\<exists>ps e. options_loop bs (Some p) iter = Done (p # ps, e) \<and>
    sorted_wrt (<) (p # ps) \<and> (\<forall>q \<in> set ps. q < options_end iter)"
  using assms
proof (induction "options_end iter - p" arbitrary: p iter rule: less_induct)
  case less
  from less.prems(2,3) show ?case
  proof (cases rule: this_option_length_safe)
    case (error e)
    then show ?thesis using less.prems by (simp add: options_loop_next)
  next
    case (length len)
    show ?thesis
    proof (cases "p + unat len = options_end iter")
      case False
      define iter' where "iter' = iter\<lparr>current_option := Some (p + unat len)\<rparr>"
      have "\<exists>ps e. options_loop bs (Some (p + unat len)) iter' = Done ((p + unat len) # ps, e) \<and>
          sorted_wrt (<) ((p + unat len) # ps) \<and> (\<forall>q \<in> set ps. q < options_end iter')"
        by (rule less.hyps) (use False length less.prems in \<open>simp_all add: iter'_def\<close>)
      then obtain ps e where "options_loop bs (Some (p + unat len)) iter' = Done ((p + unat len) # ps, e)"
        "\<forall>x \<in> set ps. p + unat len < x" "sorted_wrt (<) ps" "\<forall>q \<in> set ps. q < options_end iter"
        by (auto simp: iter'_def)
      moreover from this(2) have "\<forall>x \<in> set ps. p < x" by auto
      ultimately show ?thesis
        using False length less.prems
        by (auto simp: options_loop_next simp flip: iter'_def)
    qed (use length less.prems in \<open>simp add: options_loop_next\<close>)
  qed
qed

lemma tcp_options_walk_begin:
  "tcp_options_walk bs o1 o2 =
     (if o2 < o1 then Die
      else if o1 = o2 then Done ([], None)
      else options_loop bs (Some o1) \<lparr>current_option = Some o1, options_end = o2\<rparr>)"
  by (simp add: tcp_options_walk_def tcp_options_begin_def get_current_option_def check_def)

text \<open>C3: Whatever bytes a segment carries in place of options, the option iterator ends, never reads
  outside the block (so not outside the packet buffer), fails no assertion, and visits strictly
  increasing positions inside the block.\<close>

theorem tcp_options_walk_safe:
  assumes "options \<le> payload" "payload \<le> length bs"
  shows "\<exists>ps e. tcp_options_walk bs options payload = Done (ps, e) \<and> sorted_wrt (<) ps \<and>
    (\<forall>q \<in> set ps. options \<le> q \<and> q < payload)"
proof (cases "options = payload")
  case False
  define iter where "iter = \<lparr>current_option = Some options, options_end = payload\<rparr>"
  have "\<exists>ps e. options_loop bs (Some options) iter = Done (options # ps, e) \<and>
    sorted_wrt (<) (options # ps) \<and> (\<forall>q \<in> set ps. q < options_end iter)"
    by (rule options_loop_safe) (use assms False in \<open>simp_all add: iter_def\<close>)
  then obtain ps e where "options_loop bs (Some options) iter = Done (options # ps, e)"
    "sorted_wrt (<) (options # ps)" "\<forall>q \<in> set ps. q < payload"
    by (auto simp: iter_def)
  then show ?thesis using assms False
    by (intro exI [of _ "options # ps"] exI [of _ e])
      (auto simp: tcp_options_walk_begin iter_def)
qed (simp add: tcp_options_walk_begin)

theorem tcp_options_walk_safe_witness:
  "\<exists>ps e. tcp_options_walk [2, 4, 5, 0xb4, 1, 99] 0 6 = Done (ps, e) \<and> sorted_wrt (<) ps \<and>
    (\<forall>q \<in> set ps. 0 \<le> q \<and> q < 6)"
  using tcp_options_walk_safe [of 0 6 "[2, 4, 5, 0xb4, 1, 99]"] by simp

subsection \<open>Printing an accepted block is safe\<close>

lemma run_map_safe:
  "\<forall>i \<in> set xs. \<exists>y. f i = Done y \<Longrightarrow> \<exists>ys. run_map f xs = Done ys"
  by (induction xs) auto

lemma sack_blocks_safe:
  "option + 2 + 8 * (i + n) \<le> length bs \<Longrightarrow> \<exists>s. sack_blocks_to_string bs option i n = Done s"
proof (induction n arbitrary: i)
  case (Suc n)
  then have "\<exists>s. sack_blocks_to_string bs option (i + 1) n = Done s"
    by (intro Suc.IH) simp
  then show ?case using Suc.prems by (auto simp: ld_be32_def)
qed simp

lemma md5_option_safe:
  assumes "option + unat (bs ! (option + 1)) \<le> length bs" "option + 1 < length bs"
  shows "\<exists>r. tcp_md5_option_to_string bs option = Done r"
proof -
  have "\<exists>ys. run_map (\<lambda>i. ld8 bs (option + 2 + i)) [0..<unat (bs ! (option + 1)) - 2] = Done ys"
    by (rule run_map_safe) (use assms in \<open>auto simp: ld8_def\<close>)
  then obtain ys where
    "run_map (\<lambda>i. ld8 bs (option + 2 + i)) [0..<unat (bs ! (option + 1)) - 2] = Done ys" ..
  then show ?thesis using assms
    by (simp add: tcp_md5_option_to_string_def tcpopt_defs Let_def)
qed

lemma fast_open_option_safe:
  assumes "option + unat (bs ! (option + 1)) \<le> length bs" "option + 1 < length bs"
    "2 \<le> unat (bs ! (option + 1))" "unat (bs ! (option + 1)) \<le> 40"
  shows "\<exists>r. tcp_fast_open_option_to_string bs option exp = Done r"
proof -
  define len where "len = unat (bs ! (option + 1))"
  have cookie: "\<exists>ys. run_map (\<lambda>i. ld8 bs (option + base + i)) [0..<nat (int len - int base)] = Done ys"
    for base
  proof (rule run_map_safe)
    have "option + len \<le> length bs" using assms(1) by (simp add: len_def)
    then show "\<forall>i \<in> set [0..<nat (int len - int base)]. \<exists>y. ld8 bs (option + base + i) = Done y"
      by (auto simp: ld8_def)
  qed
  have u: "unat (bs ! Suc option) = len" "uint (bs ! Suc option) = int len"
    by (simp_all add: len_def)
  show ?thesis
  proof (cases exp)
    case True
    have "\<exists>m. ld_be16 bs (option + 2) = Done m" if "4 \<le> len"
      using that assms by (auto simp: ld_be16_def len_def)
    then show ?thesis using assms True cookie [of 4] unfolding tcp_fast_open_option_to_string_def
      by (cases "len < 4") (auto simp: tcpopt_defs Let_def u)
  next
    case False
    then show ?thesis using assms cookie [of 2] unfolding tcp_fast_open_option_to_string_def
      by (auto simp: tcpopt_defs Let_def u)
  qed
qed

text \<open>What the iterator has checked when it accepts an option.\<close>

lemma accepted_option:
  assumes "this_option_length bs p limit = Done (Inr len)" "p < limit" "limit \<le> length bs"
  shows "bs ! p = TCPOPT_EOL \<or> bs ! p = TCPOPT_NOP \<or>
    (p + 1 < length bs \<and> bs ! (p + 1) = len \<and> 2 \<le> unat len \<and> p + unat len \<le> length bs \<and>
     (bs ! p = TCPOPT_MAXSEG \<and> len = 4 \<or> bs ! p = TCPOPT_WINDOW \<and> len = 3 \<or>
      bs ! p = TCPOPT_SACK_PERMITTED \<or> bs ! p = TCPOPT_TIMESTAMP \<and> len = 10 \<or>
      bs ! p = TCPOPT_SACK \<or> bs ! p = TCPOPT_MD5SIG \<or> bs ! p = TCPOPT_FASTOPEN \<or> bs ! p = TCPOPT_EXP))"
  using assms
  by (auto simp: this_option_length_def get_tcp_option_length_def run_simps word_le_nat_alt
      word_less_nat_alt get_expected_tcp_option_length_def tcpopt_defs
      split: sum.splits if_splits)

lemma option_to_string_safe:
  assumes "this_option_length bs p limit = Done (Inr len)" "p < limit" "limit \<le> length bs"
    and "limit - p \<le> 40"
  shows "\<exists>r. tcp_option_to_string bs p = Done r"
proof -
  have sack: "\<exists>s. sack_blocks_to_string bs p 0 ((unat len - 2) div 8) = Done s"
    if "2 \<le> unat len" "p + unat len \<le> length bs"
  proof (rule sack_blocks_safe)
    have "8 * ((unat len - 2) div 8) \<le> unat len - 2" by simp
    then show "p + 2 + 8 * (0 + (unat len - 2) div 8) \<le> length bs" using that by simp
  qed
  have "unat len \<le> 40" using this_option_length_Inr [OF assms(1,2)] assms(4) by simp
  then show ?thesis
    using accepted_option [OF assms(1-3)] assms(2,3)
      md5_option_safe [of p bs] fast_open_option_safe [of p bs True]
      fast_open_option_safe [of p bs False] sack
    by (elim disjE conjE)
      (auto simp: tcp_option_to_string_def tcpopt_defs ld_be16_def ld_be32_def num_sack_blocks_def Let_def
        word_le_nat_alt)
qed

lemma to_string_loop_safe:
  assumes "current_option iter = Some p" "p < options_end iter" "options_end iter \<le> length bs"
    and "options_end iter - p \<le> 40" and "options_loop bs (Some p) iter = Done (ps, None)"
  shows "\<exists>r. to_string_loop bs (Some p) iter index s = Done r"
  using assms
proof (induction "options_end iter - p" arbitrary: p iter ps index s rule: less_induct)
  case less
  from less.prems(2,3) show ?case
  proof (cases rule: this_option_length_safe)
    case (error e)
    then show ?thesis using less.prems by (simp add: options_loop_next)
  next
    case (length len)
    obtain printed e where pr: "tcp_option_to_string bs p = Done (printed, e)"
      using option_to_string_safe [OF length(1) less.prems(2-4)] by auto
    define iter' where "iter' = iter\<lparr>current_option := Some (p + unat len)\<rparr>"
    have nxt: "tcp_options_next bs iter =
        Done (if p + unat len = options_end iter
              then (None, iter\<lparr>current_option := None\<rparr>, None) else (Some (p + unat len), iter', None))"
      using length less.prems(1,2)
      by (simp add: tcp_options_next_def get_current_option_def Let_def word_less_nat_alt iter'_def)
    show ?thesis
    proof (cases "p + unat len = options_end iter")
      case False
      obtain ps' where ps': "options_loop bs (Some (p + unat len)) iter' = Done (ps', None)"
        using less.prems(5) False length less.prems(1,2)
        by (auto simp: options_loop_next run_simps simp flip: iter'_def)
      have "\<exists>r. to_string_loop bs (Some (p + unat len)) iter' i s' = Done r" for i s'
        by (rule less.hyps [OF _ _ _ _ _ ps'])
          (use False length less.prems in \<open>simp_all add: iter'_def\<close>)
      then show ?thesis using pr nxt False by simp
    qed (use pr nxt in simp)
  qed
qed

text \<open>If the iterator accepts a block of at most 40 option bytes, printing the block reads only
  inside the buffer and fails no assertion.\<close>

theorem tcp_options_to_string_safe:
  assumes "tcp_options_walk bs options payload = Done (ps, None)"
    and "payload \<le> length bs" and "payload - options \<le> MAX_TCP_OPTION_BYTES"
  shows "\<exists>r. tcp_options_to_string bs options payload = Done r"
proof (cases "options < payload")
  case True
  then show ?thesis
    using assms to_string_loop_safe [of "\<lparr>current_option = Some options, options_end = payload\<rparr>" options bs ps]
    by (simp add: tcp_options_walk_begin tcp_options_to_string_def tcp_options_begin_def
        get_current_option_def MAX_TCP_OPTION_BYTES_def)
next
  case False
  then show ?thesis using assms(1)
    by (auto simp: tcp_options_walk_begin tcp_options_to_string_def tcp_options_begin_def
        get_current_option_def check_def split: if_splits)
qed

theorem tcp_options_to_string_safe_witness:
  "\<exists>r. tcp_options_to_string [2, 4, 5, 0xb4, 1, 4, 2] 0 7 = Done r"
proof -
  have "tcp_options_walk [2, 4, 5, 0xb4, 1, 4, 2] 0 7 = Done ([0, 4, 5], None)"
    by (simp add: tcp_options_walk_begin options_loop_next this_option_length_def
        get_expected_tcp_option_length_def get_tcp_option_length_def tcpopt_defs)
  then show ?thesis
    using tcp_options_to_string_safe [of "[2, 4, 5, 0xb4, 1, 4, 2]" 0 7 "[0, 4, 5]"]
    by (simp add: MAX_TCP_OPTION_BYTES_def)
qed

text \<open>Printing reads an option before the iterator has checked its length, so on blocks that the
  iterator rejects it can leave the buffer (a lone MSS kind at the end of a packet) or stop the process
  on an assertion (a fast open option with length byte 1), although the walk itself only reports
  an error.\<close>

theorem tcp_options_to_string_unsafe:
  "tcp_options_walk [2] 0 1 = Done ([0], Some ''TCP option length byte extends too far'') \<and>
   tcp_options_to_string [2] 0 1 = Oob \<and>
   tcp_options_walk [34, 1] 0 2 = Done ([0], Some ''TCP option with length byte is too short'') \<and>
   tcp_options_to_string [34, 1] 0 2 = Die"
  by (simp add: tcp_options_walk_begin options_loop_next this_option_length_def
      get_expected_tcp_option_length_def get_tcp_option_length_def tcpopt_defs
      tcp_options_to_string_def tcp_options_begin_def get_current_option_def
      tcp_option_to_string_def ld_be16_def tcp_fast_open_option_to_string_def)

subsection \<open>Appending and iterating\<close>

text \<open>An option as the program builds it: a 40-byte image whose length byte fits its kind.\<close>

definition option_len :: "bytes \<Rightarrow> nat" where
  "option_len w = unat (w ! 1)"

lemma option_len_Suc: "unat (w ! Suc 0) = option_len w"
  by (simp add: option_len_def)

definition valid_option :: "bytes \<Rightarrow> bool" where
  "valid_option w \<longleftrightarrow> length w = 40 \<and>
     (case get_expected_tcp_option_length (w ! 0) of
        Inl _ \<Rightarrow> False
      | Inr x \<Rightarrow> if x = 1 then option_len w = 1
                else 2 \<le> option_len w \<and> option_len w \<le> 40 \<and> (x = 0 \<or> w ! 1 = x))"

fun append_all :: "tcp_options \<Rightarrow> bytes list \<Rightarrow> (status \<times> tcp_options) run" where
  "append_all options [] = Done (STATUS_OK, options)"
| "append_all options (w # ws) =
     rbind (tcp_options_append options w) (\<lambda>(st, options).
       if st = STATUS_OK then append_all options ws else Done (st, options))"

fun positions :: "nat \<Rightarrow> bytes list \<Rightarrow> nat list" where
  "positions p [] = []"
| "positions p (w # ws) = p # positions (p + option_len w) ws"

definition wire :: "bytes list \<Rightarrow> bytes" where
  "wire ws = concat (map (\<lambda>w. take (option_len w) w) ws)"

lemma valid_option_len:
  assumes "valid_option w"
  shows "0 < option_len w" "option_len w \<le> 40" "length (take (option_len w) w) = option_len w"
  using assms by (auto simp: valid_option_def split: sum.splits if_splits)

lemma option_at:
  assumes "valid_option w"
  shows "this_option_length (pre @ take (option_len w) w @ post) (length pre) (length pre + option_len w + n)
    = Done (Inr (w ! 1))"
proof -
  note len = valid_option_len [OF assms]
  have "(pre @ take (option_len w) w @ post) ! length pre = w ! 0"
    using len by (simp add: nth_append)
  moreover have "(pre @ take (option_len w) w @ post) ! (length pre + 1) = w ! 1" if "2 \<le> option_len w"
    using len that by (simp add: nth_append)
  moreover have "option_len w = 1 \<Longrightarrow> w ! 1 = 1"
    by (simp add: option_len_def) (metis One_nat_def unsigned_1 word_unat_eq_iff)
  ultimately show ?thesis
    using assms len
    by (auto simp: valid_option_def this_option_length_def get_tcp_option_length_def
        word_less_nat_alt option_len_def ld8_def split: sum.splits if_splits)
qed

lemma options_loop_wire:
  assumes "\<forall>w \<in> set ws. valid_option w" "ws \<noteq> []" "current_option iter = Some (length pre)"
    "options_end iter = length pre + length (wire ws)"
  shows "options_loop (pre @ wire ws @ post) (Some (length pre)) iter = Done (positions (length pre) ws, None)"
  using assms
proof (induction ws arbitrary: pre iter)
  case (Cons w ws)
  have w: "valid_option w" using Cons.prems by simp
  note len = valid_option_len [OF w]
  have th: "this_option_length (pre @ wire (w # ws) @ post) (length pre) (options_end iter) = Done (Inr (w ! 1))"
    using option_at [OF w, of pre "wire ws @ post" "length (wire ws)"] Cons.prems(4) len
    by (simp add: wire_def add.assoc)
  have pos: "length pre < options_end iter" using len Cons.prems(4) by (simp add: wire_def)
  show ?case
  proof (cases "ws = []")
    case True
    then show ?thesis
      using options_loop_next [OF Cons.prems(3) pos] th Cons.prems(4) len
      by (simp add: wire_def option_len_Suc)
  next
    case False
    have "0 < length (wire ws)"
      using False Cons.prems(1) valid_option_len by (cases ws) (auto simp: wire_def)
    moreover have "options_loop ((pre @ take (option_len w) w) @ wire ws @ post)
        (Some (length (pre @ take (option_len w) w)))
        (iter\<lparr>current_option := Some (length (pre @ take (option_len w) w))\<rparr>) =
      Done (positions (length (pre @ take (option_len w) w)) ws, None)"
      by (rule Cons.IH) (use Cons.prems False len in \<open>simp_all add: wire_def\<close>)
    moreover have "wire (w # ws) = take (option_len w) w @ wire ws" by (simp add: wire_def)
    ultimately show ?thesis
      using options_loop_next [OF Cons.prems(3) pos] th Cons.prems(4) len
      by (simp add: option_len_Suc)
  qed
qed simp

lemma append_all_wire:
  assumes "\<forall>w \<in> set ws. valid_option w" "length (opts_data options) = 40"
    "unat (opts_length options) + length (wire ws) \<le> 40"
  shows "\<exists>options'. append_all options ws = Done (STATUS_OK, options') \<and>
    unat (opts_length options') = unat (opts_length options) + length (wire ws) \<and>
    length (opts_data options') = 40 \<and>
    take (unat (opts_length options')) (opts_data options') =
      take (unat (opts_length options)) (opts_data options) @ wire ws"
  using assms
proof (induction ws arbitrary: options)
  case (Cons w ws)
  note len = valid_option_len [of w]
  let ?n = "unat (opts_length options)"
  have v: "valid_option w" using Cons.prems by simp
  have sum: "?n + option_len w + length (wire ws) \<le> 40"
    using Cons.prems(3) len [OF v] by (simp add: wire_def)
  define options1 where "options1 = options\<lparr>opts_data := poke (opts_data options) ?n (take (option_len w) w),
      opts_length := opts_length options + w ! 1\<rparr>"
  have n1: "unat (opts_length options1) = ?n + option_len w"
    using sum by (simp add: options1_def option_len_def unat_word_ariths)
  have step: "tcp_options_append options w = Done (STATUS_OK, options1)"
    using sum n1 len [OF v] Cons.prems(2)
    by (simp add: tcp_options_append_def store_def options1_def option_len_Suc
        MAX_TCP_OPTION_BYTES_def Let_def)
  have "take (?n + option_len w) (opts_data options1) = take ?n (opts_data options) @ take (option_len w) w"
    using sum len [OF v] Cons.prems(2) by (simp add: options1_def poke_def)
  moreover have "length (opts_data options1) = 40"
    using sum len [OF v] Cons.prems(2) by (simp add: options1_def)
  moreover have "wire (w # ws) = take (option_len w) w @ wire ws" by (simp add: wire_def)
  ultimately show ?case
    using Cons.IH [of options1] Cons.prems(1) sum n1 step len [OF v] by auto
qed (simp add: wire_def)



end
