(* ===== verification/Packet.thy ===== *)
theory Packet
  imports TcpOptions Checksum
begin

section \<open>Packets\<close>

text \<open>
  The model of \<^verbatim>\<open>packet.h\<close>, \<^verbatim>\<open>header.h\<close> and of the parts of \<^verbatim>\<open>packet.c\<close> that do not depend on
  the protocols: the packet structure, its header array, the accessors and the copying of packets.
  A packet owns its buffer, a list of bytes whose length is \<^verbatim>\<open>buffer_bytes\<close>; every pointer of the
  structure is an offset into it, and \<open>None\<close> is the null pointer. Byte counts are bounded by the
  length of a buffer, so they are natural numbers. A block that \<^verbatim>\<open>malloc\<close> returns is an argument:
  its contents are arbitrary.
\<close>

unbundle bit_operations_syntax

subsection \<open>Headers\<close>

datatype header_t = HEADER_NONE | HEADER_IPV4 | HEADER_IPV6 | HEADER_GRE | HEADER_MPLS
  | HEADER_TCP | HEADER_UDP | HEADER_ICMPV4 | HEADER_ICMPV6

record header =
  h_type :: header_t
  header_bytes :: nat
  total_bytes :: nat
  h_ptr :: "nat option"

definition no_header :: header where
  "no_header = \<lparr>h_type = HEADER_NONE, header_bytes = 0, total_bytes = 0, h_ptr = None\<rparr>"

datatype address_family = AF_UNSPEC | AF_INET | AF_INET6

definition IPPROTO_ICMP :: nat where "IPPROTO_ICMP = 1"
definition IPPROTO_IPIP :: nat where "IPPROTO_IPIP = 4"
definition IPPROTO_TCP :: nat where "IPPROTO_TCP = 6"
definition IPPROTO_UDP :: nat where "IPPROTO_UDP = 17"
definition IPPROTO_IPV6 :: nat where "IPPROTO_IPV6 = 41"
definition IPPROTO_GRE :: nat where "IPPROTO_GRE = 47"
definition IPPROTO_ICMPV6 :: nat where "IPPROTO_ICMPV6 = 58"
definition IPPROTO_RAW :: nat where "IPPROTO_RAW = 255"

lemmas ipproto_defs = IPPROTO_ICMP_def IPPROTO_IPIP_def IPPROTO_TCP_def IPPROTO_UDP_def
  IPPROTO_IPV6_def IPPROTO_GRE_def IPPROTO_ICMPV6_def IPPROTO_RAW_def

definition ETHERTYPE_IP :: nat where "ETHERTYPE_IP = 0x0800"
definition ETHERTYPE_IPV6 :: nat where "ETHERTYPE_IPV6 = 0x86dd"
definition ETHERTYPE_MPLS_UC :: nat where "ETHERTYPE_MPLS_UC = 0x8847"
definition ETHERTYPE_MPLS_MC :: nat where "ETHERTYPE_MPLS_MC = 0x8848"

lemmas ethertype_defs = ETHERTYPE_IP_def ETHERTYPE_IPV6_def ETHERTYPE_MPLS_UC_def ETHERTYPE_MPLS_MC_def

text \<open>The table \<^verbatim>\<open>header_types\<close>: name, IP protocol, Ethernet protocol; the finish functions are
  dispatched on the type where the program calls them. \<^verbatim>\<open>header_type_info\<close> asserts that the type is
  not \<^verbatim>\<open>HEADER_NONE\<close>.\<close>

fun header_type_info :: "header_t \<Rightarrow> (string \<times> nat \<times> nat) run" where
  "header_type_info HEADER_NONE = Die"
| "header_type_info HEADER_IPV4 = Done (''IPV4'', IPPROTO_IPIP, ETHERTYPE_IP)"
| "header_type_info HEADER_IPV6 = Done (''IPV6'', IPPROTO_IPV6, ETHERTYPE_IPV6)"
| "header_type_info HEADER_GRE = Done (''GRE'', IPPROTO_GRE, 0)"
| "header_type_info HEADER_MPLS = Done (''MPLS'', 0, ETHERTYPE_MPLS_UC)"
| "header_type_info HEADER_TCP = Done (''TCP'', IPPROTO_TCP, 0)"
| "header_type_info HEADER_UDP = Done (''UDP'', IPPROTO_UDP, 0)"
| "header_type_info HEADER_ICMPV4 = Done (''ICMPV4'', IPPROTO_ICMP, 0)"
| "header_type_info HEADER_ICMPV6 = Done (''ICMPV6'', IPPROTO_ICMPV6, 0)"

subsection \<open>The packet\<close>

datatype direction = DIRECTION_INVALID | DIRECTION_INBOUND | DIRECTION_OUTBOUND
datatype tos_chk = TOS_CHECK_NONE | TOS_CHECK_ECN | TOS_CHECK_TOS

definition PACKET_MAX_HEADERS :: nat where "PACKET_MAX_HEADERS = 6"
definition MAX_TCP_HEADER_BYTES :: nat where "MAX_TCP_HEADER_BYTES = 15 * 4"
definition MAX_TCP_DATAGRAM_BYTES :: nat where "MAX_TCP_DATAGRAM_BYTES = 64 * 1024"
definition MAX_UDP_DATAGRAM_BYTES :: nat where "MAX_UDP_DATAGRAM_BYTES = 64 * 1024"
definition FLAG_WIN_NOCHECK :: u32 where "FLAG_WIN_NOCHECK = 1"
definition FLAG_OPTIONS_NOCHECK :: u32 where "FLAG_OPTIONS_NOCHECK = 2"

record packet =
  p_buffer :: bytes
  p_l2_header_bytes :: nat
  p_ip_bytes :: nat
  p_direction :: direction
  p_headers :: "header list"
  p_ipv4 :: "nat option"
  p_ipv6 :: "nat option"
  p_tcp :: "nat option"
  p_udp :: "nat option"
  p_icmpv4 :: "nat option"
  p_icmpv6 :: "nat option"
  p_echoed_header :: bool
  p_time_usecs :: int
  p_flags :: u32
  p_tos_chk :: tos_chk
  p_tcp_ts_val :: "nat option"
  p_tcp_ts_ecr :: "nat option"
  p_mss :: int

definition packet_new :: "bytes \<Rightarrow> packet" where
  "packet_new block = \<lparr>p_buffer = block, p_l2_header_bytes = 0, p_ip_bytes = 0,
     p_direction = DIRECTION_INVALID, p_headers = replicate PACKET_MAX_HEADERS no_header,
     p_ipv4 = None, p_ipv6 = None, p_tcp = None, p_udp = None, p_icmpv4 = None, p_icmpv6 = None,
     p_echoed_header = False, p_time_usecs = 0, p_flags = 0, p_tos_chk = TOS_CHECK_NONE,
     p_tcp_ts_val = None, p_tcp_ts_ecr = None, p_mss = 0\<rparr>"

definition packet_header_count :: "packet \<Rightarrow> nat" where
  "packet_header_count packet = length (takeWhile (\<lambda>h. h_type h \<noteq> HEADER_NONE) (p_headers packet))"

text \<open>The index of the new header, or \<open>None\<close> for the null pointer. The array has
  \<^verbatim>\<open>PACKET_MAX_HEADERS\<close> entries, so the count never exceeds its length.\<close>

definition packet_append_header :: "packet \<Rightarrow> header_t \<Rightarrow> nat \<Rightarrow> (nat \<times> packet) option" where
  "packet_append_header packet t bytes =
     (let num_headers = packet_header_count packet
      in if num_headers = length (p_headers packet) then None
         else if length (p_buffer packet) < p_ip_bytes packet + bytes then None
         else (let packet_bytes = p_l2_header_bytes packet + p_ip_bytes packet;
                   header = \<lparr>h_type = t, header_bytes = bytes, total_bytes = 0, h_ptr = Some packet_bytes\<rparr>
               in Some (num_headers, packet\<lparr>p_ip_bytes := p_ip_bytes packet + bytes,
                    p_headers := (p_headers packet)[num_headers := header]\<rparr>)))"

definition set_total_bytes :: "nat \<Rightarrow> nat \<Rightarrow> packet \<Rightarrow> packet" where
  "set_total_bytes i n packet =
     packet\<lparr>p_headers := (p_headers packet)[i := (p_headers packet ! i)\<lparr>total_bytes := n\<rparr>]\<rparr>"

subsection \<open>Accessors\<close>

definition packet_address_family :: "packet \<Rightarrow> address_family" where
  "packet_address_family packet =
     (if p_ipv4 packet \<noteq> None then AF_INET
      else if p_ipv6 packet \<noteq> None then AF_INET6
      else AF_UNSPEC)"

definition packet_start :: "packet \<Rightarrow> nat run" where
  "packet_start packet = (case h_ptr (p_headers packet ! 0) of None \<Rightarrow> Die | Some start \<Rightarrow> Done start)"

definition ip_start :: "packet \<Rightarrow> nat run" where
  "ip_start packet = (case p_ipv4 packet of Some p \<Rightarrow> Done p
     | None \<Rightarrow> (case p_ipv6 packet of Some p \<Rightarrow> Done p | None \<Rightarrow> Die))"

fun ip_header_min_len :: "address_family \<Rightarrow> nat run" where
  "ip_header_min_len AF_INET = Done 20"
| "ip_header_min_len AF_INET6 = Done 40"
| "ip_header_min_len AF_UNSPEC = Die"

definition packet_ip_protocol :: "packet \<Rightarrow> u8 run" where
  "packet_ip_protocol packet = (case p_ipv4 packet of Some p \<Rightarrow> ld8 (p_buffer packet) (p + 9)
     | None \<Rightarrow> (case p_ipv6 packet of Some p \<Rightarrow> ld8 (p_buffer packet) (p + 6) | None \<Rightarrow> Die))"

definition layer4_header_len :: "nat \<Rightarrow> nat run" where
  "layer4_header_len protocol =
     (if protocol = IPPROTO_TCP then Done 20 else if protocol = IPPROTO_UDP then Done 8 else Die)"

text \<open>The field \<^verbatim>\<open>doff\<close> is the upper half of byte 12 of the TCP header.\<close>

definition packet_tcp_header_len :: "packet \<Rightarrow> nat run" where
  "packet_tcp_header_len packet = (case p_tcp packet of None \<Rightarrow> Die
     | Some tcp \<Rightarrow> rbind (ld8 (p_buffer packet) (tcp + 12)) (\<lambda>b. Done (unat b div 16 * 4)))"

definition packet_udp_header_len :: "packet \<Rightarrow> nat run" where
  "packet_udp_header_len packet = (if p_udp packet = None then Die else Done 8)"

definition packet_icmpv4_header_len :: "packet \<Rightarrow> nat run" where
  "packet_icmpv4_header_len packet = (if p_icmpv4 packet = None then Die else Done 8)"

definition packet_icmpv6_header_len :: "packet \<Rightarrow> nat run" where
  "packet_icmpv6_header_len packet = (if p_icmpv6 packet = None then Die else Done 8)"

definition packet_tcp_options_len :: "packet \<Rightarrow> int run" where
  "packet_tcp_options_len packet = rbind (packet_tcp_header_len packet) (\<lambda>n. Done (int n - 20))"

definition packet_tcp_options :: "packet \<Rightarrow> nat run" where
  "packet_tcp_options packet = (case p_tcp packet of None \<Rightarrow> Die | Some tcp \<Rightarrow> Done (tcp + 20))"

text \<open>The timestamp fields, read and written where the options parser found them; a null pointer
  faults.\<close>

definition packet_tcp_ts_val :: "packet \<Rightarrow> u32 run" where
  "packet_tcp_ts_val packet = (case p_tcp_ts_val packet of None \<Rightarrow> Oob | Some p \<Rightarrow> ld_be32 (p_buffer packet) p)"

definition packet_tcp_ts_ecr :: "packet \<Rightarrow> u32 run" where
  "packet_tcp_ts_ecr packet = (case p_tcp_ts_ecr packet of None \<Rightarrow> Oob | Some p \<Rightarrow> ld_be32 (p_buffer packet) p)"

definition packet_set_tcp_ts_val :: "packet \<Rightarrow> u32 \<Rightarrow> packet run" where
  "packet_set_tcp_ts_val packet ts_val = (case p_tcp_ts_val packet of None \<Rightarrow> Oob
     | Some p \<Rightarrow> rbind (store (p_buffer packet) p (be32_bytes_of ts_val)) (\<lambda>b. Done (packet\<lparr>p_buffer := b\<rparr>)))"

definition packet_set_tcp_ts_ecr :: "packet \<Rightarrow> u32 \<Rightarrow> packet run" where
  "packet_set_tcp_ts_ecr packet ts_ecr = (case p_tcp_ts_ecr packet of None \<Rightarrow> Oob
     | Some p \<Rightarrow> rbind (store (p_buffer packet) p (be32_bytes_of ts_ecr)) (\<lambda>b. Done (packet\<lparr>p_buffer := b\<rparr>)))"

definition packet_payload :: "packet \<Rightarrow> nat run" where
  "packet_payload packet =
     (case p_tcp packet of Some p \<Rightarrow> rbind (packet_tcp_header_len packet) (\<lambda>n. Done (p + n))
      | None \<Rightarrow> (case p_udp packet of Some p \<Rightarrow> rbind (packet_udp_header_len packet) (\<lambda>n. Done (p + n))
      | None \<Rightarrow> (case p_icmpv4 packet of Some p \<Rightarrow> rbind (packet_icmpv4_header_len packet) (\<lambda>n. Done (p + n))
      | None \<Rightarrow> (case p_icmpv6 packet of Some p \<Rightarrow> rbind (packet_icmpv6_header_len packet) (\<lambda>n. Done (p + n))
      | None \<Rightarrow> Die))))"

definition packet_end :: "packet \<Rightarrow> nat run" where
  "packet_end packet = rbind (packet_start packet) (\<lambda>p. Done (p + p_ip_bytes packet))"

definition packet_payload_len :: "packet \<Rightarrow> int run" where
  "packet_payload_len packet = rbind (packet_end packet) (\<lambda>e. rbind (packet_payload packet) (\<lambda>p.
     Done (int e - int p)))"

definition packet_echoed_ip_header :: "packet \<Rightarrow> nat run" where
  "packet_echoed_ip_header packet = (case p_icmpv4 packet of Some p \<Rightarrow> Done (p + 8)
     | None \<Rightarrow> (case p_icmpv6 packet of Some p \<Rightarrow> Done (p + 8) | None \<Rightarrow> Die))"

definition packet_echoed_ip_header_len :: "packet \<Rightarrow> nat run" where
  "packet_echoed_ip_header_len packet = (if p_icmpv4 packet \<noteq> None then Done 20
     else if p_icmpv6 packet \<noteq> None then Done 40 else Die)"

definition packet_echoed_ip_protocol :: "packet \<Rightarrow> u8 run" where
  "packet_echoed_ip_protocol packet = (case p_icmpv4 packet of
       Some p \<Rightarrow> ld8 (p_buffer packet) (p + 8 + 9)
     | None \<Rightarrow> (case p_icmpv6 packet of Some p \<Rightarrow> ld8 (p_buffer packet) (p + 8 + 6) | None \<Rightarrow> Die))"

definition packet_echoed_layer4_header :: "packet \<Rightarrow> nat run" where
  "packet_echoed_layer4_header packet = rbind (packet_echoed_ip_header packet) (\<lambda>echoed_ip.
     rbind (packet_echoed_ip_header_len packet) (\<lambda>ip_header_len. Done (echoed_ip + ip_header_len)))"

definition packet_echoed_tcp_header :: "packet \<Rightarrow> nat option run" where
  "packet_echoed_tcp_header packet = rbind (packet_echoed_ip_protocol packet) (\<lambda>proto.
     if unat proto = IPPROTO_TCP then rbind (packet_echoed_layer4_header packet) (\<lambda>p. Done (Some p))
     else Done None)"

definition packet_echoed_udp_header :: "packet \<Rightarrow> nat option run" where
  "packet_echoed_udp_header packet = rbind (packet_echoed_ip_protocol packet) (\<lambda>proto.
     if unat proto = IPPROTO_UDP then rbind (packet_echoed_layer4_header packet) (\<lambda>p. Done (Some p))
     else Done None)"

definition ICMP_ECHO_BYTES :: nat where "ICMP_ECHO_BYTES = 8"

definition packet_echoed_tcp_seq :: "packet \<Rightarrow> nat run" where
  "packet_echoed_tcp_seq packet = rbind (packet_echoed_tcp_header packet) (\<lambda>tcp.
     case tcp of None \<Rightarrow> Die
     | Some p \<Rightarrow> (let seq = p + 4 in check (seq + 4 \<le> p + ICMP_ECHO_BYTES) (Done seq)))"

subsection \<open>Lemmas on the header array\<close>

definition packet_wf :: "packet \<Rightarrow> bool" where
  "packet_wf packet \<longleftrightarrow> length (p_headers packet) = PACKET_MAX_HEADERS"

text \<open>The headers in use.\<close>

definition used_headers :: "packet \<Rightarrow> header list" where
  "used_headers packet = takeWhile (\<lambda>h. h_type h \<noteq> HEADER_NONE) (p_headers packet)"

lemma packet_new_wf [simp]:
  "packet_wf (packet_new b)" "used_headers (packet_new b) = []" "packet_header_count (packet_new b) = 0"
  "p_ip_bytes (packet_new b) = 0" "p_buffer (packet_new b) = b" "p_l2_header_bytes (packet_new b) = 0"
  by (simp_all add: packet_wf_def packet_new_def used_headers_def packet_header_count_def
      PACKET_MAX_HEADERS_def no_header_def)

lemma packet_new_eval: "packet_new block = \<lparr>p_buffer = block, p_l2_header_bytes = 0, p_ip_bytes = 0,
     p_direction = DIRECTION_INVALID, p_headers = [no_header, no_header, no_header, no_header, no_header, no_header],
     p_ipv4 = None, p_ipv6 = None, p_tcp = None, p_udp = None, p_icmpv4 = None, p_icmpv6 = None,
     p_echoed_header = False, p_time_usecs = 0, p_flags = 0, p_tos_chk = TOS_CHECK_NONE,
     p_tcp_ts_val = None, p_tcp_ts_ecr = None, p_mss = 0\<rparr>"
  by (simp add: packet_new_def PACKET_MAX_HEADERS_def eval_nat_numeral)

lemma header_count_used: "packet_header_count packet = length (used_headers packet)"
  by (simp add: packet_header_count_def used_headers_def)

lemma header_count_le: "packet_wf packet \<Longrightarrow> packet_header_count packet \<le> PACKET_MAX_HEADERS"
  unfolding packet_header_count_def packet_wf_def by (metis length_takeWhile_le)

text \<open>Headers are unused from the count on: then appending adds exactly one.\<close>

definition packet_clean :: "packet \<Rightarrow> bool" where
  "packet_clean packet \<longleftrightarrow> packet_wf packet \<and>
     (\<forall>h \<in> set (drop (packet_header_count packet) (p_headers packet)). h_type h = HEADER_NONE)"

lemma used_clean:
  assumes "packet_wf packet" "p_headers packet = us @ ns"
    "\<forall>h \<in> set us. h_type h \<noteq> HEADER_NONE" "\<forall>h \<in> set ns. h_type h = HEADER_NONE"
  shows "used_headers packet = us" "packet_clean packet"
proof -
  show u: "used_headers packet = us"
    using assms(2-4) by (cases ns) (simp_all add: used_headers_def takeWhile_append2)
  then show "packet_clean packet"
    using assms by (simp add: packet_clean_def header_count_used)
qed

lemma clean_split:
  assumes "packet_clean packet"
  obtains ns where "p_headers packet = used_headers packet @ ns"
    "\<forall>h \<in> set (used_headers packet). h_type h \<noteq> HEADER_NONE" "\<forall>h \<in> set ns. h_type h = HEADER_NONE"
proof
  show "p_headers packet = used_headers packet @ drop (packet_header_count packet) (p_headers packet)"
    by (simp add: used_headers_def packet_header_count_def dropWhile_eq_drop [symmetric])
  show "\<forall>h \<in> set (used_headers packet). h_type h \<noteq> HEADER_NONE"
    by (auto simp: used_headers_def dest: set_takeWhileD)
  show "\<forall>h \<in> set (drop (packet_header_count packet) (p_headers packet)). h_type h = HEADER_NONE"
    using assms by (simp add: packet_clean_def)
qed

lemma packet_new_clean [simp]: "packet_clean (packet_new b)"
  by (simp add: packet_clean_def) (simp add: packet_new_def no_header_def)

text \<open>Appending always uses up an entry of the array.\<close>

lemma append_header_count:
  assumes "packet_append_header packet t bytes = Some (i, packet1)" "t \<noteq> HEADER_NONE"
  shows "length (p_headers packet1) = length (p_headers packet)"
    "packet_header_count packet < packet_header_count packet1"
    "packet_header_count packet1 \<le> length (p_headers packet1)"
proof -
  have i: "i = packet_header_count packet" "i \<noteq> length (p_headers packet)"
    and h: "p_headers packet1 = (p_headers packet)[i := \<lparr>h_type = t, header_bytes = bytes, total_bytes = 0,
      h_ptr = Some (p_l2_header_bytes packet + p_ip_bytes packet)\<rparr>]"
    using assms(1) by (auto simp: packet_append_header_def Let_def split: if_splits)
  then show "length (p_headers packet1) = length (p_headers packet)" by auto
  have tw: "length (takeWhile P xs) < length (takeWhile P (xs[length (takeWhile P xs) := x]))"
    if "length (takeWhile P xs) \<noteq> length xs" "P x" for P x and xs :: "header list"
    using that by (induction xs) auto
  show "packet_header_count packet < packet_header_count packet1"
    using h i assms(2) tw [of "\<lambda>h. h_type h \<noteq> HEADER_NONE" "p_headers packet"]
    by (auto simp: packet_header_count_def)
  show "packet_header_count packet1 \<le> length (p_headers packet1)"
    by (simp add: packet_header_count_def length_takeWhile_le)
qed

lemma set_total_bytes_count [simp]:
  "length (p_headers (set_total_bytes i n packet)) = length (p_headers packet)"
  "packet_header_count (set_total_bytes i n packet) = packet_header_count packet"
proof -
  show l: "length (p_headers (set_total_bytes i n packet)) = length (p_headers packet)"
    by (simp add: set_total_bytes_def)
  have "map h_type (p_headers (set_total_bytes i n packet)) = map h_type (p_headers packet)"
    by (cases "i < length (p_headers packet)")
      (simp_all add: set_total_bytes_def map_update list_update_same_conv list_update_beyond)
  moreover have "packet_header_count x = length (takeWhile (\<lambda>t. t \<noteq> HEADER_NONE) (map h_type (p_headers x)))" for x
    by (simp add: packet_header_count_def takeWhile_map comp_def)
  ultimately show "packet_header_count (set_total_bytes i n packet) = packet_header_count packet"
    by simp
qed

text \<open>Appending a header with its total: the form every caller uses.\<close>

lemma append_header_clean:
  assumes clean: "packet_clean packet" and t: "t \<noteq> HEADER_NONE"
    and app: "packet_append_header packet t bytes = Some (i, packet1)"
    and p': "packet' = set_total_bytes i n packet1"
  shows "packet_clean packet'"
    "used_headers packet' = used_headers packet @ [\<lparr>h_type = t, header_bytes = bytes, total_bytes = n,
       h_ptr = Some (p_l2_header_bytes packet + p_ip_bytes packet)\<rparr>]"
    "packet' = packet\<lparr>p_ip_bytes := p_ip_bytes packet + bytes, p_headers := p_headers packet'\<rparr>"
    "packet_header_count packet < PACKET_MAX_HEADERS" "i = packet_header_count packet"
proof -
  let ?h = "\<lparr>h_type = t, header_bytes = bytes, total_bytes = n,
       h_ptr = Some (p_l2_header_bytes packet + p_ip_bytes packet)\<rparr>"
  obtain ns where ns: "p_headers packet = used_headers packet @ ns"
    "\<forall>h \<in> set (used_headers packet). h_type h \<noteq> HEADER_NONE" "\<forall>h \<in> set ns. h_type h = HEADER_NONE"
    using clean by (rule clean_split)
  have wf: "packet_wf packet" using clean by (simp add: packet_clean_def)
  have "packet_header_count packet \<noteq> PACKET_MAX_HEADERS"
    using app wf by (auto simp: packet_append_header_def packet_wf_def Let_def split: if_splits)
  then show lt: "packet_header_count packet < PACKET_MAX_HEADERS"
    using header_count_le [OF wf] by simp
  then obtain x ns' where x: "ns = x # ns'"
    using ns(1) wf by (cases ns) (simp_all add: packet_wf_def header_count_used)
  show i: "i = packet_header_count packet"
    using app by (auto simp: packet_append_header_def Let_def split: if_splits)
  have hd: "p_headers packet' = (used_headers packet @ [?h]) @ ns'"
    using app ns(1) x
    by (auto simp: p' packet_append_header_def Let_def header_count_used set_total_bytes_def split: if_splits)
  show rest: "packet' = packet\<lparr>p_ip_bytes := p_ip_bytes packet + bytes, p_headers := p_headers packet'\<rparr>"
    using app by (auto simp: p' packet_append_header_def Let_def set_total_bytes_def split: if_splits)
  have wf': "packet_wf packet'"
    using wf ns(1) x hd by (simp add: packet_wf_def)
  show "used_headers packet' = used_headers packet @ [?h]" "packet_clean packet'"
    using used_clean [OF wf' hd] ns t x by auto
qed

end
