(* ===== verification/PacketParser.thy ===== *)
theory PacketParser
  imports Packet
begin

section \<open>The packet parser\<close>

text \<open>
  The model of \<^verbatim>\<open>packet_parser.c\<close>: parsing of a packet that was read into a buffer, from the Ethernet
  or IP header down through any nesting of IPv4, IPv6, GRE and MPLS to TCP, UDP or ICMP. The parsers
  of the layers call each other; each level appends a header to the packet, which is why the nesting
  ends. What each parser does before it calls the next one is a definition of its own.
\<close>

unbundle bit_operations_syntax

datatype packet_layer_t = PACKET_LAYER_3_IP | PACKET_LAYER_2_ETHERNET
datatype packet_parse_result_t = PACKET_OK | PACKET_BAD | PACKET_UNKNOWN_L4

text \<open>The packet as the parser leaves it, the result, and the error message if one was set.\<close>

type_synonym parse_out = "(packet \<times> packet_parse_result_t \<times> string option) run"

definition bad :: "packet \<Rightarrow> string \<Rightarrow> parse_out" where
  "bad packet e = Done (packet, PACKET_BAD, Some e)"

definition IP_MF :: u16 where "IP_MF = 0x2000"
definition IP_OFFMASK :: u16 where "IP_OFFMASK = 0x1FFF"
definition GRE_MINLEN :: nat where "GRE_MINLEN = 4"
definition MPLS_STACK_MASK :: u32 where "MPLS_STACK_MASK = 0x100"

text \<open>A run of bytes of an object.\<close>

definition ld_bytes :: "bytes \<Rightarrow> nat \<Rightarrow> nat \<Rightarrow> bytes run" where
  "ld_bytes bs p n = (if p + n \<le> length bs then Done (take n (drop p bs)) else Oob)"

subsection \<open>Transport headers\<close>

definition parse_tcp :: "packet \<Rightarrow> nat \<Rightarrow> nat \<Rightarrow> nat \<Rightarrow> parse_out" where
  "parse_tcp packet layer4_start layer4_bytes pend =
     (if layer4_bytes < 20 then bad packet ''Truncated TCP header''
      else (let packet = packet\<lparr>p_tcp := Some layer4_start\<rparr>
            in rbind (packet_tcp_header_len packet) (\<lambda>tcp_header_len.
                 if tcp_header_len < 20 then bad packet ''TCP data offset too small''
                 else if layer4_bytes < tcp_header_len then bad packet ''TCP data offset too big''
                 else (case packet_append_header packet HEADER_TCP tcp_header_len of
                         None \<Rightarrow> bad packet ''Too many nested headers at TCP header''
                       | Some (i, packet) \<Rightarrow>
                           check (layer4_start + layer4_bytes \<le> pend)
                             (Done (set_total_bytes i layer4_bytes packet, PACKET_OK, None))))))"

definition parse_udp :: "packet \<Rightarrow> nat \<Rightarrow> nat \<Rightarrow> nat \<Rightarrow> parse_out" where
  "parse_udp packet layer4_start layer4_bytes pend =
     (if layer4_bytes < 8 then bad packet ''Truncated UDP header''
      else (let packet = packet\<lparr>p_udp := Some layer4_start\<rparr>
            in rbind (ld_be16 (p_buffer packet) (layer4_start + 4)) (\<lambda>len.
                 let udp_len = unat len; udp_header_len = 8
                 in if udp_len < udp_header_len
                    then bad packet ''UDP datagram length too small for UDP header''
                    else if udp_len < layer4_bytes then bad packet ''UDP datagram length too small''
                    else if layer4_bytes < udp_len then bad packet ''UDP datagram length too big''
                    else (case packet_append_header packet HEADER_UDP udp_header_len of
                            None \<Rightarrow> bad packet ''Too many nested headers at UDP header''
                          | Some (i, packet) \<Rightarrow>
                              check (layer4_start + layer4_bytes \<le> pend)
                                (Done (set_total_bytes i layer4_bytes packet, PACKET_OK, None))))))"

definition parse_icmpv4 :: "packet \<Rightarrow> nat \<Rightarrow> nat \<Rightarrow> nat \<Rightarrow> parse_out" where
  "parse_icmpv4 packet layer4_start layer4_bytes pend =
     (if layer4_bytes < 8 then bad packet ''Truncated ICMPv4 header''
      else (let packet = packet\<lparr>p_icmpv4 := Some layer4_start\<rparr>
            in case packet_append_header packet HEADER_ICMPV4 8 of
                 None \<Rightarrow> bad packet ''Too many nested headers at ICMP header''
               | Some (i, packet) \<Rightarrow>
                   check (layer4_start + layer4_bytes \<le> pend)
                     (Done (set_total_bytes i layer4_bytes packet, PACKET_OK, None))))"

definition parse_icmpv6 :: "packet \<Rightarrow> nat \<Rightarrow> nat \<Rightarrow> nat \<Rightarrow> parse_out" where
  "parse_icmpv6 packet layer4_start layer4_bytes pend =
     (if layer4_bytes < 8 then bad packet ''Truncated ICMPv6 header''
      else (let packet = packet\<lparr>p_icmpv6 := Some layer4_start\<rparr>
            in case packet_append_header packet HEADER_ICMPV6 8 of
                 None \<Rightarrow> bad packet ''Too many nested headers at ICMP header''
               | Some (i, packet) \<Rightarrow>
                   check (layer4_start + layer4_bytes \<le> pend)
                     (Done (set_total_bytes i layer4_bytes packet, PACKET_OK, None))))"

subsection \<open>What the other parsers do before they go on\<close>

text \<open>\<^verbatim>\<open>parse_ipv4\<close> up to the call of \<^verbatim>\<open>parse_layer4\<close>: the packet with the IPv4 header appended,
  the total and the header length, and the protocol; or the error.\<close>

definition ipv4_open ::
  "packet \<Rightarrow> nat \<Rightarrow> nat \<Rightarrow> (string + (packet \<times> nat \<times> nat \<times> nat)) run" where
  "ipv4_open packet p pend =
     rbind (ld8 (p_buffer packet) p) (\<lambda>b.
     let ip_header_bytes = unat b mod 16 * 4
     in if ip_header_bytes < 20 then Done (Inl ''IP header too short'')
        else if pend < p + ip_header_bytes then Done (Inl ''Full IP header overflows packet'')
        else rbind (ld_be16 (p_buffer packet) (p + 2)) (\<lambda>tot_len.
     let ip_total_bytes = unat tot_len
     in if pend < p + ip_total_bytes then Done (Inl ''IP payload overflows packet'')
        else if ip_total_bytes < ip_header_bytes then Done (Inl ''IP header bigger than datagram'')
        else rbind (ld_be16 (p_buffer packet) (p + 6)) (\<lambda>frag_off.
        if frag_off AND IP_MF \<noteq> 0 then Done (Inl ''More fragments remaining'')
        else if frag_off AND IP_OFFMASK \<noteq> 0 then Done (Inl ''Non-zero fragment offset'')
        else rbind (ld_bytes (p_buffer packet) p ip_header_bytes) (\<lambda>hdr.
        if ipv4_checksum hdr \<noteq> 0 then Done (Inl ''Bad IP checksum'')
        else (case packet_append_header packet HEADER_IPV4 ip_header_bytes of
                None \<Rightarrow> Done (Inl ''Too many nested headers at IPv4 header'')
              | Some (i, packet1) \<Rightarrow>
                  check (p + ip_header_bytes \<le> pend)
                    (rbind (ld8 (p_buffer packet) (p + 9)) (\<lambda>protocol.
                      Done (Inr (set_total_bytes i ip_total_bytes packet1, ip_total_bytes,
                                 ip_header_bytes, unat protocol)))))))))"

definition ipv6_open ::
  "packet \<Rightarrow> nat \<Rightarrow> nat \<Rightarrow> (string + (packet \<times> nat \<times> nat \<times> nat)) run" where
  "ipv6_open packet p pend =
     (let ip_header_bytes = 40
      in if pend < p + ip_header_bytes then Done (Inl ''IPv6 header overflows packet'')
         else rbind (ld_be16 (p_buffer packet) (p + 4)) (\<lambda>payload_len.
         let ip_total_bytes = ip_header_bytes + unat payload_len
         in if pend < p + ip_total_bytes then Done (Inl ''IPv6 payload overflows packet'')
            else (case packet_append_header packet HEADER_IPV6 ip_header_bytes of
                    None \<Rightarrow> Done (Inl ''Too many nested headers at IPv6 header'')
                  | Some (i, packet1) \<Rightarrow>
                      check (p + ip_header_bytes \<le> pend)
                        (rbind (ld8 (p_buffer packet) (p + 6)) (\<lambda>next_header.
                          Done (Inr (set_total_bytes i ip_total_bytes packet1, ip_total_bytes,
                                     ip_header_bytes, unat next_header)))))))"

text \<open>The end of both: the innermost IP header is the primary one, the outermost gives the length.\<close>

definition ipv4_close :: "bool \<Rightarrow> nat \<Rightarrow> nat \<Rightarrow> packet \<Rightarrow> packet" where
  "ipv4_close is_outer p ip_total_bytes packet =
     (let packet = (if p_ipv4 packet = None \<and> p_ipv6 packet = None then packet\<lparr>p_ipv4 := Some p\<rparr> else packet)
      in if is_outer then packet\<lparr>p_ip_bytes := ip_total_bytes\<rparr> else packet)"

definition ipv6_close :: "bool \<Rightarrow> nat \<Rightarrow> nat \<Rightarrow> packet \<Rightarrow> packet" where
  "ipv6_close is_outer p ip_total_bytes packet =
     (let packet = (if p_ipv4 packet = None \<and> p_ipv6 packet = None then packet\<lparr>p_ipv6 := Some p\<rparr> else packet)
      in if is_outer then packet\<lparr>p_ip_bytes := ip_total_bytes\<rparr> else packet)"

text \<open>The flag byte of a GRE header: bit 7 checksum, bit 6 routing, bit 5 key, bit 4 sequence; the
  version is the low three bits of the next byte. \<^verbatim>\<open>gre_len\<close> with its assertions.\<close>

definition gre_len :: "u8 \<Rightarrow> u8 \<Rightarrow> nat run" where
  "gre_len flags ver =
     check (unat ver mod 8 = 0) (check (\<not> bit flags 6)
       (Done (GRE_MINLEN + (if bit flags 7 \<or> bit flags 6 then 4 else 0) + (if bit flags 5 then 4 else 0)
         + (if bit flags 4 then 4 else 0))))"

definition gre_open :: "packet \<Rightarrow> nat \<Rightarrow> nat \<Rightarrow> nat \<Rightarrow> (string + (packet \<times> nat \<times> nat)) run" where
  "gre_open packet p layer4_bytes pend =
     (if layer4_bytes < GRE_MINLEN then Done (Inl ''Truncated GRE header'')
      else rbind (ld8 (p_buffer packet) p) (\<lambda>flags. rbind (ld8 (p_buffer packet) (p + 1)) (\<lambda>ver.
      if unat ver mod 8 \<noteq> 0 then Done (Inl ''GRE header has unsupported version number'')
      else if bit flags 6 then Done (Inl ''GRE header has unsupported routing info'')
      else rbind (gre_len flags ver) (\<lambda>gre_header_len.
      if gre_header_len < GRE_MINLEN then Done (Inl ''GRE header length too small for GRE header'')
      else if layer4_bytes < gre_header_len then Done (Inl ''GRE header length too big'')
      else check (p + layer4_bytes \<le> pend)
        (case packet_append_header packet HEADER_GRE gre_header_len of
           None \<Rightarrow> Done (Inl ''Too many nested headers at GRE header'')
         | Some (i, packet1) \<Rightarrow>
             check (p + gre_header_len \<le> pend)
               (rbind (ld_be16 (p_buffer packet) (p + 2)) (\<lambda>proto.
                 Done (Inr (set_total_bytes i layer4_bytes packet1, gre_header_len, unat proto)))))))))"

text \<open>The loop over the MPLS label stack: the bytes of the stack.\<close>

function mpls_stack_bytes :: "bytes \<Rightarrow> nat \<Rightarrow> nat \<Rightarrow> nat \<Rightarrow> (string + nat) run" where
  "mpls_stack_bytes bs p pend mpls_header_bytes =
     (if pend < p + 4 then Done (Inl ''MPLS stack entry overflows packet'')
      else rbind (ld_be32 bs p) (\<lambda>entry.
        if \<not> entry AND MPLS_STACK_MASK \<noteq> 0 \<and> p + 4 < pend
        then mpls_stack_bytes bs (p + 4) pend (mpls_header_bytes + 4)
        else Done (Inr (mpls_header_bytes + 4))))"
  by pat_completeness auto
termination
  by (relation "measure (\<lambda>(bs, p, pend, _). pend - p)") auto

declare mpls_stack_bytes.simps [simp del]

definition mpls_open :: "packet \<Rightarrow> nat \<Rightarrow> nat \<Rightarrow> (string + (packet \<times> nat)) run" where
  "mpls_open packet p pend =
     rbind (mpls_stack_bytes (p_buffer packet) p pend 0) (\<lambda>r. case r of
       Inl e \<Rightarrow> Done (Inl e)
     | Inr mpls_header_bytes \<Rightarrow>
         check (mpls_header_bytes \<le> pend - p)
           (case packet_append_header packet HEADER_MPLS mpls_header_bytes of
              None \<Rightarrow> Done (Inl ''Too many nested headers at MPLS header'')
            | Some (i, packet1) \<Rightarrow>
                check (p + mpls_header_bytes \<le> pend)
                  (Done (Inr (set_total_bytes i (pend - p) packet1, mpls_header_bytes)))))"

lemma ipv4_open_Inr:
  assumes "ipv4_open packet p pend = Done (Inr (packet', tot, hlen, proto))"
  shows "\<exists>i packet1. packet_append_header packet HEADER_IPV4 hlen = Some (i, packet1) \<and>
    packet' = set_total_bytes i tot packet1"
  using assms
  by (auto simp: ipv4_open_def Let_def run_simps split: if_splits option.splits)

lemma ipv6_open_Inr:
  assumes "ipv6_open packet p pend = Done (Inr (packet', tot, hlen, proto))"
  shows "\<exists>i packet1. packet_append_header packet HEADER_IPV6 hlen = Some (i, packet1) \<and>
    packet' = set_total_bytes i tot packet1"
  using assms
  by (auto simp: ipv6_open_def Let_def run_simps split: if_splits option.splits)

lemma gre_open_Inr:
  assumes "gre_open packet p l4 pend = Done (Inr (packet', hlen, proto))"
  shows "\<exists>i packet1. packet_append_header packet HEADER_GRE hlen = Some (i, packet1) \<and>
    packet' = set_total_bytes i l4 packet1"
  using assms
  by (auto simp: gre_open_def Let_def run_simps split: if_splits option.splits)

lemma mpls_open_Inr:
  assumes "mpls_open packet p pend = Done (Inr (packet', hlen))"
  shows "\<exists>i packet1. packet_append_header packet HEADER_MPLS hlen = Some (i, packet1) \<and>
    packet' = set_total_bytes i (pend - p) packet1"
proof -
  obtain r where "mpls_stack_bytes (p_buffer packet) p pend 0 = Done r"
    using assms by (auto simp: mpls_open_def run_simps)
  with assms show ?thesis
    by (cases r) (auto simp: mpls_open_def run_simps split: option.splits)
qed

text \<open>Headers still free: the measure of the recursion.\<close>

definition free_headers :: "packet \<Rightarrow> nat" where
  "free_headers packet = length (p_headers packet) - packet_header_count packet"

lemma free_headers_append:
  assumes "packet_append_header packet t bytes = Some (i, packet1)" "t \<noteq> HEADER_NONE"
  shows "free_headers (set_total_bytes i n packet1) < free_headers packet"
  using append_header_count [OF assms] by (simp add: free_headers_def)

lemma open_free_headers:
  "ipv4_open packet p pend = Done (Inr (packet', tot, hlen, proto)) \<Longrightarrow> free_headers packet' < free_headers packet"
  "ipv6_open packet p pend = Done (Inr (packet', tot, hlen, proto)) \<Longrightarrow> free_headers packet' < free_headers packet"
  "gre_open packet p l4 pend = Done (Inr (packet', hlen, proto)) \<Longrightarrow> free_headers packet' < free_headers packet"
  "mpls_open packet p pend = Done (Inr (packet', hlen)) \<Longrightarrow> free_headers packet' < free_headers packet"
  by (blast dest: ipv4_open_Inr ipv6_open_Inr gre_open_Inr mpls_open_Inr free_headers_append)+

subsection \<open>The recursive parsers\<close>

function parse_ipv4 :: "packet \<Rightarrow> nat \<Rightarrow> nat \<Rightarrow> parse_out"
  and parse_ipv6 :: "packet \<Rightarrow> nat \<Rightarrow> nat \<Rightarrow> parse_out"
  and parse_gre :: "packet \<Rightarrow> nat \<Rightarrow> nat \<Rightarrow> nat \<Rightarrow> parse_out"
  and parse_mpls :: "packet \<Rightarrow> nat \<Rightarrow> nat \<Rightarrow> parse_out"
  and parse_layer3_packet_by_proto :: "packet \<Rightarrow> nat \<Rightarrow> nat \<Rightarrow> nat \<Rightarrow> parse_out"
  and parse_layer3_packet :: "packet \<Rightarrow> nat \<Rightarrow> nat \<Rightarrow> parse_out"
  and parse_layer4 :: "packet \<Rightarrow> nat \<Rightarrow> nat \<Rightarrow> nat \<Rightarrow> nat \<Rightarrow> parse_out"
where
  "parse_ipv4 packet p pend =
     (let is_outer = (p_ip_bytes packet = 0)
      in case ipv4_open packet p pend of
           Oob \<Rightarrow> Oob | Die \<Rightarrow> Die
         | Done (Inl e) \<Rightarrow> bad packet e
         | Done (Inr (packet1, tot, hlen, proto)) \<Rightarrow>
             rbind (parse_layer4 packet1 (p + hlen) proto (tot - hlen) pend)
               (\<lambda>(packet2, result, err). Done (ipv4_close is_outer p tot packet2, result, err)))"
| "parse_ipv6 packet p pend =
     (let is_outer = (p_ip_bytes packet = 0)
      in case ipv6_open packet p pend of
           Oob \<Rightarrow> Oob | Die \<Rightarrow> Die
         | Done (Inl e) \<Rightarrow> bad packet e
         | Done (Inr (packet1, tot, hlen, proto)) \<Rightarrow>
             rbind (parse_layer4 packet1 (p + hlen) proto (tot - hlen) pend)
               (\<lambda>(packet2, result, err). Done (ipv6_close is_outer p tot packet2, result, err)))"
| "parse_gre packet p layer4_bytes pend =
     (case gre_open packet p layer4_bytes pend of
        Oob \<Rightarrow> Oob | Die \<Rightarrow> Die
      | Done (Inl e) \<Rightarrow> bad packet e
      | Done (Inr (packet1, hlen, proto)) \<Rightarrow> parse_layer3_packet_by_proto packet1 proto (p + hlen) pend)"
| "parse_mpls packet p pend =
     (case mpls_open packet p pend of
        Oob \<Rightarrow> Oob | Die \<Rightarrow> Die
      | Done (Inl e) \<Rightarrow> bad packet e
      | Done (Inr (packet1, hlen)) \<Rightarrow> parse_layer3_packet packet1 (p + hlen) pend)"
| "parse_layer3_packet_by_proto packet proto p pend =
     (if proto = ETHERTYPE_IP then
        (if pend < p + 20 then bad packet ''IPv4 header overflows packet''
         else (case ld8 (p_buffer packet) p of Oob \<Rightarrow> Oob | Die \<Rightarrow> Die | Done b \<Rightarrow>
           (if unat b div 16 = 4 then parse_ipv4 packet p pend
            else bad packet (''Bad IP version ('' @ dec (unat b div 16) @ '') for ETHERTYPE_IP''))))
      else if proto = ETHERTYPE_IPV6 then
        (if pend < p + 40 then bad packet ''IPv6 header overflows packet''
         else (case ld8 (p_buffer packet) p of Oob \<Rightarrow> Oob | Die \<Rightarrow> Die | Done b \<Rightarrow>
           (if unat b div 16 = 6 then parse_ipv6 packet p pend
            else bad packet ''Bad IP version for ETHERTYPE_IPV6'')))
      else if proto = ETHERTYPE_MPLS_UC \<or> proto = ETHERTYPE_MPLS_MC then parse_mpls packet p pend
      else Done (packet, PACKET_UNKNOWN_L4, None))"
| "parse_layer3_packet packet p pend =
     (if pend < p + 20 then bad packet ''IP header overflows packet''
      else (case ld8 (p_buffer packet) p of Oob \<Rightarrow> Oob | Die \<Rightarrow> Die | Done b \<Rightarrow>
        (if unat b div 16 = 4 then parse_ipv4 packet p pend
         else if unat b div 16 = 6 then parse_ipv6 packet p pend
         else bad packet ''Unsupported IP version'')))"
| "parse_layer4 packet p protocol layer4_bytes pend =
     (if protocol = IPPROTO_TCP then parse_tcp packet p layer4_bytes pend
      else if protocol = IPPROTO_UDP then parse_udp packet p layer4_bytes pend
      else if protocol = IPPROTO_ICMP then parse_icmpv4 packet p layer4_bytes pend
      else if protocol = IPPROTO_ICMPV6 then parse_icmpv6 packet p layer4_bytes pend
      else if protocol = IPPROTO_GRE then parse_gre packet p layer4_bytes pend
      else if protocol = IPPROTO_IPIP then parse_ipv4 packet p pend
      else if protocol = IPPROTO_IPV6 then parse_ipv6 packet p pend
      else Done (packet, PACKET_UNKNOWN_L4, None))"
  by pat_completeness auto
termination
  by (relation "measure (\<lambda>x. case x of
        Inl (Inl (packet, _)) \<Rightarrow> 3 * free_headers packet
      | Inl (Inr (Inl (packet, _))) \<Rightarrow> 3 * free_headers packet
      | Inl (Inr (Inr (packet, _))) \<Rightarrow> 3 * free_headers packet
      | Inr (Inl (Inl (packet, _))) \<Rightarrow> 3 * free_headers packet
      | Inr (Inl (Inr (packet, _))) \<Rightarrow> 3 * free_headers packet + 1
      | Inr (Inr (Inl (packet, _))) \<Rightarrow> 3 * free_headers packet + 1
      | Inr (Inr (Inr (packet, _))) \<Rightarrow> 3 * free_headers packet + 2)")
    (auto dest: open_free_headers)

subsection \<open>The entry points\<close>

definition parse_layer2_packet :: "packet \<Rightarrow> nat \<Rightarrow> nat \<Rightarrow> parse_out" where
  "parse_layer2_packet packet p pend =
     (if pend < p + 14 then bad packet ''Ethernet header overflows packet''
      else (let packet = packet\<lparr>p_l2_header_bytes := 14\<rparr>
            in rbind (ld_be16 (p_buffer packet) (p + 12)) (\<lambda>ether_type.
                 parse_layer3_packet_by_proto packet (unat ether_type) (p + 14) pend)))"

text \<open>\<^verbatim>\<open>hex_dump\<close>: an offset of at least four digits before every sixteen bytes.\<close>

fun hex :: "nat \<Rightarrow> string" where
  "hex n = (if n < 16 then [digit_char n] else hex (n div 16) @ [digit_char (n mod 16)])"

declare hex.simps [simp del]

definition hex4 :: "nat \<Rightarrow> string" where
  "hex4 n = replicate (4 - length (hex n)) (CHR ''0'') @ hex n"

definition hex_dump :: "bytes \<Rightarrow> nat \<Rightarrow> string run" where
  "hex_dump buffer n =
     rbind (run_map (\<lambda>i. rbind (ld8 buffer i) (\<lambda>b. Done
         ((if i mod 16 = 0 then (if 0 < i then [CHR 0x0A] else []) @ ''0x'' @ hex4 i @ '': '' else []) @
          hex2 b @ '' ''))) [0..<n])
       (\<lambda>ss. Done (concat ss @ [CHR 0x0A]))"

definition parse_packet :: "packet \<Rightarrow> nat \<Rightarrow> packet_layer_t \<Rightarrow> parse_out" where
  "parse_packet packet in_bytes layer =
     check (in_bytes \<le> length (p_buffer packet))
       (rbind (case layer of
                 PACKET_LAYER_2_ETHERNET \<Rightarrow> parse_layer2_packet packet 0 in_bytes
               | PACKET_LAYER_3_IP \<Rightarrow> parse_layer3_packet packet 0 in_bytes)
         (\<lambda>(packet, result, error).
            if result \<noteq> PACKET_BAD then Done (packet, result, error)
            else rbind (hex_dump (p_buffer packet) in_bytes) (\<lambda>hex.
              Done (packet, PACKET_BAD, Some (the error @ '': packet of '' @ dec in_bytes @
                '' bytes:'' @ [CHR 0x0A] @ hex)))))"

subsection \<open>What the parser guarantees\<close>

text \<open>The headers in use lie one behind the other from the layer 2 header on.\<close>

definition chained :: "packet \<Rightarrow> bool" where
  "chained packet \<longleftrightarrow> packet_clean packet \<and>
     (\<forall>i < length (used_headers packet). h_ptr (used_headers packet ! i) =
        Some (p_l2_header_bytes packet + sum_list (map header_bytes (take i (used_headers packet)))))"

text \<open>The innermost IP header, as the pair of the packet's IPv4 and IPv6 pointers.\<close>

fun innermost_ip :: "header list \<Rightarrow> nat option \<times> nat option" where
  "innermost_ip [] = (None, None)"
| "innermost_ip (h # hs) =
     (if innermost_ip hs \<noteq> (None, None) then innermost_ip hs
      else if h_type h = HEADER_IPV4 then (h_ptr h, None)
      else if h_type h = HEADER_IPV6 then (None, h_ptr h)
      else (None, None))"

text \<open>An IPv4 header carries a correct checksum.\<close>

definition verified :: "bytes \<Rightarrow> header \<Rightarrow> bool" where
  "verified buf h \<longleftrightarrow> (h_type h = HEADER_IPV4 \<longrightarrow>
     ipv4_checksum (take (header_bytes h) (drop (the (h_ptr h)) buf)) = 0)"

definition parsed :: "packet \<Rightarrow> packet \<Rightarrow> bool" where
  "parsed packet packet' \<longleftrightarrow> p_buffer packet' = p_buffer packet \<and>
     p_l2_header_bytes packet' = p_l2_header_bytes packet \<and> chained packet' \<and>
     (\<exists>hs. used_headers packet' = used_headers packet @ hs \<and>
        (p_ipv4 packet', p_ipv6 packet') = innermost_ip hs \<and> list_all (verified (p_buffer packet)) hs)"

definition parse_ok :: "packet \<Rightarrow> parse_out \<Rightarrow> bool" where
  "parse_ok packet r \<longleftrightarrow> (\<exists>packet' result error. r = Done (packet', result, error) \<and>
     parsed packet packet' \<and> (result = PACKET_BAD \<longleftrightarrow> error \<noteq> None))"

text \<open>A packet parsed up to offset \<open>p\<close>, with the end of the bytes read inside the buffer.\<close>

definition ready :: "packet \<Rightarrow> nat \<Rightarrow> nat \<Rightarrow> bool" where
  "ready packet p pend \<longleftrightarrow> chained packet \<and> p_l2_header_bytes packet + p_ip_bytes packet = p \<and>
     p_ip_bytes packet = sum_list (map header_bytes (used_headers packet)) \<and>
     p_ipv4 packet = None \<and> p_ipv6 packet = None \<and> p \<le> pend \<and> pend < length (p_buffer packet)"

lemma used_headers_update [simp]:
  "used_headers (packet\<lparr>p_tcp := a\<rparr>) = used_headers packet"
  "used_headers (packet\<lparr>p_udp := a\<rparr>) = used_headers packet"
  "used_headers (packet\<lparr>p_icmpv4 := a\<rparr>) = used_headers packet"
  "used_headers (packet\<lparr>p_icmpv6 := a\<rparr>) = used_headers packet"
  "used_headers (packet\<lparr>p_ipv4 := a\<rparr>) = used_headers packet"
  "used_headers (packet\<lparr>p_ipv6 := a\<rparr>) = used_headers packet"
  "used_headers (packet\<lparr>p_ip_bytes := n\<rparr>) = used_headers packet"
  "used_headers (packet\<lparr>p_l2_header_bytes := n\<rparr>) = used_headers packet"
  by (simp_all add: used_headers_def)

lemma packet_clean_update [simp]:
  "packet_clean (packet\<lparr>p_tcp := a\<rparr>) = packet_clean packet"
  "packet_clean (packet\<lparr>p_udp := a\<rparr>) = packet_clean packet"
  "packet_clean (packet\<lparr>p_icmpv4 := a\<rparr>) = packet_clean packet"
  "packet_clean (packet\<lparr>p_icmpv6 := a\<rparr>) = packet_clean packet"
  "packet_clean (packet\<lparr>p_ipv4 := a\<rparr>) = packet_clean packet"
  "packet_clean (packet\<lparr>p_ipv6 := a\<rparr>) = packet_clean packet"
  "packet_clean (packet\<lparr>p_ip_bytes := n\<rparr>) = packet_clean packet"
  "packet_clean (packet\<lparr>p_l2_header_bytes := n\<rparr>) = packet_clean packet"
  by (simp_all add: packet_clean_def packet_wf_def packet_header_count_def)

lemma chained_update [simp]:
  "chained (packet\<lparr>p_tcp := a\<rparr>) = chained packet"
  "chained (packet\<lparr>p_udp := a\<rparr>) = chained packet"
  "chained (packet\<lparr>p_icmpv4 := a\<rparr>) = chained packet"
  "chained (packet\<lparr>p_icmpv6 := a\<rparr>) = chained packet"
  "chained (packet\<lparr>p_ipv4 := a\<rparr>) = chained packet"
  "chained (packet\<lparr>p_ipv6 := a\<rparr>) = chained packet"
  "chained (packet\<lparr>p_ip_bytes := n\<rparr>) = chained packet"
  by (simp_all add: chained_def)

text \<open>One more header keeps the packet ready, just behind that header.\<close>

lemma ready_append:
  assumes ready: "ready packet p pend" and t: "t \<noteq> HEADER_NONE" and le: "p + bytes \<le> pend"
    and app: "packet_append_header packet t bytes = Some (i, packet1)"
    and p': "packet' = set_total_bytes i n packet1"
  shows "ready packet' (p + bytes) pend"
    "used_headers packet' = used_headers packet @
       [\<lparr>h_type = t, header_bytes = bytes, total_bytes = n, h_ptr = Some p\<rparr>]"
    "p_buffer packet' = p_buffer packet" "p_l2_header_bytes packet' = p_l2_header_bytes packet"
    "p_ipv4 packet' = None" "p_ipv6 packet' = None"
proof -
  have clean: "packet_clean packet" and p: "p_l2_header_bytes packet + p_ip_bytes packet = p"
    using ready by (simp_all add: ready_def chained_def)
  note app = append_header_clean [OF clean t app p']
  show used: "used_headers packet' = used_headers packet @
       [\<lparr>h_type = t, header_bytes = bytes, total_bytes = n, h_ptr = Some p\<rparr>]"
    using app(2) p by simp
  show eqs: "p_buffer packet' = p_buffer packet" "p_l2_header_bytes packet' = p_l2_header_bytes packet"
    "p_ipv4 packet' = None" "p_ipv6 packet' = None"
    using ready by (simp_all add: ready_def) (subst app(3); simp)+
  have ipb: "p_ip_bytes packet' = p_ip_bytes packet + bytes" by (subst app(3)) simp
  have "chained packet'"
    using ready app(1) unfolding chained_def used eqs ready_def
    by (auto simp: nth_append less_Suc_eq)
  then show "ready packet' (p + bytes) pend"
    using ready le by (simp add: ready_def eqs ipb used)
qed

lemma parsed_refl: "ready packet p pend \<Longrightarrow> parsed packet packet"
  by (simp add: parsed_def ready_def)

lemma parse_ok_bad: "ready packet p pend \<Longrightarrow> parse_ok packet (bad packet e)"
  by (simp add: parse_ok_def bad_def parsed_refl)

subsection \<open>The transport parsers\<close>

text \<open>A packet whose last step appended a header that is not an IP header.\<close>

lemma leaf_ok:
  assumes "ready packet p pend" "t \<notin> {HEADER_NONE, HEADER_IPV4, HEADER_IPV6}" "p + bytes \<le> pend"
    "packet_append_header packet t bytes = Some (i, packet1)"
  shows "parsed packet (set_total_bytes i n packet1)"
proof -
  note a = ready_append [OF assms(1) _ assms(3,4) refl, of n]
  have "chained (set_total_bytes i n packet1)"
    using a(1) assms(2) by (simp add: ready_def)
  then show ?thesis
    using a assms(2) by (auto simp: parsed_def verified_def)
qed

lemma parsed_pointer:
  "parsed (packet\<lparr>p_tcp := a\<rparr>) packet' = parsed packet packet'"
  "parsed (packet\<lparr>p_udp := a\<rparr>) packet' = parsed packet packet'"
  "parsed (packet\<lparr>p_icmpv4 := a\<rparr>) packet' = parsed packet packet'"
  "parsed (packet\<lparr>p_icmpv6 := a\<rparr>) packet' = parsed packet packet'"
  by (simp_all add: parsed_def)

lemma ready_pointer:
  "ready (packet\<lparr>p_tcp := a\<rparr>) p pend = ready packet p pend"
  "ready (packet\<lparr>p_udp := a\<rparr>) p pend = ready packet p pend"
  "ready (packet\<lparr>p_icmpv4 := a\<rparr>) p pend = ready packet p pend"
  "ready (packet\<lparr>p_icmpv6 := a\<rparr>) p pend = ready packet p pend"
  by (simp_all add: ready_def)

lemma parse_tcp_ok:
  assumes "ready packet p pend" "p + l4 \<le> pend"
  shows "parse_ok packet (parse_tcp packet p l4 pend)"
proof (cases "l4 < 20")
  case True
  then show ?thesis using parse_ok_bad [OF assms(1)] by (simp add: parse_tcp_def)
next
  case False
  define packet0 where "packet0 = packet\<lparr>p_tcp := Some p\<rparr>"
  have ready: "ready packet0 p pend" using assms(1) by (simp add: packet0_def ready_pointer)
  have ok: "parse_ok packet r" if "parse_ok packet0 r" for r
    using that by (simp add: packet0_def parse_ok_def parsed_pointer)
  note ok_bad = ok [OF parse_ok_bad [OF ready]]
  have "p + 12 < length (p_buffer packet)" using assms False by (simp add: ready_def)
  then obtain n where n: "packet_tcp_header_len packet0 = Done n"
    by (simp add: packet_tcp_header_len_def packet0_def)
  show ?thesis
  proof (cases "n < 20 \<or> l4 < n")
    case True
    then show ?thesis using False n ok_bad by (auto simp: parse_tcp_def Let_def simp flip: packet0_def)
  next
    case fits: False
    show ?thesis
    proof (cases "packet_append_header packet0 HEADER_TCP n")
      case None
      then show ?thesis using False fits n ok_bad by (simp add: parse_tcp_def Let_def flip: packet0_def)
    next
      case (Some a)
      obtain i packet1 where a: "a = (i, packet1)" by (cases a)
      have "parsed packet0 (set_total_bytes i l4 packet1)"
        by (rule leaf_ok [OF ready _ _ Some [unfolded a]]) (use fits assms(2) in simp_all)
      then have "parsed packet (set_total_bytes i l4 packet1)"
        by (simp add: packet0_def parsed_pointer)
      then show ?thesis using False fits n Some a assms(2)
        by (simp add: parse_tcp_def Let_def parse_ok_def flip: packet0_def)
    qed
  qed
qed

lemma parse_udp_ok:
  assumes "ready packet p pend" "p + l4 \<le> pend"
  shows "parse_ok packet (parse_udp packet p l4 pend)"
proof (cases "l4 < 8")
  case True
  then show ?thesis using parse_ok_bad [OF assms(1)] by (simp add: parse_udp_def)
next
  case False
  define packet0 where "packet0 = packet\<lparr>p_udp := Some p\<rparr>"
  have ready: "ready packet0 p pend" using assms(1) by (simp add: packet0_def ready_pointer)
  have ok: "parse_ok packet r" if "parse_ok packet0 r" for r
    using that by (simp add: packet0_def parse_ok_def parsed_pointer)
  note ok_bad = ok [OF parse_ok_bad [OF ready]]
  have "p + 4 + 1 < length (p_buffer packet0)" using assms False by (simp add: ready_def packet0_def)
  then obtain len where len: "ld_be16 (p_buffer packet0) (p + 4) = Done len"
    by (simp add: ld_be16_def)
  show ?thesis
  proof (cases "unat len = l4")
    case not_fits: False
    then show ?thesis using False len ok_bad
      by (auto simp: parse_udp_def Let_def simp flip: packet0_def)
  next
    case fits: True
    show ?thesis
    proof (cases "packet_append_header packet0 HEADER_UDP 8")
      case None
      then show ?thesis using False fits len ok_bad by (simp add: parse_udp_def Let_def flip: packet0_def)
    next
      case (Some a)
      obtain i packet1 where a: "a = (i, packet1)" by (cases a)
      have "parsed packet0 (set_total_bytes i l4 packet1)"
        by (rule leaf_ok [OF ready _ _ Some [unfolded a]]) (use False assms(2) in simp_all)
      then have "parsed packet (set_total_bytes i l4 packet1)"
        by (simp add: packet0_def parsed_pointer)
      then show ?thesis using False fits len Some a assms(2)
        by (simp add: parse_udp_def Let_def parse_ok_def flip: packet0_def)
    qed
  qed
qed

lemma parse_icmp_ok:
  assumes "ready packet p pend" "p + l4 \<le> pend"
  shows "parse_ok packet (parse_icmpv4 packet p l4 pend)" "parse_ok packet (parse_icmpv6 packet p l4 pend)"
proof -
  have r4: "ready (packet\<lparr>p_icmpv4 := Some p\<rparr>) p pend" and r6: "ready (packet\<lparr>p_icmpv6 := Some p\<rparr>) p pend"
    using assms(1) by (simp_all add: ready_pointer)
  note bad = parse_ok_bad [OF assms(1)] parse_ok_bad [OF r4] parse_ok_bad [OF r6]
  show "parse_ok packet (parse_icmpv4 packet p l4 pend)"
    using leaf_ok [OF r4, of HEADER_ICMPV4 8] assms(2) bad
    by (auto simp: parse_icmpv4_def Let_def parse_ok_def parsed_pointer bad_def split: option.split)
  show "parse_ok packet (parse_icmpv6 packet p l4 pend)"
    using leaf_ok [OF r6, of HEADER_ICMPV6 8] assms(2) bad
    by (auto simp: parse_icmpv6_def Let_def parse_ok_def parsed_pointer bad_def split: option.split)
qed

subsection \<open>The other parsers\<close>

lemma ipv4_open_ready:
  assumes "ready packet p pend"
  obtains (error) e where "ipv4_open packet p pend = Done (Inl e)"
    | (ok) packet1 tot hlen proto where "ipv4_open packet p pend = Done (Inr (packet1, tot, hlen, proto))"
        "ready packet1 (p + hlen) pend" "p + tot \<le> pend" "hlen \<le> tot"
        "used_headers packet1 = used_headers packet @
           [\<lparr>h_type = HEADER_IPV4, header_bytes = hlen, total_bytes = tot, h_ptr = Some p\<rparr>]"
        "ipv4_checksum (take hlen (drop p (p_buffer packet))) = 0"
        "p_buffer packet1 = p_buffer packet" "p_l2_header_bytes packet1 = p_l2_header_bytes packet"
proof (cases "ipv4_open packet p pend")
  case Oob
  then show ?thesis using assms
    by (auto simp: ipv4_open_def Let_def run_simps ready_def ld_be16_def ld_bytes_def
        split: if_splits option.splits)
next
  case Die
  then show ?thesis
    by (auto simp: ipv4_open_def Let_def run_simps ld_be16_def ld_bytes_def
        split: if_splits option.splits)
next
  case (Done r)
  show ?thesis
  proof (cases r)
    case (Inl e)
    with Done error show ?thesis by blast
  next
    case (Inr x)
    obtain packet1 tot hlen proto where x: "x = (packet1, tot, hlen, proto)" by (cases x) auto
    note op = Done [unfolded Inr x]
    obtain i packet0 where app: "packet_append_header packet HEADER_IPV4 hlen = Some (i, packet0)"
      and p1: "packet1 = set_total_bytes i tot packet0"
      using ipv4_open_Inr [OF op] by blast
    have bounds: "p + hlen \<le> pend" "p + tot \<le> pend" "hlen \<le> tot"
      "ipv4_checksum (take hlen (drop p (p_buffer packet))) = 0"
      using op by (auto simp: ipv4_open_def Let_def run_simps ld_bytes_def split: if_splits option.splits)
    show ?thesis
      by (rule ok [OF op]) (use ready_append [OF assms _ bounds(1) app p1] bounds in auto)
  qed
qed

lemma ipv6_open_ready:
  assumes "ready packet p pend"
  obtains (error) e where "ipv6_open packet p pend = Done (Inl e)"
    | (ok) packet1 tot hlen proto where "ipv6_open packet p pend = Done (Inr (packet1, tot, hlen, proto))"
        "ready packet1 (p + hlen) pend" "p + tot \<le> pend" "hlen \<le> tot"
        "used_headers packet1 = used_headers packet @
           [\<lparr>h_type = HEADER_IPV6, header_bytes = hlen, total_bytes = tot, h_ptr = Some p\<rparr>]"
        "p_buffer packet1 = p_buffer packet" "p_l2_header_bytes packet1 = p_l2_header_bytes packet"
proof (cases "ipv6_open packet p pend")
  case Oob
  then show ?thesis using assms
    by (auto simp: ipv6_open_def Let_def run_simps ready_def ld_be16_def split: if_splits option.splits)
next
  case Die
  then show ?thesis
    by (auto simp: ipv6_open_def Let_def run_simps ld_be16_def split: if_splits option.splits)
next
  case (Done r)
  show ?thesis
  proof (cases r)
    case (Inl e)
    with Done error show ?thesis by blast
  next
    case (Inr x)
    obtain packet1 tot hlen proto where x: "x = (packet1, tot, hlen, proto)" by (cases x) auto
    note op = Done [unfolded Inr x]
    obtain i packet0 where app: "packet_append_header packet HEADER_IPV6 hlen = Some (i, packet0)"
      and p1: "packet1 = set_total_bytes i tot packet0"
      using ipv6_open_Inr [OF op] by blast
    have bounds: "p + hlen \<le> pend" "p + tot \<le> pend" "hlen \<le> tot"
      using op by (auto simp: ipv6_open_def Let_def run_simps split: if_splits option.splits)
    show ?thesis
      by (rule ok [OF op]) (use ready_append [OF assms _ bounds(1) app p1] bounds in auto)
  qed
qed

lemma gre_open_ready:
  assumes "ready packet p pend" "p + l4 \<le> pend"
  obtains (error) e where "gre_open packet p l4 pend = Done (Inl e)"
    | (ok) packet1 hlen proto h where "gre_open packet p l4 pend = Done (Inr (packet1, hlen, proto))"
        "ready packet1 (p + hlen) pend" "used_headers packet1 = used_headers packet @ [h]"
        "h_type h = HEADER_GRE"
        "p_buffer packet1 = p_buffer packet" "p_l2_header_bytes packet1 = p_l2_header_bytes packet"
proof (cases "gre_open packet p l4 pend")
  case Oob
  then show ?thesis using assms
    by (auto simp: gre_open_def gre_len_def GRE_MINLEN_def Let_def run_simps ready_def ld_be16_def
        split: if_splits option.splits)
next
  case Die
  then show ?thesis using assms
    by (auto simp: gre_open_def gre_len_def Let_def run_simps ready_def ld_be16_def
        split: if_splits option.splits)
next
  case (Done r)
  show ?thesis
  proof (cases r)
    case (Inl e)
    with Done error show ?thesis by blast
  next
    case (Inr x)
    obtain packet1 hlen proto where x: "x = (packet1, hlen, proto)" by (cases x) auto
    note op = Done [unfolded Inr x]
    obtain i packet0 where app: "packet_append_header packet HEADER_GRE hlen = Some (i, packet0)"
      and p1: "packet1 = set_total_bytes i l4 packet0"
      using gre_open_Inr [OF op] by blast
    have bounds: "p + hlen \<le> pend"
      using op by (auto simp: gre_open_def Let_def run_simps split: if_splits option.splits)
    show ?thesis
      by (rule ok [OF op]) (use ready_append [OF assms(1) _ bounds app p1] in auto)
  qed
qed

lemma mpls_stack_bytes_safe:
  assumes "p \<le> pend" "pend \<le> length bs"
  shows "\<exists>r. mpls_stack_bytes bs p pend n = Done r \<and> (\<forall>m. r = Inr m \<longrightarrow> n \<le> m \<and> p + (m - n) \<le> pend)"
  using assms
proof (induction bs p pend n rule: mpls_stack_bytes.induct)
  case (1 bs p pend n)
  show ?case
  proof (cases "pend < p + 4")
    case True
    then show ?thesis by (subst mpls_stack_bytes.simps) simp
  next
    case False
    then obtain entry where entry: "ld_be32 bs p = Done entry"
      using "1.prems" by (simp add: ld_be32_def)
    show ?thesis
    proof (cases "\<not> entry AND MPLS_STACK_MASK \<noteq> 0 \<and> p + 4 < pend")
      case True
      then have "\<exists>r. mpls_stack_bytes bs (p + 4) pend (n + 4) = Done r \<and>
          (\<forall>m. r = Inr m \<longrightarrow> n + 4 \<le> m \<and> p + 4 + (m - (n + 4)) \<le> pend)"
        using "1.IH" [of entry] "1.prems" False True by simp
      then obtain r where "mpls_stack_bytes bs (p + 4) pend (n + 4) = Done r"
        "\<forall>m. r = Inr m \<longrightarrow> n + 4 \<le> m \<and> p + 4 + (m - (n + 4)) \<le> pend" by blast
      then show ?thesis using False True entry
        by (subst mpls_stack_bytes.simps) (auto simp: add.commute)
    next
      case last: False
      then have "mpls_stack_bytes bs p pend n = Done (Inr (n + 4))"
        using False entry by (subst mpls_stack_bytes.simps) auto
      then show ?thesis using False by simp
    qed
  qed
qed

lemma mpls_open_ready:
  assumes "ready packet p pend"
  obtains (error) e where "mpls_open packet p pend = Done (Inl e)"
    | (ok) packet1 hlen h where "mpls_open packet p pend = Done (Inr (packet1, hlen))"
        "ready packet1 (p + hlen) pend" "used_headers packet1 = used_headers packet @ [h]"
        "h_type h = HEADER_MPLS"
        "p_buffer packet1 = p_buffer packet" "p_l2_header_bytes packet1 = p_l2_header_bytes packet"
proof -
  have "p \<le> pend" "pend \<le> length (p_buffer packet)" using assms by (simp_all add: ready_def)
  from mpls_stack_bytes_safe [OF this, of 0] obtain r where
    r: "mpls_stack_bytes (p_buffer packet) p pend 0 = Done r" "\<forall>m. r = Inr m \<longrightarrow> p + m \<le> pend" by auto
  show ?thesis
  proof (cases r)
    case (Inl e)
    with r show ?thesis by (intro error [of e]) (simp add: mpls_open_def)
  next
    case (Inr m)
    then have m: "p + m \<le> pend" "m \<le> pend - p" using r by simp_all
    show ?thesis
    proof (cases "packet_append_header packet HEADER_MPLS m")
      case None
      with r Inr m show ?thesis by (intro error) (simp add: mpls_open_def)
    next
      case (Some a)
      obtain i packet0 where a: "a = (i, packet0)" by (cases a)
      have op: "mpls_open packet p pend = Done (Inr (set_total_bytes i (pend - p) packet0, m))"
        using r Inr m Some a by (simp add: mpls_open_def)
      show ?thesis
        by (rule ok [OF op]) (use ready_append [OF assms _ m(1) Some [unfolded a] refl] in auto)
    qed
  qed
qed

text \<open>Going on behind a header that is not an IP header.\<close>

lemma parsed_step:
  assumes "parsed packet1 packet2" "used_headers packet1 = used_headers packet @ [h]"
    "h_type h \<notin> {HEADER_IPV4, HEADER_IPV6}"
    "p_buffer packet1 = p_buffer packet" "p_l2_header_bytes packet1 = p_l2_header_bytes packet"
  shows "parsed packet packet2"
proof -
  obtain hs where hs: "used_headers packet2 = used_headers packet1 @ hs"
    "(p_ipv4 packet2, p_ipv6 packet2) = innermost_ip hs" "list_all (verified (p_buffer packet1)) hs"
    using assms(1) by (auto simp: parsed_def)
  then have "used_headers packet2 = used_headers packet @ (h # hs)"
    "(p_ipv4 packet2, p_ipv6 packet2) = innermost_ip (h # hs)"
    "list_all (verified (p_buffer packet)) (h # hs)"
    using assms by (simp_all add: verified_def)
  then show ?thesis using assms by (auto simp: parsed_def)
qed

lemma parse_ok_step:
  "parse_ok packet1 r \<Longrightarrow> used_headers packet1 = used_headers packet @ [h] \<Longrightarrow>
   h_type h \<notin> {HEADER_IPV4, HEADER_IPV6} \<Longrightarrow>
   p_buffer packet1 = p_buffer packet \<Longrightarrow> p_l2_header_bytes packet1 = p_l2_header_bytes packet \<Longrightarrow>
   parse_ok packet r"
  unfolding parse_ok_def using parsed_step by blast

text \<open>Closing an IP header.\<close>

lemma parsed_close:
  assumes "parsed packet1 packet2"
    "used_headers packet1 = used_headers packet @ [h]" "h_ptr h = Some p"
    "p_buffer packet1 = p_buffer packet" "p_l2_header_bytes packet1 = p_l2_header_bytes packet"
  shows "h_type h = HEADER_IPV4 \<Longrightarrow> verified (p_buffer packet) h \<Longrightarrow> parsed packet (ipv4_close o1 p tot packet2)"
    "h_type h = HEADER_IPV6 \<Longrightarrow> parsed packet (ipv6_close o1 p tot packet2)"
proof -
  obtain hs where hs: "used_headers packet2 = used_headers packet1 @ hs"
    "(p_ipv4 packet2, p_ipv6 packet2) = innermost_ip hs" "list_all (verified (p_buffer packet1)) hs"
    using assms(1) by (auto simp: parsed_def)
  have ip: "p_ipv4 packet2 = fst (innermost_ip hs)" "p_ipv6 packet2 = snd (innermost_ip hs)"
    using hs(2) by (metis fst_conv, metis snd_conv)
  have u: "used_headers packet2 = used_headers packet @ (h # hs)" using hs(1) assms(2) by simp
  have v: "list_all (verified (p_buffer packet)) hs" using hs(3) assms(4) by simp
  have c: "p_buffer packet2 = p_buffer packet" "p_l2_header_bytes packet2 = p_l2_header_bytes packet"
    "chained packet2" using assms by (simp_all add: parsed_def)
  show "parsed packet (ipv4_close o1 p tot packet2)" if "h_type h = HEADER_IPV4" "verified (p_buffer packet) h"
    unfolding parsed_def
    by (intro conjI exI [of _ "h # hs"])
      (use that u v c ip assms(3) in \<open>auto simp: ipv4_close_def Let_def prod_eq_iff\<close>)
  show "parsed packet (ipv6_close o1 p tot packet2)" if "h_type h = HEADER_IPV6"
    unfolding parsed_def
    by (intro conjI exI [of _ "h # hs"])
      (use that u v c ip assms(3) in \<open>auto simp: ipv6_close_def Let_def prod_eq_iff verified_def\<close>)
qed

lemma parse_ipv4_unfold: "parse_ipv4 packet p pend =
     (case ipv4_open packet p pend of
           Oob \<Rightarrow> Oob | Die \<Rightarrow> Die
         | Done (Inl e) \<Rightarrow> bad packet e
         | Done (Inr (packet1, tot, hlen, proto)) \<Rightarrow>
             rbind (parse_layer4 packet1 (p + hlen) proto (tot - hlen) pend)
               (\<lambda>(packet2, result, err). Done (ipv4_close (p_ip_bytes packet = 0) p tot packet2, result, err)))"
  by (simp add: Let_def)

lemma parse_ipv6_unfold: "parse_ipv6 packet p pend =
     (case ipv6_open packet p pend of
           Oob \<Rightarrow> Oob | Die \<Rightarrow> Die
         | Done (Inl e) \<Rightarrow> bad packet e
         | Done (Inr (packet1, tot, hlen, proto)) \<Rightarrow>
             rbind (parse_layer4 packet1 (p + hlen) proto (tot - hlen) pend)
               (\<lambda>(packet2, result, err). Done (ipv6_close (p_ip_bytes packet = 0) p tot packet2, result, err)))"
  by (simp add: Let_def)

declare parse_ipv4.simps [simp del] parse_ipv6.simps [simp del] parse_gre.simps [simp del]
  parse_mpls.simps [simp del] parse_layer3_packet_by_proto.simps [simp del]
  parse_layer3_packet.simps [simp del] parse_layer4.simps [simp del]

lemma ipv4_step:
  assumes ready: "ready packet p pend"
    and rec: "\<And>packet1 tot hlen proto. ipv4_open packet p pend = Done (Inr (packet1, tot, hlen, proto)) \<Longrightarrow>
      ready packet1 (p + hlen) pend \<Longrightarrow> p + hlen + (tot - hlen) \<le> pend \<Longrightarrow>
      parse_ok packet1 (parse_layer4 packet1 (p + hlen) proto (tot - hlen) pend)"
  shows "parse_ok packet (parse_ipv4 packet p pend)"
  using ready
proof (cases rule: ipv4_open_ready)
  case (error e)
  then show ?thesis using parse_ok_bad [OF ready] by (simp add: parse_ipv4_unfold)
next
  case (ok packet1 tot hlen proto)
  have "parse_ok packet1 (parse_layer4 packet1 (p + hlen) proto (tot - hlen) pend)"
    using rec [OF ok(1,2)] ok(3,4) by simp
  then obtain packet2 result err where l4:
    "parse_layer4 packet1 (p + hlen) proto (tot - hlen) pend = Done (packet2, result, err)"
    "parsed packet1 packet2" "result = PACKET_BAD \<longleftrightarrow> err \<noteq> None"
    unfolding parse_ok_def by blast
  have "parsed packet (ipv4_close (p_ip_bytes packet = 0) p tot packet2)"
    by (rule parsed_close(1) [OF l4(2) ok(5)]) (use ok in \<open>simp_all add: verified_def\<close>)
  then show ?thesis using ok(1) l4 by (simp add: parse_ipv4_unfold parse_ok_def)
qed

lemma ipv6_step:
  assumes ready: "ready packet p pend"
    and rec: "\<And>packet1 tot hlen proto. ipv6_open packet p pend = Done (Inr (packet1, tot, hlen, proto)) \<Longrightarrow>
      ready packet1 (p + hlen) pend \<Longrightarrow> p + hlen + (tot - hlen) \<le> pend \<Longrightarrow>
      parse_ok packet1 (parse_layer4 packet1 (p + hlen) proto (tot - hlen) pend)"
  shows "parse_ok packet (parse_ipv6 packet p pend)"
  using ready
proof (cases rule: ipv6_open_ready)
  case (error e)
  then show ?thesis using parse_ok_bad [OF ready] by (simp add: parse_ipv6_unfold)
next
  case (ok packet1 tot hlen proto)
  have "parse_ok packet1 (parse_layer4 packet1 (p + hlen) proto (tot - hlen) pend)"
    using rec [OF ok(1,2)] ok(3,4) by simp
  then obtain packet2 result err where l4:
    "parse_layer4 packet1 (p + hlen) proto (tot - hlen) pend = Done (packet2, result, err)"
    "parsed packet1 packet2" "result = PACKET_BAD \<longleftrightarrow> err \<noteq> None"
    unfolding parse_ok_def by blast
  have "parsed packet (ipv6_close (p_ip_bytes packet = 0) p tot packet2)"
    by (rule parsed_close(2) [OF l4(2) ok(5)]) (use ok in simp_all)
  then show ?thesis using ok(1) l4 by (simp add: parse_ipv6_unfold parse_ok_def)
qed

text \<open>All parsers, by induction over their calls.\<close>

lemma parsers_ok:
  "ready packet p pend \<Longrightarrow> parse_ok packet (parse_ipv4 packet p pend)"
  "ready packet p pend \<Longrightarrow> parse_ok packet (parse_ipv6 packet p pend)"
  "ready packet p pend \<Longrightarrow> p + l4 \<le> pend \<Longrightarrow> parse_ok packet (parse_gre packet p l4 pend)"
  "ready packet p pend \<Longrightarrow> parse_ok packet (parse_mpls packet p pend)"
  "ready packet p pend \<Longrightarrow> parse_ok packet (parse_layer3_packet_by_proto packet proto p pend)"
  "ready packet p pend \<Longrightarrow> parse_ok packet (parse_layer3_packet packet p pend)"
  "ready packet p pend \<Longrightarrow> p + l4 \<le> pend \<Longrightarrow> parse_ok packet (parse_layer4 packet p protocol l4 pend)"
proof (induction packet p pend and packet p pend and packet p l4 pend and packet p pend
    and packet proto p pend and packet p pend and packet p protocol l4 pend
    rule: parse_ipv4_parse_ipv6_parse_gre_parse_mpls_parse_layer3_packet_by_proto_parse_layer3_packet_parse_layer4.induct)
  case (1 packet p pend)
  show ?case by (rule ipv4_step [OF "1.prems"]) (rule "1.IH"; simp)
next
  case (2 packet p pend)
  show ?case by (rule ipv6_step [OF "2.prems"]) (rule "2.IH"; simp)
next
  case (3 packet p l4 pend)
  from "3.prems" show ?case
  proof (cases rule: gre_open_ready)
    case (error e)
    then show ?thesis using parse_ok_bad [OF "3.prems"(1)] by (simp add: parse_gre.simps)
  next
    case (ok packet1 hlen proto h)
    have "parse_ok packet1 (parse_layer3_packet_by_proto packet1 proto (p + hlen) pend)"
      using "3.IH" [OF ok(1) refl refl refl ok(2)] .
    from parse_ok_step [OF this ok(3)] ok show ?thesis by (simp add: parse_gre.simps)
  qed
next
  case (4 packet p pend)
  from "4.prems" show ?case
  proof (cases rule: mpls_open_ready)
    case (error e)
    then show ?thesis using parse_ok_bad [OF "4.prems"(1)] by (simp add: parse_mpls.simps)
  next
    case (ok packet1 hlen h)
    have "parse_ok packet1 (parse_layer3_packet packet1 (p + hlen) pend)"
      using "4.IH" [OF ok(1) refl refl ok(2)] .
    from parse_ok_step [OF this ok(3)] ok show ?thesis by (simp add: parse_mpls.simps)
  qed
next
  case (5 packet proto p pend)
  note bad = parse_ok_bad [OF "5.prems"]
  have ld: "ld8 (p_buffer packet) p = Done (p_buffer packet ! p)"
    using "5.prems" by (simp add: ready_def)
  have "parse_ok packet (Done (packet, PACKET_UNKNOWN_L4, None))"
    using parsed_refl [OF "5.prems"] by (simp add: parse_ok_def)
  then show ?case
    using 5 bad ld by (subst parse_layer3_packet_by_proto.simps) auto
next
  case (6 packet p pend)
  note bad = parse_ok_bad [OF "6.prems"]
  have ld: "ld8 (p_buffer packet) p = Done (p_buffer packet ! p)"
    using "6.prems" by (simp add: ready_def)
  then show ?case
    using 6 bad by (subst parse_layer3_packet.simps) auto
next
  case (7 packet p protocol l4 pend)
  have "parse_ok packet (Done (packet, PACKET_UNKNOWN_L4, None))"
    using parsed_refl [OF "7.prems"(1)] by (simp add: parse_ok_def)
  then show ?case
    using 7 parse_tcp_ok [OF "7.prems"] parse_udp_ok [OF "7.prems"] parse_icmp_ok [OF "7.prems"]
    by (subst parse_layer4.simps) auto
qed

subsection \<open>Properties\<close>

lemma hex_dump_safe:
  assumes "n \<le> length buf"
  shows "\<exists>s. hex_dump buf n = Done s"
proof -
  have "\<exists>ys. run_map (\<lambda>i. rbind (ld8 buf i) (\<lambda>b. Done
      ((if i mod 16 = 0 then (if 0 < i then [CHR 0x0A] else []) @ ''0x'' @ hex4 i @ '': '' else []) @
        hex2 b @ '' ''))) [0..<n] = Done ys"
    using assms by (intro run_map_safe) (auto simp: ld8_def)
  then show ?thesis by (auto simp: hex_dump_def)
qed

lemma ready_new:
  assumes "n < length buf"
  shows "ready (packet_new buf) 0 n" "14 \<le> n \<Longrightarrow> ready ((packet_new buf)\<lparr>p_l2_header_bytes := 14\<rparr>) 14 n"
  using assms by (simp_all add: ready_def chained_def) (simp_all add: packet_new_def)

text \<open>The parsers below \<^verbatim>\<open>parse_packet\<close>, on a new packet.\<close>

definition parse_new :: "bytes \<Rightarrow> nat \<Rightarrow> packet_layer_t \<Rightarrow> parse_out" where
  "parse_new buf n layer = (case layer of
      PACKET_LAYER_2_ETHERNET \<Rightarrow> parse_layer2_packet (packet_new buf) 0 n
    | PACKET_LAYER_3_IP \<Rightarrow> parse_layer3_packet (packet_new buf) 0 n)"

lemma parse_new_ok:
  assumes "n < length buf"
  obtains packet' result error where "parse_new buf n layer = Done (packet', result, error)"
    "p_buffer packet' = buf" "chained packet'" "result = PACKET_BAD \<longleftrightarrow> error \<noteq> None"
    "(p_ipv4 packet', p_ipv6 packet') = innermost_ip (used_headers packet')"
    "list_all (verified buf) (used_headers packet')"
proof (cases layer)
  case PACKET_LAYER_3_IP
  have "parse_ok (packet_new buf) (parse_new buf n layer)"
    using parsers_ok(6) [OF ready_new(1) [OF assms]] PACKET_LAYER_3_IP by (simp add: parse_new_def)
  then show ?thesis using that by (auto simp: parse_ok_def parsed_def)
next
  case PACKET_LAYER_2_ETHERNET
  show ?thesis
  proof (cases "n < 14")
    case True
    have "parse_ok (packet_new buf) (parse_new buf n layer)"
      using parse_ok_bad [OF ready_new(1) [OF assms]] PACKET_LAYER_2_ETHERNET True
      by (simp add: parse_new_def parse_layer2_packet_def)
    then show ?thesis using that by (auto simp: parse_ok_def parsed_def)
  next
    case False
    have "ld_be16 buf 12 = Done (be16 (buf ! 12) (buf ! 13))"
      using False assms by (simp add: ld_be16_def)
    then have "parse_ok ((packet_new buf)\<lparr>p_l2_header_bytes := 14\<rparr>) (parse_new buf n layer)"
      using parsers_ok(5) [OF ready_new(2) [OF assms]] PACKET_LAYER_2_ETHERNET False
      by (simp add: parse_new_def parse_layer2_packet_def Let_def)
    then show ?thesis using that by (auto simp: parse_ok_def parsed_def)
  qed
qed

lemma parse_packet_new:
  assumes "n \<le> length buf" "parse_new buf n layer = Done (packet', result, error)"
    "p_buffer packet' = buf"
  shows "\<exists>error'. parse_packet (packet_new buf) n layer = Done (packet', result, error') \<and>
    (error' = None \<longleftrightarrow> result \<noteq> PACKET_BAD \<and> error = None)"
proof -
  have p: "parse_packet (packet_new buf) n layer = rbind (parse_new buf n layer)
       (\<lambda>(packet, result, error).
            if result \<noteq> PACKET_BAD then Done (packet, result, error)
            else rbind (hex_dump (p_buffer packet) n) (\<lambda>hex.
              Done (packet, PACKET_BAD, Some (the error @ '': packet of '' @ dec n @
                '' bytes:'' @ [CHR 0x0A] @ hex))))"
    using assms(1) by (cases layer) (simp_all add: parse_packet_def parse_new_def)
  obtain s where "hex_dump buf n = Done s" using hex_dump_safe [OF assms(1)] by blast
  then show ?thesis using assms(2,3) by (simp add: p)
qed

text \<open>C9: Memory safety: on any bytes in a buffer with at least one byte of room behind them, the parser
  returns, whatever the nesting of headers; it reads only inside the buffer, no assertion fails,
  the bytes are not changed, and an error message is set exactly when the packet is bad.\<close>

theorem parse_packet_safe:
  assumes "in_bytes < length buf"
  shows "\<exists>packet' result error. parse_packet (packet_new buf) in_bytes layer = Done (packet', result, error) \<and>
    p_buffer packet' = buf \<and> (error \<noteq> None \<longleftrightarrow> result = PACKET_BAD)"
proof -
  obtain packet' result error where r: "parse_new buf in_bytes layer = Done (packet', result, error)"
    "p_buffer packet' = buf" "result = PACKET_BAD \<longleftrightarrow> error \<noteq> None"
    using parse_new_ok [OF assms] by metis
  then show ?thesis using parse_packet_new [of in_bytes buf layer] assms by fastforce
qed

theorem parse_packet_safe_witness:
  "\<exists>packet' result error. parse_packet (packet_new [0x45, 0, 0]) 2 PACKET_LAYER_3_IP = Done (packet', result, error) \<and>
    p_buffer packet' = [0x45, 0, 0] \<and> (error \<noteq> None \<longleftrightarrow> result = PACKET_BAD)"
  by (rule parse_packet_safe) simp

text \<open>C10: What the parser leaves in the packet: the headers lie one behind the other from the layer 2
  header on, the packet's IPv4 or IPv6 pointer is the innermost IP header of the chain (both are null when
  there is none), and every IPv4 header of the chain has a correct checksum.\<close>

theorem parse_packet_headers:
  assumes "in_bytes < length buf"
    "parse_packet (packet_new buf) in_bytes layer = Done (packet', result, error)"
  shows "chained packet' \<and> (p_ipv4 packet', p_ipv6 packet') = innermost_ip (used_headers packet') \<and>
    list_all (verified buf) (used_headers packet')"
proof -
  obtain packet1 result1 error1 where r: "parse_new buf in_bytes layer = Done (packet1, result1, error1)"
    "p_buffer packet1 = buf" "chained packet1"
    "(p_ipv4 packet1, p_ipv6 packet1) = innermost_ip (used_headers packet1)"
    "list_all (verified buf) (used_headers packet1)"
    using parse_new_ok [OF assms(1)] by metis
  moreover have "packet1 = packet'"
    using parse_packet_new [of in_bytes buf layer, OF _ r(1,2)] assms by auto
  ultimately show ?thesis by simp
qed

text \<open>The length of the packet.\<close>

lemma outermost_length:
  assumes ready: "ready packet p pend" and outer: "p_ip_bytes packet = 0" "used_headers packet = []"
    and r: "result \<noteq> PACKET_BAD"
  shows "parse_ipv4 packet p pend = Done (packet', result, error) \<Longrightarrow>
      p_ip_bytes packet' = total_bytes (hd (used_headers packet')) \<and> p + p_ip_bytes packet' \<le> pend"
    and "parse_ipv6 packet p pend = Done (packet', result, error) \<Longrightarrow>
      p_ip_bytes packet' = total_bytes (hd (used_headers packet')) \<and> p + p_ip_bytes packet' \<le> pend"
proof -
  have hd: "total_bytes (hd (used_headers packet2)) = total_bytes h"
    if "parse_ok packet1 (Done (packet2, result, error))" "used_headers packet1 = used_headers packet @ [h]"
    for packet1 packet2 h
    using that outer(2) by (auto simp: parse_ok_def parsed_def)
  have close: "p_ip_bytes (ipv4_close True p n packet2) = n" "p_ip_bytes (ipv6_close True p n packet2) = n"
    "used_headers (ipv4_close o1 p n packet2) = used_headers packet2"
    "used_headers (ipv6_close o1 p n packet2) = used_headers packet2" for n packet2 o1
    by (simp_all add: ipv4_close_def ipv6_close_def Let_def)
  show "p_ip_bytes packet' = total_bytes (hd (used_headers packet')) \<and> p + p_ip_bytes packet' \<le> pend"
    if eq: "parse_ipv4 packet p pend = Done (packet', result, error)"
    using ready
  proof (cases rule: ipv4_open_ready)
    case (error e)
    then show ?thesis using eq r by (simp add: parse_ipv4_unfold bad_def)
  next
    case (ok packet1 tot hlen proto)
    have "parse_ok packet1 (parse_layer4 packet1 (p + hlen) proto (tot - hlen) pend)"
      by (rule parsers_ok(7) [OF ok(2)]) (use ok(3,4) in simp)
    then show ?thesis using eq ok(1,3) hd [OF _ ok(5)] outer(1)
      by (auto simp: parse_ipv4_unfold run_simps close)
  qed
  show "p_ip_bytes packet' = total_bytes (hd (used_headers packet')) \<and> p + p_ip_bytes packet' \<le> pend"
    if eq: "parse_ipv6 packet p pend = Done (packet', result, error)"
    using ready
  proof (cases rule: ipv6_open_ready)
    case (error e)
    then show ?thesis using eq r by (simp add: parse_ipv6_unfold bad_def)
  next
    case (ok packet1 tot hlen proto)
    have "parse_ok packet1 (parse_layer4 packet1 (p + hlen) proto (tot - hlen) pend)"
      by (rule parsers_ok(7) [OF ok(2)]) (use ok(3,4) in simp)
    then show ?thesis using eq ok(1,3) hd [OF _ ok(5)] outer(1)
      by (auto simp: parse_ipv6_unfold run_simps close)
  qed
qed

lemma mpls_first:
  assumes ready: "ready packet p pend" and outer: "used_headers packet = []"
    and eq: "parse_mpls packet p pend = Done (packet', result, error)" and r: "result \<noteq> PACKET_BAD"
  shows "h_type (hd (used_headers packet')) = HEADER_MPLS"
  using ready
proof (cases rule: mpls_open_ready)
  case (error e)
  then show ?thesis using eq r by (simp add: parse_mpls.simps bad_def)
next
  case (ok packet1 hlen h)
  have "parse_ok packet1 (parse_layer3_packet packet1 (p + hlen) pend)"
    by (rule parsers_ok(6) [OF ok(2)])
  then show ?thesis using eq ok(1,3,4) outer
    by (auto simp: parse_mpls.simps parse_ok_def parsed_def)
qed

lemma parse_new_length:
  assumes n: "n < length buf" and eq: "parse_new buf n layer = Done (packet', result, error)"
    and r: "result \<noteq> PACKET_BAD" "used_headers packet' \<noteq> []"
      "h_type (hd (used_headers packet')) \<in> {HEADER_IPV4, HEADER_IPV6}"
  shows "p_ip_bytes packet' = total_bytes (hd (used_headers packet')) \<and>
    p_l2_header_bytes packet' + p_ip_bytes packet' \<le> n"
proof (cases layer)
  case PACKET_LAYER_3_IP
  have eq': "parse_layer3_packet (packet_new buf) 0 n = Done (packet', result, error)"
    using eq PACKET_LAYER_3_IP by (simp add: parse_new_def)
  note ready = ready_new(1) [OF n]
  have "p_l2_header_bytes packet' = 0"
    using parsers_ok(6) [OF ready] eq' by (auto simp: parse_ok_def parsed_def)
  then show ?thesis
    using outermost_length [OF ready _ _ r(1)] eq' r(1) n
    by (auto simp: parse_layer3_packet.simps bad_def ld8_def split: if_splits)
next
  case PACKET_LAYER_2_ETHERNET
  have "14 \<le> n"
    using eq PACKET_LAYER_2_ETHERNET r(1)
    by (auto simp: parse_new_def parse_layer2_packet_def bad_def split: if_splits)
  note ready = ready_new(2) [OF n this]
  obtain proto where eq': "parse_layer3_packet_by_proto ((packet_new buf)\<lparr>p_l2_header_bytes := 14\<rparr>) proto 14 n
      = Done (packet', result, error)"
    using eq PACKET_LAYER_2_ETHERNET r(1)
    by (auto simp: parse_new_def parse_layer2_packet_def bad_def Let_def run_simps split: if_splits)
  have "p_l2_header_bytes packet' = 14"
    using parsers_ok(5) [OF ready, of proto] eq' by (auto simp: parse_ok_def parsed_def)
  moreover have "used_headers packet' = []" if "result = PACKET_UNKNOWN_L4"
      "packet' = (packet_new buf)\<lparr>p_l2_header_bytes := 14\<rparr>"
    using that by simp
  moreover have "parse_mpls ((packet_new buf)\<lparr>p_l2_header_bytes := 14\<rparr>) 14 n \<noteq> Done (packet', result, error)"
    using mpls_first [OF ready _ _ r(1)] r(3) by auto
  ultimately show ?thesis
    using outermost_length [OF ready _ _ r(1)] eq' r n
    by (auto simp: parse_layer3_packet_by_proto.simps bad_def split: if_splits)
qed

text \<open>When the outermost header is an IP header, the packet length that the parser leaves is that
  header's total length, and the packet with its layer 2 header lies inside the bytes that were read.\<close>

theorem parse_packet_length:
  assumes "in_bytes < length buf"
    "parse_packet (packet_new buf) in_bytes layer = Done (packet', result, error)" "result \<noteq> PACKET_BAD"
    "used_headers packet' \<noteq> []" "h_type (hd (used_headers packet')) \<in> {HEADER_IPV4, HEADER_IPV6}"
  shows "p_ip_bytes packet' = total_bytes (hd (used_headers packet')) \<and>
    p_l2_header_bytes packet' + p_ip_bytes packet' \<le> in_bytes"
proof -
  obtain packet1 result1 error1 where r: "parse_new buf in_bytes layer = Done (packet1, result1, error1)"
    "p_buffer packet1 = buf"
    using parse_new_ok [OF assms(1)] by metis
  moreover have "packet1 = packet'" "result1 = result"
    using parse_packet_new [of in_bytes buf layer, OF _ r] assms(1,2) by auto
  ultimately show ?thesis using parse_new_length [OF assms(1)] assms(3-5) by blast
qed

subsection \<open>Concrete packets\<close>

lemmas parse_eval = parse_packet_def parse_layer3_packet.simps parse_ipv4.simps parse_layer4.simps
  parse_layer2_packet_def parse_layer3_packet_by_proto.simps parse_udp_def ipv4_close_def
  ipv4_open_def ld_be16_def ld8_def ld_bytes_def ipproto_defs IP_MF_def IP_OFFMASK_def be16_def le16_def
  packet_append_header_def packet_header_count_def packet_new_eval no_header_def
  set_total_bytes_def ipv4_checksum_0_iff ethertype_defs

definition udp_datagram :: bytes where
  "udp_datagram = [69, 0, 0, 30, 0, 0, 0, 0, 64, 17, 102, 205, 10, 0, 0, 1, 10, 0, 0, 2,
     0, 80, 0, 81, 0, 10, 0, 0, 1, 2]"

lemma parse_udp_datagram:
  "\<exists>packet. parse_packet (packet_new (udp_datagram @ [0])) 30 PACKET_LAYER_3_IP = Done (packet, PACKET_OK, None) \<and>
    used_headers packet =
      [\<lparr>h_type = HEADER_IPV4, header_bytes = 20, total_bytes = 30, h_ptr = Some 0\<rparr>,
       \<lparr>h_type = HEADER_UDP, header_bytes = 8, total_bytes = 10, h_ptr = Some 20\<rparr>] \<and>
    p_ipv4 packet = Some 0 \<and> p_udp packet = Some 20 \<and> p_ip_bytes packet = 30"
  by (simp add: parse_eval udp_datagram_def used_headers_def)

theorem parse_packet_headers_witness:
  "\<exists>packet. parse_packet (packet_new (udp_datagram @ [0])) 30 PACKET_LAYER_3_IP = Done (packet, PACKET_OK, None) \<and>
    chained packet \<and> (p_ipv4 packet, p_ipv6 packet) = (Some 0, None)"
proof -
  obtain packet where p: "parse_packet (packet_new (udp_datagram @ [0])) 30 PACKET_LAYER_3_IP =
      Done (packet, PACKET_OK, None)" "used_headers packet =
      [\<lparr>h_type = HEADER_IPV4, header_bytes = 20, total_bytes = 30, h_ptr = Some 0\<rparr>,
       \<lparr>h_type = HEADER_UDP, header_bytes = 8, total_bytes = 10, h_ptr = Some 20\<rparr>]"
    using parse_udp_datagram by blast
  then show ?thesis using parse_packet_headers [OF _ p(1)] by (simp add: udp_datagram_def)
qed

theorem parse_packet_length_witness:
  "\<exists>packet. parse_packet (packet_new (udp_datagram @ [0])) 30 PACKET_LAYER_3_IP = Done (packet, PACKET_OK, None) \<and>
    p_ip_bytes packet = 30"
proof -
  obtain packet where p: "parse_packet (packet_new (udp_datagram @ [0])) 30 PACKET_LAYER_3_IP =
      Done (packet, PACKET_OK, None)" "used_headers packet =
      [\<lparr>h_type = HEADER_IPV4, header_bytes = 20, total_bytes = 30, h_ptr = Some 0\<rparr>,
       \<lparr>h_type = HEADER_UDP, header_bytes = 8, total_bytes = 10, h_ptr = Some 20\<rparr>]"
    using parse_udp_datagram by blast
  then show ?thesis using parse_packet_length [OF _ p(1)] by (simp add: udp_datagram_def)
qed


text \<open>With MPLS as the outermost header the packet length is wrong: the datagram above behind an
  Ethernet and an MPLS header parses, but the length left is the sum of the header lengths, because
  appending the MPLS header makes the IP header look like an inner one, and the two bytes of payload
  are lost.\<close>

theorem parse_packet_mpls_length:
  "\<exists>packet. parse_packet (packet_new ([2, 0, 0, 0, 0, 1, 2, 0, 0, 0, 0, 2, 0x88, 0x47, 0, 0, 0x11, 64] @
        udp_datagram @ [0])) 48 PACKET_LAYER_2_ETHERNET = Done (packet, PACKET_OK, None) \<and>
     p_ip_bytes packet = 4 + 20 + 8 \<and> total_bytes (used_headers packet ! 1) = 30 \<and>
     packet_payload_len packet = Done 0"
  by (simp add: parse_eval udp_datagram_def used_headers_def parse_mpls.simps mpls_open_def
      mpls_stack_bytes.simps [of _ 14] ld_be32_def be32_def le32_def MPLS_STACK_MASK_def
      packet_payload_len_def packet_end_def packet_start_def packet_payload_def packet_udp_header_len_def)

end
