(* ===== verification/IpPacket.thy ===== *)
theory IpPacket
  imports PacketParser
begin

section \<open>IP, GRE and MPLS headers\<close>

text \<open>
  The model of \<^verbatim>\<open>ip_packet.c\<close>, \<^verbatim>\<open>gre_packet.c\<close>, \<^verbatim>\<open>mpls_packet.c\<close> and \<^verbatim>\<open>mpls.h\<close>: filling in IP headers,
  appending an outer header to a packet and finishing it once the header inside is known. A header is
  written as the bytes that its fields occupy; where the C code sets every field of the structure this
  is one store of the whole header. The resolver \<^verbatim>\<open>inet_pton\<close> is a parameter: it gives the bytes of the
  address, or \<open>None\<close> where it does not return 1.
\<close>

unbundle bit_operations_syntax

subsection \<open>IP headers\<close>

record tos_spec =
  tos_check :: tos_chk
  tos_value :: u8

record ip_info =
  tos :: tos_spec
  flow_label :: u32
  ttl :: u8

definition TTL_CHECK_NONE :: u8 where "TTL_CHECK_NONE = 255"

definition ipv4_header_fields :: "u16 \<Rightarrow> u8 \<Rightarrow> u8 \<Rightarrow> u8 \<Rightarrow> bytes" where
  "ipv4_header_fields ip_bytes tosb ttlb protocol =
     [0x45, tosb] @ be16_bytes_of ip_bytes @ [0, 0, 0, 0] @
     [if ttlb \<noteq> 0 then ttlb else TTL_CHECK_NONE, protocol, 0, 0] @ replicate 8 0"

definition set_ipv4_header :: "bytes \<Rightarrow> nat \<Rightarrow> u16 \<Rightarrow> u8 \<Rightarrow> u8 \<Rightarrow> u8 \<Rightarrow> bytes run" where
  "set_ipv4_header buf p ip_bytes tosb ttlb protocol =
     store buf p (ipv4_header_fields ip_bytes tosb ttlb protocol)"

text \<open>Byte 0 holds the version and the upper half of the traffic class, byte 1 its lower half and the
  upper four bits of the flow label.\<close>

definition ipv6_header_fields :: "u16 \<Rightarrow> u8 \<Rightarrow> u32 \<Rightarrow> u8 \<Rightarrow> u8 \<Rightarrow> bytes" where
  "ipv6_header_fields ip_bytes tosb flowlabel hop_limit protocol =
     [0x60 OR drop_bit 4 tosb,
      push_bit 4 (tosb AND 0x0f) OR ucast (drop_bit 16 flowlabel AND 0xf)] @
     be16_bytes_of (ucast (flowlabel AND 0xffff)) @ be16_bytes_of (ip_bytes - 40) @
     [protocol, if hop_limit \<noteq> 0 then hop_limit else TTL_CHECK_NONE] @ replicate 32 0"

definition set_ipv6_header :: "bytes \<Rightarrow> nat \<Rightarrow> u16 \<Rightarrow> u8 \<Rightarrow> u32 \<Rightarrow> u8 \<Rightarrow> u8 \<Rightarrow> bytes run" where
  "set_ipv6_header buf p ip_bytes tosb flowlabel hop_limit protocol =
     check (40 \<le> unat ip_bytes)
       (store buf p (ipv6_header_fields ip_bytes tosb flowlabel hop_limit protocol))"

definition set_ip_header ::
  "bytes \<Rightarrow> nat \<Rightarrow> address_family \<Rightarrow> u16 \<Rightarrow> u8 \<Rightarrow> u32 \<Rightarrow> u8 \<Rightarrow> u8 \<Rightarrow> bytes run" where
  "set_ip_header buf p af ip_bytes tosb flowlabel ttlb protocol =
     (case af of
        AF_INET \<Rightarrow> set_ipv4_header buf p ip_bytes tosb ttlb protocol
      | AF_INET6 \<Rightarrow> set_ipv6_header buf p ip_bytes tosb flowlabel ttlb protocol
      | AF_UNSPEC \<Rightarrow> Die)"

text \<open>A null result of \<^verbatim>\<open>packet_append_header\<close> is dereferenced here.\<close>

definition set_packet_ip_header ::
  "packet \<Rightarrow> address_family \<Rightarrow> u16 \<Rightarrow> u8 \<Rightarrow> u32 \<Rightarrow> u8 \<Rightarrow> u8 \<Rightarrow> packet run" where
  "set_packet_ip_header packet af ip_bytes tosb flowlabel ttlb protocol =
     (case af of
        AF_INET \<Rightarrow>
          (let packet = packet\<lparr>p_ipv4 := Some 0\<rparr> in
           check (p_ipv6 packet = None)
             (case packet_append_header packet HEADER_IPV4 20 of
                None \<Rightarrow> Oob
              | Some (i, packet) \<Rightarrow>
                  rbind (set_ipv4_header (p_buffer packet) 0 ip_bytes tosb ttlb protocol) (\<lambda>buf.
                    Done ((set_total_bytes i (unat ip_bytes) packet)\<lparr>p_buffer := buf\<rparr>))))
      | AF_INET6 \<Rightarrow>
          (let packet = packet\<lparr>p_ipv6 := Some 0\<rparr> in
           check (p_ipv4 packet = None)
             (case packet_append_header packet HEADER_IPV6 40 of
                None \<Rightarrow> Oob
              | Some (i, packet) \<Rightarrow>
                  rbind (set_ipv6_header (p_buffer packet) 0 ip_bytes tosb flowlabel ttlb protocol) (\<lambda>buf.
                    Done ((set_total_bytes i (unat ip_bytes) packet)\<lparr>p_buffer := buf\<rparr>))))
      | AF_UNSPEC \<Rightarrow> Die)"

text \<open>The address of a header of the array.\<close>

definition header_at :: "packet \<Rightarrow> nat \<Rightarrow> nat run" where
  "header_at packet i = (case h_ptr (p_headers packet ! i) of None \<Rightarrow> Oob | Some p \<Rightarrow> Done p)"

text \<open>Appending an outer IP header; the error message where the result is \<^verbatim>\<open>STATUS_ERR\<close>.\<close>

definition quoted :: "string \<Rightarrow> string \<Rightarrow> string" where
  "quoted prefix s = prefix @ [CHR 0x27] @ s @ [CHR 0x27, CHR 0x0A]"

definition ipv4_header_append ::
  "(address_family \<Rightarrow> string \<Rightarrow> bytes option) \<Rightarrow> packet \<Rightarrow> string \<Rightarrow> string \<Rightarrow> u8 \<Rightarrow> u8 \<Rightarrow>
   (packet \<times> string option) run" where
  "ipv4_header_append inet_pton packet ip_src ip_dst tosb ttlb =
     (case packet_append_header packet HEADER_IPV4 20 of
        None \<Rightarrow> Done (packet, Some ''too many headers'')
      | Some (i, packet) \<Rightarrow>
          rbind (header_at packet i) (\<lambda>p.
          rbind (set_ip_header (p_buffer packet) p AF_INET 0 tosb 0 ttlb 0) (\<lambda>buf.
          case inet_pton AF_INET ip_src of
            None \<Rightarrow> Done (packet\<lparr>p_buffer := buf\<rparr>, Some (quoted ''bad IPv4 src address: '' ip_src))
          | Some src \<Rightarrow> rbind (store buf (p + 12) src) (\<lambda>buf.
          case inet_pton AF_INET ip_dst of
            None \<Rightarrow> Done (packet\<lparr>p_buffer := buf\<rparr>, Some (quoted ''bad IPv4 dst address: '' ip_dst))
          | Some dst \<Rightarrow> rbind (store buf (p + 16) dst) (\<lambda>buf.
              Done (packet\<lparr>p_buffer := buf\<rparr>, None))))))"

definition ipv6_header_append ::
  "(address_family \<Rightarrow> string \<Rightarrow> bytes option) \<Rightarrow> packet \<Rightarrow> string \<Rightarrow> string \<Rightarrow> u8 \<Rightarrow> u8 \<Rightarrow>
   (packet \<times> string option) run" where
  "ipv6_header_append inet_pton packet ip_src ip_dst tosb hop_limit =
     (case packet_append_header packet HEADER_IPV6 40 of
        None \<Rightarrow> Done (packet, Some ''too many headers'')
      | Some (i, packet) \<Rightarrow>
          rbind (header_at packet i) (\<lambda>p.
          rbind (set_ip_header (p_buffer packet) p AF_INET6 40 tosb 0 hop_limit 0) (\<lambda>buf.
          case inet_pton AF_INET6 ip_src of
            None \<Rightarrow> Done (packet\<lparr>p_buffer := buf\<rparr>, Some (quoted ''bad IPv6 src address: '' ip_src))
          | Some src \<Rightarrow> rbind (store buf (p + 8) src) (\<lambda>buf.
          case inet_pton AF_INET6 ip_dst of
            None \<Rightarrow> Done (packet\<lparr>p_buffer := buf\<rparr>, Some (quoted ''bad IPv6 dst address: '' ip_dst))
          | Some dst \<Rightarrow> rbind (store buf (p + 24) dst) (\<lambda>buf.
              Done (packet\<lparr>p_buffer := buf\<rparr>, None))))))"

text \<open>Finishing a header: the index of the header in the array, and the header inside it (\<open>None\<close> is the
  null pointer). The length is a C \<^verbatim>\<open>int\<close> that the length field truncates.\<close>

definition ipv4_header_finish :: "packet \<Rightarrow> nat \<Rightarrow> header option \<Rightarrow> packet run" where
  "ipv4_header_finish packet i next_inner =
     (case next_inner of None \<Rightarrow> Oob | Some inner \<Rightarrow>
      rbind (header_at packet i) (\<lambda>p.
      let ip_bytes = 20 + total_bytes inner in
      rbind (store (p_buffer packet) (p + 2) (be16_bytes_of (word_of_nat ip_bytes))) (\<lambda>buf.
      rbind (header_type_info (h_type inner)) (\<lambda>(_, ip_proto, _).
      rbind (store buf (p + 9) [word_of_nat ip_proto]) (\<lambda>buf.
      rbind (store buf (p + 10) [0, 0]) (\<lambda>buf.
      rbind (ld8 buf p) (\<lambda>b.
      rbind (ld_bytes buf p (unat b mod 16 * 4)) (\<lambda>hdr.
      rbind (store buf (p + 10) (le16_bytes_of (ipv4_checksum hdr))) (\<lambda>buf.
        Done ((set_total_bytes i ip_bytes packet)\<lparr>p_buffer := buf\<rparr>))))))))))"

definition ipv6_header_finish :: "packet \<Rightarrow> nat \<Rightarrow> header option \<Rightarrow> packet run" where
  "ipv6_header_finish packet i next_inner =
     (case next_inner of None \<Rightarrow> Oob | Some inner \<Rightarrow>
      rbind (header_at packet i) (\<lambda>p.
      let ip_bytes = 40 + total_bytes inner in
      check (total_bytes inner \<le> 0xffff)
      (rbind (store (p_buffer packet) (p + 4) (be16_bytes_of (word_of_nat (total_bytes inner)))) (\<lambda>buf.
       rbind (header_type_info (h_type inner)) (\<lambda>(_, ip_proto, _).
       rbind (store buf (p + 6) [word_of_nat ip_proto]) (\<lambda>buf.
         Done ((set_total_bytes i ip_bytes packet)\<lparr>p_buffer := buf\<rparr>)))))))"

subsection \<open>GRE\<close>

text \<open>The parse-time GRE header is the structure of 16 bytes: flags, protocol and the optional fields.\<close>

definition gre_header_append :: "packet \<Rightarrow> bytes \<Rightarrow> (packet \<times> string option) run" where
  "gre_header_append packet gre =
     rbind (ld8 gre 0) (\<lambda>flags. rbind (ld8 gre 1) (\<lambda>ver. rbind (gre_len flags ver) (\<lambda>len.
     case packet_append_header packet HEADER_GRE len of
       None \<Rightarrow> Done (packet, Some ''too many headers'')
     | Some (i, packet) \<Rightarrow>
         rbind (header_at packet i) (\<lambda>p.
         rbind (ld_bytes gre 0 len) (\<lambda>bs.
         rbind (store (p_buffer packet) p bs) (\<lambda>buf.
           Done (packet\<lparr>p_buffer := buf\<rparr>, None)))))))"

definition gre_header_finish :: "packet \<Rightarrow> nat \<Rightarrow> header option \<Rightarrow> packet run" where
  "gre_header_finish packet i next_inner =
     rbind (header_at packet i) (\<lambda>p.
     rbind (ld8 (p_buffer packet) p) (\<lambda>flags. rbind (ld8 (p_buffer packet) (p + 1)) (\<lambda>ver.
     rbind (gre_len flags ver) (\<lambda>len.
     case next_inner of None \<Rightarrow> Oob | Some inner \<Rightarrow>
     let gre_bytes = len + total_bytes inner in
     rbind (header_type_info (h_type inner)) (\<lambda>(_, _, eth_proto).
     rbind (store (p_buffer packet) (p + 2) (be16_bytes_of (word_of_nat eth_proto))) (\<lambda>buf.
       Done ((set_total_bytes i gre_bytes packet)\<lparr>p_buffer := buf\<rparr>)))))))"

subsection \<open>MPLS\<close>

text \<open>A label stack entry is the 32-bit field of the structure, in network byte order.\<close>

definition MPLS_LABEL_MASK :: u32 where "MPLS_LABEL_MASK = 0xfffff000"
definition MPLS_TC_MASK :: u32 where "MPLS_TC_MASK = 0x00000e00"
definition MPLS_TTL_MASK :: u32 where "MPLS_TTL_MASK = 0x000000ff"

definition mpls_entry_label :: "u32 \<Rightarrow> u32" where
  "mpls_entry_label entry = drop_bit 12 (htonl entry AND MPLS_LABEL_MASK)"

definition mpls_entry_tc :: "u32 \<Rightarrow> u8" where
  "mpls_entry_tc entry = ucast (drop_bit 9 (htonl entry AND MPLS_TC_MASK))"

definition mpls_entry_stack :: "u32 \<Rightarrow> bool" where
  "mpls_entry_stack entry \<longleftrightarrow> drop_bit 8 (htonl entry AND MPLS_STACK_MASK) \<noteq> 0"

definition mpls_entry_ttl :: "u32 \<Rightarrow> u8" where
  "mpls_entry_ttl entry = ucast (htonl entry AND MPLS_TTL_MASK)"

definition mpls_entry_set :: "u32 \<Rightarrow> u8 \<Rightarrow> bool \<Rightarrow> u8 \<Rightarrow> u32" where
  "mpls_entry_set label traffic_class is_stack_bottom ttlb =
     htonl (push_bit 12 label OR push_bit 9 (ucast traffic_class) OR
            push_bit 8 (of_bool is_stack_bottom) OR ucast ttlb)"

definition new_mpls_stack_entry :: "int \<Rightarrow> int \<Rightarrow> bool \<Rightarrow> int \<Rightarrow> string + u32" where
  "new_mpls_stack_entry label traffic_class is_stack_bottom ttlb =
     (if label < 0 \<or> 2 ^ 20 \<le> label then Inl ''MPLS label out of range for 20 bits''
      else if traffic_class < 0 \<or> 2 ^ 3 \<le> traffic_class then Inl ''MPLS traffic_class out of range for 3 bits''
      else if ttlb < 0 \<or> 2 ^ 8 \<le> ttlb then Inl ''MPLS ttl out of range for 8 bits''
      else Inr (mpls_entry_set (word_of_int label) (word_of_int traffic_class) is_stack_bottom (word_of_int ttlb)))"

text \<open>The stack is the list of the entries in use of an array of \<^verbatim>\<open>MPLS_STACK_MAX_ENTRIES\<close>.\<close>

definition MPLS_STACK_MAX_ENTRIES :: nat where "MPLS_STACK_MAX_ENTRIES = 6"

definition mpls_stack_new :: "u32 list" where "mpls_stack_new = []"

definition mpls_stack_append :: "u32 list \<Rightarrow> u32 \<Rightarrow> u32 list \<times> status" where
  "mpls_stack_append stack entry =
     (if MPLS_STACK_MAX_ENTRIES \<le> length stack then (stack, STATUS_ERR) else (stack @ [entry], STATUS_OK))"

definition le32_bytes_of :: "u32 \<Rightarrow> bytes" where
  "le32_bytes_of w = [byte_of 0 w, byte_of 1 w, byte_of 2 w, byte_of 3 w]"

definition mpls_header_append :: "packet \<Rightarrow> u32 list \<Rightarrow> (packet \<times> string option) run" where
  "mpls_header_append packet mpls_stack =
     (case packet_append_header packet HEADER_MPLS (length mpls_stack * 4) of
        None \<Rightarrow> Done (packet, Some ''too many headers'')
      | Some (i, packet) \<Rightarrow>
          rbind (header_at packet i) (\<lambda>p.
          rbind (store (p_buffer packet) p (concat (map le32_bytes_of mpls_stack))) (\<lambda>buf.
            Done (packet\<lparr>p_buffer := buf\<rparr>, None))))"

definition mpls_header_finish :: "packet \<Rightarrow> nat \<Rightarrow> header option \<Rightarrow> packet run" where
  "mpls_header_finish packet i next_inner =
     (case next_inner of None \<Rightarrow> Oob | Some inner \<Rightarrow>
        Done (set_total_bytes i (header_bytes (p_headers packet ! i) + total_bytes inner) packet))"

subsection \<open>Lemmas\<close>

lemma length_header_fields [simp]:
  "length (ipv4_header_fields n tosb ttlb proto) = 20"
  "length (ipv6_header_fields n tosb fl hop proto) = 40"
  by (simp_all add: ipv4_header_fields_def ipv6_header_fields_def)

lemma store_zeros:
  "length xs \<le> n \<Longrightarrow> store (replicate n 0) 0 xs = Done (xs @ replicate (n - length xs) 0)"
  by (simp add: store_def poke_def)

lemma store_append:
  "length p = i \<Longrightarrow> length xs \<le> n \<Longrightarrow>
   store (p @ replicate n 0) i xs = Done (p @ xs @ replicate (n - length xs) 0)"
  by (auto simp: store_def poke_def)

text \<open>The IP header and its length for an address family.\<close>

fun ip_fields :: "address_family \<Rightarrow> u16 \<Rightarrow> ip_info \<Rightarrow> nat \<Rightarrow> bytes" where
  "ip_fields AF_INET6 n info proto =
     ipv6_header_fields n (tos_value (tos info)) (flow_label info) (ttl info) (word_of_nat proto)"
| "ip_fields _ n info proto =
     ipv4_header_fields n (tos_value (tos info)) (ttl info) (word_of_nat proto)"

fun ip_hlen :: "address_family \<Rightarrow> nat" where
  "ip_hlen AF_INET6 = 40"
| "ip_hlen _ = 20"

fun ip_htype :: "address_family \<Rightarrow> header_t" where
  "ip_htype AF_INET6 = HEADER_IPV6"
| "ip_htype _ = HEADER_IPV4"

lemma length_ip_fields [simp]: "length (ip_fields af n info proto) = ip_hlen af"
  by (cases af) simp_all

lemma ip_header_min_len_eq: "af \<noteq> AF_UNSPEC \<Longrightarrow> ip_header_min_len af = Done (ip_hlen af)"
  by (cases af) simp_all

text \<open>The first header of a new packet of zeros. Only the 65536-byte packet, whose length is truncated
  to zero, fails the assertion of the IPv6 header.\<close>

definition with_ip_header :: "packet \<Rightarrow> address_family \<Rightarrow> u16 \<Rightarrow> ip_info \<Rightarrow> nat \<Rightarrow> packet" where
  "with_ip_header packet af n info proto =
     packet\<lparr>p_buffer := ip_fields af n info proto @ replicate (length (p_buffer packet) - ip_hlen af) 0,
       p_ip_bytes := ip_hlen af,
       p_ipv4 := (if af = AF_INET then Some 0 else None),
       p_ipv6 := (if af = AF_INET6 then Some 0 else None),
       p_headers := \<lparr>h_type = ip_htype af, header_bytes = ip_hlen af, total_bytes = unat n, h_ptr = Some 0\<rparr> #
         replicate 5 no_header\<rparr>"

lemma set_packet_ip_header_new:
  assumes "af \<noteq> AF_UNSPEC" "ip_hlen af \<le> n" "packet = (packet_new (replicate n 0))
      \<lparr>p_direction := dir, p_flags := fl, p_tos_chk := chk\<rparr>"
  shows "set_packet_ip_header packet af w (tos_value (tos info)) (flow_label info) (ttl info) (word_of_nat proto) =
    check (af = AF_INET6 \<longrightarrow> 40 \<le> unat w) (Done (with_ip_header packet af w info proto))"
  using assms
  by (cases af) (simp_all add: set_packet_ip_header_def packet_new_eval packet_append_header_def
      packet_header_count_def no_header_def set_ipv4_header_def set_ipv6_header_def store_zeros
      with_ip_header_def set_total_bytes_def numeral_eq_Suc check_def)

text \<open>The fields of a label stack entry.\<close>

lemma mpls_entry_set_bits:
  "bit (htonl (mpls_entry_set label tc s ttlb)) n \<longleftrightarrow> n < 32 \<and>
     (12 \<le> n \<and> bit label (n - 12) \<or> 9 \<le> n \<and> bit tc (n - 9) \<or> (n = 8 \<and> s) \<or> bit ttlb n)"
  by (auto simp: mpls_entry_set_def bit_simps)

lemma mask_bits:
  "bit MPLS_LABEL_MASK n \<longleftrightarrow> 12 \<le> n \<and> n < 32" "bit MPLS_TC_MASK n \<longleftrightarrow> 9 \<le> n \<and> n < 12"
  "bit MPLS_STACK_MASK n \<longleftrightarrow> n = 8" "bit MPLS_TTL_MASK n \<longleftrightarrow> n < 8"
proof -
  have m: "MPLS_LABEL_MASK = push_bit 12 (mask 20)" "MPLS_TC_MASK = push_bit 9 (mask 3)"
    "MPLS_STACK_MASK = push_bit 8 (mask 1)" "MPLS_TTL_MASK = mask 8"
    by (simp_all add: MPLS_LABEL_MASK_def MPLS_TC_MASK_def MPLS_STACK_MASK_def MPLS_TTL_MASK_def
        mask_numeral push_bit_eq_mult mask_eq_exp_minus_1)
  show "bit MPLS_LABEL_MASK n \<longleftrightarrow> 12 \<le> n \<and> n < 32" "bit MPLS_TC_MASK n \<longleftrightarrow> 9 \<le> n \<and> n < 12"
    "bit MPLS_STACK_MASK n \<longleftrightarrow> n = 8" "bit MPLS_TTL_MASK n \<longleftrightarrow> n < 8"
    unfolding m by (auto simp: bit_push_bit_iff bit_mask_iff simp del: mask_Suc_0 push_bit_of_1)
qed

lemma bit_small:
  assumes "uint (w :: 'a::len word) < 2 ^ k" "bit w n"
  shows "n < k"
proof -
  have "take_bit k (uint w) = uint w" using assms(1) by (simp add: take_bit_int_eq_self)
  moreover have "bit (uint w) n" using assms(2) by (simp add: bit_uint_iff bit_imp_le_length)
  ultimately show ?thesis by (metis bit_take_bit_iff)
qed

lemma mpls_entry_fields:
  assumes "uint label < 2 ^ 20" "uint tc < 2 ^ 3"
  shows "mpls_entry_label (mpls_entry_set label tc s ttlb) = label"
    "mpls_entry_tc (mpls_entry_set label tc s ttlb) = tc"
    "mpls_entry_stack (mpls_entry_set label tc s ttlb) = s"
    "mpls_entry_ttl (mpls_entry_set label tc s ttlb) = ttlb"
proof -
  note l = bit_small [OF assms(1)] and t = bit_small [OF assms(2)]
  have b: "bit ttlb n \<Longrightarrow> n < 8" for n by (drule bit_imp_le_length) simp
  show "mpls_entry_label (mpls_entry_set label tc s ttlb) = label"
    by (rule bit_word_eqI) (use l t b in \<open>fastforce simp: mpls_entry_label_def bit_drop_bit_eq bit_and_iff
      mask_bits mpls_entry_set_bits\<close>)
  show "mpls_entry_tc (mpls_entry_set label tc s ttlb) = tc"
    by (rule bit_word_eqI) (use l t b in \<open>fastforce simp: mpls_entry_tc_def bit_simps
      mask_bits mpls_entry_set_bits\<close>)
  show "mpls_entry_ttl (mpls_entry_set label tc s ttlb) = ttlb"
    by (rule bit_word_eqI) (use l t b in \<open>fastforce simp: mpls_entry_ttl_def bit_simps
      mask_bits mpls_entry_set_bits\<close>)
  have "w = 0 \<longleftrightarrow> (\<forall>n. \<not> bit w n)" for w :: u32
    by (metis bit_0_eq bit_word_eqI bot_apply bot_bool_def)
  then have "mpls_entry_stack (mpls_entry_set label tc s ttlb) \<longleftrightarrow> bit (htonl (mpls_entry_set label tc s ttlb)) 8"
    by (auto simp: mpls_entry_stack_def bit_simps mask_bits)
  also have "\<dots> \<longleftrightarrow> s" using b [of 8] by (auto simp: mpls_entry_set_bits)
  finally show "mpls_entry_stack (mpls_entry_set label tc s ttlb) = s" .
qed

text \<open>An MPLS label stack entry is made exactly when label, traffic class and TTL fit in their 20, 3 and
  8 bits, and then the accessors give the fields back.\<close>

theorem mpls_entry_roundtrip:
  "case new_mpls_stack_entry label tc s ttlb of
     Inl e \<Rightarrow> \<not> (label \<in> {0..<2^20} \<and> tc \<in> {0..<2^3} \<and> ttlb \<in> {0..<2^8})
   | Inr entry \<Rightarrow> uint (mpls_entry_label entry) = label \<and> uint (mpls_entry_tc entry) = tc \<and>
       mpls_entry_stack entry = s \<and> uint (mpls_entry_ttl entry) = ttlb"
proof -
  have u: "uint (word_of_int label :: u32) = label" if "0 \<le> label" "label < 2 ^ 20"
    using that by (simp add: uint_word_of_int)
  have v: "uint (word_of_int n :: u8) = n" if "0 \<le> n" "n < 2 ^ 8" for n
    using that by (simp add: uint_word_of_int)
  show ?thesis
    by (auto simp: new_mpls_stack_entry_def mpls_entry_fields u v)
qed

end
