(* ===== verification/PacketBuild.thy ===== *)
theory PacketBuild
  imports IpPacket
begin

section \<open>Building TCP and UDP packets\<close>

text \<open>
  The model of \<^verbatim>\<open>tcp_packet.c\<close> and \<^verbatim>\<open>udp_packet.c\<close>: the packets that a script describes. A builder returns the packet or the error message. The packet structure is zeroed and so
  is its buffer, so a header whose fields are all assigned is one store of its bytes. Lengths that the
  C code keeps in an \<^verbatim>\<open>int\<close> are natural numbers where they cannot be negative.
\<close>

unbundle bit_operations_syntax

subsection \<open>TCP\<close>

definition valid_tcp_flags :: string where
  "valid_tcp_flags = ''FSRP.EWCU''"

text \<open>The message for the first character that is not a flag, if there is one.\<close>

fun is_tcp_flags_spec_valid :: "string \<Rightarrow> string option" where
  "is_tcp_flags_spec_valid [] = None"
| "is_tcp_flags_spec_valid (c # s) =
     (if c \<notin> set valid_tcp_flags
      then Some (''Invalid TCP flag: '' @ [CHR 0x27, c, CHR 0x27])
      else is_tcp_flags_spec_valid s)"

definition is_tcp_flag_set :: "char \<Rightarrow> string \<Rightarrow> bool" where
  "is_tcp_flag_set flag flags \<longleftrightarrow> flag \<in> set flags"

text \<open>The flag bits of byte 13, from \<^verbatim>\<open>fin\<close> at bit 0 to \<^verbatim>\<open>cwr\<close> at bit 7.\<close>

definition tcp_flags_byte :: "string \<Rightarrow> u8" where
  "tcp_flags_byte flags =
     of_bool (is_tcp_flag_set (CHR ''F'') flags) OR
     push_bit 1 (of_bool (is_tcp_flag_set (CHR ''S'') flags)) OR
     push_bit 2 (of_bool (is_tcp_flag_set (CHR ''R'') flags)) OR
     push_bit 3 (of_bool (is_tcp_flag_set (CHR ''P'') flags)) OR
     push_bit 4 (of_bool (is_tcp_flag_set (CHR ''.'') flags)) OR
     push_bit 5 (of_bool (is_tcp_flag_set (CHR ''U'') flags)) OR
     push_bit 6 (of_bool (is_tcp_flag_set (CHR ''E'') flags)) OR
     push_bit 7 (of_bool (is_tcp_flag_set (CHR ''W'') flags))"

definition tcp_header_fields :: "u16 \<Rightarrow> u16 \<Rightarrow> u32 \<Rightarrow> u32 \<Rightarrow> nat \<Rightarrow> string \<Rightarrow> u16 \<Rightarrow> u16 \<Rightarrow> bytes" where
  "tcp_header_fields src_port dst_port seq ack_seq doff flags window urg_ptr =
     be16_bytes_of src_port @ be16_bytes_of dst_port @ be32_bytes_of seq @ be32_bytes_of ack_seq @
     [word_of_nat (16 * doff), tcp_flags_byte flags] @ be16_bytes_of window @ [0, 0] @
     be16_bytes_of urg_ptr"

definition tcp_option_bytes :: "tcp_options option \<Rightarrow> nat" where
  "tcp_option_bytes opts = (case opts of None \<Rightarrow> 0 | Some options \<Rightarrow> unat (opts_length options))"

text \<open>The part of \<^verbatim>\<open>new_tcp_packet\<close> after the IP header: the TCP header of a packet of \<open>ip_bytes\<close> bytes.\<close>

definition set_packet_tcp_header ::
  "packet \<Rightarrow> direction \<Rightarrow> nat \<Rightarrow> nat \<Rightarrow> u16 \<Rightarrow> u16 \<Rightarrow> string \<Rightarrow> u32 \<Rightarrow> u16 \<Rightarrow> u32 \<Rightarrow> int \<Rightarrow> u16 \<Rightarrow>
   tcp_options option \<Rightarrow> (string + packet) run" where
  "set_packet_tcp_header packet direction ip_header_bytes ip_bytes src_port dst_port flags start_sequence
     tcp_payload_bytes ack_sequence window urg_ptr opts =
     (let option_bytes = tcp_option_bytes opts;
          tcp_header_bytes = 20 + option_bytes
      in case packet_append_header packet HEADER_TCP tcp_header_bytes of
           None \<Rightarrow> Oob
         | Some (i, packet) \<Rightarrow>
             (let packet = set_total_bytes i (tcp_header_bytes + unat tcp_payload_bytes) packet
              in rbind (ip_start packet) (\<lambda>start.
              let tcp = start + ip_header_bytes;
                  packet = packet\<lparr>p_tcp := Some tcp\<rparr>
              in if window = -1 \<and> direction = DIRECTION_INBOUND
                 then Done (Inl ''window must be specified for inbound packets'')
                 else (let win = (if window = -1 then 0 else word_of_int window);
                           packet = (if window = -1
                             then packet\<lparr>p_flags := p_flags packet OR FLAG_WIN_NOCHECK\<rparr> else packet)
                 in rbind (store (p_buffer packet) tcp (tcp_header_fields src_port dst_port start_sequence
                      ack_sequence (tcp_header_bytes div 4) flags win urg_ptr)) (\<lambda>buf.
                 case opts of
                   None \<Rightarrow> Done (Inr (packet\<lparr>p_buffer := buf,
                       p_flags := p_flags packet OR FLAG_OPTIONS_NOCHECK, p_ip_bytes := ip_bytes\<rparr>))
                 | Some options \<Rightarrow>
                     rbind (if 0 < option_bytes
                            then rbind (ld_bytes (opts_data options) 0 option_bytes) (\<lambda>bs. store buf (tcp + 20) bs)
                            else Done buf)
                       (\<lambda>buf. Done (Inr (packet\<lparr>p_buffer := buf, p_ip_bytes := ip_bytes\<rparr>))))))))"

definition new_tcp_packet ::
  "address_family \<Rightarrow> direction \<Rightarrow> ip_info \<Rightarrow> u16 \<Rightarrow> u16 \<Rightarrow> string \<Rightarrow> u32 \<Rightarrow> u16 \<Rightarrow> u32 \<Rightarrow> int \<Rightarrow> u16 \<Rightarrow>
   tcp_options option \<Rightarrow> (string + packet) run" where
  "new_tcp_packet af direction ip_info src_port dst_port flags start_sequence tcp_payload_bytes
     ack_sequence window urg_ptr opts =
     rbind (ip_header_min_len af) (\<lambda>ip_header_bytes.
     let option_bytes = tcp_option_bytes opts;
         tcp_header_bytes = 20 + option_bytes;
         ip_bytes = ip_header_bytes + tcp_header_bytes + unat tcp_payload_bytes
     in if option_bytes mod 4 \<noteq> 0
        then Done (Inl (''TCP options are not padded correctly to ensure TCP header is a multiple of 4 bytes: '' @
               dec (option_bytes mod 4) @ '' excess bytes''))
        else check (tcp_header_bytes mod 4 = 0) (check (ip_header_bytes mod 4 = 0)
        (if MAX_TCP_HEADER_BYTES < tcp_header_bytes then Done (Inl ''TCP header too large'')
         else if MAX_TCP_DATAGRAM_BYTES < ip_bytes then Done (Inl ''TCP segment too large'')
         else (case is_tcp_flags_spec_valid flags of Some e \<Rightarrow> Done (Inl e) | None \<Rightarrow>
           (let packet = (packet_new (replicate ip_bytes 0))
                  \<lparr>p_direction := direction, p_flags := 0, p_tos_chk := tos_check (tos ip_info)\<rparr>
            in rbind (set_packet_ip_header packet af (word_of_nat ip_bytes) (tos_value (tos ip_info))
                 (flow_label ip_info) (ttl ip_info) (word_of_nat IPPROTO_TCP)) (\<lambda>packet.
            set_packet_tcp_header packet direction ip_header_bytes ip_bytes src_port dst_port flags
              start_sequence tcp_payload_bytes ack_sequence window urg_ptr opts))))))"

subsection \<open>UDP\<close>

definition new_udp_packet ::
  "address_family \<Rightarrow> direction \<Rightarrow> ip_info \<Rightarrow> u16 \<Rightarrow> u16 \<Rightarrow> u16 \<Rightarrow> (string + packet) run" where
  "new_udp_packet af direction ip_info udp_payload_bytes src_port dst_port =
     rbind (ip_header_min_len af) (\<lambda>ip_header_bytes.
     let udp_header_bytes = 8;
         ip_bytes = ip_header_bytes + udp_header_bytes + unat udp_payload_bytes
     in check (udp_header_bytes mod 4 = 0) (check (ip_header_bytes mod 4 = 0)
        (if MAX_UDP_DATAGRAM_BYTES < ip_bytes then Done (Inl ''UDP datagram too large'')
         else (let packet = (packet_new (replicate ip_bytes 0))
                  \<lparr>p_direction := direction, p_flags := 0, p_tos_chk := tos_check (tos ip_info)\<rparr>
            in rbind (set_packet_ip_header packet af (word_of_nat ip_bytes) (tos_value (tos ip_info))
                 (flow_label ip_info) (ttl ip_info) (word_of_nat IPPROTO_UDP)) (\<lambda>packet.
            case packet_append_header packet HEADER_UDP udp_header_bytes of
              None \<Rightarrow> Oob
            | Some (i, packet) \<Rightarrow>
              (let packet = set_total_bytes i (udp_header_bytes + unat udp_payload_bytes) packet
               in rbind (ip_start packet) (\<lambda>start.
               let udp = start + ip_header_bytes;
                   packet = packet\<lparr>p_udp := Some udp\<rparr>
               in rbind (store (p_buffer packet) udp (be16_bytes_of src_port @ be16_bytes_of dst_port @
                    be16_bytes_of (word_of_nat (udp_header_bytes + unat udp_payload_bytes)) @ [0, 0])) (\<lambda>buf.
                  Done (Inr (packet\<lparr>p_buffer := buf, p_ip_bytes := ip_bytes\<rparr>))))))))))"

subsection \<open>The packets that the builders make\<close>

text \<open>An IP header for \<open>l4\<close>, the bytes of the transport header and payload, as the first two headers of
  the packet.\<close>

definition built_packet ::
  "address_family \<Rightarrow> direction \<Rightarrow> ip_info \<Rightarrow> nat \<Rightarrow> header_t \<Rightarrow> nat \<Rightarrow> bytes \<Rightarrow> packet" where
  "built_packet af dir info proto t hbytes l4 =
     (let n = ip_hlen af + length l4 in
      (packet_new (ip_fields af (word_of_nat n) info proto @ l4))
      \<lparr>p_direction := dir, p_tos_chk := tos_check (tos info), p_ip_bytes := n,
       p_ipv4 := (if af = AF_INET then Some 0 else None),
       p_ipv6 := (if af = AF_INET6 then Some 0 else None),
       p_headers :=
         \<lparr>h_type = ip_htype af, header_bytes = ip_hlen af, total_bytes = n, h_ptr = Some 0\<rparr> #
         \<lparr>h_type = t, header_bytes = hbytes, total_bytes = length l4, h_ptr = Some (ip_hlen af)\<rparr> #
         replicate 4 no_header\<rparr>)"

text \<open>The steps that the builders share: the second header, and where the IP header starts.\<close>

lemma append_second:
  assumes "p_headers packet = first # replicate 5 no_header" "h_type first \<noteq> HEADER_NONE"
    "p_l2_header_bytes packet = 0" "p_ip_bytes packet + bytes \<le> length (p_buffer packet)"
  shows "packet_append_header packet t bytes = Some (1, packet\<lparr>p_ip_bytes := p_ip_bytes packet + bytes,
    p_headers := first # \<lparr>h_type = t, header_bytes = bytes, total_bytes = 0, h_ptr = Some (p_ip_bytes packet)\<rparr> #
      replicate 4 no_header\<rparr>)"
proof -
  have r: "replicate 5 no_header = no_header # replicate 4 no_header" by (simp add: eval_nat_numeral)
  have "packet_header_count packet = 1"
    using assms(1,2) by (simp add: packet_header_count_def r) (simp add: no_header_def)
  then show ?thesis using assms by (simp add: packet_append_header_def r)
qed

lemma append_after_ip:
  assumes "af \<noteq> AF_UNSPEC" "ip_hlen af + bytes \<le> length (p_buffer packet)" "p_l2_header_bytes packet = 0"
  shows "packet_append_header (with_ip_header packet af w info proto) t bytes =
    Some (1, (with_ip_header packet af w info proto)\<lparr>p_ip_bytes := ip_hlen af + bytes,
      p_headers := \<lparr>h_type = ip_htype af, header_bytes = ip_hlen af, total_bytes = unat w, h_ptr = Some 0\<rparr> #
        \<lparr>h_type = t, header_bytes = bytes, total_bytes = 0, h_ptr = Some (ip_hlen af)\<rparr> # replicate 4 no_header\<rparr>)"
  using assms append_second [of "with_ip_header packet af w info proto"
      "\<lparr>h_type = ip_htype af, header_bytes = ip_hlen af, total_bytes = unat w, h_ptr = Some 0\<rparr>" bytes t]
  by (cases af) (simp_all add: with_ip_header_def)

lemma ip_start_with_ip:
  "af \<noteq> AF_UNSPEC \<Longrightarrow> p_ipv4 packet = (if af = AF_INET then Some 0 else None) \<Longrightarrow>
   p_ipv6 packet = (if af = AF_INET6 then Some 0 else None) \<Longrightarrow> ip_start packet = Done 0"
  by (cases af) (simp_all add: ip_start_def)

lemma length_tcp_header_fields [simp]:
  "length (tcp_header_fields sp dp seq ack doff flags win urg) = 20"
  by (simp add: tcp_header_fields_def)

lemma ip_hlen_mod4 [simp]: "ip_hlen af mod 4 = 0"
  by (cases af) simp_all

definition tcp_options_fit :: "tcp_options option \<Rightarrow> bool" where
  "tcp_options_fit opts \<longleftrightarrow> tcp_option_bytes opts mod 4 = 0 \<and> tcp_option_bytes opts \<le> 40 \<and>
     (case opts of None \<Rightarrow> True | Some options \<Rightarrow> tcp_option_bytes opts \<le> length (opts_data options))"

definition option_bytes_of :: "tcp_options option \<Rightarrow> bytes" where
  "option_bytes_of opts = (case opts of None \<Rightarrow> []
     | Some options \<Rightarrow> take (unat (opts_length options)) (opts_data options))"

lemma length_option_bytes: "tcp_options_fit opts \<Longrightarrow> length (option_bytes_of opts) = tcp_option_bytes opts"
  by (auto simp: tcp_options_fit_def option_bytes_of_def tcp_option_bytes_def split: option.splits)

definition tcp_packet_bytes ::
  "u16 \<Rightarrow> u16 \<Rightarrow> string \<Rightarrow> u32 \<Rightarrow> u16 \<Rightarrow> u32 \<Rightarrow> int \<Rightarrow> u16 \<Rightarrow> tcp_options option \<Rightarrow> bytes" where
  "tcp_packet_bytes src_port dst_port flags seq payload ack window urg_ptr opts =
     tcp_header_fields src_port dst_port seq ack ((20 + tcp_option_bytes opts) div 4) flags
       (if window = -1 then 0 else word_of_int window) urg_ptr @
     option_bytes_of opts @ replicate (unat payload) 0"

text \<open>The common start of the builders, up to the second header.\<close>

lemma built_start:
  assumes "af \<noteq> AF_UNSPEC" "n \<le> 65535" "ip_hlen af + hb \<le> n"
    and p0: "p0 = (packet_new (replicate n 0))\<lparr>p_direction := dir, p_flags := 0, p_tos_chk := chk\<rparr>"
    and p1: "p1 = with_ip_header p0 af (word_of_nat n) info proto"
  shows "set_packet_ip_header p0 af (word_of_nat n) (tos_value (tos info)) (flow_label info) (ttl info)
      (word_of_nat proto) = Done p1"
    and "packet_append_header p1 t hb = Some (1, p1\<lparr>p_ip_bytes := ip_hlen af + hb,
      p_headers := \<lparr>h_type = ip_htype af, header_bytes = ip_hlen af, total_bytes = n, h_ptr = Some 0\<rparr> #
        \<lparr>h_type = t, header_bytes = hb, total_bytes = 0, h_ptr = Some (ip_hlen af)\<rparr> #
        replicate 4 no_header\<rparr>)"
    and "p_ipv4 packet = p_ipv4 p1 \<Longrightarrow> p_ipv6 packet = p_ipv6 p1 \<Longrightarrow> ip_start packet = Done 0"
    and "p_buffer p1 = ip_fields af (word_of_nat n) info proto @ replicate (n - ip_hlen af) 0" "p_flags p1 = 0"
proof -
  have un: "unat (word_of_nat n :: u16) = n" using assms(2) by (simp add: unat_of_nat)
  show "set_packet_ip_header p0 af (word_of_nat n) (tos_value (tos info)) (flow_label info) (ttl info)
      (word_of_nat proto) = Done p1"
    using set_packet_ip_header_new [OF assms(1) _ p0] assms(3) un by (cases af) (simp_all add: p1)
  show "packet_append_header p1 t hb = Some (1, p1\<lparr>p_ip_bytes := ip_hlen af + hb,
      p_headers := \<lparr>h_type = ip_htype af, header_bytes = ip_hlen af, total_bytes = n, h_ptr = Some 0\<rparr> #
        \<lparr>h_type = t, header_bytes = hb, total_bytes = 0, h_ptr = Some (ip_hlen af)\<rparr> #
        replicate 4 no_header\<rparr>)"
    unfolding p1 by (subst append_after_ip) (use assms(1,3) un p0 in simp_all)
  show "ip_start packet = Done 0" if "p_ipv4 packet = p_ipv4 p1" "p_ipv6 packet = p_ipv6 p1"
    using that assms(1) by (intro ip_start_with_ip) (simp_all add: p1 with_ip_header_def)
  show "p_buffer p1 = ip_fields af (word_of_nat n) info proto @ replicate (n - ip_hlen af) 0" "p_flags p1 = 0"
    by (simp_all add: p1 p0 with_ip_header_def)
qed

lemma new_tcp_packet_eq:
  assumes "af \<noteq> AF_UNSPEC" "tcp_options_fit opts" "is_tcp_flags_spec_valid flags = None"
    "ip_hlen af + 20 + tcp_option_bytes opts + unat payload \<le> 65535"
    "window \<noteq> -1 \<or> dir \<noteq> DIRECTION_INBOUND"
  shows "new_tcp_packet af dir info src_port dst_port flags seq payload ack window urg_ptr opts =
    Done (Inr ((built_packet af dir info IPPROTO_TCP HEADER_TCP (20 + tcp_option_bytes opts)
        (tcp_packet_bytes src_port dst_port flags seq payload ack window urg_ptr opts))
      \<lparr>p_tcp := Some (ip_hlen af),
       p_flags := (if window = -1 then FLAG_WIN_NOCHECK else 0) OR
         (if opts = None then FLAG_OPTIONS_NOCHECK else 0)\<rparr>))"
proof -
  define ob where "ob = tcp_option_bytes opts"
  define bs where "bs = option_bytes_of opts"
  define thl where "thl = 20 + ob"
  define n where "n = ip_hlen af + thl + unat payload"
  define win :: u16 where "win = (if window = -1 then 0 else word_of_int window)"
  define h where "h = tcp_header_fields src_port dst_port seq ack (thl div 4) flags win urg_ptr"
  define p0 where "p0 = (packet_new (replicate n 0))
    \<lparr>p_direction := dir, p_flags := 0, p_tos_chk := tos_check (tos info)\<rparr>"
  define p1 where "p1 = with_ip_header p0 af (word_of_nat n) info IPPROTO_TCP"
  define z0 z1 z2 :: bytes where "z0 = replicate (20 + (ob + unat payload)) 0"
    and "z1 = replicate (ob + unat payload) 0" and "z2 = replicate (unat payload) 0"
  let ?ip = "ip_fields af (word_of_nat n) info IPPROTO_TCP"
  have ob: "ob mod 4 = 0" "ob \<le> 40" "length bs = ob"
    using assms(2) length_option_bytes [OF assms(2)] by (simp_all add: ob_def bs_def tcp_options_fit_def)
  then have thl: "thl mod 4 = 0" "thl \<le> 60" unfolding thl_def by (presburger, simp)
  have n: "n \<le> 65535" "ip_hlen af + thl \<le> n" "ip_hlen af \<le> n" "n - ip_hlen af = 20 + (ob + unat payload)"
    using assms(4) by (simp_all add: n_def thl_def ob_def)
  note start = built_start [OF assms(1) n(1,2) p0_def p1_def]
  have p1: "p_buffer p1 = ?ip @ z0" by (simp add: start(4) n z0_def)
  have st1: "store (?ip @ z0) (ip_hlen af) h =
      Done (?ip @ h @ z1)"
    unfolding z0_def by (subst store_append) (simp_all add: h_def z1_def)
  have st2: "store (?ip @ h @ z1) (ip_hlen af + 20) bs =
      Done (?ip @ h @ bs @ z2)"
    using store_append [of "?ip @ h" "ip_hlen af + 20" bs "ob + unat payload"] ob
    by (simp add: h_def z1_def z2_def)
  have opts: "ld_bytes (opts_data options) 0 ob = Done bs" if "opts = Some options" for options
    using assms(2) that by (auto simp: ld_bytes_def tcp_options_fit_def option_bytes_of_def tcp_option_bytes_def ob_def bs_def)
  have ob0: "ob = 0 \<Longrightarrow> bs @ z2 = z1" "opts = None \<Longrightarrow> ob = 0"
    using ob(3) by (simp_all add: z1_def z2_def) (simp add: ob_def tcp_option_bytes_def)
  have "new_tcp_packet af dir info src_port dst_port flags seq payload ack window urg_ptr opts =
      set_packet_tcp_header p1 dir (ip_hlen af) n src_port dst_port flags seq payload ack window urg_ptr opts"
    using ob thl n start(1) assms(3)
    by (simp only: new_tcp_packet_def ip_header_min_len_eq [OF assms(1)] rbind.simps Let_def ob_def [symmetric]
        thl_def [symmetric] n_def [symmetric] p0_def [symmetric] check_True ip_hlen_mod4 if_False not_less
        option.case MAX_TCP_HEADER_BYTES_def MAX_TCP_DATAGRAM_BYTES_def simp_thms) simp
  also have "\<dots> = Done (Inr (p1\<lparr>p_ip_bytes := n, p_buffer := ?ip @ h @ bs @ z2,
      p_headers := \<lparr>h_type = ip_htype af, header_bytes = ip_hlen af, total_bytes = n, h_ptr = Some 0\<rparr> #
        \<lparr>h_type = HEADER_TCP, header_bytes = thl, total_bytes = thl + unat payload, h_ptr = Some (ip_hlen af)\<rparr> #
        replicate 4 no_header, p_tcp := Some (ip_hlen af),
      p_flags := (if window = -1 then FLAG_WIN_NOCHECK else 0) OR (if opts = None then FLAG_OPTIONS_NOCHECK else 0)\<rparr>))"
    unfolding set_packet_tcp_header_def Let_def ob_def [symmetric] thl_def [symmetric] start(2) option.case prod.case
      set_total_bytes_def win_def [symmetric] h_def [symmetric]
    using assms(5) ob0 
    by (cases opts; cases "ob = 0"; cases "window = -1"; simp add: start(3,5) p1 st1 st2 opts;
        rule packet.equality; simp add: start(5))
  also have "\<dots> = Done (Inr ((built_packet af dir info IPPROTO_TCP HEADER_TCP (20 + tcp_option_bytes opts)
        (tcp_packet_bytes src_port dst_port flags seq payload ack window urg_ptr opts))
      \<lparr>p_tcp := Some (ip_hlen af),
       p_flags := (if window = -1 then FLAG_WIN_NOCHECK else 0) OR
         (if opts = None then FLAG_OPTIONS_NOCHECK else 0)\<rparr>))"
    using ob(3) by (simp add: built_packet_def p1_def with_ip_header_def p0_def packet_new_def Let_def n_def thl_def ob_def
        tcp_packet_bytes_def h_def win_def bs_def z2_def algebra_simps)
  finally show ?thesis .
qed



definition udp_packet_bytes :: "u16 \<Rightarrow> u16 \<Rightarrow> u16 \<Rightarrow> bytes" where
  "udp_packet_bytes src_port dst_port payload =
     be16_bytes_of src_port @ be16_bytes_of dst_port @ be16_bytes_of (word_of_nat (8 + unat payload)) @
     [0, 0] @ replicate (unat payload) 0"

lemma new_udp_packet_eq:
  assumes "af \<noteq> AF_UNSPEC" "ip_hlen af + 8 + unat payload \<le> 65535"
  shows "new_udp_packet af dir info payload src_port dst_port =
    Done (Inr ((built_packet af dir info IPPROTO_UDP HEADER_UDP 8 (udp_packet_bytes src_port dst_port payload))
      \<lparr>p_udp := Some (ip_hlen af)\<rparr>))"
proof -
  define n where "n = ip_hlen af + 8 + unat payload"
  define h where "h = be16_bytes_of src_port @ be16_bytes_of dst_port @
    be16_bytes_of (word_of_nat (8 + unat payload)) @ [0, 0 :: u8]"
  define p0 where "p0 = (packet_new (replicate n 0))
    \<lparr>p_direction := dir, p_flags := 0, p_tos_chk := tos_check (tos info)\<rparr>"
  define p1 where "p1 = with_ip_header p0 af (word_of_nat n) info IPPROTO_UDP"
  define z0 z1 :: bytes where "z0 = replicate (8 + unat payload) 0" and "z1 = replicate (unat payload) 0"
  let ?ip = "ip_fields af (word_of_nat n) info IPPROTO_UDP"
  have n: "n \<le> 65535" "ip_hlen af + 8 \<le> n" "n - ip_hlen af = 8 + unat payload"
    using assms(2) by (simp_all add: n_def)
  note start = built_start [OF assms(1) n(1,2) p0_def p1_def]
  have p1: "p_buffer p1 = ?ip @ z0" by (simp add: start(4) n z0_def)
  have st: "store (?ip @ z0) (ip_hlen af) h = Done (?ip @ h @ z1)"
    unfolding z0_def by (subst store_append) (simp_all add: h_def z1_def)
  have "new_udp_packet af dir info payload src_port dst_port = Done (Inr (p1\<lparr>p_ip_bytes := n,
      p_buffer := ?ip @ h @ z1,
      p_headers := \<lparr>h_type = ip_htype af, header_bytes = ip_hlen af, total_bytes = n, h_ptr = Some 0\<rparr> #
        \<lparr>h_type = HEADER_UDP, header_bytes = 8, total_bytes = 8 + unat payload, h_ptr = Some (ip_hlen af)\<rparr> #
        replicate 4 no_header, p_udp := Some (ip_hlen af)\<rparr>))"
    unfolding new_udp_packet_def ip_header_min_len_eq [OF assms(1)] rbind.simps Let_def n_def [symmetric]
      p0_def [symmetric] h_def [symmetric] ip_hlen_mod4 check_True start(1) start(2) option.case prod.case
      set_total_bytes_def MAX_UDP_DATAGRAM_BYTES_def
    using n by (simp add: start(3) p1 st)
  also have "\<dots> = Done (Inr ((built_packet af dir info IPPROTO_UDP HEADER_UDP 8 (udp_packet_bytes src_port dst_port payload))
      \<lparr>p_udp := Some (ip_hlen af)\<rparr>))"
    by (simp add: built_packet_def p1_def with_ip_header_def p0_def packet_new_def Let_def n_def
        udp_packet_bytes_def h_def z1_def algebra_simps)
  finally show ?thesis .
qed

text \<open>The size check of the builders lets one size too many pass: a packet of 65536 bytes has the 16-bit
  length 0, which fails the assertion of the IPv6 header, and which an IPv4 header carries.\<close>

theorem new_udp_packet_65536:
  "new_udp_packet AF_INET6 dir info 65488 src_port dst_port = Die \<and>
   (\<exists>packet. new_udp_packet AF_INET dir info 65508 src_port dst_port = Done (Inr packet) \<and>
      p_ip_bytes packet = 65536 \<and> ld_be16 (p_buffer packet) 2 = Done 0 \<and>
      total_bytes (p_headers packet ! 0) = 0)"
proof -
  define n :: nat where "n = 65536"
  define p0 where "p0 = (packet_new (replicate n 0))
    \<lparr>p_direction := dir, p_flags := 0, p_tos_chk := tos_check (tos info)\<rparr>"
  have w: "(word_of_nat n :: u16) = 0" by (simp add: n_def)
  have n6: "(40::nat) + 8 + unat (65488 :: u16) = n" and n4: "(20::nat) + 8 + unat (65508 :: u16) = n"
    by (simp_all add: n_def)
  have n: "40 \<le> n" "28 \<le> n" "\<not> 65536 < n" by (simp_all add: n_def)
  have set_ip: "set_packet_ip_header p0 af (word_of_nat n) (tos_value (tos info)) (flow_label info) (ttl info)
      (word_of_nat IPPROTO_UDP) =
      (if af = AF_INET6 then Die else Done (with_ip_header p0 af (word_of_nat n) info IPPROTO_UDP))"
    if "af \<noteq> AF_UNSPEC" for af
    using set_packet_ip_header_new [OF that _ p0_def] n w by (cases af) simp_all
  have six: "new_udp_packet AF_INET6 dir info 65488 src_port dst_port = Die"
    unfolding new_udp_packet_def ip_header_min_len.simps rbind.simps Let_def n6 p0_def [symmetric]
      MAX_UDP_DATAGRAM_BYTES_def
    by (simp add: set_ip n)
  define p1 where "p1 = with_ip_header p0 AF_INET (word_of_nat n) info IPPROTO_UDP"
  have p1: "p_buffer p1 = ip_fields AF_INET (word_of_nat n) info IPPROTO_UDP @ replicate (n - 20) 0"
    "p_ipv4 p1 = Some 0" "p_headers p1 ! 0 = \<lparr>h_type = HEADER_IPV4, header_bytes = 20, total_bytes = 0, h_ptr = Some 0\<rparr>"
    by (simp_all add: p1_def with_ip_header_def p0_def w)
  have app: "packet_append_header p1 HEADER_UDP 8 = Some (1, p1\<lparr>p_ip_bytes := 20 + 8,
      p_headers := \<lparr>h_type = HEADER_IPV4, header_bytes = 20, total_bytes = 0, h_ptr = Some 0\<rparr> #
        \<lparr>h_type = HEADER_UDP, header_bytes = 8, total_bytes = 0, h_ptr = Some 20\<rparr> # replicate 4 no_header\<rparr>)"
    unfolding p1_def by (subst append_after_ip) (use n w in \<open>simp_all add: p0_def\<close>)
  have st: "\<exists>buf. store (p_buffer p1) 20 h = Done buf \<and> take 20 buf = ip_fields AF_INET 0 info IPPROTO_UDP \<and> 20 \<le> length buf"
    if "length h = 8" for h
    unfolding p1 w using that n by (intro exI) (auto intro!: store_append)
  obtain buf where buf: "store (p_buffer p1) 20 (be16_bytes_of src_port @ be16_bytes_of dst_port @
      be16_bytes_of (word_of_nat (8 + unat (65508 :: u16))) @ [0, 0]) = Done buf"
    "take 20 buf = ip_fields AF_INET 0 info IPPROTO_UDP" "20 \<le> length buf"
    using st by force
  have "buf ! 2 = 0 \<and> buf ! 3 = 0"
    using arg_cong [OF buf(2), of "\<lambda>xs. (xs ! 2, xs ! 3)"]
    by (simp add: ipv4_header_fields_def be16_bytes_of_def byte_of_def)
  moreover have "new_udp_packet AF_INET dir info 65508 src_port dst_port =
      Done (Inr (p1\<lparr>p_ip_bytes := n, p_buffer := buf,
        p_headers := \<lparr>h_type = HEADER_IPV4, header_bytes = 20, total_bytes = 0, h_ptr = Some 0\<rparr> #
          \<lparr>h_type = HEADER_UDP, header_bytes = 8, total_bytes = 8 + unat (65508 :: u16), h_ptr = Some 20\<rparr> #
          replicate 4 no_header, p_udp := Some 20\<rparr>))"
    unfolding new_udp_packet_def ip_header_min_len.simps rbind.simps Let_def n4 p0_def [symmetric]
      MAX_UDP_DATAGRAM_BYTES_def set_ip [of AF_INET, simplified] p1_def [symmetric] app option.case prod.case
      set_total_bytes_def
    using n buf by (simp add: ip_start_def p1)
  ultimately show ?thesis using six buf(3) by (auto simp: n_def ld_be16_def be16_def le16_def)
qed

end
