(* ===== verification/IcmpPacket.thy ===== *)
theory IcmpPacket
  imports PacketBuild
begin

section \<open>Building ICMP packets\<close>

text \<open>
  The model of \<^verbatim>\<open>icmp_packet.c\<close>: the tables of ICMP types and codes, reading a type and a code of a
  script, and the ICMP packet, which for a TCP or UDP test echoes the start of a datagram. A null
  pointer in a table row ends the table in C; here the table is the list of the rows before it. An
  \<^verbatim>\<open>int\<close> that may be negative is an integer; the conversions of \<^verbatim>\<open>payload_bytes\<close> are written out.
\<close>

unbundle bit_operations_syntax

subsection \<open>ICMP types and codes\<close>

text \<open>A row of a code table, and of a type table: the byte, the name, and the codes of the type if it
  has any.\<close>

type_synonym icmp_code_info = "nat \<times> string"
type_synonym icmp_type_info = "nat \<times> string \<times> icmp_code_info list option"

definition icmpv4_unreachable_codes :: "icmp_code_info list" where
  "icmpv4_unreachable_codes = [
     (0, ''net_unreachable''), (1, ''host_unreachable''), (2, ''protocol_unreachable''),
     (3, ''port_unreachable''), (4, ''frag_needed''), (5, ''source_route_failed''),
     (6, ''net_unknown''), (7, ''host_unknown''), (8, ''source_host_isolated''),
     (9, ''net_prohibited''), (10, ''host_prohibited''), (11, ''net_unreachable_for_tos''),
     (12, ''host_unreachable_for_tos''), (13, ''packet_filtered''), (14, ''precedence_violation''),
     (15, ''precedence_cutoff'')]"

definition icmpv4_types :: "icmp_type_info list" where
  "icmpv4_types = [
     (0, ''echo_reply'', None), (3, ''unreachable'', Some icmpv4_unreachable_codes),
     (4, ''source_quench'', None), (5, ''redirect'', None), (8, ''echo_request'', None),
     (11, ''time_exceeded'', None), (12, ''parameter_problem'', None), (13, ''timestamp_request'', None),
     (14, ''timestamp_reply'', None), (15, ''information_request'', None),
     (16, ''information_reply'', None), (17, ''address_mask_request'', None),
     (18, ''address_mask_reply'', None)]"

definition icmpv6_unreachable_codes :: "icmp_code_info list" where
  "icmpv6_unreachable_codes = [
     (0, ''net_unreachable''), (0, ''no_route''), (1, ''admin_prohibited''), (2, ''not_neighbour''),
     (3, ''address_unreachable''), (4, ''port_unreachable'')]"

definition icmpv6_time_exceed_codes :: "icmp_code_info list" where
  "icmpv6_time_exceed_codes = [(0, ''exceeded_hop_limit''), (1, ''exceeded_frag_time'')]"

definition icmpv6_paramprob_codes :: "icmp_code_info list" where
  "icmpv6_paramprob_codes = [(0, ''header_field''), (1, ''unknown_next_header''), (2, ''unknown_option'')]"

definition icmpv6_types :: "icmp_type_info list" where
  "icmpv6_types = [
     (1, ''unreachable'', Some icmpv6_unreachable_codes), (2, ''packet_too_big'', None),
     (3, ''time_exceeded'', Some icmpv6_time_exceed_codes),
     (4, ''parameter_problem'', Some icmpv6_paramprob_codes), (128, ''echo_request'', None),
     (129, ''echo_reply'', None)]"

text \<open>\<^verbatim>\<open>sscanf(s, "prefix%d", &x)\<close>: the number, if one was converted.\<close>

definition is_space :: "char \<Rightarrow> bool" where
  "is_space c \<longleftrightarrow> of_char c \<in> {9, 10, 11, 12, 13, 32 :: nat}"

definition is_digit :: "char \<Rightarrow> bool" where
  "is_digit c \<longleftrightarrow> 48 \<le> (of_char c :: nat) \<and> (of_char c :: nat) \<le> 57"

definition digits_value :: "string \<Rightarrow> int" where
  "digits_value ds = foldl (\<lambda>n c. 10 * n + int (of_char c - (48::nat))) 0 ds"

definition scan_digits :: "string \<Rightarrow> int option" where
  "scan_digits s = (let ds = takeWhile is_digit s in if ds = [] then None else Some (digits_value ds))"

definition sscanf_d :: "string \<Rightarrow> string \<Rightarrow> int option" where
  "sscanf_d prefix s =
     (if take (length prefix) s \<noteq> prefix then None
      else (case dropWhile is_space (drop (length prefix) s) of
              [] \<Rightarrow> None
            | c # r \<Rightarrow> if c = CHR ''-'' then map_option uminus (scan_digits r)
                       else if c = CHR ''+'' then scan_digits r
                       else scan_digits (c # r)))"

text \<open>The loops over the tables have no \<^verbatim>\<open>break\<close>: the last row with the name counts.\<close>

definition icmp_type_lookup :: "icmp_type_info list \<Rightarrow> string \<Rightarrow> int \<times> icmp_code_info list option" where
  "icmp_type_lookup icmp_types type_string =
     foldl (\<lambda>(t, code_table) (byte, name, codes).
         if type_string = name then (int byte, codes) else (t, code_table)) (-1, None) icmp_types"

definition icmp_code_lookup :: "icmp_code_info list \<Rightarrow> string \<Rightarrow> int" where
  "icmp_code_lookup code_table code_string =
     foldl (\<lambda>code (byte, name). if code_string = name then int byte else code) (-1) code_table"

definition parse_icmp_type_and_code ::
  "address_family \<Rightarrow> string \<Rightarrow> string option \<Rightarrow> (string + (int \<times> int)) run" where
  "parse_icmp_type_and_code af type_string code_string =
     check (af \<noteq> AF_UNSPEC)
     (let icmp_types = (if af = AF_INET then icmpv4_types else icmpv6_types);
          (t, code_table) = (case sscanf_d ''type_'' type_string of
             Some t \<Rightarrow> (t, None)
           | None \<Rightarrow> icmp_type_lookup icmp_types type_string)
      in if t < 0 \<or> 255 < t then Done (Inl (''bad ICMP type '' @ type_string))
         else (case code_string of
             None \<Rightarrow> Done (Inr (t, 0))
           | Some cs \<Rightarrow>
               (let code = (case sscanf_d ''code_'' cs of
                      Some c \<Rightarrow> c
                    | None \<Rightarrow> (case code_table of None \<Rightarrow> -1 | Some tbl \<Rightarrow> icmp_code_lookup tbl cs))
                in if code < 0 \<or> 255 < code then Done (Inl (''bad ICMP code '' @ cs))
                   else Done (Inr (t, code)))))"

subsection \<open>ICMP packets\<close>

definition dec_int :: "int \<Rightarrow> string" where
  "dec_int n = (if n < 0 then CHR ''-'' # dec (nat (- n)) else dec (nat n))"

fun icmp_protocol :: "address_family \<Rightarrow> nat run" where
  "icmp_protocol AF_INET = Done IPPROTO_ICMP"
| "icmp_protocol AF_INET6 = Done IPPROTO_ICMPV6"
| "icmp_protocol AF_UNSPEC = Die"

fun icmp_header_len :: "address_family \<Rightarrow> nat run" where
  "icmp_header_len AF_INET = Done 8"
| "icmp_header_len AF_INET6 = Done 8"
| "icmp_header_len AF_UNSPEC = Die"

definition ICMP_DEST_UNREACH :: int where "ICMP_DEST_UNREACH = 3"
definition ICMP_FRAG_NEEDED :: int where "ICMP_FRAG_NEEDED = 4"
definition ICMPV6_PKT_TOOBIG :: int where "ICMPV6_PKT_TOOBIG = 2"

text \<open>The buffer with the header filled in, or the error.\<close>

definition set_icmpv4_header :: "bytes \<Rightarrow> nat \<Rightarrow> int \<Rightarrow> int \<Rightarrow> int \<Rightarrow> u16 \<Rightarrow> (string + bytes) run" where
  "set_icmpv4_header buf p t code mtu echo_id =
     rbind (store buf p [word_of_int t, word_of_int code, 0, 0]) (\<lambda>buf.
     if 0 \<le> mtu \<and> (t \<noteq> ICMP_DEST_UNREACH \<or> code \<noteq> ICMP_FRAG_NEEDED)
     then Done (Inl ''ICMPv4 MTU is only valid for unreachable-frag_needed'')
     else if 0 \<le> mtu \<and> 65535 < mtu then Done (Inl ''ICMPv4 MTU out of 16-bit range'')
     else rbind (if 0 \<le> mtu then store buf (p + 6) (be16_bytes_of (word_of_int mtu)) else Done buf) (\<lambda>buf.
          rbind (if 0 < echo_id then store buf (p + 4) (be16_bytes_of echo_id) else Done buf) (\<lambda>buf.
          Done (Inr buf))))"

definition set_icmpv6_header :: "bytes \<Rightarrow> nat \<Rightarrow> int \<Rightarrow> int \<Rightarrow> int \<Rightarrow> u16 \<Rightarrow> (string + bytes) run" where
  "set_icmpv6_header buf p t code mtu echo_id =
     rbind (store buf p [word_of_int t, word_of_int code, 0, 0]) (\<lambda>buf.
     if 0 \<le> mtu \<and> (t \<noteq> ICMPV6_PKT_TOOBIG \<or> code \<noteq> 0)
     then Done (Inl ''ICMPv6 MTU is only valid for packet_too_big-0'')
     else if 0 \<le> mtu \<and> 4294967295 < mtu then Done (Inl ''ICMPv6 MTU out of 32-bit range'')
     else rbind (if 0 \<le> mtu then store buf (p + 4) (be32_bytes_of (word_of_int mtu)) else Done buf) (\<lambda>buf.
          rbind (if 0 < echo_id then store buf (p + 4) (be16_bytes_of echo_id) else Done buf) (\<lambda>buf.
          Done (Inr buf))))"

definition set_packet_icmp_header ::
  "packet \<Rightarrow> nat \<Rightarrow> address_family \<Rightarrow> nat \<Rightarrow> int \<Rightarrow> int \<Rightarrow> int \<Rightarrow> u16 \<Rightarrow> (string + packet) run" where
  "set_packet_icmp_header packet icmp af icmp_bytes t code mtu echo_id =
     (case af of
        AF_INET \<Rightarrow>
          (let packet = packet\<lparr>p_icmpv4 := Some icmp\<rparr> in
           check (p_icmpv6 packet = None)
             (case packet_append_header packet HEADER_ICMPV4 8 of
                None \<Rightarrow> Oob
              | Some (i, packet) \<Rightarrow>
                  (let packet = set_total_bytes i icmp_bytes packet in
                   rbind (set_icmpv4_header (p_buffer packet) icmp t code mtu echo_id) (\<lambda>r.
                     Done (map_sum id (\<lambda>buf. packet\<lparr>p_buffer := buf\<rparr>) r)))))
      | AF_INET6 \<Rightarrow>
          (let packet = packet\<lparr>p_icmpv6 := Some icmp\<rparr> in
           check (p_icmpv4 packet = None)
             (case packet_append_header packet HEADER_ICMPV6 8 of
                None \<Rightarrow> Oob
              | Some (i, packet) \<Rightarrow>
                  (let packet = set_total_bytes i icmp_bytes packet in
                   rbind (set_icmpv6_header (p_buffer packet) icmp t code mtu echo_id) (\<lambda>r.
                     Done (map_sum id (\<lambda>buf. packet\<lparr>p_buffer := buf\<rparr>) r)))))
      | AF_UNSPEC \<Rightarrow> Die)"

text \<open>The part of \<^verbatim>\<open>new_icmp_packet\<close> that writes the echoed headers.\<close>

definition set_echoed_headers ::
  "packet \<Rightarrow> address_family \<Rightarrow> nat \<Rightarrow> u32 \<Rightarrow> u32 \<Rightarrow> packet run" where
  "set_echoed_headers packet af protocol tcp_start_sequence payload_bytes =
     rbind (ip_header_min_len af) (\<lambda>ip_fixed_bytes.
     rbind (packet_echoed_ip_header packet) (\<lambda>echoed_ip.
     rbind (layer4_header_len protocol) (\<lambda>l4.
     let echoed_ip_bytes = word_of_nat (ip_fixed_bytes + l4 + unat payload_bytes) in
     rbind (set_ip_header (p_buffer packet) echoed_ip af echoed_ip_bytes 0 0 0 (word_of_nat protocol)) (\<lambda>buf.
     let packet = packet\<lparr>p_buffer := buf\<rparr> in
     rbind (if protocol = IPPROTO_TCP
            then rbind (packet_echoed_tcp_seq packet) (\<lambda>seq.
                 store (p_buffer packet) seq (be32_bytes_of tcp_start_sequence))
            else Done (p_buffer packet)) (\<lambda>buf.
     Done (packet\<lparr>p_buffer := buf, p_echoed_header := True\<rparr>))))))"

definition new_icmp_packet ::
  "address_family \<Rightarrow> direction \<Rightarrow> string \<Rightarrow> string option \<Rightarrow> nat \<Rightarrow> u32 \<Rightarrow> u32 \<Rightarrow> ip_info \<Rightarrow> int \<Rightarrow> int \<Rightarrow>
   (string + packet) run" where
  "new_icmp_packet af direction type_string code_string protocol tcp_start_sequence payload_bytes
     ip_info mtu echo_id =
     rbind (ip_header_min_len af) (\<lambda>ip_header_bytes.
     rbind (icmp_header_len af) (\<lambda>icmp_len.
     let echoed = (protocol = IPPROTO_TCP \<or> protocol = IPPROTO_UDP);
         echoed_bytes = (if echoed then ip_header_bytes + ICMP_ECHO_BYTES else 0);
         icmp_bytes = (if echoed then int (icmp_len + echoed_bytes)
                       else if protocol = IPPROTO_RAW then sint payload_bytes else 0);
         ip_bytes = (if echoed then int ip_header_bytes + icmp_bytes
                     else if protocol = IPPROTO_RAW then sint (word_of_nat ip_header_bytes + payload_bytes)
                     else 0)
     in if echo_id < 0 \<or> 65535 < echo_id
        then Done (Inl ''invalid echo_id, must be between 0 and 65535'')
        else check (ip_header_bytes mod 4 = 0)
        (if icmp_bytes < int icmp_len
         then Done (Inl (''icmp_bytes '' @ dec_int icmp_bytes @ '' smaller than icmp header length '' @ dec icmp_len))
         else rbind (parse_icmp_type_and_code af type_string code_string) (\<lambda>r. case r of
           Inl e \<Rightarrow> Done (Inl e)
         | Inr (t, code) \<Rightarrow>
           check (0 \<le> t \<and> t \<le> 255) (check (0 \<le> code \<and> code \<le> 255)
           (if ip_bytes < 0 then Oob
            else (let packet = (packet_new (replicate (nat ip_bytes) 0))
                  \<lparr>p_direction := direction, p_flags := 0, p_tos_chk := tos_check (tos ip_info)\<rparr>
            in rbind (icmp_protocol af) (\<lambda>icmp_proto.
            rbind (set_packet_ip_header packet af (word_of_int ip_bytes) (tos_value (tos ip_info))
                 (flow_label ip_info) (ttl ip_info) (word_of_nat icmp_proto)) (\<lambda>packet.
            rbind (ip_start packet) (\<lambda>start.
            rbind (set_packet_icmp_header packet (start + ip_header_bytes) af (nat icmp_bytes) t code mtu
                 (word_of_int echo_id)) (\<lambda>r. case r of
              Inl e \<Rightarrow> Done (Inl e)
            | Inr packet \<Rightarrow>
                rbind (if echoed_bytes \<noteq> 0
                       then set_echoed_headers packet af protocol tcp_start_sequence payload_bytes
                       else Done (packet\<lparr>p_echoed_header := False\<rparr>)) (\<lambda>packet.
                Done (Inr (packet\<lparr>p_ip_bytes := nat ip_bytes\<rparr>))))))))))))))"

subsection \<open>Reading types and codes\<close>

lemma dec_digits:
  "dec n \<noteq> []" "\<forall>c \<in> set (dec n). is_digit c" "digits_value (dec n) = int n"
proof -
  have "dec n \<noteq> [] \<and> (\<forall>c \<in> set (dec n). is_digit c) \<and> digits_value (dec n) = int n"
  proof (induction n rule: dec.induct)
    case (1 n)
    have d: "is_digit (digit_char k) \<and> of_char (digit_char k) = 48 + k" if "k < 10" for k
      using that by (simp add: digit_char_def is_digit_def of_char_of take_bit_eq_mod)
    have m: "n mod 10 < 10" by simp
    show ?case
    proof (cases "n < 10")
      case True
      then show ?thesis using d [of n] by (simp add: dec.simps digits_value_def)
    next
      case False
      have "10 * int (n div 10) + int (n mod 10) = int n"
        by (metis mult_div_mod_eq of_nat_add of_nat_mult of_nat_numeral)
      with False show ?thesis using 1 d [OF m] by (simp add: dec.simps [of n] digits_value_def)
    qed
  qed
  then show "dec n \<noteq> []" "\<forall>c \<in> set (dec n). is_digit c" "digits_value (dec n) = int n" by auto
qed

lemma scan_digits_dec [simp]: "scan_digits (dec n) = Some (int n)"
  using dec_digits [of n] by (simp add: scan_digits_def takeWhile_eq_all_conv [THEN iffD2])

lemma sscanf_d_dec [simp]: "sscanf_d prefix (prefix @ dec n) = Some (int n)"
proof -
  obtain c r where cr: "dec n = c # r" using dec_digits(1) by (cases "dec n") auto
  then have "is_digit c" using dec_digits(2) [of n] by simp
  then have "\<not> is_space c" "c \<noteq> CHR ''-''" "c \<noteq> CHR ''+''"
    by (auto simp: is_digit_def is_space_def)
  then have "dropWhile is_space (dec n) = c # r" unfolding cr by simp
  then show ?thesis
    using \<open>c \<noteq> CHR ''-''\<close> \<open>c \<noteq> CHR ''+''\<close> by (simp add: sscanf_d_def) (simp add: cr [symmetric])
qed

text \<open>The numeric notation of the script: type and code below 256 are read back, larger ones are
  refused.\<close>

theorem parse_icmp_numeric:
  assumes "af \<noteq> AF_UNSPEC"
  shows "parse_icmp_type_and_code af (''type_'' @ dec t) (Some (''code_'' @ dec c)) =
    Done (if 255 < t then Inl (''bad ICMP type '' @ ''type_'' @ dec t)
          else if 255 < c then Inl (''bad ICMP code '' @ ''code_'' @ dec c)
          else Inr (int t, int c))"
proof -
  have "sscanf_d ''type_'' (''type_'' @ dec t) = Some (int t)" "sscanf_d ''code_'' (''code_'' @ dec c) = Some (int c)"
    by (rule sscanf_d_dec)+
  then show ?thesis using assms unfolding parse_icmp_type_and_code_def by (simp del: append.simps)
qed

theorem parse_icmp_numeric_witness:
  "parse_icmp_type_and_code AF_INET (''type_'' @ dec 8) (Some (''code_'' @ dec 0)) = Done (Inr (8, 0))"
  using parse_icmp_numeric [of AF_INET 8 0] by simp

text \<open>Every name of the tables is read as its byte, with the code 0 when the script gives none, and every
  code name of a type as its code.\<close>

lemma parse_icmp_names:
  "map (\<lambda>(b, name, _). parse_icmp_type_and_code AF_INET name None) icmpv4_types =
     map (\<lambda>(b, _). Done (Inr (int b, 0))) icmpv4_types \<and>
   map (\<lambda>(b, name, _). parse_icmp_type_and_code AF_INET6 name None) icmpv6_types =
     map (\<lambda>(b, _). Done (Inr (int b, 0))) icmpv6_types \<and>
   map (\<lambda>(c, name). parse_icmp_type_and_code AF_INET ''unreachable'' (Some name)) icmpv4_unreachable_codes =
     map (\<lambda>(c, _). Done (Inr (3, int c))) icmpv4_unreachable_codes \<and>
   map (\<lambda>(c, name). parse_icmp_type_and_code AF_INET6 ''unreachable'' (Some name)) icmpv6_unreachable_codes =
     map (\<lambda>(c, _). Done (Inr (1, int c))) icmpv6_unreachable_codes \<and>
   map (\<lambda>(c, name). parse_icmp_type_and_code AF_INET6 ''time_exceeded'' (Some name)) icmpv6_time_exceed_codes =
     map (\<lambda>(c, _). Done (Inr (3, int c))) icmpv6_time_exceed_codes \<and>
   map (\<lambda>(c, name). parse_icmp_type_and_code AF_INET6 ''parameter_problem'' (Some name)) icmpv6_paramprob_codes =
     map (\<lambda>(c, _). Done (Inr (4, int c))) icmpv6_paramprob_codes"
  by code_simp

subsection \<open>The packet with echoed headers\<close>

definition no_info :: ip_info where
  "no_info = \<lparr>tos = \<lparr>tos_check = TOS_CHECK_NONE, tos_value = 0\<rparr>, flow_label = 0, ttl = 0\<rparr>"

lemma set_ip_header_no_info:
  assumes "af \<noteq> AF_UNSPEC" "ip_hlen af \<le> unat w"
  shows "set_ip_header buf p af w 0 0 0 (word_of_nat proto) = store buf p (ip_fields af w no_info proto)"
  using assms by (cases af) (simp_all add: set_ip_header_def set_ipv4_header_def set_ipv6_header_def no_info_def)

fun icmp_htype :: "address_family \<Rightarrow> header_t" where
  "icmp_htype AF_INET6 = HEADER_ICMPV6"
| "icmp_htype _ = HEADER_ICMPV4"

fun icmp_proto_of :: "address_family \<Rightarrow> nat" where
  "icmp_proto_of AF_INET6 = IPPROTO_ICMPV6"
| "icmp_proto_of _ = IPPROTO_ICMP"

text \<open>The header without an MTU.\<close>

definition icmp_fields :: "int \<Rightarrow> int \<Rightarrow> u16 \<Rightarrow> bytes" where
  "icmp_fields t code echo_id = [word_of_int t, word_of_int code, 0, 0] @ be16_bytes_of echo_id @ [0, 0]"

lemma set_icmp_header_zeros:
  assumes "mtu < 0" "length ip = p" "8 \<le> m"
  shows "set_icmpv4_header (ip @ replicate m 0) p t code mtu echo_id =
      Done (Inr (ip @ icmp_fields t code echo_id @ replicate (m - 8) 0))"
    "set_icmpv6_header (ip @ replicate m 0) p t code mtu echo_id =
      Done (Inr (ip @ icmp_fields t code echo_id @ replicate (m - 8) 0))"
proof -
  let ?h = "[word_of_int t, word_of_int code, 0, 0] :: bytes"
  define k j where "k = m - 4" and "j = m - 8"
  have m: "m = 4 + k" "k = 4 + j" "k - 2 = 2 + j" using assms(3) by (simp_all add: k_def j_def)
  have s1: "store (ip @ replicate m 0) p ?h = Done (ip @ ?h @ replicate k 0)"
    using store_append [of ip p ?h m] assms(2) m by simp
  have s2: "store (ip @ ?h @ replicate k 0) (p + 4) (be16_bytes_of echo_id) =
      Done (ip @ ?h @ be16_bytes_of echo_id @ replicate (k - 2) 0)"
    using store_append [of "ip @ ?h" "p + 4" "be16_bytes_of echo_id" k] assms(2) m by simp
  have z: "replicate k (0 :: u8) = [0, 0, 0, 0] @ replicate j 0" "replicate (k - 2) (0 :: u8) = [0, 0] @ replicate j 0"
    unfolding m(3) by (simp_all add: m(2) eval_nat_numeral)
  have id0: "\<not> 0 < echo_id \<Longrightarrow> be16_bytes_of echo_id = [0, 0]"
    by (simp add: be16_bytes_of_def byte_of_def word_gt_0)
  show "set_icmpv4_header (ip @ replicate m 0) p t code mtu echo_id =
      Done (Inr (ip @ icmp_fields t code echo_id @ replicate (m - 8) 0))"
    "set_icmpv6_header (ip @ replicate m 0) p t code mtu echo_id =
      Done (Inr (ip @ icmp_fields t code echo_id @ replicate (m - 8) 0))"
    unfolding set_icmpv4_header_def set_icmpv6_header_def s1 j_def [symmetric]
    using assms(1) id0 s2 unfolding z by (cases "0 < echo_id"; simp add: icmp_fields_def)+
qed

text \<open>The echoed part: IP header, ports and the TCP sequence number.\<close>

definition echoed_bytes_of :: "address_family \<Rightarrow> nat \<Rightarrow> u32 \<Rightarrow> u32 \<Rightarrow> bytes" where
  "echoed_bytes_of af proto seq payload =
     ip_fields af (word_of_nat (ip_hlen af + (if proto = IPPROTO_TCP then 20 else 8) + unat payload)) no_info proto @
     [0, 0, 0, 0] @ (if proto = IPPROTO_TCP then be32_bytes_of seq else [0, 0, 0, 0])"

lemma nth_proto:
  "af \<noteq> AF_UNSPEC \<Longrightarrow> (ip @ icmp @ ip_fields af w info proto @ r) !
     (length ip + length icmp + (if af = AF_INET then 9 else 6)) = word_of_nat proto"
  by (cases af) (simp_all add: nth_append ipv4_header_fields_def ipv6_header_fields_def be16_bytes_of_def)

lemma set_echoed_headers_eq:
  assumes af: "af \<noteq> AF_UNSPEC" and proto: "proto = IPPROTO_TCP \<or> proto = IPPROTO_UDP"
    and fit: "ip_hlen af + (if proto = IPPROTO_TCP then 20 else 8) + unat payload \<le> 65535"
    and buf: "p_buffer packet = ip @ icmp @ replicate (ip_hlen af + 8) 0" "length ip = ip_hlen af" "length icmp = 8"
    and p: "p_icmpv4 packet = (if af = AF_INET then Some (ip_hlen af) else None)"
      "p_icmpv6 packet = (if af = AF_INET6 then Some (ip_hlen af) else None)"
  shows "set_echoed_headers packet af proto seq payload =
    Done (packet\<lparr>p_buffer := ip @ icmp @ echoed_bytes_of af proto seq payload, p_echoed_header := True\<rparr>)"
proof -
  define l4 :: nat where "l4 = (if proto = IPPROTO_TCP then 20 else 8)"
  define w :: u16 where "w = word_of_nat (ip_hlen af + l4 + unat payload)"
  define e where "e = ip_fields af w no_info proto"
  have len: "length e = ip_hlen af" by (simp add: e_def)
  have uw: "unat w = ip_hlen af + l4 + unat payload" using fit by (simp only: w_def l4_def unat_of_nat) simp
  have l4: "layer4_header_len proto = Done l4"
    using proto by (auto simp: layer4_header_len_def l4_def IPPROTO_TCP_def IPPROTO_UDP_def)
  have echoed_ip: "packet_echoed_ip_header packet = Done (ip_hlen af + 8)"
    using af p by (cases af) (simp_all add: packet_echoed_ip_header_def)
  have s1: "set_ip_header (p_buffer packet) (ip_hlen af + 8) af w 0 0 0 (word_of_nat proto) =
      Done (ip @ icmp @ e @ replicate 8 0)"
    using set_ip_header_no_info [OF af, of w] uw store_append [of "ip @ icmp" "ip_hlen af + 8" e "ip_hlen af + 8"] buf
    by (simp add: e_def)
  let ?p = "packet\<lparr>p_buffer := ip @ icmp @ e @ replicate 8 0\<rparr>"
  have "ld8 (p_buffer ?p) (ip_hlen af + 8 + (if af = AF_INET then 9 else 6)) = Done (word_of_nat proto)"
    using nth_proto [OF af, of ip icmp w no_info proto "replicate 8 0"] buf af len
    by (cases af) (simp_all add: e_def ld8_def)
  then have ep: "packet_echoed_ip_protocol ?p = Done (word_of_nat proto)"
    using af p by (cases af) (simp_all add: packet_echoed_ip_protocol_def)
  have seq: "packet_echoed_tcp_seq ?p = Done (ip_hlen af + 8 + ip_hlen af + 4)" if "proto = IPPROTO_TCP"
    using that af p ep unfolding packet_echoed_tcp_seq_def packet_echoed_tcp_header_def
    by (cases af) (simp_all add: packet_echoed_layer4_header_def packet_echoed_ip_header_def
        packet_echoed_ip_header_len_def IPPROTO_TCP_def ICMP_ECHO_BYTES_def)
  have z8: "replicate 8 0 = [0, 0, 0, 0] @ replicate 4 (0 :: u8)" by (simp add: eval_nat_numeral)
  have s2: "store (p_buffer ?p) (ip_hlen af + 8 + ip_hlen af + 4) (be32_bytes_of seq) =
      Done (ip @ icmp @ e @ [0, 0, 0, 0] @ be32_bytes_of seq)"
    using store_append [of "ip @ icmp @ e @ [0, 0, 0, 0]" "ip_hlen af + 8 + ip_hlen af + 4" "be32_bytes_of seq" 4] buf len
    by (simp add: z8)
  have result: "echoed_bytes_of af proto seq payload =
      e @ [0, 0, 0, 0] @ (if proto = IPPROTO_TCP then be32_bytes_of seq else [0, 0, 0, 0])"
    by (simp only: echoed_bytes_of_def e_def w_def l4_def)
  show ?thesis
    unfolding set_echoed_headers_def ip_header_min_len_eq [OF af] rbind.simps echoed_ip l4 Let_def w_def [symmetric] s1
    using proto seq s2 unfolding result
    by (auto simp: IPPROTO_TCP_def IPPROTO_UDP_def z8 eval_nat_numeral)
qed

text \<open>The packet as built: the two headers of the packet and, as payload of the ICMP header, the echo.\<close>

definition icmp_packet ::
  "address_family \<Rightarrow> direction \<Rightarrow> ip_info \<Rightarrow> int \<Rightarrow> int \<Rightarrow> u16 \<Rightarrow> bytes \<Rightarrow> packet" where
  "icmp_packet af dir info t code echo_id payload =
     (built_packet af dir info (icmp_proto_of af) (icmp_htype af) 8 (icmp_fields t code echo_id @ payload))
     \<lparr>p_icmpv4 := (if af = AF_INET then Some (ip_hlen af) else None),
      p_icmpv6 := (if af = AF_INET6 then Some (ip_hlen af) else None)\<rparr>"

lemma set_packet_icmp_header_eq:
  assumes af: "af \<noteq> AF_UNSPEC" and n: "n \<le> 65535" "ip_hlen af + 8 \<le> n" "m = n - ip_hlen af" and mtu: "mtu < 0"
    and p0: "p0 = (packet_new (replicate n 0))\<lparr>p_direction := dir, p_flags := 0, p_tos_chk := tos_check (tos info)\<rparr>"
    and p1: "p1 = with_ip_header p0 af (word_of_nat n) info (icmp_proto_of af)"
  shows "\<exists>p2. set_packet_icmp_header p1 (ip_hlen af) af m t code mtu echo_id = Done (Inr p2) \<and>
    p2\<lparr>p_ip_bytes := n\<rparr> = icmp_packet af dir info t code echo_id (replicate (m - 8) 0) \<and>
    p_buffer p2 = ip_fields af (word_of_nat n) info (icmp_proto_of af) @ icmp_fields t code echo_id @ replicate (m - 8) 0"
proof -
  note start = built_start [OF af n(1,2) p0 p1]
  let ?ip = "ip_fields af (word_of_nat n) info (icmp_proto_of af)"
  have len: "length (icmp_fields t code echo_id) = 8" by (simp add: icmp_fields_def)
  have set_hdr: "set_icmpv4_header (?ip @ replicate m 0) (ip_hlen af) t code mtu echo_id =
      Done (Inr (?ip @ icmp_fields t code echo_id @ replicate (m - 8) 0))"
    "set_icmpv6_header (?ip @ replicate m 0) (ip_hlen af) t code mtu echo_id =
      Done (Inr (?ip @ icmp_fields t code echo_id @ replicate (m - 8) 0))"
    by (rule set_icmp_header_zeros; use mtu n in simp)+
  have icmp_none: "p_icmpv4 p1 = None" "p_icmpv6 p1 = None" "p_ip_bytes p1 = ip_hlen af" "p_l2_header_bytes p1 = 0"
    by (simp_all add: p1 p0 with_ip_header_def packet_new_def)
  have un: "unat (word_of_nat n :: u16) = n" using n(1) by (simp add: unat_of_nat)
  let ?hs = "\<lambda>ht. \<lparr>h_type = ip_htype af, header_bytes = ip_hlen af, total_bytes = n, h_ptr = Some 0\<rparr> #
        \<lparr>h_type = ht, header_bytes = 8, total_bytes = 0, h_ptr = Some (ip_hlen af)\<rparr> # replicate 4 no_header"
  have app: "packet_append_header (p1\<lparr>p_icmpv4 := a\<rparr>) ht 8 =
      Some (1, p1\<lparr>p_icmpv4 := a, p_ip_bytes := ip_hlen af + 8, p_headers := ?hs ht\<rparr>)"
    "packet_append_header (p1\<lparr>p_icmpv6 := a\<rparr>) ht 8 =
      Some (1, p1\<lparr>p_icmpv6 := a, p_ip_bytes := ip_hlen af + 8, p_headers := ?hs ht\<rparr>)" for ht a
    by (subst append_second [where first = "\<lparr>h_type = ip_htype af, header_bytes = ip_hlen af, total_bytes = n, h_ptr = Some 0\<rparr>"];
        use n(2) un af in \<open>cases af; simp add: p1 p0 with_ip_header_def\<close>)+
  have buf: "p_buffer p1 = ?ip @ replicate m 0" by (simp add: start(4) n)
  have ln: "ip_hlen af + length (icmp_fields t code echo_id @ replicate (m - 8) 0) = n"
    using len n by simp
  have l4: "length (icmp_fields t code echo_id @ replicate (m - 8) 0) = m" using len n by simp
  have fin: "p1\<lparr>p_icmpv4 := (if af = AF_INET then Some (ip_hlen af) else None),
      p_icmpv6 := (if af = AF_INET6 then Some (ip_hlen af) else None), p_ip_bytes := n,
      p_headers := \<lparr>h_type = ip_htype af, header_bytes = ip_hlen af, total_bytes = n, h_ptr = Some 0\<rparr> #
        \<lparr>h_type = icmp_htype af, header_bytes = 8, total_bytes = m, h_ptr = Some (ip_hlen af)\<rparr> # replicate 4 no_header,
      p_buffer := ?ip @ icmp_fields t code echo_id @ replicate (m - 8) 0\<rparr> =
      icmp_packet af dir info t code echo_id (replicate (m - 8) 0)"
    unfolding icmp_packet_def built_packet_def Let_def ln unfolding l4
    by (simp add: p1 p0 with_ip_header_def packet_new_def)
  show ?thesis
  proof (cases af)
    case AF_INET
    show ?thesis
      using set_hdr buf icmp_none app(1) fin [symmetric] unfolding AF_INET
      by (simp add: set_packet_icmp_header_def Let_def set_total_bytes_def)
  next
    case AF_INET6
    show ?thesis
      using set_hdr buf icmp_none app(2) fin [symmetric] unfolding AF_INET6
      by (simp add: set_packet_icmp_header_def Let_def set_total_bytes_def)
  next
    case AF_UNSPEC then show ?thesis using af by simp
  qed
qed

text \<open>The ICMP packet of a TCP or UDP test: an IP header, the ICMP header with type, code and echo
  identifier, and as its payload the IP header and the first 8 bytes of the datagram that it answers,
  which hold the TCP sequence number; as long as the length of that datagram fits in 16 bits.\<close>

theorem new_icmp_packet_echo:
  assumes af: "af \<noteq> AF_UNSPEC" and proto: "proto = IPPROTO_TCP \<or> proto = IPPROTO_UDP"
    and fit: "ip_hlen af + (if proto = IPPROTO_TCP then 20 else 8) + unat payload_bytes \<le> 65535"
    and types: "parse_icmp_type_and_code af type_string code_string = Done (Inr (t, code))"
    and range: "0 \<le> t" "t \<le> 255" "0 \<le> code" "code \<le> 255" and mtu: "mtu < 0" and id: "echo_id \<in> {0..65535}"
  shows "new_icmp_packet af dir type_string code_string proto seq payload_bytes info mtu echo_id =
    Done (Inr ((icmp_packet af dir info t code (word_of_int echo_id) (echoed_bytes_of af proto seq payload_bytes))
      \<lparr>p_echoed_header := True\<rparr>))"
proof -
  define n where "n = ip_hlen af + 8 + (ip_hlen af + 8)"
  define m where "m = 8 + (ip_hlen af + 8)"
  define p0 where "p0 = (packet_new (replicate n 0))
    \<lparr>p_direction := dir, p_flags := 0, p_tos_chk := tos_check (tos info)\<rparr>"
  define p1 where "p1 = with_ip_header p0 af (word_of_nat n) info (icmp_proto_of af)"
  have n: "n \<le> 65535" "ip_hlen af + 8 \<le> n" "m = n - ip_hlen af" "m - 8 = ip_hlen af + 8"
    by (cases af; simp add: n_def m_def)+
  note start = built_start [OF af n(1,2) p0_def p1_def]
  obtain p2 where p2: "set_packet_icmp_header p1 (ip_hlen af) af m t code mtu (word_of_int echo_id) = Done (Inr p2)"
    "p2\<lparr>p_ip_bytes := n\<rparr> = icmp_packet af dir info t code (word_of_int echo_id) (replicate (m - 8) 0)"
    "p_buffer p2 = ip_fields af (word_of_nat n) info (icmp_proto_of af) @
      icmp_fields t code (word_of_int echo_id) @ replicate (m - 8) 0"
    using set_packet_icmp_header_eq [OF af n(1-3) mtu p0_def p1_def] by blast
  let ?b = "ip_fields af (word_of_nat n) info (icmp_proto_of af) @ icmp_fields t code (word_of_int echo_id) @
    echoed_bytes_of af proto seq payload_bytes"
  have ptrs: "p_icmpv4 p2 = (if af = AF_INET then Some (ip_hlen af) else None)"
    "p_icmpv6 p2 = (if af = AF_INET6 then Some (ip_hlen af) else None)"
    using arg_cong [OF p2(2), of p_icmpv4] arg_cong [OF p2(2), of p_icmpv6] by (simp_all add: icmp_packet_def)
  have echo: "set_echoed_headers p2 af proto seq payload_bytes = Done (p2\<lparr>p_buffer := ?b, p_echoed_header := True\<rparr>)"
    by (rule set_echoed_headers_eq [OF af proto fit]) (use p2(3) ptrs n in \<open>simp_all add: icmp_fields_def\<close>)
  have proto_eq: "icmp_protocol af = Done (icmp_proto_of af)" "icmp_header_len af = Done 8"
    using af by (cases af; simp)+
  have ip_start: "ip_start p1 = Done 0" by (rule start(3)) simp_all
  have len: "length (echoed_bytes_of af proto seq payload_bytes) = length (replicate (m - 8) (0 :: u8))"
    by (simp add: echoed_bytes_of_def n(4))
  have "new_icmp_packet af dir type_string code_string proto seq payload_bytes info mtu echo_id =
      Done (Inr (p2\<lparr>p_buffer := ?b, p_echoed_header := True, p_ip_bytes := n\<rparr>))"
  proof -
    have e: "(proto = IPPROTO_TCP \<or> proto = IPPROTO_UDP) = True" using proto by simp
    have i: "int (ip_hlen af) + int m = int n" "nat (int m) = m" "int 8 \<le> int m" "nat (int n) = n" "\<not> int n < 0" "\<not> m < 8"
      by (simp_all add: n_def m_def)
    have w: "(word_of_int (int n) :: u16) = word_of_nat n" by simp
    show ?thesis
      unfolding new_icmp_packet_def ip_header_min_len_eq [OF af] proto_eq rbind.simps Let_def e if_True
        ICMP_ECHO_BYTES_def m_def [symmetric] i types
      using id range
      by (simp add: i w p0_def [symmetric] start(1) ip_start p2(1) echo)
  qed
  also have "p2\<lparr>p_buffer := ?b, p_echoed_header := True, p_ip_bytes := n\<rparr> =
      (p2\<lparr>p_ip_bytes := n\<rparr>)\<lparr>p_buffer := ?b, p_echoed_header := True\<rparr>" by simp
  also have "\<dots> = (icmp_packet af dir info t code (word_of_int echo_id) (echoed_bytes_of af proto seq payload_bytes))
      \<lparr>p_echoed_header := True\<rparr>"
    unfolding p2(2) icmp_packet_def built_packet_def Let_def length_append len
    by (simp add: packet_new_def n_def n(4) icmp_fields_def algebra_simps)
  finally show ?thesis .
qed

theorem new_icmp_packet_echo_witness:
  "new_icmp_packet AF_INET DIRECTION_INBOUND ''unreachable'' (Some ''port_unreachable'') IPPROTO_TCP 7 0 no_info (-1) 0 =
    Done (Inr ((icmp_packet AF_INET DIRECTION_INBOUND no_info 3 3 (word_of_int 0)
      (echoed_bytes_of AF_INET IPPROTO_TCP 7 0))\<lparr>p_echoed_header := True\<rparr>))"
proof (rule new_icmp_packet_echo)
  show "parse_icmp_type_and_code AF_INET ''unreachable'' (Some ''port_unreachable'') = Done (Inr (3, 3))"
    by code_simp
qed simp_all

end
