(* ===== verification/PacketChecksum.thy ===== *)
theory PacketChecksum
  imports IcmpPacket
begin

section \<open>Filling in checksums\<close>

text \<open>
  The model of \<^verbatim>\<open>packet_checksum.c\<close>: the IPv4 header checksum and the TCP, UDP or ICMP checksum of a
  packet. A checksum is computed over the segment with a zero field and stored as the 16-bit value in
  host order, which is how the C code assigns it.
\<close>

unbundle bit_operations_syntax

text \<open>Zeroing the checksum field at \<open>field\<close>, computing the sum of the \<open>len\<close> bytes at \<open>p\<close>, storing it.\<close>

definition fill_checksum :: "bytes \<Rightarrow> nat \<Rightarrow> nat \<Rightarrow> nat \<Rightarrow> (bytes \<Rightarrow> u16) \<Rightarrow> bytes run" where
  "fill_checksum buf p len field sum_of =
     rbind (store buf field [0, 0]) (\<lambda>buf.
     rbind (ld_bytes buf p len) (\<lambda>seg.
     store buf field (le16_bytes_of (sum_of seg))))"

definition checksum_ipv4_packet :: "packet \<Rightarrow> packet run" where
  "checksum_ipv4_packet packet =
     (case p_ipv4 packet of None \<Rightarrow> Oob | Some ipv4 \<Rightarrow>
      rbind (ld8 (p_buffer packet) ipv4) (\<lambda>b0.
      let hlen = unat b0 mod 16 * 4 in
      rbind (fill_checksum (p_buffer packet) ipv4 hlen (ipv4 + 10) ipv4_checksum) (\<lambda>buf.
      rbind (ld_be16 buf (ipv4 + 2)) (\<lambda>tot_len.
      check (unat tot_len \<le> p_ip_bytes packet)
      (let l4_bytes = unat tot_len - hlen in
       check (hlen < unat tot_len)
       (rbind (ld_bytes buf (ipv4 + 12) 4) (\<lambda>src. rbind (ld_bytes buf (ipv4 + 16) 4) (\<lambda>dst.
        rbind (case p_tcp packet of
            Some tcp \<Rightarrow> fill_checksum buf tcp l4_bytes (tcp + 16)
              (tcp_udp_v4_checksum src dst (word_of_nat IPPROTO_TCP))
          | None \<Rightarrow> (case p_udp packet of
            Some udp \<Rightarrow> fill_checksum buf udp l4_bytes (udp + 6)
              (tcp_udp_v4_checksum src dst (word_of_nat IPPROTO_UDP))
          | None \<Rightarrow> (case p_icmpv4 packet of
            Some icmpv4 \<Rightarrow> fill_checksum buf icmpv4 l4_bytes (icmpv4 + 2) ipv4_checksum
          | None \<Rightarrow> Die))) (\<lambda>buf.
        Done (packet\<lparr>p_buffer := buf\<rparr>))))))))))"

definition checksum_ipv6_packet :: "packet \<Rightarrow> packet run" where
  "checksum_ipv6_packet packet =
     (case p_ipv6 packet of None \<Rightarrow> Oob | Some ipv6 \<Rightarrow>
      let buf = p_buffer packet in
      rbind (ld_be16 buf (ipv6 + 4)) (\<lambda>payload_len.
      check (40 + unat payload_len \<le> p_ip_bytes packet)
      (let l4_bytes = unat payload_len in
       check (0 < l4_bytes)
       (rbind (ld_bytes buf (ipv6 + 8) 16) (\<lambda>src. rbind (ld_bytes buf (ipv6 + 24) 16) (\<lambda>dst.
        rbind (case p_tcp packet of
            Some tcp \<Rightarrow> fill_checksum buf tcp l4_bytes (tcp + 16)
              (tcp_udp_v6_checksum src dst (word_of_nat IPPROTO_TCP))
          | None \<Rightarrow> (case p_udp packet of
            Some udp \<Rightarrow> fill_checksum buf udp l4_bytes (udp + 6)
              (tcp_udp_v6_checksum src dst (word_of_nat IPPROTO_UDP))
          | None \<Rightarrow> (case p_icmpv6 packet of
            Some icmpv6 \<Rightarrow> fill_checksum buf icmpv6 l4_bytes (icmpv6 + 2)
              (tcp_udp_v6_checksum src dst (word_of_nat IPPROTO_ICMPV6))
          | None \<Rightarrow> Die))) (\<lambda>buf.
        Done (packet\<lparr>p_buffer := buf\<rparr>))))))))"

definition checksum_packet :: "packet \<Rightarrow> packet run" where
  "checksum_packet packet =
     (case packet_address_family packet of
        AF_INET \<Rightarrow> checksum_ipv4_packet packet
      | AF_INET6 \<Rightarrow> checksum_ipv6_packet packet
      | AF_UNSPEC \<Rightarrow> Die)"

subsection \<open>What a filled checksum field gives\<close>

text \<open>The bytes of a segment of the buffer.\<close>

definition segment :: "bytes \<Rightarrow> nat \<Rightarrow> nat \<Rightarrow> bytes" where
  "segment buf p n = take n (drop p buf)"

lemma ld_bytes_segment: "p + n \<le> length bs \<Longrightarrow> ld_bytes bs p n = Done (segment bs p n)"
  by (simp add: ld_bytes_def segment_def)

lemma length_segment [simp]: "p + n \<le> length bs \<Longrightarrow> length (segment bs p n) = n"
  by (simp add: segment_def)

lemma nth_segment: "p + n \<le> length bs \<Longrightarrow> i < n \<Longrightarrow> segment bs p n ! i = bs ! (p + i)"
  by (simp add: segment_def)

lemma segment_eqI:
  assumes "p + n \<le> length bs" "p + n \<le> length cs" "\<And>i. p \<le> i \<Longrightarrow> i < p + n \<Longrightarrow> bs ! i = cs ! i"
  shows "segment bs p n = segment cs p n"
  by (rule nth_equalityI) (use assms in \<open>simp_all add: nth_segment\<close>)

lemma segment_split:
  assumes "p + n \<le> length bs" "p \<le> f" "f + 2 \<le> p + n"
  shows "segment bs p n = segment bs p (f - p) @ segment bs f 2 @ segment bs (f + 2) (p + n - f - 2)"
  by (rule nth_equalityI)
    (use assms in \<open>auto simp: nth_segment nth_append intro!: arg_cong [where f = "(!) bs"]\<close>)

text \<open>The segment with its field at offset \<open>f - p\<close> replaced.\<close>

lemma segment_poke:
  assumes "p + n \<le> length bs" "p \<le> f" "f + 2 \<le> p + n" "length xs = 2"
  shows "segment (poke bs f xs) p n = segment bs p (f - p) @ xs @ segment bs (f + 2) (p + n - f - 2)"
proof -
  have l: "length (poke bs f xs) = length bs" using assms by simp
  have "segment (poke bs f xs) p n = segment (poke bs f xs) p (f - p) @ segment (poke bs f xs) f 2 @
      segment (poke bs f xs) (f + 2) (p + n - f - 2)"
    by (rule segment_split) (use assms l in simp_all)
  moreover have "segment (poke bs f xs) f 2 = xs"
    by (rule nth_equalityI) (use assms l in \<open>simp_all add: nth_segment nth_poke\<close>)
  moreover have "segment (poke bs f xs) p (f - p) = segment bs p (f - p)"
    by (rule segment_eqI) (use assms l in \<open>auto simp: nth_poke\<close>)
  moreover have "segment (poke bs f xs) (f + 2) (p + n - f - 2) = segment bs (f + 2) (p + n - f - 2)"
    by (rule segment_eqI) (use assms l in \<open>auto simp: nth_poke\<close>)
  ultimately show ?thesis by simp
qed

lemma poke_poke: "length xs = length ys \<Longrightarrow> f + length xs \<le> length bs \<Longrightarrow> poke (poke bs f xs) f ys = poke bs f ys"
  by (rule nth_equalityI) (auto simp: nth_poke)

lemma fill_checksum_eq:
  assumes "p + n \<le> length buf" "p \<le> f" "f + 2 \<le> p + n"
  shows "fill_checksum buf p n f sum_of =
    Done (poke buf f (le16_bytes_of (sum_of (segment (poke buf f [0, 0]) p n))))"
  using assms by (simp add: fill_checksum_def store_def ld_bytes_segment poke_poke)

text \<open>A filled segment verifies, for a sum that starts at the pseudo-header.\<close>

lemma fill_checksum_sum_0:
  assumes n: "p + n \<le> length buf" "p \<le> f" "f + 2 \<le> p + n" "even (f - p)"
    and s: "unat s + 2 ^ 32 * n < 2 ^ 64"
    and fill: "fill_checksum buf p n f (\<lambda>seg. ip_checksum_fold (ip_checksum_partial seg (s :: u64))) = Done buf'"
  shows "ip_checksum_fold (ip_checksum_partial (segment buf' p n) s) = 0"
    and "length buf' = length buf" "\<forall>i < length buf. i < f \<or> f + 2 \<le> i \<longrightarrow> buf' ! i = buf ! i"
proof -
  let ?a = "segment buf p (f - p)" and ?r = "segment buf (f + 2) (p + n - f - 2)"
  define c where "c = ip_checksum_fold (ip_checksum_partial (?a @ [0, 0] @ ?r) s)"
  have l: "length ?a = f - p" "length ?r = p + n - f - 2" using n by simp_all
  have "segment (poke buf f [0, 0]) p n = ?a @ [0, 0] @ ?r"
    using segment_poke [OF n(1-3), of "[0, 0]"] by simp
  then have b': "buf' = poke buf f (le16_bytes_of c)"
    using fill fill_checksum_eq [OF n(1-3)] by (simp add: c_def)
  then have "segment buf' p n = ?a @ le16_bytes_of c @ ?r"
    using segment_poke [OF n(1-3), of "le16_bytes_of c"] by simp
  then show "ip_checksum_fold (ip_checksum_partial (segment buf' p n) s) = 0"
    using fill_checksum_verifies [of ?a s ?r c] n s l c_def by simp
  show "length buf' = length buf" "\<forall>i < length buf. i < f \<or> f + 2 \<le> i \<longrightarrow> buf' ! i = buf ! i"
    using b' n by (auto simp: nth_poke)
qed

lemma fill_verifies:
  assumes n: "p + n \<le> length buf" "p \<le> f" "f + 2 \<le> p + n" "even (f - p)"
    and s: "unat s + 2 ^ 32 * n < 2 ^ 64"
    and sum_of: "\<And>seg. length seg = n \<Longrightarrow> sum_of seg = ip_checksum_fold (ip_checksum_partial seg (s :: u64))"
  obtains buf' where "fill_checksum buf p n f sum_of = Done buf'" "sum_of (segment buf' p n) = 0"
    "length buf' = length buf" "\<forall>i < length buf. i \<noteq> f \<and> i \<noteq> f + 1 \<longrightarrow> buf' ! i = buf ! i"
proof -
  let ?g = "\<lambda>seg. ip_checksum_fold (ip_checksum_partial seg s)"
  obtain buf' where b: "fill_checksum buf p n f sum_of = Done buf'"
    using fill_checksum_eq [OF n(1-3)] by blast
  have "segment (poke buf f [0, 0]) p n = segment (poke buf f [0, 0]) p n" ..
  moreover have "length (segment (poke buf f [0, 0]) p n) = n" using n by simp
  ultimately have "fill_checksum buf p n f ?g = Done buf'"
    using b sum_of by (simp add: fill_checksum_eq [OF n(1-3)])
  note r = fill_checksum_sum_0 [OF n s this]
  show ?thesis
  proof (rule that [OF b])
    show "sum_of (segment buf' p n) = 0" using r n by (simp add: sum_of)
    show "length buf' = length buf" by (rule r(2))
    show "\<forall>i < length buf. i \<noteq> f \<and> i \<noteq> f + 1 \<longrightarrow> buf' ! i = buf ! i"
      using r(3) by (metis One_nat_def Suc_leI add.commute add_2_eq_Suc le_neq_implies_less linorder_not_less not_less_eq plus_1_eq_Suc)
  qed
qed

text \<open>Where the checksum of the transport header is, and what it sums.\<close>

definition l4_field :: "packet \<Rightarrow> (nat \<times> nat) option" where
  "l4_field packet =
     (case p_tcp packet of Some p \<Rightarrow> Some (p, 16) | None \<Rightarrow>
      (case p_udp packet of Some p \<Rightarrow> Some (p, 6) | None \<Rightarrow>
       map_option (\<lambda>p. (p, 2)) (if p_ipv4 packet \<noteq> None then p_icmpv4 packet else p_icmpv6 packet)))"

definition l4_sum :: "packet \<Rightarrow> bytes \<Rightarrow> bytes \<Rightarrow> bytes \<Rightarrow> u16" where
  "l4_sum packet src dst seg =
     (let proto = word_of_nat (if p_tcp packet \<noteq> None then IPPROTO_TCP
        else if p_udp packet \<noteq> None then IPPROTO_UDP else IPPROTO_ICMPV6)
      in if p_ipv4 packet \<noteq> None
         then (if p_tcp packet = None \<and> p_udp packet = None then ipv4_checksum seg
               else tcp_udp_v4_checksum src dst proto seg)
         else tcp_udp_v6_checksum src dst proto seg)"

lemma checksum_start:
  assumes "length src \<le> 16" "length dst \<le> 16"
  shows "\<exists>s. unat s < 2 ^ 40 \<and> (\<forall>seg. length seg = n \<longrightarrow>
    l4_sum packet src dst seg = ip_checksum_fold (ip_checksum_partial seg s))"
proof -
  let ?proto = "word_of_nat (if p_tcp packet \<noteq> None then IPPROTO_TCP
        else if p_udp packet \<noteq> None then IPPROTO_UDP else IPPROTO_ICMPV6)"
  define s where "s = (if p_ipv4 packet \<noteq> None
    then (if p_tcp packet = None \<and> p_udp packet = None then 0
          else tcp_udp_v4_header_checksum_partial src dst ?proto (word_of_nat n))
    else tcp_udp_v6_header_checksum_partial src dst ?proto (word_of_nat n))"
  have "unat (ip_checksum_partial hdr 0) < 2 ^ 40" if "length hdr \<le> 40" for hdr
    using ip_checksum_partial_le [of 0 hdr] that by simp
  then have "unat s < 2 ^ 40"
    unfolding s_def tcp_udp_v4_header_checksum_partial_def tcp_udp_v6_header_checksum_partial_def
    using assms by simp
  moreover have "\<forall>seg. length seg = n \<longrightarrow> l4_sum packet src dst seg = ip_checksum_fold (ip_checksum_partial seg s)"
    by (auto simp: l4_sum_def s_def ipv4_checksum_def tcp_udp_v4_checksum_def tcp_udp_v6_checksum_def)
  ultimately show ?thesis by blast
qed

lemma l4_sum_cases:
  "p_ipv4 packet = Some ip \<Longrightarrow> p_tcp packet = Some p \<Longrightarrow>
     l4_sum packet src dst = tcp_udp_v4_checksum src dst (word_of_nat IPPROTO_TCP)"
  "p_ipv4 packet = Some ip \<Longrightarrow> p_tcp packet = None \<Longrightarrow> p_udp packet = Some p \<Longrightarrow>
     l4_sum packet src dst = tcp_udp_v4_checksum src dst (word_of_nat IPPROTO_UDP)"
  "p_ipv4 packet = Some ip \<Longrightarrow> p_tcp packet = None \<Longrightarrow> p_udp packet = None \<Longrightarrow>
     l4_sum packet src dst = ipv4_checksum"
  "p_ipv4 packet = None \<Longrightarrow> p_tcp packet = Some p \<Longrightarrow>
     l4_sum packet src dst = tcp_udp_v6_checksum src dst (word_of_nat IPPROTO_TCP)"
  "p_ipv4 packet = None \<Longrightarrow> p_tcp packet = None \<Longrightarrow> p_udp packet = Some p \<Longrightarrow>
     l4_sum packet src dst = tcp_udp_v6_checksum src dst (word_of_nat IPPROTO_UDP)"
  "p_ipv4 packet = None \<Longrightarrow> p_tcp packet = None \<Longrightarrow> p_udp packet = None \<Longrightarrow>
     l4_sum packet src dst = tcp_udp_v6_checksum src dst (word_of_nat IPPROTO_ICMPV6)"
  by (simp_all add: fun_eq_iff l4_sum_def)

lemma checksum_ipv4_ok:
  assumes p: "p_ipv4 packet = Some ip" "l4_field packet = Some (ip + hlen, off)"
    and hlen: "hlen = unat (p_buffer packet ! ip) mod 16 * 4" "20 \<le> hlen"
    and tot: "tot = unat (be16 (p_buffer packet ! (ip + 2)) (p_buffer packet ! (ip + 3)))"
      "hlen + off + 2 \<le> tot" "tot \<le> p_ip_bytes packet" "ip + tot \<le> length (p_buffer packet)"
  shows "\<exists>buf'. checksum_packet packet = Done (packet\<lparr>p_buffer := buf'\<rparr>) \<and>
    length buf' = length (p_buffer packet) \<and>
    ipv4_checksum (segment buf' ip hlen) = 0 \<and>
    l4_sum packet (segment buf' (ip + 12) 4) (segment buf' (ip + 16) 4) (segment buf' (ip + hlen) (tot - hlen)) = 0 \<and>
    (\<forall>i < length buf'. i \<notin> {ip + 10, ip + 11, ip + hlen + off, ip + hlen + off + 1} \<longrightarrow> buf' ! i = p_buffer packet ! i)"
proof -
  let ?b = "p_buffer packet"
  have off: "2 \<le> off" "even off" "off \<le> 16"
    using p(2) by (auto simp: l4_field_def split: option.splits if_splits)
  have tot_lt: "tot < 65536" using tot(1) by (simp only: u16_lt)
  have "unat (p_buffer packet ! ip) mod 16 < 16" by simp
  then have hb: "hlen \<le> 60" using hlen(1) by linarith
  obtain b1 where b1: "fill_checksum ?b ip hlen (ip + 10) ipv4_checksum = Done b1"
    "ipv4_checksum (segment b1 ip hlen) = 0" "length b1 = length ?b"
    "\<forall>i < length ?b. i \<noteq> ip + 10 \<and> i \<noteq> ip + 10 + 1 \<longrightarrow> b1 ! i = ?b ! i"
    by (rule fill_verifies [of ip hlen ?b "ip + 10" 0 ipv4_checksum])
      (use hlen tot hb in \<open>simp_all add: ipv4_checksum_def\<close>)
  define src dst where "src = segment b1 (ip + 12) 4" and "dst = segment b1 (ip + 16) 4"
  have sd: "length src = 4" "length dst = 4" using hlen tot b1(3) by (simp_all add: src_def dst_def)
  obtain s where s: "unat (s :: u64) < 2 ^ 40" "\<And>seg. length seg = tot - hlen \<Longrightarrow>
      l4_sum packet src dst seg = ip_checksum_fold (ip_checksum_partial seg s)"
    using checksum_start [of src dst "tot - hlen" packet] sd by auto
  obtain b2 where b2: "fill_checksum b1 (ip + hlen) (tot - hlen) (ip + hlen + off) (l4_sum packet src dst) = Done b2"
    "l4_sum packet src dst (segment b2 (ip + hlen) (tot - hlen)) = 0" "length b2 = length b1"
    "\<forall>i < length b1. i \<noteq> ip + hlen + off \<and> i \<noteq> ip + hlen + off + 1 \<longrightarrow> b2 ! i = b1 ! i"
    by (rule fill_verifies [where p = "ip + hlen" and buf = b1 and f = "ip + hlen + off" and s = s
          and n = "tot - hlen" and sum_of = "l4_sum packet src dst"])
      (use s off tot tot_lt b1(3) in simp_all)
  have same: "segment b2 q k = segment b1 q k" if "q + k \<le> ip + hlen" for q k
    by (rule segment_eqI) (use that b2 b1(3) off tot in auto)
  have tot1: "ld_be16 b1 (ip + 2) = Done (be16 (?b ! (ip + 2)) (?b ! (ip + 3)))"
  proof -
    have "ip + 3 < length ?b" using tot hlen(2) by simp
    moreover have "ip + 2 + 1 = ip + 3" by simp
    ultimately show ?thesis using b1(3,4) by (simp only: ld_be16_def) simp
  qed
  have ld: "ld8 ?b ip = Done (?b ! ip)" "ld_bytes b1 (ip + 12) 4 = Done src" "ld_bytes b1 (ip + 16) 4 = Done dst"
    using hlen tot b1(3) by (simp_all add: ld_bytes_segment src_def dst_def)
  have l4: "(case p_tcp packet of
            Some tcp \<Rightarrow> fill_checksum b1 tcp (tot - hlen) (tcp + 16)
              (tcp_udp_v4_checksum src dst (word_of_nat IPPROTO_TCP))
          | None \<Rightarrow> (case p_udp packet of
            Some udp \<Rightarrow> fill_checksum b1 udp (tot - hlen) (udp + 6)
              (tcp_udp_v4_checksum src dst (word_of_nat IPPROTO_UDP))
          | None \<Rightarrow> (case p_icmpv4 packet of
            Some icmpv4 \<Rightarrow> fill_checksum b1 icmpv4 (tot - hlen) (icmpv4 + 2) ipv4_checksum
          | None \<Rightarrow> Die))) = Done b2"
    using b2(1) p by (auto simp: l4_field_def l4_sum_cases split: option.splits)
  have "checksum_packet packet = Done (packet\<lparr>p_buffer := b2\<rparr>)"
  proof -
    have af: "packet_address_family packet = AF_INET" by (simp add: packet_address_family_def p(1))
    have le: "hlen < tot" using tot(2) by simp
    show ?thesis
      unfolding checksum_packet_def af address_family.case checksum_ipv4_packet_def p(1) option.case ld
        rbind.simps Let_def hlen(1) [symmetric] b1(1) tot1 tot(1) [symmetric] l4
      using le tot(3) by simp
  qed
  moreover have "\<forall>i < length b2. i \<notin> {ip + 10, ip + 11, ip + hlen + off, ip + hlen + off + 1} \<longrightarrow> b2 ! i = ?b ! i"
    using b1(3,4) b2(3,4) by simp
  ultimately show ?thesis
    using b1(2,3) b2(2,3) same [of ip hlen] same [of "ip + 12" 4] same [of "ip + 16" 4] hlen(2)
    by (intro exI [of _ b2]) (simp add: src_def dst_def)
qed

text \<open>Checksumming an IPv4 packet whose lengths fit its buffer fills in a header checksum and a TCP, UDP
  or ICMP checksum that both verify, and changes nothing but the two checksum fields.\<close>

theorem checksum_ipv4_verifies:
  assumes p: "p_ipv4 packet = Some ip" "l4_field packet = Some (ip + hlen, off)"
    and hlen: "hlen = unat (p_buffer packet ! ip) mod 16 * 4" "20 \<le> hlen"
    and tot: "tot = unat (be16 (p_buffer packet ! (ip + 2)) (p_buffer packet ! (ip + 3)))"
      "hlen + off + 2 \<le> tot" "tot \<le> p_ip_bytes packet" "ip + tot \<le> length (p_buffer packet)"
  shows "\<exists>buf'. checksum_packet packet = Done (packet\<lparr>p_buffer := buf'\<rparr>) \<and>
    length buf' = length (p_buffer packet) \<and>
    ipv4_checksum (segment buf' ip hlen) = 0 \<and>
    l4_sum packet (segment buf' (ip + 12) 4) (segment buf' (ip + 16) 4) (segment buf' (ip + hlen) (tot - hlen)) = 0 \<and>
    (\<forall>i < length buf'. i \<notin> {ip + 10, ip + 11, ip + hlen + off, ip + hlen + off + 1} \<longrightarrow> buf' ! i = p_buffer packet ! i)"
  using assms by (rule checksum_ipv4_ok)

theorem checksum_ipv4_verifies_witness:
  "\<exists>buf'. checksum_packet ((packet_new udp_datagram)\<lparr>p_ipv4 := Some 0, p_udp := Some 20, p_ip_bytes := 30\<rparr>) =
      Done ((packet_new udp_datagram)\<lparr>p_ipv4 := Some 0, p_udp := Some 20, p_ip_bytes := 30, p_buffer := buf'\<rparr>) \<and>
    ipv4_checksum (segment buf' 0 20) = 0"
  using checksum_ipv4_verifies [of "(packet_new udp_datagram)\<lparr>p_ipv4 := Some 0, p_udp := Some 20, p_ip_bytes := 30\<rparr>"
      0 20 6 30]
  by (auto simp: l4_field_def packet_new_def udp_datagram_def be16_def le16_def)

lemma checksum_ipv6_ok:
  assumes p: "p_ipv4 packet = None" "p_ipv6 packet = Some ip" "l4_field packet = Some (ip + 40, off)"
    and tot: "len = unat (be16 (p_buffer packet ! (ip + 4)) (p_buffer packet ! (ip + 5)))"
      "off + 2 \<le> len" "40 + len \<le> p_ip_bytes packet" "ip + 40 + len \<le> length (p_buffer packet)"
  shows "\<exists>buf'. checksum_packet packet = Done (packet\<lparr>p_buffer := buf'\<rparr>) \<and>
    length buf' = length (p_buffer packet) \<and>
    l4_sum packet (segment buf' (ip + 8) 16) (segment buf' (ip + 24) 16) (segment buf' (ip + 40) len) = 0 \<and>
    (\<forall>i < length buf'. i \<notin> {ip + 40 + off, ip + 40 + off + 1} \<longrightarrow> buf' ! i = p_buffer packet ! i)"
proof -
  let ?b = "p_buffer packet"
  have off: "2 \<le> off" "even off" "off \<le> 16"
    using p(3) by (auto simp: l4_field_def split: option.splits if_splits)
  have len_lt: "len < 65536" using tot(1) by (simp only: u16_lt)
  define src dst where "src = segment ?b (ip + 8) 16" and "dst = segment ?b (ip + 24) 16"
  have sd: "length src = 16" "length dst = 16" using tot by (simp_all add: src_def dst_def)
  obtain s where s: "unat (s :: u64) < 2 ^ 40" "\<And>seg. length seg = len \<Longrightarrow>
      l4_sum packet src dst seg = ip_checksum_fold (ip_checksum_partial seg s)"
    using checksum_start [of src dst len packet] sd by auto
  obtain b2 where b2: "fill_checksum ?b (ip + 40) len (ip + 40 + off) (l4_sum packet src dst) = Done b2"
    "l4_sum packet src dst (segment b2 (ip + 40) len) = 0" "length b2 = length ?b"
    "\<forall>i < length ?b. i \<noteq> ip + 40 + off \<and> i \<noteq> ip + 40 + off + 1 \<longrightarrow> b2 ! i = ?b ! i"
    by (rule fill_verifies [where p = "ip + 40" and buf = ?b and f = "ip + 40 + off" and s = s
          and n = len and sum_of = "l4_sum packet src dst"])
      (use s off tot len_lt in simp_all)
  have same: "segment b2 q k = segment ?b q k" if "q + k \<le> ip + 40" for q k
    by (rule segment_eqI) (use that b2 off tot in auto)
  have ld: "ld_bytes ?b (ip + 8) 16 = Done src" "ld_bytes ?b (ip + 24) 16 = Done dst"
    using tot by (simp_all add: ld_bytes_segment src_def dst_def)
  have len: "ld_be16 ?b (ip + 4) = Done (be16 (?b ! (ip + 4)) (?b ! (ip + 5)))"
  proof -
    have "ip + 5 < length ?b" using tot by simp
    moreover have "ip + 4 + 1 = ip + 5" by simp
    ultimately show ?thesis by (simp only: ld_be16_def) simp
  qed
  have l4: "(case p_tcp packet of
            Some tcp \<Rightarrow> fill_checksum ?b tcp len (tcp + 16)
              (tcp_udp_v6_checksum src dst (word_of_nat IPPROTO_TCP))
          | None \<Rightarrow> (case p_udp packet of
            Some udp \<Rightarrow> fill_checksum ?b udp len (udp + 6)
              (tcp_udp_v6_checksum src dst (word_of_nat IPPROTO_UDP))
          | None \<Rightarrow> (case p_icmpv6 packet of
            Some icmpv6 \<Rightarrow> fill_checksum ?b icmpv6 len (icmpv6 + 2)
              (tcp_udp_v6_checksum src dst (word_of_nat IPPROTO_ICMPV6))
          | None \<Rightarrow> Die))) = Done b2"
    using b2(1) p by (auto simp: l4_field_def l4_sum_cases split: option.splits)
  have "checksum_packet packet = Done (packet\<lparr>p_buffer := b2\<rparr>)"
  proof -
    have af: "packet_address_family packet = AF_INET6" by (simp add: packet_address_family_def p)
    have le: "0 < len" using tot(2) by simp
    show ?thesis
      unfolding checksum_packet_def af address_family.case checksum_ipv6_packet_def p(2) option.case ld
        rbind.simps Let_def len tot(1) [symmetric] l4
      using le tot(3) by simp
  qed
  then show ?thesis
    using b2(2-4) same [of "ip + 8" 16] same [of "ip + 24" 16]
    by (intro exI [of _ b2]) (simp add: src_def dst_def)
qed

text \<open>The same for IPv6, whose header has no checksum: the TCP, UDP or ICMPv6 checksum verifies against
  the pseudo-header, and nothing else changes.\<close>

theorem checksum_ipv6_verifies:
  assumes p: "p_ipv4 packet = None" "p_ipv6 packet = Some ip" "l4_field packet = Some (ip + 40, off)"
    and tot: "len = unat (be16 (p_buffer packet ! (ip + 4)) (p_buffer packet ! (ip + 5)))"
      "off + 2 \<le> len" "40 + len \<le> p_ip_bytes packet" "ip + 40 + len \<le> length (p_buffer packet)"
  shows "\<exists>buf'. checksum_packet packet = Done (packet\<lparr>p_buffer := buf'\<rparr>) \<and>
    length buf' = length (p_buffer packet) \<and>
    l4_sum packet (segment buf' (ip + 8) 16) (segment buf' (ip + 24) 16) (segment buf' (ip + 40) len) = 0 \<and>
    (\<forall>i < length buf'. i \<notin> {ip + 40 + off, ip + 40 + off + 1} \<longrightarrow> buf' ! i = p_buffer packet ! i)"
  using assms by (rule checksum_ipv6_ok)

theorem checksum_ipv6_verifies_witness:
  "\<exists>buf'. checksum_packet ((packet_new (0x60 # replicate 4 0 @ [8] @ replicate 42 0))
        \<lparr>p_ipv6 := Some 0, p_icmpv6 := Some 40, p_ip_bytes := 48\<rparr>) =
      Done ((packet_new (0x60 # replicate 4 0 @ [8] @ replicate 42 0))
        \<lparr>p_ipv6 := Some 0, p_icmpv6 := Some 40, p_ip_bytes := 48, p_buffer := buf'\<rparr>)"
  using checksum_ipv6_verifies [of "(packet_new (0x60 # replicate 4 0 @ [8] @ replicate 42 0))
        \<lparr>p_ipv6 := Some 0, p_icmpv6 := Some 40, p_ip_bytes := 48\<rparr>" 0 2 8]
  by (auto simp: l4_field_def packet_new_def be16_def le16_def nth_append nth_Cons')

end
