(* ===== verification/PacketRoundtrip.thy ===== *)
theory PacketRoundtrip
  imports PacketChecksum
begin

section \<open>Packets that are built parse back\<close>

text \<open>
  How the builders, the checksum code and the parser fit together: a packet that was built from a
  script, given its addresses and checksummed is accepted by the parser, which finds the headers that
  the builder recorded.
\<close>

unbundle bit_operations_syntax

text \<open>The program fills in the addresses of a packet after it was built; their place in the IP header.\<close>

definition set_addresses :: "packet \<Rightarrow> bytes \<Rightarrow> bytes \<Rightarrow> packet" where
  "set_addresses packet src dst =
     packet\<lparr>p_buffer := poke (p_buffer packet) (if p_ipv4 packet \<noteq> None then 12 else 8) (src @ dst)\<rparr>"

subsection \<open>Parsing a single IP header\<close>

lemma ld_be16_at: "i + 1 = j \<Longrightarrow> j < length bs \<Longrightarrow> ld_be16 bs i = Done (be16 (bs ! i) (bs ! j))"
  by (auto simp: ld_be16_def)

definition first_header :: "bytes \<Rightarrow> header_t \<Rightarrow> nat \<Rightarrow> nat \<Rightarrow> packet" where
  "first_header b t hlen n = (packet_new b)\<lparr>p_ip_bytes := hlen,
     p_headers := \<lparr>h_type = t, header_bytes = hlen, total_bytes = n, h_ptr = Some 0\<rparr> # replicate 5 no_header\<rparr>"

lemma append_first:
  "hlen \<le> length b \<Longrightarrow> t \<noteq> HEADER_NONE \<Longrightarrow> packet_append_header (packet_new b) t hlen = Some (0, first_header b t hlen 0)"
  by (simp add: packet_append_header_def packet_new_eval packet_header_count_def no_header_def first_header_def
      eval_nat_numeral)

lemma set_total_first [simp]: "set_total_bytes 0 n (first_header b t hlen m) = first_header b t hlen n"
  by (simp add: set_total_bytes_def first_header_def)

lemma parse_built_v4:
  assumes b: "length b = n" "n \<le> 65535" "20 \<le> n" "b ! 0 = 0x45" "unat (be16 (b ! 2) (b ! 3)) = n"
      "be16 (b ! 6) (b ! 7) = 0" "unat (b ! 9) = proto" "ipv4_checksum (segment b 0 20) = 0"
    and l4: "parse_layer4 (first_header b HEADER_IPV4 20 n) 20 proto (n - 20) n = Done (q, PACKET_OK, None)"
  shows "parse_packet (packet_new b) n PACKET_LAYER_3_IP = Done (ipv4_close True 0 n q, PACKET_OK, None)"
proof -
  have op: "ipv4_open (packet_new b) 0 n = Done (Inr (first_header b HEADER_IPV4 20 n, n, 20, proto))"
    using b append_first [of 20 b HEADER_IPV4]
      ld_be16_at [of 2 3 b] ld_be16_at [of 6 7 b]
    unfolding ipv4_open_def add_0 by (simp add: ld_bytes_segment Let_def)
  have "parse_ipv4 (packet_new b) 0 n = Done (ipv4_close True 0 n q, PACKET_OK, None)"
    by (simp add: parse_ipv4.simps op l4 Let_def)
  then have "parse_layer3_packet (packet_new b) 0 n = Done (ipv4_close True 0 n q, PACKET_OK, None)"
    using b by (simp add: parse_layer3_packet.simps)
  then show ?thesis using b by (simp add: parse_packet_def)
qed

lemma parse_built_v6:
  assumes b: "length b = n" "n \<le> 65535" "40 \<le> n" "unat (b ! 0) div 16 = 6" "unat (be16 (b ! 4) (b ! 5)) = n - 40"
      "unat (b ! 6) = proto"
    and l4: "parse_layer4 (first_header b HEADER_IPV6 40 n) 40 proto (n - 40) n = Done (q, PACKET_OK, None)"
  shows "parse_packet (packet_new b) n PACKET_LAYER_3_IP = Done (ipv6_close True 0 n q, PACKET_OK, None)"
proof -
  have op: "ipv6_open (packet_new b) 0 n = Done (Inr (first_header b HEADER_IPV6 40 n, n, 40, proto))"
    using b append_first [of 40 b HEADER_IPV6]
      ld_be16_at [of 4 5 b]
    unfolding ipv6_open_def add_0 by (simp add: Let_def)
  have "parse_ipv6 (packet_new b) 0 n = Done (ipv6_close True 0 n q, PACKET_OK, None)"
    by (simp add: parse_ipv6.simps op l4 Let_def)
  then have "parse_layer3_packet (packet_new b) 0 n = Done (ipv6_close True 0 n q, PACKET_OK, None)"
    using b by (simp add: parse_layer3_packet.simps)
  then show ?thesis using b by (simp add: parse_packet_def)
qed

subsection \<open>Parsing the transport header behind it\<close>

definition second_header :: "packet \<Rightarrow> header_t \<Rightarrow> nat \<Rightarrow> nat \<Rightarrow> packet" where
  "second_header packet t hbytes n = packet\<lparr>p_ip_bytes := p_ip_bytes packet + hbytes,
     p_headers := hd (p_headers packet) #
       \<lparr>h_type = t, header_bytes = hbytes, total_bytes = n, h_ptr = Some (p_ip_bytes packet)\<rparr> # replicate 4 no_header\<rparr>"

lemma first_second:
  assumes "t \<noteq> HEADER_NONE" "hlen + hbytes \<le> length b" "p_headers packet = p_headers (first_header b t hlen n)"
    "p_buffer packet = b" "p_ip_bytes packet = hlen" "p_l2_header_bytes packet = 0"
  shows "packet_append_header packet t' hbytes = Some (1, second_header packet t' hbytes 0)"
  using append_second [of packet "\<lparr>h_type = t, header_bytes = hlen, total_bytes = n, h_ptr = Some 0\<rparr>" hbytes t'] assms
  by (simp add: first_header_def second_header_def)

lemma set_total_second [simp]: "set_total_bytes 1 n (second_header packet t hbytes m) = second_header packet t hbytes n"
  by (simp add: set_total_bytes_def second_header_def)

lemma first_header_simps [simp]:
  "p_buffer (first_header b t hlen n) = b" "p_ip_bytes (first_header b t hlen n) = hlen"
  "p_l2_header_bytes (first_header b t hlen n) = 0" "p_headers (first_header b t hlen n) =
     \<lparr>h_type = t, header_bytes = hlen, total_bytes = n, h_ptr = Some 0\<rparr> # replicate 5 no_header"
  by (simp_all add: first_header_def)

lemma parse_tcp_second:
  assumes "t \<noteq> HEADER_NONE" "length b = n" "unat (b ! (hlen + 12)) div 16 * 4 = thl" "20 \<le> thl" "hlen + thl \<le> n"
  shows "parse_layer4 (first_header b t hlen n) hlen IPPROTO_TCP (n - hlen) n =
    Done (second_header ((first_header b t hlen n)\<lparr>p_tcp := Some hlen\<rparr>) HEADER_TCP thl (n - hlen), PACKET_OK, None)"
proof -
  let ?p = "(first_header b t hlen n)\<lparr>p_tcp := Some hlen\<rparr>"
  have "packet_append_header ?p HEADER_TCP thl = Some (1, second_header ?p HEADER_TCP thl 0)"
    by (rule first_second) (use assms in \<open>simp_all add: first_header_def\<close>)
  moreover have "packet_tcp_header_len ?p = Done thl" using assms by (simp add: packet_tcp_header_len_def)
  moreover have "\<not> n - hlen < 20" "\<not> n - hlen < thl" "\<not> thl < 20" "hlen + (n - hlen) \<le> n" using assms by simp_all
  ultimately show ?thesis
    by (simp add: parse_layer4.simps parse_tcp_def Let_def set_total_second [unfolded One_nat_def])
qed

lemma parse_udp_second:
  assumes "t \<noteq> HEADER_NONE" "length b = n" "unat (be16 (b ! (hlen + 4)) (b ! (hlen + 5))) = n - hlen" "hlen + 8 \<le> n"
  shows "parse_layer4 (first_header b t hlen n) hlen IPPROTO_UDP (n - hlen) n =
    Done (second_header ((first_header b t hlen n)\<lparr>p_udp := Some hlen\<rparr>) HEADER_UDP 8 (n - hlen), PACKET_OK, None)"
proof -
  let ?p = "(first_header b t hlen n)\<lparr>p_udp := Some hlen\<rparr>"
  have "packet_append_header ?p HEADER_UDP 8 = Some (1, second_header ?p HEADER_UDP 8 0)"
    by (rule first_second) (use assms in \<open>simp_all add: first_header_def\<close>)
  moreover have "ld_be16 b (hlen + 4) = Done (be16 (b ! (hlen + 4)) (b ! (hlen + 5)))"
    by (rule ld_be16_at) (use assms in simp_all)
  moreover have "\<not> n - hlen < 8" "hlen + (n - hlen) \<le> n" using assms by simp_all
  ultimately show ?thesis using assms(3)
    by (simp add: parse_layer4.simps parse_udp_def Let_def ipproto_defs set_total_second [unfolded One_nat_def])
qed

subsection \<open>Build, address, checksum\<close>

lemma be16_of [simp]: "be16 (be16_bytes_of w ! 0) (be16_bytes_of w ! Suc 0) = w"
  by (simp add: be16_bytes_of_def)

lemma l4_field_buffer [simp]: "l4_field (set_addresses packet src dst) = l4_field packet"
  by (cases "p_ipv4 packet") (simp_all add: l4_field_def set_addresses_def split: option.splits)

lemma nth_ipv4_fields:
  "ipv4_header_fields w tosb ttlb proto ! 0 = 0x45"
  "be16 (ipv4_header_fields w tosb ttlb proto ! 2) (ipv4_header_fields w tosb ttlb proto ! 3) = w"
  "be16 (ipv4_header_fields w tosb ttlb proto ! 6) (ipv4_header_fields w tosb ttlb proto ! 7) = 0"
  "ipv4_header_fields w tosb ttlb proto ! 9 = proto"
  by (simp_all add: ipv4_header_fields_def be16_bytes_of_def) (simp add: be16_def le16_def)

lemma unat_version6: "unat (0x60 OR drop_bit 4 (b :: u8)) div 16 = 6"
proof -
  have "drop_bit 8 b = 0"
    by (rule bit_word_eqI) (auto simp: bit_drop_bit_eq dest: bit_imp_le_length)
  then have "drop_bit 4 (0x60 OR drop_bit 4 b) = (6 :: u8)" by (simp add: drop_bit_or)
  then have "unat (drop_bit 4 (0x60 OR drop_bit 4 b)) = 6" by simp
  moreover have "unat (drop_bit 4 w) = unat w div 16" for w :: u8
    by (simp only: unat_drop_bit_eq) (simp add: drop_bit_eq_div)
  ultimately show ?thesis by (simp only:)
qed

lemma be16_byte_of: "be16 (byte_of (Suc 0) w) (byte_of 0 w) = w"
  by simp

lemma built_checksum_v4:
  assumes buf: "p_buffer packet = ipv4_header_fields (word_of_nat n) tosb ttlb (word_of_nat proto) @ l4"
    and p: "p_ipv4 packet = Some 0" "l4_field packet = Some (20, off)" "p_ip_bytes packet = n"
    and n: "n = 20 + length l4" "n \<le> 65535" "off + 2 \<le> length l4" "proto < 256"
    and addr: "length src = 4" "length dst = 4"
  obtains b where "checksum_packet (set_addresses packet src dst) = Done ((set_addresses packet src dst)\<lparr>p_buffer := b\<rparr>)"
    "length b = n" "b ! 0 = 0x45" "unat (be16 (b ! 2) (b ! 3)) = n" "be16 (b ! 6) (b ! 7) = 0" "unat (b ! 9) = proto"
    "ipv4_checksum (segment b 0 20) = 0" "\<forall>i < length l4. i \<noteq> off \<and> i \<noteq> off + 1 \<longrightarrow> b ! (20 + i) = l4 ! i"
proof -
  let ?h = "ipv4_header_fields (word_of_nat n) tosb ttlb (word_of_nat proto)"
  let ?q = "set_addresses packet src dst"
  have len: "length (p_buffer ?q) = n" using n p addr by (simp add: set_addresses_def buf)
  have same: "p_buffer ?q ! i = (?h @ l4) ! i" if "i < n" "i \<notin> {12..<20}" for i
    using that n p addr by (auto simp: set_addresses_def nth_poke buf)
  have q: "p_ipv4 ?q = Some 0" "p_ip_bytes ?q = n" using p by (simp_all add: set_addresses_def)
  have n20: "20 \<le> n" and on: "20 + off + 2 \<le> n" using n by simp_all
  have un: "unat (word_of_nat n :: u16) = n" using n(2) by (simp add: unat_of_nat)
  have hi: "(?h @ l4) ! i = ?h ! i" if "i < 20" for i using that by (simp add: nth_append)
  have q0: "p_buffer ?q ! 0 = 0x45" and q2: "be16 (p_buffer ?q ! 2) (p_buffer ?q ! 3) = word_of_nat n"
    and q6: "be16 (p_buffer ?q ! 6) (p_buffer ?q ! 7) = 0" and q9: "p_buffer ?q ! 9 = word_of_nat proto"
    using same n20 by (simp_all add: hi nth_ipv4_fields)
  obtain b where b: "checksum_packet ?q = Done (?q\<lparr>p_buffer := b\<rparr>)" "length b = length (p_buffer ?q)"
    "ipv4_checksum (segment b 0 20) = 0"
    "\<forall>i < length b. i \<notin> {10, 11, 20 + off, 20 + off + 1} \<longrightarrow> b ! i = p_buffer ?q ! i"
  proof -
    have "l4_field ?q = Some (20, off)" "20 = unat (p_buffer ?q ! 0) mod 16 * 4" "20 \<le> (20::nat)"
      "n = unat (be16 (p_buffer ?q ! 2) (p_buffer ?q ! 3))" "20 + off + 2 \<le> n" "n \<le> p_ip_bytes ?q"
      "n \<le> length (p_buffer ?q)"
      using p(2) q(2) len on by (simp_all only: q0 q2 un l4_field_buffer) simp_all
    from checksum_ipv4_ok [of ?q 0 20 off n, unfolded add_0, OF q(1) this] that show thesis by blast
  qed
  show ?thesis
  proof (rule that [OF b(1)])
    show "length b = n" using b(2) len by simp
    show "b ! 0 = 0x45" "unat (be16 (b ! 2) (b ! 3)) = n" "be16 (b ! 6) (b ! 7) = 0" "unat (b ! 9) = proto"
      using b(2,4) len n20 q0 q2 q6 q9 un n(4) by (simp_all add: unat_of_nat)
    show "ipv4_checksum (segment b 0 20) = 0" by (rule b(3))
    show "\<forall>i < length l4. i \<noteq> off \<and> i \<noteq> off + 1 \<longrightarrow> b ! (20 + i) = l4 ! i"
      using b(2,4) len n same by (auto simp: nth_append)
  qed
qed

lemma nth_ipv6_fields:
  "unat (ipv6_header_fields w tosb fl hop proto ! 0) div 16 = 6"
  "be16 (ipv6_header_fields w tosb fl hop proto ! 4) (ipv6_header_fields w tosb fl hop proto ! 5) = w - 40"
  "ipv6_header_fields w tosb fl hop proto ! 6 = proto"
  by (simp_all add: ipv6_header_fields_def be16_bytes_of_def unat_version6 [simplified])

lemma built_checksum_v6:
  assumes buf: "p_buffer packet = ipv6_header_fields (word_of_nat n) tosb fl hop (word_of_nat proto) @ l4"
    and p: "p_ipv4 packet = None" "p_ipv6 packet = Some 0" "l4_field packet = Some (40, off)" "p_ip_bytes packet = n"
    and n: "n = 40 + length l4" "n \<le> 65535" "off + 2 \<le> length l4" "proto < 256"
    and addr: "length src = 16" "length dst = 16"
  obtains b where "checksum_packet (set_addresses packet src dst) = Done ((set_addresses packet src dst)\<lparr>p_buffer := b\<rparr>)"
    "length b = n" "unat (b ! 0) div 16 = 6" "unat (be16 (b ! 4) (b ! 5)) = n - 40" "unat (b ! 6) = proto"
    "\<forall>i < length l4. i \<noteq> off \<and> i \<noteq> off + 1 \<longrightarrow> b ! (40 + i) = l4 ! i"
proof -
  let ?h = "ipv6_header_fields (word_of_nat n) tosb fl hop (word_of_nat proto)"
  let ?q = "set_addresses packet src dst"
  have len: "length (p_buffer ?q) = n" using n p addr by (simp add: set_addresses_def buf)
  have same: "p_buffer ?q ! i = (?h @ l4) ! i" if "i < n" "i \<notin> {8..<40}" for i
    using that n p addr by (auto simp: set_addresses_def nth_poke buf)
  have q: "p_ipv4 ?q = None" "p_ipv6 ?q = Some 0" "p_ip_bytes ?q = n" using p by (simp_all add: set_addresses_def)
  have n40: "40 \<le> n" and on: "off + 2 \<le> n - 40" "40 + (n - 40) = n" using n by simp_all
  have "40 \<le> (word_of_nat n :: u16)" using n40 n(2) by (simp add: word_le_nat_alt unat_of_nat)
  then have un: "unat (word_of_nat n - 40 :: u16) = n - 40" using n(2) by (simp add: unat_sub unat_of_nat)
  have hi: "(?h @ l4) ! i = ?h ! i" if "i < 40" for i using that by (simp add: nth_append)
  have q0: "unat (p_buffer ?q ! 0) div 16 = 6" and q4: "be16 (p_buffer ?q ! 4) (p_buffer ?q ! 5) = word_of_nat n - 40"
    and q6: "p_buffer ?q ! 6 = word_of_nat proto"
  proof -
    have "p_buffer ?q ! i = ?h ! i" if "i < 8" for i using same [of i] hi [of i] that n40 by simp
    then show "unat (p_buffer ?q ! 0) div 16 = 6" "be16 (p_buffer ?q ! 4) (p_buffer ?q ! 5) = word_of_nat n - 40"
      "p_buffer ?q ! 6 = word_of_nat proto"
      using nth_ipv6_fields [of "word_of_nat n" tosb fl hop "word_of_nat proto"] by simp_all
  qed
  obtain b where b: "checksum_packet ?q = Done (?q\<lparr>p_buffer := b\<rparr>)" "length b = length (p_buffer ?q)"
    "\<forall>i < length b. i \<notin> {40 + off, 40 + off + 1} \<longrightarrow> b ! i = p_buffer ?q ! i"
  proof -
    have "l4_field ?q = Some (40, off)" "n - 40 = unat (be16 (p_buffer ?q ! 4) (p_buffer ?q ! 5))"
      "off + 2 \<le> n - 40" "40 + (n - 40) \<le> p_ip_bytes ?q" "40 + (n - 40) \<le> length (p_buffer ?q)"
      using p(3) q(3) len on by (simp_all only: q4 un l4_field_buffer)
    from checksum_ipv6_ok [of ?q 0 off "n - 40", unfolded add_0, OF q(1,2) this] that show thesis by blast
  qed
  show ?thesis
  proof (rule that [OF b(1)])
    show "length b = n" using b(2) len by simp
    have same_b: "b ! i = p_buffer ?q ! i" if "i < 8" for i using that b(2,3) len n40 by simp
    show "unat (b ! 0) div 16 = 6" "unat (be16 (b ! 4) (b ! 5)) = n - 40" "unat (b ! 6) = proto"
      using n(4) q0 q4 q6 un same_b [of 0] same_b [of 4] same_b [of 5] same_b [of 6] by (simp_all add: unat_of_nat)
    show "\<forall>i < length l4. i \<noteq> off \<and> i \<noteq> off + 1 \<longrightarrow> b ! (40 + i) = l4 ! i"
      using b(2,3) len n same by (auto simp: nth_append)
  qed
qed

subsection \<open>The round trip\<close>

text \<open>What the parser finds in the checksummed packet agrees with what the builder recorded.\<close>

definition same_layout :: "packet \<Rightarrow> packet \<Rightarrow> bool" where
  "same_layout found packet \<longleftrightarrow> used_headers found = used_headers packet \<and>
     p_ip_bytes found = p_ip_bytes packet \<and> p_ipv4 found = p_ipv4 packet \<and> p_ipv6 found = p_ipv6 packet \<and>
     p_tcp found = p_tcp packet \<and> p_udp found = p_udp packet"

definition addr_len :: "address_family \<Rightarrow> nat" where
  "addr_len af = (if af = AF_INET6 then 16 else 4)"

lemma same_layout_close:
  assumes "af \<noteq> AF_UNSPEC" "t \<noteq> HEADER_NONE" "ip_hlen af + length l4 = n" "length b = n"
    and packet: "packet = (built_packet af dir info proto t hb l4)\<lparr>p_tcp := a, p_udp := c, p_flags := f\<rparr>"
    and q: "q = second_header ((first_header b (ip_htype af) (ip_hlen af) n)\<lparr>p_tcp := a, p_udp := c\<rparr>) t hb (n - ip_hlen af)"
  shows "same_layout (if af = AF_INET then ipv4_close True 0 n q else ipv6_close True 0 n q) packet"
  using assms
  by (cases af) (auto simp: same_layout_def ipv4_close_def ipv6_close_def second_header_def first_header_def
      built_packet_def packet_new_def used_headers_def no_header_def eval_nat_numeral)

lemma built_roundtrip:
  assumes af: "af \<noteq> AF_UNSPEC" "t \<noteq> HEADER_NONE" and n: "ip_hlen af + length l4 = n" "n \<le> 65535" "off + 2 \<le> length l4" "proto < 256"
    and packet: "packet = (built_packet af dir info proto t hb l4)\<lparr>p_tcp := a, p_udp := c, p_flags := f\<rparr>"
    and off: "l4_field packet = Some (ip_hlen af, off)"
    and addr: "length src = addr_len af" "length dst = addr_len af"
    and l4: "\<And>b. length b = n \<Longrightarrow> \<forall>i < length l4. i \<noteq> off \<and> i \<noteq> off + 1 \<longrightarrow> b ! (ip_hlen af + i) = l4 ! i \<Longrightarrow>
      parse_layer4 (first_header b (ip_htype af) (ip_hlen af) n) (ip_hlen af) proto (n - ip_hlen af) n =
        Done (second_header ((first_header b (ip_htype af) (ip_hlen af) n)\<lparr>p_tcp := a, p_udp := c\<rparr>) t hb
          (n - ip_hlen af), PACKET_OK, None)"
  shows "\<exists>packet' found. checksum_packet (set_addresses packet src dst) = Done packet' \<and>
    parse_packet (packet_new (p_buffer packet')) (p_ip_bytes packet) PACKET_LAYER_3_IP = Done (found, PACKET_OK, None) \<and>
    same_layout found packet"
proof -
  have ip_bytes: "p_ip_bytes packet = n" using n by (simp add: packet built_packet_def)
  have buf: "p_buffer packet = ip_fields af (word_of_nat n) info proto @ l4"
    using n by (simp only: packet built_packet_def Let_def) (simp add: packet_new_def)
  show ?thesis
  proof (cases af)
    case AF_INET
    obtain b where b: "checksum_packet (set_addresses packet src dst) = Done ((set_addresses packet src dst)\<lparr>p_buffer := b\<rparr>)"
      "length b = n" "b ! 0 = 0x45" "unat (be16 (b ! 2) (b ! 3)) = n" "be16 (b ! 6) (b ! 7) = 0" "unat (b ! 9) = proto"
      "ipv4_checksum (segment b 0 20) = 0" "\<forall>i < length l4. i \<noteq> off \<and> i \<noteq> off + 1 \<longrightarrow> b ! (20 + i) = l4 ! i"
      by (rule built_checksum_v4 [of packet n "tos_value (tos info)" "ttl info" proto l4 off src dst])
        (use AF_INET n off addr buf ip_bytes in \<open>simp_all add: addr_len_def packet built_packet_def\<close>)
    let ?q = "second_header ((first_header b HEADER_IPV4 20 n)\<lparr>p_tcp := a, p_udp := c\<rparr>) t hb (n - 20)"
    have "parse_packet (packet_new b) n PACKET_LAYER_3_IP = Done (ipv4_close True 0 n ?q, PACKET_OK, None)"
      by (rule parse_built_v4 [OF b(2) n(2) _ b(3-7)]) (use l4 [of b] b(2,8) AF_INET n in simp_all)
    moreover have "same_layout (ipv4_close True 0 n ?q) packet"
      using same_layout_close [OF af n(1) b(2) packet refl] AF_INET by simp
    ultimately show ?thesis using b(1) ip_bytes by auto
  next
    case AF_INET6
    obtain b where b: "checksum_packet (set_addresses packet src dst) = Done ((set_addresses packet src dst)\<lparr>p_buffer := b\<rparr>)"
      "length b = n" "unat (b ! 0) div 16 = 6" "unat (be16 (b ! 4) (b ! 5)) = n - 40" "unat (b ! 6) = proto"
      "\<forall>i < length l4. i \<noteq> off \<and> i \<noteq> off + 1 \<longrightarrow> b ! (40 + i) = l4 ! i"
      by (rule built_checksum_v6 [of packet n "tos_value (tos info)" "flow_label info" "ttl info" proto l4 off src dst])
        (use AF_INET6 n off addr buf ip_bytes in \<open>simp_all add: addr_len_def packet built_packet_def\<close>)
    let ?q = "second_header ((first_header b HEADER_IPV6 40 n)\<lparr>p_tcp := a, p_udp := c\<rparr>) t hb (n - 40)"
    have "parse_packet (packet_new b) n PACKET_LAYER_3_IP = Done (ipv6_close True 0 n ?q, PACKET_OK, None)"
      by (rule parse_built_v6 [OF b(2) n(2) _ b(3-5)]) (use l4 [of b] b(2,6) AF_INET6 n in simp_all)
    moreover have "same_layout (ipv6_close True 0 n ?q) packet"
      using same_layout_close [OF af n(1) b(2) packet refl] AF_INET6 by simp
    ultimately show ?thesis using b(1) ip_bytes by auto
  next
    case AF_UNSPEC then show ?thesis using af by simp
  qed
qed

lemma tcp_doff:
  assumes "m mod 4 = 0" "m \<le> 60"
  shows "unat (word_of_nat (16 * (m div 4)) :: u8) div 16 * 4 = m"
proof -
  have "m div 4 \<le> 15" using assms(2) by linarith
  then have "unat (word_of_nat (16 * (m div 4)) :: u8) = 16 * (m div 4)" by (simp only: unat_of_nat) simp
  then show ?thesis using assms(1) by simp presburger
qed

lemma l4_field_built:
  "l4_field ((built_packet af dir info proto t hb l4)\<lparr>p_tcp := Some h, p_udp := None, p_flags := f\<rparr>) = Some (h, 16)"
  "l4_field ((built_packet af dir info proto t hb l4)\<lparr>p_tcp := None, p_udp := Some h, p_flags := f\<rparr>) = Some (h, 6)"
  by (simp_all add: l4_field_def)

lemma built_none [simp]:
  "p_tcp (built_packet af dir info proto t hb l4) = None" "p_udp (built_packet af dir info proto t hb l4) = None"
  "p_flags (built_packet af dir info proto t hb l4) = 0"
  by (simp_all add: built_packet_def Let_def packet_new_def)

text \<open>C12: A TCP packet that the builder makes, given any addresses and checksummed, parses: the parser finds
  the headers, offsets and lengths that the builder recorded.\<close>

theorem tcp_packet_roundtrip:
  assumes "af \<noteq> AF_UNSPEC" "tcp_options_fit opts" "is_tcp_flags_spec_valid flags = None"
    "ip_hlen af + 20 + tcp_option_bytes opts + unat payload \<le> 65535"
    "window \<noteq> -1 \<or> dir \<noteq> DIRECTION_INBOUND" "length src = addr_len af" "length dst = addr_len af"
  shows "\<exists>packet packet' found.
    new_tcp_packet af dir info src_port dst_port flags seq payload ack window urg_ptr opts = Done (Inr packet) \<and>
    checksum_packet (set_addresses packet src dst) = Done packet' \<and>
    parse_packet (packet_new (p_buffer packet')) (p_ip_bytes packet) PACKET_LAYER_3_IP = Done (found, PACKET_OK, None) \<and>
    same_layout found packet"
proof -
  let ?l4 = "tcp_packet_bytes src_port dst_port flags seq payload ack window urg_ptr opts"
  let ?f = "(if window = -1 then FLAG_WIN_NOCHECK else 0) OR (if opts = None then FLAG_OPTIONS_NOCHECK else 0)"
  define thl where "thl = 20 + tcp_option_bytes opts"
  define n where "n = ip_hlen af + length ?l4"
  define packet where "packet = (built_packet af dir info IPPROTO_TCP HEADER_TCP thl ?l4)
    \<lparr>p_tcp := Some (ip_hlen af), p_udp := None, p_flags := ?f\<rparr>"
  have new: "new_tcp_packet af dir info src_port dst_port flags seq payload ack window urg_ptr opts = Done (Inr packet)"
    unfolding new_tcp_packet_eq [OF assms(1-5)] packet_def thl_def by (simp add: built_none packet.equality)
  have ll: "length ?l4 = thl + unat payload"
    using length_option_bytes [OF assms(2)] by (simp add: tcp_packet_bytes_def thl_def)
  have o: "tcp_option_bytes opts mod 4 = 0" "tcp_option_bytes opts \<le> 40"
    using assms(2) by (simp_all add: tcp_options_fit_def)
  then have thl: "thl mod 4 = 0" "thl \<le> 60" "20 \<le> thl" by (simp_all add: thl_def) presburger
  have b12: "?l4 ! 12 = word_of_nat (16 * (thl div 4))"
    by (simp add: tcp_packet_bytes_def tcp_header_fields_def thl_def nth_append be16_bytes_of_def be32_bytes_of_def)
  have "\<exists>packet' found. checksum_packet (set_addresses packet src dst) = Done packet' \<and>
    parse_packet (packet_new (p_buffer packet')) (p_ip_bytes packet) PACKET_LAYER_3_IP = Done (found, PACKET_OK, None) \<and>
    same_layout found packet"
  proof (rule built_roundtrip [OF assms(1) _ n_def [symmetric] _ _ _ packet_def _ assms(6,7)])
    fix b :: bytes
    assume b: "length b = n" "\<forall>i < length ?l4. i \<noteq> 16 \<and> i \<noteq> 16 + 1 \<longrightarrow> b ! (ip_hlen af + i) = ?l4 ! i"
    then have "b ! (ip_hlen af + 12) = word_of_nat (16 * (thl div 4))" using b12 ll thl(3) by simp
    then show "parse_layer4 (first_header b (ip_htype af) (ip_hlen af) n) (ip_hlen af) IPPROTO_TCP (n - ip_hlen af) n =
        Done (second_header ((first_header b (ip_htype af) (ip_hlen af) n)\<lparr>p_tcp := Some (ip_hlen af), p_udp := None\<rparr>)
          HEADER_TCP thl (n - ip_hlen af), PACKET_OK, None)"
      using parse_tcp_second [of "ip_htype af" b n "ip_hlen af" thl] b(1) ll thl tcp_doff [OF thl(1,2)] assms(1)
      by (cases af) (simp_all add: n_def first_header_def packet_new_def)
  qed (use assms(4) ll thl in \<open>simp_all add: n_def thl_def packet_def l4_field_built IPPROTO_TCP_def\<close>)
  then show ?thesis using new by blast
qed

theorem tcp_packet_roundtrip_witness:
  "\<exists>packet packet' found.
    new_tcp_packet AF_INET DIRECTION_INBOUND no_info 80 81 ''S'' 1 5 0 65535 0 None = Done (Inr packet) \<and>
    checksum_packet (set_addresses packet [192, 0, 2, 1] [192, 168, 0, 1]) = Done packet' \<and>
    parse_packet (packet_new (p_buffer packet')) (p_ip_bytes packet) PACKET_LAYER_3_IP = Done (found, PACKET_OK, None) \<and>
    same_layout found packet"
  by (rule tcp_packet_roundtrip)
    (simp_all add: tcp_options_fit_def tcp_option_bytes_def valid_tcp_flags_def addr_len_def)

text \<open>The same for UDP.\<close>

theorem udp_packet_roundtrip:
  assumes "af \<noteq> AF_UNSPEC" "ip_hlen af + 8 + unat payload \<le> 65535"
    "length src = addr_len af" "length dst = addr_len af"
  shows "\<exists>packet packet' found.
    new_udp_packet af dir info payload src_port dst_port = Done (Inr packet) \<and>
    checksum_packet (set_addresses packet src dst) = Done packet' \<and>
    parse_packet (packet_new (p_buffer packet')) (p_ip_bytes packet) PACKET_LAYER_3_IP = Done (found, PACKET_OK, None) \<and>
    same_layout found packet"
proof -
  let ?l4 = "udp_packet_bytes src_port dst_port payload"
  define n where "n = ip_hlen af + length ?l4"
  define packet where "packet = (built_packet af dir info IPPROTO_UDP HEADER_UDP 8 ?l4)
    \<lparr>p_tcp := None, p_udp := Some (ip_hlen af), p_flags := 0\<rparr>"
  have new: "new_udp_packet af dir info payload src_port dst_port = Done (Inr packet)"
    unfolding new_udp_packet_eq [OF assms(1,2)] packet_def by (simp add: packet.equality)
  have ll: "length ?l4 = 8 + unat payload" by (simp add: udp_packet_bytes_def)
  have len: "unat (be16 (?l4 ! 4) (?l4 ! 5)) = 8 + unat payload"
  proof -
    have "be16 (?l4 ! 4) (?l4 ! 5) = word_of_nat (8 + unat payload)"
      by (simp only: udp_packet_bytes_def be16_bytes_of_def) (simp add: be16_byte_of [simplified])
    moreover have "unat (word_of_nat (8 + unat payload) :: u16) = 8 + unat payload"
      using assms(2) by (simp only: unat_of_nat) simp
    ultimately show ?thesis by (simp only:)
  qed
  have "\<exists>packet' found. checksum_packet (set_addresses packet src dst) = Done packet' \<and>
    parse_packet (packet_new (p_buffer packet')) (p_ip_bytes packet) PACKET_LAYER_3_IP = Done (found, PACKET_OK, None) \<and>
    same_layout found packet"
  proof (rule built_roundtrip [OF assms(1) _ n_def [symmetric] _ _ _ packet_def _ assms(3,4)])
    fix b :: bytes
    assume b: "length b = n" "\<forall>i < length ?l4. i \<noteq> 6 \<and> i \<noteq> 6 + 1 \<longrightarrow> b ! (ip_hlen af + i) = ?l4 ! i"
    then have "unat (be16 (b ! (ip_hlen af + 4)) (b ! (ip_hlen af + 5))) = n - ip_hlen af"
      using len ll by (simp add: n_def)
    then show "parse_layer4 (first_header b (ip_htype af) (ip_hlen af) n) (ip_hlen af) IPPROTO_UDP (n - ip_hlen af) n =
        Done (second_header ((first_header b (ip_htype af) (ip_hlen af) n)\<lparr>p_tcp := None, p_udp := Some (ip_hlen af)\<rparr>)
          HEADER_UDP 8 (n - ip_hlen af), PACKET_OK, None)"
      using parse_udp_second [of "ip_htype af" b n "ip_hlen af"] b(1) ll assms(1)
      by (cases af) (simp_all add: n_def first_header_def packet_new_def)
  qed (use assms(2) ll in \<open>simp_all add: n_def packet_def l4_field_built IPPROTO_UDP_def\<close>)
  then show ?thesis using new by blast
qed

theorem udp_packet_roundtrip_witness:
  "\<exists>packet packet' found.
    new_udp_packet AF_INET6 DIRECTION_OUTBOUND no_info 3 80 81 = Done (Inr packet) \<and>
    checksum_packet (set_addresses packet (replicate 16 1) (replicate 16 2)) = Done packet' \<and>
    parse_packet (packet_new (p_buffer packet')) (p_ip_bytes packet) PACKET_LAYER_3_IP = Done (found, PACKET_OK, None) \<and>
    same_layout found packet"
  by (rule udp_packet_roundtrip) (simp_all add: addr_len_def)

end
