(* ===== verification/PacketEncap.thy ===== *)
theory PacketEncap
  imports PacketRoundtrip
begin

section \<open>Copying, encapsulating and aggregating packets\<close>

text \<open>
  The model of the rest of \<^verbatim>\<open>packet.c\<close>: copies of a packet with headroom in front, the encapsulation of
  a packet in outer headers, which finishes every header from the innermost to the outermost, and the
  aggregation of a list of segments into one packet. The contents of a block from \<^verbatim>\<open>malloc\<close> are the
  parameter \<open>fill\<close>. A list of packets is an Isabelle list whose last element is the \<^verbatim>\<open>tail\<close>.
\<close>

unbundle bit_operations_syntax

subsection \<open>Copies\<close>

definition shift_header :: "nat \<Rightarrow> header \<Rightarrow> header" where
  "shift_header bytes_headroom h = h\<lparr>h_ptr := map_option ((+) bytes_headroom) (h_ptr h)\<rparr>"

definition packet_copy_headers :: "packet \<Rightarrow> packet \<Rightarrow> nat \<Rightarrow> packet" where
  "packet_copy_headers new_packet old_packet bytes_headroom =
     new_packet\<lparr>p_headers := map (shift_header bytes_headroom) (used_headers old_packet) @
       drop (packet_header_count old_packet) (p_headers new_packet)\<rparr>"

definition offset_ptr :: "nat \<Rightarrow> nat option \<Rightarrow> nat option" where
  "offset_ptr bytes_headroom old = map_option ((+) bytes_headroom) old"

definition packet_duplicate_info :: "packet \<Rightarrow> packet \<Rightarrow> nat \<Rightarrow> int \<Rightarrow> packet" where
  "packet_duplicate_info packet old bytes_headroom extra_payload =
     (packet_copy_headers
        (packet\<lparr>p_ip_bytes := nat (int (p_ip_bytes old) + extra_payload),
           p_direction := p_direction old, p_time_usecs := p_time_usecs old,
           p_flags := p_flags old, p_tos_chk := p_tos_chk old\<rparr>) old bytes_headroom)
     \<lparr>p_ipv4 := offset_ptr bytes_headroom (p_ipv4 old), p_ipv6 := offset_ptr bytes_headroom (p_ipv6 old),
      p_tcp := offset_ptr bytes_headroom (p_tcp old), p_udp := offset_ptr bytes_headroom (p_udp old),
      p_icmpv4 := offset_ptr bytes_headroom (p_icmpv4 old), p_icmpv6 := offset_ptr bytes_headroom (p_icmpv6 old),
      p_tcp_ts_val := offset_ptr bytes_headroom (p_tcp_ts_val old),
      p_tcp_ts_ecr := offset_ptr bytes_headroom (p_tcp_ts_ecr old),
      p_echoed_header := p_echoed_header old\<rparr>"

definition packet_copy_with_headroom :: "(nat \<Rightarrow> u8) \<Rightarrow> packet \<Rightarrow> nat \<Rightarrow> packet run" where
  "packet_copy_with_headroom fill old_packet bytes_headroom =
     rbind (packet_end old_packet) (\<lambda>bytes_used.
     check (bytes_used \<le> 128 * 1024)
     (let packet = packet_new (map fill [0..<bytes_headroom + bytes_used]) in
      rbind (ld_bytes (p_buffer old_packet) 0 bytes_used) (\<lambda>bs.
      rbind (store (p_buffer packet) bytes_headroom bs) (\<lambda>buf.
      Done (packet_duplicate_info (packet\<lparr>p_buffer := buf\<rparr>) old_packet bytes_headroom 0)))))"

definition packet_copy :: "(nat \<Rightarrow> u8) \<Rightarrow> packet \<Rightarrow> packet run" where
  "packet_copy fill old_packet = packet_copy_with_headroom fill old_packet 0"

subsection \<open>Finishing headers\<close>

text \<open>The finish function of the header type; the types without one are left alone.\<close>

definition finish_header :: "packet \<Rightarrow> nat \<Rightarrow> header option \<Rightarrow> packet run" where
  "finish_header packet i next_inner =
     (case h_type (p_headers packet ! i) of
        HEADER_IPV4 \<Rightarrow> ipv4_header_finish packet i next_inner
      | HEADER_IPV6 \<Rightarrow> ipv6_header_finish packet i next_inner
      | HEADER_GRE \<Rightarrow> gre_header_finish packet i next_inner
      | HEADER_MPLS \<Rightarrow> mpls_header_finish packet i next_inner
      | _ \<Rightarrow> Done packet)"

text \<open>The loop from the last entry of the array to the first. The step \<^verbatim>\<open>next = header\<close> also runs after a
  \<^verbatim>\<open>continue\<close>, so \<^verbatim>\<open>next\<close> is the entry behind the current one, in use or not, and null for the last.\<close>

fun finish_from :: "nat \<Rightarrow> packet \<Rightarrow> packet run" where
  "finish_from 0 packet = Done packet"
| "finish_from (Suc i) packet =
     (if h_type (p_headers packet ! i) = HEADER_NONE then finish_from i packet
      else rbind (finish_header packet i
          (if Suc i < length (p_headers packet) then Some (p_headers packet ! Suc i) else None))
        (\<lambda>packet. finish_from i packet))"

definition packet_finish_encapsulation_headers :: "packet \<Rightarrow> packet run" where
  "packet_finish_encapsulation_headers packet = finish_from (length (p_headers packet)) packet"

subsection \<open>Encapsulation\<close>

definition packet_encapsulate :: "(nat \<Rightarrow> u8) \<Rightarrow> packet \<Rightarrow> packet \<Rightarrow> packet run" where
  "packet_encapsulate fill outer inner =
     (let outer_headers = packet_header_count outer;
          inner_headers = packet_header_count inner
      in check (outer_headers + inner_headers \<le> PACKET_MAX_HEADERS)
        (rbind (packet_copy_with_headroom fill inner (p_ip_bytes outer)) (\<lambda>packet.
         rbind (ld_bytes (p_buffer outer) 0 (p_ip_bytes outer)) (\<lambda>bs.
         rbind (store (p_buffer packet) 0 bs) (\<lambda>buf.
         let hs = p_headers packet;
             packet = packet\<lparr>p_buffer := buf,
               p_headers := take outer_headers hs @ take inner_headers hs @ drop (outer_headers + inner_headers) hs\<rparr>;
             packet = packet_copy_headers packet outer 0
         in check (packet_header_count packet = outer_headers + inner_headers)
           (rbind (packet_finish_encapsulation_headers packet) (\<lambda>packet.
            Done (packet\<lparr>p_ip_bytes := p_ip_bytes outer + p_ip_bytes inner\<rparr>))))))))"

subsection \<open>Aggregation\<close>

text \<open>The loop that appends the payloads at \<open>iter_base\<close>.\<close>

fun copy_payloads :: "bytes \<Rightarrow> nat \<Rightarrow> packet list \<Rightarrow> bytes run" where
  "copy_payloads buf iter_base [] = Done buf"
| "copy_payloads buf iter_base (p # ps) =
     rbind (packet_payload p) (\<lambda>payload. rbind (packet_payload_len p) (\<lambda>len.
     if len < 0 then Oob
     else rbind (ld_bytes (p_buffer p) payload (nat len)) (\<lambda>bs.
          rbind (store buf iter_base bs) (\<lambda>buf.
          copy_payloads buf (iter_base + nat len) ps))))"

text \<open>The TCP header takes over sequence number and cwr bit of the first packet.\<close>

definition copy_seq_cwr :: "packet \<Rightarrow> packet \<Rightarrow> packet run" where
  "copy_seq_cwr first_packet packet =
     (case (p_tcp packet, p_tcp first_packet) of
        (Some tcp, Some tcp0) \<Rightarrow>
          rbind (ld_bytes (p_buffer first_packet) (tcp0 + 4) 4) (\<lambda>seq.
          rbind (store (p_buffer packet) (tcp + 4) seq) (\<lambda>buf.
          rbind (ld8 (p_buffer first_packet) (tcp0 + 13)) (\<lambda>f0.
          rbind (ld8 buf (tcp + 13)) (\<lambda>f.
          rbind (store buf (tcp + 13) [(f AND 0x7f) OR (f0 AND 0x80)]) (\<lambda>buf.
            Done (packet\<lparr>p_buffer := buf\<rparr>))))))
      | _ \<Rightarrow> Die)"

text \<open>The loop over the headers in use, from the index \<open>i\<close>; the number of entries left is the fuel.\<close>

fun adjust_headers :: "nat \<Rightarrow> nat \<Rightarrow> packet \<Rightarrow> int \<Rightarrow> packet \<Rightarrow> packet run" where
  "adjust_headers 0 i first_packet extra_payload packet = Done packet"
| "adjust_headers (Suc k) i first_packet extra_payload packet =
     (let h = p_headers packet ! i in
      if h_type h = HEADER_NONE then Done packet
      else (let packet = set_total_bytes i (nat (int (total_bytes h) + extra_payload)) packet in
            rbind (if h_type h = HEADER_TCP then copy_seq_cwr first_packet packet else Done packet)
              (\<lambda>packet. adjust_headers k (Suc i) first_packet extra_payload packet)))"

definition aggregate_packets :: "(nat \<Rightarrow> u8) \<Rightarrow> packet list \<Rightarrow> int \<Rightarrow> packet run" where
  "aggregate_packets fill packets payload_size =
     (let first_packet = hd packets;
          old_packet = last packets
      in rbind (packet_payload_len old_packet) (\<lambda>old_len.
         let extra_payload = payload_size - old_len in
         rbind (packet_payload old_packet) (\<lambda>headers_len.
         rbind (packet_end old_packet) (\<lambda>old_packet_size.
         let n = int old_packet_size + extra_payload in
         if n < 0 then Oob
         else (let packet = packet_new (map fill [0..<nat n]) in
         rbind (ld_bytes (p_buffer old_packet) 0 headers_len) (\<lambda>bs.
         rbind (store (p_buffer packet) 0 bs) (\<lambda>buf.
         rbind (copy_payloads buf headers_len packets) (\<lambda>buf.
         let packet = packet_duplicate_info (packet\<lparr>p_buffer := buf\<rparr>) old_packet 0 extra_payload in
         rbind (adjust_headers (length (p_headers packet)) 0 first_packet extra_payload packet) (\<lambda>packet.
         packet_finish_encapsulation_headers packet)))))))))"

subsection \<open>One finished header\<close>

text \<open>A header that a finish function can work on: it lies in the buffer with the length that the finish
  function assumes. The types that carry another header.\<close>

definition outer_types :: "header_t set" where
  "outer_types = {HEADER_IPV4, HEADER_IPV6, HEADER_GRE, HEADER_MPLS}"

definition header_ready :: "bytes \<Rightarrow> header \<Rightarrow> bool" where
  "header_ready b h = (case h_ptr h of None \<Rightarrow> False | Some p \<Rightarrow>
     h_type h \<in> outer_types \<and> p + header_bytes h \<le> length b \<and>
     (h_type h = HEADER_IPV4 \<longrightarrow> header_bytes h = 20 \<and> unat (b ! p) mod 16 = 5) \<and>
     (h_type h = HEADER_IPV6 \<longrightarrow> header_bytes h = 40) \<and>
     (h_type h = HEADER_GRE \<longrightarrow> gre_len (b ! p) (b ! (p + 1)) = Done (header_bytes h)))"

fun ip_proto_of :: "header_t \<Rightarrow> nat" where
  "ip_proto_of HEADER_IPV4 = IPPROTO_IPIP"
| "ip_proto_of HEADER_IPV6 = IPPROTO_IPV6"
| "ip_proto_of HEADER_GRE = IPPROTO_GRE"
| "ip_proto_of HEADER_TCP = IPPROTO_TCP"
| "ip_proto_of HEADER_UDP = IPPROTO_UDP"
| "ip_proto_of HEADER_ICMPV4 = IPPROTO_ICMP"
| "ip_proto_of HEADER_ICMPV6 = IPPROTO_ICMPV6"
| "ip_proto_of _ = 0"

text \<open>What the finish function leaves: length, protocol and checksum fit the header inside.\<close>

definition header_finished :: "bytes \<Rightarrow> header \<Rightarrow> header \<Rightarrow> bool" where
  "header_finished b h inner = (case h_ptr h of None \<Rightarrow> False | Some p \<Rightarrow>
     total_bytes h = header_bytes h + total_bytes inner \<and>
     (h_type h = HEADER_IPV4 \<longrightarrow> ipv4_checksum (segment b p 20) = 0 \<and>
        be16 (b ! (p + 2)) (b ! (p + 3)) = word_of_nat (total_bytes h) \<and>
        b ! (p + 9) = word_of_nat (ip_proto_of (h_type inner))) \<and>
     (h_type h = HEADER_IPV6 \<longrightarrow>
        be16 (b ! (p + 4)) (b ! (p + 5)) = word_of_nat (total_bytes inner) \<and>
        b ! (p + 6) = word_of_nat (ip_proto_of (h_type inner))))"

lemma header_type_info_proto:
  "t \<noteq> HEADER_NONE \<Longrightarrow> \<exists>name eth. header_type_info t = Done (name, ip_proto_of t, eth)"
  by (cases t) simp_all

lemma gre_len_cases: "gre_len f v = Done n \<Longrightarrow> 4 \<le> n"
  by (auto simp: gre_len_def run_simps GRE_MINLEN_def)

lemma header_ready_local:
  assumes "header_ready b h" "length b' = length b" "h_ptr h = Some p"
    "\<forall>k. p \<le> k \<and> k < p + header_bytes h \<longrightarrow> b' ! k = b ! k"
  shows "header_ready b' h"
proof (cases "h_type h = HEADER_GRE")
  case True
  then have "4 \<le> header_bytes h" using assms(1,3) by (auto simp: header_ready_def dest: gre_len_cases)
  then have "b' ! p = b ! p" "b' ! (p + 1) = b ! (p + 1)" using assms(4) by auto
  then show ?thesis using assms True by (simp add: header_ready_def)
next
  case False
  have "b' ! p = b ! p" if "h_type h = HEADER_IPV4"
    using assms(1,3,4) that by (auto simp: header_ready_def)
  then show ?thesis using assms False by (auto simp: header_ready_def)
qed

lemma header_finished_local:
  assumes "header_finished b h inner" "length b' = length b" "h_ptr h = Some p" "p + header_bytes h \<le> length b"
    "h_type h = HEADER_IPV4 \<Longrightarrow> header_bytes h = 20" "h_type h = HEADER_IPV6 \<Longrightarrow> header_bytes h = 40"
    "\<forall>k. p \<le> k \<and> k < p + header_bytes h \<longrightarrow> b' ! k = b ! k"
  shows "header_finished b' h inner"
proof -
  have "segment b' p 20 = segment b p 20" if "h_type h = HEADER_IPV4"
    by (rule segment_eqI) (use assms that in auto)
  then show ?thesis using assms by (auto simp: header_finished_def)
qed

lemma finish_ipv4:
  assumes h: "p_headers packet ! i = h" "h_type h = HEADER_IPV4" "header_ready (p_buffer packet) h" "h_ptr h = Some p"
    and inner: "h_type inner \<noteq> HEADER_NONE"
  shows "\<exists>b. ipv4_header_finish packet i (Some inner) = Done ((set_total_bytes i (header_bytes h + total_bytes inner) packet)\<lparr>p_buffer := b\<rparr>) \<and>
    length b = length (p_buffer packet) \<and> (\<forall>k < length b. k < p \<or> p + header_bytes h \<le> k \<longrightarrow> b ! k = p_buffer packet ! k) \<and>
    b ! p = p_buffer packet ! p \<and> header_finished b (h\<lparr>total_bytes := header_bytes h + total_bytes inner\<rparr>) inner"
proof -
  let ?b = "p_buffer packet"
  define w :: u16 where "w = word_of_nat (20 + total_bytes inner)"
  have r: "header_bytes h = 20" "p + 20 \<le> length ?b" "unat (?b ! p) mod 16 = 5"
    using h by (auto simp: header_ready_def)
  obtain name eth where info: "header_type_info (h_type inner) = Done (name, ip_proto_of (h_type inner), eth)"
    using header_type_info_proto [OF inner] by blast
  define b1 where "b1 = poke ?b (p + 2) (be16_bytes_of w)"
  define b2 where "b2 = poke b1 (p + 9) [word_of_nat (ip_proto_of (h_type inner))]"
  have len: "length b1 = length ?b" "length b2 = length ?b" using r by (simp_all add: b1_def b2_def)
  have b2: "b2 ! k = (if k = p + 2 then byte_of 1 w else if k = p + 3 then byte_of 0 w
      else if k = p + 9 then word_of_nat (ip_proto_of (h_type inner)) else ?b ! k)" if "k < length ?b" for k
    using that r by (auto simp: b2_def b1_def nth_poke be16_bytes_of_def nth_Cons')
  obtain b where b: "fill_checksum b2 p 20 (p + 10) ipv4_checksum = Done b" "ipv4_checksum (segment b p 20) = 0"
    "length b = length b2" "\<forall>k < length b2. k \<noteq> p + 10 \<and> k \<noteq> p + 10 + 1 \<longrightarrow> b ! k = b2 ! k"
    by (rule fill_verifies [of p 20 b2 "p + 10" 0 ipv4_checksum]) (use r len in \<open>simp_all add: ipv4_checksum_def\<close>)
  define b3 where "b3 = poke b2 (p + 10) [0, 0]"
  have at: "header_at packet i = Done p" by (simp add: header_at_def h)
  have s: "store ?b (p + 2) (be16_bytes_of w) = Done b1"
    "store b1 (p + 9) [word_of_nat (ip_proto_of (h_type inner))] = Done b2" "store b2 (p + 10) [0, 0] = Done b3"
    "ld8 b3 p = Done (?b ! p)" "ld_bytes b3 p 20 = Done (segment b3 p 20)"
    using r len by (simp_all add: store_in b1_def b2_def [symmetric] b3_def ld_bytes_segment nth_poke b2)
      (simp_all add: store_in b1_def b2_def)
  then have s4: "store b3 (p + 10) (le16_bytes_of (ipv4_checksum (segment b3 p 20))) = Done b"
    using b(1) by (simp only: fill_checksum_def rbind.simps)
  have "ipv4_header_finish packet i (Some inner) = Done ((set_total_bytes i (20 + total_bytes inner) packet)\<lparr>p_buffer := b\<rparr>)"
    unfolding ipv4_header_finish_def option.case at rbind.simps Let_def w_def [symmetric] s info prod.case r(3)
    by (simp add: s s4)
  moreover have "\<forall>k < length b. k < p \<or> p + 20 \<le> k \<longrightarrow> b ! k = ?b ! k" "b ! p = ?b ! p"
    using b(3,4) len r by (auto simp: b2)
  moreover have "header_finished b (h\<lparr>total_bytes := 20 + total_bytes inner\<rparr>) inner"
  proof -
    have "b ! (p + 2) = byte_of 1 w" "b ! (p + 3) = byte_of 0 w" "b ! (p + 9) = word_of_nat (ip_proto_of (h_type inner))"
      using b(3,4) len r by (auto simp: b2)
    then show ?thesis using b(2) r h by (simp add: header_finished_def w_def)
  qed
  ultimately show ?thesis using b(3) len r(1) by auto
qed

lemma finish_ipv6:
  assumes h: "p_headers packet ! i = h" "h_type h = HEADER_IPV6" "header_ready (p_buffer packet) h" "h_ptr h = Some p"
    and inner: "h_type inner \<noteq> HEADER_NONE" "total_bytes inner \<le> 0xffff"
  shows "\<exists>b. ipv6_header_finish packet i (Some inner) = Done ((set_total_bytes i (header_bytes h + total_bytes inner) packet)\<lparr>p_buffer := b\<rparr>) \<and>
    length b = length (p_buffer packet) \<and> (\<forall>k < length b. k < p \<or> p + header_bytes h \<le> k \<longrightarrow> b ! k = p_buffer packet ! k) \<and>
    header_finished b (h\<lparr>total_bytes := header_bytes h + total_bytes inner\<rparr>) inner"
proof -
  let ?b = "p_buffer packet"
  define w :: u16 where "w = word_of_nat (total_bytes inner)"
  have r: "header_bytes h = 40" "p + 40 \<le> length ?b" using h by (auto simp: header_ready_def)
  obtain name eth where info: "header_type_info (h_type inner) = Done (name, ip_proto_of (h_type inner), eth)"
    using header_type_info_proto [OF inner(1)] by blast
  define b1 where "b1 = poke ?b (p + 4) (be16_bytes_of w)"
  define b where "b = poke b1 (p + 6) [word_of_nat (ip_proto_of (h_type inner))]"
  have len: "length b1 = length ?b" "length b = length ?b" using r by (simp_all add: b1_def b_def)
  have b: "b ! k = (if k = p + 4 then byte_of 1 w else if k = p + 5 then byte_of 0 w
      else if k = p + 6 then word_of_nat (ip_proto_of (h_type inner)) else ?b ! k)" if "k < length ?b" for k
    using that r by (auto simp: b_def b1_def nth_poke be16_bytes_of_def nth_Cons')
  have at: "header_at packet i = Done p" by (simp add: header_at_def h)
  have s: "store ?b (p + 4) (be16_bytes_of w) = Done b1" "store b1 (p + 6) [word_of_nat (ip_proto_of (h_type inner))] = Done b"
    using r len by (simp_all add: store_in b1_def [symmetric] b_def)
  have "ipv6_header_finish packet i (Some inner) = Done ((set_total_bytes i (40 + total_bytes inner) packet)\<lparr>p_buffer := b\<rparr>)"
    unfolding ipv6_header_finish_def option.case at rbind.simps Let_def w_def [symmetric] s info prod.case
    using inner(2) by (simp add: check_def)
  moreover have "\<forall>k < length b. k < p \<or> p + 40 \<le> k \<longrightarrow> b ! k = ?b ! k"
    using len r by (auto simp: b)
  moreover have "header_finished b (h\<lparr>total_bytes := 40 + total_bytes inner\<rparr>) inner"
  proof -
    have "b ! (p + 4) = byte_of 1 w" "b ! (p + 5) = byte_of 0 w" "b ! (p + 6) = word_of_nat (ip_proto_of (h_type inner))"
      using len r by (auto simp: b)
    then show ?thesis using r h by (simp add: header_finished_def w_def)
  qed
  ultimately show ?thesis using len r(1) by auto
qed

lemma finish_gre:
  assumes h: "p_headers packet ! i = h" "h_type h = HEADER_GRE" "header_ready (p_buffer packet) h" "h_ptr h = Some p"
    and inner: "h_type inner \<noteq> HEADER_NONE"
  shows "\<exists>b. gre_header_finish packet i (Some inner) = Done ((set_total_bytes i (header_bytes h + total_bytes inner) packet)\<lparr>p_buffer := b\<rparr>) \<and>
    length b = length (p_buffer packet) \<and> (\<forall>k < length b. k < p \<or> p + header_bytes h \<le> k \<longrightarrow> b ! k = p_buffer packet ! k) \<and>
    header_finished b (h\<lparr>total_bytes := header_bytes h + total_bytes inner\<rparr>) inner"
proof -
  let ?b = "p_buffer packet"
  have r: "gre_len (?b ! p) (?b ! (p + 1)) = Done (header_bytes h)" "p + header_bytes h \<le> length ?b"
    using h by (auto simp: header_ready_def)
  have l: "4 \<le> header_bytes h" using gre_len_cases [OF r(1)] .
  obtain name eth where info: "header_type_info (h_type inner) = Done (name, ip_proto_of (h_type inner), eth)"
    using header_type_info_proto [OF inner(1)] by blast
  define b where "b = poke ?b (p + 2) (be16_bytes_of (word_of_nat eth))"
  have at: "header_at packet i = Done p" by (simp add: header_at_def h)
  have s: "ld8 ?b p = Done (?b ! p)" "ld8 ?b (p + 1) = Done (?b ! (p + 1))"
    "store ?b (p + 2) (be16_bytes_of (word_of_nat eth)) = Done b"
    using r(2) l by (simp_all add: store_in b_def ld8_def)
  have "gre_header_finish packet i (Some inner) = Done ((set_total_bytes i (header_bytes h + total_bytes inner) packet)\<lparr>p_buffer := b\<rparr>)"
    unfolding gre_header_finish_def at rbind.simps s r(1) option.case Let_def info prod.case ..
  moreover have "length b = length ?b" "\<forall>k < length ?b. k < p \<or> p + header_bytes h \<le> k \<longrightarrow> b ! k = ?b ! k"
    using r(2) l by (simp_all add: b_def nth_poke)
  moreover have "header_finished b (h\<lparr>total_bytes := header_bytes h + total_bytes inner\<rparr>) inner"
    using h by (simp add: header_finished_def)
  ultimately show ?thesis by auto
qed

lemma finish_mpls:
  assumes h: "p_headers packet ! i = h" "h_type h = HEADER_MPLS" "h_ptr h = Some p"
  shows "\<exists>b. mpls_header_finish packet i (Some inner) = Done ((set_total_bytes i (header_bytes h + total_bytes inner) packet)\<lparr>p_buffer := b\<rparr>) \<and>
    length b = length (p_buffer packet) \<and> (\<forall>k < length b. k < p \<or> p + header_bytes h \<le> k \<longrightarrow> b ! k = p_buffer packet ! k) \<and>
    header_finished b (h\<lparr>total_bytes := header_bytes h + total_bytes inner\<rparr>) inner"
  by (rule exI [of _ "p_buffer packet"]) (simp add: mpls_header_finish_def h header_finished_def set_total_bytes_def)

lemma finish_header_ok:
  assumes "p_headers packet ! i = h" "header_ready (p_buffer packet) h" "h_ptr h = Some p"
    "h_type inner \<noteq> HEADER_NONE" "total_bytes inner \<le> 0xffff"
  shows "\<exists>b. finish_header packet i (Some inner) = Done ((set_total_bytes i (header_bytes h + total_bytes inner) packet)\<lparr>p_buffer := b\<rparr>) \<and>
    length b = length (p_buffer packet) \<and> (\<forall>k < length b. k < p \<or> p + header_bytes h \<le> k \<longrightarrow> b ! k = p_buffer packet ! k) \<and>
    header_finished b (h\<lparr>total_bytes := header_bytes h + total_bytes inner\<rparr>) inner"
proof -
  have "h_type h \<in> outer_types" using assms(2,3) by (simp add: header_ready_def)
  then consider "h_type h = HEADER_IPV4" | "h_type h = HEADER_IPV6" | "h_type h = HEADER_GRE" | "h_type h = HEADER_MPLS"
    by (auto simp: outer_types_def)
  then show ?thesis
  proof cases
    case 1
    then show ?thesis using finish_ipv4 [OF assms(1) 1 assms(2,3,4)] assms(1) by (auto simp: finish_header_def)
  next
    case 2
    then show ?thesis using finish_ipv6 [OF assms(1) 2 assms(2,3,4,5)] assms(1) by (auto simp: finish_header_def)
  next
    case 3
    then show ?thesis using finish_gre [OF assms(1) 3 assms(2,3,4)] assms(1) by (auto simp: finish_header_def)
  next
    case 4
    then show ?thesis using finish_mpls [OF assms(1) 4 assms(3)] assms(1) by (auto simp: finish_header_def)
  qed
qed

subsection \<open>The finish loop\<close>

text \<open>The total lengths that the loop fills in, from the header behind the last one that it finishes.\<close>

fun finish_chain :: "header list \<Rightarrow> header list \<Rightarrow> header list" where
  "finish_chain [] suf = suf"
| "finish_chain (h # us) suf =
     (let r = finish_chain us suf in h\<lparr>total_bytes := header_bytes h + total_bytes (hd r)\<rparr> # r)"

definition headers_apart :: "header list \<Rightarrow> bool" where
  "headers_apart us = sorted_wrt (\<lambda>h k. case (h_ptr h, h_ptr k) of
     (Some p, Some q) \<Rightarrow> p + header_bytes h \<le> q | _ \<Rightarrow> False) us"

text \<open>No header of the list covers the offset \<open>k\<close>.\<close>

definition outside :: "header list \<Rightarrow> nat \<Rightarrow> bool" where
  "outside us k = (\<forall>h \<in> set us. case h_ptr h of None \<Rightarrow> True | Some p \<Rightarrow> k < p \<or> p + header_bytes h \<le> k)"

lemma finish_chain_snoc:
  "finish_chain (us @ [h]) suf = finish_chain us (h\<lparr>total_bytes := header_bytes h + total_bytes (hd suf)\<rparr> # suf)"
  by (induction us) (simp_all add: Let_def)

lemma length_finish_chain [simp]: "length (finish_chain us suf) = length us + length suf"
  by (induction us) (simp_all add: Let_def)

lemma finish_chain_tail: "drop (length us) (finish_chain us suf) = suf"
  by (induction us) (simp_all add: Let_def)

lemma finish_chain_types [simp]: "map h_type (finish_chain us suf) = map h_type us @ map h_type suf"
  by (induction us) (simp_all add: Let_def)

lemma headers_apart_snocD:
  assumes "headers_apart (us @ [h])" "h_ptr h = Some p"
  shows "headers_apart us" "\<forall>k. p \<le> k \<longrightarrow> outside us k"
  using assms by (fastforce simp: headers_apart_def outside_def sorted_wrt_append split: option.splits)+

lemma finish_from_ok:
  assumes "p_headers packet = us @ suf @ ns" "\<forall>h \<in> set us. header_ready (p_buffer packet) h" "headers_apart us"
    "suf \<noteq> []" "h_type (hd suf) \<noteq> HEADER_NONE" "sum_list (map header_bytes us) + total_bytes (hd suf) \<le> 0xffff"
  shows "\<exists>b. finish_from (length us) packet = Done (packet\<lparr>p_headers := finish_chain us suf @ ns, p_buffer := b\<rparr>) \<and>
    length b = length (p_buffer packet) \<and> (\<forall>k < length b. outside us k \<longrightarrow> b ! k = p_buffer packet ! k) \<and>
    (\<forall>i < length us. header_finished b (finish_chain us suf ! i) (finish_chain us suf ! Suc i))"
  using assms
proof (induction us arbitrary: packet suf rule: rev_induct)
  case Nil
  then have "packet = packet\<lparr>p_headers := suf @ ns, p_buffer := p_buffer packet\<rparr>" by simp
  then show ?case by (intro exI [of _ "p_buffer packet"]) simp
next
  case (snoc h us)
  let ?b = "p_buffer packet" and ?inner = "hd suf"
  let ?h = "h\<lparr>total_bytes := header_bytes h + total_bytes (hd suf)\<rparr>"
  obtain p where p: "h_ptr h = Some p"
    using snoc.prems(2) by (auto simp: header_ready_def split: option.splits)
  have hi: "p_headers packet ! length us = h" and nx: "p_headers packet ! Suc (length us) = ?inner"
    and lt: "Suc (length us) < length (p_headers packet)"
    using snoc.prems(1,4) by (simp_all add: nth_append hd_conv_nth)
  have ready: "header_ready ?b h" using snoc.prems(2) by simp
  have none: "h_type h \<noteq> HEADER_NONE" using ready p by (auto simp: header_ready_def outer_types_def)
  obtain b where b: "finish_header packet (length us) (Some ?inner) =
      Done ((set_total_bytes (length us) (header_bytes h + total_bytes ?inner) packet)\<lparr>p_buffer := b\<rparr>)"
    "length b = length ?b" "\<forall>k < length b. k < p \<or> p + header_bytes h \<le> k \<longrightarrow> b ! k = ?b ! k"
    "header_finished b ?h ?inner"
    using finish_header_ok [OF hi ready p snoc.prems(5)] snoc.prems(6) by auto
  define packet1 where "packet1 = (set_total_bytes (length us) (header_bytes h + total_bytes ?inner) packet)\<lparr>p_buffer := b\<rparr>"
  have apart: "headers_apart us" "\<forall>k. p \<le> k \<longrightarrow> outside us k"
    using headers_apart_snocD [OF snoc.prems(3) p] by auto
  have before: "p' + header_bytes h' \<le> p" if "h' \<in> set us" "h_ptr h' = Some p'" for h' p'
    using snoc.prems(3) that p by (fastforce simp: headers_apart_def sorted_wrt_append)
  have ph: "p_headers packet1 = us @ (?h # suf) @ ns"
    using snoc.prems(1) by (simp add: packet1_def set_total_bytes_def list_update_append)
  have rd: "\<forall>h' \<in> set us. header_ready (p_buffer packet1) h'"
  proof
    fix h' assume h': "h' \<in> set us"
    then have r': "header_ready ?b h'" using snoc.prems(2) by simp
    then obtain p' where p': "h_ptr h' = Some p'" by (auto simp: header_ready_def split: option.splits)
    show "header_ready (p_buffer packet1) h'"
      by (rule header_ready_local [OF r' _ p'])
        (use before [OF h' p'] b(2,3) r' p' in \<open>auto simp: packet1_def header_ready_def\<close>)
  qed
  obtain c where c: "finish_from (length us) packet1 = Done (packet1\<lparr>p_headers := finish_chain us (?h # suf) @ ns, p_buffer := c\<rparr>)"
    "length c = length (p_buffer packet1)" "\<forall>k < length c. outside us k \<longrightarrow> c ! k = p_buffer packet1 ! k"
    "\<forall>i < length us. header_finished c (finish_chain us (?h # suf) ! i) (finish_chain us (?h # suf) ! Suc i)"
    using snoc.IH [OF ph rd apart(1)] none snoc.prems(6) by auto
  have fin: "header_finished c ?h ?inner"
    by (rule header_finished_local [OF b(4), where p = p])
      (use ready p c(2,3) apart(2) b(2) in \<open>auto simp: packet1_def header_ready_def\<close>)
  have at: "finish_chain us (?h # suf) ! length us = ?h" "finish_chain us (?h # suf) ! Suc (length us) = ?inner"
    using finish_chain_tail [of us "?h # suf"] snoc.prems(4)
    by (metis (no_types) Cons_nth_drop_Suc drop_all length_finish_chain linorder_not_le list.inject list.discI add_diff_cancel_left' hd_drop_conv_nth hd_conv_nth list.sel)+
  show ?case
  proof (intro exI [of _ c] conjI)
    show "finish_from (length (us @ [h])) packet = Done (packet\<lparr>p_headers := finish_chain (us @ [h]) suf @ ns, p_buffer := c\<rparr>)"
      using c(1) b(1) hi nx lt none
      by (simp add: packet1_def [symmetric] finish_chain_snoc) (simp add: packet1_def set_total_bytes_def)
    show "length c = length ?b" using c(2) b(2) by (simp add: packet1_def)
    show "\<forall>k < length c. outside (us @ [h]) k \<longrightarrow> c ! k = ?b ! k"
      using c(2,3) b(2,3) p by (auto simp: packet1_def outside_def)
    show "\<forall>i < length (us @ [h]). header_finished c (finish_chain (us @ [h]) suf ! i) (finish_chain (us @ [h]) suf ! Suc i)"
      using c(4) fin at by (auto simp: finish_chain_snoc less_Suc_eq)
  qed
qed

subsection \<open>Encapsulation, from end to end\<close>

text \<open>Headers that can be finished and lie in the first \<open>n\<close> bytes.\<close>

definition outer_chain :: "bytes \<Rightarrow> nat \<Rightarrow> header list \<Rightarrow> bool" where
  "outer_chain b n hs \<longleftrightarrow> headers_apart hs \<and>
     (\<forall>h \<in> set hs. header_ready b h \<and> (case h_ptr h of None \<Rightarrow> False | Some p \<Rightarrow> p + header_bytes h \<le> n))"

lemma used_of_list:
  assumes "\<forall>h \<in> set us. h_type h \<noteq> HEADER_NONE" "\<forall>h \<in> set ns. h_type h = HEADER_NONE"
    "p_headers packet = us @ ns"
  shows "used_headers packet = us" "packet_header_count packet = length us"
proof -
  show "used_headers packet = us"
    using assms by (cases ns) (simp_all add: used_headers_def takeWhile_append2)
  then show "packet_header_count packet = length us"
    by (simp add: header_count_used)
qed

lemma copy_headers_eq:
  "packet_copy_headers new_packet old_packet k =
     new_packet\<lparr>p_headers := map (shift_header k) (used_headers old_packet) @
       drop (length (used_headers old_packet)) (p_headers new_packet)\<rparr>"
  by (simp add: packet_copy_headers_def header_count_used)

lemma shift_header_simps [simp]:
  "h_type (shift_header k h) = h_type h" "header_bytes (shift_header k h) = header_bytes h"
  "total_bytes (shift_header k h) = total_bytes h" "h_ptr (shift_header k h) = map_option ((+) k) (h_ptr h)"
  by (simp_all add: shift_header_def)

lemma shift_header_0 [simp]: "shift_header 0 = (\<lambda>h. h)"
proof -
  have "map_option ((+) 0) x = x" for x :: "nat option" by (cases x) simp_all
  then show ?thesis by (intro ext header.equality) (simp_all add: shift_header_def)
qed

lemma headers_apart_shift: "headers_apart (map (shift_header k) hs) = headers_apart hs"
  by (simp add: headers_apart_def sorted_wrt_map) (auto intro!: sorted_wrt_mono_rel [rotated] split: option.splits)

lemma header_ready_shift:
  assumes "header_ready b h" "k + length b \<le> length b'" "\<forall>i < length b. b' ! (k + i) = b ! i"
  shows "header_ready b' (shift_header k h)"
proof -
  obtain p where p: "h_ptr h = Some p" using assms(1) by (auto simp: header_ready_def split: option.splits)
  have len: "p + header_bytes h \<le> length b" using assms(1) p by (simp add: header_ready_def)
  have "b' ! (k + p) = b ! p" if "0 < header_bytes h" using that len assms(3) by simp
  moreover have "b' ! Suc (k + p) = b ! Suc p" if "1 < header_bytes h"
    using that len assms(3) [rule_format, of "Suc p"] by simp
  moreover have "4 \<le> header_bytes h" if "h_type h = HEADER_GRE"
    using that assms(1) p by (auto simp: header_ready_def dest: gre_len_cases)
  ultimately show ?thesis using assms(1,2) p by (auto simp: header_ready_def)
qed

lemma header_ready_take:
  assumes "header_ready b h" "h_ptr h = Some p" "p + header_bytes h \<le> n" "n \<le> length b"
  shows "header_ready (take n b) h"
proof -
  have "4 \<le> header_bytes h" if "h_type h = HEADER_GRE"
    using that assms(1,2) by (auto simp: header_ready_def dest: gre_len_cases)
  then show ?thesis using assms by (auto simp: header_ready_def)
qed

lemma copy_with_headroom_eq:
  assumes "packet_end old = Done n" "n \<le> length (p_buffer old)" "n \<le> 128 * 1024"
  shows "packet_copy_with_headroom fill old k =
    Done (packet_duplicate_info (packet_new (map fill [0..<k] @ take n (p_buffer old))) old k 0)"
proof -
  have "store (map fill [0..<k + n]) k (take n (p_buffer old)) = Done (map fill [0..<k] @ take n (p_buffer old))"
    using assms(2) by (simp add: store_def poke_def take_map)
  moreover have "(packet_new b)\<lparr>p_buffer := c\<rparr> = packet_new c" for b c by (simp add: packet_new_def)
  ultimately show ?thesis
    using assms by (simp add: packet_copy_with_headroom_def check_def Let_def ld_bytes_def)
qed

lemma finish_from_none:
  assumes "p_headers packet = us @ ns" "\<forall>h \<in> set ns. h_type h = HEADER_NONE"
  shows "finish_from (length us + length ns) packet = finish_from (length us) packet"
  using assms
proof (induction ns arbitrary: us)
  case (Cons h ns)
  have "finish_from (length us + length (h # ns)) packet = finish_from (length (us @ [h])) packet"
    using Cons.IH [of "us @ [h]"] Cons.prems by simp
  then show ?case using Cons.prems by (simp add: nth_append)
qed simp

lemma finish_all:
  assumes "p_headers packet = us @ [t] @ ns" "\<forall>h \<in> set ns. h_type h = HEADER_NONE"
    "\<forall>h \<in> set us. header_ready (p_buffer packet) h" "headers_apart us"
    "h_type t \<noteq> HEADER_NONE" "h_type t \<notin> outer_types" "sum_list (map header_bytes us) + total_bytes t \<le> 0xffff"
  shows "\<exists>b. packet_finish_encapsulation_headers packet = Done (packet\<lparr>p_headers := finish_chain us [t] @ ns, p_buffer := b\<rparr>) \<and>
    length b = length (p_buffer packet) \<and> (\<forall>k < length b. outside us k \<longrightarrow> b ! k = p_buffer packet ! k) \<and>
    (\<forall>i < length us. header_finished b (finish_chain us [t] ! i) (finish_chain us [t] ! Suc i))"
proof -
  have "finish_from (length (p_headers packet)) packet = finish_from (length (us @ [t])) packet"
    using finish_from_none [of packet "us @ [t]" ns] assms(1,2) by simp
  also have "\<dots> = finish_from (length us) packet"
  proof -
    have "finish_header packet (length us) nx = Done packet" for nx
      using assms(1,6) by (simp add: finish_header_def nth_append outer_types_def split: header_t.split)
    then show ?thesis using assms(1,5) by (simp add: nth_append)
  qed
  finally show ?thesis
    unfolding packet_finish_encapsulation_headers_def
    using finish_from_ok [of packet us "[t]" ns] assms by simp
qed

lemma chain_ready:
  assumes "outer_chain b n hs"
  shows "\<forall>h \<in> set hs. h_type h \<noteq> HEADER_NONE" "headers_apart hs"
    "h \<in> set hs \<Longrightarrow> \<exists>p. h_ptr h = Some p \<and> p + header_bytes h \<le> n \<and> header_ready b h"
  using assms by (auto simp: outer_chain_def header_ready_def outer_types_def split: option.splits)

lemma chain_append:
  assumes "outer_chain b k ohs" "outer_chain c n ihs" "k \<le> length b" "n \<le> length c"
  shows "headers_apart (ohs @ map (shift_header k) ihs)"
    "\<forall>h \<in> set (ohs @ map (shift_header k) ihs). header_ready (take k b @ take n c) h"
proof -
  show "headers_apart (ohs @ map (shift_header k) ihs)"
    using chain_ready(2) [OF assms(1)] chain_ready(2) [OF assms(2)] headers_apart_shift [of k ihs]
      chain_ready(3) [OF assms(1)] chain_ready(3) [OF assms(2)]
    by (fastforce simp: headers_apart_def sorted_wrt_append)
  show "\<forall>h \<in> set (ohs @ map (shift_header k) ihs). header_ready (take k b @ take n c) h"
  proof
    fix h assume "h \<in> set (ohs @ map (shift_header k) ihs)"
    then consider "h \<in> set ohs" | i where "i \<in> set ihs" "h = shift_header k i" by auto
    then show "header_ready (take k b @ take n c) h"
    proof cases
      case 1
      then obtain p where p: "h_ptr h = Some p" "p + header_bytes h \<le> k" "header_ready b h"
        using chain_ready(3) [OF assms(1)] by blast
      have "shift_header 0 h = h" by simp
      then show ?thesis
        using header_ready_shift [OF header_ready_take [OF p(3,1,2) assms(3)], of 0 "take k b @ take n c"] assms(3)
        by (simp add: nth_append)
    next
      case 2
      then obtain p where p: "h_ptr i = Some p" "p + header_bytes i \<le> n" "header_ready c i"
        using chain_ready(3) [OF assms(2)] by blast
      show ?thesis
        unfolding 2(2) by (rule header_ready_shift [OF header_ready_take [OF p(3,1,2) assms(4)]])
          (use assms(3,4) in \<open>auto simp: nth_append\<close>)
    qed
  qed
qed

lemma encapsulate_ok:
  assumes clean: "packet_clean outer" "packet_clean inner"
    and us: "used_headers outer = ohs" "used_headers inner = ihs @ [t]"
    and os: "outer_chain (p_buffer outer) (p_ip_bytes outer) ohs" "p_ip_bytes outer \<le> length (p_buffer outer)"
    and inr: "outer_chain (p_buffer inner) n ihs" "packet_end inner = Done n" "n \<le> length (p_buffer inner)" "n \<le> 128 * 1024"
    and t: "h_type t \<notin> outer_types"
    and count: "length ohs + length ihs < PACKET_MAX_HEADERS"
    and total: "sum_list (map header_bytes (ohs @ ihs)) + total_bytes t \<le> 0xffff"
  defines "k \<equiv> p_ip_bytes outer"
  defines "hs \<equiv> ohs @ map (shift_header k) ihs"
  shows "\<exists>packet. packet_encapsulate fill outer inner = Done packet \<and>
    used_headers packet = finish_chain hs [shift_header k t] \<and>
    (\<forall>i < length hs. header_finished (p_buffer packet) (used_headers packet ! i) (used_headers packet ! Suc i)) \<and>
    length (p_buffer packet) = k + n \<and> p_ip_bytes packet = k + p_ip_bytes inner \<and>
    (\<forall>j < k. outside hs j \<longrightarrow> p_buffer packet ! j = p_buffer outer ! j) \<and>
    (\<forall>j < n. outside hs (k + j) \<longrightarrow> p_buffer packet ! (k + j) = p_buffer inner ! j)"
proof -
  let ?bo = "p_buffer outer" and ?bi = "p_buffer inner"
  let ?t = "shift_header k t"
  define ns where "ns = replicate (PACKET_MAX_HEADERS - (length ohs + length ihs + 1)) no_header"
  have tn: "h_type t \<noteq> HEADER_NONE"
  proof -
    have "t \<in> set (used_headers inner)" using us(2) by simp
    then show ?thesis by (auto simp: used_headers_def dest: set_takeWhileD)
  qed
  have cnt: "packet_header_count outer = length ohs" "packet_header_count inner = Suc (length ihs)"
    using us by (simp_all add: header_count_used)
  have k: "k \<le> length ?bo" using os(2) by (simp add: k_def)
  define c where "c = packet_duplicate_info (packet_new (map fill [0..<k] @ take n ?bi)) inner k 0"
  have copy: "packet_copy_with_headroom fill inner (p_ip_bytes outer) = Done c"
    using copy_with_headroom_eq [OF inr(2,3,4)] by (simp add: c_def k_def)
  have ch: "p_headers c = map (shift_header k) (ihs @ [t]) @ replicate (PACKET_MAX_HEADERS - Suc (length ihs)) no_header"
    "p_buffer c = map fill [0..<k] @ take n ?bi"
    by (simp_all add: c_def packet_duplicate_info_def copy_headers_eq us(2) packet_new_def)
  have st: "ld_bytes ?bo 0 (p_ip_bytes outer) = Done (take k ?bo)"
    "store (p_buffer c) 0 (take k ?bo) = Done (take k ?bo @ take n ?bi)"
    using k by (simp_all add: ld_bytes_def k_def store_def ch poke_def)
  define hd1 where "hd1 = take (length ohs) (p_headers c) @ take (Suc (length ihs)) (p_headers c) @
    drop (length ohs + Suc (length ihs)) (p_headers c)"
  have dhd: "drop (length ohs) hd1 = map (shift_header k) (ihs @ [t]) @ ns"
    using count by (simp add: hd1_def ch ns_def)
  define e where "e = packet_copy_headers (c\<lparr>p_buffer := take k ?bo @ take n ?bi, p_headers := hd1\<rparr>) outer 0"
  have eh: "p_headers e = hs @ [?t] @ ns" and eb: "p_buffer e = take k ?bo @ take n ?bi"
    using dhd by (simp_all add: e_def copy_headers_eq us(1) hs_def)
  have hn: "\<forall>h \<in> set (hs @ [?t]). h_type h \<noteq> HEADER_NONE" "\<forall>h \<in> set ns. h_type h = HEADER_NONE"
    using chain_ready(1) [OF os(1)] chain_ready(1) [OF inr(1)] tn by (auto simp: hs_def ns_def no_header_def)
  have ec: "packet_header_count e = length ohs + Suc (length ihs)"
    using used_of_list(2) [OF hn, of e] eh by (simp add: hs_def)
  have ready: "headers_apart hs" "\<forall>h \<in> set hs. header_ready (p_buffer e) h"
    using chain_append [OF os(1) [folded k_def] inr(1) k inr(3)] by (simp_all add: hs_def eb)
  have sum: "sum_list (map header_bytes hs) + total_bytes ?t \<le> 0xffff"
    using total by (simp add: hs_def comp_def)
  obtain b where b: "packet_finish_encapsulation_headers e = Done (e\<lparr>p_headers := finish_chain hs [?t] @ ns, p_buffer := b\<rparr>)"
    "length b = length (p_buffer e)" "\<forall>j < length b. outside hs j \<longrightarrow> b ! j = p_buffer e ! j"
    "\<forall>i < length hs. header_finished b (finish_chain hs [?t] ! i) (finish_chain hs [?t] ! Suc i)"
    using finish_all [OF eh hn(2) ready(2,1) _ _ sum] tn t by auto
  define r where "r = e\<lparr>p_headers := finish_chain hs [?t] @ ns, p_buffer := b, p_ip_bytes := k + p_ip_bytes inner\<rparr>"
  have enc: "packet_encapsulate fill outer inner = Done r"
    using count copy st(1) ec
    unfolding packet_encapsulate_def cnt Let_def copy rbind.simps st check_def hd1_def [symmetric] e_def [symmetric]
    by (simp add: b r_def k_def)
  have "map h_type (finish_chain hs [?t]) = map h_type (hs @ [?t])" by simp
  then have "\<forall>h \<in> set (finish_chain hs [?t]). h_type h \<noteq> HEADER_NONE"
    using hn(1) by (metis (mono_tags, lifting) image_eqI image_iff list.set_map)
  then have "used_headers r = finish_chain hs [?t]"
    using used_of_list(1) [OF _ hn(2), of "finish_chain hs [?t]" r] by (simp add: r_def)
  moreover have "length b = k + n" using b(2) k inr(3) by (simp add: eb)
  ultimately show ?thesis
    using enc b(3,4) k inr(3) by (intro exI [of _ r]) (auto simp: r_def eb nth_append)
qed


definition gre_outer :: packet where
  "gre_outer = (packet_new (0x45 # replicate 23 0))\<lparr>p_ip_bytes := 24,
     p_headers := [\<lparr>h_type = HEADER_IPV4, header_bytes = 20, total_bytes = 0, h_ptr = Some 0\<rparr>,
       \<lparr>h_type = HEADER_GRE, header_bytes = 4, total_bytes = 0, h_ptr = Some 20\<rparr>] @ replicate 4 no_header\<rparr>"

definition udp_inner :: packet where
  "udp_inner = (packet_new (0x45 # replicate 27 7))\<lparr>p_ip_bytes := 28, p_ipv4 := Some 0, p_udp := Some 20,
     p_headers := [\<lparr>h_type = HEADER_IPV4, header_bytes = 20, total_bytes = 28, h_ptr = Some 0\<rparr>,
       \<lparr>h_type = HEADER_UDP, header_bytes = 8, total_bytes = 8, h_ptr = Some 20\<rparr>] @ replicate 4 no_header\<rparr>"

lemma encap_examples:
  "packet_clean gre_outer" "packet_clean udp_inner"
  "used_headers gre_outer = [\<lparr>h_type = HEADER_IPV4, header_bytes = 20, total_bytes = 0, h_ptr = Some 0\<rparr>,
     \<lparr>h_type = HEADER_GRE, header_bytes = 4, total_bytes = 0, h_ptr = Some 20\<rparr>]"
  "used_headers udp_inner = [\<lparr>h_type = HEADER_IPV4, header_bytes = 20, total_bytes = 28, h_ptr = Some 0\<rparr>] @
     [\<lparr>h_type = HEADER_UDP, header_bytes = 8, total_bytes = 8, h_ptr = Some 20\<rparr>]"
  "outer_chain (p_buffer gre_outer) 24 [\<lparr>h_type = HEADER_IPV4, header_bytes = 20, total_bytes = 0, h_ptr = Some 0\<rparr>,
     \<lparr>h_type = HEADER_GRE, header_bytes = 4, total_bytes = 0, h_ptr = Some 20\<rparr>]"
  "outer_chain (p_buffer udp_inner) 28 [\<lparr>h_type = HEADER_IPV4, header_bytes = 20, total_bytes = 28, h_ptr = Some 0\<rparr>]"
  "packet_end udp_inner = Done 28" "length (p_buffer gre_outer) = 24" "length (p_buffer udp_inner) = 28"
  "p_ip_bytes gre_outer = 24" "p_ip_bytes udp_inner = 28"
  by code_simp+


subsection \<open>Copies, from end to end\<close>

lemma offset_ptr_0 [simp]: "offset_ptr 0 x = x"
  by (cases x) (simp_all add: offset_ptr_def)

text \<open>A copy has the bytes of the old packet up to its end, the same headers in use and every other
  field, whatever the new block held; only the link-layer length and the recorded maximum segment size are
  those of a new packet.\<close>
theorem packet_copy_same:
  assumes "packet_end old = Done n" "n \<le> length (p_buffer old)" "n \<le> 128 * 1024"
  shows "packet_copy fill old = Done (old\<lparr>p_buffer := take n (p_buffer old), p_l2_header_bytes := 0, p_mss := 0,
    p_headers := used_headers old @ replicate (PACKET_MAX_HEADERS - packet_header_count old) no_header\<rparr>)"
proof -
  have "packet_copy fill old = Done (packet_duplicate_info (packet_new (take n (p_buffer old))) old 0 0)"
    using copy_with_headroom_eq [OF assms, of fill 0] by (simp add: packet_copy_def)
  then show ?thesis
    by (simp add: packet_duplicate_info_def copy_headers_eq header_count_used packet_new_def)
qed

theorem packet_copy_same_witness:
  "packet_copy (\<lambda>_. 9) udp_inner = Done (udp_inner\<lparr>p_buffer := take 28 (p_buffer udp_inner), p_l2_header_bytes := 0, p_mss := 0,
    p_headers := used_headers udp_inner @ replicate (PACKET_MAX_HEADERS - packet_header_count udp_inner) no_header\<rparr>)"
  by (rule packet_copy_same) (simp_all add: encap_examples(7,9))

subsection \<open>Aggregation, from end to end\<close>

text \<open>The bytes of the payload of a packet, when it lies in its buffer.\<close>

definition payload_bytes :: "packet \<Rightarrow> bytes option" where
  "payload_bytes packet = (case (packet_payload packet, packet_payload_len packet) of
     (Done p, Done n) \<Rightarrow> if 0 \<le> n \<and> p + nat n \<le> length (p_buffer packet) then Some (segment (p_buffer packet) p (nat n)) else None
   | _ \<Rightarrow> None)"

lemma payload_bytesE:
  assumes "payload_bytes packet = Some bs"
  obtains p where "packet_payload packet = Done p" "packet_payload_len packet = Done (int (length bs))"
    "ld_bytes (p_buffer packet) p (length bs) = Done bs"
  using assms by (auto simp: payload_bytes_def ld_bytes_segment split: run.splits if_splits)

lemma poke_append_poke:
  assumes "i + length xs + length ys \<le> length bs"
  shows "poke (poke bs i xs) (i + length xs) ys = poke bs i (xs @ ys)"
  by (rule nth_equalityI) (use assms in \<open>auto simp: nth_poke nth_append\<close>)

lemma copy_payloads_eq:
  assumes "list_all2 (\<lambda>p bs. payload_bytes p = Some bs) ps bss" "base + length (concat bss) \<le> length buf"
  shows "copy_payloads buf base ps = Done (poke buf base (concat bss))"
  using assms
proof (induction ps bss arbitrary: buf base rule: list_all2_induct)
  case Nil
  then show ?case by (simp add: poke_def)
next
  case (Cons p ps bs bss)
  obtain q where q: "packet_payload p = Done q" "packet_payload_len p = Done (int (length bs))"
    "ld_bytes (p_buffer p) q (length bs) = Done bs"
    using payload_bytesE [OF Cons.hyps(1)] .
  have "copy_payloads buf base (p # ps) = copy_payloads (poke buf base bs) (base + length bs) ps"
    using q Cons.prems by (simp add: store_in)
  also have "\<dots> = Done (poke (poke buf base bs) (base + length bs) (concat bss))"
    by (rule Cons.IH) (use Cons.prems in simp)
  also have "\<dots> = Done (poke buf base (concat (bs # bss)))"
    using Cons.prems by (simp add: poke_append_poke)
  finally show ?case .
qed

definition more_bytes :: "nat \<Rightarrow> header \<Rightarrow> header" where
  "more_bytes extra h = h\<lparr>total_bytes := total_bytes h + extra\<rparr>"

lemma more_bytes_simps [simp]:
  "h_type (more_bytes e h) = h_type h" "header_bytes (more_bytes e h) = header_bytes h"
  "h_ptr (more_bytes e h) = h_ptr h" "total_bytes (more_bytes e h) = total_bytes h + e"
  by (simp_all add: more_bytes_def)

lemma adjust_headers_eq:
  assumes "p_headers packet = pre @ us @ [t] @ ns" "\<forall>h \<in> set us. h_type h \<notin> {HEADER_NONE, HEADER_TCP}"
    "h_type t = HEADER_TCP" "\<forall>h \<in> set ns. h_type h = HEADER_NONE"
  shows "adjust_headers (length (us @ [t] @ ns)) (length pre) first_packet (int e) packet =
    copy_seq_cwr first_packet (packet\<lparr>p_headers := pre @ map (more_bytes e) (us @ [t]) @ ns\<rparr>)"
  using assms
proof (induction us arbitrary: pre packet)
  case Nil
  have n: "nat (int n + int e) = n + e" for n by simp
  have stop: "adjust_headers (length ns) (Suc (length pre)) first_packet (int e) q = Done q"
    if "p_headers q = pre @ [t'] @ ns" for q t'
    using that Nil(4) by (cases ns) (simp_all add: Let_def nth_append)
  have "set_total_bytes (length pre) (total_bytes t + e) packet = packet\<lparr>p_headers := pre @ [more_bytes e t] @ ns\<rparr>"
    using Nil(1) by (simp add: set_total_bytes_def list_update_append more_bytes_def)
  moreover have "copy_seq_cwr first_packet q = Done r \<Longrightarrow> p_headers r = p_headers q" for q r
    by (auto simp: copy_seq_cwr_def run_simps split: option.splits)
  ultimately show ?case
    using Nil(1,3) by (cases "copy_seq_cwr first_packet (packet\<lparr>p_headers := pre @ [more_bytes e t] @ ns\<rparr>)")
      (simp_all add: Let_def n nth_append stop)
next
  case (Cons h us)
  let ?q = "set_total_bytes (length pre) (total_bytes h + e) packet"
  have q: "p_headers ?q = (pre @ [more_bytes e h]) @ us @ [t] @ ns"
    using Cons.prems(1) by (simp add: set_total_bytes_def list_update_append more_bytes_def)
  have n: "nat (int n + int e) = n + e" for n by simp
  have "adjust_headers (length ((h # us) @ [t] @ ns)) (length pre) first_packet (int e) packet =
    adjust_headers (length (us @ [t] @ ns)) (length (pre @ [more_bytes e h])) first_packet (int e) ?q"
    using Cons.prems(1,2) by (simp add: Let_def n nth_append)
  also have "\<dots> = copy_seq_cwr first_packet (?q\<lparr>p_headers := (pre @ [more_bytes e h]) @ map (more_bytes e) (us @ [t]) @ ns\<rparr>)"
    by (rule Cons.IH [OF q]) (use Cons.prems in auto)
  finally show ?case by (simp add: set_total_bytes_def)
qed

text \<open>The buffer with sequence number and cwr bit of the first packet.\<close>

lemma copy_seq_cwr_eq:
  assumes "p_tcp packet = Some tcp" "p_tcp first_packet = Some tcp0" "tcp + 14 \<le> length (p_buffer packet)"
    "tcp0 + 14 \<le> length (p_buffer first_packet)"
  shows "\<exists>b. copy_seq_cwr first_packet packet = Done (packet\<lparr>p_buffer := b\<rparr>) \<and> length b = length (p_buffer packet) \<and>
    segment b (tcp + 4) 4 = segment (p_buffer first_packet) (tcp0 + 4) 4 \<and>
    (b ! (tcp + 13) = (p_buffer packet ! (tcp + 13) AND 0x7f) OR (p_buffer first_packet ! (tcp0 + 13) AND 0x80)) \<and>
    (\<forall>j < length b. j \<notin> {tcp + 4..<tcp + 8} \<union> {tcp + 13} \<longrightarrow> b ! j = p_buffer packet ! j)"
proof -
  let ?b = "p_buffer packet" and ?f = "p_buffer first_packet"
  define b1 where "b1 = poke ?b (tcp + 4) (segment ?f (tcp0 + 4) 4)"
  define v where "v = (?b ! (tcp + 13) AND 0x7f) OR (?f ! (tcp0 + 13) AND 0x80)"
  define b where "b = poke b1 (tcp + 13) [v]"
  have len: "length b1 = length ?b" "length b = length ?b" using assms(3,4) by (simp_all add: b1_def b_def)
  have b1: "b1 ! j = (if tcp + 4 \<le> j \<and> j < tcp + 8 then ?f ! (tcp0 + (j - tcp)) else ?b ! j)" if "j < length ?b" for j
    using that assms(3,4) by (auto simp: b1_def nth_poke nth_segment)
  have b: "b ! j = (if j = tcp + 13 then v else b1 ! j)" if "j < length ?b" for j
    using that assms(3) len(1) by (auto simp: b_def nth_poke)
  have s: "ld_bytes ?f (tcp0 + 4) 4 = Done (segment ?f (tcp0 + 4) 4)"
    "store ?b (tcp + 4) (segment ?f (tcp0 + 4) 4) = Done b1" "ld8 ?f (tcp0 + 13) = Done (?f ! (tcp0 + 13))"
    "ld8 b1 (tcp + 13) = Done (?b ! (tcp + 13))" "store b1 (tcp + 13) [v] = Done b"
    using assms(3,4) len b1 by (simp_all add: ld_bytes_segment store_in b1_def [symmetric] b_def ld8_def)
  have "copy_seq_cwr first_packet packet = Done (packet\<lparr>p_buffer := b\<rparr>)"
    unfolding copy_seq_cwr_def assms(1,2) prod.case option.case s rbind.simps v_def [symmetric] by (simp add: s)
  moreover have "segment b (tcp + 4) 4 = segment ?f (tcp0 + 4) 4"
    by (rule nth_equalityI) (use assms(3,4) len b b1 in \<open>auto simp: nth_segment add.assoc\<close>)
  moreover have "b ! (tcp + 13) = v" "\<forall>j < length b. j \<notin> {tcp + 4..<tcp + 8} \<union> {tcp + 13} \<longrightarrow> b ! j = ?b ! j"
    using b b1 len assms(3) by auto
  ultimately show ?thesis using len by (auto simp: v_def)
qed

lemma outer_chain_cong:
  assumes "outer_chain b n hs" "n \<le> length b'" "\<forall>j < n. b' ! j = b ! j" "n \<le> length b"
  shows "outer_chain b' n hs"
proof -
  have "header_ready b' h" if h: "h \<in> set hs" for h
  proof -
    obtain p where p: "h_ptr h = Some p" "p + header_bytes h \<le> n" "header_ready b h"
      using chain_ready(3) [OF assms(1) h] by blast
    have "take n b' = take n b" by (rule nth_equalityI) (use assms in simp_all)
    then have "header_ready (take n b') h" using header_ready_take [OF p(3,1,2) assms(4)] by simp
    then show ?thesis
      using header_ready_shift [of "take n b'" h 0 b'] assms(2) by simp
  qed
  then show ?thesis using assms(1) by (simp add: outer_chain_def)
qed

lemma more_bytes_chain:
  "outer_chain b n (map (more_bytes e) us) = outer_chain b n us" "outside (map (more_bytes e) us) = outside us"
proof -
  have r: "header_ready b (more_bytes e h) = header_ready b h" for h
    by (cases "h_ptr h") (simp_all add: header_ready_def)
  have e: "(case h_ptr h of None \<Rightarrow> f | Some p \<Rightarrow> g p (header_bytes (more_bytes e h))) =
    (case h_ptr h of None \<Rightarrow> f | Some p \<Rightarrow> g p (header_bytes h))" for f :: bool and g h
    by (cases "h_ptr h") simp_all
  have "headers_apart (map (more_bytes e) us) = headers_apart us"
    by (simp add: headers_apart_def sorted_wrt_map) (auto intro!: sorted_wrt_mono_rel [rotated] split: option.splits)
  then show "outer_chain b n (map (more_bytes e) us) = outer_chain b n us"
    using e [where f = False and g = "\<lambda>p m. p + m \<le> n"] by (simp add: outer_chain_def r)
  show "outside (map (more_bytes e) us) = outside us"
    using e [where f = True and g = "\<lambda>p m. k < p \<or> p + m \<le> k" for k] by (simp add: outside_def fun_eq_iff)
qed

lemma aggregate_ok:
  assumes ps: "packets \<noteq> []" "list_all2 (\<lambda>p bs. payload_bytes p = Some bs) packets bss"
    and old: "used_headers (last packets) = us @ [t]" "h_type t = HEADER_TCP" "\<forall>h \<in> set us. h_type h \<noteq> HEADER_TCP"
      "p_tcp (last packets) = Some tcp" "packet_payload (last packets) = Done hl" "tcp + 14 \<le> hl"
      "outer_chain (p_buffer (last packets)) tcp us"
    and first: "p_tcp (hd packets) = Some tcp0" "tcp0 + 14 \<le> length (p_buffer (hd packets))"
    and total: "sum_list (map header_bytes us) + total_bytes t + length (concat bss) \<le> 0xffff + length (last bss)"
  defines "e \<equiv> length (concat bss) - length (last bss)"
  shows "\<exists>packet. aggregate_packets fill packets (int (length (concat bss))) = Done packet \<and>
    used_headers packet = finish_chain (map (more_bytes e) us) [more_bytes e t] \<and>
    (\<forall>i < length us. header_finished (p_buffer packet) (used_headers packet ! i) (used_headers packet ! Suc i)) \<and>
    length (p_buffer packet) = hl + length (concat bss) \<and> drop hl (p_buffer packet) = concat bss \<and>
    segment (p_buffer packet) (tcp + 4) 4 = segment (p_buffer (hd packets)) (tcp0 + 4) 4 \<and>
    (p_buffer packet ! (tcp + 13) = (p_buffer (last packets) ! (tcp + 13) AND 0x7f) OR (p_buffer (hd packets) ! (tcp0 + 13) AND 0x80)) \<and>
    (\<forall>j < hl. outside us j \<and> j \<notin> {tcp + 4..<tcp + 8} \<union> {tcp + 13} \<longrightarrow> p_buffer packet ! j = p_buffer (last packets) ! j)"
proof -
  let ?old = "last packets" and ?first = "hd packets" and ?P = "concat bss"
  have bne: "bss \<noteq> []" and len: "length packets = length bss" using ps by (auto dest: list_all2_lengthD)
  then have lb: "payload_bytes ?old = Some (last bss)"
    using ps list_all2_nthD [OF ps(2), of "length bss - 1"] by (simp add: last_conv_nth)
  have le: "length (last bss) \<le> length ?P"
    using bne by (metis append_butlast_last_id concat.simps(1,2) concat_append append_Nil2 length_append le_add2)
  have ol: "packet_payload_len ?old = Done (int (length (last bss)))" "ld_bytes (p_buffer ?old) hl (length (last bss)) = Done (last bss)"
    using payload_bytesE [OF lb] old(5) by auto
  obtain oe where oe: "packet_end ?old = Done oe" "oe = hl + length (last bss)"
    using ol(1) old(5) by (auto simp: packet_payload_len_def run_simps)
  have blen: "hl + length (last bss) \<le> length (p_buffer ?old)"
    using lb old(5) ol(1) by (auto simp: payload_bytes_def split: if_splits)
  define b0 where "b0 = take hl (p_buffer ?old) @ ?P"
  have n: "int oe + (int (length ?P) - int (length (last bss))) = int (hl + length ?P)"
    "int (length ?P) - int (length (last bss)) = int e" using oe(2) le by (simp_all add: e_def)
  have nn: "nat (int oe + int e) = hl + length ?P" using n by simp
  have st: "ld_bytes (p_buffer ?old) 0 hl = Done (take hl (p_buffer ?old))"
    "store (map fill [0..<hl + length ?P]) 0 (take hl (p_buffer ?old)) = Done (take hl (p_buffer ?old) @ drop hl (map fill [0..<hl + length ?P]))"
    using blen by (simp_all add: ld_bytes_def store_def poke_def)
  have cp: "copy_payloads (take hl (p_buffer ?old) @ drop hl (map fill [0..<hl + length ?P])) hl packets = Done b0"
    using copy_payloads_eq [OF ps(2), of hl "take hl (p_buffer ?old) @ drop hl (map fill [0..<hl + length ?P])"] blen
    by (simp add: b0_def poke_def)
  define ns where "ns = replicate (PACKET_MAX_HEADERS - Suc (length us)) no_header"
  define c where "c = packet_duplicate_info (packet_new b0) ?old 0 (int e)"
  have c: "p_headers c = [] @ us @ [t] @ ns" "p_buffer c = b0" "p_tcp c = Some tcp"
    by (simp_all add: c_def packet_duplicate_info_def copy_headers_eq old(1,4) packet_new_def ns_def)
  have hn: "\<forall>h \<in> set ns. h_type h = HEADER_NONE" by (simp add: ns_def no_header_def)
  have un: "\<forall>h \<in> set us. h_type h \<notin> {HEADER_NONE, HEADER_TCP}"
    using old(3) chain_ready(1) [OF old(7)] by auto
  define d where "d = c\<lparr>p_headers := map (more_bytes e) us @ [more_bytes e t] @ ns\<rparr>"
  have adj: "adjust_headers (length (p_headers c)) 0 ?first (int e) c = copy_seq_cwr ?first d"
    using adjust_headers_eq [OF c(1) un old(2) hn] c(1) by (simp add: d_def)
  have b0: "b0 ! j = p_buffer ?old ! j" if "j < hl" for j using that blen by (simp add: b0_def nth_append)
  have l0: "length b0 = hl + length ?P" using blen by (simp add: b0_def)
  obtain b where b: "copy_seq_cwr ?first d = Done (d\<lparr>p_buffer := b\<rparr>)" "length b = length b0"
    "segment b (tcp + 4) 4 = segment (p_buffer ?first) (tcp0 + 4) 4"
    "b ! (tcp + 13) = (b0 ! (tcp + 13) AND 0x7f) OR (p_buffer ?first ! (tcp0 + 13) AND 0x80)"
    "\<forall>j < length b. j \<notin> {tcp + 4..<tcp + 8} \<union> {tcp + 13} \<longrightarrow> b ! j = b0 ! j"
    using copy_seq_cwr_eq [of d tcp ?first tcp0] first old(6) l0 c by (auto simp: d_def)
  have chain: "outer_chain b tcp (map (more_bytes e) us)"
    unfolding more_bytes_chain by (rule outer_chain_cong [OF old(7)]) (use b(2,5) l0 b0 old(6) blen in auto)
  have eh: "p_headers (d\<lparr>p_buffer := b\<rparr>) = map (more_bytes e) us @ [more_bytes e t] @ ns" by (simp add: d_def)
  have rd: "\<forall>h \<in> set (map (more_bytes e) us). header_ready (p_buffer (d\<lparr>p_buffer := b\<rparr>)) h"
    using chain by (simp add: outer_chain_def)
  have sum: "sum_list (map header_bytes (map (more_bytes e) us)) + total_bytes (more_bytes e t) \<le> 0xffff"
    using total le by (simp add: comp_def e_def)
  have tt: "h_type (more_bytes e t) \<noteq> HEADER_NONE" "h_type (more_bytes e t) \<notin> outer_types"
    using old(2) by (simp_all add: outer_types_def)
  obtain r where r: "packet_finish_encapsulation_headers (d\<lparr>p_buffer := b\<rparr>) =
      Done (d\<lparr>p_headers := finish_chain (map (more_bytes e) us) [more_bytes e t] @ ns, p_buffer := r\<rparr>)"
    "length r = length b" "\<forall>j < length r. outside us j \<longrightarrow> r ! j = b ! j"
    "\<forall>i < length us. header_finished r (finish_chain (map (more_bytes e) us) [more_bytes e t] ! i)
       (finish_chain (map (more_bytes e) us) [more_bytes e t] ! Suc i)"
    using finish_all [OF eh hn rd chain_ready(2) [OF chain] tt sum] by (auto simp: more_bytes_chain)
  have beyond: "outside us j" if "tcp \<le> j" for j
    using that chain_ready(3) [OF old(7)] by (fastforce simp: outside_def split: option.split)
  have new: "(packet_new x)\<lparr>p_buffer := b0\<rparr> = packet_new b0" for x by (simp add: packet_new_def)
  define packet where "packet = d\<lparr>p_headers := finish_chain (map (more_bytes e) us) [more_bytes e t] @ ns, p_buffer := r\<rparr>"
  have agg: "aggregate_packets fill packets (int (length ?P)) = Done packet"
    unfolding aggregate_packets_def Let_def ol(1) rbind.simps old(5) oe(1) n(2) nn
    by (simp add: n st cp new c_def [symmetric] adj b(1) r(1) packet_def del: adjust_headers.simps)
  have ty: "\<forall>h \<in> set (map (more_bytes e) us @ [more_bytes e t]). h_type h \<noteq> HEADER_NONE"
    using un old(2) by auto
  have us: "used_headers packet = finish_chain (map (more_bytes e) us) [more_bytes e t]"
  proof (rule used_of_list(1) [OF _ hn])
    have "map h_type (finish_chain (map (more_bytes e) us) [more_bytes e t]) = map h_type (map (more_bytes e) us @ [more_bytes e t])"
      by simp
    then show "\<forall>h \<in> set (finish_chain (map (more_bytes e) us) [more_bytes e t]). h_type h \<noteq> HEADER_NONE"
      using ty by (metis (mono_tags, lifting) image_eqI image_iff list.set_map)
  qed (simp add: packet_def)
  have lr: "length r = hl + length ?P" using r(2) b(2) l0 by simp
  have late: "r ! j = b ! j" if "tcp \<le> j" "j < hl + length ?P" for j using that r(3) lr beyond by simp
  have "drop hl r = ?P"
  proof (rule nth_equalityI)
    show "length (drop hl r) = length ?P" using lr by simp
    show "drop hl r ! j = ?P ! j" if "j < length (drop hl r)" for j
      using that lr late [of "hl + j"] b(2,5) l0 old(6) blen by (simp add: b0_def nth_append)
  qed
  moreover have "segment r (tcp + 4) 4 = segment (p_buffer ?first) (tcp0 + 4) 4"
    unfolding b(3) [symmetric] by (rule segment_eqI) (use late lr b(2) l0 old(6) in auto)
  moreover have "r ! (tcp + 13) = (p_buffer ?old ! (tcp + 13) AND 0x7f) OR (p_buffer ?first ! (tcp0 + 13) AND 0x80)"
    using late [of "tcp + 13"] b(4) b0 [of "tcp + 13"] old(6) by simp
  moreover have "\<forall>j < hl. outside us j \<and> j \<notin> {tcp + 4..<tcp + 8} \<union> {tcp + 13} \<longrightarrow> r ! j = p_buffer ?old ! j"
    using r(3) lr b(2,5) b0 l0 by simp
  ultimately show ?thesis
    using agg us r(4) lr unfolding us by (intro exI [of _ packet]) (simp add: packet_def us [unfolded packet_def])
qed

text \<open>Aggregation. When every packet of the list has its payload in its buffer and the last one has the
  headers \<open>us\<close> and a TCP header behind them, \<^verbatim>\<open>aggregate_packets\<close> returns one packet: its payload is the
  payloads of all packets in order, its headers are those of the last packet with total lengths grown by the
  other payloads and finished again, its sequence number and cwr bit are those of the first packet, and the
  rest of the headers is that of the last packet.\<close>
theorem aggregate_packets_payload:
  assumes "packets \<noteq> []" "list_all2 (\<lambda>p bs. payload_bytes p = Some bs) packets bss"
    and "used_headers (last packets) = us @ [t]" "h_type t = HEADER_TCP" "\<forall>h \<in> set us. h_type h \<noteq> HEADER_TCP"
      "p_tcp (last packets) = Some tcp" "packet_payload (last packets) = Done hl" "tcp + 14 \<le> hl"
      "outer_chain (p_buffer (last packets)) tcp us"
    and "p_tcp (hd packets) = Some tcp0" "tcp0 + 14 \<le> length (p_buffer (hd packets))"
    and "sum_list (map header_bytes us) + total_bytes t + length (concat bss) \<le> 0xffff + length (last bss)"
    and "e = length (concat bss) - length (last bss)"
  shows "\<exists>packet. aggregate_packets fill packets (int (length (concat bss))) = Done packet \<and>
    used_headers packet = finish_chain (map (more_bytes e) us) [more_bytes e t] \<and>
    (\<forall>i < length us. header_finished (p_buffer packet) (used_headers packet ! i) (used_headers packet ! Suc i)) \<and>
    length (p_buffer packet) = hl + length (concat bss) \<and> drop hl (p_buffer packet) = concat bss \<and>
    segment (p_buffer packet) (tcp + 4) 4 = segment (p_buffer (hd packets)) (tcp0 + 4) 4 \<and>
    (p_buffer packet ! (tcp + 13) = (p_buffer (last packets) ! (tcp + 13) AND 0x7f) OR (p_buffer (hd packets) ! (tcp0 + 13) AND 0x80)) \<and>
    (\<forall>j < hl. outside us j \<and> j \<notin> {tcp + 4..<tcp + 8} \<union> {tcp + 13} \<longrightarrow> p_buffer packet ! j = p_buffer (last packets) ! j)"
  unfolding assms(13) by (rule aggregate_ok) (use assms in auto)

definition tcp_segment :: "u8 \<Rightarrow> packet" where
  "tcp_segment x = (packet_new (0x45 # replicate 31 0 @ 0x50 # replicate 7 0 @ [x, x + 1]))\<lparr>p_ip_bytes := 42,
     p_ipv4 := Some 0, p_tcp := Some 20,
     p_headers := [\<lparr>h_type = HEADER_IPV4, header_bytes = 20, total_bytes = 42, h_ptr = Some 0\<rparr>,
       \<lparr>h_type = HEADER_TCP, header_bytes = 20, total_bytes = 22, h_ptr = Some 20\<rparr>] @ replicate 4 no_header\<rparr>"

lemma aggregate_example:
  "payload_bytes (tcp_segment 1) = Some [1, 2]" "payload_bytes (tcp_segment 3) = Some [3, 4]"
  "used_headers (tcp_segment 3) = [\<lparr>h_type = HEADER_IPV4, header_bytes = 20, total_bytes = 42, h_ptr = Some 0\<rparr>] @
     [\<lparr>h_type = HEADER_TCP, header_bytes = 20, total_bytes = 22, h_ptr = Some 20\<rparr>]"
  "packet_payload (tcp_segment 3) = Done 40" "length (p_buffer (tcp_segment 1)) = 42"
  "outer_chain (p_buffer (tcp_segment 3)) 20 [\<lparr>h_type = HEADER_IPV4, header_bytes = 20, total_bytes = 42, h_ptr = Some 0\<rparr>]"
  "p_tcp (tcp_segment 1) = Some 20" "p_tcp (tcp_segment 3) = Some 20"
  by code_simp+

theorem aggregate_packets_payload_witness:
  "\<exists>packet. aggregate_packets (\<lambda>_. 9) [tcp_segment 1, tcp_segment 3] 4 = Done packet \<and>
    drop 40 (p_buffer packet) = [1, 2, 3, 4]"
proof -
  have "\<exists>packet. aggregate_packets (\<lambda>_. 9) [tcp_segment 1, tcp_segment 3] (int (length (concat [[1, 2], [3, 4 :: u8]]))) = Done packet \<and>
    used_headers packet = finish_chain (map (more_bytes 2) [\<lparr>h_type = HEADER_IPV4, header_bytes = 20, total_bytes = 42, h_ptr = Some 0\<rparr>])
      [more_bytes 2 \<lparr>h_type = HEADER_TCP, header_bytes = 20, total_bytes = 22, h_ptr = Some 20\<rparr>] \<and>
    (\<forall>i < length [\<lparr>h_type = HEADER_IPV4, header_bytes = 20, total_bytes = 42, h_ptr = Some 0\<rparr>].
       header_finished (p_buffer packet) (used_headers packet ! i) (used_headers packet ! Suc i)) \<and>
    length (p_buffer packet) = 40 + length (concat [[1, 2], [3, 4 :: u8]]) \<and> drop 40 (p_buffer packet) = concat [[1, 2], [3, 4]] \<and>
    segment (p_buffer packet) (20 + 4) 4 = segment (p_buffer (hd [tcp_segment 1, tcp_segment 3])) (20 + 4) 4 \<and>
    (p_buffer packet ! (20 + 13) = (p_buffer (last [tcp_segment 1, tcp_segment 3]) ! (20 + 13) AND 0x7f) OR
       (p_buffer (hd [tcp_segment 1, tcp_segment 3]) ! (20 + 13) AND 0x80)) \<and>
    (\<forall>j < 40. outside [\<lparr>h_type = HEADER_IPV4, header_bytes = 20, total_bytes = 42, h_ptr = Some 0\<rparr>] j \<and>
       j \<notin> {20 + 4..<20 + 8} \<union> {20 + 13} \<longrightarrow> p_buffer packet ! j = p_buffer (last [tcp_segment 1, tcp_segment 3]) ! j)"
    by (rule aggregate_packets_payload [where bss = "[[1, 2], [3, 4]]"]) (simp_all add: aggregate_example)
  then show ?thesis by auto
qed

end
