(* ===== verification/IpAddress.thy ===== *)
theory IpAddress
  imports PacketEncap
begin

section \<open>IP addresses and prefixes\<close>

text \<open>
  The model of \<^verbatim>\<open>ip_address.c\<close>, \<^verbatim>\<open>ip_address.h\<close>, \<^verbatim>\<open>ip_prefix.c\<close> and \<^verbatim>\<open>ip_prefix.h\<close>. The union of an
  address is its 16 bytes; a socket address is the bytes that the kernel sees, in the layout of Linux;
  the family \<open>AF_UNSPEC\<close> stands for every family other than the two supported ones. \<^verbatim>\<open>inet_pton\<close>,
  \<^verbatim>\<open>inet_ntop\<close>, the list of interface addresses and the bytes from \<^verbatim>\<open>/dev/urandom\<close> are parameters.
\<close>

unbundle bit_operations_syntax

subsection \<open>Addresses\<close>

record ip_address =
  ip_family :: address_family
  ip_data :: bytes

definition ip_reset :: ip_address where
  "ip_reset = \<lparr>ip_family = AF_UNSPEC, ip_data = replicate 16 0\<rparr>"

fun ip_address_length :: "address_family \<Rightarrow> nat run" where
  "ip_address_length AF_INET = Done 4"
| "ip_address_length AF_INET6 = Done 16"
| "ip_address_length AF_UNSPEC = Die"

fun sockaddr_length :: "address_family \<Rightarrow> nat run" where
  "sockaddr_length AF_INET = Done 16"
| "sockaddr_length AF_INET6 = Done 28"
| "sockaddr_length AF_UNSPEC = Die"

definition is_equal_ip :: "ip_address \<Rightarrow> ip_address \<Rightarrow> bool run" where
  "is_equal_ip a b =
     (if ip_family a \<noteq> ip_family b then Done False
      else rbind (ip_address_length (ip_family a)) (\<lambda>n. Done (take n (ip_data a) = take n (ip_data b))))"

definition ipv4_init :: ip_address where
  "ipv4_init = \<lparr>ip_family = AF_INET, ip_data = replicate 16 0\<rparr>"

definition ipv6_init :: ip_address where
  "ipv6_init = \<lparr>ip_family = AF_INET6, ip_data = replicate 16 0\<rparr>"

text \<open>The structures \<^verbatim>\<open>in_addr\<close> and \<^verbatim>\<open>in6_addr\<close> are their 4 and 16 bytes.\<close>

definition ip_from_ipv4 :: "bytes \<Rightarrow> ip_address" where
  "ip_from_ipv4 ipv4 = ipv4_init\<lparr>ip_data := poke (ip_data ipv4_init) 0 ipv4\<rparr>"

definition ip_from_ipv6 :: "bytes \<Rightarrow> ip_address" where
  "ip_from_ipv6 ipv6 = ipv6_init\<lparr>ip_data := poke (ip_data ipv6_init) 0 ipv6\<rparr>"

definition ip_to_ipv4 :: "ip_address \<Rightarrow> bytes" where
  "ip_to_ipv4 ip = take 4 (ip_data ip)"

definition ip_to_ipv6 :: "ip_address \<Rightarrow> bytes" where
  "ip_to_ipv6 ip = ip_data ip"

type_synonym pton = "address_family \<Rightarrow> string \<Rightarrow> bytes option"
type_synonym ntop = "address_family \<Rightarrow> bytes \<Rightarrow> string option"

definition ipv4_parse :: "pton \<Rightarrow> string \<Rightarrow> ip_address run" where
  "ipv4_parse inet_pton s = (case inet_pton AF_INET s of None \<Rightarrow> Die | Some a \<Rightarrow> Done (ip_from_ipv4 a))"

definition ipv6_parse :: "pton \<Rightarrow> string \<Rightarrow> ip_address run" where
  "ipv6_parse inet_pton s = (case inet_pton AF_INET6 s of None \<Rightarrow> Die | Some a \<Rightarrow> Done (ip_from_ipv6 a))"

definition ip_to_string :: "ntop \<Rightarrow> ip_address \<Rightarrow> string run" where
  "ip_to_string inet_ntop ip = (case inet_ntop (ip_family ip) (ip_data ip) of None \<Rightarrow> Die | Some s \<Rightarrow> Done s)"

definition ipv4_mapped_prefix :: bytes where
  "ipv4_mapped_prefix = [0, 0, 0, 0, 0, 0, 0, 0, 0, 0, 0xFF, 0xFF]"

definition ipv6_map_from_ipv4 :: "ip_address \<Rightarrow> ip_address" where
  "ipv6_map_from_ipv4 ipv4 = ipv6_init\<lparr>ip_data :=
     poke (poke (ip_data ipv6_init) 0 ipv4_mapped_prefix) (length ipv4_mapped_prefix) (take 4 (ip_data ipv4))\<rparr>"

text \<open>\<open>None\<close> is \<^verbatim>\<open>STATUS_ERR\<close>.\<close>

definition ipv6_map_to_ipv4 :: "ip_address \<Rightarrow> ip_address option" where
  "ipv6_map_to_ipv4 ipv6 =
     (if take (length ipv4_mapped_prefix) (ip_data ipv6) = ipv4_mapped_prefix
      then Some (ipv4_init\<lparr>ip_data := poke (ip_data ipv4_init) 0
             (take 4 (drop (length ipv4_mapped_prefix) (ip_data ipv6)))\<rparr>)
      else None)"

subsection \<open>Socket addresses\<close>

text \<open>The number of a family on Linux, stored in host order in the first two bytes.\<close>

fun family_number :: "address_family \<Rightarrow> u16" where
  "family_number AF_UNSPEC = 0"
| "family_number AF_INET = 2"
| "family_number AF_INET6 = 10"

definition sa_family :: "bytes \<Rightarrow> u16 run" where
  "sa_family address = rbind (ld8 address 0) (\<lambda>a. rbind (ld8 address 1) (\<lambda>b. Done (le16 a b)))"

text \<open>\<^verbatim>\<open>sockaddr_in\<close>: family, port, address, 8 bytes of padding. \<^verbatim>\<open>sockaddr_in6\<close>: family, port, flow
  label, address, scope. The length that is filled in is the length of the list.\<close>

definition ipv4_to_sockaddr :: "ip_address \<Rightarrow> u16 \<Rightarrow> bytes" where
  "ipv4_to_sockaddr ipv4 port =
     le16_bytes_of (family_number AF_INET) @ be16_bytes_of port @ take 4 (ip_data ipv4) @ replicate 8 0"

definition ipv6_to_sockaddr :: "ip_address \<Rightarrow> u16 \<Rightarrow> bytes" where
  "ipv6_to_sockaddr ipv6 port =
     le16_bytes_of (family_number AF_INET6) @ be16_bytes_of port @ replicate 4 0 @ ip_data ipv6 @ replicate 4 0"

definition ip_to_sockaddr :: "ip_address \<Rightarrow> u16 \<Rightarrow> bytes run" where
  "ip_to_sockaddr ip port = (case ip_family ip of
     AF_INET \<Rightarrow> Done (ipv4_to_sockaddr ip port)
   | AF_INET6 \<Rightarrow> Done (ipv6_to_sockaddr ip port)
   | AF_UNSPEC \<Rightarrow> Die)"

definition ipv4_from_sockaddr :: "bytes \<Rightarrow> nat \<Rightarrow> (ip_address \<times> u16) run" where
  "ipv4_from_sockaddr address len =
     rbind (sa_family address) (\<lambda>fam. check (fam = family_number AF_INET)
     (check (len = 16)
     (rbind (ld_bytes address 0 len) (\<lambda>sa_v4.
      Done (ip_from_ipv4 (take 4 (drop 4 sa_v4)), be16 (sa_v4 ! 2) (sa_v4 ! 3))))))"

definition ipv6_from_sockaddr :: "bytes \<Rightarrow> nat \<Rightarrow> (ip_address \<times> u16) run" where
  "ipv6_from_sockaddr address len =
     rbind (sa_family address) (\<lambda>fam. check (fam = family_number AF_INET6)
     (check (len = 28)
     (rbind (ld_bytes address 0 len) (\<lambda>sa_v6.
      Done (ip_from_ipv6 (take 16 (drop 8 sa_v6)), be16 (sa_v6 ! 2) (sa_v6 ! 3))))))"

definition ip_from_sockaddr :: "bytes \<Rightarrow> nat \<Rightarrow> (ip_address \<times> u16) run" where
  "ip_from_sockaddr address len =
     rbind (sa_family address) (\<lambda>fam.
       if fam = family_number AF_INET then ipv4_from_sockaddr address len
       else if fam = family_number AF_INET6 then ipv6_from_sockaddr address len
       else Die)"

text \<open>The list of \<^verbatim>\<open>getifaddrs\<close>: the name of each interface and its address, if it has one.\<close>

definition IFNAMSIZ :: nat where "IFNAMSIZ = 16"

fun get_ip_device :: "(string \<times> bytes option) list \<Rightarrow> ip_address \<Rightarrow> string option run" where
  "get_ip_device [] ip = Done None"
| "get_ip_device ((name, None) # ifs) ip = get_ip_device ifs ip"
| "get_ip_device ((name, Some sa) # ifs) ip =
     rbind (sa_family sa) (\<lambda>fam. if fam \<noteq> family_number (ip_family ip) then get_ip_device ifs ip
      else rbind (sockaddr_length (ip_family ip)) (\<lambda>len.
           rbind (ip_from_sockaddr sa len) (\<lambda>(interface_ip, port).
           rbind (is_equal_ip ip interface_ip) (\<lambda>eq.
             if eq then check (length name < IFNAMSIZ) (Done (Some name)) else get_ip_device ifs ip))))"

definition is_ip_local :: "(string \<times> bytes option) list \<Rightarrow> ip_address \<Rightarrow> bool run" where
  "is_ip_local ifs ip = rbind (get_ip_device ifs ip) (\<lambda>dev. Done (dev \<noteq> None))"

subsection \<open>Netmasks and random addresses\<close>

text \<open>The loop over the bits below \<open>pos\<close>, from the highest.\<close>

fun leading_ones :: "u32 \<Rightarrow> nat \<Rightarrow> nat" where
  "leading_ones mask_addr 0 = 0"
| "leading_ones mask_addr (Suc pos) =
     (if mask_addr AND push_bit pos 1 = 0 then 0 else Suc (leading_ones mask_addr pos))"

definition ld_be32_of :: "bytes \<Rightarrow> u32" where
  "ld_be32_of a = be32 (a ! 0) (a ! 1) (a ! 2) (a ! 3)"

definition netmask_to_prefix :: "pton \<Rightarrow> string \<Rightarrow> nat run" where
  "netmask_to_prefix inet_pton netmask =
     rbind (ipv4_parse inet_pton netmask) (\<lambda>mask. Done (leading_ones (ld_be32_of (ip_data mask)) 32))"

text \<open>The host part that \<^verbatim>\<open>generate_random_ipv4_addr\<close> adds to the base, from the random word.\<close>

definition random_ipv4_host :: "nat \<Rightarrow> u32 \<Rightarrow> u32" where
  "random_ipv4_host prefix_len rnd =
     (if prefix_len = 0 then rnd
      else (let mask = push_bit (32 - prefix_len) 1 - 1;
                rnd = rnd AND mask;
                rnd = (if rnd < 2 then 2 else rnd)
            in if rnd = mask then rnd - 1 else rnd))"

text \<open>\<open>urandom\<close> is the word that \<^verbatim>\<open>urandom_read\<close> stored, \<open>None\<close> when it read fewer bytes.\<close>

definition random_ipv4_addr :: "u32 option \<Rightarrow> nat \<Rightarrow> ip_address \<Rightarrow> ip_address" where
  "random_ipv4_addr urandom prefix_len addr =
     (if prefix_len < 31 then
        (case urandom of None \<Rightarrow> addr
         | Some rnd \<Rightarrow> addr\<lparr>ip_data := poke (ip_data addr) 0
             (be32_bytes_of (ld_be32_of (ip_data addr) OR random_ipv4_host prefix_len rnd))\<rparr>)
      else addr)"

definition generate_random_ipv4_addr :: "pton \<Rightarrow> ntop \<Rightarrow> u32 option \<Rightarrow> string \<Rightarrow> string \<Rightarrow> string run" where
  "generate_random_ipv4_addr inet_pton inet_ntop urandom base netmask =
     rbind (netmask_to_prefix inet_pton netmask) (\<lambda>prefix_len.
     rbind (ipv4_parse inet_pton base) (\<lambda>addr.
     ip_to_string inet_ntop (random_ipv4_addr urandom prefix_len addr)))"

text \<open>The result of the read is not checked here; \<open>rnd\<close> is what the word holds after it.\<close>

definition random_ipv6_host :: "nat \<Rightarrow> u32 \<Rightarrow> u32" where
  "random_ipv6_host prefixlen rnd =
     (let mask = (if 96 < prefixlen then push_bit (128 - prefixlen) 1 - 1 else - 1);
          rnd = (if 96 < prefixlen then rnd AND mask else rnd);
          rnd = (if rnd = 0 then rnd + 1 else rnd)
      in if rnd = mask then rnd - 1 else rnd)"

definition random_ipv6_addr :: "u32 \<Rightarrow> nat \<Rightarrow> ip_address \<Rightarrow> ip_address" where
  "random_ipv6_addr rnd prefixlen addr = addr\<lparr>ip_data := poke (ip_data addr) 12
     (be32_bytes_of (ld_be32_of (drop 12 (ip_data addr)) OR random_ipv6_host prefixlen rnd))\<rparr>"

definition generate_random_ipv6_addr :: "pton \<Rightarrow> ntop \<Rightarrow> u32 \<Rightarrow> string \<Rightarrow> nat \<Rightarrow> string run" where
  "generate_random_ipv6_addr inet_pton inet_ntop rnd base prefixlen =
     rbind (ipv6_parse inet_pton base) (\<lambda>addr. ip_to_string inet_ntop (random_ipv6_addr rnd prefixlen addr))"

subsection \<open>Prefixes\<close>

record ip_prefix =
  prefix_ip :: ip_address
  prefix_len :: int

definition ip_prefix_reset :: ip_prefix where
  "ip_prefix_reset = \<lparr>prefix_ip = ip_reset, prefix_len = 0\<rparr>"

definition ip_to_prefix :: "ip_address \<Rightarrow> int \<Rightarrow> ip_prefix run" where
  "ip_to_prefix ip len =
     rbind (ip_address_length (ip_family ip)) (\<lambda>n.
       if len < 0 \<or> 8 * int n < len then Die else Done \<lparr>prefix_ip = ip, prefix_len = len\<rparr>)"

text \<open>For a length within the address; with \<open>max_prefix_bytes - bytes\<close> negative, \<^verbatim>\<open>memset\<close> would run
  away.\<close>

definition ip_prefix_normalize :: "ip_prefix \<Rightarrow> ip_prefix run" where
  "ip_prefix_normalize p =
     (let bytes = nat (prefix_len p) div 8; bits = nat (prefix_len p) mod 8 in
      if prefix_len p < 0 then Oob
      else rbind (ip_address_length (ip_family (prefix_ip p))) (\<lambda>max_prefix_bytes.
       rbind (if bits \<noteq> 0 then rbind (ld8 (ip_data (prefix_ip p)) bytes) (\<lambda>b.
                rbind (store (ip_data (prefix_ip p)) bytes [b AND NOT (push_bit (8 - bits) 1 - 1)]) (\<lambda>d. Done (d, bytes + 1)))
              else Done (ip_data (prefix_ip p), bytes)) (\<lambda>(d, bytes).
       if max_prefix_bytes < bytes then Oob
       else rbind (store d bytes (replicate (max_prefix_bytes - bytes) 0)) (\<lambda>d.
         Done (p\<lparr>prefix_ip := (prefix_ip p)\<lparr>ip_data := d\<rparr>\<rparr>)))))"

text \<open>\<^verbatim>\<open>strtol\<close> in base 10 with a 64-bit \<^verbatim>\<open>long\<close>: the value, the rest of the string and whether the value was
  out of range. Without a digit, the value is 0 and the rest is the whole string.\<close>

definition strtol10 :: "string \<Rightarrow> int \<times> string \<times> bool" where
  "strtol10 s =
     (let t = dropWhile is_space s;
          neg = (t \<noteq> [] \<and> hd t = CHR ''-'');
          u = (if t \<noteq> [] \<and> (hd t = CHR ''-'' \<or> hd t = CHR ''+'') then tl t else t);
          ds = takeWhile is_digit u;
          v = (if neg then - digits_value ds else digits_value ds)
      in if ds = [] then (0, s, False)
         else if v < - (2 ^ 63) then (- (2 ^ 63), dropWhile is_digit u, True)
         else if 2 ^ 63 \<le> v then (2 ^ 63 - 1, dropWhile is_digit u, True)
         else (v, dropWhile is_digit u, False))"

text \<open>The result is stored in an \<^verbatim>\<open>int\<close>.\<close>

definition prefix_len_parse :: "string \<Rightarrow> int \<Rightarrow> int run" where
  "prefix_len_parse prefix_string max_len =
     (case dropWhile (\<lambda>c. c \<noteq> CHR ''/'') prefix_string of
        [] \<Rightarrow> Done max_len
      | _ # len_str \<Rightarrow>
          (let (v, end, erange) = strtol10 len_str;
               len = sint (word_of_int v :: u32)
           in if erange \<or> end \<noteq> [] \<or> len < 0 \<or> max_len < len then Die else Done len))"

definition copy_prefix_address :: "string \<Rightarrow> string" where
  "copy_prefix_address prefix_string = takeWhile (\<lambda>c. c \<noteq> CHR ''/'') prefix_string"

definition ipv4_prefix_parse :: "pton \<Rightarrow> string \<Rightarrow> ip_prefix run" where
  "ipv4_prefix_parse inet_pton prefix_string =
     rbind (ipv4_parse inet_pton (copy_prefix_address prefix_string)) (\<lambda>ip.
     rbind (ip_address_length AF_INET) (\<lambda>n.
     rbind (prefix_len_parse prefix_string (8 * int n)) (\<lambda>len. ip_to_prefix ip len)))"

definition ipv6_prefix_parse :: "pton \<Rightarrow> string \<Rightarrow> ip_prefix run" where
  "ipv6_prefix_parse inet_pton prefix_string =
     rbind (ipv6_parse inet_pton (copy_prefix_address prefix_string)) (\<lambda>ip.
     rbind (ip_address_length AF_INET6) (\<lambda>n.
     rbind (prefix_len_parse prefix_string (8 * int n)) (\<lambda>len. ip_to_prefix ip len)))"

definition ADDR_STR_LEN :: nat where "ADDR_STR_LEN = (16 + 46) + 5"

definition ip_prefix_to_string :: "ntop \<Rightarrow> ip_prefix \<Rightarrow> string run" where
  "ip_prefix_to_string inet_ntop prefix =
     rbind (ip_to_string inet_ntop (prefix_ip prefix)) (\<lambda>ip_str.
       if ADDR_STR_LEN < length ip_str + length ''/128'' + 1 then Die
       else (let s = ip_str @ ''/'' @ dec_int (prefix_len prefix) in
             if ADDR_STR_LEN \<le> length s then Die else Done s))"

subsection \<open>Well-formed addresses\<close>

text \<open>An address has 16 bytes, of which the last 12 of an IPv4 address are zero.\<close>

definition ip_wf :: "ip_address \<Rightarrow> bool" where
  "ip_wf ip \<longleftrightarrow> length (ip_data ip) = 16 \<and> ip_family ip \<noteq> AF_UNSPEC \<and>
     (ip_family ip = AF_INET \<longrightarrow> drop 4 (ip_data ip) = replicate 12 0)"

lemma ip_from_wf:
  "length a = 4 \<Longrightarrow> ip_wf (ip_from_ipv4 a)" "length b = 16 \<Longrightarrow> ip_wf (ip_from_ipv6 b)"
  by (simp_all add: ip_wf_def ip_from_ipv4_def ip_from_ipv6_def ipv4_init_def ipv6_init_def poke_def)

lemma ip_from_to:
  "length a = 4 \<Longrightarrow> ip_to_ipv4 (ip_from_ipv4 a) = a" "length b = 16 \<Longrightarrow> ip_to_ipv6 (ip_from_ipv6 b) = b"
  by (simp_all add: ip_to_ipv4_def ip_to_ipv6_def ip_from_ipv4_def ip_from_ipv6_def ipv4_init_def ipv6_init_def poke_def)

lemma ip_to_from:
  "ip_wf ip \<Longrightarrow> ip_family ip = AF_INET \<Longrightarrow> ip_from_ipv4 (take 4 (ip_data ip)) = ip"
  "ip_wf ip \<Longrightarrow> ip_family ip = AF_INET6 \<Longrightarrow> ip_from_ipv6 (ip_data ip) = ip"
proof -
  assume ip: "ip_wf ip" "ip_family ip = AF_INET"
  then have "take 4 (ip_data ip) @ replicate 12 0 = ip_data ip"
    by (metis append_take_drop_id ip_wf_def)
  then show "ip_from_ipv4 (take 4 (ip_data ip)) = ip"
    using ip by (intro ip_address.equality) (simp_all add: ip_from_ipv4_def ipv4_init_def poke_def ip_wf_def)
next
  assume "ip_wf ip" "ip_family ip = AF_INET6"
  then show "ip_from_ipv6 (ip_data ip) = ip"
    by (intro ip_address.equality) (simp_all add: ip_from_ipv6_def ipv6_init_def poke_def ip_wf_def)
qed

lemma ip_eqI4:
  assumes "ip_wf a" "ip_wf b" "ip_family a = AF_INET" "ip_family b = AF_INET" "take 4 (ip_data a) = take 4 (ip_data b)"
  shows "a = b"
  using ip_to_from(1) [OF assms(1,3)] ip_to_from(1) [OF assms(2,4)] assms(5) by metis

lemma ip_eqI16:
  assumes "ip_wf a" "ip_wf b" "ip_family a = ip_family b" "take 16 (ip_data a) = take 16 (ip_data b)"
  shows "a = b"
proof (rule ip_address.equality)
  have "take 16 (ip_data x) = ip_data x" if "ip_wf x" for x using that by (simp add: ip_wf_def)
  then show "ip_data a = ip_data b" using assms(1,2,4) by metis
qed (use assms(3) in simp_all)

lemma is_equal_ip_iff:
  assumes "ip_wf a" "ip_wf b"
  shows "is_equal_ip a b = Done (a = b)"
proof (cases "ip_family a = ip_family b")
  case True
  consider "ip_family b = AF_INET" | "ip_family b = AF_INET6" using assms(2) by (cases "ip_family b") (auto simp: ip_wf_def)
  then show ?thesis
  proof cases
    case 1
    then have "take 4 (ip_data a) = take 4 (ip_data b) \<longleftrightarrow> a = b" using ip_eqI4 [OF assms] True by auto
    then show ?thesis using True 1 by (simp only: is_equal_ip_def ip_address_length.simps rbind.simps simp_thms if_False)
  next
    case 2
    have "take 16 (ip_data a) = take 16 (ip_data b) \<longleftrightarrow> a = b" using ip_eqI16 [OF assms True] by auto
    then show ?thesis using True 2 by (simp only: is_equal_ip_def ip_address_length.simps rbind.simps simp_thms if_False)
  qed
next
  case False
  then show ?thesis by (auto simp: is_equal_ip_def)
qed

text \<open>A socket address made from an IPv4 or IPv6 address and a port has the length of its family, and
  reading it back gives the same address and port. Reading it with another length fails the assertion.\<close>
theorem sockaddr_roundtrip:
  assumes "ip_wf ip"
  shows "\<exists>sa. ip_to_sockaddr ip port = Done sa \<and> sockaddr_length (ip_family ip) = Done (length sa) \<and>
    ip_from_sockaddr sa (length sa) = Done (ip, port) \<and>
    (\<forall>len. len \<noteq> length sa \<longrightarrow> ip_from_sockaddr sa len = Die)"
proof (cases "ip_family ip")
  case AF_INET
  have [simp]: "length (ip_data ip) = 16" using assms by (simp add: ip_wf_def)
  have "sa_family (ipv4_to_sockaddr ip port) = Done 2" "length (ipv4_to_sockaddr ip port) = 16"
    by (simp_all add: sa_family_def ipv4_to_sockaddr_def ld8_def le16_bytes_of_def)
  then show ?thesis
    using AF_INET ip_to_from(1) [OF assms AF_INET]
    by (simp add: ip_to_sockaddr_def ip_from_sockaddr_def ipv4_from_sockaddr_def ld_bytes_def)
      (simp add: ipv4_to_sockaddr_def le16_bytes_of_def be16_bytes_of_def)
next
  case AF_INET6
  have [simp]: "length (ip_data ip) = 16" using assms by (simp add: ip_wf_def)
  have "sa_family (ipv6_to_sockaddr ip port) = Done 10" "length (ipv6_to_sockaddr ip port) = 28"
    by (simp_all add: sa_family_def ipv6_to_sockaddr_def ld8_def le16_bytes_of_def)
  then show ?thesis
    using AF_INET6 ip_to_from(2) [OF assms AF_INET6]
    by (simp add: ip_to_sockaddr_def ip_from_sockaddr_def ipv6_from_sockaddr_def ld_bytes_def)
      (simp add: ipv6_to_sockaddr_def le16_bytes_of_def be16_bytes_of_def)
next
  case AF_UNSPEC
  then show ?thesis using assms by (simp add: ip_wf_def)
qed

lemma length_mapped [simp]: "length ipv4_mapped_prefix = 12"
  by (simp add: ipv4_mapped_prefix_def)

lemma mapped_data:
  "length (ip_data ipv4) = 16 \<Longrightarrow> ipv6_map_from_ipv4 ipv4 =
     \<lparr>ip_family = AF_INET6, ip_data = ipv4_mapped_prefix @ take 4 (ip_data ipv4)\<rparr>"
  by (simp add: ipv6_map_from_ipv4_def ipv6_init_def poke_def)

lemma ip_from_data: "length a = 4 \<Longrightarrow> ip_from_ipv4 a = \<lparr>ip_family = AF_INET, ip_data = a @ replicate 12 0\<rparr>"
  by (simp add: ip_from_ipv4_def ipv4_init_def poke_def)

lemma map_to_data:
  "length (ip_data ipv6) = 16 \<Longrightarrow> ipv6_map_to_ipv4 ipv6 =
     (if take 12 (ip_data ipv6) = ipv4_mapped_prefix then Some (ip_from_ipv4 (drop 12 (ip_data ipv6))) else None)"
  by (simp add: ipv6_map_to_ipv4_def ip_from_ipv4_def)

lemma mapped_roundtrip:
  assumes "ip_wf ipv4" "ip_family ipv4 = AF_INET"
  shows "ipv6_map_to_ipv4 (ipv6_map_from_ipv4 ipv4) = Some ipv4" "ip_wf (ipv6_map_from_ipv4 ipv4)"
  using assms ip_to_from(1) [OF assms] by (simp_all add: mapped_data map_to_data ip_wf_def)

lemma mapped_inverse:
  assumes "ip_wf ipv6" "ip_family ipv6 = AF_INET6" "ipv6_map_to_ipv4 ipv6 = Some ipv4"
  shows "ip_wf ipv4 \<and> ip_family ipv4 = AF_INET \<and> ipv6_map_from_ipv4 ipv4 = ipv6"
proof -
  have l: "length (ip_data ipv6) = 16" "take 12 (ip_data ipv6) = ipv4_mapped_prefix"
    and v: "ipv4 = ip_from_ipv4 (drop 12 (ip_data ipv6))"
    using assms by (auto simp: ip_wf_def map_to_data split: if_splits)
  have "ipv4_mapped_prefix @ drop 12 (ip_data ipv6) = ip_data ipv6"
    using l(2) by (metis append_take_drop_id)
  then show ?thesis
    using v l(1) ip_from_wf(1) [of "drop 12 (ip_data ipv6)"] assms(2)
    by (auto simp: ip_from_data mapped_data intro!: ip_address.equality)
qed

theorem sockaddr_roundtrip_witness:
  "\<exists>sa. ip_to_sockaddr (ip_from_ipv4 [192, 0, 2, 1]) 8080 = Done sa \<and>
    sockaddr_length (ip_family (ip_from_ipv4 [192, 0, 2, 1])) = Done (length sa) \<and>
    ip_from_sockaddr sa (length sa) = Done (ip_from_ipv4 [192, 0, 2, 1], 8080) \<and>
    (\<forall>len. len \<noteq> length sa \<longrightarrow> ip_from_sockaddr sa len = Die)"
  by (rule sockaddr_roundtrip) (simp add: ip_from_wf)

text \<open>Bit \<open>i\<close> of an address, from the most significant bit of its first byte.\<close>

definition ip_bit :: "bytes \<Rightarrow> nat \<Rightarrow> bool" where
  "ip_bit d i = bit (d ! (i div 8)) (7 - i mod 8)"

lemma low_bits: "2 ^ n - 1 = (mask n :: 'a::len word)"
  by (simp add: mask_eq_exp_minus_1)

text \<open>The bytes that \<^verbatim>\<open>ip_prefix_normalize\<close> leaves.\<close>

lemma normalize_bytes:
  assumes "ip_address_length (ip_family (prefix_ip p)) = Done m" "length (ip_data (prefix_ip p)) = 16"
    "prefix_len p = int n" "n \<le> 8 * m" "m \<le> 16"
  shows "\<exists>d. ip_prefix_normalize p = Done (p\<lparr>prefix_ip := (prefix_ip p)\<lparr>ip_data := d\<rparr>\<rparr>) \<and> length d = 16 \<and>
    (\<forall>j < 16. d ! j = (if j < n div 8 \<or> m \<le> j then ip_data (prefix_ip p) ! j
       else if j = n div 8 \<and> n mod 8 \<noteq> 0 then ip_data (prefix_ip p) ! j AND NOT (mask (8 - n mod 8)) else 0))"
proof (cases "n mod 8 = 0")
  case True
  then have b: "n div 8 \<le> m" using assms(4) by auto
  show ?thesis
    using assms True b
    by (intro exI [of _ "poke (ip_data (prefix_ip p)) (n div 8) (replicate (m - n div 8) 0)"])
      (auto simp: ip_prefix_normalize_def Let_def store_in nth_poke)
next
  case False
  then have b: "n div 8 < m" using assms(4) div_mult_mod_eq [of n 8] by linarith
  let ?d = "ip_data (prefix_ip p)"
  define v where "v = ?d ! (n div 8) AND NOT (mask (8 - n mod 8))"
  define d1 where "d1 = poke ?d (n div 8) [v]"
  have l: "length d1 = 16" using b assms by (simp add: d1_def)
  have "ip_prefix_normalize p = Done (p\<lparr>prefix_ip := (prefix_ip p)\<lparr>ip_data := poke d1 (Suc (n div 8)) (replicate (m - Suc (n div 8)) 0)\<rparr>\<rparr>)"
    using assms False b l
    by (simp add: ip_prefix_normalize_def Let_def store_in ld8_def low_bits v_def [symmetric] d1_def [symmetric])
  then show ?thesis
    using b l assms False
    by (intro exI [of _ "poke d1 (Suc (n div 8)) (replicate (m - Suc (n div 8)) 0)"])
      (auto simp: nth_poke d1_def v_def)
qed

lemma mask_bit: "bit (x AND NOT (mask k) :: u8) i \<longleftrightarrow> bit x i \<and> k \<le> i"
proof (cases "i < 8")
  case True
  then show ?thesis by (auto simp: bit_simps)
next
  case False
  then have "\<not> bit (y :: u8) i" for y using bit_imp_le_length [of y i] by auto
  then show ?thesis by blast
qed

lemma normalize_bits:
  assumes "ip_wf ip" "ip_address_length (ip_family ip) = Done m"
  shows "if 0 \<le> len \<and> len \<le> 8 * int m
    then \<exists>p d. ip_to_prefix ip len = Done p \<and> prefix_ip p = ip \<and>
      ip_prefix_normalize p = Done \<lparr>prefix_ip = ip\<lparr>ip_data := d\<rparr>, prefix_len = len\<rparr> \<and> ip_wf (ip\<lparr>ip_data := d\<rparr>) \<and>
      (\<forall>i < 8 * m. ip_bit d i = (ip_bit (ip_data ip) i \<and> int i < len))
    else ip_to_prefix ip len = Die"
proof (cases "0 \<le> len \<and> len \<le> 8 * int m")
  case True
  define n where "n = nat len"
  have n: "len = int n" "n \<le> 8 * m" using True by (auto simp: n_def)
  have m: "m \<le> 16" "0 < m" "ip_family ip = AF_INET \<Longrightarrow> m = 4" using assms(2) by (cases "ip_family ip"; simp)+
  let ?p = "\<lparr>prefix_ip = ip, prefix_len = len\<rparr>"
  obtain d where d: "ip_prefix_normalize ?p = Done (?p\<lparr>prefix_ip := ip\<lparr>ip_data := d\<rparr>\<rparr>)" "length d = 16"
    "\<forall>j < 16. d ! j = (if j < n div 8 \<or> m \<le> j then ip_data ip ! j
       else if j = n div 8 \<and> n mod 8 \<noteq> 0 then ip_data ip ! j AND NOT (mask (8 - n mod 8)) else 0)"
    using normalize_bytes [of ?p m n] assms m n by (auto simp: ip_wf_def)
  have l: "length (ip_data ip) = 16" using assms(1) by (simp add: ip_wf_def)
  have "ip_wf (ip\<lparr>ip_data := d\<rparr>)"
  proof -
    have "drop 4 d = drop 4 (ip_data ip)" if "ip_family ip = AF_INET"
      by (rule nth_equalityI) (use l that m(3) d(2,3) in simp_all)
    then show ?thesis using assms(1) d(2) by (simp add: ip_wf_def)
  qed
  moreover have "ip_bit d i = (ip_bit (ip_data ip) i \<and> int i < len)" if i: "i < 8 * m" for i
  proof -
    have j: "i div 8 < m" "i div 8 < 16" using i m(1) by auto
    have q: "n = 8 * (n div 8) + n mod 8" "i = 8 * (i div 8) + i mod 8" "n mod 8 < 8" "i mod 8 < 8" by simp_all
    have a: "i < n" if "i div 8 < n div 8" using that q by linarith
    have b: "\<not> i < n" if "n div 8 < i div 8" using that q by linarith
    have lt: "(i < n) = (i mod 8 < n mod 8)" if "i div 8 = n div 8" using that q by linarith
    have "(8 - x \<le> 7 - y) = (y < x)" if "x < 8" "y < 8" for x y :: nat using that by arith
    then have c: "(8 - n mod 8 \<le> 7 - i mod 8) = (i < n)" if "i div 8 = n div 8" using lt [OF that] q(3,4) by blast
    have e: "\<not> i < n" if "i div 8 = n div 8" "n mod 8 = 0" using lt [OF that(1)] that(2) by simp
    consider "i div 8 < n div 8" | "i div 8 = n div 8" | "n div 8 < i div 8" by linarith
    then show ?thesis
    proof cases
      case 1
      then show ?thesis using d(3) j a n(1) by (simp add: ip_bit_def)
    next
      case 2
      then show ?thesis using d(3) j c e n(1) by (auto simp: ip_bit_def mask_bit)
    next
      case 3
      then show ?thesis using d(3) j b n(1) by (simp add: ip_bit_def)
    qed
  qed
  ultimately show ?thesis
    using True assms d(1) by (auto simp: ip_to_prefix_def)
next
  case False
  then show ?thesis using assms(2) by (auto simp: ip_to_prefix_def)
qed

text \<open>\<^verbatim>\<open>ip_prefix_normalize\<close> on a prefix whose length fits its address returns the same prefix with
  the bits of the address beyond the length cleared and all others kept; the length, the family and the
  form of the address stay. \<^verbatim>\<open>ip_to_prefix\<close> accepts exactly the lengths that fit and keeps every bit.\<close>
theorem ip_prefix_normalize_bits:
  assumes "ip_wf ip" "ip_address_length (ip_family ip) = Done m"
  shows "if 0 \<le> len \<and> len \<le> 8 * int m
    then \<exists>p d. ip_to_prefix ip len = Done p \<and> prefix_ip p = ip \<and>
      ip_prefix_normalize p = Done \<lparr>prefix_ip = ip\<lparr>ip_data := d\<rparr>, prefix_len = len\<rparr> \<and> ip_wf (ip\<lparr>ip_data := d\<rparr>) \<and>
      (\<forall>i < 8 * m. ip_bit d i = (ip_bit (ip_data ip) i \<and> int i < len))
    else ip_to_prefix ip len = Die"
  using assms by (rule normalize_bits)

theorem ip_prefix_normalize_bits_witness:
  "\<exists>p d. ip_to_prefix (ip_from_ipv4 [192, 0, 2, 255]) 28 = Done p \<and> prefix_ip p = ip_from_ipv4 [192, 0, 2, 255] \<and>
      ip_prefix_normalize p = Done \<lparr>prefix_ip = (ip_from_ipv4 [192, 0, 2, 255])\<lparr>ip_data := d\<rparr>, prefix_len = 28\<rparr>"
proof -
  have w: "ip_wf (ip_from_ipv4 [192, 0, 2, 255])" "ip_address_length (ip_family (ip_from_ipv4 [192, 0, 2, 255])) = Done 4"
    by (rule ip_from_wf) (simp_all add: ip_from_data)
  show ?thesis using ip_prefix_normalize_bits [OF w, of 28] by auto
qed

lemma ld_be32_of_bytes [simp]: "ld_be32_of (be32_bytes_of w @ r) = w"
  by (simp add: ld_be32_of_def be32_bytes_of_def)

lemma leading_ones_netmask:
  assumes "k \<le> 32"
  shows "leading_ones (NOT (mask j)) k = k - j"
  using assms
proof (induction k)
  case (Suc p)
  have "(NOT (mask j) AND push_bit p 1 = (0 :: u32)) \<longleftrightarrow> p < j"
    using Suc.prems bit_iff_and_push_bit_not_eq_0 [of "NOT (mask j) :: u32" p] by (auto simp: bit_simps)
  then show ?case using Suc by auto
qed simp

lemma random_ipv4_host_bounds:
  assumes "0 < n" "n < 31"
  shows "2 \<le> unat (random_ipv4_host n rnd) \<and> unat (random_ipv4_host n rnd) \<le> 2 ^ (32 - n) - 2"
proof -
  define m :: u32 where "m = mask (32 - n)"
  define r where "r = rnd AND m"
  have m: "unat m = 2 ^ (32 - n) - 1"
  proof -
    have "(2::nat) ^ (32 - n) \<le> 2 ^ 32" by (rule power_increasing) simp_all
    then have "mask (32 - n) mod 2 ^ 32 = (2 ^ (32 - n) - 1 :: nat)" by (simp add: mask_eq_exp_minus_1 less_le_trans)
    moreover have "m = word_of_nat (mask (32 - n))" by (simp add: m_def of_nat_mask_eq)
    ultimately show ?thesis by (simp add: unat_of_nat)
  qed
  have "(2::nat) ^ 2 \<le> 2 ^ (32 - n)" by (rule power_increasing) (use assms in auto)
  then have m3: "3 \<le> unat m" using m by simp
  have r: "unat r \<le> unat m" using word_and_le1 [of rnd m] by (simp add: r_def word_le_nat_alt and.commute)
  define s where "s = (if r < 2 then 2 else r)"
  have s: "2 \<le> unat s" "unat s \<le> unat m" using r m3 by (auto simp: s_def word_less_nat_alt)
  have h: "random_ipv4_host n rnd = (if s = m then s - 1 else s)"
  proof -
    have "push_bit (32 - n) 1 - 1 = m" by (simp add: m_def low_bits [symmetric] push_bit_of_1)
    then show ?thesis using assms unfolding random_ipv4_host_def Let_def by (simp only: r_def [symmetric] s_def [symmetric]) simp
  qed
  show ?thesis
  proof (cases "s = m")
    case True
    have "unat (m - 1) = unat m - 1" using m3 by (intro unat_minus_one) auto
    moreover have "unat (random_ipv4_host n rnd) = unat (m - 1)" using h True by simp
    ultimately show ?thesis using m m3 by (intro conjI) linarith+
  next
    case False
    then have "unat s \<noteq> unat m" by (simp add: word_unat_eq_iff)
    moreover have "unat (random_ipv4_host n rnd) = unat s" using h False by simp
    ultimately show ?thesis using s m by (intro conjI) linarith+
  qed
qed

text \<open>With a netmask of \<open>n\<close> leading ones, \<open>n\<close> from 1 to 30, and a base address with no host bits,
  \<^verbatim>\<open>generate_random_ipv4_addr\<close> prints an address of that network whose host part is neither 0 nor 1 nor
  the broadcast address, whatever the random word. Without a random word, or for longer prefixes, it prints
  the base.\<close>
theorem random_ipv4_in_network:
  assumes "inet_pton AF_INET netmask = Some (be32_bytes_of (NOT (mask (32 - n))))"
    and "inet_pton AF_INET base = Some (be32_bytes_of b)" and "n \<le> 32"
  shows "generate_random_ipv4_addr inet_pton inet_ntop None base netmask =
        ip_to_string inet_ntop (ip_from_ipv4 (be32_bytes_of b)) \<and>
    (31 \<le> n \<longrightarrow> generate_random_ipv4_addr inet_pton inet_ntop (Some rnd) base netmask =
        ip_to_string inet_ntop (ip_from_ipv4 (be32_bytes_of b))) \<and>
    (0 < n \<and> n < 31 \<longrightarrow> (\<exists>h. generate_random_ipv4_addr inet_pton inet_ntop (Some rnd) base netmask =
        ip_to_string inet_ntop (ip_from_ipv4 (be32_bytes_of (b OR h))) \<and>
        2 \<le> unat h \<and> unat h \<le> 2 ^ (32 - n) - 2))"
proof -
  have p: "netmask_to_prefix inet_pton netmask = Done n"
    using assms(1,3) leading_ones_netmask [of 32 "32 - n"]
    by (simp add: netmask_to_prefix_def ipv4_parse_def ip_from_data)
  have poke: "poke (be32_bytes_of b @ replicate 12 0) 0 (be32_bytes_of w) = be32_bytes_of w @ replicate 12 0" for w
    by (simp add: poke_def)
  show ?thesis
    using assms(2) random_ipv4_host_bounds [of n rnd]
    by (auto simp: generate_random_ipv4_addr_def p ipv4_parse_def random_ipv4_addr_def ip_from_data poke)
qed

theorem random_ipv4_in_network_witness:
  "\<exists>h. generate_random_ipv4_addr (\<lambda>_ s. if s = ''255.255.255.0'' then Some (be32_bytes_of (NOT (mask 8)))
        else Some (be32_bytes_of 0x0a000000)) (\<lambda>_ d. Some (dec (unat (d ! 3)))) (Some 0xffffffff) ''10.0.0.0'' ''255.255.255.0'' =
      ip_to_string (\<lambda>_ d. Some (dec (unat (d ! 3)))) (ip_from_ipv4 (be32_bytes_of (0x0a000000 OR h))) \<and>
    2 \<le> unat h \<and> unat h \<le> 254"
  using random_ipv4_in_network [where inet_pton = "\<lambda>_ s. if s = ''255.255.255.0'' then Some (be32_bytes_of (NOT (mask 8)))
      else Some (be32_bytes_of 0x0a000000)" and netmask = "''255.255.255.0''" and n = 24 and base = "''10.0.0.0''" and b = "0x0a000000"
      and inet_ntop = "\<lambda>_ d. Some (dec (unat (d ! 3)))" and rnd = "0xffffffff"]
  by simp

text \<open>The prefix length is truncated to 32 bits before it is checked, no digits count as length 0, and a
  random IPv6 host part for a full prefix still changes the base.\<close>

lemma prefix_len_wraps: "prefix_len_parse ''10.0.0.0/4294967304'' 32 = Done 8"
  by code_simp

lemma prefix_len_empty: "prefix_len_parse ''10.0.0.0/'' 32 = Done 0"
  by code_simp

lemma random_ipv6_host_128: "random_ipv6_host 128 rnd = 1"
  by (simp add: random_ipv6_host_def Let_def)

end
