(* ===== verification/Config.thy ===== *)
theory Config
  imports IpAddress MapInterface
begin

section \<open>Configuration\<close>

text \<open>
  The model of \<^verbatim>\<open>config.c\<close> and \<^verbatim>\<open>config.h\<close>: the definitions of symbols, the defaults, the options of the
  script and of the command line, and the values that depend on the whole configuration. The list that
  \<^verbatim>\<open>getopt_long\<close> finds is an argument, as are \<^verbatim>\<open>inet_pton\<close>, \<^verbatim>\<open>inet_ntop\<close> and the random words. A null
  string is \<open>None\<close>; an error message goes to the terminal and the program exits, which is \<open>Die\<close>.
\<close>

subsection \<open>Symbols defined on the command line\<close>

type_synonym definitions = "(string \<times> string) list"

fun definition_find :: "definitions \<Rightarrow> string \<Rightarrow> (string \<times> string) option" where
  "definition_find [] s = None"
| "definition_find ((symbol, v) # defs) s = (if symbol = s then Some (symbol, v) else definition_find defs s)"

text \<open>The entry that \<^verbatim>\<open>definition_find\<close> returns is updated in place.\<close>

fun definition_update :: "definitions \<Rightarrow> string \<Rightarrow> string \<Rightarrow> definitions" where
  "definition_update [] s v = []"
| "definition_update ((symbol, w) # defs) s v =
     (if symbol = s then (symbol, v) # defs else (symbol, w) # definition_update defs s v)"

definition definition_set :: "definitions \<Rightarrow> string \<Rightarrow> string \<Rightarrow> definitions" where
  "definition_set defs s v =
     (case definition_find defs s of Some _ \<Rightarrow> definition_update defs s v | None \<Rightarrow> (s, v) # defs)"

definition definition_get :: "definitions \<Rightarrow> string \<Rightarrow> string option" where
  "definition_get defs s = (case definition_find defs s of Some (_, v) \<Rightarrow> Some v | None \<Rightarrow> None)"

subsection \<open>The configuration\<close>

datatype ip_version = IP_VERSION_4 | IP_VERSION_4_MAPPED_6 | IP_VERSION_6

record config =
  ip_version :: ip_version
  socket_domain :: address_family
  wire_protocol :: address_family
  live_bind_port :: u16
  live_connect_port :: u16
  live_bind_ip :: ip_address
  live_connect_ip :: ip_address
  live_local_ip :: ip_address
  live_remote_ip :: ip_address
  live_remote_prefix :: ip_prefix
  live_gateway_ip :: ip_address
  live_local_ip_string :: string
  live_remote_ip_string :: string
  live_remote_prefix_string :: string
  live_gateway_ip_string :: string
  live_netmask_ip_string :: string
  live_prefix_len :: nat
  tolerance_usecs :: int
  tcp_ts_ecr_scaled :: bool
  tcp_ts_tick_usecs :: int
  speed :: u32
  cfg_mss :: int
  cfg_mtu :: int
  strict_segments :: bool
  non_fatal_packet :: bool
  non_fatal_syscall :: bool
  send_omit_free :: bool
  dry_run :: bool
  verbose :: bool
  cfg_script_path :: string
  code_command_line :: string
  code_format :: string
  code_sockopt :: string
  init_scripts :: "string option"
  is_wire_client :: bool
  is_wire_server :: bool
  wire_client_device :: string
  wire_server_device :: string
  wire_server_ip :: ip_address
  wire_server_ip_string :: "string option"
  wire_server_port :: u16
  so_filename :: "string option"
  so_flags :: "string option"
  is_anyip :: bool
  cfg_defines :: definitions

definition set_default_config :: config where
  "set_default_config = \<lparr>ip_version = IP_VERSION_4, socket_domain = AF_UNSPEC, wire_protocol = AF_UNSPEC,
     live_bind_port = 8080, live_connect_port = 8080,
     live_bind_ip = ip_reset, live_connect_ip = ip_reset, live_local_ip = ip_reset, live_remote_ip = ip_reset,
     live_remote_prefix = ip_prefix_reset, live_gateway_ip = ip_reset,
     live_local_ip_string = [], live_remote_ip_string = [], live_remote_prefix_string = [],
     live_gateway_ip_string = [], live_netmask_ip_string = [], live_prefix_len = 0,
     tolerance_usecs = 4000, tcp_ts_ecr_scaled = False, tcp_ts_tick_usecs = 0,
     speed = 0, cfg_mss = 0, cfg_mtu = 1500, strict_segments = False,
     non_fatal_packet = False, non_fatal_syscall = False, send_omit_free = False, dry_run = False,
     verbose = False, cfg_script_path = [], code_command_line = ''/usr/bin/python'', code_format = ''python'',
     code_sockopt = '''', init_scripts = None, is_wire_client = False, is_wire_server = False,
     wire_client_device = ''eth0'', wire_server_device = ''eth0'', wire_server_ip = ip_reset,
     wire_server_ip_string = None, wire_server_port = 8081, so_filename = None, so_flags = None,
     is_anyip = False, cfg_defines = []\<rparr>"

subsection \<open>Finalizing the configuration\<close>

text \<open>The outside world that the configuration reads: the two address functions and the random words.\<close>

record config_env =
  env_pton :: pton
  env_ntop :: ntop
  env_urandom4 :: "u32 option"
  env_urandom6 :: u32

definition set_ipv4_defaults :: "config_env \<Rightarrow> config \<Rightarrow> config run" where
  "set_ipv4_defaults env c =
     (let c = (if live_remote_ip_string c = [] then c\<lparr>live_remote_ip_string := ''192.0.2.1/24''\<rparr> else c);
          c = (if live_netmask_ip_string c = [] then c\<lparr>live_netmask_ip_string := ''255.255.0.0''\<rparr> else c)
      in rbind (if live_local_ip_string c = []
           then rbind (generate_random_ipv4_addr (env_pton env) (env_ntop env) (env_urandom4 env) ''192.168.0.0''
                  (live_netmask_ip_string c)) (\<lambda>s. Done (c\<lparr>live_local_ip_string := s\<rparr>))
           else Done c) (\<lambda>c.
         Done (if live_gateway_ip_string c = [] then c\<lparr>live_gateway_ip_string := ''192.168.0.1''\<rparr> else c)))"

definition DEFAULT_V6_LIVE_PREFIX_LEN :: nat where "DEFAULT_V6_LIVE_PREFIX_LEN = 48"

definition set_ipv6_defaults :: "config_env \<Rightarrow> config \<Rightarrow> config run" where
  "set_ipv6_defaults env c =
     (let c = (if live_remote_ip_string c = [] then c\<lparr>live_remote_ip_string := ''2001:DB8::1/32''\<rparr> else c)
      in rbind (if live_local_ip_string c = []
           then rbind (generate_random_ipv6_addr (env_pton env) (env_ntop env) (env_urandom6 env) ''fd3d:fa7b:d17d::0''
                  DEFAULT_V6_LIVE_PREFIX_LEN) (\<lambda>s. Done (c\<lparr>live_local_ip_string := s\<rparr>))
           else Done c) (\<lambda>c.
         Done (if live_gateway_ip_string c = [] then c\<lparr>live_gateway_ip_string := ''fd3d:fa7b:d17d:8888::0''\<rparr> else c)))"

definition set_remote_ip_and_prefix :: "config_env \<Rightarrow> config \<Rightarrow> config run" where
  "set_remote_ip_and_prefix env c =
     (let c = c\<lparr>live_remote_ip := prefix_ip (live_remote_prefix c)\<rparr>
      in rbind (ip_to_string (env_ntop env) (live_remote_ip c)) (\<lambda>s.
         rbind (ip_prefix_normalize (live_remote_prefix c)) (\<lambda>p.
         rbind (ip_prefix_to_string (env_ntop env) p) (\<lambda>t.
           Done (c\<lparr>live_remote_ip_string := s, live_remote_prefix := p, live_remote_prefix_string := t\<rparr>)))))"

text \<open>The steps that the two IPv4 flavors share.\<close>

definition finalize_ipv4_common :: "config_env \<Rightarrow> config \<Rightarrow> config run" where
  "finalize_ipv4_common env c =
     rbind (set_ipv4_defaults env c) (\<lambda>c.
     rbind (ipv4_parse (env_pton env) (live_local_ip_string c)) (\<lambda>local.
     rbind (ipv4_prefix_parse (env_pton env) (live_remote_ip_string c)) (\<lambda>p.
     rbind (set_remote_ip_and_prefix env (c\<lparr>live_local_ip := local, live_remote_prefix := p\<rparr>)) (\<lambda>c.
     rbind (netmask_to_prefix (env_pton env) (live_netmask_ip_string c)) (\<lambda>len.
     rbind (ipv4_parse (env_pton env) (live_gateway_ip_string c)) (\<lambda>gw.
       Done (c\<lparr>live_prefix_len := len, live_gateway_ip := gw\<rparr>)))))))"

definition finalize_ipv4_config :: "config_env \<Rightarrow> config \<Rightarrow> config run" where
  "finalize_ipv4_config env c = rbind (finalize_ipv4_common env c) (\<lambda>c.
     Done (c\<lparr>live_bind_ip := live_local_ip c, live_connect_ip := live_remote_ip c,
       socket_domain := AF_INET, wire_protocol := AF_INET\<rparr>))"

definition finalize_ipv4_mapped_ipv6_config :: "config_env \<Rightarrow> config \<Rightarrow> config run" where
  "finalize_ipv4_mapped_ipv6_config env c = rbind (finalize_ipv4_common env c) (\<lambda>c.
     Done (c\<lparr>live_bind_ip := ipv6_map_from_ipv4 (live_local_ip c),
       live_connect_ip := ipv6_map_from_ipv4 (live_remote_ip c),
       socket_domain := AF_INET6, wire_protocol := AF_INET\<rparr>))"

definition finalize_ipv6_config :: "config_env \<Rightarrow> config \<Rightarrow> config run" where
  "finalize_ipv6_config env c =
     rbind (set_ipv6_defaults env c) (\<lambda>c.
     rbind (ipv6_parse (env_pton env) (live_local_ip_string c)) (\<lambda>local.
     rbind (ipv6_prefix_parse (env_pton env) (live_remote_ip_string c)) (\<lambda>p.
     rbind (set_remote_ip_and_prefix env (c\<lparr>live_local_ip := local, live_remote_prefix := p\<rparr>)) (\<lambda>c.
     rbind (ipv6_parse (env_pton env) (live_gateway_ip_string c)) (\<lambda>gw.
       Done (c\<lparr>live_prefix_len := DEFAULT_V6_LIVE_PREFIX_LEN, live_gateway_ip := gw,
         live_bind_ip := live_local_ip c, live_connect_ip := live_remote_ip c,
         socket_domain := AF_INET6, wire_protocol := AF_INET6\<rparr>))))))"

definition finalize_config :: "config_env \<Rightarrow> config \<Rightarrow> config run" where
  "finalize_config env c = (case ip_version c of
     IP_VERSION_4 \<Rightarrow> finalize_ipv4_config env c
   | IP_VERSION_4_MAPPED_6 \<Rightarrow> finalize_ipv4_mapped_ipv6_config env c
   | IP_VERSION_6 \<Rightarrow> finalize_ipv6_config env c)"

subsection \<open>Options\<close>

text \<open>The tokens of \<^verbatim>\<open>strtok_r\<close> with a set of delimiters: the maximal runs of other characters.\<close>

function tokens :: "(char \<Rightarrow> bool) \<Rightarrow> string \<Rightarrow> string list" where
  "tokens delim s =
     (let t = dropWhile delim s in
      if t = [] then [] else takeWhile (\<lambda>c. \<not> delim c) t # tokens delim (dropWhile (\<lambda>c. \<not> delim c) t))"
  by pat_completeness auto
termination
proof (relation "measure (\<lambda>(_, s). length s)")
  fix delim :: "char \<Rightarrow> bool" and s t :: string
  assume t: "t = dropWhile delim s" "t \<noteq> []"
  then have "\<not> delim (hd t)" using hd_dropWhile by metis
  then have "length (dropWhile (\<lambda>c. \<not> delim c) t) < length t"
    using t(2) by (cases t) (simp_all add: length_dropWhile_le less_Suc_eq_le)
  also have "\<dots> \<le> length s" unfolding t(1) by (rule length_dropWhile_le)
  finally show "((delim, dropWhile (\<lambda>c. \<not> delim c) t), delim, s) \<in> measure (\<lambda>(_, s). length s)" by simp
qed simp

declare tokens.simps [simp del]

definition parse_non_fatal_arg :: "string option \<Rightarrow> config \<Rightarrow> config" where
  "parse_non_fatal_arg arg c = (case arg of None \<Rightarrow> c | Some s \<Rightarrow>
     foldl (\<lambda>c token. if token = ''packet'' then c\<lparr>non_fatal_packet := True\<rparr>
         else if token = ''syscall'' then c\<lparr>non_fatal_syscall := True\<rparr> else c)
       c (tokens (\<lambda>ch. ch = CHR '','' \<or> ch = CHR '' '') s))"

text \<open>\<^verbatim>\<open>atoi\<close>, and \<^verbatim>\<open>strtoul\<close> in base 10 with the value as the signed 64-bit number that
  \<^verbatim>\<open>is_valid_u32\<close> gets.\<close>

definition atoi :: "string \<Rightarrow> int" where
  "atoi s = sint (word_of_int (fst (strtol10 s)) :: u32)"

definition is_valid_u8 :: "int \<Rightarrow> bool" where "is_valid_u8 x \<longleftrightarrow> 0 \<le> x \<and> x \<le> 0xff"
definition is_valid_u16 :: "int \<Rightarrow> bool" where "is_valid_u16 x \<longleftrightarrow> 0 \<le> x \<and> x \<le> 0xffff"
definition is_valid_u32 :: "int \<Rightarrow> bool" where "is_valid_u32 x \<longleftrightarrow> 0 \<le> x \<and> x \<le> 0xffffffff"
definition is_valid_u20 :: "int \<Rightarrow> bool" where "is_valid_u20 x \<longleftrightarrow> 0 \<le> x \<and> x \<le> 0xfffff"

definition strtoul10 :: "string \<Rightarrow> int \<times> string" where
  "strtoul10 s =
     (let t = dropWhile is_space s;
          neg = (t \<noteq> [] \<and> hd t = CHR ''-'');
          u = (if t \<noteq> [] \<and> (hd t = CHR ''-'' \<or> hd t = CHR ''+'') then tl t else t);
          ds = takeWhile is_digit u;
          v = digits_value ds
      in if ds = [] then (0, s)
         else (sint (word_of_int (if 2 ^ 64 \<le> v then 2 ^ 64 - 1 else if neg then - v else v) :: u64), dropWhile is_digit u))"

text \<open>The enumerators of the options; \<^verbatim>\<open>getopt_long\<close> answers with another value for an option it does not
  know.\<close>

datatype opt = OPT_IP_VERSION | OPT_BIND_PORT | OPT_CODE_COMMAND | OPT_CODE_FORMAT | OPT_CODE_SOCKOPT
  | OPT_CONNECT_PORT | OPT_REMOTE_IP | OPT_LOCAL_IP | OPT_GATEWAY_IP | OPT_NETMASK_IP | OPT_SPEED | OPT_MSS
  | OPT_MTU | OPT_INIT_SCRIPTS | OPT_TOLERANCE_USECS | OPT_WIRE_CLIENT | OPT_WIRE_SERVER | OPT_WIRE_SERVER_IP
  | OPT_WIRE_SERVER_PORT | OPT_WIRE_CLIENT_DEV | OPT_WIRE_SERVER_DEV | OPT_SO_FILENAME | OPT_SO_FLAGS
  | OPT_TCP_TS_ECR_SCALED | OPT_TCP_TS_TICK_USECS | OPT_STRICT_SEGMENTS | OPT_NON_FATAL | OPT_DRY_RUN
  | OPT_IS_ANYIP | OPT_SEND_OMIT_FREE | OPT_DEFINE | OPT_VERBOSE | OPT_UNKNOWN

text \<open>Name, whether it has an argument, value.\<close>

definition options :: "(string \<times> bool \<times> opt) list" where
  "options = [
     (''ip_version'', True, OPT_IP_VERSION), (''bind_port'', True, OPT_BIND_PORT),
     (''code_command'', True, OPT_CODE_COMMAND), (''code_format'', True, OPT_CODE_FORMAT),
     (''code_sockopt'', True, OPT_CODE_SOCKOPT), (''connect_port'', True, OPT_CONNECT_PORT),
     (''remote_ip'', True, OPT_REMOTE_IP), (''local_ip'', True, OPT_LOCAL_IP),
     (''gateway_ip'', True, OPT_GATEWAY_IP), (''netmask_ip'', True, OPT_NETMASK_IP),
     (''speed'', True, OPT_SPEED), (''mss'', True, OPT_MSS), (''mtu'', True, OPT_MTU),
     (''init_scripts'', True, OPT_INIT_SCRIPTS), (''tolerance_usecs'', True, OPT_TOLERANCE_USECS),
     (''wire_client'', False, OPT_WIRE_CLIENT), (''wire_server'', False, OPT_WIRE_SERVER),
     (''wire_server_ip'', True, OPT_WIRE_SERVER_IP), (''wire_server_port'', True, OPT_WIRE_SERVER_PORT),
     (''wire_client_dev'', True, OPT_WIRE_CLIENT_DEV), (''wire_server_dev'', True, OPT_WIRE_SERVER_DEV),
     (''so_filename'', True, OPT_SO_FILENAME), (''so_flags'', True, OPT_SO_FLAGS),
     (''tcp_ts_ecr_scaled'', False, OPT_TCP_TS_ECR_SCALED), (''tcp_ts_tick_usecs'', True, OPT_TCP_TS_TICK_USECS),
     (''strict_segments'', False, OPT_STRICT_SEGMENTS), (''non_fatal'', True, OPT_NON_FATAL),
     (''dry_run'', False, OPT_DRY_RUN), (''is_anyip'', False, OPT_IS_ANYIP),
     (''send_omit_free'', False, OPT_SEND_OMIT_FREE), (''define'', True, OPT_DEFINE),
     (''verbose'', False, OPT_VERBOSE)]"

text \<open>The argument of an option that has one; a null pointer faults.\<close>

definition need :: "string option \<Rightarrow> (string \<Rightarrow> 'a run) \<Rightarrow> 'a run" where
  "need optarg f = (case optarg of None \<Rightarrow> Oob | Some s \<Rightarrow> f s)"

definition parse_port :: "string \<Rightarrow> (u16 \<Rightarrow> config) \<Rightarrow> config run" where
  "parse_port s set_port = (let port = atoi s in if port \<le> 0 \<or> 0xffff < port then Die else Done (set_port (word_of_int port)))"

fun process_option :: "config_env \<Rightarrow> opt \<Rightarrow> string option \<Rightarrow> config \<Rightarrow> config run" where
  "process_option env OPT_IP_VERSION optarg c = need optarg (\<lambda>s.
     if s = ''ipv4'' then Done (c\<lparr>ip_version := IP_VERSION_4\<rparr>)
     else if s = ''ipv4-mapped-ipv6'' then Done (c\<lparr>ip_version := IP_VERSION_4_MAPPED_6\<rparr>)
     else if s = ''ipv6'' then Done (c\<lparr>ip_version := IP_VERSION_6\<rparr>) else Die)"
| "process_option env OPT_BIND_PORT optarg c = need optarg (\<lambda>s. parse_port s (\<lambda>p. c\<lparr>live_bind_port := p\<rparr>))"
| "process_option env OPT_CODE_COMMAND optarg c = need optarg (\<lambda>s. Done (c\<lparr>code_command_line := s\<rparr>))"
| "process_option env OPT_CODE_FORMAT optarg c = need optarg (\<lambda>s. Done (c\<lparr>code_format := s\<rparr>))"
| "process_option env OPT_CODE_SOCKOPT optarg c = need optarg (\<lambda>s. Done (c\<lparr>code_sockopt := s\<rparr>))"
| "process_option env OPT_CONNECT_PORT optarg c = need optarg (\<lambda>s. parse_port s (\<lambda>p. c\<lparr>live_connect_port := p\<rparr>))"
| "process_option env OPT_REMOTE_IP optarg c = need optarg (\<lambda>s. Done (c\<lparr>live_remote_ip_string := take (ADDR_STR_LEN - 1) s\<rparr>))"
| "process_option env OPT_LOCAL_IP optarg c = need optarg (\<lambda>s. Done (c\<lparr>live_local_ip_string := take (ADDR_STR_LEN - 1) s\<rparr>))"
| "process_option env OPT_GATEWAY_IP optarg c = need optarg (\<lambda>s. Done (c\<lparr>live_gateway_ip_string := take (ADDR_STR_LEN - 1) s\<rparr>))"
| "process_option env OPT_MSS optarg c = need optarg (\<lambda>s. if atoi s \<le> 0 then Die else Done (c\<lparr>cfg_mss := atoi s\<rparr>))"
| "process_option env OPT_MTU optarg c = need optarg (\<lambda>s. if atoi s < 0 then Die else Done (c\<lparr>cfg_mtu := atoi s\<rparr>))"
| "process_option env OPT_NETMASK_IP optarg c = need optarg (\<lambda>s. Done (c\<lparr>live_netmask_ip_string := take (ADDR_STR_LEN - 1) s\<rparr>))"
| "process_option env OPT_INIT_SCRIPTS optarg c = Done (c\<lparr>init_scripts := optarg\<rparr>)"
| "process_option env OPT_NON_FATAL optarg c = Done (parse_non_fatal_arg optarg c)"
| "process_option env OPT_SPEED optarg c = need optarg (\<lambda>s.
     let (v, end) = strtoul10 s
     in if end = s \<or> end \<noteq> [] \<or> \<not> is_valid_u32 v then Die else Done (c\<lparr>speed := word_of_int v\<rparr>))"
| "process_option env OPT_TOLERANCE_USECS optarg c = need optarg (\<lambda>s.
     if atoi s \<le> 0 then Die else Done (c\<lparr>tolerance_usecs := atoi s\<rparr>))"
| "process_option env OPT_TCP_TS_ECR_SCALED optarg c = Done (c\<lparr>tcp_ts_ecr_scaled := True\<rparr>)"
| "process_option env OPT_TCP_TS_TICK_USECS optarg c = need optarg (\<lambda>s.
     if atoi s < 0 \<or> 1000000 < atoi s then Die else Done (c\<lparr>tcp_ts_tick_usecs := atoi s\<rparr>))"
| "process_option env OPT_STRICT_SEGMENTS optarg c = Done (c\<lparr>strict_segments := True\<rparr>)"
| "process_option env OPT_WIRE_CLIENT optarg c = Done (c\<lparr>is_wire_client := True\<rparr>)"
| "process_option env OPT_WIRE_SERVER optarg c = Done (c\<lparr>is_wire_server := True\<rparr>)"
| "process_option env OPT_WIRE_SERVER_IP optarg c = need optarg (\<lambda>s.
     rbind (ipv4_parse (env_pton env) s) (\<lambda>ip. Done (c\<lparr>wire_server_ip_string := Some s, wire_server_ip := ip\<rparr>)))"
| "process_option env OPT_WIRE_SERVER_PORT optarg c = need optarg (\<lambda>s. parse_port s (\<lambda>p. c\<lparr>wire_server_port := p\<rparr>))"
| "process_option env OPT_WIRE_CLIENT_DEV optarg c = need optarg (\<lambda>s. Done (c\<lparr>wire_client_device := s\<rparr>))"
| "process_option env OPT_WIRE_SERVER_DEV optarg c = need optarg (\<lambda>s. Done (c\<lparr>wire_server_device := s\<rparr>))"
| "process_option env OPT_SO_FILENAME optarg c = need optarg (\<lambda>s. Done (c\<lparr>so_filename := Some s\<rparr>))"
| "process_option env OPT_SO_FLAGS optarg c = need optarg (\<lambda>s. Done (c\<lparr>so_flags := Some s\<rparr>))"
| "process_option env OPT_DRY_RUN optarg c = Done (c\<lparr>dry_run := True\<rparr>)"
| "process_option env OPT_IS_ANYIP optarg c = Done (c\<lparr>is_anyip := True\<rparr>)"
| "process_option env OPT_SEND_OMIT_FREE optarg c = Done (c\<lparr>send_omit_free := True\<rparr>)"
| "process_option env OPT_DEFINE optarg c = need optarg (\<lambda>s.
     case dropWhile (\<lambda>ch. ch \<noteq> CHR ''='') s of
       [] \<Rightarrow> Die
     | _ # v \<Rightarrow> (let symbol = takeWhile (\<lambda>ch. ch \<noteq> CHR ''='') s in
         if symbol = [] then Die else Done (c\<lparr>cfg_defines := definition_set (cfg_defines c) symbol v\<rparr>)))"
| "process_option env OPT_VERBOSE optarg c = Done (c\<lparr>verbose := True\<rparr>)"
| "process_option env OPT_UNKNOWN optarg c = Die"

text \<open>The options that \<^verbatim>\<open>getopt_long\<close> returns, in its order.\<close>

fun parse_command_line_options :: "config_env \<Rightarrow> (opt \<times> string option) list \<Rightarrow> config \<Rightarrow> config run" where
  "parse_command_line_options env [] c = Done c"
| "parse_command_line_options env ((opt, optarg) # opts) c =
     rbind (process_option env opt optarg c) (\<lambda>c. parse_command_line_options env opts c)"

fun option_lookup :: "(string \<times> bool \<times> opt) list \<Rightarrow> string \<Rightarrow> (bool \<times> opt) option" where
  "option_lookup [] s = None"
| "option_lookup ((name, has_arg, opt) # tbl) s = (if name = s then Some (has_arg, opt) else option_lookup tbl s)"

fun parse_script_options :: "config_env \<Rightarrow> (string \<times> string option) list \<Rightarrow> config \<Rightarrow> config run" where
  "parse_script_options env [] c = Done c"
| "parse_script_options env ((name, v) # opts) c =
     (case option_lookup options name of
        None \<Rightarrow> Die
      | Some (has_arg, opt) \<Rightarrow>
          if v \<noteq> None \<and> \<not> has_arg then Die
          else if v = None \<and> has_arg then Die
          else rbind (process_option env opt v c) (\<lambda>c. parse_script_options env opts c))"

definition parse_and_finalize_config ::
  "config_env \<Rightarrow> (string \<times> string option) list \<Rightarrow> (opt \<times> string option) list \<Rightarrow> config \<Rightarrow> config run" where
  "parse_and_finalize_config env option_list opts c =
     rbind (parse_script_options env option_list c) (\<lambda>c.
     rbind (parse_command_line_options env opts c) (\<lambda>c.
     finalize_config env c))"

subsection \<open>Symbols\<close>

lemma definition_find_update:
  "definition_find (definition_update defs s v) t =
     (if t = s \<and> definition_find defs s \<noteq> None then Some (s, v) else definition_find defs t)"
  by (induction defs s v rule: definition_update.induct) auto

lemma definition_get_set: "definition_get (definition_set defs s v) t = (if t = s then Some v else definition_get defs t)"
  by (auto simp: definition_get_def definition_set_def definition_find_update split: option.split)

interpretation df: map_interface "[]" definition_set definition_get "\<lambda>_. True" Some None
  by unfold_locales (auto simp: definition_get_set, simp add: definition_get_def)

text \<open>The \<^verbatim>\<open>--define\<close> options: the last definition of a symbol counts.\<close>

lemma define_options:
  assumes "\<forall>(s, v) \<in> set kvs. s \<noteq> [] \<and> CHR ''='' \<notin> set s"
  shows "parse_command_line_options env (map (\<lambda>(s, v). (OPT_DEFINE, Some (s @ ''='' @ v))) kvs) c =
    Done (c\<lparr>cfg_defines := foldl (\<lambda>m (s, v). definition_set m s v) (cfg_defines c) kvs\<rparr>)"
  using assms
proof (induction kvs arbitrary: c)
  case (Cons kv kvs)
  obtain s v where kv: "kv = (s, v)" by (cases kv)
  have "dropWhile (\<lambda>ch. ch \<noteq> CHR ''='') (r @ ''='' @ v) = ''='' @ v \<and> takeWhile (\<lambda>ch. ch \<noteq> CHR ''='') (r @ ''='' @ v) = r"
    if "CHR ''='' \<notin> set r" for r using that by (induction r) auto
  then show ?case using Cons kv by (auto simp: need_def)
qed simp

lemma define_history:
  assumes "\<forall>(s, v) \<in> set kvs. s \<noteq> [] \<and> CHR ''='' \<notin> set s" "cfg_defines c = []"
  shows "\<exists>c'. parse_command_line_options env (map (\<lambda>(s, v). (OPT_DEFINE, Some (s @ ''='' @ v))) kvs) c = Done c' \<and>
    definition_get (cfg_defines c') s = map_of (rev kvs) s"
  using df.lookup_history [of kvs s] define_options [OF assms(1), of env c] assms(2) by (simp split: option.splits)

subsection \<open>The types of the final configuration\<close>

text \<open>What \<^verbatim>\<open>inet_pton\<close> promises: the address has the length of its family.\<close>

definition pton_ok :: "pton \<Rightarrow> bool" where
  "pton_ok inet_pton \<longleftrightarrow> (\<forall>s a. (inet_pton AF_INET s = Some a \<longrightarrow> length a = 4) \<and>
     (inet_pton AF_INET6 s = Some a \<longrightarrow> length a = 16))"

definition ip_is :: "address_family \<Rightarrow> ip_address \<Rightarrow> bool" where
  "ip_is af ip \<longleftrightarrow> ip_wf ip \<and> ip_family ip = af"

lemma parse_is:
  assumes "pton_ok p"
  shows "ipv4_parse p s = Done ip \<Longrightarrow> ip_is AF_INET ip" "ipv6_parse p s = Done ip \<Longrightarrow> ip_is AF_INET6 ip"
  using assms
  by (auto simp: ipv4_parse_def ipv6_parse_def pton_ok_def ip_is_def ip_from_wf split: option.splits)
    (auto simp: ip_from_ipv4_def ip_from_ipv6_def ipv4_init_def ipv6_init_def)

lemma map_is: "ip_is AF_INET ip \<Longrightarrow> ip_is AF_INET6 (ipv6_map_from_ipv4 ip)"
  using mapped_roundtrip(2) by (auto simp: ip_is_def ipv6_map_from_ipv4_def ipv6_init_def)

text \<open>A prefix whose length fits its address.\<close>

definition prefix_is :: "address_family \<Rightarrow> ip_prefix \<Rightarrow> bool" where
  "prefix_is af p \<longleftrightarrow> ip_is af (prefix_ip p) \<and> 0 \<le> prefix_len p \<and>
     (case ip_address_length af of Done m \<Rightarrow> prefix_len p \<le> 8 * int m | _ \<Rightarrow> False)"

lemma prefix_parse_is:
  assumes "pton_ok p"
  shows "ipv4_prefix_parse p s = Done q \<Longrightarrow> prefix_is AF_INET q" "ipv6_prefix_parse p s = Done q \<Longrightarrow> prefix_is AF_INET6 q"
proof -
  have "ip_to_prefix ip len = Done q \<Longrightarrow> ip_is af ip \<Longrightarrow> prefix_is af q" for ip len af
    by (cases af) (auto simp: ip_to_prefix_def prefix_is_def ip_is_def ip_wf_def split: if_splits)
  then show "ipv4_prefix_parse p s = Done q \<Longrightarrow> prefix_is AF_INET q" "ipv6_prefix_parse p s = Done q \<Longrightarrow> prefix_is AF_INET6 q"
    using parse_is [OF assms] by (auto simp: ipv4_prefix_parse_def ipv6_prefix_parse_def run_simps)
qed

text \<open>The prefix \<open>q\<close> is the address \<open>ip\<close> with the bits beyond the length cleared.\<close>

definition prefix_of :: "address_family \<Rightarrow> ip_address \<Rightarrow> ip_prefix \<Rightarrow> bool" where
  "prefix_of af ip q \<longleftrightarrow> prefix_is af q \<and> (\<forall>i < (if af = AF_INET then 32 else 128).
     ip_bit (ip_data (prefix_ip q)) i = (ip_bit (ip_data ip) i \<and> int i < prefix_len q))"

lemma normalize_is:
  assumes "prefix_is af p" "ip_prefix_normalize p = Done q"
  shows "prefix_of af (prefix_ip p) q"
proof -
  have ip: "ip_wf (prefix_ip p)" "ip_family (prefix_ip p) = af" using assms(1) by (auto simp: prefix_is_def ip_is_def)
  obtain m where m: "ip_address_length af = Done m" "prefix_len p \<le> 8 * int m" "0 \<le> prefix_len p"
    using assms(1) by (cases "ip_address_length af") (auto simp: prefix_is_def)
  have m8: "8 * m = (if af = AF_INET then 32 else 128)" using m(1) by (cases af) auto
  obtain r d where r: "ip_to_prefix (prefix_ip p) (prefix_len p) = Done r" "prefix_ip r = prefix_ip p"
    "ip_prefix_normalize r = Done \<lparr>prefix_ip = (prefix_ip p)\<lparr>ip_data := d\<rparr>, prefix_len = prefix_len p\<rparr>"
    "ip_wf ((prefix_ip p)\<lparr>ip_data := d\<rparr>)" "\<forall>i < 8 * m. ip_bit d i = (ip_bit (ip_data (prefix_ip p)) i \<and> int i < prefix_len p)"
    using normalize_bits [of "prefix_ip p" m "prefix_len p"] ip m by auto
  have "r = p" using r(1) m ip by (auto simp: ip_to_prefix_def intro: ip_prefix.equality split: if_splits)
  then show ?thesis using r assms ip m m8 by (auto simp: prefix_of_def prefix_is_def ip_is_def)
qed

text \<open>The table of families in the comment of \<^verbatim>\<open>config.c\<close>, and the addresses that belong to it.\<close>

definition families :: "ip_version \<Rightarrow> address_family \<times> address_family" where
  "families v = (case v of IP_VERSION_4 \<Rightarrow> (AF_INET, AF_INET) | IP_VERSION_4_MAPPED_6 \<Rightarrow> (AF_INET6, AF_INET)
     | IP_VERSION_6 \<Rightarrow> (AF_INET6, AF_INET6))"

definition config_typed :: "config \<Rightarrow> bool" where
  "config_typed c \<longleftrightarrow> (socket_domain c, wire_protocol c) = families (ip_version c) \<and>
     ip_is (wire_protocol c) (live_local_ip c) \<and> ip_is (wire_protocol c) (live_remote_ip c) \<and>
     ip_is (wire_protocol c) (live_gateway_ip c) \<and>
     ip_is (socket_domain c) (live_bind_ip c) \<and> ip_is (socket_domain c) (live_connect_ip c) \<and>
     prefix_of (wire_protocol c) (live_remote_ip c) (live_remote_prefix c) \<and>
     (if ip_version c = IP_VERSION_4_MAPPED_6
      then ipv6_map_to_ipv4 (live_bind_ip c) = Some (live_local_ip c) \<and>
        ipv6_map_to_ipv4 (live_connect_ip c) = Some (live_remote_ip c)
      else live_bind_ip c = live_local_ip c \<and> live_connect_ip c = live_remote_ip c)"

lemma set_remote_typed:
  assumes "set_remote_ip_and_prefix env c = Done c'" "prefix_is af (live_remote_prefix c)"
  shows "ip_is af (live_remote_ip c')" "prefix_of af (live_remote_ip c') (live_remote_prefix c')"
    "live_local_ip c' = live_local_ip c" "ip_version c' = ip_version c"
  using assms normalize_is [OF assms(2)]
  by (auto simp: set_remote_ip_and_prefix_def Let_def run_simps prefix_is_def)

lemma defaults_version:
  "set_ipv4_defaults env c = Done c' \<Longrightarrow> ip_version c' = ip_version c"
  "set_ipv6_defaults env c = Done c' \<Longrightarrow> ip_version c' = ip_version c"
  by (auto simp: set_ipv4_defaults_def set_ipv6_defaults_def Let_def run_simps split: if_splits)

lemma finalize_ipv4_common_typed:
  assumes "pton_ok (env_pton env)" "finalize_ipv4_common env c = Done c'"
  shows "ip_is AF_INET (live_local_ip c')" "ip_is AF_INET (live_remote_ip c')" "ip_is AF_INET (live_gateway_ip c')"
    "prefix_of AF_INET (live_remote_ip c') (live_remote_prefix c')" "ip_version c' = ip_version c"
proof -
  obtain c1 loc p c2 len gw where s: "set_ipv4_defaults env c = Done c1"
    "ipv4_parse (env_pton env) (live_local_ip_string c1) = Done loc"
    "ipv4_prefix_parse (env_pton env) (live_remote_ip_string c1) = Done p"
    "set_remote_ip_and_prefix env (c1\<lparr>live_local_ip := loc, live_remote_prefix := p\<rparr>) = Done c2"
    "ipv4_parse (env_pton env) (live_gateway_ip_string c2) = Done gw"
    "c' = c2\<lparr>live_prefix_len := len, live_gateway_ip := gw\<rparr>"
    using assms(2) by (auto simp: finalize_ipv4_common_def run_simps)
  note r = set_remote_typed [OF s(4), of AF_INET]
  show "ip_is AF_INET (live_local_ip c')" "ip_is AF_INET (live_remote_ip c')" "ip_is AF_INET (live_gateway_ip c')"
    "prefix_of AF_INET (live_remote_ip c') (live_remote_prefix c')" "ip_version c' = ip_version c"
    using r s prefix_parse_is(1) [OF assms(1) s(3)] parse_is(1) [OF assms(1)] defaults_version(1) [OF s(1)] by auto
qed

lemma finalize_config_ok:
  assumes "pton_ok (env_pton env)" "finalize_config env c = Done c'"
  shows "config_typed c' \<and> ip_version c' = ip_version c"
proof (cases "ip_version c")
  case IP_VERSION_4
  then obtain c1 where "finalize_ipv4_common env c = Done c1"
    "c' = c1\<lparr>live_bind_ip := live_local_ip c1, live_connect_ip := live_remote_ip c1, socket_domain := AF_INET, wire_protocol := AF_INET\<rparr>"
    using assms(2) by (auto simp: finalize_config_def finalize_ipv4_config_def run_simps)
  then show ?thesis
    using finalize_ipv4_common_typed [OF assms(1)] IP_VERSION_4 by (simp add: config_typed_def families_def)
next
  case IP_VERSION_4_MAPPED_6
  then obtain c1 where c1: "finalize_ipv4_common env c = Done c1"
    "c' = c1\<lparr>live_bind_ip := ipv6_map_from_ipv4 (live_local_ip c1), live_connect_ip := ipv6_map_from_ipv4 (live_remote_ip c1),
       socket_domain := AF_INET6, wire_protocol := AF_INET\<rparr>"
    using assms(2) by (auto simp: finalize_config_def finalize_ipv4_mapped_ipv6_config_def run_simps)
  then show ?thesis
    using finalize_ipv4_common_typed [OF assms(1) c1(1)] IP_VERSION_4_MAPPED_6 map_is mapped_roundtrip(1)
    by (simp add: config_typed_def families_def ip_is_def)
next
  case IP_VERSION_6
  then obtain c1 loc p c2 gw where s: "set_ipv6_defaults env c = Done c1"
    "ipv6_parse (env_pton env) (live_local_ip_string c1) = Done loc"
    "ipv6_prefix_parse (env_pton env) (live_remote_ip_string c1) = Done p"
    "set_remote_ip_and_prefix env (c1\<lparr>live_local_ip := loc, live_remote_prefix := p\<rparr>) = Done c2"
    "ipv6_parse (env_pton env) (live_gateway_ip_string c2) = Done gw"
    "c' = c2\<lparr>live_prefix_len := DEFAULT_V6_LIVE_PREFIX_LEN, live_gateway_ip := gw, live_bind_ip := live_local_ip c2,
       live_connect_ip := live_remote_ip c2, socket_domain := AF_INET6, wire_protocol := AF_INET6\<rparr>"
    using assms(2) by (auto simp: finalize_config_def finalize_ipv6_config_def run_simps)
  note r = set_remote_typed [OF s(4), of AF_INET6]
  show ?thesis
    using r s IP_VERSION_6 prefix_parse_is(2) [OF assms(1) s(3)] parse_is(2) [OF assms(1)] defaults_version(2) [OF s(1)]
    by (auto simp: config_typed_def families_def)
qed

text \<open>C15: Whatever the options, when the configuration is finalized at all, its addresses have the families
  of the table in \<^verbatim>\<open>config.c\<close>: local, remote and gateway address that of the wire, the addresses for
  bind and connect that of the sockets, mapped from the local and remote address for IPv4-mapped IPv6 and equal
  to them otherwise; and the remote prefix is the remote address cut to its prefix length.\<close>
theorem finalize_config_typed:
  assumes "pton_ok (env_pton env)" "parse_and_finalize_config env option_list opts c = Done c'"
  shows "config_typed c'"
  using assms finalize_config_ok by (auto simp: parse_and_finalize_config_def run_simps)

definition test_env :: config_env where
  "test_env = \<lparr>env_pton = (\<lambda>af s. if af = AF_INET then Some (if s = ''255.255.0.0'' then [255, 255, 0, 0] else [192, 0, 2, 1])
       else if af = AF_INET6 then Some (replicate 16 1) else None),
     env_ntop = (\<lambda>af d. Some (dec (unat (d ! 0)))), env_urandom4 = Some 77, env_urandom6 = 5\<rparr>"

theorem finalize_config_typed_witness:
  "\<exists>c'. parse_and_finalize_config test_env [(''ip_version'', Some ''ipv6''), (''local_ip'', Some ''::1'')] [(OPT_VERBOSE, None)]
       set_default_config = Done c' \<and>
    config_typed c' \<and> live_remote_prefix_string c' = ''1/32''"
proof -
  have ok: "pton_ok (env_pton test_env)" by (auto simp: pton_ok_def test_env_def)
  have "(case parse_and_finalize_config test_env [(''ip_version'', Some ''ipv6''), (''local_ip'', Some ''::1'')] [(OPT_VERBOSE, None)]
       set_default_config of Done c \<Rightarrow> live_remote_prefix_string c = ''1/32'' | _ \<Rightarrow> False)"
    by code_simp
  then obtain c' where "parse_and_finalize_config test_env [(''ip_version'', Some ''ipv6''), (''local_ip'', Some ''::1'')] [(OPT_VERBOSE, None)]
       set_default_config = Done c'" "live_remote_prefix_string c' = ''1/32''"
    by (auto split: run.splits)
  then show ?thesis using finalize_config_typed [OF ok] by blast
qed

end
