(* ===== verification/Socket.thy ===== *)
theory Socket
  imports Config HashMap
begin

section \<open>Sockets\<close>

text \<open>
  The model of \<^verbatim>\<open>socket.h\<close> and \<^verbatim>\<open>socket_new\<close> of \<^verbatim>\<open>socket.c\<close>: endpoints, tuples, the state of a socket in
  script and live space, the tuple of a packet, and the offsets between script and live sequence numbers.
  A port is the number that its two bytes stand for in network order. A tuple is compared by its fields; the
  bytes between them, which the code clears or copies, are left out. A TCP header that is copied is its
  20 bytes.
\<close>

unbundle bit_operations_syntax

subsection \<open>Endpoints and tuples\<close>

datatype socket_state_t = SOCKET_INIT | SOCKET_NEW | SOCKET_PASSIVE_LISTENING | SOCKET_PASSIVE_PACKET_RECEIVED
  | SOCKET_PASSIVE_SYNACK_SENT | SOCKET_PASSIVE_SYNACK_ACKED | SOCKET_ACTIVE_CONNECTING
  | SOCKET_ACTIVE_SYN_SENT | SOCKET_ACTIVE_SYN_ACKED

record endpoint =
  ep_ip :: ip_address
  ep_port :: u16

record tuple =
  t_src :: endpoint
  t_dst :: endpoint

record socket_state =
  s_local :: endpoint
  s_local_isn :: u32
  s_remote :: endpoint
  s_remote_isn :: u32

record flowlabel_map =
  flowlabel_script :: u32
  flowlabel_live :: u32

record socket =
  sk_script_fd :: int
  sk_live_fd :: int
  sk_is_closed :: bool
  sk_state :: socket_state_t
  sk_address_family :: address_family
  sk_protocol :: nat
  sk_script :: socket_state
  sk_live :: socket_state
  ts_val_map :: hash_map
  found_first_tcp_ts :: bool
  first_script_ts_val :: u32
  first_actual_ts_val :: u32
  first_script_ts_ecr :: u32
  first_actual_ts_ecr :: u32
  last_outbound_tcp_header :: bytes
  last_injected_tcp_header :: bytes
  last_injected_tcp_payload_len :: u32
  sk_flowlabel_map :: flowlabel_map

definition no_endpoint :: endpoint where
  "no_endpoint = \<lparr>ep_ip = ip_reset, ep_port = 0\<rparr>"

definition no_socket_state :: socket_state where
  "no_socket_state = \<lparr>s_local = no_endpoint, s_local_isn = 0, s_remote = no_endpoint, s_remote_isn = 0\<rparr>"

definition socket_new :: socket where
  "socket_new = \<lparr>sk_script_fd = 0, sk_live_fd = 0, sk_is_closed = False, sk_state = SOCKET_INIT,
     sk_address_family = AF_UNSPEC, sk_protocol = 0, sk_script = no_socket_state, sk_live = no_socket_state,
     ts_val_map = hash_map_new 1, found_first_tcp_ts = False, first_script_ts_val = 0, first_actual_ts_val = 0,
     first_script_ts_ecr = 0, first_actual_ts_ecr = 0, last_outbound_tcp_header = replicate 20 0,
     last_injected_tcp_header = replicate 20 0, last_injected_tcp_payload_len = 0,
     sk_flowlabel_map = \<lparr>flowlabel_script = 0, flowlabel_live = 0\<rparr>\<rparr>"

definition socket_get_outbound :: "socket_state \<Rightarrow> tuple" where
  "socket_get_outbound s = \<lparr>t_src = s_local s, t_dst = s_remote s\<rparr>"

definition socket_get_inbound :: "socket_state \<Rightarrow> tuple" where
  "socket_get_inbound s = \<lparr>t_src = s_remote s, t_dst = s_local s\<rparr>"

definition is_equal_tuple :: "tuple \<Rightarrow> tuple \<Rightarrow> bool" where
  "is_equal_tuple a b \<longleftrightarrow> a = b"

definition reverse_tuple :: "tuple \<Rightarrow> tuple" where
  "reverse_tuple t = \<lparr>t_src = t_dst t, t_dst = t_src t\<rparr>"

text \<open>The two addresses of the innermost IP header, and the two ports behind a transport header.\<close>

definition get_ip_pair :: "packet \<Rightarrow> (ip_address \<times> ip_address) run" where
  "get_ip_pair packet = (case p_ipv4 packet of
     Some p \<Rightarrow> rbind (ld_bytes (p_buffer packet) (p + 12) 4) (\<lambda>s. rbind (ld_bytes (p_buffer packet) (p + 16) 4) (\<lambda>d.
       Done (ip_from_ipv4 s, ip_from_ipv4 d)))
   | None \<Rightarrow> (case p_ipv6 packet of
     Some p \<Rightarrow> rbind (ld_bytes (p_buffer packet) (p + 8) 16) (\<lambda>s. rbind (ld_bytes (p_buffer packet) (p + 24) 16) (\<lambda>d.
       Done (ip_from_ipv6 s, ip_from_ipv6 d)))
   | None \<Rightarrow> Die))"

definition get_port_pair :: "packet \<Rightarrow> (u16 \<times> u16) run" where
  "get_port_pair packet = (case p_tcp packet of
     Some p \<Rightarrow> rbind (ld_be16 (p_buffer packet) p) (\<lambda>s. rbind (ld_be16 (p_buffer packet) (p + 2)) (\<lambda>d. Done (s, d)))
   | None \<Rightarrow> (case p_udp packet of
     Some p \<Rightarrow> rbind (ld_be16 (p_buffer packet) p) (\<lambda>s. rbind (ld_be16 (p_buffer packet) (p + 2)) (\<lambda>d. Done (s, d)))
   | None \<Rightarrow> Done (0, 0)))"

definition get_packet_tuple :: "packet \<Rightarrow> tuple run" where
  "get_packet_tuple packet = rbind (get_ip_pair packet) (\<lambda>(src, dst).
     rbind (get_port_pair packet) (\<lambda>(sport, dport).
       Done \<lparr>t_src = \<lparr>ep_ip = src, ep_port = sport\<rparr>, t_dst = \<lparr>ep_ip = dst, ep_port = dport\<rparr>\<rparr>))"

text \<open>The headers are given by their offsets in the buffer.\<close>

definition set_headers_tuple ::
  "bytes \<Rightarrow> nat option \<Rightarrow> nat option \<Rightarrow> nat option \<Rightarrow> nat option \<Rightarrow> tuple \<Rightarrow> bytes run" where
  "set_headers_tuple buf ipv4 ipv6 tcp udp tuple =
     rbind (case ipv4 of
         Some p \<Rightarrow> rbind (store buf (p + 12) (ip_to_ipv4 (ep_ip (t_src tuple)))) (\<lambda>buf.
           store buf (p + 16) (ip_to_ipv4 (ep_ip (t_dst tuple))))
       | None \<Rightarrow> (case ipv6 of
         Some p \<Rightarrow> rbind (store buf (p + 8) (ip_to_ipv6 (ep_ip (t_src tuple)))) (\<lambda>buf.
           store buf (p + 24) (ip_to_ipv6 (ep_ip (t_dst tuple))))
       | None \<Rightarrow> Die)) (\<lambda>buf.
     case tcp of
       Some p \<Rightarrow> rbind (store buf p (be16_bytes_of (ep_port (t_src tuple)))) (\<lambda>buf.
         store buf (p + 2) (be16_bytes_of (ep_port (t_dst tuple))))
     | None \<Rightarrow> (case udp of
       Some p \<Rightarrow> rbind (store buf p (be16_bytes_of (ep_port (t_src tuple)))) (\<lambda>buf.
         store buf (p + 2) (be16_bytes_of (ep_port (t_dst tuple))))
     | None \<Rightarrow> Done buf))"

definition packet_echoed_ipv4_header :: "packet \<Rightarrow> nat option" where
  "packet_echoed_ipv4_header packet = map_option (\<lambda>p. p + 8) (p_icmpv4 packet)"

definition packet_echoed_ipv6_header :: "packet \<Rightarrow> nat option" where
  "packet_echoed_ipv6_header packet = map_option (\<lambda>p. p + 8) (p_icmpv6 packet)"

definition set_icmp_echoed_tuple :: "packet \<Rightarrow> tuple \<Rightarrow> packet run" where
  "set_icmp_echoed_tuple packet tuple =
     rbind (packet_echoed_tcp_header packet) (\<lambda>tcp. rbind (packet_echoed_udp_header packet) (\<lambda>udp.
     rbind (set_headers_tuple (p_buffer packet) (packet_echoed_ipv4_header packet) (packet_echoed_ipv6_header packet)
         tcp udp (reverse_tuple tuple)) (\<lambda>buf.
     Done (packet\<lparr>p_buffer := buf\<rparr>))))"

definition set_packet_tuple :: "packet \<Rightarrow> tuple \<Rightarrow> packet run" where
  "set_packet_tuple packet tuple =
     rbind (set_headers_tuple (p_buffer packet) (p_ipv4 packet) (p_ipv6 packet) (p_tcp packet) (p_udp packet) tuple) (\<lambda>buf.
     let packet = packet\<lparr>p_buffer := buf\<rparr> in
     if p_icmpv4 packet \<noteq> None \<or> p_icmpv6 packet \<noteq> None then set_icmp_echoed_tuple packet tuple else Done packet)"

subsection \<open>Sequence numbers in script and live space\<close>

definition remote_seq_script_to_live_offset :: "socket \<Rightarrow> bool \<Rightarrow> u32" where
  "remote_seq_script_to_live_offset socket is_syn = (if is_syn then 0 else s_remote_isn (sk_live socket))"

definition remote_seq_live_to_script_offset :: "socket \<Rightarrow> bool \<Rightarrow> u32" where
  "remote_seq_live_to_script_offset socket is_syn = - remote_seq_script_to_live_offset socket is_syn"

definition local_seq_script_to_live_offset :: "socket \<Rightarrow> bool \<Rightarrow> u32" where
  "local_seq_script_to_live_offset socket is_syn =
     (if is_syn then s_local_isn (sk_live socket) - s_local_isn (sk_script socket) else s_local_isn (sk_live socket))"

definition local_seq_live_to_script_offset :: "socket \<Rightarrow> bool \<Rightarrow> u32" where
  "local_seq_live_to_script_offset socket is_syn = - local_seq_script_to_live_offset socket is_syn"

subsection \<open>The tuple of a packet\<close>

text \<open>A TCP or UDP packet: its addresses start at \<open>a\<close> and have \<open>m\<close> bytes each, its ports start at \<open>q\<close>.\<close>

definition tuple_layout :: "packet \<Rightarrow> address_family \<Rightarrow> nat \<Rightarrow> nat \<Rightarrow> nat \<Rightarrow> bool" where
  "tuple_layout packet af a m q \<longleftrightarrow>
     (case p_ipv4 packet of
        Some p \<Rightarrow> af = AF_INET \<and> a = p + 12 \<and> m = 4
      | None \<Rightarrow> (case p_ipv6 packet of Some p \<Rightarrow> af = AF_INET6 \<and> a = p + 8 \<and> m = 16 | None \<Rightarrow> False)) \<and>
     (case p_tcp packet of Some p \<Rightarrow> q = p | None \<Rightarrow> p_udp packet = Some q) \<and>
     a + 2 * m \<le> q \<and> q + 4 \<le> length (p_buffer packet)"

text \<open>The bytes of an address as they stand in the header of its family.\<close>

definition address_bytes :: "ip_address \<Rightarrow> bytes" where
  "address_bytes ip = (if ip_family ip = AF_INET then ip_to_ipv4 ip else ip_to_ipv6 ip)"

definition tuple_of_family :: "address_family \<Rightarrow> tuple \<Rightarrow> bool" where
  "tuple_of_family af t \<longleftrightarrow> ip_wf (ep_ip (t_src t)) \<and> ip_wf (ep_ip (t_dst t)) \<and>
     ip_family (ep_ip (t_src t)) = af \<and> ip_family (ep_ip (t_dst t)) = af"

definition put_tuple :: "bytes \<Rightarrow> nat \<Rightarrow> nat \<Rightarrow> nat \<Rightarrow> tuple \<Rightarrow> bytes" where
  "put_tuple buf a m q t = poke (poke (poke (poke buf a (address_bytes (ep_ip (t_src t))))
     (a + m) (address_bytes (ep_ip (t_dst t)))) q (be16_bytes_of (ep_port (t_src t))))
     (q + 2) (be16_bytes_of (ep_port (t_dst t)))"

lemma layout_address:
  assumes "tuple_layout packet af a m q" "tuple_of_family af t" "ip = ep_ip (t_src t) \<or> ip = ep_ip (t_dst t)"
  shows "length (address_bytes ip) = m"
  using assms by (auto simp: tuple_layout_def tuple_of_family_def address_bytes_def ip_to_ipv4_def ip_to_ipv6_def ip_wf_def
      split: option.splits)

lemma put_tuple_parts:
  assumes "length (address_bytes (ep_ip (t_src t))) = m" "length (address_bytes (ep_ip (t_dst t))) = m"
    "a + 2 * m \<le> q" "q + 4 \<le> length buf"
  shows "length (put_tuple buf a m q t) = length buf"
    "segment (put_tuple buf a m q t) a m = address_bytes (ep_ip (t_src t))"
    "segment (put_tuple buf a m q t) (a + m) m = address_bytes (ep_ip (t_dst t))"
    "ld_be16 (put_tuple buf a m q t) q = Done (ep_port (t_src t))"
    "ld_be16 (put_tuple buf a m q t) (q + 2) = Done (ep_port (t_dst t))"
    "\<And>i. i < length buf \<Longrightarrow> i \<notin> {a ..< a + 2 * m} \<Longrightarrow> i \<notin> {q ..< q + 4} \<Longrightarrow> put_tuple buf a m q t ! i = buf ! i"
proof -
  show l: "length (put_tuple buf a m q t) = length buf" using assms by (simp add: put_tuple_def)
  have nth: "put_tuple buf a m q t ! i =
      (if q + 2 \<le> i \<and> i < q + 4 then be16_bytes_of (ep_port (t_dst t)) ! (i - (q + 2))
       else if q \<le> i \<and> i < q + 2 then be16_bytes_of (ep_port (t_src t)) ! (i - q)
       else if a + m \<le> i \<and> i < a + m + m then address_bytes (ep_ip (t_dst t)) ! (i - (a + m))
       else if a \<le> i \<and> i < a + m then address_bytes (ep_ip (t_src t)) ! (i - a) else buf ! i)"
    if "i < length buf" for i
    using assms that by (simp add: put_tuple_def nth_poke)
  show "segment (put_tuple buf a m q t) a m = address_bytes (ep_ip (t_src t))"
    "segment (put_tuple buf a m q t) (a + m) m = address_bytes (ep_ip (t_dst t))"
    using assms l by (intro nth_equalityI; simp add: nth_segment nth)+
  show "ld_be16 (put_tuple buf a m q t) q = Done (ep_port (t_src t))"
    "ld_be16 (put_tuple buf a m q t) (q + 2) = Done (ep_port (t_dst t))"
    using assms l by (simp_all add: ld_be16_def nth be16_bytes_of_def)
  show "\<And>i. i < length buf \<Longrightarrow> i \<notin> {a ..< a + 2 * m} \<Longrightarrow> i \<notin> {q ..< q + 4} \<Longrightarrow> put_tuple buf a m q t ! i = buf ! i"
    using assms by (auto simp: nth)
qed

lemma set_packet_tuple_eq:
  assumes "tuple_layout packet af a m q" "tuple_of_family af t" "p_icmpv4 packet = None" "p_icmpv6 packet = None"
  shows "set_packet_tuple packet t = Done (packet\<lparr>p_buffer := put_tuple (p_buffer packet) a m q t\<rparr>)"
proof -
  note len = layout_address [OF assms(1,2)]
  have f: "ip_family (ep_ip (t_src t)) = af" "ip_family (ep_ip (t_dst t)) = af" using assms(2) by (auto simp: tuple_of_family_def)
  have q: "a + 2 * m \<le> q" "q + 4 \<le> length (p_buffer packet)" using assms(1) by (auto simp: tuple_layout_def)
  have l4: "(case p_tcp packet of Some p \<Rightarrow> f p | None \<Rightarrow> (case p_udp packet of Some p \<Rightarrow> f p | None \<Rightarrow> g)) = f q" for f g
    using assms(1) by (auto simp: tuple_layout_def split: option.splits)
  have "set_headers_tuple (p_buffer packet) (p_ipv4 packet) (p_ipv6 packet) (p_tcp packet) (p_udp packet) t =
      Done (put_tuple (p_buffer packet) a m q t)"
  proof (cases "p_ipv4 packet")
    case None
    then obtain p where p: "p_ipv6 packet = Some p" "af = AF_INET6" "a = p + 8" "m = 16"
      using assms(1) by (auto simp: tuple_layout_def split: option.splits)
    have "length (ip_to_ipv6 (ep_ip (t_src t))) = 16" "length (ip_to_ipv6 (ep_ip (t_dst t))) = 16"
      using len [of "ep_ip (t_src t)"] len [of "ep_ip (t_dst t)"] f p by (auto simp: address_bytes_def)
    then show ?thesis using None p q f
      by (simp add: set_headers_tuple_def l4 store_in put_tuple_def address_bytes_def add.commute add.left_commute)
  next
    case (Some p)
    then have p: "af = AF_INET" "a = p + 12" "m = 4" using assms(1) by (auto simp: tuple_layout_def)
    have "length (ip_to_ipv4 (ep_ip (t_src t))) = 4" "length (ip_to_ipv4 (ep_ip (t_dst t))) = 4"
      using len [of "ep_ip (t_src t)"] len [of "ep_ip (t_dst t)"] f p by (auto simp: address_bytes_def)
    then show ?thesis using Some p q f
      by (simp add: set_headers_tuple_def l4 store_in put_tuple_def address_bytes_def add.commute add.left_commute)
  qed
  then show ?thesis using assms(3,4) by (simp add: set_packet_tuple_def)
qed

lemma get_packet_tuple_eq:
  assumes "tuple_layout packet af a m q" "tuple_of_family af t"
    "segment (p_buffer packet) a m = address_bytes (ep_ip (t_src t))"
    "segment (p_buffer packet) (a + m) m = address_bytes (ep_ip (t_dst t))"
    "ld_be16 (p_buffer packet) q = Done (ep_port (t_src t))" "ld_be16 (p_buffer packet) (q + 2) = Done (ep_port (t_dst t))"
  shows "get_packet_tuple packet = Done t"
proof -
  have wf: "ip_wf (ep_ip (t_src t))" "ip_wf (ep_ip (t_dst t))" "ip_family (ep_ip (t_src t)) = af"
    "ip_family (ep_ip (t_dst t)) = af" using assms(2) by (auto simp: tuple_of_family_def)
  have q: "a + 2 * m \<le> q" "q + 4 \<le> length (p_buffer packet)" using assms(1) by (auto simp: tuple_layout_def)
  have ports: "get_port_pair packet = Done (ep_port (t_src t), ep_port (t_dst t))"
    using assms(1,5,6) by (auto simp: get_port_pair_def tuple_layout_def split: option.splits)
  have "get_ip_pair packet = Done (ep_ip (t_src t), ep_ip (t_dst t))"
  proof (cases "p_ipv4 packet")
    case None
    then obtain p where p: "p_ipv6 packet = Some p" "af = AF_INET6" "a = p + 8" "m = 16"
      using assms(1) by (auto simp: tuple_layout_def split: option.splits)
    have "a + m = p + 24" using p by simp
    then show ?thesis using None p q wf assms(3,4) ip_to_from(2)
      by (simp add: get_ip_pair_def ld_bytes_segment address_bytes_def ip_to_ipv6_def add.commute)
  next
    case (Some p)
    then have p: "af = AF_INET" "a = p + 12" "m = 4" using assms(1) by (auto simp: tuple_layout_def)
    have "a + m = p + 16" using p by simp
    then show ?thesis using Some p q wf assms(3,4) ip_to_from(1)
      by (simp add: get_ip_pair_def ld_bytes_segment address_bytes_def ip_to_ipv4_def add.commute)
  qed
  then show ?thesis using ports by (simp add: get_packet_tuple_def)
qed

lemma set_packet_tuple_ok:
  assumes "tuple_layout packet af a m q" "tuple_of_family af t" "p_icmpv4 packet = None" "p_icmpv6 packet = None"
  shows "\<exists>buf. set_packet_tuple packet t = Done (packet\<lparr>p_buffer := buf\<rparr>) \<and>
    get_packet_tuple (packet\<lparr>p_buffer := buf\<rparr>) = Done t \<and> length buf = length (p_buffer packet) \<and>
    (\<forall>i < length buf. i \<notin> {a ..< a + 2 * m} \<longrightarrow> i \<notin> {q ..< q + 4} \<longrightarrow> buf ! i = p_buffer packet ! i)"
proof -
  have q: "a + 2 * m \<le> q" "q + 4 \<le> length (p_buffer packet)" using assms(1) by (auto simp: tuple_layout_def)
  have len: "length (address_bytes (ep_ip (t_src t))) = m" "length (address_bytes (ep_ip (t_dst t))) = m"
    using layout_address [OF assms(1,2)] by auto
  note parts = put_tuple_parts [OF len q]
  let ?p = "packet\<lparr>p_buffer := put_tuple (p_buffer packet) a m q t\<rparr>"
  have "tuple_layout ?p af a m q" using assms(1) parts(1) by (auto simp: tuple_layout_def split: option.splits)
  then have "get_packet_tuple ?p = Done t" by (rule get_packet_tuple_eq [OF _ assms(2)]) (use parts in simp_all)
  then show ?thesis using set_packet_tuple_eq [OF assms] parts(1,6) by auto
qed

text \<open>C16: The addresses and ports that are put into a TCP or UDP packet, over IPv4 or IPv6, are those that are read
  from it afterwards; all other bytes, the headers and the length of the packet stay as they were.\<close>
theorem set_packet_tuple_roundtrip:
  assumes "tuple_layout packet af a m q" "tuple_of_family af t" "p_icmpv4 packet = None" "p_icmpv6 packet = None"
  shows "\<exists>buf. set_packet_tuple packet t = Done (packet\<lparr>p_buffer := buf\<rparr>) \<and>
    get_packet_tuple (packet\<lparr>p_buffer := buf\<rparr>) = Done t \<and> length buf = length (p_buffer packet) \<and>
    (\<forall>i < length buf. i \<notin> {a ..< a + 2 * m} \<longrightarrow> i \<notin> {q ..< q + 4} \<longrightarrow> buf ! i = p_buffer packet ! i)"
  using assms by (rule set_packet_tuple_ok)

definition test_tuple :: tuple where
  "test_tuple = \<lparr>t_src = \<lparr>ep_ip = ip_from_ipv4 [192, 0, 2, 1], ep_port = 8080\<rparr>,
     t_dst = \<lparr>ep_ip = ip_from_ipv4 [192, 168, 0, 1], ep_port = 4711\<rparr>\<rparr>"

lemma test_tuple_family: "tuple_of_family AF_INET test_tuple"
  by (simp add: tuple_of_family_def test_tuple_def ip_wf_def ip_from_ipv4_def ipv4_init_def poke_def)

theorem set_packet_tuple_roundtrip_witness:
  "\<exists>packet buf. packet = (packet_new (replicate 40 7))\<lparr>p_ipv4 := Some 0, p_tcp := Some 20\<rparr> \<and>
    set_packet_tuple packet test_tuple = Done (packet\<lparr>p_buffer := buf\<rparr>) \<and>
    get_packet_tuple (packet\<lparr>p_buffer := buf\<rparr>) = Done test_tuple \<and> buf ! 11 = 7"
proof -
  let ?p = "(packet_new (replicate 40 7))\<lparr>p_ipv4 := Some 0, p_tcp := Some 20\<rparr>"
  have l: "tuple_layout ?p AF_INET 12 4 20" by (simp add: tuple_layout_def packet_new_def)
  have n: "p_icmpv4 ?p = None" "p_icmpv6 ?p = None" by (simp_all add: packet_new_def)
  obtain buf where b: "set_packet_tuple ?p test_tuple = Done (?p\<lparr>p_buffer := buf\<rparr>)"
    "get_packet_tuple (?p\<lparr>p_buffer := buf\<rparr>) = Done test_tuple" "length buf = length (p_buffer ?p)"
    "\<forall>i < length buf. i \<notin> {12 ..< 12 + 2 * 4} \<longrightarrow> i \<notin> {20 ..< 20 + 4} \<longrightarrow> buf ! i = p_buffer ?p ! i"
    using set_packet_tuple_roundtrip [OF l test_tuple_family n] by blast
  moreover have "buf ! 11 = 7" using b(3,4) by (simp add: packet_new_def)
  ultimately show ?thesis by blast
qed

subsection \<open>ICMP packets that echo nothing\<close>

lemma set_headers_v4:
  assumes "p + 20 \<le> length buf" "length (ip_to_ipv4 (ep_ip (t_src t))) = 4" "length (ip_to_ipv4 (ep_ip (t_dst t))) = 4"
  shows "set_headers_tuple buf (Some p) v6 None None t =
    Done (poke (poke buf (p + 12) (ip_to_ipv4 (ep_ip (t_src t)))) (p + 16) (ip_to_ipv4 (ep_ip (t_dst t))))"
  using assms by (simp add: set_headers_tuple_def store_in)

text \<open>A tuple is put into every ICMP packet as if it echoed an IP header, also when the packet records that it
  does not. In an IPv4 packet whose ICMP header is at \<open>q\<close> the code reads the byte at \<open>q + 17\<close>, past the end of
  a packet with less than 10 bytes of payload; and in a longer one it overwrites the payload at
  \<open>q + 20, \<dots>, q + 27\<close> with the addresses.\<close>
theorem set_packet_tuple_icmp_payload:
  assumes "p_ipv4 packet = Some p" "p_icmpv4 packet = Some q" "p_tcp packet = None" "p_udp packet = None"
    "p_icmpv6 packet = None" "\<not> p_echoed_header packet" "tuple_of_family AF_INET t"
    "p + 20 \<le> q" "q + 8 \<le> length (p_buffer packet)"
  shows "(length (p_buffer packet) \<le> q + 17 \<longrightarrow> set_packet_tuple packet t = Oob) \<and>
    (q + 28 \<le> length (p_buffer packet) \<and> unat (p_buffer packet ! (q + 17)) \<notin> {IPPROTO_TCP, IPPROTO_UDP} \<longrightarrow>
      (\<exists>buf. set_packet_tuple packet t = Done (packet\<lparr>p_buffer := buf\<rparr>) \<and>
        segment buf (q + 20) 8 = ip_to_ipv4 (ep_ip (t_dst t)) @ ip_to_ipv4 (ep_ip (t_src t))))"
proof -
  let ?s = "ip_to_ipv4 (ep_ip (t_src t))" and ?d = "ip_to_ipv4 (ep_ip (t_dst t))" and ?b = "p_buffer packet"
  have len: "length ?s = 4" "length ?d = 4" using assms(7) by (auto simp: tuple_of_family_def ip_wf_def ip_to_ipv4_def)
  define b1 where "b1 = poke (poke ?b (p + 12) ?s) (p + 16) ?d"
  have l1: "length b1 = length ?b" using assms(8,9) len by (simp add: b1_def)
  have b1: "set_headers_tuple ?b (Some p) (p_ipv6 packet) None None t = Done b1"
    using set_headers_v4 [of p ?b t "p_ipv6 packet"] len assms(8,9) by (simp add: b1_def)
  have k: "b1 ! (q + 17) = ?b ! (q + 17)" if "q + 17 < length ?b" using that assms(8) len by (simp add: b1_def nth_poke)
  have proto: "packet_echoed_ip_protocol (packet\<lparr>p_buffer := b1\<rparr>) = ld8 b1 (q + 17)"
    using assms(2) by (simp add: packet_echoed_ip_protocol_def add.commute)
  have set: "set_packet_tuple packet t = set_icmp_echoed_tuple (packet\<lparr>p_buffer := b1\<rparr>) t"
    using assms(1-4) b1 by (simp add: set_packet_tuple_def)
  show ?thesis
  proof (intro conjI impI)
    assume "length ?b \<le> q + 17"
    then show "set_packet_tuple packet t = Oob"
      by (simp add: set set_icmp_echoed_tuple_def packet_echoed_tcp_header_def proto ld8_def l1)
  next
    assume r: "q + 28 \<le> length ?b \<and> unat (?b ! (q + 17)) \<notin> {IPPROTO_TCP, IPPROTO_UDP}"
    define b2 where "b2 = poke (poke b1 (q + 20) ?d) (q + 24) ?s"
    have l2: "length b2 = length ?b" using r len l1 by (simp add: b2_def)
    have "set_headers_tuple b1 (Some (q + 8)) None None None (reverse_tuple t) = Done b2"
      using set_headers_v4 [of "q + 8" b1 "reverse_tuple t" None] len r l1
      by (simp add: b2_def reverse_tuple_def add.commute add.left_commute)
    then have "set_packet_tuple packet t = Done (packet\<lparr>p_buffer := b2\<rparr>)"
      using r l1 k assms(2,5) by (simp add: set set_icmp_echoed_tuple_def packet_echoed_tcp_header_def packet_echoed_udp_header_def
          proto packet_echoed_ipv4_header_def packet_echoed_ipv6_header_def add.commute)
    moreover have "segment b2 (q + 20) 8 = ?d @ ?s"
      by (rule nth_equalityI) (use r l2 l1 len in \<open>auto simp: nth_segment b2_def nth_poke nth_append\<close>)
    ultimately show "\<exists>buf. set_packet_tuple packet t = Done (packet\<lparr>p_buffer := buf\<rparr>) \<and> segment buf (q + 20) 8 = ?d @ ?s"
      by blast
  qed
qed

theorem set_packet_tuple_icmp_payload_witness:
  "set_packet_tuple ((packet_new (replicate 28 0))\<lparr>p_ipv4 := Some 0, p_icmpv4 := Some 20\<rparr>) test_tuple = Oob \<and>
   (\<exists>buf. set_packet_tuple ((packet_new (replicate 48 0))\<lparr>p_ipv4 := Some 0, p_icmpv4 := Some 20\<rparr>) test_tuple =
      Done ((packet_new (replicate 48 0))\<lparr>p_ipv4 := Some 0, p_icmpv4 := Some 20, p_buffer := buf\<rparr>) \<and>
      segment buf 40 8 = [192, 168, 0, 1, 192, 0, 2, 1])"
proof -
  have d: "ip_to_ipv4 (ep_ip (t_dst test_tuple)) = [192, 168, 0, 1]" "ip_to_ipv4 (ep_ip (t_src test_tuple)) = [192, 0, 2, 1]"
    by (simp_all add: test_tuple_def ip_from_to)
  show ?thesis
    using set_packet_tuple_icmp_payload [OF _ _ _ _ _ _ test_tuple_family, of "(packet_new (replicate 28 0))\<lparr>p_ipv4 := Some 0, p_icmpv4 := Some 20\<rparr>" 0 20]
      set_packet_tuple_icmp_payload [OF _ _ _ _ _ _ test_tuple_family, of "(packet_new (replicate 48 0))\<lparr>p_ipv4 := Some 0, p_icmpv4 := Some 20\<rparr>" 0 20]
    by (simp add: packet_new_def d IPPROTO_TCP_def IPPROTO_UDP_def)
qed

end
