(* ===== verification/PacketMapping.thy ===== *)
theory PacketMapping
  imports Socket
begin

section \<open>Mapping packets between script and live space\<close>

text \<open>
  The model of the mapping functions of \<^verbatim>\<open>run_packet.c\<close>: addresses, sequence numbers, SACK blocks and TCP
  timestamps of a packet are rewritten from script to live values before it is injected, and from live to
  script values after it was sniffed. An error message is \<open>Inl\<close>; the functions that fail after they have
  changed the socket or a packet return it beside the result.
\<close>

unbundle bit_operations_syntax

subsection \<open>Fields of a TCP header\<close>

definition tcp_flag :: "bytes \<Rightarrow> nat \<Rightarrow> nat \<Rightarrow> bool run" where
  "tcp_flag buf tcp n = rbind (ld8 buf (tcp + 13)) (\<lambda>f. Done (bit f n))"

definition tcp_fin :: "bytes \<Rightarrow> nat \<Rightarrow> bool run" where "tcp_fin buf tcp = tcp_flag buf tcp 0"
definition tcp_syn :: "bytes \<Rightarrow> nat \<Rightarrow> bool run" where "tcp_syn buf tcp = tcp_flag buf tcp 1"
definition tcp_rst :: "bytes \<Rightarrow> nat \<Rightarrow> bool run" where "tcp_rst buf tcp = tcp_flag buf tcp 2"
definition tcp_psh :: "bytes \<Rightarrow> nat \<Rightarrow> bool run" where "tcp_psh buf tcp = tcp_flag buf tcp 3"
definition tcp_ack :: "bytes \<Rightarrow> nat \<Rightarrow> bool run" where "tcp_ack buf tcp = tcp_flag buf tcp 4"
definition tcp_urg :: "bytes \<Rightarrow> nat \<Rightarrow> bool run" where "tcp_urg buf tcp = tcp_flag buf tcp 5"
definition tcp_ece :: "bytes \<Rightarrow> nat \<Rightarrow> bool run" where "tcp_ece buf tcp = tcp_flag buf tcp 6"
definition tcp_cwr :: "bytes \<Rightarrow> nat \<Rightarrow> bool run" where "tcp_cwr buf tcp = tcp_flag buf tcp 7"

text \<open>Add an offset to a 32-bit field in network order.\<close>

definition add_be32 :: "bytes \<Rightarrow> nat \<Rightarrow> u32 \<Rightarrow> bytes run" where
  "add_be32 buf p k = rbind (ld_be32 buf p) (\<lambda>v. store buf p (be32_bytes_of (v + k)))"

definition option_iter :: "packet \<Rightarrow> (nat option \<times> tcp_options_iterator) run" where
  "option_iter packet = rbind (packet_tcp_options packet) (\<lambda>opts. rbind (packet_payload packet) (\<lambda>payload.
     tcp_options_begin opts payload))"

subsection \<open>Timestamps\<close>

text \<open>The last timestamp option counts. The kind byte of an option lies inside the block that the iterator
  walks over.\<close>

function find_timestamp_loop :: "packet \<Rightarrow> nat option \<Rightarrow> tcp_options_iterator \<Rightarrow> (packet \<times> string option) run" where
  "find_timestamp_loop packet None iter = Done (packet, None)"
| "find_timestamp_loop packet (Some option) iter =
     (case ld8 (p_buffer packet) option of Oob \<Rightarrow> Oob | Die \<Rightarrow> Die | Done kind \<Rightarrow>
      let packet = (if kind = TCPOPT_TIMESTAMP
          then packet\<lparr>p_tcp_ts_val := Some (option + 2), p_tcp_ts_ecr := Some (option + 6)\<rparr> else packet)
      in case tcp_options_next (p_buffer packet) iter of Oob \<Rightarrow> Oob | Die \<Rightarrow> Die
         | Done (q, iter', err) \<Rightarrow>
             (case q of None \<Rightarrow> Done (packet, err) | Some _ \<Rightarrow> find_timestamp_loop packet q iter'))"
  by pat_completeness auto

termination
  by (relation "measure (\<lambda>(packet, q, iter). case current_option iter of
      None \<Rightarrow> 0 | Some p \<Rightarrow> options_end iter - p)") (auto dest!: next_advances)

definition find_tcp_timestamp :: "packet \<Rightarrow> (packet \<times> string option) run" where
  "find_tcp_timestamp packet =
     (let packet = packet\<lparr>p_tcp_ts_val := None, p_tcp_ts_ecr := None\<rparr>
      in rbind (option_iter packet) (\<lambda>(option, iter). find_timestamp_loop packet option iter))"

definition get_outbound_ts_val_mapping :: "socket \<Rightarrow> u32 \<Rightarrow> u32 option" where
  "get_outbound_ts_val_mapping socket script_timestamp = hash_map_get (ts_val_map socket) script_timestamp"

definition set_outbound_ts_val_mapping :: "socket \<Rightarrow> u32 \<Rightarrow> u32 \<Rightarrow> socket" where
  "set_outbound_ts_val_mapping socket script_timestamp live_timestamp =
     socket\<lparr>ts_val_map := hash_map_set (ts_val_map socket) script_timestamp live_timestamp\<rparr>"

subsection \<open>SACK blocks\<close>

fun offset_blocks :: "bytes \<Rightarrow> nat \<Rightarrow> nat \<Rightarrow> u32 \<Rightarrow> bytes run" where
  "offset_blocks buf p 0 k = Done buf"
| "offset_blocks buf p (Suc n) k =
     rbind (add_be32 buf p k) (\<lambda>buf. rbind (add_be32 buf (p + 4) k) (\<lambda>buf. offset_blocks buf (p + 8) n k))"

text \<open>The body of the loop: the length byte is read before the iterator checks it.\<close>

definition offset_option :: "bytes \<Rightarrow> nat \<Rightarrow> u32 \<Rightarrow> (string + bytes) run" where
  "offset_option buf option k =
     rbind (ld8 buf option) (\<lambda>kind.
       if kind \<noteq> TCPOPT_SACK then Done (Inr buf)
       else rbind (ld8 buf (option + 1)) (\<lambda>len. case num_sack_blocks len of
           Inl e \<Rightarrow> Done (Inl e)
         | Inr n \<Rightarrow> rbind (offset_blocks buf (option + 2) n k) (\<lambda>buf. Done (Inr buf))))"

function offset_sack_loop :: "bytes \<Rightarrow> nat option \<Rightarrow> tcp_options_iterator \<Rightarrow> u32 \<Rightarrow> (bytes \<times> string option) run" where
  "offset_sack_loop buf None iter k = Done (buf, None)"
| "offset_sack_loop buf (Some option) iter k =
     (case offset_option buf option k of Oob \<Rightarrow> Oob | Die \<Rightarrow> Die | Done (Inl e) \<Rightarrow> Done (buf, Some e) | Done (Inr buf) \<Rightarrow>
      (case tcp_options_next buf iter of Oob \<Rightarrow> Oob | Die \<Rightarrow> Die
       | Done (q, iter', err) \<Rightarrow>
           (case q of None \<Rightarrow> Done (buf, err) | Some _ \<Rightarrow> offset_sack_loop buf q iter' k)))"
  by pat_completeness auto

termination
  by (relation "measure (\<lambda>(buf, q, iter, k). case current_option iter of
      None \<Rightarrow> 0 | Some p \<Rightarrow> options_end iter - p)") (auto dest!: next_advances)

definition offset_sack_blocks :: "packet \<Rightarrow> u32 \<Rightarrow> (packet \<times> string option) run" where
  "offset_sack_blocks packet ack_offset =
     rbind (option_iter packet) (\<lambda>(option, iter).
     rbind (offset_sack_loop (p_buffer packet) option iter ack_offset) (\<lambda>(buf, err).
       Done (packet\<lparr>p_buffer := buf\<rparr>, err)))"

subsection \<open>Inbound packets\<close>

definition map_inbound_icmp_tcp_packet :: "socket \<Rightarrow> packet \<Rightarrow> packet run" where
  "map_inbound_icmp_tcp_packet socket live_packet =
     rbind (packet_echoed_tcp_seq live_packet) (\<lambda>seq.
     rbind (add_be32 (p_buffer live_packet) seq (local_seq_script_to_live_offset socket False)) (\<lambda>buf.
       Done (live_packet\<lparr>p_buffer := buf\<rparr>)))"

definition map_inbound_icmp_packet :: "socket \<Rightarrow> packet \<Rightarrow> packet run" where
  "map_inbound_icmp_packet socket live_packet =
     (if p_echoed_header live_packet
      then rbind (packet_echoed_ip_protocol live_packet) (\<lambda>proto.
        if unat proto = IPPROTO_TCP then map_inbound_icmp_tcp_packet socket live_packet
        else if unat proto = IPPROTO_UDP then Done live_packet
        else Die)
      else Done live_packet)"

text \<open>The ports of the script packet replace those of the tuple unless they are 0.\<close>

definition restore_ports :: "bytes \<Rightarrow> nat \<Rightarrow> u16 \<times> u16 \<Rightarrow> bytes run" where
  "restore_ports buf p ports =
     rbind (if fst ports \<noteq> 0 then store buf p (be16_bytes_of (fst ports)) else Done buf) (\<lambda>buf.
       if snd ports \<noteq> 0 then store buf (p + 2) (be16_bytes_of (snd ports)) else Done buf)"

definition map_inbound_tuple :: "socket \<Rightarrow> packet \<Rightarrow> packet run" where
  "map_inbound_tuple socket live_packet =
     rbind (get_port_pair live_packet) (\<lambda>ports.
     rbind (set_packet_tuple live_packet (socket_get_inbound (sk_live socket))) (\<lambda>live_packet.
     case p_tcp live_packet of
       Some p \<Rightarrow> rbind (restore_ports (p_buffer live_packet) p ports) (\<lambda>buf. Done (live_packet\<lparr>p_buffer := buf\<rparr>))
     | None \<Rightarrow> (case p_udp live_packet of
       Some p \<Rightarrow> rbind (restore_ports (p_buffer live_packet) p ports) (\<lambda>buf. Done (live_packet\<lparr>p_buffer := buf\<rparr>))
     | None \<Rightarrow> Done live_packet)))"

text \<open>The sequence and acknowledgment number of a TCP header.\<close>

definition offset_seq_ack :: "bytes \<Rightarrow> nat \<Rightarrow> u32 \<Rightarrow> u32 \<Rightarrow> bytes run" where
  "offset_seq_ack buf tcp seq_offset ack_offset =
     rbind (add_be32 buf (tcp + 4) seq_offset) (\<lambda>buf.
     rbind (tcp_ack buf tcp) (\<lambda>ack.
       if ack then add_be32 buf (tcp + 8) ack_offset else Done buf))"

text \<open>The timestamp echo reply. Without an entry in the map it is interpolated or refused.\<close>

definition map_inbound_ts_ecr :: "config \<Rightarrow> socket \<Rightarrow> packet \<Rightarrow> (packet \<times> string option) run" where
  "map_inbound_ts_ecr config socket live_packet =
     rbind (packet_tcp_ts_ecr live_packet) (\<lambda>ecr.
       case get_outbound_ts_val_mapping socket ecr of
         Some live_ts_ecr \<Rightarrow> rbind (packet_set_tcp_ts_ecr live_packet live_ts_ecr) (\<lambda>packet. Done (packet, None))
       | None \<Rightarrow>
           if tcp_ts_ecr_scaled config \<and> found_first_tcp_ts socket
           then rbind (packet_set_tcp_ts_ecr live_packet (ecr - first_script_ts_val socket + first_actual_ts_val socket))
             (\<lambda>packet. Done (packet, None))
           else Done (live_packet, Some (''unable to infer live TS ecr for script TS ecr '' @ dec (unat ecr) @
             '';  no matching or preceding outound TS val'')))"

definition map_inbound_tcp :: "config \<Rightarrow> socket \<Rightarrow> packet \<Rightarrow> nat \<Rightarrow> (packet \<times> string option) run" where
  "map_inbound_tcp config socket live_packet tcp =
     rbind (tcp_syn (p_buffer live_packet) tcp) (\<lambda>is_syn.
     let ack_offset = local_seq_script_to_live_offset socket is_syn in
     rbind (offset_seq_ack (p_buffer live_packet) tcp (remote_seq_script_to_live_offset socket is_syn) ack_offset) (\<lambda>buf.
     rbind (offset_sack_blocks (live_packet\<lparr>p_buffer := buf\<rparr>) ack_offset) (\<lambda>(live_packet, err).
     if err \<noteq> None then Done (live_packet, err)
     else rbind (find_tcp_timestamp live_packet) (\<lambda>(live_packet, err).
     if err \<noteq> None then Done (live_packet, err)
     else rbind (tcp_ack (p_buffer live_packet) tcp) (\<lambda>ack.
     if ack \<and> p_tcp_ts_ecr live_packet \<noteq> None then map_inbound_ts_ecr config socket live_packet
     else Done (live_packet, None))))))"

definition map_inbound_packet :: "config \<Rightarrow> socket \<Rightarrow> packet \<Rightarrow> (packet \<times> string option) run" where
  "map_inbound_packet config socket live_packet =
     rbind (map_inbound_tuple socket live_packet) (\<lambda>live_packet.
     let live_packet = live_packet\<lparr>p_mss := cfg_mss config\<rparr> in
     if p_icmpv4 live_packet \<noteq> None \<or> p_icmpv6 live_packet \<noteq> None
     then rbind (map_inbound_icmp_packet socket live_packet) (\<lambda>live_packet. Done (live_packet, None))
     else case p_tcp live_packet of
         None \<Rightarrow> Done (live_packet, None)
       | Some tcp \<Rightarrow> map_inbound_tcp config socket live_packet tcp)"

subsection \<open>Outbound packets\<close>

definition tcp_convert_seq_number :: "socket \<Rightarrow> packet \<Rightarrow> (packet \<times> string option) run" where
  "tcp_convert_seq_number socket packet = (case p_tcp packet of None \<Rightarrow> Oob | Some tcp \<Rightarrow>
     rbind (tcp_syn (p_buffer packet) tcp) (\<lambda>is_syn.
     let ack_offset = remote_seq_live_to_script_offset socket is_syn in
     rbind (offset_seq_ack (p_buffer packet) tcp (local_seq_live_to_script_offset socket is_syn) ack_offset) (\<lambda>buf.
     offset_sack_blocks (packet\<lparr>p_buffer := buf\<rparr>) ack_offset)))"

text \<open>The addresses that the live packet must have.\<close>

definition outbound_live_ok :: "socket \<Rightarrow> packet \<Rightarrow> bool run" where
  "outbound_live_ok socket live_packet =
     rbind (get_packet_tuple live_packet) (\<lambda>t.
     let live_outbound = socket_get_outbound (sk_live socket) in
     if sk_protocol socket = IPPROTO_ICMP \<or> sk_protocol socket = IPPROTO_ICMPV6
     then rbind (is_equal_ip (ep_ip (t_src t)) (ep_ip (t_src live_outbound))) (\<lambda>src.
       if \<not> src then Done False
       else is_equal_ip (ep_ip (t_dst t)) (ep_ip (t_dst live_outbound)))
     else Done (is_equal_tuple t live_outbound))"

text \<open>The timestamp value of both packets: the mapping is remembered, the first pair becomes the baseline, and
  the value of the actual packet moves to script space.\<close>

definition map_outbound_ts :: "socket \<Rightarrow> packet \<Rightarrow> packet \<Rightarrow> (socket \<times> packet) run" where
  "map_outbound_ts socket actual_packet script_packet =
     rbind (packet_tcp_ts_val script_packet) (\<lambda>script_ts_val.
     rbind (packet_tcp_ts_val actual_packet) (\<lambda>actual_ts_val.
     rbind (packet_tcp_ts_ecr script_packet) (\<lambda>script_ts_ecr.
     rbind (packet_tcp_ts_ecr actual_packet) (\<lambda>actual_ts_ecr.
     let socket = set_outbound_ts_val_mapping socket script_ts_val actual_ts_val;
         socket = (if found_first_tcp_ts socket then socket
           else socket\<lparr>found_first_tcp_ts := True, first_script_ts_val := script_ts_val,
             first_actual_ts_val := actual_ts_val, first_script_ts_ecr := script_ts_ecr,
             first_actual_ts_ecr := actual_ts_ecr\<rparr>)
     in rbind (packet_set_tcp_ts_val actual_packet
           (first_script_ts_val socket + (actual_ts_val - first_actual_ts_val socket))) (\<lambda>actual_packet.
        Done (socket, actual_packet))))))"

text \<open>Socket, actual packet, script packet and error.\<close>

definition map_outbound_live_packet ::
  "socket \<Rightarrow> packet \<Rightarrow> packet \<Rightarrow> packet \<Rightarrow> (socket \<times> packet \<times> packet \<times> string option) run" where
  "map_outbound_live_packet socket live_packet actual_packet script_packet =
     rbind (outbound_live_ok socket live_packet) (\<lambda>ok. check ok
     (rbind (set_packet_tuple actual_packet (socket_get_outbound (sk_script socket))) (\<lambda>actual_packet.
      if p_tcp live_packet = None then Done (socket, actual_packet, script_packet, None)
      else rbind (find_tcp_timestamp script_packet) (\<lambda>(script_packet, err).
      if err \<noteq> None then Done (socket, actual_packet, script_packet, err)
      else rbind (find_tcp_timestamp actual_packet) (\<lambda>(actual_packet, err).
      if err \<noteq> None then Done (socket, actual_packet, script_packet, err)
      else if p_tcp_ts_val script_packet \<noteq> None \<and> p_tcp_ts_val actual_packet \<noteq> None
      then rbind (map_outbound_ts socket actual_packet script_packet) (\<lambda>(socket, actual_packet).
        Done (socket, actual_packet, script_packet, None))
      else Done (socket, actual_packet, script_packet, None))))))"

subsection \<open>Offsets are undone\<close>

text \<open>A field of four bytes, with what is before and behind it.\<close>

lemma field4:
  assumes "p + 4 \<le> length buf"
  obtains pre w post where "buf = pre @ w @ post" "length pre = p" "length w = 4"
proof
  show "buf = take p buf @ take 4 (drop p buf) @ drop 4 (drop p buf)" by (simp only: append_take_drop_id)
qed (use assms in auto)

lemma list4:
  assumes "length w = 4"
  obtains a b c d where "w = [a, b, c, d]"
  using assms by (auto simp: length_Suc_conv numeral_eq_Suc)

text \<open>The field plus an offset.\<close>

definition plus4 :: "u32 \<Rightarrow> bytes \<Rightarrow> bytes" where
  "plus4 k w = be32_bytes_of (be32 (w ! 0) (w ! 1) (w ! 2) (w ! 3) + k)"

lemma length_plus4 [simp]: "length (plus4 k w) = 4"
  by (simp add: plus4_def)

lemma be32_of_bytes [simp]: "be32_bytes_of (be32 a b c d) = [a, b, c, d]"
  by (simp add: be32_bytes_of_def be32_def)

lemma plus4_inverse:
  assumes "length w = 4"
  shows "plus4 (- k) (plus4 k w) = w"
proof -
  have b: "be32 (be32_bytes_of v ! 0) (be32_bytes_of v ! 1) (be32_bytes_of v ! 2) (be32_bytes_of v ! 3) = v" for v
    by (simp add: be32_bytes_of_def)
  obtain a b c d where "w = [a, b, c, d]" using assms by (rule list4)
  then show ?thesis unfolding plus4_def b by simp
qed

lemma add_be32_eq:
  assumes "length w = 4" "length pre = p"
  shows "add_be32 (pre @ w @ post) p k = Done (pre @ plus4 k w @ post)"
proof -
  have "(pre @ w @ post) ! (p + i) = w ! i" if "i < 4" for i using assms that by (simp add: nth_append)
  from this [of 0] this [of 1] this [of 2] this [of 3]
  have ld: "ld_be32 (pre @ w @ post) p = Done (be32 (w ! 0) (w ! 1) (w ! 2) (w ! 3))" using assms by (simp add: ld_be32_def)
  show ?thesis using assms by (simp add: add_be32_def ld store_in plus4_def)
qed

text \<open>The flags byte is behind both numbers.\<close>

lemma offset_seq_ack_inverse:
  assumes "offset_seq_ack buf tcp a b = Done buf'"
  shows "offset_seq_ack buf' tcp (- a) (- b) = Done buf \<and> length buf' = length buf \<and>
    (\<forall>i < length buf. i < tcp + 4 \<or> tcp + 12 \<le> i \<longrightarrow> buf' ! i = buf ! i)"
proof -
  obtain b0 ack where b0: "add_be32 buf (tcp + 4) a = Done b0" "tcp_ack b0 tcp = Done ack"
    using assms by (auto simp: offset_seq_ack_def run_simps)
  then have "tcp + 4 + 4 \<le> length buf" by (auto simp: add_be32_def run_simps ld_be32_def split: if_splits)
  then obtain pre s r where f: "buf = pre @ s @ r" "length pre = tcp + 4" "length s = 4" by (rule field4)
  have b1: "b0 = pre @ plus4 a s @ r" using f b0(1) add_be32_eq [OF f(3,2)] by simp
  have "5 < length r" using b0(2) f(2) by (auto simp: b1 tcp_ack_def tcp_flag_def run_simps)
  then have "0 + 4 \<le> length r" by simp
  then obtain e m post where "r = e @ m @ post" "length e = 0" "length m = 4" by (rule field4)
  then have r: "r = m @ post" "length m = 4" "1 < length post" using \<open>5 < length r\<close> by auto
  have flag: "tcp_ack (pre @ q @ w @ post) tcp = Done (bit (post ! 1) 4)" if "length q = 4" "length w = 4" for q w
    using f(2) that r(3) by (auto simp: tcp_ack_def tcp_flag_def ld8_def nth_append)
  have seq: "add_be32 (pre @ q @ w @ post) (tcp + 4) k = Done (pre @ plus4 k q @ w @ post)" if "length q = 4" for q w k
    using add_be32_eq [OF that f(2)] by simp
  have seq_ack: "add_be32 (pre @ q @ w @ post) (tcp + 8) k = Done (pre @ q @ plus4 k w @ post)"
    if "length q = 4" "length w = 4" for q w k
    using add_be32_eq [of w "pre @ q" "tcp + 8" post k] that f(2) by simp
  have off: "offset_seq_ack (pre @ q @ w @ post) tcp i j =
      Done (pre @ plus4 i q @ (if bit (post ! 1) 4 then plus4 j w else w) @ post)"
    if "length q = 4" "length w = 4" for q w i j
    using that by (simp add: offset_seq_ack_def seq flag seq_ack)
  have b': "buf' = pre @ plus4 a s @ (if bit (post ! 1) 4 then plus4 b m else m) @ post"
    using assms off [OF f(3) r(2)] f(1) r(1) by simp
  have "offset_seq_ack buf' tcp (- a) (- b) = Done buf"
    unfolding b' by (subst off) (auto simp: r f plus4_inverse)
  moreover have "length buf' = length buf" using b' f r by simp
  moreover have "buf' ! i = buf ! i" if "i < length buf" "i < tcp + 4 \<or> tcp + 12 \<le> i" for i
    using that f r by (auto simp: b' nth_append)
  ultimately show ?thesis by blast
qed


text \<open>Only the header is touched.\<close>

lemma add_be32_prefix:
  assumes "p + 4 \<le> length pre"
  shows "add_be32 (pre @ q) p k = rbind (add_be32 pre p k) (\<lambda>pre. Done (pre @ q))"
proof -
  obtain a w c where f: "pre = a @ w @ c" "length a = p" "length w = 4" using assms by (rule field4)
  then show ?thesis using add_be32_eq [OF f(3,2), of c k] add_be32_eq [OF f(3,2), of "c @ q" k] by simp
qed

lemma add_be32_length: "add_be32 buf p k = Done buf' \<Longrightarrow> length buf' = length buf"
  by (auto simp: add_be32_def run_simps store_def split: if_splits)

lemma offset_seq_ack_prefix:
  assumes "length pre = tcp + 20"
  shows "offset_seq_ack (pre @ q) tcp a b = rbind (offset_seq_ack pre tcp a b) (\<lambda>pre. Done (pre @ q))"
proof (cases "add_be32 pre (tcp + 4) a")
  case (Done b1)
  then have l: "length b1 = tcp + 20" using assms add_be32_length by metis
  then have "tcp_ack (b1 @ q) tcp = tcp_ack b1 tcp" by (simp add: tcp_ack_def tcp_flag_def nth_append)
  then show ?thesis
    using Done assms l add_be32_prefix [of "tcp + 8" b1 q b] add_be32_prefix [of "tcp + 4" pre q a]
    by (cases "tcp_ack b1 tcp") (simp_all add: offset_seq_ack_def)
qed (use assms add_be32_prefix [of "tcp + 4" pre q a] in \<open>simp_all add: offset_seq_ack_def\<close>)

subsection \<open>SACK blocks\<close>

text \<open>The specification: the edges of a SACK option, each of four bytes, are shifted.\<close>

fun shift_edges :: "nat \<Rightarrow> u32 \<Rightarrow> bytes \<Rightarrow> bytes" where
  "shift_edges 0 k bs = bs"
| "shift_edges (Suc n) k bs = plus4 k (take 4 bs) @ shift_edges n k (drop 4 bs)"

definition sack_edges :: "bytes \<Rightarrow> nat" where
  "sack_edges w = (if w ! 0 = TCPOPT_SACK then 2 * ((option_len w - 2) div 8) else 0)"

definition sack_ok :: "bytes \<Rightarrow> bool" where
  "sack_ok w \<longleftrightarrow> (w ! 0 = TCPOPT_SACK \<longrightarrow> 2 < option_len w \<and> (option_len w - 2) mod 8 = 0)"

definition shift_option :: "u32 \<Rightarrow> bytes \<Rightarrow> bytes" where
  "shift_option k w = take 2 w @ shift_edges (sack_edges w) k (drop 2 w)"

lemma length_shift_edges: "4 * n \<le> length bs \<Longrightarrow> length (shift_edges n k bs) = length bs"
  by (induction n k bs rule: shift_edges.induct) auto

lemma take_shift_edges: "4 * n \<le> m \<Longrightarrow> m \<le> length bs \<Longrightarrow> take m (shift_edges n k bs) = shift_edges n k (take m bs)"
  by (induction n k bs arbitrary: m rule: shift_edges.induct) (auto simp: drop_take min_def)

lemma shift_edges_inverse: "4 * n \<le> length bs \<Longrightarrow> shift_edges n (- k) (shift_edges n k bs) = bs"
  by (induction n k bs rule: shift_edges.induct) (auto simp: plus4_inverse)

lemma offset_blocks_eq:
  assumes "length bs = 8 * n" "length pre = p"
  shows "offset_blocks (pre @ bs @ post) p n k = Done (pre @ shift_edges (2 * n) k bs @ post)"
  using assms
proof (induction n arbitrary: pre p bs)
  case (Suc n)
  define e1 e2 r where "e1 = take 4 bs" and "e2 = take 4 (drop 4 bs)" and "r = drop 8 bs"
  have bs: "bs = e1 @ e2 @ r" "length e1 = 4" "length e2 = 4" "length r = 8 * n"
    using Suc.prems(1) append_take_drop_id [of 4 bs] append_take_drop_id [of 4 "drop 4 bs"]
    by (simp_all add: e1_def e2_def r_def del: append_take_drop_id)
  have "add_be32 (pre @ bs @ post) p k = Done (pre @ plus4 k e1 @ e2 @ r @ post)"
    using add_be32_eq [of e1 pre p "e2 @ r @ post" k] bs Suc.prems by simp
  moreover have "add_be32 (pre @ plus4 k e1 @ e2 @ r @ post) (p + 4) k = Done (pre @ plus4 k e1 @ plus4 k e2 @ r @ post)"
    using add_be32_eq [of e2 "pre @ plus4 k e1" "p + 4" "r @ post" k] bs Suc.prems by simp
  moreover have "offset_blocks ((pre @ plus4 k e1 @ plus4 k e2) @ r @ post) (p + 8) n k =
      Done ((pre @ plus4 k e1 @ plus4 k e2) @ shift_edges (2 * n) k r @ post)"
    by (rule Suc.IH) (use bs Suc.prems in auto)
  moreover have "shift_edges (2 * Suc n) k bs = plus4 k e1 @ plus4 k e2 @ shift_edges (2 * n) k r"
    using bs by simp
  ultimately show ?case by simp
qed simp

lemma sack_edges_bound:
  assumes "valid_option w" "sack_ok w"
  shows "4 * sack_edges w = (if w ! 0 = TCPOPT_SACK then option_len w - 2 else 0)" "4 * sack_edges w \<le> 38"
    "length (drop 2 w) = 38"
proof -
  show "4 * sack_edges w = (if w ! 0 = TCPOPT_SACK then option_len w - 2 else 0)"
    using assms(2) by (auto simp: sack_edges_def sack_ok_def)
  then show "4 * sack_edges w \<le> 38" using valid_option_len [OF assms(1)] by auto
  show "length (drop 2 w) = 38" using assms(1) by (simp add: valid_option_def)
qed

lemma shift_option_nth:
  assumes "valid_option w"
  shows "shift_option k w ! 0 = w ! 0" "shift_option k w ! 1 = w ! 1"
  using assms by (simp_all add: shift_option_def valid_option_def nth_append)

lemma shift_option_simps:
  assumes "valid_option w" "sack_ok w"
  shows "option_len (shift_option k w) = option_len w" "sack_edges (shift_option k w) = sack_edges w"
    "valid_option (shift_option k w)" "sack_ok (shift_option k w)" "shift_option (- k) (shift_option k w) = w"
proof -
  note b = sack_edges_bound [OF assms]
  show l: "option_len (shift_option k w) = option_len w" using shift_option_nth [OF assms(1)] by (simp add: option_len_def)
  show e: "sack_edges (shift_option k w) = sack_edges w"
    using shift_option_nth(1) [OF assms(1)] l by (simp add: sack_edges_def)
  show "sack_ok (shift_option k w)" using assms(2) l shift_option_nth(1) [OF assms(1)] by (simp add: sack_ok_def)
  have "length (shift_option k w) = 40" using assms(1) b by (simp add: shift_option_def valid_option_def length_shift_edges)
  then show "valid_option (shift_option k w)"
    using assms(1) by (simp only: valid_option_def l shift_option_nth [OF assms(1)])
  have "take 2 (shift_option k w) = take 2 w" "drop 2 (shift_option k w) = shift_edges (sack_edges w) k (drop 2 w)"
    using assms(1) by (simp_all add: shift_option_def valid_option_def)
  then have "shift_option (- k) (shift_option k w) = take 2 w @ shift_edges (sack_edges w) (- k) (shift_edges (sack_edges w) k (drop 2 w))"
    unfolding shift_option_def [of "- k"] e by simp
  also have "\<dots> = take 2 w @ drop 2 w" using b by (subst shift_edges_inverse) auto
  finally show "shift_option (- k) (shift_option k w) = w" by simp
qed

text \<open>One step of the loop on an option in its place.\<close>

lemma offset_option_eq:
  assumes "valid_option w" "sack_ok w"
  shows "offset_option (pre @ take (option_len w) w @ post) (length pre) k =
    Done (Inr (pre @ take (option_len w) (shift_option k w) @ post))"
proof -
  note len = valid_option_len [OF assms(1)]
  have k0: "(pre @ take (option_len w) w @ post) ! length pre = w ! 0" using len by (simp add: nth_append)
  show ?thesis
  proof (cases "w ! 0 = TCPOPT_SACK")
    case False
    then have "shift_option k w = w" by (simp add: shift_option_def sack_edges_def)
    then show ?thesis using False len k0 by (simp add: offset_option_def)
  next
    case True
    then have ok: "2 < option_len w" "(option_len w - 2) mod 8 = 0" using assms(2) by (auto simp: sack_ok_def)
    have w: "length w = 40" using assms(1) by (simp add: valid_option_def)
    define n where "n = (option_len w - 2) div 8"
    have n: "option_len w - 2 = 8 * n" using ok by (auto simp: n_def)
    have k1: "(pre @ take (option_len w) w @ post) ! (length pre + 1) = w ! 1" using ok(1) w by (simp add: nth_append)
    have num: "num_sack_blocks (w ! 1) = Inr n"
      using ok by (simp add: num_sack_blocks_def n_def word_le_nat_alt option_len_def Let_def)
    have "take (option_len w) w = take 2 w @ take (8 * n) (drop 2 w)"
      using ok(1) n by (metis add_diff_inverse_nat less_imp_le_nat not_less take_add)
    moreover have "take (option_len w) (shift_option k w) = take 2 w @ shift_edges (2 * n) k (take (8 * n) (drop 2 w))"
      using ok(1) n w len True by (simp add: shift_option_def sack_edges_def n_def [symmetric] take_shift_edges)
    moreover have "offset_blocks ((pre @ take 2 w) @ take (8 * n) (drop 2 w) @ post) (length pre + 2) n k =
        Done ((pre @ take 2 w) @ shift_edges (2 * n) k (take (8 * n) (drop 2 w)) @ post)"
      by (rule offset_blocks_eq) (use w n len in auto)
    ultimately show ?thesis using True len k0 k1 ok(1) w num by (simp add: offset_option_def)
  qed
qed

lemma tcp_options_next_eq:
  assumes "current_option iter = Some p" "p < options_end iter" "this_option_length bs p (options_end iter) = Done (Inr len)"
  shows "tcp_options_next bs iter = Done (if p + unat len = options_end iter then None else Some (p + unat len),
    iter\<lparr>current_option := (if p + unat len = options_end iter then None else Some (p + unat len))\<rparr>, None)"
  using assms this_option_length_Inr [OF assms(3,2)]
  by (auto simp: tcp_options_next_def get_current_option_def Let_def word_less_nat_alt)

lemma length_wire_shift:
  assumes "\<forall>w \<in> set ws. valid_option w \<and> sack_ok w"
  shows "length (wire (map (shift_option k) ws)) = length (wire ws)"
  using assms
proof (induction ws)
  case (Cons w ws)
  then show ?case using valid_option_len(3) [of w] valid_option_len(3) [of "shift_option k w"]
    by (simp add: wire_def shift_option_simps)
qed (simp add: wire_def)

lemma offset_sack_loop_eq:
  assumes "\<forall>w \<in> set ws. valid_option w \<and> sack_ok w" "ws \<noteq> []" "current_option iter = Some (length pre)"
    "options_end iter = length pre + length (wire ws)"
  shows "offset_sack_loop (pre @ wire ws @ post) (Some (length pre)) iter k =
    Done (pre @ wire (map (shift_option k) ws) @ post, None)"
  using assms
proof (induction ws arbitrary: pre iter)
  case (Cons w ws)
  have w: "valid_option w" "sack_ok w" using Cons.prems by simp_all
  note len = valid_option_len [OF w(1)]
  define v where "v = shift_option k w"
  note v = shift_option_simps [OF w, of k, folded v_def] and vlen = valid_option_len [of v]
  have wire: "wire (w # ws) = take (option_len w) w @ wire ws"
    "wire (map (shift_option k) (w # ws)) = take (option_len w) v @ wire (map (shift_option k) ws)"
    using v(1) by (simp_all add: wire_def v_def [symmetric])
  have off: "offset_option (pre @ wire (w # ws) @ post) (length pre) k = Done (Inr (pre @ take (option_len w) v @ wire ws @ post))"
    using offset_option_eq [OF w, of pre "wire ws @ post" k] by (simp add: wire v_def)
  have th: "this_option_length (pre @ take (option_len w) v @ wire ws @ post) (length pre) (options_end iter) = Done (Inr (v ! 1))"
    using option_at [OF v(3), of pre "wire ws @ post" "length (wire ws)"] Cons.prems(4) len v(1)
    by (simp add: wire add.assoc)
  have pos: "length pre < options_end iter" using len Cons.prems(4) by (simp add: wire)
  have v1: "unat (v ! 1) = option_len w" using v(1) by (simp add: option_len_def)
  note nxt = tcp_options_next_eq [OF Cons.prems(3) pos th, unfolded v1]
  show ?case
  proof (cases "ws = []")
    case True
    then show ?thesis using off nxt Cons.prems(4) len wire by (simp add: wire_def)
  next
    case False
    have "0 < length (wire ws)"
      using False Cons.prems(1) valid_option_len by (cases ws) (auto simp: wire_def)
    moreover have "offset_sack_loop ((pre @ take (option_len w) v) @ wire ws @ post)
        (Some (length (pre @ take (option_len w) v)))
        (iter\<lparr>current_option := Some (length (pre @ take (option_len w) v))\<rparr>) k =
      Done ((pre @ take (option_len w) v) @ wire (map (shift_option k) ws) @ post, None)"
      by (rule Cons.IH) (use Cons.prems False vlen v len wire in simp_all)
    moreover have "offset_sack_loop (pre @ wire (w # ws) @ post) (Some (length pre)) iter k =
      offset_sack_loop (pre @ take (option_len w) v @ wire ws @ post) (Some (length pre + option_len w))
        (iter\<lparr>current_option := Some (length pre + option_len w)\<rparr>) k"
      using calculation off nxt Cons.prems(4) len by (subst offset_sack_loop.simps) (simp add: wire)
    ultimately show ?thesis using vlen v len by (simp add: wire del: offset_sack_loop.simps list.map)
  qed
qed simp

lemma option_iter_eq:
  assumes "p_tcp packet = Some tcp" "p_buffer packet = pre @ opts @ post" "length pre = tcp + 20"
    "unat (pre ! (tcp + 12)) div 16 * 4 = 20 + length opts"
  shows "option_iter packet = Done (if opts = [] then None else Some (length pre),
    \<lparr>current_option = (if opts = [] then None else Some (length pre)), options_end = length pre + length opts\<rparr>)"
proof -
  have "p_buffer packet ! (tcp + 12) = pre ! (tcp + 12)" using assms(2,3) by (simp add: nth_append)
  then have "packet_payload packet = Done (length pre + length opts)"
    using assms by (simp add: packet_payload_def packet_tcp_header_len_def)
  moreover have "packet_tcp_options packet = Done (length pre)" using assms by (simp add: packet_tcp_options_def)
  ultimately show ?thesis by (simp add: option_iter_def tcp_options_begin_def get_current_option_def Let_def)
qed

text \<open>A TCP packet whose options are \<open>ws\<close>.\<close>

definition has_options :: "packet \<Rightarrow> nat \<Rightarrow> bytes \<Rightarrow> bytes list \<Rightarrow> bytes \<Rightarrow> bool" where
  "has_options packet tcp pre ws post \<longleftrightarrow> p_tcp packet = Some tcp \<and> p_buffer packet = pre @ wire ws @ post \<and>
     length pre = tcp + 20 \<and> unat (pre ! (tcp + 12)) div 16 * 4 = 20 + length (wire ws) \<and>
     (\<forall>w \<in> set ws. valid_option w \<and> sack_ok w)"

lemma offset_sack_blocks_eq:
  assumes "has_options packet tcp pre ws post"
  shows "offset_sack_blocks packet k = Done (packet\<lparr>p_buffer := pre @ wire (map (shift_option k) ws) @ post\<rparr>, None)"
    "has_options (packet\<lparr>p_buffer := pre @ wire (map (shift_option k) ws) @ post\<rparr>) tcp pre (map (shift_option k) ws) post"
    "map (shift_option (- k)) (map (shift_option k) ws) = ws"
proof -
  have ok: "\<forall>w \<in> set ws. valid_option w \<and> sack_ok w" and b: "p_buffer packet = pre @ wire ws @ post"
    using assms by (auto simp: has_options_def)
  have it: "option_iter packet = Done (if wire ws = [] then None else Some (length pre),
    \<lparr>current_option = (if wire ws = [] then None else Some (length pre)), options_end = length pre + length (wire ws)\<rparr>)"
    by (rule option_iter_eq) (use assms in \<open>auto simp: has_options_def\<close>)
  show "offset_sack_blocks packet k = Done (packet\<lparr>p_buffer := pre @ wire (map (shift_option k) ws) @ post\<rparr>, None)"
  proof (cases "ws = []")
    case True
    then show ?thesis using it b by (simp add: offset_sack_blocks_def wire_def)
  next
    case False
    then have ne: "wire ws \<noteq> []" using ok valid_option_len(1) by (cases ws) (fastforce simp: wire_def valid_option_def)+
    show ?thesis using it ne b offset_sack_loop_eq [OF ok False]
      by (simp add: offset_sack_blocks_def del: offset_sack_loop.simps)
  qed
  show "has_options (packet\<lparr>p_buffer := pre @ wire (map (shift_option k) ws) @ post\<rparr>) tcp pre (map (shift_option k) ws) post"
    using assms ok by (auto simp: has_options_def length_wire_shift shift_option_simps)
  show "map (shift_option (- k)) (map (shift_option k) ws) = ws"
    using ok by (simp add: map_idI shift_option_simps)
qed

subsection \<open>From live to script sequence numbers\<close>

text \<open>A packet of the socket's local side as it goes over the wire: the inverse offsets are added.\<close>

lemma convert_seq_inverse:
  assumes "has_options packet tcp pre ws post" "tcp_syn (p_buffer packet) tcp = Done is_syn"
    "offset_seq_ack (p_buffer packet) tcp (local_seq_script_to_live_offset socket is_syn)
       (remote_seq_script_to_live_offset socket is_syn) = Done buf"
    "offset_sack_blocks (packet\<lparr>p_buffer := buf\<rparr>) (remote_seq_script_to_live_offset socket is_syn) = Done (live, err)"
  shows "err = None \<and> tcp_convert_seq_number socket live = Done (packet, None)"
proof -
  let ?l = "local_seq_script_to_live_offset socket is_syn" and ?r = "remote_seq_script_to_live_offset socket is_syn"
  have tcp: "p_tcp packet = Some tcp" and b: "p_buffer packet = pre @ wire ws @ post" "length pre = tcp + 20"
    and d: "unat (pre ! (tcp + 12)) div 16 * 4 = 20 + length (wire ws)" and ok: "\<forall>w \<in> set ws. valid_option w \<and> sack_ok w"
    using assms(1) by (auto simp: has_options_def)
  obtain pre' where pre': "offset_seq_ack pre tcp ?l ?r = Done pre'" and buf: "buf = pre' @ wire ws @ post"
    using assms(3) offset_seq_ack_prefix [OF b(2), of "wire ws @ post" ?l ?r] unfolding b(1) by (auto simp: run_simps)
  note inv = offset_seq_ack_inverse [OF pre', THEN conjunct1] offset_seq_ack_inverse [OF pre', THEN conjunct2]
  have l': "length pre' = tcp + 20" and p': "\<And>i. i < tcp + 20 \<Longrightarrow> i < tcp + 4 \<or> tcp + 12 \<le> i \<Longrightarrow> pre' ! i = pre ! i"
    using inv(2) b(2) by auto
  have h: "has_options (packet\<lparr>p_buffer := buf\<rparr>) tcp pre' ws post"
    using tcp l' p' [of "tcp + 12"] d ok buf by (simp add: has_options_def)
  note sack = offset_sack_blocks_eq [OF h, of ?r]
  have live: "live = packet\<lparr>p_buffer := pre' @ wire (map (shift_option ?r) ws) @ post\<rparr>" "err = None"
    using assms(4) sack(1) by simp_all
  have syn: "tcp_syn (p_buffer live) tcp = Done is_syn"
    using assms(2) b l' p' [of "tcp + 13"] by (auto simp: live tcp_syn_def tcp_flag_def run_simps nth_append)
  let ?q = "wire (map (shift_option ?r) ws) @ post"
  have undo: "offset_seq_ack (p_buffer live) tcp (- ?l) (- ?r) = Done (pre @ ?q)"
    using offset_seq_ack_prefix [OF l', of ?q "- ?l" "- ?r"] inv(1) by (simp add: live)
  have "has_options (packet\<lparr>p_buffer := pre @ ?q\<rparr>) tcp pre (map (shift_option ?r) ws) post"
    using sack(2) tcp b d length_wire_shift [OF ok] by (simp add: has_options_def)
  note sack' = offset_sack_blocks_eq [OF this, of "- ?r"]
  have "map (shift_option (- ?r)) (map (shift_option ?r) ws) = ws" by (rule sack(3))
  then have "offset_sack_blocks (packet\<lparr>p_buffer := pre @ ?q\<rparr>) (- ?r) = Done (packet, None)"
    using sack'(1) b(1) by simp
  then show ?thesis
    using syn undo tcp live by (simp add: tcp_convert_seq_number_def Let_def local_seq_live_to_script_offset_def
        remote_seq_live_to_script_offset_def)
qed

lemma offset_seq_ack_total:
  assumes "length pre = tcp + 20"
  shows "\<exists>pre'. offset_seq_ack pre tcp a b = Done pre'"
proof -
  have add: "\<exists>x'. add_be32 x p k = Done x'" if "p + 4 \<le> length x" for x p k
    using that by (auto simp: add_be32_def ld_be32_def store_def)
  obtain b1 where b1: "add_be32 pre (tcp + 4) a = Done b1" using add [of "tcp + 4" pre a] assms by auto
  then have "length b1 = tcp + 20" using assms add_be32_length by metis
  then show ?thesis using b1 add [of "tcp + 8" b1 b] by (auto simp: offset_seq_ack_def tcp_ack_def tcp_flag_def)
qed

lemma convert_seq_ok:
  assumes "has_options packet tcp pre ws post"
  shows "\<exists>is_syn buf live. tcp_syn (p_buffer packet) tcp = Done is_syn \<and>
    offset_seq_ack (p_buffer packet) tcp (local_seq_script_to_live_offset socket is_syn)
      (remote_seq_script_to_live_offset socket is_syn) = Done buf \<and>
    offset_sack_blocks (packet\<lparr>p_buffer := buf\<rparr>) (remote_seq_script_to_live_offset socket is_syn) = Done (live, None) \<and>
    tcp_convert_seq_number socket live = Done (packet, None)"
proof -
  have b: "p_buffer packet = pre @ wire ws @ post" "length pre = tcp + 20" using assms by (auto simp: has_options_def)
  obtain is_syn where syn: "tcp_syn (p_buffer packet) tcp = Done is_syn" using b by (simp add: tcp_syn_def tcp_flag_def)
  let ?l = "local_seq_script_to_live_offset socket is_syn" and ?r = "remote_seq_script_to_live_offset socket is_syn"
  obtain pre' where pre': "offset_seq_ack pre tcp ?l ?r = Done pre'" using offset_seq_ack_total [OF b(2)] by blast
  then have buf: "offset_seq_ack (p_buffer packet) tcp ?l ?r = Done (pre' @ wire ws @ post)"
    using offset_seq_ack_prefix [OF b(2)] by (simp add: b(1))
  have "has_options (packet\<lparr>p_buffer := pre' @ wire ws @ post\<rparr>) tcp pre' ws post"
    using assms offset_seq_ack_inverse [OF pre'] by (simp add: has_options_def)
  from offset_sack_blocks_eq(1) [OF this] obtain live where
    live: "offset_sack_blocks (packet\<lparr>p_buffer := pre' @ wire ws @ post\<rparr>) ?r = Done (live, None)" by blast
  show ?thesis using convert_seq_inverse [OF assms syn buf live] syn buf live by blast
qed


definition sack_packet :: packet where
  "sack_packet = (packet_new (replicate 12 0 @ [0x80, 0x10] @ replicate 6 0 @
       [1, 1, 5, 10, 0, 0, 0, 9, 0, 0, 1, 0] @ [7, 7]))\<lparr>p_tcp := Some 0\<rparr>"


end
