(* ===== verification/Script.thy ===== *)
theory Script
  imports Config
begin

section \<open>Script expressions\<close>

text \<open>
  The model of \<^verbatim>\<open>script.c\<close> with the expression types of \<^verbatim>\<open>script.h\<close>: the names of expression types, the
  symbol tables, the printing of bit flags, the unescaping of string literals and the evaluation of
  expressions. Numbers of type \<^verbatim>\<open>s64\<close> are integers in that range. A pointer to an expression is an
  expression or \<open>E_NULL\<close>; the \<^verbatim>\<open>format\<close> of an expression and the freeing of memory are left out. The table
  of platform symbols is filled with constants of the system's header files and is an argument.
\<close>

subsection \<open>Expressions\<close>

datatype expression_t = EXPR_ELLIPSIS | EXPR_INTEGER | EXPR_LINGER | EXPR_WORD | EXPR_STRING | EXPR_GRE
  | EXPR_IN6_ADDR | EXPR_SOCKET_ADDRESS_IPV4 | EXPR_SOCKET_ADDRESS_IPV6 | EXPR_BINARY | EXPR_LIST | EXPR_IOVEC
  | EXPR_MSGHDR | EXPR_CMSG | EXPR_POLLFD | EXPR_MPLS_STACK | EXPR_SCM_TIMESTAMPING | EXPR_SOCK_EXTENDED_ERR
  | EXPR_EPOLLEV | NUM_EXPR_TYPES

text \<open>The order of the arguments is that of the fields. A linger is on/off and seconds, a socket address is
  an address and a port, \<^verbatim>\<open>scm_timestamping\<close> three pairs of seconds and nanoseconds.\<close>

datatype expression =
    E_NULL
  | E_ELLIPSIS
  | E_INTEGER int
  | E_LINGER int int
  | E_WORD string
  | E_STRING string
  | E_GRE bytes
  | E_IN6_ADDR bytes
  | E_SOCKADDR4 bytes u16
  | E_SOCKADDR6 bytes u16
  | E_BINARY string expression expression
  | E_LIST "expression list"
  | E_IOVEC expression expression
  | E_MSGHDR expression expression expression expression expression expression
  | E_CMSG expression expression expression
  | E_POLLFD expression expression expression
  | E_MPLS_STACK "u32 list"
  | E_SCM_TIMESTAMPING "(int \<times> int) list"
  | E_SOCK_EXTENDED_ERR expression expression expression expression expression expression
  | E_EPOLLEV expression expression expression expression expression

fun expr_type :: "expression \<Rightarrow> expression_t run" where
  "expr_type E_NULL = Oob"
| "expr_type E_ELLIPSIS = Done EXPR_ELLIPSIS"
| "expr_type (E_INTEGER _) = Done EXPR_INTEGER"
| "expr_type (E_LINGER _ _) = Done EXPR_LINGER"
| "expr_type (E_WORD _) = Done EXPR_WORD"
| "expr_type (E_STRING _) = Done EXPR_STRING"
| "expr_type (E_GRE _) = Done EXPR_GRE"
| "expr_type (E_IN6_ADDR _) = Done EXPR_IN6_ADDR"
| "expr_type (E_SOCKADDR4 _ _) = Done EXPR_SOCKET_ADDRESS_IPV4"
| "expr_type (E_SOCKADDR6 _ _) = Done EXPR_SOCKET_ADDRESS_IPV6"
| "expr_type (E_BINARY _ _ _) = Done EXPR_BINARY"
| "expr_type (E_LIST _) = Done EXPR_LIST"
| "expr_type (E_IOVEC _ _) = Done EXPR_IOVEC"
| "expr_type (E_MSGHDR _ _ _ _ _ _) = Done EXPR_MSGHDR"
| "expr_type (E_CMSG _ _ _) = Done EXPR_CMSG"
| "expr_type (E_POLLFD _ _ _) = Done EXPR_POLLFD"
| "expr_type (E_MPLS_STACK _) = Done EXPR_MPLS_STACK"
| "expr_type (E_SCM_TIMESTAMPING _) = Done EXPR_SCM_TIMESTAMPING"
| "expr_type (E_SOCK_EXTENDED_ERR _ _ _ _ _ _) = Done EXPR_SOCK_EXTENDED_ERR"
| "expr_type (E_EPOLLEV _ _ _ _ _) = Done EXPR_EPOLLEV"

definition expression_type_table :: "(expression_t \<times> string) list" where
  "expression_type_table =
    [(EXPR_ELLIPSIS, ''ellipsis''), (EXPR_INTEGER, ''integer''), (EXPR_WORD, ''word''), (EXPR_STRING, ''string''),
     (EXPR_GRE, ''gre''), (EXPR_IN6_ADDR, ''in6_addr''), (EXPR_SOCKET_ADDRESS_IPV4, ''sockaddr_in''),
     (EXPR_SOCKET_ADDRESS_IPV6, ''sockaddr_in6''), (EXPR_LINGER, ''linger''), (EXPR_BINARY, ''binary_expression''),
     (EXPR_LIST, ''list''), (EXPR_IOVEC, ''iovec''), (EXPR_MSGHDR, ''msghdr''), (EXPR_CMSG, ''cmsg''),
     (EXPR_POLLFD, ''pollfd''), (EXPR_MPLS_STACK, ''mpls_stack''), (EXPR_SCM_TIMESTAMPING, ''scm_timestamping''),
     (EXPR_SOCK_EXTENDED_ERR, ''sock_extended_err''), (EXPR_EPOLLEV, ''epollev'')]"

definition expression_type_to_string :: "expression_t \<Rightarrow> string" where
  "expression_type_to_string t = (case map_of expression_type_table t of Some name \<Rightarrow> name | None \<Rightarrow> ''UNKNOWN_TYPE'')"

subsection \<open>Symbols\<close>

text \<open>A table up to its sentinel: value and name. The values are those of Linux.\<close>

type_synonym int_symbols = "(int \<times> string) list"

definition cross_platform_symbols :: int_symbols where
  "cross_platform_symbols =
    [(2, ''AF_INET''), (10, ''AF_INET6''), (2, ''PF_INET''), (10, ''PF_INET6''),
     (1, ''SOCK_STREAM''), (2, ''SOCK_DGRAM''), (2048, ''SOCK_NONBLOCK''),
     (0, ''IPPROTO_IP''), (41, ''IPPROTO_IPV6''), (1, ''IPPROTO_ICMP''), (58, ''IPPROTO_ICMPV6''),
     (6, ''IPPROTO_TCP''), (17, ''IPPROTO_UDP''), (0, ''SHUT_RD''), (1, ''SHUT_WR''), (2, ''SHUT_RDWR''),
     (1, ''SOL_SOCKET''), (0, ''NULL'')]"

fun lookup_int_symbol :: "string \<Rightarrow> int_symbols \<Rightarrow> int option" where
  "lookup_int_symbol input_symbol [] = None"
| "lookup_int_symbol input_symbol ((v, name) # symbols) =
     (if input_symbol = name then Some v else lookup_int_symbol input_symbol symbols)"

definition symbol_to_int :: "int_symbols \<Rightarrow> string \<Rightarrow> string + int" where
  "symbol_to_int platform_symbols input_symbol =
     (case lookup_int_symbol input_symbol cross_platform_symbols of
        Some v \<Rightarrow> Inr v
      | None \<Rightarrow> (case lookup_int_symbol input_symbol platform_symbols of
          Some v \<Rightarrow> Inr v
        | None \<Rightarrow> Inl (''unknown symbol: '' @ [CHR 0x27] @ input_symbol @ [CHR 0x27])))"

subsection \<open>Bit flags\<close>

text \<open>A table of names: the flag and its name, \<open>None\<close> for a \<^verbatim>\<open>NULL\<close>. The table of \<^verbatim>\<open>poll\<close> flags is the one of a
  Linux with all the optional flags but \<^verbatim>\<open>POLLINIGNEOF\<close>; its last entry has an empty name and not \<^verbatim>\<open>NULL\<close>.\<close>

type_synonym flag_names = "(u64 \<times> string option) list"

definition poll_flags :: flag_names where
  "poll_flags =
    [(0x001, Some ''POLLIN''), (0x002, Some ''POLLPRI''), (0x004, Some ''POLLOUT''),
     (0x040, Some ''POLLRDNORM''), (0x080, Some ''POLLRDBAND''), (0x100, Some ''POLLWRNORM''),
     (0x200, Some ''POLLWRBAND''), (0x400, Some ''POLLMSG''), (0x1000, Some ''POLLREMOVE''),
     (0x2000, Some ''POLLRDHUP''), (0x008, Some ''POLLERR''), (0x010, Some ''POLLHUP''),
     (0x020, Some ''POLLNVAL''), (0, Some '''')]"

text \<open>The walk reads past a table without a \<^verbatim>\<open>NULL\<close> name when no flag matches. A matching entry without a name
  is printed by \<^verbatim>\<open>asprintf\<close> as \<^verbatim>\<open>(null)\<close>.\<close>

fun flag_name :: "flag_names \<Rightarrow> u64 \<Rightarrow> string run" where
  "flag_name [] f = Oob"
| "flag_name ((g, name) # flags_array) f =
     (case name of
        None \<Rightarrow> Done (if g = f then ''(null)'' else ''???'')
      | Some n \<Rightarrow> if g = f then Done n else flag_name flags_array f)"

fun flags_loop :: "flag_names \<Rightarrow> u64 \<Rightarrow> nat \<Rightarrow> u64 \<Rightarrow> string \<Rightarrow> string run" where
  "flags_loop flags_array flags 0 bit_mask out = Done out"
| "flags_loop flags_array flags (Suc n) bit_mask out =
     (if flags AND bit_mask \<noteq> 0
      then rbind (flag_name flags_array bit_mask) (\<lambda>name.
        flags_loop flags_array flags n (push_bit 1 bit_mask) (out @ (if out = [] then [] else ''|'') @ name))
      else flags_loop flags_array flags n (push_bit 1 bit_mask) out)"

definition flags_to_string :: "flag_names \<Rightarrow> u64 \<Rightarrow> string run" where
  "flags_to_string flags_array flags = flags_loop flags_array flags 64 1 []"

subsection \<open>String literals\<close>

definition hex_digit :: "char \<Rightarrow> nat option" where
  "hex_digit c = (let n = of_char c :: nat in
     if 48 \<le> n \<and> n \<le> 57 then Some (n - 48)
     else if 65 \<le> n \<and> n \<le> 70 then Some (n - 55)
     else if 97 \<le> n \<and> n \<le> 102 then Some (n - 87) else None)"

text \<open>\<^verbatim>\<open>strtol\<close> in base 16 of a string of two characters that it uses up: two digits, or a digit behind
  white space or a sign.\<close>

definition hex_pair :: "char \<Rightarrow> char \<Rightarrow> int option" where
  "hex_pair a b = (case hex_digit b of
     None \<Rightarrow> None
   | Some y \<Rightarrow> (case hex_digit a of
       Some x \<Rightarrow> Some (int (16 * x + y))
     | None \<Rightarrow> if is_space a \<or> a = CHR ''+'' then Some (int y)
         else if a = CHR ''-'' then Some (- int y) else None))"

text \<open>The bytes that are written to the string, or the message. The cases of the backslash and of the double
  quote run on into that of the form feed, and a message ends at the end of the string it quotes.\<close>

definition bad_hex :: "string \<Rightarrow> string" where
  "bad_hex c_in = ''invalid hex escape ('' @ [CHR 0x5C] @ ''xhh): '' @ [CHR 0x27, CHR 0x5C] @ ''x'' @ c_in @ [CHR 0x27]"

fun unescape_cstring_expression :: "string \<Rightarrow> string + string" where
  "unescape_cstring_expression [] = Inr []"
| "unescape_cstring_expression (c # cs) =
     (if c = CHR 0x5C
      then (case cs of
          [] \<Rightarrow> Inl (''unsupported escape code: '' @ [CHR 0x27])
        | e # ds \<Rightarrow>
            (if e = CHR 0x5C \<or> e = CHR 0x22 \<or> e = CHR ''f''
             then map_sum id ((#) (CHR 0x0C)) (unescape_cstring_expression ds)
             else if e = CHR ''n'' then map_sum id ((#) (CHR 0x0A)) (unescape_cstring_expression ds)
             else if e = CHR ''r'' then map_sum id ((#) (CHR 0x0D)) (unescape_cstring_expression ds)
             else if e = CHR ''t'' then map_sum id ((#) (CHR 0x09)) (unescape_cstring_expression ds)
             else if e = CHR ''v'' then map_sum id ((#) (CHR 0x0B)) (unescape_cstring_expression ds)
             else if e = CHR ''x''
             then (case ds of
                 a # b # rest \<Rightarrow> (case hex_pair a b of
                   Some v \<Rightarrow> map_sum id ((#) (char_of (nat (v mod 256)))) (unescape_cstring_expression rest)
                 | None \<Rightarrow> Inl (bad_hex ds))
               | _ \<Rightarrow> Inl (bad_hex ds))
             else Inl (''unsupported escape code: '' @ [CHR 0x27, e, CHR 0x27])))
      else map_sum id ((#) c) (unescape_cstring_expression cs))"

subsection \<open>Evaluation\<close>

text \<open>The error of an evaluation is \<open>None\<close> when \<^verbatim>\<open>*error\<close> is not set.\<close>

type_synonym 'a evaluated = "(string option + 'a) run"

fun eval_then :: "'a evaluated \<Rightarrow> ('a \<Rightarrow> 'b evaluated) \<Rightarrow> 'b evaluated" where
  "eval_then (Done (Inr x)) f = f x"
| "eval_then (Done (Inl e)) f = Done (Inl e)"
| "eval_then Oob f = Oob"
| "eval_then Die f = Die"

definition eval_error :: "string \<Rightarrow> 'a evaluated" where
  "eval_error msg = Done (Inl (Some msg))"

text \<open>The length of a GRE header is read from its flags; the rest of the 16 bytes is zero.\<close>

definition evaluate_gre :: "bytes \<Rightarrow> expression evaluated" where
  "evaluate_gre gre =
     rbind (ld8 gre 0) (\<lambda>flags. rbind (ld8 gre 1) (\<lambda>ver. rbind (gre_len flags ver) (\<lambda>n.
       if length gre < n then Oob else Done (Inr (E_GRE (take n gre @ replicate (16 - n) 0))))))"

text \<open>The binary operators, on evaluated operands.\<close>

definition evaluate_operator :: "string \<Rightarrow> expression \<Rightarrow> expression \<Rightarrow> expression evaluated" where
  "evaluate_operator op lhs rhs =
     (if op = ''|''
      then (case lhs of
          E_INTEGER a \<Rightarrow> (case rhs of
            E_INTEGER b \<Rightarrow> Done (Inr (E_INTEGER (a OR b)))
          | _ \<Rightarrow> eval_error ''right hand side of | not an integer'')
        | _ \<Rightarrow> eval_error ''left hand side of | not an integer'')
      else if op = ''='' then Done (Inr (E_BINARY op lhs rhs))
      else eval_error (''bad binary operator '' @ [CHR 0x27] @ op @ [CHR 0x27]))"

text \<open>The compound expressions, from the results of evaluating their parts: the first error is the result.\<close>

definition evaluate_binary_expression ::
  "string \<Rightarrow> expression evaluated \<Rightarrow> expression evaluated \<Rightarrow> expression evaluated" where
  "evaluate_binary_expression op lhs rhs =
     eval_then lhs (\<lambda>lhs. eval_then rhs (\<lambda>rhs. evaluate_operator op lhs rhs))"

definition evaluate_list_expression :: "expression list evaluated \<Rightarrow> expression evaluated" where
  "evaluate_list_expression es = eval_then es (\<lambda>es. Done (Inr (E_LIST es)))"

definition evaluate_iovec_expression :: "expression evaluated \<Rightarrow> expression evaluated \<Rightarrow> expression evaluated" where
  "evaluate_iovec_expression iov_base iov_len =
     eval_then iov_base (\<lambda>iov_base. eval_then iov_len (\<lambda>iov_len. Done (Inr (E_IOVEC iov_base iov_len))))"

definition evaluate_msghdr_expression ::
  "expression evaluated \<Rightarrow> expression evaluated \<Rightarrow> expression evaluated \<Rightarrow> expression evaluated \<Rightarrow>
    expression evaluated \<Rightarrow> expression evaluated \<Rightarrow> expression evaluated" where
  "evaluate_msghdr_expression msg_name msg_namelen msg_iov msg_iovlen msg_control msg_flags =
     eval_then msg_name (\<lambda>msg_name. eval_then msg_namelen (\<lambda>msg_namelen. eval_then msg_iov (\<lambda>msg_iov.
     eval_then msg_iovlen (\<lambda>msg_iovlen. eval_then msg_control (\<lambda>msg_control. eval_then msg_flags (\<lambda>msg_flags.
       Done (Inr (E_MSGHDR msg_name msg_namelen msg_iov msg_iovlen msg_control msg_flags))))))))"

definition evaluate_cmsg_expression ::
  "expression evaluated \<Rightarrow> expression evaluated \<Rightarrow> expression evaluated \<Rightarrow> expression evaluated" where
  "evaluate_cmsg_expression cmsg_level cmsg_type cmsg_data =
     eval_then cmsg_level (\<lambda>cmsg_level. eval_then cmsg_type (\<lambda>cmsg_type. eval_then cmsg_data (\<lambda>cmsg_data.
       Done (Inr (E_CMSG cmsg_level cmsg_type cmsg_data)))))"

definition evaluate_sock_extended_err ::
  "expression evaluated \<Rightarrow> expression evaluated \<Rightarrow> expression evaluated \<Rightarrow> expression evaluated \<Rightarrow>
    expression evaluated \<Rightarrow> expression evaluated \<Rightarrow> expression evaluated" where
  "evaluate_sock_extended_err ee_errno ee_origin ee_type ee_code ee_info ee_data =
     eval_then ee_errno (\<lambda>ee_errno. eval_then ee_origin (\<lambda>ee_origin. eval_then ee_type (\<lambda>ee_type.
     eval_then ee_code (\<lambda>ee_code. eval_then ee_info (\<lambda>ee_info. eval_then ee_data (\<lambda>ee_data.
       Done (Inr (E_SOCK_EXTENDED_ERR ee_errno ee_origin ee_type ee_code ee_info ee_data))))))))"

definition evaluate_pollfd_expression ::
  "expression evaluated \<Rightarrow> expression evaluated \<Rightarrow> expression evaluated \<Rightarrow> expression evaluated" where
  "evaluate_pollfd_expression fd events revents =
     eval_then fd (\<lambda>fd. eval_then events (\<lambda>events. eval_then revents (\<lambda>revents.
       Done (Inr (E_POLLFD fd events revents)))))"

text \<open>An epoll event takes the first member that is there; \<open>None\<close> is a null pointer.\<close>

definition evaluate_epollev_expression ::
  "expression evaluated \<Rightarrow> expression evaluated option \<Rightarrow> expression evaluated option \<Rightarrow>
    expression evaluated option \<Rightarrow> expression evaluated option \<Rightarrow> expression evaluated" where
  "evaluate_epollev_expression events ptr fd u32 u64 =
     eval_then events (\<lambda>events.
       case ptr of Some ptr \<Rightarrow> eval_then ptr (\<lambda>ptr. Done (Inr (E_EPOLLEV events ptr E_NULL E_NULL E_NULL)))
       | None \<Rightarrow> (case fd of Some fd \<Rightarrow> eval_then fd (\<lambda>fd. Done (Inr (E_EPOLLEV events E_NULL fd E_NULL E_NULL)))
       | None \<Rightarrow> (case u32 of Some u32 \<Rightarrow> eval_then u32 (\<lambda>u32. Done (Inr (E_EPOLLEV events E_NULL E_NULL u32 E_NULL)))
       | None \<Rightarrow> (case u64 of Some u64 \<Rightarrow> eval_then u64 (\<lambda>u64. Done (Inr (E_EPOLLEV events E_NULL E_NULL E_NULL u64)))
       | None \<Rightarrow> Done (Inl None)))))"

fun evaluate :: "int_symbols \<Rightarrow> expression \<Rightarrow> expression evaluated"
and evaluate_expression_list :: "int_symbols \<Rightarrow> expression list \<Rightarrow> expression list evaluated" where
  "evaluate ps E_NULL = Oob"
| "evaluate ps E_ELLIPSIS = Done (Inr E_ELLIPSIS)"
| "evaluate ps (E_INTEGER n) = Done (Inr (E_INTEGER n))"
| "evaluate ps (E_LINGER onoff l) = Done (Inr (E_LINGER onoff l))"
| "evaluate ps (E_WORD s) = (case symbol_to_int ps s of
     Inl e \<Rightarrow> eval_error e | Inr v \<Rightarrow> Done (Inr (E_INTEGER v)))"
| "evaluate ps (E_STRING s) = (case unescape_cstring_expression s of
     Inl e \<Rightarrow> eval_error e | Inr t \<Rightarrow> Done (Inr (E_STRING t)))"
| "evaluate ps (E_GRE gre) = evaluate_gre gre"
| "evaluate ps (E_IN6_ADDR a) = Done (Inr (E_IN6_ADDR a))"
| "evaluate ps (E_SOCKADDR4 a port) = Done (Inr (E_SOCKADDR4 a port))"
| "evaluate ps (E_SOCKADDR6 a port) = Done (Inr (E_SOCKADDR6 a port))"
| "evaluate ps (E_BINARY op lhs rhs) = evaluate_binary_expression op (evaluate ps lhs) (evaluate ps rhs)"
| "evaluate ps (E_LIST es) = evaluate_list_expression (evaluate_expression_list ps es)"
| "evaluate ps (E_IOVEC b l) = evaluate_iovec_expression (evaluate ps b) (evaluate ps l)"
| "evaluate ps (E_MSGHDR name namelen iov iovlen ctl flags) =
     evaluate_msghdr_expression (evaluate ps name) (evaluate ps namelen) (evaluate ps iov) (evaluate ps iovlen)
       (evaluate ps ctl) (evaluate ps flags)"
| "evaluate ps (E_CMSG level ty data) =
     evaluate_cmsg_expression (evaluate ps level) (evaluate ps ty) (evaluate ps data)"
| "evaluate ps (E_POLLFD fd events revents) =
     evaluate_pollfd_expression (evaluate ps fd) (evaluate ps events) (evaluate ps revents)"
| "evaluate ps (E_MPLS_STACK entries) = Done (Inr (E_MPLS_STACK entries))"
| "evaluate ps (E_SCM_TIMESTAMPING ts) = Done (Inr (E_SCM_TIMESTAMPING ts))"
| "evaluate ps (E_SOCK_EXTENDED_ERR errno origin ty code info data) =
     evaluate_sock_extended_err (evaluate ps errno) (evaluate ps origin) (evaluate ps ty) (evaluate ps code)
       (evaluate ps info) (evaluate ps data)"
| "evaluate ps (E_EPOLLEV events ptr fd u32 u64) =
     evaluate_epollev_expression (evaluate ps events)
       (if ptr = E_NULL then None else Some (evaluate ps ptr)) (if fd = E_NULL then None else Some (evaluate ps fd))
       (if u32 = E_NULL then None else Some (evaluate ps u32)) (if u64 = E_NULL then None else Some (evaluate ps u64))"
| "evaluate_expression_list ps [] = Done (Inr [])"
| "evaluate_expression_list ps (e # es) =
     eval_then (evaluate ps e) (\<lambda>e. eval_then (evaluate_expression_list ps es) (\<lambda>es. Done (Inr (e # es))))"

lemmas compound_defs = evaluate_binary_expression_def evaluate_list_expression_def evaluate_iovec_expression_def
  evaluate_msghdr_expression_def evaluate_cmsg_expression_def evaluate_sock_extended_err_def
  evaluate_pollfd_expression_def evaluate_epollev_expression_def

subsection \<open>Evaluated expressions\<close>

text \<open>An expression that can be evaluated: no null pointer but for the fields of an epoll event after the
  first, and GRE headers of version 0 without routing information.\<close>

fun complete_expression :: "expression \<Rightarrow> bool" where
  "complete_expression E_NULL \<longleftrightarrow> False"
| "complete_expression (E_GRE gre) \<longleftrightarrow> length gre = 16 \<and> unat (gre ! 1) mod 8 = 0 \<and> \<not> bit (gre ! 0) 6"
| "complete_expression (E_BINARY op l r) \<longleftrightarrow> complete_expression l \<and> complete_expression r"
| "complete_expression (E_LIST es) \<longleftrightarrow> (\<forall>e \<in> set es. complete_expression e)"
| "complete_expression (E_IOVEC a b) \<longleftrightarrow> complete_expression a \<and> complete_expression b"
| "complete_expression (E_MSGHDR a b c d e f) \<longleftrightarrow> complete_expression a \<and> complete_expression b \<and>
     complete_expression c \<and> complete_expression d \<and> complete_expression e \<and> complete_expression f"
| "complete_expression (E_CMSG a b c) \<longleftrightarrow> complete_expression a \<and> complete_expression b \<and> complete_expression c"
| "complete_expression (E_POLLFD a b c) \<longleftrightarrow> complete_expression a \<and> complete_expression b \<and> complete_expression c"
| "complete_expression (E_SOCK_EXTENDED_ERR a b c d e f) \<longleftrightarrow> complete_expression a \<and> complete_expression b \<and>
     complete_expression c \<and> complete_expression d \<and> complete_expression e \<and> complete_expression f"
| "complete_expression (E_EPOLLEV ev p fd v w) \<longleftrightarrow> complete_expression ev \<and>
     (p = E_NULL \<or> complete_expression p) \<and> (fd = E_NULL \<or> complete_expression fd) \<and>
     (v = E_NULL \<or> complete_expression v) \<and> (w = E_NULL \<or> complete_expression w)"
| "complete_expression _ \<longleftrightarrow> True"

text \<open>An expression in the form that the handlers of system calls take: complete, without words, the only
  binary operator is an assignment and exactly one member of an epoll event is set.\<close>

fun evaluated_expression :: "expression \<Rightarrow> bool" where
  "evaluated_expression E_NULL \<longleftrightarrow> False"
| "evaluated_expression (E_WORD s) \<longleftrightarrow> False"
| "evaluated_expression (E_GRE gre) \<longleftrightarrow> complete_expression (E_GRE gre)"
| "evaluated_expression (E_BINARY op l r) \<longleftrightarrow> op = ''='' \<and> evaluated_expression l \<and> evaluated_expression r"
| "evaluated_expression (E_LIST es) \<longleftrightarrow> (\<forall>e \<in> set es. evaluated_expression e)"
| "evaluated_expression (E_IOVEC a b) \<longleftrightarrow> evaluated_expression a \<and> evaluated_expression b"
| "evaluated_expression (E_MSGHDR a b c d e f) \<longleftrightarrow> evaluated_expression a \<and> evaluated_expression b \<and>
     evaluated_expression c \<and> evaluated_expression d \<and> evaluated_expression e \<and> evaluated_expression f"
| "evaluated_expression (E_CMSG a b c) \<longleftrightarrow> evaluated_expression a \<and> evaluated_expression b \<and> evaluated_expression c"
| "evaluated_expression (E_POLLFD a b c) \<longleftrightarrow> evaluated_expression a \<and> evaluated_expression b \<and> evaluated_expression c"
| "evaluated_expression (E_SOCK_EXTENDED_ERR a b c d e f) \<longleftrightarrow> evaluated_expression a \<and> evaluated_expression b \<and>
     evaluated_expression c \<and> evaluated_expression d \<and> evaluated_expression e \<and> evaluated_expression f"
| "evaluated_expression (E_EPOLLEV ev p fd v w) \<longleftrightarrow> evaluated_expression ev \<and>
     (evaluated_expression p \<and> fd = E_NULL \<and> v = E_NULL \<and> w = E_NULL \<or>
      p = E_NULL \<and> evaluated_expression fd \<and> v = E_NULL \<and> w = E_NULL \<or>
      p = E_NULL \<and> fd = E_NULL \<and> evaluated_expression v \<and> w = E_NULL \<or>
      p = E_NULL \<and> fd = E_NULL \<and> v = E_NULL \<and> evaluated_expression w)"
| "evaluated_expression _ \<longleftrightarrow> True"

text \<open>An evaluation ends well when it returns an error or a value of which \<open>P\<close> holds.\<close>

definition eval_ok :: "('a \<Rightarrow> bool) \<Rightarrow> 'a evaluated \<Rightarrow> bool" where
  "eval_ok P r \<longleftrightarrow> (case r of Done (Inl _) \<Rightarrow> True | Done (Inr x) \<Rightarrow> P x | _ \<Rightarrow> False)"

lemma eval_ok_simps [simp]:
  "eval_ok P (Done (Inl e))" "eval_ok P (Done (Inr x)) \<longleftrightarrow> P x" "\<not> eval_ok P Oob" "\<not> eval_ok P Die"
  "eval_ok P (eval_error msg)"
  by (simp_all add: eval_ok_def eval_error_def)

lemma eval_ok_then:
  assumes "eval_ok P r" "\<And>x. P x \<Longrightarrow> eval_ok Q (f x)"
  shows "eval_ok Q (eval_then r f)"
  using assms by (cases "(r, f)" rule: eval_then.cases) auto

lemma evaluate_gre_ok: "complete_expression (E_GRE gre) \<Longrightarrow> eval_ok evaluated_expression (evaluate_gre gre)"
  by (auto simp: evaluate_gre_def gre_len_def GRE_MINLEN_def nth_append)

lemma evaluate_operator_ok:
  "evaluated_expression l \<Longrightarrow> evaluated_expression r \<Longrightarrow> eval_ok evaluated_expression (evaluate_operator op l r)"
  by (auto simp: evaluate_operator_def split: expression.splits)

lemma evaluate_ok:
  "complete_expression e \<Longrightarrow> eval_ok evaluated_expression (evaluate ps e)"
  "\<forall>e \<in> set es. complete_expression e \<Longrightarrow> eval_ok (list_all evaluated_expression) (evaluate_expression_list ps es)"
proof (induction ps e and ps es rule: evaluate_evaluate_expression_list.induct)
  case (20 ps events ptr fd u32 u64)
  then show ?case by (cases "ptr = E_NULL"; cases "fd = E_NULL"; cases "u32 = E_NULL"; cases "u64 = E_NULL") 
    (auto intro!: eval_ok_then simp: compound_defs)
qed (auto intro!: eval_ok_then evaluate_gre_ok evaluate_operator_ok simp: list_all_iff compound_defs split: sum.split)

text \<open>What was evaluated can be evaluated again.\<close>

lemma evaluated_complete: "evaluated_expression e \<Longrightarrow> complete_expression e"
  by (induction e rule: evaluated_expression.induct) auto

subsection \<open>Escaping\<close>

text \<open>The C notation of a string: the named escapes, and two hexadecimal digits for the other characters that
  are not printed.\<close>

definition escape_char :: "char \<Rightarrow> string" where
  "escape_char c = (let n = of_char c :: nat in
     if c = CHR 0x5C then [CHR 0x5C, CHR 0x5C]
     else if c = CHR 0x22 then [CHR 0x5C, CHR 0x22]
     else if c = CHR 0x0C then [CHR 0x5C, CHR ''f'']
     else if c = CHR 0x0A then [CHR 0x5C, CHR ''n'']
     else if c = CHR 0x0D then [CHR 0x5C, CHR ''r'']
     else if c = CHR 0x09 then [CHR 0x5C, CHR ''t'']
     else if c = CHR 0x0B then [CHR 0x5C, CHR ''v'']
     else if n < 32 \<or> 126 < n then [CHR 0x5C, CHR ''x'', digit_char (n div 16), digit_char (n mod 16)]
     else [c])"

text \<open>What the fall through makes of a character.\<close>

definition misread :: "char \<Rightarrow> char" where
  "misread c = (if c = CHR 0x5C \<or> c = CHR 0x22 then CHR 0x0C else c)"

lemma hex_digit_char: "n < 16 \<Longrightarrow> hex_digit (digit_char n) = Some n"
  by (simp add: hex_digit_def digit_char_def)

lemma hex_pair_char:
  "hex_pair (digit_char (of_char c div 16)) (digit_char (of_char c mod 16)) = Some (int (of_char c))"
proof -
  have "of_char c mod (256 :: nat) = of_char c" by (rule of_char_mod_256)
  then have "of_char c < (256 :: nat)" by (metis mod_less_divisor zero_less_numeral)
  then have "of_char c div 16 < (16 :: nat)" by (simp add: less_mult_imp_div_less)
  then show ?thesis by (simp add: hex_pair_def hex_digit_char)
qed

lemma unescape_escape_char:
  "unescape_cstring_expression (escape_char c @ s) = map_sum id ((#) (misread c)) (unescape_cstring_expression s)"
proof -
  consider "c \<in> {CHR 0x5C, CHR 0x22, CHR 0x0C, CHR 0x0A, CHR 0x0D, CHR 0x09, CHR 0x0B}"
    | (hex) "c \<notin> {CHR 0x5C, CHR 0x22, CHR 0x0C, CHR 0x0A, CHR 0x0D, CHR 0x09, CHR 0x0B}"
      "of_char c < (32 :: nat) \<or> 126 < (of_char c :: nat)"
    | (plain) "c \<notin> {CHR 0x5C, CHR 0x22, CHR 0x0C, CHR 0x0A, CHR 0x0D, CHR 0x09, CHR 0x0B}"
      "\<not> (of_char c < (32 :: nat) \<or> 126 < (of_char c :: nat))" by blast
  then show ?thesis
  proof cases
    case 1
    then show ?thesis by (auto simp: escape_char_def misread_def)
  next
    case hex
    have "nat (int (of_char c) mod 256) = of_char c"
      by (simp add: of_char_mod_256 zmod_int [symmetric]) 
    moreover have "misread c = c" using hex(1) by (simp add: misread_def)
    ultimately show ?thesis using hex by (simp add: escape_char_def Let_def hex_pair_char)
  next
    case plain
    then show ?thesis by (simp add: escape_char_def Let_def misread_def)
  qed
qed

lemma unescape_escaped_ok:
  "unescape_cstring_expression (concat (map escape_char s)) = Inr (map misread s)"
  by (induction s) (simp_all add: unescape_escape_char)

subsection \<open>Known and unknown flags\<close>

text \<open>The bits that the table names, in its order.\<close>

definition poll_names :: "(nat \<times> string) list" where
  "poll_names = [(0, ''POLLIN''), (1, ''POLLPRI''), (2, ''POLLOUT''), (6, ''POLLRDNORM''), (7, ''POLLRDBAND''),
     (8, ''POLLWRNORM''), (9, ''POLLWRBAND''), (10, ''POLLMSG''), (12, ''POLLREMOVE''), (13, ''POLLRDHUP''),
     (3, ''POLLERR''), (4, ''POLLHUP''), (5, ''POLLNVAL'')]"

definition bit_mask :: "nat \<Rightarrow> u64" where "bit_mask i = push_bit i 1"

lemma bit_mask_Suc: "push_bit 1 (bit_mask i) = bit_mask (Suc i)"
  by (simp only: bit_mask_def push_bit_push_bit plus_1_eq_Suc)

lemma flags_loop_step:
  "flags_loop t flags (Suc n) (bit_mask i) out =
     (if flags AND bit_mask i \<noteq> 0
      then rbind (flag_name t (bit_mask i)) (\<lambda>name.
        flags_loop t flags n (bit_mask (Suc i)) (out @ (if out = [] then [] else ''|'') @ name))
      else flags_loop t flags n (bit_mask (Suc i)) out)"
  by (simp only: flags_loop.simps bit_mask_Suc)

lemma bit_bit_mask: "i < 64 \<Longrightarrow> bit (bit_mask i) j \<longleftrightarrow> j = i"
  by (auto simp: bit_mask_def bit_simps)

definition flag_table :: "(nat \<times> string) list \<Rightarrow> flag_names" where
  "flag_table names = map (\<lambda>(i, name). (bit_mask i, Some name)) names @ [(0, Some [])]"

lemma poll_flags_table: "poll_flags = flag_table poll_names"
  by (simp add: poll_flags_def flag_table_def poll_names_def bit_mask_def)

definition join_names :: "string list \<Rightarrow> string \<Rightarrow> string" where
  "join_names names out = foldl (\<lambda>out name. out @ (if out = [] then [] else ''|'') @ name) out names"

lemma bit_mask_inj: "i < 64 \<Longrightarrow> j < 64 \<Longrightarrow> bit_mask i = bit_mask j \<longleftrightarrow> i = j"
  using bit_bit_mask by metis

lemma bit_mask_nonzero: "i < 64 \<Longrightarrow> bit_mask i \<noteq> 0"
  using bit_bit_mask [of i i] by auto

lemma flag_name_table:
  assumes "i < 64" "\<forall>(j, _) \<in> set names. j < 64"
  shows "flag_name (flag_table names) (bit_mask i) =
    (case map_of names i of Some name \<Rightarrow> Done name | None \<Rightarrow> Oob)"
  using assms(2)
proof (induction names)
  case Nil
  then show ?case using bit_mask_nonzero [OF assms(1)] by (simp add: flag_table_def)
next
  case (Cons p names)
  then show ?case using assms(1) bit_mask_inj [of "fst p" i] by (cases p) (auto simp: flag_table_def)
qed

lemma and_bit_mask: "i < 64 \<Longrightarrow> flags AND bit_mask i \<noteq> 0 \<longleftrightarrow> bit flags i"
  by (auto simp: bit_eq_iff [of "flags AND bit_mask i" 0] bit_simps bit_bit_mask)

text \<open>The loop from bit \<open>i\<close> on.\<close>

lemma flags_loop_from:
  assumes "i + n \<le> 64" "\<forall>(j, _) \<in> set names. j < 64"
  shows "flags_loop (flag_table names) flags n (bit_mask i) out =
    (if \<forall>j \<in> {i..<i + n}. bit flags j \<longrightarrow> j \<in> fst ` set names
     then Done (join_names (map (the \<circ> map_of names) (filter (bit flags) [i..<i + n])) out) else Oob)"
  using assms(1)
proof (induction n arbitrary: i out)
  case 0
  then show ?case by (simp add: join_names_def)
next
  case (Suc n)
  have i: "i < 64" using Suc.prems by simp
  have u: "[i..<Suc (i + n)] = i # [Suc i..<Suc i + n]" "{i..<Suc (i + n)} = insert i {Suc i..<Suc i + n}"
    by (auto simp: upt_conv_Cons simp del: upt_Suc)
  show ?case
  proof (cases "bit flags i")
    case True
    show ?thesis
    proof (cases "map_of names i")
      case None
      then have "i \<notin> fst ` set names" by (simp add: map_of_eq_None_iff)
      then show ?thesis
        using None True i assms(2) by (simp add: flags_loop_step and_bit_mask flag_name_table u(2) del: flags_loop.simps)
    next
      case (Some name)
      then have "i \<in> fst ` set names" by (metis map_of_eq_None_iff option.distinct(1))
      then show ?thesis
        using Some True i assms(2) Suc.IH [of "Suc i"] Suc.prems
        by (simp add: and_bit_mask flags_loop_step flag_name_table u join_names_def del: upt_Suc flags_loop.simps)
    qed
  next
    case False
    then show ?thesis
      using i Suc.IH [of "Suc i"] Suc.prems by (simp add: and_bit_mask flags_loop_step u del: upt_Suc flags_loop.simps)
  qed
qed

definition flag_bits :: "u64 \<Rightarrow> nat list" where
  "flag_bits flags = filter (bit flags) [0..<64]"

lemma flags_to_string_ok:
  "flags_to_string poll_flags flags =
    (if set (flag_bits flags) \<subseteq> fst ` set poll_names
     then Done (join_names (map (the \<circ> map_of poll_names) (flag_bits flags)) []) else Oob)"
proof -
  have n: "\<forall>(j, _) \<in> set poll_names. j < 64" by (simp add: poll_names_def)
  have b: "(\<forall>j \<in> {0..<0 + 64}. bit flags j \<longrightarrow> j \<in> N) \<longleftrightarrow> set (flag_bits flags) \<subseteq> N" for N
    by (auto simp: flag_bits_def)
  show ?thesis
    using flags_loop_from [of 0 64 poll_names flags "[]", OF _ n]
    unfolding flags_to_string_def poll_flags_table b
    by (simp add: bit_mask_def [of 0] flag_bits_def del: upt_rec_numeral)
qed

subsection \<open>Properties\<close>

text \<open>C22: Evaluating a list of complete expressions never reads through a null pointer and never fails an
  assertion: it returns an error, or expressions without words in which the only binary operator is an
  assignment and exactly one member of an epoll event is set.\<close>
theorem evaluate_expressions_normal:
  assumes "\<forall>e \<in> set es. complete_expression e"
  shows "(\<exists>e. evaluate_expression_list ps es = Done (Inl e)) \<or>
    (\<exists>vs. evaluate_expression_list ps es = Done (Inr vs) \<and> list_all evaluated_expression vs \<and>
      list_all complete_expression vs)"
  using evaluate_ok(2) [OF assms, of ps] evaluated_complete
  by (auto simp: eval_ok_def list_all_iff split: run.splits sum.splits)

text \<open>Arguments of a system call: a flag word, a binary or and an epoll event with its descriptor.\<close>

definition test_arguments :: "expression list" where
  "test_arguments = [E_WORD ''AF_INET6'', E_BINARY ''|'' (E_WORD ''SOCK_STREAM'') (E_INTEGER 2048),
     E_EPOLLEV (E_INTEGER 1) E_NULL (E_INTEGER 7) E_NULL E_NULL]"

lemma test_arguments_evaluated:
  "evaluate_expression_list [] test_arguments =
     Done (Inr [E_INTEGER 10, E_INTEGER 2049, E_EPOLLEV (E_INTEGER 1) E_NULL (E_INTEGER 7) E_NULL E_NULL])"
  by (simp add: test_arguments_def symbol_to_int_def cross_platform_symbols_def evaluate_operator_def compound_defs)

lemma evaluate_expressions_normal_witness:
  "\<exists>vs. evaluate_expression_list [] test_arguments = Done (Inr vs) \<and> list_all evaluated_expression vs \<and>
     list_all complete_expression vs"
  using evaluate_expressions_normal [of test_arguments "[]"] test_arguments_evaluated
  by (simp add: test_arguments_def)

text \<open>C23: Unescaping the C notation of any string gives the string back, but every backslash and every double
  quote has become a form feed, as the cases of these two escapes have no break.\<close>
theorem unescape_escaped:
  "unescape_cstring_expression (concat (map escape_char s)) = Inr (map misread s)"
  by (rule unescape_escaped_ok)

text \<open>Printing a mask of \<^verbatim>\<open>poll\<close> flags gives the names of its bits from the lowest, joined by bars, when the
  table names them all. A single bit that it does not name makes the walk run past the end of the table, as
  its last entry has an empty name and not \<^verbatim>\<open>NULL\<close>.\<close>
theorem flags_to_string_poll:
  "flags_to_string poll_flags flags =
    (if set (flag_bits flags) \<subseteq> fst ` set poll_names
     then Done (join_names (map (the \<circ> map_of poll_names) (flag_bits flags)) []) else Oob)"
  by (rule flags_to_string_ok)

end
