(* ===== verification/RunTiming.thy ===== *)
theory RunTiming
  imports Socket Script
begin

section \<open>The interpreter and its clock\<close>

text \<open>
  The model of the timing half of \<^verbatim>\<open>run.c\<close> and \<^verbatim>\<open>run.h\<close> with the events of \<^verbatim>\<open>script.h\<close>: the run-time state,
  script and live time, the check of an event's time, relative times, the wait for an event and the step
  to the next event. The events of a script are a list and a pointer to an event is its position. The
  outside world is a record of answers: the readings of the clock, the packets that arrive, the ports that
  the system hands out and whether a packet can be sent; the state counts how many were used. Times are
  integers, far from the bounds of 64 bits.
\<close>

subsection \<open>Events and state\<close>

text \<open>A system call: its arguments, the expected result (\<open>E_NULL\<close> for a null pointer) and the macro of the
  expected error.\<close>

record syscall_spec =
  sys_name :: string
  sys_arguments :: "expression list"
  sys_result :: expression
  sys_errno_macro :: "string option"
  end_usecs :: int

definition SYSCALL_NON_BLOCKING :: int where "SYSCALL_NON_BLOCKING = -1"

definition is_blocking_syscall :: "syscall_spec \<Rightarrow> bool" where
  "is_blocking_syscall syscall \<longleftrightarrow> end_usecs syscall \<noteq> SYSCALL_NON_BLOCKING"

text \<open>The type of an event with its member of the union.\<close>

datatype event_body = INVALID_EVENT | PACKET_EVENT packet | SYSCALL_EVENT syscall_spec | COMMAND_EVENT string | CODE_EVENT string

datatype event_time_t = ABSOLUTE_TIME | RELATIVE_TIME | ANY_TIME | ABSOLUTE_RANGE_TIME | RELATIVE_RANGE_TIME

record event =
  line_number :: int
  time_usecs :: int
  time_usecs_end :: int
  offset_usecs :: int
  time_type :: event_time_t
  ev_body :: event_body

definition is_event_time_absolute :: "event \<Rightarrow> bool" where
  "is_event_time_absolute event \<longleftrightarrow> time_type event = ABSOLUTE_TIME \<or> time_type event = ABSOLUTE_RANGE_TIME"

record state =
  st_config :: config
  st_events :: "event list"
  st_event :: "nat option"
  st_last_event :: "nat option"
  script_start_time_usecs :: int
  script_last_time_usecs :: int
  live_start_time_usecs :: int
  num_events :: nat
  st_sockets :: "socket list"
  socket_under_test :: "nat option"
  next_ephemeral_port :: int
  st_reads :: nat
  st_sleeps :: "int list"
  st_rx :: nat
  st_ports :: nat
  st_sent :: "packet list"

record world =
  w_clock :: "nat \<Rightarrow> int"
  w_receive :: "nat \<Rightarrow> string + packet"
  w_port :: "nat \<Rightarrow> u16"
  w_send :: "packet \<Rightarrow> status"
  w_fill :: "nat \<Rightarrow> u8"
  w_ntop :: ntop

definition now_usecs :: "world \<Rightarrow> state \<Rightarrow> int \<times> state" where
  "now_usecs w st = (w_clock w (st_reads st), st\<lparr>st_reads := st_reads st + 1\<rparr>)"

subsection \<open>Script and live time\<close>

definition script_time_to_live_time_usecs :: "state \<Rightarrow> int \<Rightarrow> int" where
  "script_time_to_live_time_usecs st script_time_usecs =
     live_start_time_usecs st + (script_time_usecs - script_start_time_usecs st)"

definition live_time_to_script_time_usecs :: "state \<Rightarrow> int \<Rightarrow> int" where
  "live_time_to_script_time_usecs st live_time_usecs =
     script_start_time_usecs st + (live_time_usecs - live_start_time_usecs st)"

text \<open>\<^verbatim>\<open>%.6f\<close> and \<^verbatim>\<open>%+.6f\<close> of a number of microseconds in seconds.\<close>

fun pad6 :: "nat \<Rightarrow> string" where
  "pad6 n = (let s = dec n in replicate (6 - length s) CHR ''0'' @ s)"

definition secs :: "int \<Rightarrow> string" where
  "secs usecs = (if usecs < 0 then ''-'' else []) @ dec (nat \<bar>usecs\<bar> div 1000000) @ ''.'' @ pad6 (nat \<bar>usecs\<bar> mod 1000000)"

definition signed_secs :: "int \<Rightarrow> string" where
  "signed_secs usecs = (if usecs < 0 then secs usecs else ''+'' @ secs usecs)"

definition current_event :: "state \<Rightarrow> event run" where
  "current_event st = (case st_event st of None \<Rightarrow> Oob | Some i \<Rightarrow> if i < length (st_events st) then Done (st_events st ! i) else Oob)"

text \<open>\<open>None\<close> is \<^verbatim>\<open>STATUS_OK\<close>, otherwise the error message.\<close>

definition verify_time ::
  "state \<Rightarrow> event_time_t \<Rightarrow> int \<Rightarrow> int \<Rightarrow> int \<Rightarrow> string \<Rightarrow> string option run" where
  "verify_time st tt script_usecs script_usecs_end live_usecs description =
     (let expected_usecs = script_usecs - script_start_time_usecs st;
          expected_usecs_end = script_usecs_end - script_start_time_usecs st;
          actual_usecs = live_usecs - live_start_time_usecs st;
          tolerance = tolerance_usecs (st_config st)
      in if tt = ANY_TIME then Done None
      else if tt = ABSOLUTE_RANGE_TIME \<or> tt = RELATIVE_RANGE_TIME
      then (if actual_usecs < expected_usecs - tolerance \<or> expected_usecs_end + tolerance < actual_usecs
        then (if tt = ABSOLUTE_RANGE_TIME
          then Done (Some (''timing error: expected '' @ description @ '' in time range '' @ secs script_usecs @ ''~'' @
            secs script_usecs_end @ '' sec but happened at '' @ secs actual_usecs @ '' sec''))
          else rbind (current_event st) (\<lambda>event. let offset = offset_usecs event in
            Done (Some (''timing error: expected '' @ description @ '' in relative time range +'' @
              secs (script_usecs - offset) @ ''~+'' @ secs (script_usecs_end - offset) @
              '' sec but happened at '' @ signed_secs (actual_usecs - offset) @ '' sec''))))
        else Done None)
      else if actual_usecs < expected_usecs - tolerance \<or> expected_usecs + tolerance < actual_usecs
      then Done (Some (''timing error: expected '' @ description @ '' at '' @ secs script_usecs @
        '' sec but happened at '' @ secs actual_usecs @ '' sec; tolerance '' @ secs tolerance @ '' sec''))
      else Done None)"

definition event_description :: "event \<Rightarrow> string run" where
  "event_description event = (case ev_body event of
     INVALID_EVENT \<Rightarrow> Die
   | PACKET_EVENT packet \<Rightarrow>
       (if p_direction packet = DIRECTION_INBOUND then Done ''inbound packet''
        else if p_direction packet = DIRECTION_OUTBOUND then Done ''outbound packet''
        else Die)
   | SYSCALL_EVENT _ \<Rightarrow> Done ''system call start''
   | COMMAND_EVENT _ \<Rightarrow> Done ''command''
   | CODE_EVENT _ \<Rightarrow> Done ''data collection for code'')"

definition check_event_time :: "state \<Rightarrow> int \<Rightarrow> unit run" where
  "check_event_time st live_usecs =
     rbind (current_event st) (\<lambda>event.
     rbind (event_description event) (\<lambda>description.
     rbind (verify_time st (time_type event) (time_usecs event) (time_usecs_end event) live_usecs description) (\<lambda>err.
       case err of None \<Rightarrow> Done () | Some _ \<Rightarrow> Die)))"

subsection \<open>Relative times\<close>

definition is_event_start_time_anchored :: "event \<Rightarrow> bool" where
  "is_event_start_time_anchored event = (case ev_body event of
     PACKET_EVENT packet \<Rightarrow> p_direction packet = DIRECTION_INBOUND | _ \<Rightarrow> False)"

definition last_event :: "state \<Rightarrow> event option" where
  "last_event st = map_option ((!) (st_events st)) (st_last_event st)"

text \<open>The event at position \<open>i\<close> is adjusted in place.\<close>

definition adjust_relative_event_times :: "world \<Rightarrow> nat \<Rightarrow> state \<Rightarrow> state" where
  "adjust_relative_event_times w i st =
     (let event = st_events st ! i in
      if time_type event \<noteq> ANY_TIME \<and> time_type event \<noteq> RELATIVE_TIME \<and> time_type event \<noteq> RELATIVE_RANGE_TIME then st
      else
        (let (offset, st) = (case last_event st of
             Some l \<Rightarrow> if is_event_start_time_anchored l \<and> is_event_start_time_anchored event
               then (time_usecs l, st)
               else (let (now, st) = now_usecs w st in (now - live_start_time_usecs st, st))
           | None \<Rightarrow> (let (now, st) = now_usecs w st in (now - live_start_time_usecs st, st)));
             event = event\<lparr>offset_usecs := offset, time_usecs := time_usecs event + offset\<rparr>;
             event = (if time_type event = RELATIVE_RANGE_TIME
               then event\<lparr>time_usecs_end := time_usecs_end event + offset\<rparr> else event);
             event = (case ev_body event of
               SYSCALL_EVENT s \<Rightarrow> if time_type event = RELATIVE_TIME \<and> is_blocking_syscall s
                 then event\<lparr>ev_body := SYSCALL_EVENT (s\<lparr>end_usecs := end_usecs s + offset\<rparr>)\<rparr> else event
             | _ \<Rightarrow> event)
         in st\<lparr>st_events := (st_events st)[i := event]\<rparr>))"

subsection \<open>Waiting\<close>

definition MAX_SPIN_USECS :: int where "MAX_SPIN_USECS = 20"

text \<open>The loop reads the clock until the time has come, and sleeps while it is far away. \<open>fuel\<close> bounds the
  readings; \<open>None\<close> when it runs out.\<close>

fun wait_loop :: "world \<Rightarrow> nat \<Rightarrow> int \<Rightarrow> state \<Rightarrow> state option" where
  "wait_loop w 0 event_usecs st = None"
| "wait_loop w (Suc fuel) event_usecs st =
     (let (now, st) = now_usecs w st; wait_usecs = event_usecs - now in
      if wait_usecs \<le> 0 then Some st
      else wait_loop w fuel event_usecs
        (if 0 < num_events st \<and> MAX_SPIN_USECS < wait_usecs
         then st\<lparr>st_sleeps := st_sleeps st @ [wait_usecs - MAX_SPIN_USECS]\<rparr> else st))"

definition wait_for_event :: "world \<Rightarrow> nat \<Rightarrow> state \<Rightarrow> state run option" where
  "wait_for_event w fuel st =
     (case current_event st of
        Oob \<Rightarrow> Some Oob | Die \<Rightarrow> Some Die
      | Done event \<Rightarrow>
          (case wait_loop w fuel (script_time_to_live_time_usecs st (time_usecs event)) st of
             None \<Rightarrow> None
           | Some st \<Rightarrow> Some (if 0 < num_events st
               then (let (now, st) = now_usecs w st in rbind (check_event_time st now) (\<lambda>_. Done st))
               else Done st)))"

subsection \<open>The next event\<close>

text \<open>The second half, which checks the event that was reached.\<close>

definition check_event_order :: "state \<Rightarrow> (string option \<times> state) run" where
  "check_event_order st = (case st_event st of
     None \<Rightarrow> Done (None, st)
   | Some i \<Rightarrow>
       (let event = st_events st ! i in
        check (ev_body event \<noteq> INVALID_EVENT)
        (case last_event st of
           Some l \<Rightarrow> if is_event_time_absolute l \<and> is_event_time_absolute event \<and>
               time_usecs event < script_last_time_usecs st
             then Done (Some (cfg_script_path (st_config st) @ '':'' @ dec_int (line_number event) @
               '': time goes backward in script from '' @ dec_int (script_last_time_usecs st) @ '' usec to '' @
               dec_int (time_usecs event) @ '' usec'' @ [CHR 0x0A]), st)
             else Done (None, st)
         | None \<Rightarrow> Done (None, st))))"

text \<open>The message of an error, and the state; a script without events makes the first call fault.\<close>

definition get_next_event :: "state \<Rightarrow> (string option \<times> state) run" where
  "get_next_event st = (case st_event st of
     None \<Rightarrow> (if st_events st = [] then Oob
       else (let first = st_events st ! 0;
                 st = st\<lparr>st_event := Some 0, script_start_time_usecs := time_usecs first\<rparr>
             in if time_usecs first \<noteq> 0
                then Done (Some (cfg_script_path (st_config st) @ '':'' @ dec_int (line_number first) @
                  '': first event should be at time 0'' @ [CHR 0x0A]), st)
                else check_event_order st))
   | Some i \<Rightarrow> (if length (st_events st) \<le> i then Oob
       else check_event_order (st\<lparr>script_last_time_usecs := time_usecs (st_events st ! i), st_last_event := Some i,
         st_event := (if Suc i < length (st_events st) then Some (Suc i) else None)\<rparr>)))"

subsection \<open>Waiting ends\<close>

text \<open>The sleeps that the loop makes while the readings \<open>n, \<dots>, n + k - 1\<close> of the clock are before the time.\<close>

definition sleeps_before :: "world \<Rightarrow> int \<Rightarrow> nat \<Rightarrow> nat \<Rightarrow> int list" where
  "sleeps_before w event_usecs n k =
     map (\<lambda>now. event_usecs - now - MAX_SPIN_USECS)
       (filter (\<lambda>now. MAX_SPIN_USECS < event_usecs - now) (map (w_clock w) [n..<n + k]))"

lemma sleeps_before_Suc:
  "sleeps_before w t n (Suc k) =
     (if MAX_SPIN_USECS < t - w_clock w n then [t - w_clock w n - MAX_SPIN_USECS] else []) @ sleeps_before w t (Suc n) k"
  by (simp add: sleeps_before_def upt_conv_Cons del: upt_Suc)

text \<open>The state after a wait that read the clock \<open>k\<close> times before the time had come.\<close>

definition waited :: "world \<Rightarrow> int \<Rightarrow> nat \<Rightarrow> state \<Rightarrow> state" where
  "waited w event_usecs k st = st\<lparr>st_reads := st_reads st + Suc k,
     st_sleeps := st_sleeps st @ (if 0 < num_events st then sleeps_before w event_usecs (st_reads st) k else [])\<rparr>"

lemma wait_loop_first:
  assumes "k < fuel" "t \<le> w_clock w (st_reads st + k)" "\<forall>j < k. w_clock w (st_reads st + j) < t"
  shows "wait_loop w fuel t st = Some (waited w t k st)"
  using assms
proof (induction k arbitrary: fuel st)
  case 0
  then show ?case by (cases fuel) (auto simp: waited_def sleeps_before_def now_usecs_def)
next
  case (Suc k)
  then obtain f where f: "fuel = Suc f" by (cases fuel) auto
  let ?now = "w_clock w (st_reads st)"
  define st' where "st' = (let s = st\<lparr>st_reads := Suc (st_reads st)\<rparr> in
    if 0 < num_events st \<and> MAX_SPIN_USECS < t - ?now then s\<lparr>st_sleeps := st_sleeps st @ [t - ?now - MAX_SPIN_USECS]\<rparr> else s)"
  have r: "st_reads st' = Suc (st_reads st)" by (simp add: st'_def Let_def)
  have "wait_loop w f t st' = Some (waited w t k st')"
  proof (rule Suc.IH)
    show "\<forall>j < k. w_clock w (st_reads st' + j) < t"
      using Suc.prems(3) r by (metis Suc_less_eq add_Suc_shift)
  qed (use Suc.prems f r in auto)
  moreover have "waited w t k st' = waited w t (Suc k) st"
    by (rule state.equality) (simp_all add: waited_def st'_def Let_def sleeps_before_Suc)
  moreover have "?now < t" using Suc.prems(3) by force
  ultimately show ?case using f by (auto simp: now_usecs_def st'_def Let_def split: if_splits)
qed

lemma wait_loop_None:
  assumes "\<forall>j < fuel. w_clock w (st_reads st + j) < t"
  shows "wait_loop w fuel t st = None"
  using assms
proof (induction fuel arbitrary: st)
  case (Suc fuel)
  have "w_clock w (st_reads st) < t" using Suc.prems by force
  moreover have "wait_loop w fuel t s = None" if "st_reads s = Suc (st_reads st)" for s
    using Suc.prems that by (intro Suc.IH) auto
  ultimately show ?case by (auto simp: now_usecs_def)
qed simp

subsection \<open>Times that are accepted\<close>

text \<open>The specification: on the time line of the script the event lies in its interval, give or take the
  tolerance.\<close>

definition within_tolerance :: "state \<Rightarrow> event_time_t \<Rightarrow> int \<Rightarrow> int \<Rightarrow> int \<Rightarrow> bool" where
  "within_tolerance st tt from_usecs to_usecs live_usecs \<longleftrightarrow> tt = ANY_TIME \<or>
     (let t = live_time_to_script_time_usecs st live_usecs;
          to_usecs = (if tt = ABSOLUTE_RANGE_TIME \<or> tt = RELATIVE_RANGE_TIME then to_usecs else from_usecs)
      in from_usecs - tolerance_usecs (st_config st) \<le> t \<and> t \<le> to_usecs + tolerance_usecs (st_config st))"

lemma verify_time_within:
  "verify_time st tt from_usecs to_usecs live_usecs d = Done None \<longleftrightarrow> within_tolerance st tt from_usecs to_usecs live_usecs"
proof (cases tt)
  case RELATIVE_RANGE_TIME
  then show ?thesis
    by (cases "current_event st") (auto simp: verify_time_def within_tolerance_def live_time_to_script_time_usecs_def Let_def)
qed (auto simp: verify_time_def within_tolerance_def live_time_to_script_time_usecs_def Let_def)

lemma check_event_time_within:
  assumes "current_event st = Done event" "event_description event = Done d"
  shows "check_event_time st live_usecs =
    (if within_tolerance st (time_type event) (time_usecs event) (time_usecs_end event) live_usecs then Done () else Die)"
proof -
  obtain r where r: "verify_time st (time_type event) (time_usecs event) (time_usecs_end event) live_usecs d = Done r"
    using assms(1)
    by (cases "verify_time st (time_type event) (time_usecs event) (time_usecs_end event) live_usecs d")
      (auto simp: verify_time_def Let_def split: if_splits)
  then show ?thesis using assms
    verify_time_within [of st "time_type event" "time_usecs event" "time_usecs_end event" live_usecs d]
    by (cases r) (auto simp: check_event_time_def)
qed

lemma wait_for_event_first:
  assumes "current_event st = Done event" "event_description event = Done d"
    "t = script_time_to_live_time_usecs st (time_usecs event)"
    "k < fuel" "t \<le> w_clock w (st_reads st + k)" "\<forall>j < k. w_clock w (st_reads st + j) < t"
  shows "wait_for_event w fuel st = Some
    (if num_events st = 0 then Done (waited w t k st)
     else if within_tolerance st (time_type event) (time_usecs event) (time_usecs_end event) (w_clock w (st_reads st + Suc k))
     then Done ((waited w t k st)\<lparr>st_reads := st_reads st + Suc (Suc k)\<rparr>) else Die)"
proof -
  define st' where "st' = (waited w t k st)\<lparr>st_reads := st_reads st + Suc (Suc k)\<rparr>"
  have c: "current_event st' = Done event" using assms(1)
    by (cases "st_event st") (auto simp: current_event_def st'_def waited_def split: if_splits)
  have "within_tolerance st' = within_tolerance st"
    by (intro ext) (simp add: within_tolerance_def live_time_to_script_time_usecs_def st'_def waited_def)
  then have ch: "check_event_time st' l =
    (if within_tolerance st (time_type event) (time_usecs event) (time_usecs_end event) l then Done () else Die)" for l
    using check_event_time_within [OF c assms(2)] by simp
  have "wait_loop w fuel t st = Some (waited w t k st)" using assms by (intro wait_loop_first)
  moreover have "now_usecs w (waited w t k st) = (w_clock w (st_reads st + Suc k), st')"
    by (simp add: now_usecs_def st'_def waited_def)
  moreover have "num_events (waited w t k st) = num_events st" by (simp add: waited_def)
  ultimately show ?thesis using assms(1) ch by (auto simp: wait_for_event_def assms(3) [symmetric] st'_def)
qed

text \<open>C18: The wait for an event returns as soon as a reading of the clock has reached the live time of the event,
  never at an earlier reading and for no other number of readings: when one of the first \<open>fuel\<close> readings
  has, it ends at the first that has; before it, each sleep ends 20 microseconds before the time, and it does
  not sleep before the first event. It then stops the process exactly when the next reading is not within the
  tolerance of the event's time or range.\<close>
theorem wait_for_event_returns:
  assumes "current_event st = Done event" "event_description event = Done d"
    "t = script_time_to_live_time_usecs st (time_usecs event)"
    "i < fuel" "t \<le> w_clock w (st_reads st + i)"
  shows "\<exists>k \<le> i. t \<le> w_clock w (st_reads st + k) \<and> (\<forall>j < k. w_clock w (st_reads st + j) < t) \<and>
    wait_for_event w fuel st = Some
      (if num_events st = 0 then Done (waited w t k st)
       else if within_tolerance st (time_type event) (time_usecs event) (time_usecs_end event) (w_clock w (st_reads st + Suc k))
       then Done ((waited w t k st)\<lparr>st_reads := st_reads st + Suc (Suc k)\<rparr>) else Die)"
proof -
  define k where "k = (LEAST k. t \<le> w_clock w (st_reads st + k))"
  have k: "t \<le> w_clock w (st_reads st + k)" "k \<le> i"
    unfolding k_def using assms(5) by (auto intro: LeastI Least_le)
  moreover have "\<forall>j < k. w_clock w (st_reads st + j) < t" unfolding k_def using not_less_Least by force
  ultimately show ?thesis using wait_for_event_first [OF assms(1-3), of k fuel w] assms(4) by fastforce
qed

definition test_world :: world where
  "test_world = \<lparr>w_clock = (\<lambda>n. 1000 + 40 * int n), w_receive = (\<lambda>_. Inl ''no packet''), w_port = (\<lambda>_. 4242),
     w_send = (\<lambda>_. STATUS_OK), w_fill = (\<lambda>_. 0), w_ntop = (\<lambda>_ _. None)\<rparr>"

definition test_event :: "int \<Rightarrow> event_time_t \<Rightarrow> event" where
  "test_event t tt = \<lparr>line_number = 1, time_usecs = t, time_usecs_end = t, offset_usecs = 0, time_type = tt,
     ev_body = COMMAND_EVENT ''true''\<rparr>"

definition test_state :: state where
  "test_state = \<lparr>st_config = set_default_config, st_events = [test_event 0 ABSOLUTE_TIME, test_event 100 ABSOLUTE_TIME],
     st_event = Some 1, st_last_event = Some 0, script_start_time_usecs = 0, script_last_time_usecs = 0,
     live_start_time_usecs = 1000, num_events = 1, st_sockets = [], socket_under_test = None,
     next_ephemeral_port = -1, st_reads = 0, st_sleeps = [], st_rx = 0, st_ports = 0, st_sent = []\<rparr>"

theorem wait_for_event_returns_witness:
  "\<exists>k \<le> 3. 1100 \<le> w_clock test_world k \<and> (\<forall>j < k. w_clock test_world j < 1100) \<and>
    wait_for_event test_world 10 test_state = Some
      (if num_events test_state = 0 then Done (waited test_world 1100 k test_state)
       else if within_tolerance test_state ABSOLUTE_TIME 100 100 (w_clock test_world (Suc k))
       then Done ((waited test_world 1100 k test_state)\<lparr>st_reads := Suc (Suc k)\<rparr>) else Die)"
proof -
  have 1: "current_event test_state = Done (test_event 100 ABSOLUTE_TIME)" by (simp add: current_event_def test_state_def)
  have 2: "event_description (test_event 100 ABSOLUTE_TIME) = Done ''command''"
    by (simp add: event_description_def test_event_def)
  have 3: "1100 = script_time_to_live_time_usecs test_state (time_usecs (test_event 100 ABSOLUTE_TIME))"
    by (simp add: script_time_to_live_time_usecs_def test_state_def test_event_def)
  have 4: "(1100 :: int) \<le> w_clock test_world (st_reads test_state + 3)" by (simp add: test_world_def test_state_def)
  have 5: "st_reads test_state = 0" by (simp add: test_state_def)
  have 6: "time_type (test_event 100 ABSOLUTE_TIME) = ABSOLUTE_TIME" "time_usecs (test_event 100 ABSOLUTE_TIME) = 100"
    "time_usecs_end (test_event 100 ABSOLUTE_TIME) = 100" by (simp_all add: test_event_def)
  note w = wait_for_event_returns [OF 1 2 3 _ 4, where fuel = 10]
  have 7: "(3 :: nat) < 10" by simp
  note w = w [OF 7]
  show ?thesis using w unfolding 5 6 add_0 .
qed

subsection \<open>The order of events\<close>

lemma check_event_order_ok:
  assumes "check_event_order st = Done (None, st')"
  shows "st' = st \<and> (\<forall>i. st_event st = Some i \<longrightarrow> ev_body (st_events st ! i) \<noteq> INVALID_EVENT \<and>
    (\<forall>l. last_event st = Some l \<longrightarrow> is_event_time_absolute l \<longrightarrow> is_event_time_absolute (st_events st ! i) \<longrightarrow>
      script_last_time_usecs st \<le> time_usecs (st_events st ! i)))"
  using assms by (cases "last_event st") (auto simp: check_event_order_def Let_def run_simps split: option.splits if_splits)

lemma get_next_event_Some:
  assumes "get_next_event st = Done (None, st')" "st_event st' = Some i"
  shows "i < length (st_events st') \<and> ev_body (st_events st' ! i) \<noteq> INVALID_EVENT \<and>
    (case st_event st of
       None \<Rightarrow> i = 0 \<and> time_usecs (st_events st' ! 0) = 0 \<and> script_start_time_usecs st' = 0
     | Some j \<Rightarrow> i = Suc j \<and> st_last_event st' = Some j \<and> script_last_time_usecs st' = time_usecs (st_events st' ! j) \<and>
         (is_event_time_absolute (st_events st' ! j) \<and> is_event_time_absolute (st_events st' ! i) \<longrightarrow>
            time_usecs (st_events st' ! j) \<le> time_usecs (st_events st' ! i)))"
proof (cases "st_event st")
  case None
  then show ?thesis using assms
    by (auto simp: get_next_event_def Let_def split: if_splits dest!: check_event_order_ok)
next
  case (Some j)
  then show ?thesis using assms
    by (auto simp: get_next_event_def Let_def last_event_def split: if_splits dest!: check_event_order_ok)
qed

text \<open>C19: When the step to the next event succeeds and there is one, it is the event that follows the last one in
  the script, or the first event, which is at time 0; it is of a valid type; and two neighbours with absolute
  times are in the order of their times.\<close>
theorem get_next_event_order:
  assumes "get_next_event st = Done (None, st')" "st_event st' = Some i"
  shows "i < length (st_events st') \<and> ev_body (st_events st' ! i) \<noteq> INVALID_EVENT \<and>
    (case st_event st of
       None \<Rightarrow> i = 0 \<and> time_usecs (st_events st' ! 0) = 0 \<and> script_start_time_usecs st' = 0
     | Some j \<Rightarrow> i = Suc j \<and> st_last_event st' = Some j \<and> script_last_time_usecs st' = time_usecs (st_events st' ! j) \<and>
         (is_event_time_absolute (st_events st' ! j) \<and> is_event_time_absolute (st_events st' ! i) \<longrightarrow>
            time_usecs (st_events st' ! j) \<le> time_usecs (st_events st' ! i)))"
  using assms by (rule get_next_event_Some)

theorem get_next_event_order_witness:
  "\<exists>st'. get_next_event (test_state\<lparr>st_event := Some 0\<rparr>) = Done (None, st') \<and> st_event st' = Some 1 \<and>
    st_last_event st' = Some 0 \<and> time_usecs (st_events st' ! 0) \<le> time_usecs (st_events st' ! 1)"
proof -
  define s where "s = test_state\<lparr>st_event := Some 0\<rparr>"
  define s' where "s' = test_state\<lparr>st_event := Some 1, st_last_event := Some 0\<rparr>"
  have e: "st_events s' = [test_event 0 ABSOLUTE_TIME, test_event 100 ABSOLUTE_TIME]" by (simp add: s'_def test_state_def)
  have 1: "get_next_event s = Done (None, s')"
    by (simp add: get_next_event_def check_event_order_def last_event_def s_def s'_def test_state_def test_event_def Let_def)
  have 2: "st_event s' = Some 1" by (simp add: s'_def)
  have 3: "st_event s = Some 0" by (simp add: s_def)
  show ?thesis using get_next_event_order [OF 1 2] 1 2
    by (auto simp: 3 s_def [symmetric] e is_event_time_absolute_def test_event_def)
qed

end
