(* ===== verification/PacketVerify.thy ===== *)
theory PacketVerify
  imports PacketMapping RunTiming
begin

section \<open>Verifying a sniffed packet\<close>

text \<open>
  The model of the checks of \<^verbatim>\<open>run_packet.c\<close> on an outbound packet: checksum, the headers layer by layer,
  the flow label, TCP options, payload and time. A check answers \<open>None\<close> for \<^verbatim>\<open>STATUS_OK\<close> and the error
  message otherwise; the later checks of a sequence run only when the earlier ones succeed.
\<close>

unbundle bit_operations_syntax

type_synonym verdict = "string option run"

definition vthen :: "verdict \<Rightarrow> verdict \<Rightarrow> verdict" where
  "vthen a b = rbind a (\<lambda>err. case err of Some e \<Rightarrow> Done (Some e) | None \<Rightarrow> b)"

text \<open>A list of checks, in order.\<close>

definition vall :: "verdict list \<Rightarrow> verdict" where
  "vall vs = foldr vthen vs (Done None)"

subsection \<open>Fields\<close>

definition ipv4_version :: "bytes \<Rightarrow> nat \<Rightarrow> u8 run" where
  "ipv4_version buf p = rbind (ld8 buf p) (\<lambda>b. Done (drop_bit 4 b))"

definition ipv4_ihl :: "bytes \<Rightarrow> nat \<Rightarrow> u8 run" where
  "ipv4_ihl buf p = rbind (ld8 buf p) (\<lambda>b. Done (b AND 0xf))"

definition ipv4_tos_byte :: "bytes \<Rightarrow> nat \<Rightarrow> u8 run" where "ipv4_tos_byte buf p = ld8 buf (p + 1)"
definition ipv4_ttl_byte :: "bytes \<Rightarrow> nat \<Rightarrow> u8 run" where "ipv4_ttl_byte buf p = ld8 buf (p + 8)"

text \<open>Byte 0 of an IPv6 header: version and upper half of the traffic class; byte 1: its lower half and the
  upper bits of the flow label.\<close>

definition ipv6_tos_byte :: "bytes \<Rightarrow> nat \<Rightarrow> u8 run" where
  "ipv6_tos_byte buf p = rbind (ld8 buf p) (\<lambda>a. rbind (ld8 buf (p + 1)) (\<lambda>b.
     Done (push_bit 4 (a AND 0xf) OR drop_bit 4 b)))"

definition ipv6_flow_label :: "bytes \<Rightarrow> nat \<Rightarrow> u32 run" where
  "ipv6_flow_label buf p = rbind (ld_be16 buf (p + 2)) (\<lambda>lo. rbind (ld8 buf (p + 1)) (\<lambda>b.
     Done (ucast lo OR push_bit 16 (ucast (b AND 0xf)))))"

definition ipv6_hoplimit_byte :: "bytes \<Rightarrow> nat \<Rightarrow> u8 run" where "ipv6_hoplimit_byte buf p = ld8 buf (p + 7)"

definition IP_ECN_MASK :: u8 where "IP_ECN_MASK = 3"
definition IP_ECN_ECT1 :: u8 where "IP_ECN_ECT1 = 1"
definition IP_ECN_ECT0 :: u8 where "IP_ECN_ECT0 = 2"
definition ECN_ECT01 :: u8 where "ECN_ECT01 = 4"

text \<open>Expected against actual value.\<close>

definition check_field :: "string \<Rightarrow> u32 \<Rightarrow> u32 \<Rightarrow> verdict" where
  "check_field name expected actual =
     (if actual \<noteq> expected
      then Done (Some (''live packet field '' @ name @ '': expected: '' @ dec (unat expected) @ '' (0x'' @
        hex (unat expected) @ '') vs actual: '' @ dec (unat actual) @ '' (0x'' @ hex (unat actual) @ '')''))
      else Done None)"

text \<open>The same accessor on the script and on the actual packet; what it reads is widened to 32 bits.\<close>

definition check_both :: "string \<Rightarrow> ('a \<Rightarrow> u32) \<Rightarrow> 'a run \<Rightarrow> 'a run \<Rightarrow> verdict" where
  "check_both name f script actual = rbind script (\<lambda>s. rbind actual (\<lambda>a. check_field name (f s) (f a)))"

definition of_flag :: "bool \<Rightarrow> u32" where
  "of_flag b = (if b then 1 else 0)"

subsection \<open>Checksum, TOS and TTL\<close>

definition verify_outbound_live_checksums :: "packet \<Rightarrow> verdict" where
  "verify_outbound_live_checksums live_packet = (case p_ipv4 live_packet of
     None \<Rightarrow> Done None
   | Some p \<Rightarrow> rbind (ipv4_ihl (p_buffer live_packet) p) (\<lambda>ihl.
       rbind (ld_bytes (p_buffer live_packet) p (unat ihl * 4)) (\<lambda>h.
         Done (if ipv4_checksum h \<noteq> 0 then Some ''bad outbound IP checksum'' else None))))"

definition verify_outbound_live_tos :: "tos_chk \<Rightarrow> u8 \<Rightarrow> u8 \<Rightarrow> verdict" where
  "verify_outbound_live_tos tos_chk actual_tos_byte script_tos_byte =
     (case tos_chk of
        TOS_CHECK_ECN \<Rightarrow>
          (let actual_ecn_bits = actual_tos_byte AND IP_ECN_MASK in
           if script_tos_byte = ECN_ECT01
           then (if actual_ecn_bits \<noteq> IP_ECN_ECT0 \<and> actual_ecn_bits \<noteq> IP_ECN_ECT1
             then Done (Some (''live packet field ip_ecn: expected: 0x1 or 0x2 vs actual: 0x'' @ hex (unat actual_ecn_bits)))
             else Done None)
           else check_field ''ip_ecn'' (ucast script_tos_byte) (ucast actual_ecn_bits))
      | TOS_CHECK_TOS \<Rightarrow> check_field ''tos'' (ucast script_tos_byte) (ucast actual_tos_byte)
      | TOS_CHECK_NONE \<Rightarrow> Done None)"

definition verify_outbound_live_ttl_or_hl :: "u8 \<Rightarrow> u8 \<Rightarrow> verdict" where
  "verify_outbound_live_ttl_or_hl actual_ttl_byte script_ttl_byte =
     (if script_ttl_byte \<noteq> TTL_CHECK_NONE then check_field ''ttl'' (ucast script_ttl_byte) (ucast actual_ttl_byte)
      else Done None)"

definition tcp_options_allowance :: "packet \<Rightarrow> packet \<Rightarrow> int run" where
  "tcp_options_allowance actual_packet script_packet =
     (if p_flags script_packet AND FLAG_OPTIONS_NOCHECK \<noteq> 0 then packet_tcp_options_len actual_packet else Done 0)"

subsection \<open>Headers\<close>

text \<open>A check that runs only when \<open>strict\<close>.\<close>

definition if_strict :: "bool \<Rightarrow> verdict \<Rightarrow> verdict" where
  "if_strict strict v = (if strict then v else Done None)"

text \<open>The header of the layer in both packets.\<close>

definition with_headers :: "packet \<Rightarrow> packet \<Rightarrow> nat \<Rightarrow> (bytes \<Rightarrow> nat \<Rightarrow> bytes \<Rightarrow> nat \<Rightarrow> verdict) \<Rightarrow> verdict" where
  "with_headers actual_packet script_packet layer f =
     rbind (header_at actual_packet layer) (\<lambda>a. rbind (header_at script_packet layer) (\<lambda>s.
       f (p_buffer actual_packet) a (p_buffer script_packet) s))"

definition verify_ipv4 :: "packet \<Rightarrow> packet \<Rightarrow> nat \<Rightarrow> bool \<Rightarrow> verdict" where
  "verify_ipv4 actual_packet script_packet layer strict =
     with_headers actual_packet script_packet layer (\<lambda>ab a sb s. vall [
       check_both ''ipv4_version'' ucast (ipv4_version sb s) (ipv4_version ab a),
       check_both ''ipv4_protocol'' ucast (ld8 sb (s + 9)) (ld8 ab (a + 9)),
       check_both ''ipv4_header_length'' ucast (ipv4_ihl sb s) (ipv4_ihl ab a),
       if_strict strict (rbind (ld_be16 sb (s + 2)) (\<lambda>st. rbind (tcp_options_allowance actual_packet script_packet) (\<lambda>al.
         rbind (ld_be16 ab (a + 2)) (\<lambda>at. check_field ''ipv4_total_length'' (ucast st + word_of_int al) (ucast at))))),
       rbind (ipv4_tos_byte ab a) (\<lambda>at. rbind (ipv4_tos_byte sb s) (\<lambda>st.
         verify_outbound_live_tos (p_tos_chk script_packet) at st)),
       rbind (ipv4_ttl_byte ab a) (\<lambda>at. rbind (ipv4_ttl_byte sb s) (\<lambda>st. verify_outbound_live_ttl_or_hl at st))])"

definition verify_ipv6 :: "packet \<Rightarrow> packet \<Rightarrow> nat \<Rightarrow> bool \<Rightarrow> verdict" where
  "verify_ipv6 actual_packet script_packet layer strict =
     with_headers actual_packet script_packet layer (\<lambda>ab a sb s. vall [
       check_both ''ipv6_version'' ucast (ipv4_version sb s) (ipv4_version ab a),
       if_strict strict (rbind (ld_be16 sb (s + 4)) (\<lambda>st. rbind (tcp_options_allowance actual_packet script_packet) (\<lambda>al.
         rbind (ld_be16 ab (a + 4)) (\<lambda>at. check_field ''ipv6_payload_len'' (ucast st + word_of_int al) (ucast at))))),
       check_both ''ipv6_next_header'' ucast (ld8 sb (s + 6)) (ld8 ab (a + 6)),
       rbind (ipv6_tos_byte ab a) (\<lambda>at. rbind (ipv6_tos_byte sb s) (\<lambda>st.
         verify_outbound_live_tos (p_tos_chk script_packet) at st)),
       rbind (ipv6_hoplimit_byte ab a) (\<lambda>at. rbind (ipv6_hoplimit_byte sb s) (\<lambda>st. verify_outbound_live_ttl_or_hl at st))])"

definition tcp_doff :: "bytes \<Rightarrow> nat \<Rightarrow> u8 run" where
  "tcp_doff buf p = rbind (ld8 buf (p + 12)) (\<lambda>b. Done (drop_bit 4 b))"

definition tcp_res1 :: "bytes \<Rightarrow> nat \<Rightarrow> u8 run" where
  "tcp_res1 buf p = rbind (ld8 buf (p + 12)) (\<lambda>b. Done (b AND 0xf))"

text \<open>The allowance is divided as an unsigned 64-bit number.\<close>

definition verify_tcp :: "packet \<Rightarrow> packet \<Rightarrow> nat \<Rightarrow> bool \<Rightarrow> verdict" where
  "verify_tcp actual_packet script_packet layer strict =
     with_headers actual_packet script_packet layer (\<lambda>ab a sb s.
     rbind (packet_payload_len script_packet) (\<lambda>script_payload_len. vall [
       rbind (tcp_doff sb s) (\<lambda>st. rbind (tcp_options_allowance actual_packet script_packet) (\<lambda>al. rbind (tcp_doff ab a) (\<lambda>at.
         check_field ''tcp_data_offset'' (ucast st + ucast ((word_of_int al :: u64) div 4)) (ucast at)))),
       if_strict strict (check_both ''tcp_fin'' of_flag (tcp_fin sb s) (tcp_fin ab a)),
       check_both ''tcp_syn'' of_flag (tcp_syn sb s) (tcp_syn ab a),
       check_both ''tcp_rst'' of_flag (tcp_rst sb s) (tcp_rst ab a),
       if_strict strict (check_both ''tcp_psh'' of_flag (tcp_psh sb s) (tcp_psh ab a)),
       check_both ''tcp_ack'' of_flag (tcp_ack sb s) (tcp_ack ab a),
       check_both ''tcp_urg'' of_flag (tcp_urg sb s) (tcp_urg ab a),
       check_both ''tcp_ece'' of_flag (tcp_ece sb s) (tcp_ece ab a),
       if_strict strict (check_both ''tcp_cwr'' of_flag (tcp_cwr sb s) (tcp_cwr ab a)),
       check_both ''tcp_reserved_bits'' ucast (tcp_res1 sb s) (tcp_res1 ab a),
       if_strict strict (check_both ''tcp_seq'' (\<lambda>x. x) (ld_be32 sb (s + 4)) (ld_be32 ab (a + 4))),
       if_strict (\<not> strict) (rbind (ld_be32 sb (s + 4)) (\<lambda>st. rbind (ld_be32 ab (a + 4)) (\<lambda>at.
         check_field ''tcp_seq'' (st + word_of_int script_payload_len) at))),
       check_both ''tcp_ack_seq'' (\<lambda>x. x) (ld_be32 sb (s + 8)) (ld_be32 ab (a + 8)),
       if_strict (p_flags script_packet AND FLAG_WIN_NOCHECK = 0)
         (check_both ''tcp_window'' ucast (ld_be16 sb (s + 14)) (ld_be16 ab (a + 14))),
       check_both ''tcp_urg_ptr'' ucast (ld_be16 sb (s + 18)) (ld_be16 ab (a + 18))]))"

definition verify_udp :: "packet \<Rightarrow> packet \<Rightarrow> nat \<Rightarrow> bool \<Rightarrow> verdict" where
  "verify_udp actual_packet script_packet layer strict =
     with_headers actual_packet script_packet layer (\<lambda>ab a sb s.
       if_strict strict (check_both ''udp_len'' ucast (ld_be16 sb (s + 4)) (ld_be16 ab (a + 4))))"

text \<open>Equal bytes at an offset of both headers.\<close>

definition same_bytes :: "string \<Rightarrow> bytes \<Rightarrow> nat \<Rightarrow> bytes \<Rightarrow> nat \<Rightarrow> nat \<Rightarrow> verdict" where
  "same_bytes msg sb s ab a n = rbind (ld_bytes sb s n) (\<lambda>x. rbind (ld_bytes ab a n) (\<lambda>y.
     Done (if x \<noteq> y then Some msg else None)))"

definition gre_len_at :: "bytes \<Rightarrow> nat \<Rightarrow> nat run" where
  "gre_len_at buf p = rbind (ld8 buf p) (\<lambda>f. rbind (ld8 buf (p + 1)) (\<lambda>v. gre_len f v))"

definition verify_gre :: "packet \<Rightarrow> packet \<Rightarrow> nat \<Rightarrow> bool \<Rightarrow> verdict" where
  "verify_gre actual_packet script_packet layer strict =
     with_headers actual_packet script_packet layer (\<lambda>ab a sb s.
     vthen (check_both ''gre_len'' word_of_nat (gre_len_at sb s) (gre_len_at ab a))
     (vthen (same_bytes ''mismatch in GRE flags'' sb s ab a 2)
     (vthen (same_bytes ''mismatch in GRE proto'' sb (s + 2) ab (a + 2) 2)
     (rbind (ld8 sb s) (\<lambda>flags.
      let csum = (bit flags 7 \<or> bit flags 6);
          i = (if csum then 1 else 0 :: nat);
          j = (if bit flags 5 then i + 1 else i)
      in vall [
        if_strict csum (same_bytes ''mismatch in GRE sum'' sb (s + 4) ab (a + 4) 2),
        if_strict csum (same_bytes ''mismatch in GRE off'' sb (s + 6) ab (a + 6) 2),
        if_strict (bit flags 5) (same_bytes ''mismatch in GRE key'' sb (s + 4 + 4 * i) ab (a + 4 + 4 * i) 4),
        if_strict (bit flags 4) (same_bytes ''mismatch in GRE seq'' sb (s + 4 + 4 * j) ab (a + 4 + 4 * j) 4)])))))"

definition verify_mpls :: "packet \<Rightarrow> packet \<Rightarrow> nat \<Rightarrow> bool \<Rightarrow> verdict" where
  "verify_mpls actual_packet script_packet layer strict =
     (let ah = p_headers actual_packet ! layer; sh = p_headers script_packet ! layer in
      if header_bytes sh \<noteq> header_bytes ah then Done (Some ''mismatch in MPLS label stack depth'')
      else with_headers actual_packet script_packet layer (\<lambda>ab a sb s.
        vall (map (\<lambda>i. same_bytes (''mismatch in MPLS label '' @ dec i) sb (s + 4 * i) ab (a + 4 * i) 4)
          [0..<header_bytes sh div 4])))"

text \<open>The functions for ICMPv4 and ICMPv6 are the same up to the names of the types.\<close>

definition verify_icmpv4 :: "packet \<Rightarrow> packet \<Rightarrow> nat \<Rightarrow> bool \<Rightarrow> verdict" where
  "verify_icmpv4 actual_packet script_packet layer strict =
     with_headers actual_packet script_packet layer (\<lambda>ab a sb s. vall [
       check_both ''icmp_type'' ucast (ld8 sb s) (ld8 ab a),
       check_both ''icmp_code'' ucast (ld8 sb (s + 1)) (ld8 ab (a + 1))])"

definition verify_icmpv6 :: "packet \<Rightarrow> packet \<Rightarrow> nat \<Rightarrow> bool \<Rightarrow> verdict" where
  "verify_icmpv6 actual_packet script_packet layer strict =
     with_headers actual_packet script_packet layer (\<lambda>ab a sb s. vall [
       check_both ''icmp_type'' ucast (ld8 sb s) (ld8 ab a),
       check_both ''icmp_code'' ucast (ld8 sb (s + 1)) (ld8 ab (a + 1))])"

fun verifier :: "header_t \<Rightarrow> packet \<Rightarrow> packet \<Rightarrow> nat \<Rightarrow> bool \<Rightarrow> verdict" where
  "verifier HEADER_IPV4 = verify_ipv4"
| "verifier HEADER_IPV6 = verify_ipv6"
| "verifier HEADER_GRE = verify_gre"
| "verifier HEADER_MPLS = verify_mpls"
| "verifier HEADER_TCP = verify_tcp"
| "verifier HEADER_UDP = verify_udp"
| "verifier HEADER_ICMPV4 = verify_icmpv4"
| "verifier HEADER_ICMPV6 = verify_icmpv6"
| "verifier HEADER_NONE = (\<lambda>_ _ _ _. Die)"

definition verify_header :: "packet \<Rightarrow> packet \<Rightarrow> nat \<Rightarrow> bool \<Rightarrow> verdict" where
  "verify_header actual_packet script_packet layer strict =
     (let ah = p_headers actual_packet ! layer; sh = p_headers script_packet ! layer in
      if h_type sh \<noteq> h_type ah
      then rbind (header_type_info (h_type sh)) (\<lambda>(s_name, _, _). rbind (header_type_info (h_type ah)) (\<lambda>(a_name, _, _).
        Done (Some (''live packet header layer '' @ dec layer @ '': expected: '' @ s_name @ '' header vs actual: '' @
          a_name @ '' header''))))
      else verifier (h_type sh) actual_packet script_packet layer strict)"

text \<open>The loop over the layers from \<open>i\<close>; the number of entries left is the fuel.\<close>

fun verify_layers :: "nat \<Rightarrow> nat \<Rightarrow> packet \<Rightarrow> packet \<Rightarrow> bool \<Rightarrow> verdict" where
  "verify_layers 0 i actual_packet script_packet strict = Done None"
| "verify_layers (Suc k) i actual_packet script_packet strict =
     (if h_type (p_headers script_packet ! i) = HEADER_NONE then Done None
      else vthen (verify_header actual_packet script_packet i strict)
        (verify_layers k (Suc i) actual_packet script_packet strict))"

definition verify_outbound_live_headers :: "packet \<Rightarrow> packet \<Rightarrow> bool \<Rightarrow> verdict" where
  "verify_outbound_live_headers actual_packet script_packet strict =
     (let actual_headers = packet_header_count actual_packet;
          script_headers = packet_header_count script_packet
      in check (p_ipv4 actual_packet \<noteq> None \<or> p_ipv6 actual_packet \<noteq> None)
        (check (p_tcp actual_packet \<noteq> None \<or> p_udp actual_packet \<noteq> None \<or> p_icmpv4 actual_packet \<noteq> None \<or>
            p_icmpv6 actual_packet \<noteq> None)
        (if actual_headers \<noteq> script_headers
         then Done (Some ((if strict then ''live'' else ''aggregate candidate'') @ '' packet header layers: expected: '' @
           dec script_headers @ '' headers vs actual: '' @ dec actual_headers @ '' headers''))
         else verify_layers (length (p_headers script_packet)) 0 actual_packet script_packet strict)))"

subsection \<open>Flow label, options and payload\<close>

definition verify_outbound_live_ipv6_flowlabel :: "socket \<Rightarrow> packet \<Rightarrow> packet \<Rightarrow> (socket \<times> string option) run" where
  "verify_outbound_live_ipv6_flowlabel socket actual_packet script_packet =
     (case (p_ipv6 script_packet, p_ipv6 actual_packet) of (Some s, Some a) \<Rightarrow>
        rbind (ipv6_flow_label (p_buffer script_packet) s) (\<lambda>script_flowlabel.
        rbind (ipv6_flow_label (p_buffer actual_packet) a) (\<lambda>live_flowlabel.
        let m = sk_flowlabel_map socket;
            m' = \<lparr>flowlabel_script = script_flowlabel, flowlabel_live = live_flowlabel\<rparr>
        in Done (if script_flowlabel = 0 then (socket, None)
          else if live_flowlabel = 0 then (socket, Some ''flowlabel unmarked in the live packet'')
          else if flowlabel_script m = 0 then (socket\<lparr>sk_flowlabel_map := m'\<rparr>, None)
          else if script_flowlabel \<noteq> flowlabel_script m
          then (if live_flowlabel \<noteq> flowlabel_live m then (socket\<lparr>sk_flowlabel_map := m'\<rparr>, None)
            else (socket, Some ''expected a different flowlabel but got the same''))
          else (if live_flowlabel = flowlabel_live m then (socket, None)
            else (socket, Some (''inconsistent flowlabels for this packet: expected: 0x'' @
              hex (unat (flowlabel_live m)) @ '' vs actual: 0x'' @ hex (unat live_flowlabel)))))))
      | _ \<Rightarrow> Oob)"

text \<open>The deviation is computed in 32 bits and wraps around.\<close>

definition ts_deviation :: "u32 \<Rightarrow> u32 \<Rightarrow> int \<Rightarrow> int" where
  "ts_deviation actual_ts_val script_ts_val tick =
     sint (word_of_int (\<bar>sint (actual_ts_val - script_ts_val)\<bar> * tick) :: u32)"

definition verify_outbound_tcp_option :: "config \<Rightarrow> packet \<Rightarrow> packet \<Rightarrow> nat \<Rightarrow> nat \<Rightarrow> verdict" where
  "verify_outbound_tcp_option config actual_packet script_packet a_opt s_opt =
     rbind (ld8 (p_buffer actual_packet) a_opt) (\<lambda>kind.
       if kind = TCPOPT_EOL \<or> kind = TCPOPT_NOP then Done None
       else if kind = TCPOPT_TIMESTAMP
       then rbind (packet_tcp_ts_val script_packet) (\<lambda>script_ts_val. rbind (packet_tcp_ts_val actual_packet) (\<lambda>actual_ts_val.
         let tick = tcp_ts_tick_usecs config in
         Done (if tick \<noteq> 0 \<and> tolerance_usecs config < ts_deviation actual_ts_val script_ts_val tick
           then Some (''bad outbound TCP timestamp value, tolerance '' @ dec_int (tolerance_usecs config)) else None)))
       else rbind (ld8 (p_buffer script_packet) s_opt) (\<lambda>s_kind.
         rbind (ld8 (p_buffer script_packet) (s_opt + 1)) (\<lambda>s_len. rbind (ld8 (p_buffer actual_packet) (a_opt + 1)) (\<lambda>a_len.
         if s_len \<noteq> a_len then Done (Some (''bad lengths for outbound TCP option '' @ dec (unat s_kind)))
         else if 2 < s_len
         then same_bytes (''bad value outbound TCP option '' @ dec (unat s_kind)) (p_buffer script_packet) (s_opt + 2)
           (p_buffer actual_packet) (a_opt + 2) (unat a_len - 2)
         else Done None))))"

text \<open>Both lists of options are walked in step; an error of an iterator ends its list.\<close>

function verify_options_loop ::
  "config \<Rightarrow> packet \<Rightarrow> packet \<Rightarrow> nat option \<Rightarrow> tcp_options_iterator \<Rightarrow> nat option \<Rightarrow> tcp_options_iterator \<Rightarrow> verdict" where
  "verify_options_loop config ap sp None a_iter None s_iter = Done None"
| "verify_options_loop config ap sp None a_iter (Some s) s_iter = Done (Some ''bad outbound TCP options'')"
| "verify_options_loop config ap sp (Some a) a_iter None s_iter = Done (Some ''bad outbound TCP options'')"
| "verify_options_loop config ap sp (Some a) a_iter (Some s) s_iter =
     rbind (ld8 (p_buffer ap) a) (\<lambda>ak. rbind (ld8 (p_buffer sp) s) (\<lambda>sk.
       if ak \<noteq> sk then Done (Some ''bad outbound TCP options'')
       else vthen (verify_outbound_tcp_option config ap sp a s)
         (case tcp_options_next (p_buffer ap) a_iter of Oob \<Rightarrow> Oob | Die \<Rightarrow> Die
          | Done (a', a_iter', _) \<Rightarrow>
              (case tcp_options_next (p_buffer sp) s_iter of Oob \<Rightarrow> Oob | Die \<Rightarrow> Die
               | Done (s', s_iter', _) \<Rightarrow>
                   (case (a', s') of (None, None) \<Rightarrow> Done None
                    | (Some _, Some _) \<Rightarrow> verify_options_loop config ap sp a' a_iter' s' s_iter'
                    | _ \<Rightarrow> Done (Some ''bad outbound TCP options''))))))"
  by pat_completeness auto

termination
  by (relation "measure (\<lambda>(config, ap, sp, a, a_iter, s, s_iter). case current_option a_iter of
      None \<Rightarrow> 0 | Some p \<Rightarrow> options_end a_iter - p)") (auto dest!: next_advances)

definition verify_outbound_live_tcp_options :: "config \<Rightarrow> packet \<Rightarrow> packet \<Rightarrow> verdict" where
  "verify_outbound_live_tcp_options config actual_packet script_packet =
     (if p_flags script_packet AND FLAG_OPTIONS_NOCHECK \<noteq> 0 then Done None
      else rbind (option_iter actual_packet) (\<lambda>(a_opt, a_iter). rbind (option_iter script_packet) (\<lambda>(s_opt, s_iter).
        verify_options_loop config actual_packet script_packet a_opt a_iter s_opt s_iter)))"

definition verify_outbound_live_payload :: "packet \<Rightarrow> packet \<Rightarrow> verdict" where
  "verify_outbound_live_payload actual_packet script_packet =
     rbind (packet_payload_len actual_packet) (\<lambda>a_len. rbind (packet_payload_len script_packet) (\<lambda>s_len.
     check (a_len = s_len)
     (rbind (packet_payload script_packet) (\<lambda>s. rbind (packet_payload actual_packet) (\<lambda>a.
       if s_len < 0 then Oob
       else same_bytes ''incorrect outbound data payload'' (p_buffer script_packet) s (p_buffer actual_packet) a (nat s_len))))))"

subsection \<open>Timestamps within the tolerance\<close>

lemma ts_deviation_exact:
  assumes "0 \<le> tick" "\<bar>sint (a - s)\<bar> * tick < 2 ^ 31"
  shows "ts_deviation a s tick = \<bar>sint (a - s)\<bar> * tick"
proof -
  have eq: "sint (word_of_int d :: u32) = d" if "0 \<le> d" "d < 2 ^ 31" for d
    using that by (simp add: sint_sbintrunc' signed_take_bit_int_eq_self)
  show ?thesis unfolding ts_deviation_def by (rule eq) (use assms in simp_all)
qed

lemma verify_ts_option:
  assumes "ld8 (p_buffer ap) a_opt = Done TCPOPT_TIMESTAMP" "packet_tcp_ts_val sp = Done s" "packet_tcp_ts_val ap = Done a"
  shows "verify_outbound_tcp_option config ap sp a_opt s_opt = Done None \<longleftrightarrow>
    tcp_ts_tick_usecs config = 0 \<or> ts_deviation a s (tcp_ts_tick_usecs config) \<le> tolerance_usecs config"
  using assms by (auto simp: verify_outbound_tcp_option_def Let_def tcpopt_defs)

text \<open>C20: The timestamp of an outbound packet is accepted exactly when its distance from the script's, in
  microseconds, is within the tolerance, as long as that distance is less than \<open>2 ^ 31\<close>. The product is computed
  in 32 bits: with ticks of 1 ms, a timestamp that is 4294968 ticks off, more than an hour, passes for one that is
  704 microseconds off.\<close>
theorem verify_ts_option_bounds:
  assumes "ld8 (p_buffer ap) a_opt = Done TCPOPT_TIMESTAMP" "packet_tcp_ts_val sp = Done s" "packet_tcp_ts_val ap = Done a"
    "0 \<le> tcp_ts_tick_usecs config"
  shows "(\<bar>sint (a - s)\<bar> * tcp_ts_tick_usecs config < 2 ^ 31 \<longrightarrow>
      (verify_outbound_tcp_option config ap sp a_opt s_opt = Done None \<longleftrightarrow>
        tcp_ts_tick_usecs config = 0 \<or> \<bar>sint (a - s)\<bar> * tcp_ts_tick_usecs config \<le> tolerance_usecs config)) \<and>
    (a = s + 4294968 \<and> tcp_ts_tick_usecs config = 1000 \<and> 704 \<le> tolerance_usecs config \<longrightarrow>
      verify_outbound_tcp_option config ap sp a_opt s_opt = Done None)"
proof -
  have "ts_deviation (s + 4294968) s 1000 = 704" by (simp add: ts_deviation_def)
  then show ?thesis using assms(4) ts_deviation_exact [of "tcp_ts_tick_usecs config" a s]
    by (auto simp: verify_ts_option [OF assms(1-3)])
qed

definition ts_packet :: "u8 \<Rightarrow> packet" where
  "ts_packet b = (packet_new [8, 10, 0, 0, 0, b, 0, 0, 0, 0])\<lparr>p_tcp_ts_val := Some 2\<rparr>"

theorem verify_ts_option_bounds_witness:
  "verify_outbound_tcp_option (set_default_config\<lparr>tcp_ts_tick_usecs := 1000, tolerance_usecs := 4000\<rparr>)
     (ts_packet 9) (ts_packet 5) 0 0 = Done None \<and>
   verify_outbound_tcp_option (set_default_config\<lparr>tcp_ts_tick_usecs := 1000, tolerance_usecs := 4000\<rparr>)
     (ts_packet 10) (ts_packet 5) 0 0 \<noteq> Done None"
proof -
  have k: "ld8 (p_buffer (ts_packet b)) 0 = Done TCPOPT_TIMESTAMP" for b
    by (simp add: ts_packet_def packet_new_def TCPOPT_TIMESTAMP_def)
  have b: "unat (be32 0 0 0 x) = unat x" for x by (simp add: unat_be32)
  have v: "packet_tcp_ts_val (ts_packet x) = Done (be32 0 0 0 x)" for x
    by (simp add: ts_packet_def packet_new_def packet_tcp_ts_val_def ld_be32_def)
  have w: "be32 0 0 0 5 = 5" "be32 0 0 0 9 = 9" "be32 0 0 0 10 = 10" by (simp_all add: word_unat_eq_iff b)
  show ?thesis
    using verify_ts_option_bounds [OF k v v, of "set_default_config\<lparr>tcp_ts_tick_usecs := 1000, tolerance_usecs := 4000\<rparr>" 9 5 0]
      verify_ts_option_bounds [OF k v v, of "set_default_config\<lparr>tcp_ts_tick_usecs := 1000, tolerance_usecs := 4000\<rparr>" 10 5 0]
    by (simp add: w)
qed

end
