(* ===== verification/PacketToString.thy ===== *)
theory PacketToString
  imports PacketMapping
begin

section \<open>Printing packets\<close>

text \<open>
  The model of \<^verbatim>\<open>packet_to_string.c\<close>: the encapsulation headers and then the transport header, in the
  short, full or verbose format. A printer appends to the text so far, which is returned beside the error.
\<close>

unbundle bit_operations_syntax

datatype dump_format_t = DUMP_SHORT | DUMP_FULL | DUMP_VERBOSE

definition endpoints_to_string :: "ntop \<Rightarrow> packet \<Rightarrow> string run" where
  "endpoints_to_string ntop packet = rbind (get_packet_tuple packet) (\<lambda>tuple.
     rbind (ip_to_string ntop (ep_ip (t_src tuple))) (\<lambda>src_string.
     rbind (ip_to_string ntop (ep_ip (t_dst tuple))) (\<lambda>dst_string.
       Done (src_string @ '':'' @ dec (unat (ep_port (t_src tuple))) @ '' > '' @ dst_string @ '':'' @
         dec (unat (ep_port (t_dst tuple)))))))"

definition packet_buffer_to_string :: "packet \<Rightarrow> string run" where
  "packet_buffer_to_string packet = rbind (packet_end packet) (\<lambda>e.
     rbind (hex_dump (p_buffer packet) e) (\<lambda>h. Done ([CHR 0x0A] @ h)))"

definition ipv4_header_to_string :: "ntop \<Rightarrow> packet \<Rightarrow> nat \<Rightarrow> string run" where
  "ipv4_header_to_string ntop packet layer = rbind (header_at packet layer) (\<lambda>p.
     rbind (ld_bytes (p_buffer packet) (p + 12) 4) (\<lambda>s. rbind (ld_bytes (p_buffer packet) (p + 16) 4) (\<lambda>d.
     rbind (ip_to_string ntop (ip_from_ipv4 s)) (\<lambda>src. rbind (ip_to_string ntop (ip_from_ipv4 d)) (\<lambda>dst.
       Done (''ipv4 '' @ src @ '' > '' @ dst @ '': ''))))))"

definition ipv6_header_to_string :: "ntop \<Rightarrow> packet \<Rightarrow> nat \<Rightarrow> string run" where
  "ipv6_header_to_string ntop packet layer = rbind (header_at packet layer) (\<lambda>p.
     rbind (ld_bytes (p_buffer packet) (p + 8) 16) (\<lambda>s. rbind (ld_bytes (p_buffer packet) (p + 24) 16) (\<lambda>d.
     rbind (ip_to_string ntop (ip_from_ipv6 s)) (\<lambda>src. rbind (ip_to_string ntop (ip_from_ipv6 d)) (\<lambda>dst.
       Done (''ipv6 '' @ src @ '' > '' @ dst @ '': ''))))))"

definition gre_header_to_string :: "packet \<Rightarrow> nat \<Rightarrow> string run" where
  "gre_header_to_string packet layer = rbind (header_at packet layer) (\<lambda>p.
     let buf = p_buffer packet in
     rbind (ld_be16 buf p) (\<lambda>fl. rbind (ld_be16 buf (p + 2)) (\<lambda>proto. rbind (ld8 buf p) (\<lambda>flags.
     let csum = (bit flags 7 \<or> bit flags 6);
         i = (if csum then 1 else 0 :: nat);
         j = (if bit flags 5 then i + 1 else i)
     in rbind (if csum then rbind (ld_be16 buf (p + 4)) (\<lambda>s. rbind (ld_be16 buf (p + 6)) (\<lambda>off.
            Done ('' sum 0x'' @ hex (unat s) @ '' off 0x'' @ hex (unat off)))) else Done []) (\<lambda>s1.
        rbind (if bit flags 5 then rbind (ld_be32 buf (p + 4 + 4 * i)) (\<lambda>k. Done ('' key 0x'' @ hex (unat k))) else Done []) (\<lambda>s2.
        rbind (if bit flags 4 then rbind (ld_be32 buf (p + 4 + 4 * j)) (\<lambda>k. Done ('' seq 0x'' @ hex (unat k))) else Done []) (\<lambda>s3.
          Done (''gre flags 0x'' @ hex (unat fl) @ '' proto 0x'' @ hex4 (unat proto) @ s1 @ s2 @ s3 @ '': ''))))))))"

definition mpls_header_to_string :: "packet \<Rightarrow> nat \<Rightarrow> string run" where
  "mpls_header_to_string packet layer = rbind (header_at packet layer) (\<lambda>p.
     rbind (run_map (\<lambda>i. rbind (ld_bytes (p_buffer packet) (p + 4 * i) 4) (\<lambda>b.
         let entry = le32 (b ! 0) (b ! 1) (b ! 2) (b ! 3) in
         Done ('' (label '' @ dec (unat (mpls_entry_label entry)) @ '', tc '' @ dec (unat (mpls_entry_tc entry)) @ '','' @
           (if mpls_entry_stack entry then '' [S],'' else []) @ '' ttl '' @ dec (unat (mpls_entry_ttl entry)) @ '')'')))
       [0..<header_bytes (p_headers packet ! layer) div 4]) (\<lambda>ss.
     Done (''mpls'' @ concat ss @ '': '')))"

fun encap_header_to_string :: "ntop \<Rightarrow> header_t \<Rightarrow> packet \<Rightarrow> nat \<Rightarrow> string run" where
  "encap_header_to_string ntop HEADER_IPV4 packet layer = ipv4_header_to_string ntop packet layer"
| "encap_header_to_string ntop HEADER_IPV6 packet layer = ipv6_header_to_string ntop packet layer"
| "encap_header_to_string ntop HEADER_GRE packet layer = gre_header_to_string packet layer"
| "encap_header_to_string ntop HEADER_MPLS packet layer = mpls_header_to_string packet layer"
| "encap_header_to_string ntop _ packet layer = Die"

text \<open>The endpoints in the formats that print them.\<close>

definition dump_endpoints :: "ntop \<Rightarrow> packet \<Rightarrow> dump_format_t \<Rightarrow> string run" where
  "dump_endpoints ntop packet format =
     (if format = DUMP_FULL \<or> format = DUMP_VERBOSE
      then rbind (endpoints_to_string ntop packet) (\<lambda>s. Done (s @ '' '')) else Done [])"

definition dump_buffer :: "packet \<Rightarrow> dump_format_t \<Rightarrow> string run" where
  "dump_buffer packet format = (if format = DUMP_VERBOSE then packet_buffer_to_string packet else Done [])"

definition tcp_flags_to_string :: "u8 \<Rightarrow> string" where
  "tcp_flags_to_string f =
     concat (map (\<lambda>(n, c). if bit f n then [c] else [])
       [(0, CHR ''F''), (1, CHR ''S''), (2, CHR ''R''), (3, CHR ''P''), (4, CHR ''.''), (5, CHR ''U''), (6, CHR ''E''),
        (7, CHR ''W'')])"

definition tcp_packet_to_string :: "ntop \<Rightarrow> packet \<Rightarrow> dump_format_t \<Rightarrow> (status \<times> string \<times> string option) run" where
  "tcp_packet_to_string ntop packet format = (case p_tcp packet of None \<Rightarrow> Oob | Some tcp \<Rightarrow>
     let buf = p_buffer packet in
     rbind (dump_endpoints ntop packet format) (\<lambda>s0.
     rbind (ld8 buf (tcp + 13)) (\<lambda>flags. rbind (ld_be32 buf (tcp + 4)) (\<lambda>seq.
     rbind (packet_payload_len packet) (\<lambda>len.
     rbind (if bit flags 4 then rbind (ld_be32 buf (tcp + 8)) (\<lambda>a. Done (''ack '' @ dec (unat a) @ '' '')) else Done []) (\<lambda>s1.
     rbind (if p_flags packet AND FLAG_WIN_NOCHECK = 0
       then rbind (ld_be16 buf (tcp + 14)) (\<lambda>win. Done (''win '' @ dec (unat win) @ '' '')) else Done []) (\<lambda>s2.
     rbind (packet_tcp_options_len packet) (\<lambda>olen.
     rbind (if 0 < olen
       then rbind (packet_tcp_options packet) (\<lambda>opts. rbind (packet_payload packet) (\<lambda>payload.
         rbind (tcp_options_to_string buf opts payload) (\<lambda>(st, text, err).
           Done (if st = STATUS_OK then (STATUS_OK, ''<'' @ text @ ''>'', err) else (STATUS_ERR, [], err)))))
       else Done (STATUS_OK, [], None)) (\<lambda>(st, s3, err).
     rbind (dump_buffer packet format) (\<lambda>s4.
       Done (st, s0 @ tcp_flags_to_string flags @ '' '' @ dec (unat seq) @ '':'' @ dec (unat (seq + word_of_int len)) @ ''('' @
         dec (unat (word_of_int len :: u32)) @ '') '' @ s1 @ s2 @ s3 @ s4, err)))))))))))"

definition udp_packet_to_string :: "ntop \<Rightarrow> packet \<Rightarrow> dump_format_t \<Rightarrow> string run" where
  "udp_packet_to_string ntop packet format =
     rbind (dump_endpoints ntop packet format) (\<lambda>s0. rbind (packet_payload_len packet) (\<lambda>len.
     rbind (dump_buffer packet format) (\<lambda>s1.
       Done (s0 @ ''udp ('' @ dec (unat (word_of_int len :: u32)) @ '')'' @ s1))))"

text \<open>The loop over the layers from \<open>i\<close>.\<close>

fun encap_loop :: "ntop \<Rightarrow> nat \<Rightarrow> nat \<Rightarrow> packet \<Rightarrow> string run" where
  "encap_loop ntop 0 i packet = Done []"
| "encap_loop ntop (Suc k) i packet =
     (if h_type (p_headers packet ! i) = HEADER_NONE then Done []
      else rbind (encap_header_to_string ntop (h_type (p_headers packet ! i)) packet i) (\<lambda>s.
        rbind (encap_loop ntop k (Suc i) packet) (\<lambda>t. Done (s @ t))))"

definition packet_to_string :: "ntop \<Rightarrow> packet \<Rightarrow> dump_format_t \<Rightarrow> (status \<times> string \<times> string option) run" where
  "packet_to_string ntop packet format =
     rbind (encap_loop ntop (packet_header_count packet - 2) 0 packet) (\<lambda>s.
     if p_ipv4 packet = None \<and> p_ipv6 packet = None then Done (STATUS_OK, s @ ''[NO IP HEADER]'', None)
     else if p_tcp packet \<noteq> None
     then rbind (tcp_packet_to_string ntop packet format) (\<lambda>(st, t, err). Done (st, s @ t, err))
     else if p_udp packet \<noteq> None
     then rbind (udp_packet_to_string ntop packet format) (\<lambda>t. Done (STATUS_OK, s @ t, None))
     else if p_icmpv4 packet \<noteq> None then Done (STATUS_OK, s @ ''icmpv4'', None)
     else if p_icmpv6 packet \<noteq> None then Done (STATUS_OK, s @ ''icmpv6'', None)
     else Done (STATUS_OK, s @ ''[NO TCP OR ICMP HEADER]'', None))"

end
