(* ===== verification/RunPacket.thy ===== *)
theory RunPacket
  imports PacketVerify PacketToString
begin

section \<open>Running packet events\<close>

text \<open>
  The model of the rest of \<^verbatim>\<open>run_packet.c\<close>: the socket for a packet, the packets that are sniffed for an
  outbound event and those that are injected for an inbound one, and the reset of a connection. A socket is
  its position in the list of the sockets created so far, in the order of creation. The loops that wait for
  packets take \<open>fuel\<close>, the number of packets that they may receive; \<open>None\<close> when it runs out.
\<close>

unbundle bit_operations_syntax

definition bind_fuel :: "'a run option \<Rightarrow> ('a \<Rightarrow> 'b run option) \<Rightarrow> 'b run option" where
  "bind_fuel r f = (case r of None \<Rightarrow> None | Some Oob \<Rightarrow> Some Oob | Some Die \<Rightarrow> Some Die | Some (Done x) \<Rightarrow> f x)"

lemma bind_fuel_Done: "bind_fuel r f = Some (Done y) \<longleftrightarrow> (\<exists>x. r = Some (Done x) \<and> f x = Some (Done y))"
  by (auto simp: bind_fuel_def split: option.splits run.splits)

subsection \<open>Ports and dumps\<close>

definition take_ephemeral_port :: "world \<Rightarrow> state \<Rightarrow> (u16 \<times> state) run" where
  "take_ephemeral_port w st =
     (if 0 \<le> next_ephemeral_port st
      then check (next_ephemeral_port st \<le> 0xffff)
        (Done (word_of_int (next_ephemeral_port st), st\<lparr>next_ephemeral_port := -1\<rparr>))
      else Done (w_port w (st_ports st), st\<lparr>st_ports := st_ports st + 1\<rparr>))"

text \<open>\<^verbatim>\<open>%9.6f\<close> pads to nine characters. The dump runs on success too, and may fault.\<close>

definition secs9 :: "int \<Rightarrow> string" where
  "secs9 usecs = (let s = secs usecs in replicate (9 - length s) (CHR '' '') @ s)"

definition add_packet_dump :: "world \<Rightarrow> string \<Rightarrow> string \<Rightarrow> packet \<Rightarrow> int \<Rightarrow> dump_format_t \<Rightarrow> string run" where
  "add_packet_dump w error type packet usecs format =
     (if p_ip_bytes packet \<noteq> 0
      then rbind (packet_to_string (w_ntop w) packet format) (\<lambda>(st, dump, dump_error).
        Done (error @ [CHR 0x0A] @ type @ '' packet: '' @ secs9 usecs @ '' '' @ dump @
          (case dump_error of None \<Rightarrow> [] | Some e \<Rightarrow> [CHR 0x0A] @ e)))
      else Done error)"

text \<open>The verbose dump only prints; it may fault like any dump.\<close>

definition verbose_packet_dump :: "world \<Rightarrow> state \<Rightarrow> packet \<Rightarrow> unit run" where
  "verbose_packet_dump w st live_packet =
     (if verbose (st_config st) then rbind (packet_to_string (w_ntop w) live_packet DUMP_SHORT) (\<lambda>_. Done ()) else Done ())"

subsection \<open>Sockets for packets\<close>

definition is_icmp_for :: "socket \<Rightarrow> packet \<Rightarrow> bool" where
  "is_icmp_for socket packet \<longleftrightarrow>
     (sk_protocol socket = IPPROTO_ICMP \<and> p_icmpv4 packet \<noteq> None) \<or>
     (sk_protocol socket = IPPROTO_ICMPV6 \<and> p_icmpv6 packet \<noteq> None)"

definition tuple_matches :: "bool \<Rightarrow> tuple \<Rightarrow> tuple \<Rightarrow> bool run" where
  "tuple_matches is_icmp packet_tuple live =
     (if is_equal_tuple packet_tuple live then Done True
      else if is_icmp then rbind (is_equal_ip (ep_ip (t_dst packet_tuple)) (ep_ip (t_dst live))) (\<lambda>d.
        if d then is_equal_ip (ep_ip (t_src packet_tuple)) (ep_ip (t_src live)) else Done False)
      else Done False)"

definition find_socket_for_live_packet :: "state \<Rightarrow> packet \<Rightarrow> (nat \<times> direction) option run" where
  "find_socket_for_live_packet st packet = (case socket_under_test st of
     None \<Rightarrow> Done None
   | Some i \<Rightarrow>
       (let socket = st_sockets st ! i; is_icmp = is_icmp_for socket packet in
        rbind (get_packet_tuple packet) (\<lambda>packet_tuple.
        rbind (tuple_matches is_icmp packet_tuple (socket_get_inbound (sk_live socket))) (\<lambda>inb.
        if inb then Done (Some (i, DIRECTION_INBOUND))
        else rbind (tuple_matches is_icmp packet_tuple (socket_get_outbound (sk_live socket))) (\<lambda>outb.
          Done (if outb then Some (i, DIRECTION_OUTBOUND) else None))))))"

text \<open>\<^verbatim>\<open>socket_new\<close>, with the socket in the list of the state.\<close>

definition add_socket :: "socket \<Rightarrow> state \<Rightarrow> nat \<times> state" where
  "add_socket socket st =
     (length (st_sockets st), st\<lparr>st_sockets := st_sockets st @ [socket], socket_under_test := Some (length (st_sockets st))\<rparr>)"

definition upd_socket :: "nat \<Rightarrow> (socket \<Rightarrow> socket) \<Rightarrow> state \<Rightarrow> state" where
  "upd_socket i f st = st\<lparr>st_sockets := (st_sockets st)[i := f (st_sockets st ! i)]\<rparr>"

text \<open>The child socket of an incoming SYN; the packet is read through its TCP header.\<close>

definition child_socket :: "config \<Rightarrow> packet \<Rightarrow> u16 \<Rightarrow> socket run" where
  "child_socket config packet remote_port =
     rbind (packet_ip_protocol packet) (\<lambda>protocol.
     rbind (get_packet_tuple packet) (\<lambda>tuple.
     (case p_tcp packet of None \<Rightarrow> Oob | Some tcp \<Rightarrow>
     rbind (ld_be32 (p_buffer packet) (tcp + 4)) (\<lambda>seq.
       Done (socket_new\<lparr>sk_state := SOCKET_PASSIVE_PACKET_RECEIVED, sk_address_family := packet_address_family packet,
         sk_protocol := unat protocol,
         sk_script := no_socket_state\<lparr>s_remote := t_src tuple, s_local := t_dst tuple, s_remote_isn := seq\<rparr>,
         sk_script_fd := -1,
         sk_live := no_socket_state\<lparr>
           s_remote := \<lparr>ep_ip = live_remote_ip config, ep_port = remote_port\<rparr>,
           s_local := \<lparr>ep_ip = live_local_ip config, ep_port = live_bind_port config\<rparr>,
           s_remote_isn := seq\<rparr>,
         sk_live_fd := -1\<rparr>)))))"

definition handle_listen_for_script_packet :: "world \<Rightarrow> state \<Rightarrow> packet \<Rightarrow> direction \<Rightarrow> (nat option \<times> state) run" where
  "handle_listen_for_script_packet w st packet direction =
     (let config = st_config st;
          match = (if is_wire_server config then socket_under_test st = None
            else (case socket_under_test st of None \<Rightarrow> True
              | Some i \<Rightarrow> sk_state (st_sockets st ! i) = SOCKET_PASSIVE_LISTENING))
      in if direction \<noteq> DIRECTION_INBOUND then Done (None, st)
         else if \<not> match then Done (None, st)
         else rbind (take_ephemeral_port w st) (\<lambda>(port, st).
           rbind (child_socket config packet port) (\<lambda>socket.
           let (i, st) = add_socket socket st in Done (Some i, st))))"

text \<open>The socket that a wire server creates for an outbound SYN.\<close>

definition connect_socket :: "config \<Rightarrow> packet \<Rightarrow> socket run" where
  "connect_socket config packet =
     rbind (packet_ip_protocol packet) (\<lambda>protocol.
       Done (socket_new\<lparr>sk_address_family := packet_address_family packet, sk_protocol := unat protocol,
         sk_script_fd := -1,
         sk_live := no_socket_state\<lparr>s_remote := \<lparr>ep_ip = live_remote_ip config, ep_port = live_connect_port config\<rparr>\<rparr>,
         sk_live_fd := -1\<rparr>))"

definition handle_connect_for_script_packet :: "state \<Rightarrow> packet \<Rightarrow> direction \<Rightarrow> (nat option \<times> state) run" where
  "handle_connect_for_script_packet st packet direction =
     (case p_tcp packet of None \<Rightarrow> Oob | Some tcp \<Rightarrow>
      rbind (if direction = DIRECTION_OUTBOUND
        then rbind (tcp_syn (p_buffer packet) tcp) (\<lambda>syn. if syn then rbind (tcp_ack (p_buffer packet) tcp) (\<lambda>ack. Done (\<not> ack)) else Done False)
        else Done False) (\<lambda>is_syn.
      let config = st_config st;
          match = (if is_wire_server config then socket_under_test st = None
            else (case socket_under_test st of None \<Rightarrow> False
              | Some i \<Rightarrow> sk_state (st_sockets st ! i) = SOCKET_ACTIVE_CONNECTING))
      in if \<not> is_syn then Done (None, st)
         else if \<not> match then Done (None, st)
         else rbind (case socket_under_test st of
             Some i \<Rightarrow> Done (i, st)
           | None \<Rightarrow> rbind (connect_socket config packet) (\<lambda>socket. Done (add_socket socket st))) (\<lambda>(i, st).
           rbind (get_packet_tuple packet) (\<lambda>tuple.
           rbind (ld_be32 (p_buffer packet) (tcp + 4)) (\<lambda>seq.
           Done (Some i, upd_socket i (\<lambda>s. s\<lparr>sk_state := SOCKET_ACTIVE_SYN_SENT,
             sk_script := (sk_script s)\<lparr>s_remote := t_dst tuple, s_local := t_src tuple, s_local_isn := seq\<rparr>\<rparr>) st))))))"

text \<open>Whether the socket waits for this kind of packet.\<close>

definition connect_match :: "socket \<Rightarrow> packet \<Rightarrow> bool run" where
  "connect_match socket packet =
     (let connecting = (sk_state socket = SOCKET_ACTIVE_CONNECTING) in
      if (p_udp packet \<noteq> None \<and> sk_protocol socket = IPPROTO_UDP \<and> connecting) \<or> (is_icmp_for socket packet \<and> connecting)
      then Done True
      else (case p_tcp packet of None \<Rightarrow> Done False | Some tcp \<Rightarrow>
        rbind (tcp_syn (p_buffer packet) tcp) (\<lambda>syn. rbind (tcp_ack (p_buffer packet) tcp) (\<lambda>ack.
          Done (syn \<and> \<not> ack \<and> sk_protocol socket = IPPROTO_TCP \<and> sk_state socket = SOCKET_ACTIVE_SYN_SENT)))))"

definition find_connect_for_live_packet :: "state \<Rightarrow> packet \<Rightarrow> ((nat \<times> direction) option \<times> state) run" where
  "find_connect_for_live_packet st packet =
     rbind (get_packet_tuple packet) (\<lambda>tuple.
     case socket_under_test st of None \<Rightarrow> Done (None, st)
     | Some i \<Rightarrow>
         (let socket = st_sockets st ! i;
              is_icmp_match = (is_icmp_for socket packet \<and> sk_state socket = SOCKET_ACTIVE_CONNECTING);
              remote = s_remote (sk_live socket)
          in rbind (connect_match socket packet) (\<lambda>match.
             if \<not> match then Done (None, st)
             else rbind (is_equal_ip (ep_ip (t_dst tuple)) (ep_ip remote)) (\<lambda>same_ip.
               if \<not> same_ip \<or> (\<not> is_icmp_match \<and> ep_port (t_dst tuple) \<noteq> ep_port remote) then Done (None, st)
               else rbind (case p_tcp packet of
                   Some tcp \<Rightarrow> ld_be32 (p_buffer packet) (tcp + 4)
                 | None \<Rightarrow> Done (s_local_isn (sk_live socket))) (\<lambda>isn.
                 Done (Some (i, DIRECTION_OUTBOUND), upd_socket i (\<lambda>s. s\<lparr>sk_live := (sk_live s)\<lparr>
                   s_local := t_src tuple, s_local_isn := isn\<rparr>\<rparr>) st))))))"

definition is_script_packet_match_for_socket :: "packet \<Rightarrow> socket \<Rightarrow> bool run" where
  "is_script_packet_match_for_socket packet socket =
     (let is_packet_icmp = (p_icmpv4 packet \<noteq> None \<or> p_icmpv6 packet \<noteq> None) in
      if sk_protocol socket = IPPROTO_TCP then Done (p_tcp packet \<noteq> None \<or> is_packet_icmp)
      else if sk_protocol socket = IPPROTO_UDP then Done (p_udp packet \<noteq> None \<or> is_packet_icmp)
      else if sk_protocol socket = IPPROTO_ICMP then Done (p_icmpv4 packet \<noteq> None)
      else if sk_protocol socket = IPPROTO_ICMPV6 then Done (p_icmpv6 packet \<noteq> None)
      else Die)"

text \<open>The socket, which may be null even on success.\<close>

definition find_or_create_socket_for_script_packet ::
  "world \<Rightarrow> state \<Rightarrow> packet \<Rightarrow> direction \<Rightarrow> ((string + nat option) \<times> state) run" where
  "find_or_create_socket_for_script_packet w st packet direction =
     rbind (if p_tcp packet \<noteq> None
       then rbind (handle_listen_for_script_packet w st packet direction) (\<lambda>(socket, st).
         if socket \<noteq> None then Done (socket, st) else handle_connect_for_script_packet st packet direction)
       else Done (None, st)) (\<lambda>(socket, st).
     if socket \<noteq> None then Done (Inr socket, st)
     else rbind (case socket_under_test st of None \<Rightarrow> Done False
         | Some i \<Rightarrow> is_script_packet_match_for_socket packet (st_sockets st ! i)) (\<lambda>match.
       if match then Done (Inr (socket_under_test st), st)
       else rbind (get_port_pair packet) (\<lambda>(sport, dport).
         if (p_tcp packet \<noteq> None \<or> p_udp packet \<noteq> None) \<and> (sport \<noteq> 0 \<or> dport \<noteq> 0)
         then Done (Inr (socket_under_test st), st)
         else Done (Inl ''no matching socket for script packet'', st))))"

subsection \<open>Sniffing\<close>

text \<open>Packets that belong to no socket are dropped. \<open>Inl\<close> is the error of the device.\<close>

fun sniff_outbound_live_packet :: "world \<Rightarrow> nat \<Rightarrow> nat \<Rightarrow> state \<Rightarrow> ((string + packet) \<times> state) run option" where
  "sniff_outbound_live_packet w 0 expected_socket st = None"
| "sniff_outbound_live_packet w (Suc fuel) expected_socket st =
     (case w_receive w (st_rx st) of
        Inl e \<Rightarrow> Some (Done (Inl e, st\<lparr>st_rx := st_rx st + 1\<rparr>))
      | Inr packet \<Rightarrow>
          (let st = st\<lparr>st_rx := st_rx st + 1\<rparr> in
           bind_fuel (Some (rbind (find_socket_for_live_packet st packet) (\<lambda>found. case found of
               Some (i, DIRECTION_OUTBOUND) \<Rightarrow> Done (Some i, st)
             | _ \<Rightarrow> rbind (find_connect_for_live_packet st packet) (\<lambda>(found, st).
                 Done (map_option fst found, st))))) (\<lambda>(found, st).
           case found of
             Some i \<Rightarrow> Some (Done (if i \<noteq> expected_socket then Inl ''packet is not for expected socket'' else Inr packet, st))
           | None \<Rightarrow> sniff_outbound_live_packet w fuel expected_socket st)))"

text \<open>A packet from \<^verbatim>\<open>netdev_receive\<close> fills the packet, so a match is either kind of socket.\<close>

definition verify_packet_fragments :: "packet \<Rightarrow> packet \<Rightarrow> int \<Rightarrow> int \<Rightarrow> int \<Rightarrow> verdict" where
  "verify_packet_fragments current_fragment previous_fragment current_payload sniffed_payload expected_total_payload =
     vthen (verify_outbound_live_headers current_fragment previous_fragment False)
       (if current_payload < expected_total_payload - sniffed_payload
        then rbind (packet_payload_len previous_fragment) (\<lambda>previous_payload.
          Done (if current_payload \<noteq> previous_payload
            then Some (''fragment payload: expected '' @ dec_int previous_payload @ '' bytes vs actual '' @
              dec_int current_payload @ '' bytes; total payload: expected '' @ dec_int expected_total_payload @
              '' bytes vs actual '' @ dec_int (current_payload + sniffed_payload) @ '' bytes'')
            else None))
        else Done None)"

subsection \<open>Verifying the packet that was sniffed\<close>

text \<open>The checks in order; the flag says whether a failure is not fatal.\<close>

definition verify_checks ::
  "state \<Rightarrow> nat \<Rightarrow> packet \<Rightarrow> packet \<Rightarrow> packet \<Rightarrow> (bool \<times> string option \<times> socket \<times> packet \<times> packet) run" where
  "verify_checks st i script_packet live_packet actual_packet =
     (let socket = st_sockets st ! i; config = st_config st in
      rbind (verify_outbound_live_checksums live_packet) (\<lambda>err.
      if err \<noteq> None then Done (False, err, socket, actual_packet, script_packet)
      else rbind (map_outbound_live_packet socket live_packet actual_packet script_packet)
        (\<lambda>(socket, actual_packet, script_packet, err).
      if err \<noteq> None then Done (False, err, socket, actual_packet, script_packet)
      else rbind (verify_outbound_live_headers actual_packet script_packet True) (\<lambda>err.
      if err \<noteq> None then Done (True, err, socket, actual_packet, script_packet)
      else rbind (if p_ipv6 script_packet \<noteq> None
          then verify_outbound_live_ipv6_flowlabel socket actual_packet script_packet else Done (socket, None)) (\<lambda>(socket, err).
      if err \<noteq> None then Done (True, err, socket, actual_packet, script_packet)
      else rbind (vall [
          if_strict (p_tcp script_packet \<noteq> None) (verify_outbound_live_tcp_options config actual_packet script_packet),
          if_strict (p_icmpv4 actual_packet = None \<and> p_icmpv6 actual_packet = None)
            (verify_outbound_live_payload actual_packet script_packet),
          rbind (current_event st) (\<lambda>event.
            verify_time st (time_type event) (time_usecs event) (time_usecs_end event) (p_time_usecs live_packet) ''outbound packet'')])
        (\<lambda>err. Done (True, err, socket, actual_packet, script_packet)))))))"

definition verify_outbound_live_packet ::
  "world \<Rightarrow> state \<Rightarrow> nat \<Rightarrow> packet \<Rightarrow> packet \<Rightarrow> (status \<times> string \<times> state) run" where
  "verify_outbound_live_packet w st i script_packet live_packet =
     rbind (current_event st) (\<lambda>event.
     rbind (packet_copy (w_fill w) live_packet) (\<lambda>actual_packet.
     rbind (verify_checks st i script_packet live_packet actual_packet)
       (\<lambda>(non_fatal, err, socket, actual_packet, script_packet).
     rbind (add_packet_dump w (case err of None \<Rightarrow> ''(null)'' | Some e \<Rightarrow> e) ''script'' script_packet (time_usecs event) DUMP_SHORT) (\<lambda>error.
     rbind (add_packet_dump w error ''actual'' actual_packet (live_time_to_script_time_usecs st (p_time_usecs live_packet))
         DUMP_SHORT) (\<lambda>error.
     Done (if err = None then STATUS_OK
         else if non_fatal \<and> non_fatal_packet (st_config st) then STATUS_WARN else STATUS_ERR,
       error, upd_socket i (\<lambda>_. socket) st))))))"

subsection \<open>Outbound script packets\<close>

definition is_synack :: "packet \<Rightarrow> bool run" where
  "is_synack packet = (case p_tcp packet of None \<Rightarrow> Done False
     | Some tcp \<Rightarrow> rbind (tcp_syn (p_buffer packet) tcp) (\<lambda>syn. if \<not> syn then Done False else tcp_ack (p_buffer packet) tcp))"

definition tcp_seq :: "packet \<Rightarrow> u32 run" where
  "tcp_seq packet = (case p_tcp packet of None \<Rightarrow> Oob | Some tcp \<Rightarrow> ld_be32 (p_buffer packet) (tcp + 4))"

text \<open>The socket learns from a packet: the sequence number of the SYNACK, the last TCP header, and the packet
  with its sequence numbers in script space.\<close>

definition learn_from_sniffed ::
  "nat \<Rightarrow> packet \<Rightarrow> packet \<Rightarrow> state \<Rightarrow> (packet \<times> string option \<times> state) run" where
  "learn_from_sniffed i packet live_packet st =
     rbind (is_synack packet) (\<lambda>synack.
     rbind (if sk_state (st_sockets st ! i) = SOCKET_PASSIVE_PACKET_RECEIVED \<and> synack
       then rbind (tcp_seq live_packet) (\<lambda>seq. Done (upd_socket i (\<lambda>s. s\<lparr>sk_state := SOCKET_PASSIVE_SYNACK_SENT,
           sk_live := (sk_live s)\<lparr>s_local_isn := seq\<rparr>\<rparr>) st))
       else Done st) (\<lambda>st.
     case p_tcp live_packet of
       None \<Rightarrow> Done (live_packet, None, st)
     | Some tcp \<Rightarrow> rbind (ld_bytes (p_buffer live_packet) tcp 20) (\<lambda>h.
         let st = upd_socket i (\<lambda>s. s\<lparr>last_outbound_tcp_header := h\<rparr>) st in
         rbind (tcp_convert_seq_number (st_sockets st ! i) live_packet) (\<lambda>(live_packet, err).
           Done (live_packet, err, st)))))"

text \<open>The list with the next fragment; with other addresses it starts anew.\<close>

definition add_fragment :: "packet list \<Rightarrow> int \<Rightarrow> packet \<Rightarrow> int \<Rightarrow> int \<Rightarrow> (string + packet list \<times> int) run" where
  "add_fragment sniffed sniffed_payload_len live_packet live_payload expected_payload_len =
     (if sniffed = [] then Done (Inr ([live_packet], live_payload))
      else rbind (get_packet_tuple (last sniffed)) (\<lambda>old_packet_tuple.
        rbind (get_packet_tuple live_packet) (\<lambda>new_packet_tuple.
        if \<not> is_equal_tuple old_packet_tuple new_packet_tuple then Done (Inr ([live_packet], live_payload))
        else rbind (verify_packet_fragments live_packet (last sniffed) live_payload sniffed_payload_len expected_payload_len)
          (\<lambda>err. Done (case err of Some e \<Rightarrow> Inl e
             | None \<Rightarrow> Inr (sniffed @ [live_packet], sniffed_payload_len + live_payload))))))"

text \<open>The \<^verbatim>\<open>do ... while\<close> loop: the fragments and their payload, or the error.\<close>

fun sniff_fragments ::
  "world \<Rightarrow> nat \<Rightarrow> nat \<Rightarrow> packet \<Rightarrow> int \<Rightarrow> packet list \<Rightarrow> int \<Rightarrow> state \<Rightarrow> ((string + packet list \<times> int) \<times> state) run option" where
  "sniff_fragments w 0 i packet expected_payload_len sniffed sniffed_payload_len st = None"
| "sniff_fragments w (Suc fuel) i packet expected_payload_len sniffed sniffed_payload_len st =
     bind_fuel (sniff_outbound_live_packet w (Suc fuel) i st) (\<lambda>(r, st).
     case r of Inl e \<Rightarrow> Some (Done (Inl e, st))
     | Inr live_packet \<Rightarrow>
         bind_fuel (Some (rbind (packet_payload_len live_packet) (\<lambda>live_payload.
           rbind (verbose_packet_dump w st live_packet) (\<lambda>_.
           rbind (learn_from_sniffed i packet live_packet st) (\<lambda>(live_packet, err, st).
           case err of Some e \<Rightarrow> Done (Inl e, st)
           | None \<Rightarrow> rbind (add_fragment sniffed sniffed_payload_len live_packet live_payload expected_payload_len) (\<lambda>r.
               Done (r, st))))))) (\<lambda>(r, st).
         case r of Inl e \<Rightarrow> Some (Done (Inl e, st))
         | Inr (sniffed, sniffed_payload_len) \<Rightarrow>
             if sniffed_payload_len < expected_payload_len \<and>
               (\<not> strict_segments (st_config st) \<or> is_wire_server (st_config st))
             then sniff_fragments w fuel i packet expected_payload_len sniffed sniffed_payload_len st
             else Some (Done (Inr (sniffed, sniffed_payload_len), st))))"

definition do_outbound_script_packet ::
  "world \<Rightarrow> nat \<Rightarrow> state \<Rightarrow> packet \<Rightarrow> nat \<Rightarrow> (status \<times> string \<times> state) run option" where
  "do_outbound_script_packet w fuel st packet i =
     bind_fuel (Some (rbind (packet_payload_len packet) (\<lambda>expected_payload_len.
       rbind (is_synack packet) (\<lambda>synack.
       rbind (if sk_state (st_sockets st ! i) = SOCKET_PASSIVE_PACKET_RECEIVED \<and> synack
         then rbind (tcp_seq packet) (\<lambda>seq. Done (upd_socket i (\<lambda>s. s\<lparr>sk_script := (sk_script s)\<lparr>s_local_isn := seq\<rparr>\<rparr>) st))
         else Done st) (\<lambda>st. Done (expected_payload_len, st)))))) (\<lambda>(expected_payload_len, st).
     bind_fuel (sniff_fragments w fuel i packet expected_payload_len [] 0 st) (\<lambda>(r, st).
     Some (case r of
       Inl e \<Rightarrow> Done (STATUS_ERR, e, st)
     | Inr (sniffed, sniffed_payload_len) \<Rightarrow>
         if sniffed_payload_len \<noteq> expected_payload_len
         then Done (STATUS_ERR, ''live packet payload: expected '' @ dec_int expected_payload_len @ '' bytes vs actual '' @
           dec_int sniffed_payload_len @ '' bytes'', st)
         else rbind (if length sniffed = 1 then Done (hd sniffed)
             else aggregate_packets (w_fill w) sniffed sniffed_payload_len) (\<lambda>live_packet.
           verify_outbound_live_packet w st i packet live_packet))))"

subsection \<open>Inbound script packets\<close>

definition send_live_ip_packet :: "world \<Rightarrow> state \<Rightarrow> packet \<Rightarrow> (status \<times> state) run" where
  "send_live_ip_packet w st packet =
     check (0 < p_ip_bytes packet)
     (check (p_ipv4 packet \<noteq> None \<or> p_ipv6 packet \<noteq> None)
     (check (p_tcp packet \<noteq> None \<or> p_udp packet \<noteq> None \<or> p_icmpv4 packet \<noteq> None \<or> p_icmpv6 packet \<noteq> None)
     (rbind (checksum_packet packet) (\<lambda>packet. Done (w_send w packet, st\<lparr>st_sent := st_sent st @ [packet]\<rparr>)))))"

text \<open>The state of the socket after the packet: the end of a handshake, and the addresses of an anyip test.\<close>

definition inbound_transition :: "config \<Rightarrow> packet \<Rightarrow> socket \<Rightarrow> socket run" where
  "inbound_transition config packet socket =
     (case p_tcp packet of
        None \<Rightarrow> Done socket
      | Some tcp \<Rightarrow>
          rbind (tcp_ack (p_buffer packet) tcp) (\<lambda>ack.
          if sk_state socket = SOCKET_PASSIVE_SYNACK_SENT \<and> ack
          then Done (socket\<lparr>sk_state := SOCKET_PASSIVE_SYNACK_ACKED\<rparr>)
          else if sk_state socket = SOCKET_ACTIVE_SYN_SENT
          then rbind (is_synack packet) (\<lambda>synack.
            if synack then rbind (tcp_seq packet) (\<lambda>seq. Done (socket\<lparr>sk_state := SOCKET_ACTIVE_SYN_ACKED,
                sk_script := (sk_script socket)\<lparr>s_remote_isn := seq\<rparr>,
                sk_live := (sk_live socket)\<lparr>s_remote_isn := seq\<rparr>\<rparr>))
            else Done socket)
          else Done socket))"

definition anyip_addresses :: "config \<Rightarrow> packet \<Rightarrow> socket \<Rightarrow> socket" where
  "anyip_addresses config packet socket =
     (if is_anyip config \<and> (p_udp packet \<noteq> None \<or> p_icmpv4 packet \<noteq> None \<or> p_icmpv6 packet \<noteq> None)
      then (let live = sk_live socket in
        socket\<lparr>sk_live := live\<lparr>
          s_remote := \<lparr>ep_ip = live_remote_ip config,
            ep_port = (if ep_port (s_remote live) = 0 then live_connect_port config else ep_port (s_remote live))\<rparr>,
          s_local := \<lparr>ep_ip = live_local_ip config,
            ep_port = (if ep_port (s_local live) = 0 then live_bind_port config else ep_port (s_local live))\<rparr>\<rparr>\<rparr>)
      else socket)"

text \<open>Status, error message if there is one, state.\<close>

definition do_inbound_script_packet ::
  "world \<Rightarrow> state \<Rightarrow> packet \<Rightarrow> nat \<Rightarrow> (status \<times> string option \<times> state) run" where
  "do_inbound_script_packet w st packet i =
     rbind (inbound_transition (st_config st) packet (st_sockets st ! i)) (\<lambda>socket.
     let socket = anyip_addresses (st_config st) packet socket;
         st = upd_socket i (\<lambda>_. socket) st
     in rbind (packet_copy (w_fill w) packet) (\<lambda>live_packet.
     rbind (map_inbound_packet (st_config st) socket live_packet) (\<lambda>(live_packet, err).
     if err \<noteq> None then Done (STATUS_ERR, err, st)
     else rbind (verbose_packet_dump w st live_packet) (\<lambda>_.
     let (now, st) = now_usecs w st in
     rbind (case p_tcp live_packet of
         None \<Rightarrow> Done st
       | Some tcp \<Rightarrow> rbind (ld_bytes (p_buffer live_packet) tcp 20) (\<lambda>h. rbind (packet_payload_len live_packet) (\<lambda>len.
           Done (upd_socket i (\<lambda>s. s\<lparr>last_injected_tcp_header := h, last_injected_tcp_payload_len := word_of_int len\<rparr>) st)))) (\<lambda>st.
     rbind (send_live_ip_packet w st live_packet) (\<lambda>(result, st). Done (result, None, st)))))))"

subsection \<open>Packet events\<close>

definition event_error :: "state \<Rightarrow> event \<Rightarrow> status \<Rightarrow> string option \<Rightarrow> string" where
  "event_error st event result err =
     cfg_script_path (st_config st) @ '':'' @ dec_int (line_number event) @ '': '' @
     (if result = STATUS_ERR then ''error'' else ''warning'') @ '' handling packet: '' @
     (case err of None \<Rightarrow> ''(null)'' | Some e \<Rightarrow> e) @ [CHR 0x0A]"

text \<open>An inbound packet that could not be sent leaves the result at its initial \<^verbatim>\<open>STATUS_ERR\<close>.\<close>

definition run_packet_event ::
  "world \<Rightarrow> nat \<Rightarrow> state \<Rightarrow> event \<Rightarrow> packet \<Rightarrow> (status \<times> string \<times> state) run option" where
  "run_packet_event w fuel st event packet =
     (let direction = p_direction packet in
      bind_fuel (Some (check (direction \<noteq> DIRECTION_INVALID)
        (find_or_create_socket_for_script_packet w st packet direction))) (\<lambda>(r, st).
      case r of
        Inl e \<Rightarrow> Some (Done (STATUS_ERR, event_error st event STATUS_ERR (Some e), st))
      | Inr None \<Rightarrow> Some Die
      | Inr (Some i) \<Rightarrow>
          if direction = DIRECTION_OUTBOUND
          then bind_fuel (do_outbound_script_packet w fuel st packet i) (\<lambda>(result, err, st).
            Some (Done (if result = STATUS_OK then (STATUS_OK, [], st) else (result, event_error st event result (Some err), st))))
          else bind_fuel (wait_for_event w fuel st) (\<lambda>st.
            Some (rbind (do_inbound_script_packet w st packet i) (\<lambda>(result, err, st).
              Done (if result = STATUS_OK then (STATUS_OK, [], st)
                else (STATUS_ERR, event_error st event STATUS_ERR err, st)))))))"

subsection \<open>Resetting a connection\<close>

text \<open>Sequence number, acknowledgment and window that the kernel will accept.\<close>

definition reset_fields :: "socket \<Rightarrow> (u32 \<times> u32 \<times> u16) run" where
  "reset_fields socket =
     (let inj = last_injected_tcp_header socket; out = last_outbound_tcp_header socket in
      rbind (tcp_ack inj 0) (\<lambda>inj_ack. rbind (tcp_ack out 0) (\<lambda>out_ack.
      if inj_ack
      then rbind (ld_be32 inj 4) (\<lambda>seq. rbind (tcp_syn inj 0) (\<lambda>syn. rbind (tcp_fin inj 0) (\<lambda>fin.
        rbind (ld_be32 inj 8) (\<lambda>ack_seq. rbind (ld_be16 inj 14) (\<lambda>window.
          Done (seq + of_flag syn + of_flag fin + last_injected_tcp_payload_len socket, ack_seq, window))))))
      else if out_ack
      then rbind (ld_be32 out 8) (\<lambda>seq. rbind (ld_be32 out 4) (\<lambda>ack_seq. Done (seq, ack_seq, 0)))
      else rbind (ld_be32 out 4) (\<lambda>seq. Done (0, seq + 1, 0)))))"

definition reset_info :: ip_info where
  "reset_info = \<lparr>tos = \<lparr>tos_check = TOS_CHECK_NONE, tos_value = 0\<rparr>, flow_label = 0, ttl = 0\<rparr>"

definition reset_connection :: "world \<Rightarrow> state \<Rightarrow> nat \<Rightarrow> (status \<times> state) run" where
  "reset_connection w st i =
     (let socket = st_sockets st ! i in
      rbind (reset_fields socket) (\<lambda>(seq, ack_seq, window).
      rbind (new_tcp_packet (sk_address_family socket) DIRECTION_INBOUND reset_info 0 0 ''R.'' seq 0 ack_seq
          (int (unat window)) 0 None) (\<lambda>r.
      case r of Inl e \<Rightarrow> Die
      | Inr packet \<Rightarrow>
          rbind (set_packet_tuple packet (socket_get_inbound (sk_live socket))) (\<lambda>packet.
          send_live_ip_packet w st packet))))"

subsection \<open>Sniffing ends at the first packet of a socket\<close>

text \<open>The packet belongs to no socket, so it is dropped.\<close>

definition dropped :: "state \<Rightarrow> packet \<Rightarrow> bool" where
  "dropped st packet \<longleftrightarrow>
     (case find_socket_for_live_packet st packet of
        Done (Some (i, d)) \<Rightarrow> d \<noteq> DIRECTION_OUTBOUND | Done None \<Rightarrow> True | _ \<Rightarrow> False) \<and>
     (case find_connect_for_live_packet st packet of Done (None, _) \<Rightarrow> True | _ \<Rightarrow> False)"

lemma find_socket_rx [simp]: "find_socket_for_live_packet (st\<lparr>st_rx := n\<rparr>) packet = find_socket_for_live_packet st packet"
  by (cases "socket_under_test st") (simp_all add: find_socket_for_live_packet_def)

lemma rbind_cong_Done: "(\<And>x. r = Done x \<Longrightarrow> f x = g x) \<Longrightarrow> rbind r f = rbind r g"
  by (cases r) auto

lemma find_connect_None:
  assumes "find_connect_for_live_packet st packet = Done (None, st')"
  shows "find_connect_for_live_packet (st\<lparr>st_rx := n\<rparr>) packet = Done (None, st\<lparr>st_rx := n\<rparr>)"
proof -
  obtain tuple where t: "get_packet_tuple packet = Done tuple" using assms by (auto simp: find_connect_for_live_packet_def run_simps)
  show ?thesis
  proof (cases "socket_under_test st")
    case None
    then show ?thesis using t by (simp add: find_connect_for_live_packet_def)
  next
    case (Some i)
    then obtain m where m: "connect_match (st_sockets st ! i) packet = Done m"
      using assms t by (auto simp: find_connect_for_live_packet_def run_simps Let_def)
    show ?thesis
    proof (cases m)
      case False
      then show ?thesis using Some t m by (simp add: find_connect_for_live_packet_def)
    next
      case True
      then show ?thesis using Some t m assms
        by (auto simp: find_connect_for_live_packet_def run_simps Let_def split: if_splits)
    qed
  qed
qed

lemma sniff_dropped:
  assumes "w_receive w (st_rx st) = Inr packet" "dropped st packet"
  shows "sniff_outbound_live_packet w (Suc fuel) expected st = sniff_outbound_live_packet w fuel expected (st\<lparr>st_rx := Suc (st_rx st)\<rparr>)"
proof -
  obtain st' where "find_connect_for_live_packet st packet = Done (None, st')"
    using assms(2) by (auto simp: dropped_def split: run.splits option.splits)
  note c = find_connect_None [OF this, of "Suc (st_rx st)"]
  obtain found where f: "find_socket_for_live_packet st packet = Done found" "\<And>i. found \<noteq> Some (i, DIRECTION_OUTBOUND)"
    using assms(2) by (auto simp: dropped_def split: run.splits option.splits)
  then consider "found = None" | j where "found = Some (j, DIRECTION_INBOUND)" | j where "found = Some (j, DIRECTION_INVALID)"
  proof (cases found)
    case (Some q)
    then show ?thesis using that f(2) by (cases q, cases "snd q") auto
  qed (use that in auto)
  then show ?thesis using assms(1) c f(1) by cases (simp_all add: bind_fuel_def Let_def)
qed

lemma dropped_rx: "dropped st packet \<Longrightarrow> dropped (st\<lparr>st_rx := n\<rparr>) packet"
proof -
  assume d: "dropped st packet"
  then obtain st' where "find_connect_for_live_packet st packet = Done (None, st')"
    by (auto simp: dropped_def split: run.splits option.splits)
  from find_connect_None [OF this, of n] d show ?thesis by (auto simp: dropped_def)
qed

lemma sniff_first:
  assumes "\<forall>j < k. \<exists>p. w_receive w (st_rx st + j) = Inr p \<and> dropped st p" "w_receive w (st_rx st + k) = Inr packet"
    "find_socket_for_live_packet st packet = Done (Some (i, DIRECTION_OUTBOUND))" "k < fuel"
  shows "sniff_outbound_live_packet w fuel expected st =
    Some (Done (if i \<noteq> expected then Inl ''packet is not for expected socket'' else Inr packet, st\<lparr>st_rx := st_rx st + Suc k\<rparr>))"
  using assms
proof (induction k arbitrary: st fuel)
  case 0
  then show ?case by (cases fuel) (auto simp: bind_fuel_def)
next
  case (Suc k)
  then obtain f where f: "fuel = Suc f" "k < f" by (cases fuel) auto
  let ?st = "st\<lparr>st_rx := Suc (st_rx st)\<rparr>"
  obtain p where p: "w_receive w (st_rx st) = Inr p" "dropped st p" using Suc.prems(1) by force
  have "\<forall>j < k. \<exists>p. w_receive w (st_rx ?st + j) = Inr p \<and> dropped ?st p"
    using Suc.prems(1) dropped_rx by (metis Suc_less_eq add_Suc_shift state.select_convs(14) state.surjective state.update_convs(14))
  from Suc.IH [OF this] Suc.prems(2,3) f(2)
  show ?case unfolding f(1) sniff_dropped [OF p] by simp
qed

text \<open>C21: Sniffing ends: when packet \<open>k\<close> from now on is one that the socket under test sends and all before it belong
  to no socket, it returns with that packet, all packets before it are received and dropped, none after it is
  received and nothing else of the state changes; when the packet is for another socket than expected it
  reports that.\<close>
theorem sniff_outbound_live_packet_returns:
  assumes "\<forall>j < k. \<exists>p. w_receive w (st_rx st + j) = Inr p \<and> dropped st p" "w_receive w (st_rx st + k) = Inr packet"
    "find_socket_for_live_packet st packet = Done (Some (i, DIRECTION_OUTBOUND))" "k < fuel"
  shows "sniff_outbound_live_packet w fuel expected st =
    Some (Done (if i \<noteq> expected then Inl ''packet is not for expected socket'' else Inr packet, st\<lparr>st_rx := st_rx st + Suc k\<rparr>))"
  using assms by (rule sniff_first)


text \<open>A packet from port 0 to the given port of 0.0.0.0, and a state whose socket sends to port 1.\<close>

definition sniff_packet :: "u8 \<Rightarrow> packet" where
  "sniff_packet port = (packet_new (replicate 23 0 @ [port] @ replicate 16 0))\<lparr>p_ipv4 := Some 0, p_tcp := Some 20\<rparr>"

definition sniff_state :: state where
  "sniff_state = test_state\<lparr>st_sockets := [socket_new\<lparr>sk_protocol := IPPROTO_TCP, sk_live := no_socket_state\<lparr>
     s_local := \<lparr>ep_ip = ip_from_ipv4 [0, 0, 0, 0], ep_port = 0\<rparr>,
     s_remote := \<lparr>ep_ip = ip_from_ipv4 [0, 0, 0, 0], ep_port = 1\<rparr>\<rparr>\<rparr>], socket_under_test := Some 0\<rparr>"

definition sniff_world :: world where
  "sniff_world = test_world\<lparr>w_receive := (\<lambda>n. Inr (sniff_packet (if n < 2 then 7 else 1)))\<rparr>"

theorem sniff_outbound_live_packet_returns_witness:
  "sniff_outbound_live_packet sniff_world 10 0 sniff_state = Some (Done (Inr (sniff_packet 1), sniff_state\<lparr>st_rx := 3\<rparr>))"
proof -
  have d: "dropped sniff_state (sniff_packet 7)" by code_simp
  have f: "(case find_socket_for_live_packet sniff_state (sniff_packet 1) of Done (Some (i, d)) \<Rightarrow> i = 0 \<and> d = DIRECTION_OUTBOUND
      | _ \<Rightarrow> False)" by code_simp
  then have f: "find_socket_for_live_packet sniff_state (sniff_packet 1) = Done (Some (0, DIRECTION_OUTBOUND))"
    by (auto split: run.splits option.splits)
  have r: "st_rx sniff_state = 0" by (simp add: sniff_state_def test_state_def)
  show ?thesis
    using sniff_outbound_live_packet_returns [of 2 sniff_world sniff_state "sniff_packet 1" 0 10 0] d f
    by (simp add: r sniff_world_def)
qed

end
