(* ===== verification/WireConn.thy ===== *)
theory WireConn
  imports RunTiming
begin

section \<open>Messages between wire client and wire server\<close>

text \<open>
  The model of \<^verbatim>\<open>wire_protocol.h\<close>, \<^verbatim>\<open>wire_protocol.c\<close> and of the reading and writing of messages in
  \<^verbatim>\<open>wire_conn.c\<close>. A connection holds the bytes written to it and the answers that the calls of \<^verbatim>\<open>read\<close> and
  \<^verbatim>\<open>write\<close> still have to give; a call that finds no answer blocks. The result \<open>None\<close> of a function says that it
  blocks in such a call. Opening, accepting and configuring sockets is left out.
\<close>

subsection \<open>Operations\<close>

datatype wire_op_t = WIRE_INVALID | WIRE_COMMAND_LINE_ARGS | WIRE_SCRIPT_PATH | WIRE_SCRIPT | WIRE_HARDWARE_ADDR
  | WIRE_SERVER_READY | WIRE_CLIENT_STARTING | WIRE_PACKETS_START | WIRE_PACKETS_WARN | WIRE_PACKETS_DONE | WIRE_NUM_OPS

fun wire_op :: "wire_op_t \<Rightarrow> u32" where
  "wire_op WIRE_INVALID = 0"
| "wire_op WIRE_COMMAND_LINE_ARGS = 1"
| "wire_op WIRE_SCRIPT_PATH = 2"
| "wire_op WIRE_SCRIPT = 3"
| "wire_op WIRE_HARDWARE_ADDR = 4"
| "wire_op WIRE_SERVER_READY = 5"
| "wire_op WIRE_CLIENT_STARTING = 6"
| "wire_op WIRE_PACKETS_START = 7"
| "wire_op WIRE_PACKETS_WARN = 8"
| "wire_op WIRE_PACKETS_DONE = 9"
| "wire_op WIRE_NUM_OPS = 10"

subsection \<open>Connections\<close>

text \<open>The answers of \<^verbatim>\<open>read\<close> and \<^verbatim>\<open>write\<close>: bytes that are there (none at the end of the stream), the number of
  bytes that can be written, an interruption (\<^verbatim>\<open>EINTR\<close> or \<^verbatim>\<open>EAGAIN\<close>), or an error. A call reads or writes no
  more than it is asked to.\<close>

datatype read_result = Read bytes | Read_again | Read_error
datatype write_result = Wrote nat | Write_again | Write_error

text \<open>The buffer of the last message with its unused space, and the lines printed to \<^verbatim>\<open>stderr\<close>.\<close>

record wire_conn =
  conn_buf :: bytes
  conn_reads :: "read_result list"
  conn_writes :: "write_result list"
  conn_sent :: bytes
  conn_stderr :: "string list"

definition MAX_MESSAGE_BYTES :: int where "MAX_MESSAGE_BYTES = 10 * 1000 * 1000"

definition wire_conn_new :: "read_result list \<Rightarrow> write_result list \<Rightarrow> wire_conn" where
  "wire_conn_new reads writes =
     \<lparr>conn_buf = [], conn_reads = reads, conn_writes = writes, conn_sent = [], conn_stderr = []\<rparr>"

definition print_error :: "string \<Rightarrow> wire_conn \<Rightarrow> wire_conn" where
  "print_error msg conn = conn\<lparr>conn_stderr := conn_stderr conn @ [msg]\<rparr>"

subsection \<open>Writing\<close>

text \<open>The loop of \<^verbatim>\<open>write_bytes\<close>: status, answers left, bytes written.\<close>

fun write_loop :: "write_result list \<Rightarrow> bytes \<Rightarrow> bytes \<Rightarrow> (status \<times> write_result list \<times> bytes) option" where
  "write_loop writes [] sent = Some (STATUS_OK, writes, sent)"
| "write_loop [] (b # buf) sent = None"
| "write_loop (Wrote n # writes) (b # buf) sent =
     write_loop writes (drop n (b # buf)) (sent @ take n (b # buf))"
| "write_loop (Write_again # writes) (b # buf) sent = write_loop writes (b # buf) sent"
| "write_loop (Write_error # writes) (b # buf) sent = Some (STATUS_ERR, writes, sent)"

definition write_bytes :: "wire_conn \<Rightarrow> bytes \<Rightarrow> (status \<times> wire_conn) option" where
  "write_bytes conn buf = map_option (\<lambda>(status, writes, sent).
     let conn = conn\<lparr>conn_writes := writes, conn_sent := conn_sent conn @ sent\<rparr> in
     (status, if status = STATUS_OK then conn else print_error ''TCP socket write'' conn))
     (write_loop (conn_writes conn) buf [])"

text \<open>Calls in sequence; the first that fails ends the function with its status.\<close>

definition wire_then ::
  "(status \<times> 'c) option \<Rightarrow> ('c \<Rightarrow> (status \<times> 'c) option) \<Rightarrow> (status \<times> 'c) option" where
  "wire_then r f = (case r of
     Some (status, c) \<Rightarrow> if status = STATUS_OK then f c else Some (STATUS_ERR, c)
   | None \<Rightarrow> None)"

definition wire_header :: "wire_op_t \<Rightarrow> nat \<Rightarrow> bytes" where
  "wire_header op buf_len = be32_bytes_of (word_of_nat (8 + buf_len)) @ be32_bytes_of (wire_op op)"

definition wire_conn_write :: "wire_conn \<Rightarrow> wire_op_t \<Rightarrow> bytes \<Rightarrow> (status \<times> wire_conn) option" where
  "wire_conn_write conn op buf =
     wire_then (write_bytes conn (wire_header op (length buf))) (\<lambda>conn. write_bytes conn buf)"

subsection \<open>Reading\<close>

text \<open>The loop of \<^verbatim>\<open>read_bytes\<close>: error message if any, the bytes read, answers left.\<close>

fun read_loop :: "read_result list \<Rightarrow> nat \<Rightarrow> bytes \<Rightarrow> (string option \<times> bytes \<times> read_result list) option" where
  "read_loop reads 0 got = Some (None, got, reads)"
| "read_loop [] (Suc n) got = None"
| "read_loop (Read bs # reads) (Suc n) got =
     (if bs = [] then Some (Some ''remote side closed connection'', got, reads)
      else if length bs \<le> Suc n then read_loop reads (Suc n - length bs) (got @ bs)
      else Some (None, got @ take (Suc n) bs, Read (drop (Suc n) bs) # reads))"
| "read_loop (Read_again # reads) (Suc n) got = read_loop reads (Suc n) got"
| "read_loop (Read_error # reads) (Suc n) got = Some (Some ''TCP socket read'', got, reads)"

definition read_bytes :: "wire_conn \<Rightarrow> nat \<Rightarrow> (status \<times> bytes \<times> wire_conn) option" where
  "read_bytes conn n = map_option (\<lambda>(err, got, reads).
     let conn = conn\<lparr>conn_reads := reads\<rparr> in
     case err of None \<Rightarrow> (STATUS_OK, got, conn) | Some msg \<Rightarrow> (STATUS_ERR, got, print_error msg conn))
     (read_loop (conn_reads conn) n [])"

text \<open>The bytes of the message with the header at hand, as an \<^verbatim>\<open>int\<close>.\<close>

definition message_len :: "bytes \<Rightarrow> int" where
  "message_len h = sint (be32 (h ! 0) (h ! 1) (h ! 2) (h ! 3) - 8)"

definition message_op :: "bytes \<Rightarrow> u32" where
  "message_op h = be32 (h ! 4) (h ! 5) (h ! 6) (h ! 7)"

text \<open>A buffer that is too small is replaced by one of twice the size, with the contents \<^verbatim>\<open>malloc\<close> finds.\<close>

definition make_room :: "(nat \<Rightarrow> u8) \<Rightarrow> nat \<Rightarrow> wire_conn \<Rightarrow> wire_conn" where
  "make_room malloc buf_len conn =
     (if length (conn_buf conn) < buf_len then conn\<lparr>conn_buf := map malloc [0..<2 * buf_len]\<rparr> else conn)"

text \<open>On success the operation and the length of the message, which is at the start of the buffer.\<close>

definition wire_conn_read :: "(nat \<Rightarrow> u8) \<Rightarrow> wire_conn \<Rightarrow> ((u32 \<times> nat) option \<times> wire_conn) option" where
  "wire_conn_read malloc conn =
     (case read_bytes conn 8 of
        None \<Rightarrow> None
      | Some (status, header, conn) \<Rightarrow>
          if status \<noteq> STATUS_OK then Some (None, conn)
          else if message_len header < 0 \<or> MAX_MESSAGE_BYTES < message_len header
          then Some (None, print_error (''invalid length '' @ dec_int (message_len header) @ '' from remote wire conn'') conn)
          else (let buf_len = nat (message_len header); conn = make_room malloc buf_len conn in
            case read_bytes conn buf_len of
              None \<Rightarrow> None
            | Some (status, got, conn) \<Rightarrow>
                (let conn = conn\<lparr>conn_buf := poke (conn_buf conn) 0 got\<rparr> in
                 if status \<noteq> STATUS_OK then Some (None, conn)
                 else Some (Some (message_op header, buf_len), conn))))"

subsection \<open>Messages arrive as they were sent\<close>

text \<open>The bytes of a message on the stream.\<close>

definition frame :: "wire_op_t \<Rightarrow> bytes \<Rightarrow> bytes" where
  "frame op buf = wire_header op (length buf) @ buf"

text \<open>The bytes that a connection still has to read, and answers without an error and without an end.\<close>

fun read_data :: "read_result \<Rightarrow> bytes" where
  "read_data (Read bs) = bs"
| "read_data _ = []"

definition stream :: "read_result list \<Rightarrow> bytes" where
  "stream reads = concat (map read_data reads)"

definition alive :: "read_result list \<Rightarrow> bool" where
  "alive reads \<longleftrightarrow> Read [] \<notin> set reads \<and> Read_error \<notin> set reads"

text \<open>Answers that let \<open>n\<close> bytes through.\<close>

definition writable :: "write_result list \<Rightarrow> nat \<Rightarrow> bool" where
  "writable writes n \<longleftrightarrow> Write_error \<notin> set writes \<and> n \<le> length (filter (\<lambda>r. r \<noteq> Write_again \<and> r \<noteq> Wrote 0) writes)"

lemma stream_simps [simp]:
  "stream [] = []" "stream (Read bs # reads) = bs @ stream reads" "stream (Read_again # reads) = stream reads"
  "stream (Read_error # reads) = stream reads" "stream (reads @ reads') = stream reads @ stream reads'"
  by (simp_all add: stream_def)

lemma alive_simps [simp]:
  "alive []" "alive (Read bs # reads) \<longleftrightarrow> bs \<noteq> [] \<and> alive reads" "alive (Read_again # reads) \<longleftrightarrow> alive reads"
  "\<not> alive (Read_error # reads)" "alive (reads @ reads') \<longleftrightarrow> alive reads \<and> alive reads'"
  by (auto simp: alive_def)

lemma read_loop_alive:
  assumes "alive reads"
  shows "if length (stream reads) < n then read_loop reads n got = None
    else \<exists>reads'. read_loop reads n got = Some (None, got @ take n (stream reads), reads') \<and> alive reads' \<and>
      stream reads' = drop n (stream reads)"
  using assms
proof (induction reads n got rule: read_loop.induct)
  case (3 bs reads n got)
  show ?case
  proof (cases "length bs \<le> Suc n")
    case True
    then show ?thesis using 3 by (auto simp: Suc_diff_le less_diff_conv split: if_splits)
  qed (use 3 in \<open>auto simp: not_le\<close>)
qed auto

lemma write_loop_writable:
  assumes "writable writes (length buf + n)"
  shows "\<exists>writes'. write_loop writes buf sent = Some (STATUS_OK, writes', sent @ buf) \<and> writable writes' n"
  using assms
proof (induction writes buf sent rule: write_loop.induct)
  case (3 k writes b buf sent)
  then show ?case by (cases k) (auto simp: writable_def)
qed (auto simp: writable_def)

lemma write_loop_sent:
  "write_loop writes buf sent = Some (STATUS_OK, writes', sent') \<Longrightarrow> sent' = sent @ buf"
  by (induction writes buf sent rule: write_loop.induct) auto

lemma take_drop_frame:
  "length h = 8 \<Longrightarrow> take 8 (h @ xs) = h" "length h = 8 \<Longrightarrow> drop 8 (h @ xs) = xs"
  by simp_all

lemma length_wire_header [simp]: "length (wire_header op n) = 8"
  by (simp add: wire_header_def)

lemma message_op_header: "message_op (wire_header op n) = wire_op op"
  by (simp add: message_op_def wire_header_def be32_bytes_of_def)

lemma message_len_header:
  assumes "n \<le> 10000000"
  shows "message_len (wire_header op n) = int n"
proof -
  have "be32 (wire_header op n ! 0) (wire_header op n ! 1) (wire_header op n ! 2) (wire_header op n ! 3) = word_of_nat (8 + n)"
    by (simp add: wire_header_def be32_bytes_of_def)
  moreover have "word_of_nat (8 + n) - (8 :: u32) = word_of_int (int n)"
    by simp
  moreover have "sint (word_of_int d :: u32) = d" if "0 \<le> d" "d \<le> 10000000" for d
    using that by (simp add: sint_sbintrunc' signed_take_bit_int_eq_self)
  then have "sint (word_of_int (int n) :: u32) = int n"
    using assms by (metis of_nat_0_le_iff of_nat_le_iff of_nat_numeral)
  ultimately show ?thesis by (simp only: message_len_def)
qed

lemma read_bytes_alive:
  assumes "alive (conn_reads conn)" "n \<le> length (stream (conn_reads conn))"
  obtains reads' where "read_bytes conn n = Some (STATUS_OK, take n (stream (conn_reads conn)), conn\<lparr>conn_reads := reads'\<rparr>)"
    "alive reads'" "stream reads' = drop n (stream (conn_reads conn))"
  using read_loop_alive [OF assms(1), of n "[]"] assms(2) by (auto simp: read_bytes_def)

text \<open>A message that has arrived is read, however it was cut into pieces.\<close>

lemma wire_conn_read_frame:
  assumes "alive (conn_reads conn)" "stream (conn_reads conn) = frame op buf @ rest" "length buf \<le> 10000000"
  shows "\<exists>reads'. wire_conn_read malloc conn = Some (Some (wire_op op, length buf),
      conn\<lparr>conn_reads := reads', conn_buf := buf @ drop (length buf) (conn_buf (make_room malloc (length buf) conn))\<rparr>) \<and>
    alive reads' \<and> stream reads' = rest"
proof -
  have s: "stream (conn_reads conn) = wire_header op (length buf) @ buf @ rest"
    using assms(2) by (simp add: frame_def)
  obtain reads1 where 1: "read_bytes conn 8 = Some (STATUS_OK, wire_header op (length buf), conn\<lparr>conn_reads := reads1\<rparr>)"
    "alive reads1" "stream reads1 = buf @ rest"
    by (rule read_bytes_alive [OF assms(1), of 8]) (auto simp: s)
  define conn1 where "conn1 = make_room malloc (length buf) (conn\<lparr>conn_reads := reads1\<rparr>)"
  have c1: "conn_reads conn1 = reads1" "length buf \<le> length (conn_buf conn1)"
    "conn_buf conn1 = conn_buf (make_room malloc (length buf) conn)"
    by (auto simp: conn1_def make_room_def)
  obtain reads2 where 2: "read_bytes conn1 (length buf) = Some (STATUS_OK, buf, conn1\<lparr>conn_reads := reads2\<rparr>)"
    "alive reads2" "stream reads2 = rest"
    by (rule read_bytes_alive [of conn1 "length buf"]) (use 1 c1 in auto)
  have "poke (conn_buf conn1) 0 buf = buf @ drop (length buf) (conn_buf conn1)"
    by (simp add: poke_def)
  moreover have "conn1\<lparr>conn_reads := reads2, conn_buf := B\<rparr> = conn\<lparr>conn_reads := reads2, conn_buf := B\<rparr>" for B
    by (simp add: conn1_def make_room_def)
  ultimately have "wire_conn_read malloc conn = Some (Some (wire_op op, length buf),
      conn\<lparr>conn_reads := reads2, conn_buf := buf @ drop (length buf) (conn_buf (make_room malloc (length buf) conn))\<rparr>)"
    using 1(1) 2(1) assms(3) c1
    by (simp add: wire_conn_read_def message_len_header message_op_header MAX_MESSAGE_BYTES_def conn1_def [symmetric] Let_def)
  then show ?thesis using 2 by blast
qed

text \<open>Until a message has arrived in full, reading it blocks.\<close>

lemma wire_conn_read_blocks:
  assumes "alive (conn_reads conn)" "stream (conn_reads conn) = take k (frame op buf)" "k < length (frame op buf)"
    "length buf \<le> 10000000"
  shows "wire_conn_read malloc conn = None"
proof (cases "k < 8")
  case True
  then show ?thesis using read_loop_alive [OF assms(1), of 8 "[]"] assms(2,3)
    by (simp add: wire_conn_read_def read_bytes_def)
next
  case False
  then have s: "stream (conn_reads conn) = wire_header op (length buf) @ take (k - 8) buf"
    using assms(2) by (simp add: frame_def)
  obtain reads1 where 1: "read_bytes conn 8 = Some (STATUS_OK, wire_header op (length buf), conn\<lparr>conn_reads := reads1\<rparr>)"
    "alive reads1" "stream reads1 = take (k - 8) buf"
    by (rule read_bytes_alive [OF assms(1), of 8]) (auto simp: s)
  have "k - 8 < length buf" using False assms(3) by (simp add: frame_def)
  then have "read_bytes (make_room malloc (length buf) (conn\<lparr>conn_reads := reads1\<rparr>)) (length buf) = None"
    using read_loop_alive [OF 1(2), of "length buf" "[]"] 1(3) by (simp add: read_bytes_def make_room_def)
  then show ?thesis using 1(1) assms(4)
    by (simp add: wire_conn_read_def message_len_header MAX_MESSAGE_BYTES_def Let_def)
qed

lemma write_bytes_writable:
  assumes "writable (conn_writes conn) (length buf + n)"
  obtains writes' where "write_bytes conn buf = Some (STATUS_OK, conn\<lparr>conn_writes := writes', conn_sent := conn_sent conn @ buf\<rparr>)"
    "writable writes' n"
  using write_loop_writable [OF assms, of "[]"] by (auto simp: write_bytes_def Let_def)

lemma wire_conn_write_frame:
  assumes "writable (conn_writes conn) (8 + length buf + n)"
  obtains writes' where "wire_conn_write conn op buf =
      Some (STATUS_OK, conn\<lparr>conn_writes := writes', conn_sent := conn_sent conn @ frame op buf\<rparr>)" "writable writes' n"
proof -
  obtain w1 where 1: "write_bytes conn (wire_header op (length buf)) =
      Some (STATUS_OK, conn\<lparr>conn_writes := w1, conn_sent := conn_sent conn @ wire_header op (length buf)\<rparr>)"
    "writable w1 (length buf + n)"
    using write_bytes_writable [of conn "wire_header op (length buf)" "length buf + n"] assms by (auto simp: add.assoc)
  define c1 where "c1 = conn\<lparr>conn_writes := w1, conn_sent := conn_sent conn @ wire_header op (length buf)\<rparr>"
  obtain w2 where 2: "write_bytes c1 buf = Some (STATUS_OK, c1\<lparr>conn_writes := w2, conn_sent := conn_sent c1 @ buf\<rparr>)"
    "writable w2 n"
    using write_bytes_writable [of c1 buf n] 1(2) by (auto simp: c1_def)
  show thesis
    by (rule that [of w2]) (use 1 2 in \<open>simp_all add: wire_conn_write_def wire_then_def frame_def c1_def\<close>)
qed

lemma write_bytes_sent:
  "write_bytes conn buf = Some (STATUS_OK, conn') \<Longrightarrow> conn_sent conn' = conn_sent conn @ buf"
  by (auto simp: write_bytes_def Let_def print_error_def split: if_splits dest: write_loop_sent)

lemma wire_conn_write_sent:
  "wire_conn_write conn op buf = Some (STATUS_OK, conn') \<Longrightarrow> conn_sent conn' = conn_sent conn @ frame op buf"
  by (auto simp: wire_conn_write_def wire_then_def frame_def split: option.splits if_splits dest!: write_bytes_sent)

subsection \<open>A conversation\<close>

text \<open>Writing a list of messages and reading that many.\<close>

fun write_messages :: "wire_conn \<Rightarrow> (wire_op_t \<times> bytes) list \<Rightarrow> (status \<times> wire_conn) option" where
  "write_messages conn [] = Some (STATUS_OK, conn)"
| "write_messages conn ((op, buf) # messages) =
     wire_then (wire_conn_write conn op buf) (\<lambda>conn. write_messages conn messages)"

fun read_messages :: "(nat \<Rightarrow> u8) \<Rightarrow> wire_conn \<Rightarrow> nat \<Rightarrow> ((u32 \<times> bytes) list \<times> wire_conn) option" where
  "read_messages malloc conn 0 = Some ([], conn)"
| "read_messages malloc conn (Suc n) = (case wire_conn_read malloc conn of
     Some (Some (op, buf_len), conn) \<Rightarrow>
       map_option (\<lambda>(ms, conn'). ((op, take buf_len (conn_buf conn)) # ms, conn')) (read_messages malloc conn n)
   | Some (None, conn) \<Rightarrow> Some ([], conn)
   | None \<Rightarrow> None)"

definition frames :: "(wire_op_t \<times> bytes) list \<Rightarrow> bytes" where
  "frames messages = concat (map (\<lambda>(op, buf). frame op buf) messages)"

lemma frames_simps [simp]:
  "frames [] = []" "frames ((op, buf) # ms) = frame op buf @ frames ms" "frames (ms @ ms') = frames ms @ frames ms'"
  by (simp_all add: frames_def)

lemma write_messages_sent:
  "write_messages conn ms = Some (STATUS_OK, conn') \<Longrightarrow> conn_sent conn' = conn_sent conn @ frames ms"
proof (induction conn ms rule: write_messages.induct)
  case (2 conn op buf ms)
  then obtain c where c: "wire_conn_write conn op buf = Some (STATUS_OK, c)" "write_messages c ms = Some (STATUS_OK, conn')"
    by (auto simp: wire_then_def split: option.splits if_splits)
  then show ?case using 2 wire_conn_write_sent [OF c(1)] by simp
qed auto

lemma read_messages_frames:
  assumes "alive (conn_reads conn)" "stream (conn_reads conn) = frames ms @ rest" "\<forall>(op, buf) \<in> set ms. length buf \<le> 10000000"
  shows "\<exists>conn'. read_messages malloc conn (length ms) = Some (map (\<lambda>(op, buf). (wire_op op, buf)) ms, conn') \<and>
    alive (conn_reads conn') \<and> stream (conn_reads conn') = rest"
  using assms
proof (induction ms arbitrary: conn)
  case (Cons m ms)
  obtain op buf where m: "m = (op, buf)" by (cases m)
  obtain reads' where r: "wire_conn_read malloc conn = Some (Some (wire_op op, length buf),
      conn\<lparr>conn_reads := reads', conn_buf := buf @ drop (length buf) (conn_buf (make_room malloc (length buf) conn))\<rparr>)"
    "alive reads'" "stream reads' = frames ms @ rest"
    using wire_conn_read_frame [OF Cons.prems(1), of op buf "frames ms @ rest" malloc] Cons.prems m by auto
  let ?conn = "conn\<lparr>conn_reads := reads', conn_buf := buf @ drop (length buf) (conn_buf (make_room malloc (length buf) conn))\<rparr>"
  have "\<exists>conn'. read_messages malloc ?conn (length ms) = Some (map (\<lambda>(op, buf). (wire_op op, buf)) ms, conn') \<and>
      alive (conn_reads conn') \<and> stream (conn_reads conn') = rest"
    by (rule Cons.IH) (use r Cons.prems in auto)
  then show ?case using r m by auto
qed auto

text \<open>C24: Whatever messages of at most 10000000 bytes are written to a connection, with short writes and
  interruptions, the other side reads the same operations and the same bytes in the same order, however the
  network cuts the stream into pieces and however often its reads are interrupted, and no byte is left over.\<close>
theorem wire_messages_roundtrip:
  assumes "write_messages client messages = Some (STATUS_OK, client')" "conn_sent client = []"
    "\<forall>(op, buf) \<in> set messages. length buf \<le> 10000000"
    "alive (conn_reads server)" "stream (conn_reads server) = conn_sent client'"
  shows "\<exists>server'. read_messages malloc server (length messages) =
      Some (map (\<lambda>(op, buf). (wire_op op, buf)) messages, server') \<and> stream (conn_reads server') = []"
  using read_messages_frames [of server messages "[]" malloc] write_messages_sent [OF assms(1)] assms(2-)
  by auto

text \<open>Two messages, written in pieces of one to seven bytes and read in pieces of nine and eleven.\<close>

definition test_messages :: "(wire_op_t \<times> bytes) list" where
  "test_messages = [(WIRE_PACKETS_START, [0, 0, 0, 2]), (WIRE_SERVER_READY, [])]"

definition test_writer :: wire_conn where
  "test_writer = wire_conn_new [] [Wrote 1, Write_again, Wrote 2, Wrote 7, Wrote 3, Write_again, Wrote 4, Wrote 5, Wrote 6]"

definition test_reader :: wire_conn where
  "test_reader = wire_conn_new [Read [0, 0, 0, 12, 0, 0, 0, 7, 0], Read_again, Read [0, 0, 2, 0, 0, 0, 8, 0, 0, 0, 5]] []"

lemma wire_messages_roundtrip_witness:
  "\<exists>server'. read_messages (\<lambda>_. 0) test_reader 2 = Some ([(7, [0, 0, 0, 2]), (5, [])], server') \<and>
     stream (conn_reads server') = []"
proof -
  define client' where "client' = (case write_messages test_writer test_messages of Some (_, c) \<Rightarrow> c | None \<Rightarrow> test_writer)"
  have w: "write_messages test_writer test_messages = Some (STATUS_OK, client')"
    "conn_sent client' = [0, 0, 0, 12, 0, 0, 0, 7, 0, 0, 0, 2, 0, 0, 0, 8, 0, 0, 0, 5]"
    unfolding client'_def
    by (simp_all add: test_writer_def test_messages_def wire_conn_new_def wire_conn_write_def wire_then_def
        write_bytes_def wire_header_def be32_bytes_of_def byte_of_def)
  show ?thesis
    using wire_messages_roundtrip [OF w(1), of test_reader "\<lambda>_. 0"] w(2)
    by (simp add: test_writer_def test_reader_def test_messages_def wire_conn_new_def numeral_2_eq_2 del: read_messages.simps)
qed

end
