(* ===== verification/Wire.thy ===== *)
theory Wire
  imports WireConn RunPacket
begin

section \<open>Wire client and wire server\<close>

text \<open>
  The model of \<^verbatim>\<open>wire_client.c\<close> and \<^verbatim>\<open>wire_server.c\<close>: the two ends of a remote test, which share the command
  line, the script and the packet events over a connection. The client dies on an error, the server ends the
  thread of the connection. A byte that \<^verbatim>\<open>malloc\<close> finds is an argument; the parser of scripts is a parameter,
  as its source is generated. The network devices, locks and the threads of the server are left out.
\<close>

subsection \<open>Strings in messages\<close>

definition bytes_of_string :: "string \<Rightarrow> bytes" where
  "bytes_of_string s = map (\<lambda>c. word_of_nat (of_char c)) s"

definition string_of_bytes :: "bytes \<Rightarrow> string" where
  "string_of_bytes bs = map (\<lambda>b. char_of (unat b)) bs"

text \<open>\<^verbatim>\<open>strndup\<close>: the bytes up to the first zero.\<close>

definition strndup :: "bytes \<Rightarrow> nat \<Rightarrow> string" where
  "strndup buf n = string_of_bytes (takeWhile (\<lambda>b. b \<noteq> 0) (take n buf))"

text \<open>\<^verbatim>\<open>strstr\<close> finds the second string in the first.\<close>

definition has_substring :: "string \<Rightarrow> string \<Rightarrow> bool" where
  "has_substring s t \<longleftrightarrow> list_ex (\<lambda>i. take (length t) (drop i s) = t) [0..<length s + 1]"

text \<open>The types of events.\<close>

datatype event_t = Invalid_event | Packet_event | Syscall_event | Command_event | Code_event

definition event_type :: "event \<Rightarrow> event_t" where
  "event_type event = (case ev_body event of
     INVALID_EVENT \<Rightarrow> Invalid_event | PACKET_EVENT _ \<Rightarrow> Packet_event | SYSCALL_EVENT _ \<Rightarrow> Syscall_event
   | COMMAND_EVENT _ \<Rightarrow> Command_event | CODE_EVENT _ \<Rightarrow> Code_event)"

subsection \<open>The client\<close>

record wire_client =
  wc_conn :: wire_conn
  wc_client_ether_addr :: bytes
  wc_last_event_type :: event_t
  wc_num_events :: nat

definition wire_client_new :: "wire_conn \<Rightarrow> bytes \<Rightarrow> wire_client" where
  "wire_client_new conn hw =
     \<lparr>wc_conn = conn, wc_client_ether_addr = hw, wc_last_event_type = Invalid_event, wc_num_events = 0\<rparr>"

text \<open>\<^verbatim>\<open>wire_client_die\<close> ends the process.\<close>

definition or_die :: "(status \<times> wire_conn) option \<Rightarrow> wire_client \<Rightarrow> wire_client run option" where
  "or_die r wc = map_option (\<lambda>(status, conn). if status = STATUS_OK then Done (wc\<lparr>wc_conn := conn\<rparr>) else Die) r"

definition wire_client_serialize_argv :: "string list \<Rightarrow> bytes" where
  "wire_client_serialize_argv argv =
     concat (map (\<lambda>arg. if has_substring arg ''-wire_client'' then [] else bytes_of_string arg @ [0]) argv)"

definition wire_client_send_args :: "string list \<Rightarrow> wire_client \<Rightarrow> wire_client run option" where
  "wire_client_send_args argv wc =
     or_die (wire_conn_write (wc_conn wc) WIRE_COMMAND_LINE_ARGS (wire_client_serialize_argv argv)) wc"

definition wire_client_send_script_path :: "string \<Rightarrow> wire_client \<Rightarrow> wire_client run option" where
  "wire_client_send_script_path path wc =
     or_die (wire_conn_write (wc_conn wc) WIRE_SCRIPT_PATH (bytes_of_string path)) wc"

definition wire_client_send_script :: "string \<Rightarrow> wire_client \<Rightarrow> wire_client run option" where
  "wire_client_send_script buffer wc =
     or_die (wire_conn_write (wc_conn wc) WIRE_SCRIPT (bytes_of_string buffer)) wc"

definition wire_client_send_hw_address :: "wire_client \<Rightarrow> wire_client run option" where
  "wire_client_send_hw_address wc =
     or_die (wire_conn_write (wc_conn wc) WIRE_HARDWARE_ADDR (wc_client_ether_addr wc)) wc"

definition wire_client_receive_server_ready :: "(nat \<Rightarrow> u8) \<Rightarrow> wire_client \<Rightarrow> wire_client run option" where
  "wire_client_receive_server_ready malloc wc =
     map_option (\<lambda>(r, conn). case r of
        None \<Rightarrow> Die
      | Some (op, buf_len) \<Rightarrow>
          if op \<noteq> wire_op WIRE_SERVER_READY then Die else if buf_len \<noteq> 0 then Die else Done (wc\<lparr>wc_conn := conn\<rparr>))
     (wire_conn_read malloc (wc_conn wc))"

definition wire_client_send_client_starting :: "wire_client \<Rightarrow> wire_client run option" where
  "wire_client_send_client_starting wc = or_die (wire_conn_write (wc_conn wc) WIRE_CLIENT_STARTING []) wc"

definition wire_client_send_packets_start :: "wire_client \<Rightarrow> wire_client run option" where
  "wire_client_send_packets_start wc =
     or_die (wire_conn_write (wc_conn wc) WIRE_PACKETS_START (be32_bytes_of (word_of_nat (wc_num_events wc)))) wc"

text \<open>The loop over the warnings up to the message that the server is done: the length of that message. Every
  turn reads a message; the loop does not end while the server sends warnings.\<close>

partial_function (option) receive_warnings :: "(nat \<Rightarrow> u8) \<Rightarrow> wire_client \<Rightarrow> (nat \<times> wire_client) run option" where
  "receive_warnings malloc wc =
     (case wire_conn_read malloc (wc_conn wc) of
        None \<Rightarrow> None
      | Some (None, conn) \<Rightarrow> Some Die
      | Some (Some (op, buf_len), conn) \<Rightarrow>
          if op = wire_op WIRE_PACKETS_DONE then Some (Done (buf_len, wc\<lparr>wc_conn := conn\<rparr>))
          else if op = wire_op WIRE_PACKETS_WARN
          then receive_warnings malloc (wc\<lparr>wc_conn := print_error (strndup (conn_buf conn) buf_len) conn\<rparr>)
          else Some Die)"

text \<open>The checks of the message that the server is done; its fields are result, number of events and error.\<close>

definition check_packets_done :: "nat \<Rightarrow> wire_client \<Rightarrow> wire_client run" where
  "check_packets_done buf_len wc =
     (let buf = conn_buf (wc_conn wc) in
      if buf_len < 8 + 1 then Die
      else rbind (ld8 buf (buf_len - 1)) (\<lambda>end.
        if end \<noteq> 0 then Die
        else rbind (ld_be32 buf 0) (\<lambda>result. rbind (ld_be32 buf 4) (\<lambda>num_events.
          if result = -1 then Die
          else if num_events \<noteq> word_of_nat (wc_num_events wc) then Die
          else Done wc))))"

definition wire_client_receive_packets_done :: "(nat \<Rightarrow> u8) \<Rightarrow> wire_client \<Rightarrow> wire_client run option" where
  "wire_client_receive_packets_done malloc wc =
     bind_fuel (receive_warnings malloc wc) (\<lambda>(buf_len, wc). Some (check_packets_done buf_len wc))"

text \<open>Getting the hardware address and connecting are calls of the system and come before.\<close>

definition wire_client_init ::
  "(nat \<Rightarrow> u8) \<Rightarrow> string list \<Rightarrow> string \<Rightarrow> string \<Rightarrow> wire_client \<Rightarrow> wire_client run option" where
  "wire_client_init malloc argv path buffer wc =
     bind_fuel (wire_client_send_args argv wc) (\<lambda>wc.
     bind_fuel (wire_client_send_script_path path wc) (\<lambda>wc.
     bind_fuel (wire_client_send_script buffer wc) (\<lambda>wc.
     bind_fuel (wire_client_send_hw_address wc) (\<lambda>wc.
     wire_client_receive_server_ready malloc wc))))"

definition wire_client_next_event :: "(nat \<Rightarrow> u8) \<Rightarrow> event_t option \<Rightarrow> wire_client \<Rightarrow> wire_client run option" where
  "wire_client_next_event malloc event wc =
     bind_fuel (if event = Some Packet_event \<and> wc_last_event_type wc \<noteq> Packet_event
       then wire_client_send_packets_start wc else Some (Done wc)) (\<lambda>wc.
     bind_fuel (if event \<noteq> Some Packet_event \<and> wc_last_event_type wc = Packet_event
       then wire_client_receive_packets_done malloc wc else Some (Done wc)) (\<lambda>wc.
     Some (Done (case event of
       None \<Rightarrow> wc
     | Some t \<Rightarrow> wc\<lparr>wc_last_event_type := t, wc_num_events := Suc (wc_num_events wc)\<rparr>))))"

subsection \<open>The server\<close>

record wire_server =
  ws_conn :: wire_conn
  ws_argv :: "string list"
  ws_state :: "state option"
  ws_script_path :: string
  ws_script_buffer :: string
  ws_client_ether_addr :: bytes
  ws_last_event_type :: event_t
  ws_num_events :: nat

definition wire_server_new :: "wire_conn \<Rightarrow> wire_server" where
  "wire_server_new accepted_conn =
     \<lparr>ws_conn = accepted_conn, ws_argv = [], ws_state = None, ws_script_path = [], ws_script_buffer = [],
      ws_client_ether_addr = replicate 6 0, ws_last_event_type = Invalid_event, ws_num_events = 0\<rparr>"

text \<open>\<open>n\<close> strings that follow each other, each copied with \<^verbatim>\<open>strdup\<close>, which reads up to a zero.\<close>

fun dup_strings :: "nat \<Rightarrow> bytes \<Rightarrow> string list run" where
  "dup_strings 0 buf = Done []"
| "dup_strings (Suc n) buf =
     (if 0 \<notin> set buf then Oob
      else (let s = takeWhile (\<lambda>b. b \<noteq> 0) buf in
        rbind (dup_strings n (drop (length s + 1) buf)) (\<lambda>ss. Done (string_of_bytes s # ss))))"

text \<open>The loop copies a string for the added argument too, from behind the message, and replaces it.\<close>

definition wire_server_unserialize_argv :: "bytes \<Rightarrow> nat \<Rightarrow> string list run" where
  "wire_server_unserialize_argv buf args_len =
     (let argc = length (filter (\<lambda>b. b = 0) (take args_len buf)) + 1 in
      rbind (dup_strings argc buf) (\<lambda>argv. Done (argv[argc - 1 := ''--wire_server''])))"

text \<open>Reading a message of the given operation: the bytes of the buffer and the length, or the status
  \<^verbatim>\<open>STATUS_ERR\<close>.\<close>

definition expect :: "(nat \<Rightarrow> u8) \<Rightarrow> wire_op_t \<Rightarrow> string \<Rightarrow> wire_server \<Rightarrow>
    (bytes \<Rightarrow> nat \<Rightarrow> wire_server \<Rightarrow> (status \<times> wire_server) run) \<Rightarrow> (status \<times> wire_server) run option" where
  "expect malloc op name ws f =
     map_option (\<lambda>(r, conn). case r of
        None \<Rightarrow> Done (STATUS_ERR, ws\<lparr>ws_conn := conn\<rparr>)
      | Some (op', buf_len) \<Rightarrow>
          if op' \<noteq> wire_op op
          then Done (STATUS_ERR, ws\<lparr>ws_conn := print_error (''bad wire client: expected '' @ name) conn\<rparr>)
          else f (conn_buf conn) buf_len (ws\<lparr>ws_conn := conn\<rparr>))
     (wire_conn_read malloc (ws_conn ws))"

definition server_error :: "string \<Rightarrow> wire_server \<Rightarrow> (status \<times> wire_server) run" where
  "server_error msg ws = Done (STATUS_ERR, ws\<lparr>ws_conn := print_error msg (ws_conn ws)\<rparr>)"

definition wire_server_receive_args :: "(nat \<Rightarrow> u8) \<Rightarrow> wire_server \<Rightarrow> (status \<times> wire_server) run option" where
  "wire_server_receive_args malloc ws = expect malloc WIRE_COMMAND_LINE_ARGS ''WIRE_COMMAND_LINE_ARGS'' ws
     (\<lambda>buf buf_len ws. rbind (wire_server_unserialize_argv buf buf_len) (\<lambda>argv.
       Done (STATUS_OK, ws\<lparr>ws_argv := argv\<rparr>)))"

definition wire_server_receive_script_path :: "(nat \<Rightarrow> u8) \<Rightarrow> wire_server \<Rightarrow> (status \<times> wire_server) run option" where
  "wire_server_receive_script_path malloc ws = expect malloc WIRE_SCRIPT_PATH ''WIRE_SCRIPT_PATH'' ws
     (\<lambda>buf buf_len ws. Done (STATUS_OK, ws\<lparr>ws_script_path := strndup buf buf_len\<rparr>))"

definition wire_server_receive_script :: "(nat \<Rightarrow> u8) \<Rightarrow> wire_server \<Rightarrow> (status \<times> wire_server) run option" where
  "wire_server_receive_script malloc ws = expect malloc WIRE_SCRIPT ''WIRE_SCRIPT'' ws
     (\<lambda>buf buf_len ws. Done (STATUS_OK, ws\<lparr>ws_script_buffer := strndup buf buf_len\<rparr>))"

definition wire_server_receive_hw_address :: "(nat \<Rightarrow> u8) \<Rightarrow> wire_server \<Rightarrow> (status \<times> wire_server) run option" where
  "wire_server_receive_hw_address malloc ws = expect malloc WIRE_HARDWARE_ADDR ''WIRE_HARDWARE_ADDR'' ws
     (\<lambda>buf buf_len ws.
       if buf_len \<noteq> 6 then server_error ''bad wire client: bad hw address length'' ws
       else Done (STATUS_OK, ws\<lparr>ws_client_ether_addr := take 6 buf\<rparr>))"

definition server_write :: "wire_op_t \<Rightarrow> bytes \<Rightarrow> string \<Rightarrow> wire_server \<Rightarrow> (status \<times> wire_server) run option" where
  "server_write op buf name ws =
     map_option (\<lambda>(status, conn).
       if status = STATUS_OK then Done (STATUS_OK, ws\<lparr>ws_conn := conn\<rparr>)
       else server_error (''error sending '' @ name) (ws\<lparr>ws_conn := conn\<rparr>))
     (wire_conn_write (ws_conn ws) op buf)"

definition wire_server_send_server_ready :: "wire_server \<Rightarrow> (status \<times> wire_server) run option" where
  "wire_server_send_server_ready ws = server_write WIRE_SERVER_READY [] ''WIRE_SERVER_READY'' ws"

definition wire_server_receive_client_starting :: "(nat \<Rightarrow> u8) \<Rightarrow> wire_server \<Rightarrow> (status \<times> wire_server) run option" where
  "wire_server_receive_client_starting malloc ws = expect malloc WIRE_CLIENT_STARTING ''WIRE_CLIENT_STARTING'' ws
     (\<lambda>buf buf_len ws.
       if buf_len \<noteq> 0 then server_error ''bad wire client: bad WIRE_CLIENT_STARTING length'' ws
       else Done (STATUS_OK, ws))"

definition wire_server_receive_packets_start :: "(nat \<Rightarrow> u8) \<Rightarrow> wire_server \<Rightarrow> (status \<times> wire_server) run option" where
  "wire_server_receive_packets_start malloc ws = expect malloc WIRE_PACKETS_START ''WIRE_PACKETS_START'' ws
     (\<lambda>buf buf_len ws.
       if buf_len \<noteq> 4 then server_error ''bad wire client: bad WIRE_PACKETS_START length'' ws
       else rbind (ld_be32 buf 0) (\<lambda>n.
         if n \<noteq> word_of_nat (ws_num_events ws)
         then server_error (''bad client event count; expected '' @ dec (ws_num_events ws) @ '' but got '' @ dec_int (sint n)) ws
         else Done (STATUS_OK, ws)))"

definition wire_server_send_packet_warning :: "string \<Rightarrow> wire_server \<Rightarrow> (status \<times> wire_server) run option" where
  "wire_server_send_packet_warning warning ws =
     server_write WIRE_PACKETS_WARN (bytes_of_string warning) ''WIRE_PACKETS_WARN'' ws"

fun status_code :: "status \<Rightarrow> u32" where
  "status_code STATUS_OK = 0"
| "status_code STATUS_ERR = -1"
| "status_code STATUS_WARN = -2"

definition packets_done :: "status \<Rightarrow> nat \<Rightarrow> string \<Rightarrow> bytes" where
  "packets_done result n error =
     be32_bytes_of (status_code result) @ be32_bytes_of (word_of_nat n) @ bytes_of_string error @ [0]"

definition wire_server_send_packets_done :: "status \<Rightarrow> string \<Rightarrow> wire_server \<Rightarrow> (status \<times> wire_server) run option" where
  "wire_server_send_packets_done result error ws =
     server_write WIRE_PACKETS_DONE (packets_done result (ws_num_events ws) error) ''WIRE_PACKETS_DONE'' ws"

text \<open>Calls in sequence; the first that fails ends the function with \<^verbatim>\<open>STATUS_ERR\<close>.\<close>

definition server_then :: "(status \<times> wire_server) run option \<Rightarrow>
    (wire_server \<Rightarrow> (status \<times> wire_server) run option) \<Rightarrow> (status \<times> wire_server) run option" where
  "server_then r f = bind_fuel r (\<lambda>(status, ws). if status = STATUS_OK then f ws else Some (Done (STATUS_ERR, ws)))"

definition wire_server_next_event :: "(nat \<Rightarrow> u8) \<Rightarrow> event_t option \<Rightarrow> wire_server \<Rightarrow> (status \<times> wire_server) run option" where
  "wire_server_next_event malloc event ws =
     server_then (if event = Some Packet_event \<and> ws_last_event_type ws \<noteq> Packet_event
       then wire_server_receive_packets_start malloc ws else Some (Done (STATUS_OK, ws))) (\<lambda>ws.
     server_then (if event \<noteq> Some Packet_event \<and> ws_last_event_type ws = Packet_event
       then wire_server_send_packets_done STATUS_OK [] ws else Some (Done (STATUS_OK, ws))) (\<lambda>ws.
     Some (Done (STATUS_OK, case event of
       None \<Rightarrow> ws
     | Some t \<Rightarrow> ws\<lparr>ws_last_event_type := t, ws_num_events := Suc (ws_num_events ws)\<rparr>))))"

subsection \<open>Running a script on the server\<close>

text \<open>Telling the client of an error or a warning: the status, \<^verbatim>\<open>STATUS_ERR\<close> when that fails.\<close>

definition report_packet_result :: "status \<Rightarrow> string \<Rightarrow> wire_server \<Rightarrow> (status \<times> wire_server) run option" where
  "report_packet_result result error ws =
     (if result = STATUS_ERR then bind_fuel (wire_server_send_packets_done STATUS_ERR error ws) (\<lambda>(_, ws).
        Some (Done (STATUS_ERR, ws)))
      else if result = STATUS_WARN then bind_fuel (wire_server_send_packet_warning error ws) (\<lambda>(status, ws).
        Some (Done (if status = STATUS_OK then STATUS_WARN else STATUS_ERR, ws)))
      else Some (Done (result, ws)))"

definition wire_server_run_packet_event ::
  "world \<Rightarrow> nat \<Rightarrow> wire_server \<Rightarrow> state \<Rightarrow> event \<Rightarrow> packet \<Rightarrow> (status \<times> wire_server) run option" where
  "wire_server_run_packet_event w fuel ws st event packet =
     bind_fuel (run_packet_event w fuel st event packet) (\<lambda>(result, error, st).
     report_packet_result result error (ws\<lparr>ws_state := Some st\<rparr>))"

text \<open>A turn of the loop of \<^verbatim>\<open>wire_server_run_script\<close> per unit of fuel; \<open>st\<close> is the interpreter's state.\<close>

fun wire_server_run_loop :: "(nat \<Rightarrow> u8) \<Rightarrow> world \<Rightarrow> nat \<Rightarrow> wire_server \<Rightarrow> state \<Rightarrow> (status \<times> wire_server) run option" where
  "wire_server_run_loop malloc w 0 ws st = None"
| "wire_server_run_loop malloc w (Suc fuel) ws st =
     bind_fuel (Some (get_next_event st)) (\<lambda>(error, st).
     let ws = ws\<lparr>ws_state := Some st\<rparr> in
     if error \<noteq> None then Some (Done (STATUS_ERR, ws))
     else (case st_event st of
       None \<Rightarrow> bind_fuel (wire_server_next_event malloc None ws) (\<lambda>(_, ws). Some (Done (STATUS_OK, ws)))
     | Some i \<Rightarrow>
         server_then (wire_server_next_event malloc (Some (event_type (st_events st ! i))) ws) (\<lambda>ws.
         let st = adjust_relative_event_times w i st; event = st_events st ! i; ws = ws\<lparr>ws_state := Some st\<rparr> in
         (case ev_body event of
            PACKET_EVENT packet \<Rightarrow>
              bind_fuel (wire_server_run_packet_event w (Suc fuel) ws st event packet) (\<lambda>(result, ws).
                if result = STATUS_ERR then Some (Done (STATUS_ERR, ws))
                else (case ws_state ws of None \<Rightarrow> Some Oob | Some st \<Rightarrow> wire_server_run_loop malloc w fuel ws st))
          | INVALID_EVENT \<Rightarrow> Some Die
          | _ \<Rightarrow> wire_server_run_loop malloc w fuel ws st))))"

definition wire_server_run_script :: "(nat \<Rightarrow> u8) \<Rightarrow> world \<Rightarrow> nat \<Rightarrow> wire_server \<Rightarrow> (status \<times> wire_server) run option" where
  "wire_server_run_script malloc w fuel ws = (case ws_state ws of
     None \<Rightarrow> Some Oob
   | Some st \<Rightarrow> (let (now, st) = now_usecs w st in wire_server_run_loop malloc w fuel ws (st\<lparr>live_start_time_usecs := now\<rparr>)))"

text \<open>The interpreter's state at the start of a script; a free port is taken from the system.\<close>

definition state_new :: "world \<Rightarrow> config \<Rightarrow> event list \<Rightarrow> state" where
  "state_new w config events =
     \<lparr>st_config = config, st_events = events, st_event = None, st_last_event = None, script_start_time_usecs = 0,
      script_last_time_usecs = 0, live_start_time_usecs = 0, num_events = 0, st_sockets = [], socket_under_test = None,
      next_ephemeral_port = int (unat (w_port w 0)), st_reads = 0, st_sleeps = [], st_rx = 0, st_ports = 1, st_sent = []\<rparr>"

text \<open>The arguments of \<^verbatim>\<open>parse_script_and_set_config\<close> are the command line, the path and the text.\<close>

type_synonym script_parser = "string list \<Rightarrow> string \<Rightarrow> string \<Rightarrow> (config \<times> event list) option"

definition wire_server_receive :: "(nat \<Rightarrow> u8) \<Rightarrow> wire_server \<Rightarrow> (status \<times> wire_server) run option" where
  "wire_server_receive malloc ws =
     server_then (wire_server_receive_args malloc ws) (\<lambda>ws.
     server_then (wire_server_receive_script_path malloc ws) (\<lambda>ws.
     server_then (wire_server_receive_script malloc ws) (\<lambda>ws.
     wire_server_receive_hw_address malloc ws)))"

definition wire_server_thread ::
  "script_parser \<Rightarrow> (nat \<Rightarrow> u8) \<Rightarrow> world \<Rightarrow> nat \<Rightarrow> wire_server \<Rightarrow> (status \<times> wire_server) run option" where
  "wire_server_thread parse malloc w fuel ws =
     server_then (wire_server_receive malloc ws) (\<lambda>ws.
     case parse (ws_argv ws) (ws_script_path ws) (ws_script_buffer ws) of
       None \<Rightarrow> Some (Done (STATUS_ERR, ws))
     | Some (config, events) \<Rightarrow>
         let ws = ws\<lparr>ws_state := Some (state_new w config events)\<rparr> in
         server_then (wire_server_send_server_ready ws) (\<lambda>ws.
         server_then (wire_server_receive_client_starting malloc ws) (\<lambda>ws.
         wire_server_run_script malloc w fuel ws)))"

subsection \<open>The command line survives the message\<close>

lemma of_char_less: "of_char c < (256 :: nat)"
  by (metis of_char_mod_256 mod_less_divisor zero_less_numeral)

lemma char_of_byte [simp]: "char_of (unat (word_of_nat (of_char c) :: u8)) = c"
  using of_char_less [of c] by (simp add: unat_of_nat)

lemma string_of_bytes_of_string [simp]: "string_of_bytes (bytes_of_string s) = s"
  by (simp add: string_of_bytes_def bytes_of_string_def comp_def)

lemma length_bytes_of_string [simp]: "length (bytes_of_string s) = length s"
  by (simp add: bytes_of_string_def)

lemma byte_zero: "(word_of_nat (of_char c) :: u8) = 0 \<longleftrightarrow> c = CHR 0x00"
proof -
  have "(word_of_nat (of_char c) :: u8) = 0 \<longleftrightarrow> of_char c = (0 :: nat)"
    using of_char_less [of c] by (simp add: word_unat_eq_iff unat_of_nat)
  also have "\<dots> \<longleftrightarrow> c = CHR 0x00"
  proof
    assume "of_char c = (0 :: nat)"
    then have "c = char_of (0 :: nat)" by (metis char_of_char)
    then show "c = CHR 0x00" by (simp add: char_of_def)
  qed simp
  finally show ?thesis .
qed

text \<open>Strings of C contain no zero.\<close>

definition c_string :: "string \<Rightarrow> bool" where
  "c_string s \<longleftrightarrow> CHR 0x00 \<notin> set s"

lemma c_string_bytes [simp]: "c_string s \<Longrightarrow> 0 \<notin> set (bytes_of_string s)"
  by (auto simp: c_string_def bytes_of_string_def byte_zero) 

definition zero_ended :: "string list \<Rightarrow> bytes" where
  "zero_ended ss = concat (map (\<lambda>s. bytes_of_string s @ [0]) ss)"

lemma serialize_argv: "wire_client_serialize_argv argv = zero_ended (filter (\<lambda>a. \<not> has_substring a ''-wire_client'') argv)"
  by (induction argv) (simp_all add: wire_client_serialize_argv_def zero_ended_def)

lemma take_string: "0 \<notin> set xs \<Longrightarrow> takeWhile (\<lambda>b. b \<noteq> (0 :: u8)) (xs @ 0 # ys) = xs"
  by (induction xs) auto

lemma dup_strings_zero_ended:
  "\<forall>s \<in> set ss. c_string s \<Longrightarrow>
    dup_strings (length ss + n) (zero_ended ss @ rest) = rbind (dup_strings n rest) (\<lambda>us. Done (ss @ us))"
proof (induction ss)
  case Nil
  then show ?case by (cases "dup_strings n rest") (simp_all add: zero_ended_def)
next
  case (Cons s ss)
  have "zero_ended (s # ss) @ rest = bytes_of_string s @ 0 # (zero_ended ss @ rest)"
    by (simp add: zero_ended_def)
  moreover have "takeWhile (\<lambda>b. b \<noteq> 0) (bytes_of_string s @ 0 # (zero_ended ss @ rest)) = bytes_of_string s"
    using Cons.prems by (intro take_string) simp
  ultimately show ?case
    using Cons by (cases "dup_strings n rest") simp_all
qed

lemma count_zero_ended:
  "\<forall>s \<in> set ss. c_string s \<Longrightarrow> length (filter (\<lambda>b. b = 0) (zero_ended ss)) = length ss"
proof (induction ss)
  case (Cons s ss)
  have "filter (\<lambda>b. b = 0) (bytes_of_string s) = []"
    using Cons.prems c_string_bytes [of s] by (auto simp: filter_empty_conv)
  then show ?case using Cons by (simp add: zero_ended_def)
qed (simp add: zero_ended_def)

lemma unserialize_serialize:
  assumes "\<forall>a \<in> set argv. c_string a"
  shows "wire_server_unserialize_argv (wire_client_serialize_argv argv @ junk) (length (wire_client_serialize_argv argv)) =
    (if 0 \<in> set junk then Done (filter (\<lambda>a. \<not> has_substring a ''-wire_client'') argv @ [''--wire_server'']) else Oob)"
proof -
  define ss where "ss = filter (\<lambda>a. \<not> has_substring a ''-wire_client'') argv"
  have c: "\<forall>s \<in> set ss. c_string s" using assms by (simp add: ss_def)
  have "dup_strings (length ss + 1) (zero_ended ss @ junk) = rbind (dup_strings 1 junk) (\<lambda>us. Done (ss @ us))"
    by (rule dup_strings_zero_ended [OF c])
  then show ?thesis
    by (simp add: wire_server_unserialize_argv_def serialize_argv ss_def [symmetric] count_zero_ended [OF c])
qed

subsection \<open>The start of a session\<close>

lemma bind_fuel_simps [simp]:
  "bind_fuel (Some (Done x)) f = f x" "bind_fuel None f = None" "bind_fuel (Some Oob) f = Some Oob"
  "bind_fuel (Some Die) f = Some Die"
  by (simp_all add: bind_fuel_def)

lemma server_then_simps [simp]:
  "server_then (Some (Done (STATUS_OK, ws))) f = f ws" "server_then None f = None" "server_then (Some Oob) f = Some Oob"
  "server_then (Some (Done (STATUS_ERR, ws))) f = Some (Done (STATUS_ERR, ws))"
  by (simp_all add: server_then_def)

lemma or_die_sent:
  assumes "or_die (wire_conn_write (wc_conn wc) op buf) wc = Some (Done wc')"
  obtains conn where "wc' = wc\<lparr>wc_conn := conn\<rparr>" "conn_sent conn = conn_sent (wc_conn wc) @ frame op buf"
  using assms wire_conn_write_sent [of "wc_conn wc" op buf] by (auto simp: or_die_def split: if_splits)

lemma read_bytes_sent: "read_bytes conn n = Some (status, got, conn') \<Longrightarrow> conn_sent conn' = conn_sent conn"
  by (auto simp: read_bytes_def Let_def print_error_def split: option.splits)

lemma wire_conn_read_sent: "wire_conn_read malloc conn = Some (r, conn') \<Longrightarrow> conn_sent conn' = conn_sent conn"
  by (auto simp: wire_conn_read_def Let_def print_error_def make_room_def split: option.splits prod.splits if_splits
      dest!: read_bytes_sent)

lemma receive_server_ready_sent:
  "wire_client_receive_server_ready malloc wc = Some (Done wc') \<Longrightarrow> conn_sent (wc_conn wc') = conn_sent (wc_conn wc)"
  by (cases "wire_conn_read malloc (wc_conn wc)")
    (auto simp: wire_client_receive_server_ready_def split: option.splits prod.splits if_splits dest: wire_conn_read_sent)

text \<open>What the client sends at the start.\<close>

lemma wire_client_init_sent:
  assumes "wire_client_init malloc argv path buffer wc = Some (Done wc')"
  shows "conn_sent (wc_conn wc') = conn_sent (wc_conn wc) @ frames
    [(WIRE_COMMAND_LINE_ARGS, wire_client_serialize_argv argv), (WIRE_SCRIPT_PATH, bytes_of_string path),
     (WIRE_SCRIPT, bytes_of_string buffer), (WIRE_HARDWARE_ADDR, wc_client_ether_addr wc)]"
proof -
  obtain w1 w2 w3 w4 where w: "wire_client_send_args argv wc = Some (Done w1)" "wire_client_send_script_path path w1 = Some (Done w2)"
    "wire_client_send_script buffer w2 = Some (Done w3)" "wire_client_send_hw_address w3 = Some (Done w4)"
    "wire_client_receive_server_ready malloc w4 = Some (Done wc')"
    using assms by (auto simp: wire_client_init_def bind_fuel_Done)
  show ?thesis
    using w(1-4) receive_server_ready_sent [OF w(5)]
    by (auto simp: wire_client_send_args_def wire_client_send_script_path_def wire_client_send_script_def
        wire_client_send_hw_address_def elim!: or_die_sent)
qed

text \<open>A message was taken from the stream and nothing was written.\<close>

definition taken :: "wire_conn \<Rightarrow> wire_conn \<Rightarrow> bytes \<Rightarrow> bool" where
  "taken conn conn' rest \<longleftrightarrow> alive (conn_reads conn') \<and> stream (conn_reads conn') = rest \<and>
     conn_sent conn' = conn_sent conn \<and> conn_writes conn' = conn_writes conn"

lemma wire_conn_read_taken:
  assumes "alive (conn_reads conn)" "stream (conn_reads conn) = frame op buf @ rest" "length buf \<le> 10000000"
  obtains conn' where "wire_conn_read malloc conn = Some (Some (wire_op op, length buf), conn')" "taken conn conn' rest"
    "conn_buf conn' = buf @ drop (length buf) (conn_buf (make_room malloc (length buf) conn))"
  using wire_conn_read_frame [OF assms, of malloc] that by (auto simp: taken_def)

lemma expect_frame:
  assumes "alive (conn_reads (ws_conn ws))" "stream (conn_reads (ws_conn ws)) = frame op buf @ rest" "length buf \<le> 10000000"
  obtains conn where "taken (ws_conn ws) conn rest" "\<And>f. expect malloc op name ws f =
      Some (f (buf @ drop (length buf) (conn_buf (make_room malloc (length buf) (ws_conn ws)))) (length buf) (ws\<lparr>ws_conn := conn\<rparr>))"
proof -
  obtain conn where c: "wire_conn_read malloc (ws_conn ws) = Some (Some (wire_op op, length buf), conn)"
    "taken (ws_conn ws) conn rest"
    "conn_buf conn = buf @ drop (length buf) (conn_buf (make_room malloc (length buf) (ws_conn ws)))"
    using wire_conn_read_taken [OF assms, of malloc] by blast
  show thesis by (rule that [OF c(2)]) (simp add: expect_def c(1,3))
qed

lemma strndup_bytes: "c_string s \<Longrightarrow> strndup (bytes_of_string s @ junk) (length s) = s"
proof -
  assume "c_string s"
  then have "\<forall>b \<in> set (bytes_of_string s). b \<noteq> 0" using c_string_bytes by metis
  then show ?thesis by (simp add: strndup_def takeWhile_eq_all_conv [THEN iffD2])
qed

definition kept_argv :: "string list \<Rightarrow> string list" where
  "kept_argv argv = filter (\<lambda>a. \<not> has_substring a ''-wire_client'') argv @ [''--wire_server'']"

lemma receive_args_ok:
  assumes "alive (conn_reads (ws_conn ws))" "conn_buf (ws_conn ws) = []" "n = length (wire_client_serialize_argv argv)"
    "stream (conn_reads (ws_conn ws)) = frame WIRE_COMMAND_LINE_ARGS (wire_client_serialize_argv argv) @ rest"
    "n \<le> 10000000" "\<forall>a \<in> set argv. c_string a"
  obtains conn where "taken (ws_conn ws) conn rest" "wire_server_receive_args malloc ws = Some (if 0 \<in> malloc ` {n..<2 * n}
    then Done (STATUS_OK, ws\<lparr>ws_conn := conn, ws_argv := kept_argv argv\<rparr>) else Oob)"
proof -
  let ?args = "wire_client_serialize_argv argv"
  let ?junk = "drop (length ?args) (conn_buf (make_room malloc (length ?args) (ws_conn ws)))"
  have j: "0 \<in> set ?junk \<longleftrightarrow> 0 \<in> malloc ` {n..<2 * n}"
    using assms(2,3) by (simp add: make_room_def drop_map)
  obtain conn where c: "taken (ws_conn ws) conn rest" "\<And>f. expect malloc WIRE_COMMAND_LINE_ARGS ''WIRE_COMMAND_LINE_ARGS'' ws f =
      Some (f (?args @ ?junk) (length ?args) (ws\<lparr>ws_conn := conn\<rparr>))"
    using expect_frame [OF assms(1) assms(4), of malloc] assms(3,5) by blast
  show thesis
    by (rule that [OF c(1)])
      (simp add: wire_server_receive_args_def c(2) unserialize_serialize [OF assms(6)] j kept_argv_def)
qed

lemma receive_script_path_ok:
  assumes "alive (conn_reads (ws_conn ws))" "stream (conn_reads (ws_conn ws)) = frame WIRE_SCRIPT_PATH (bytes_of_string path) @ rest"
    "length path \<le> 10000000" "c_string path"
  obtains conn where "taken (ws_conn ws) conn rest"
    "wire_server_receive_script_path malloc ws = Some (Done (STATUS_OK, ws\<lparr>ws_conn := conn, ws_script_path := path\<rparr>))"
proof -
  let ?buf = "bytes_of_string path"
  obtain conn where c: "taken (ws_conn ws) conn rest" "\<And>f. expect malloc WIRE_SCRIPT_PATH ''WIRE_SCRIPT_PATH'' ws f =
      Some (f (?buf @ drop (length ?buf) (conn_buf (make_room malloc (length ?buf) (ws_conn ws)))) (length ?buf) (ws\<lparr>ws_conn := conn\<rparr>))"
    using expect_frame [OF assms(1,2), of malloc] assms(3) by auto
  show thesis by (rule that [OF c(1)]) (simp add: wire_server_receive_script_path_def c(2) strndup_bytes assms(3-))
qed

lemma receive_script_ok:
  assumes "alive (conn_reads (ws_conn ws))" "stream (conn_reads (ws_conn ws)) = frame WIRE_SCRIPT (bytes_of_string buffer) @ rest"
    "length buffer \<le> 10000000" "c_string buffer"
  obtains conn where "taken (ws_conn ws) conn rest"
    "wire_server_receive_script malloc ws = Some (Done (STATUS_OK, ws\<lparr>ws_conn := conn, ws_script_buffer := buffer\<rparr>))"
proof -
  let ?buf = "bytes_of_string buffer"
  obtain conn where c: "taken (ws_conn ws) conn rest" "\<And>f. expect malloc WIRE_SCRIPT ''WIRE_SCRIPT'' ws f =
      Some (f (?buf @ drop (length ?buf) (conn_buf (make_room malloc (length ?buf) (ws_conn ws)))) (length ?buf) (ws\<lparr>ws_conn := conn\<rparr>))"
    using expect_frame [OF assms(1,2), of malloc] assms(3) by auto
  show thesis by (rule that [OF c(1)]) (simp add: wire_server_receive_script_def c(2) strndup_bytes assms(3-))
qed

lemma receive_hw_address_ok:
  assumes "alive (conn_reads (ws_conn ws))" "stream (conn_reads (ws_conn ws)) = frame WIRE_HARDWARE_ADDR hw @ rest"
    "length hw = 6"
  obtains conn where "taken (ws_conn ws) conn rest"
    "wire_server_receive_hw_address malloc ws = Some (Done (STATUS_OK, ws\<lparr>ws_conn := conn, ws_client_ether_addr := hw\<rparr>))"
proof -
  let ?buf = "hw"
  obtain conn where c: "taken (ws_conn ws) conn rest" "\<And>f. expect malloc WIRE_HARDWARE_ADDR ''WIRE_HARDWARE_ADDR'' ws f =
      Some (f (?buf @ drop (length ?buf) (conn_buf (make_room malloc (length ?buf) (ws_conn ws)))) (length ?buf) (ws\<lparr>ws_conn := conn\<rparr>))"
    using expect_frame [OF assms(1,2), of malloc] assms(3) by auto
  show thesis by (rule that [OF c(1)]) (simp add: wire_server_receive_hw_address_def c(2)  assms(3-))
qed

lemma takenD: "taken conn conn' rest \<Longrightarrow> alive (conn_reads conn')" "taken conn conn' rest \<Longrightarrow> stream (conn_reads conn') = rest"
  by (simp_all add: taken_def)

lemma taken_trans: "taken a b r \<Longrightarrow> taken b c s \<Longrightarrow> taken a c s"
  by (simp add: taken_def)

lemma wire_server_receive_frames:
  assumes "alive (conn_reads (ws_conn ws))" "stream (conn_reads (ws_conn ws)) = frames
      [(WIRE_COMMAND_LINE_ARGS, wire_client_serialize_argv argv), (WIRE_SCRIPT_PATH, bytes_of_string path),
       (WIRE_SCRIPT, bytes_of_string buffer), (WIRE_HARDWARE_ADDR, hw)] @ rest"
    "conn_buf (ws_conn ws) = []" "\<forall>a \<in> set argv. c_string a" "c_string path" "c_string buffer" "length hw = 6"
    "n = length (wire_client_serialize_argv argv)" "n \<le> 10000000" "length path \<le> 10000000" "length buffer \<le> 10000000"
  shows "\<exists>conn. taken (ws_conn ws) conn rest \<and> wire_server_receive malloc ws = Some (if 0 \<in> malloc ` {n..<2 * n}
    then Done (STATUS_OK, ws\<lparr>ws_conn := conn, ws_argv := kept_argv argv, ws_script_path := path,
      ws_script_buffer := buffer, ws_client_ether_addr := hw\<rparr>)
    else Oob)"
proof -
  obtain c1 where 1: "taken (ws_conn ws) c1 (frame WIRE_SCRIPT_PATH (bytes_of_string path) @ frame WIRE_SCRIPT (bytes_of_string buffer) @
      frame WIRE_HARDWARE_ADDR hw @ rest)"
    "wire_server_receive_args malloc ws = Some (if 0 \<in> malloc ` {n..<2 * n}
      then Done (STATUS_OK, ws\<lparr>ws_conn := c1, ws_argv := kept_argv argv\<rparr>) else Oob)"
    by (rule receive_args_ok [OF assms(1,3,8) _ assms(9,4), of _ malloc]) (use assms(2) in auto)
  let ?ws = "ws\<lparr>ws_conn := c1, ws_argv := kept_argv argv\<rparr>"
  obtain c2 where 2: "taken c1 c2 (frame WIRE_SCRIPT (bytes_of_string buffer) @ frame WIRE_HARDWARE_ADDR hw @ rest)"
    "wire_server_receive_script_path malloc ?ws = Some (Done (STATUS_OK, ?ws\<lparr>ws_conn := c2, ws_script_path := path\<rparr>))"
    by (rule receive_script_path_ok [of ?ws path _ malloc]) (use assms(5,10) takenD [OF 1(1)] in auto)
  let ?ws2 = "?ws\<lparr>ws_conn := c2, ws_script_path := path\<rparr>"
  obtain c3 where 3: "taken c2 c3 (frame WIRE_HARDWARE_ADDR hw @ rest)"
    "wire_server_receive_script malloc ?ws2 = Some (Done (STATUS_OK, ?ws2\<lparr>ws_conn := c3, ws_script_buffer := buffer\<rparr>))"
    by (rule receive_script_ok [of ?ws2 buffer _ malloc]) (use assms(6,11) takenD [OF 2(1)] in auto)
  let ?ws3 = "?ws2\<lparr>ws_conn := c3, ws_script_buffer := buffer\<rparr>"
  obtain c4 where 4: "taken c3 c4 rest"
    "wire_server_receive_hw_address malloc ?ws3 = Some (Done (STATUS_OK, ?ws3\<lparr>ws_conn := c4, ws_client_ether_addr := hw\<rparr>))"
    by (rule receive_hw_address_ok [of ?ws3 hw _ malloc]) (use assms(7) takenD [OF 3(1)] in auto)
  have "taken (ws_conn ws) c4 rest" using 1(1) 2(1) 3(1) 4(1) taken_trans by blast
  moreover have "wire_server_receive malloc ws = Some (if 0 \<in> malloc ` {n..<2 * n}
      then Done (STATUS_OK, ?ws3\<lparr>ws_conn := c4, ws_client_ether_addr := hw\<rparr>) else Oob)"
    using 2(2) 3(2) 4(2) by (simp add: wire_server_receive_def 1(2))
  ultimately show ?thesis by (intro exI [of _ c4]) simp
qed

subsection \<open>Properties of the start of a session\<close>

lemma or_die_writable:
  assumes "writable (conn_writes (wc_conn wc)) (8 + length buf + n)"
  obtains conn where "or_die (wire_conn_write (wc_conn wc) op buf) wc = Some (Done (wc\<lparr>wc_conn := conn\<rparr>))"
    "writable (conn_writes conn) n" "conn_reads conn = conn_reads (wc_conn wc)"
    "conn_sent conn = conn_sent (wc_conn wc) @ frame op buf"
proof -
  obtain w where "wire_conn_write (wc_conn wc) op buf =
      Some (STATUS_OK, (wc_conn wc)\<lparr>conn_writes := w, conn_sent := conn_sent (wc_conn wc) @ frame op buf\<rparr>)" "writable w n"
    using wire_conn_write_frame [OF assms] by blast
  then show thesis
    by (intro that [of "(wc_conn wc)\<lparr>conn_writes := w, conn_sent := conn_sent (wc_conn wc) @ frame op buf\<rparr>"])
      (simp_all add: or_die_def)
qed

lemma wire_client_init_returns:
  assumes "alive (conn_reads (wc_conn wc))" "stream (conn_reads (wc_conn wc)) = frame WIRE_SERVER_READY [] @ rest"
    "writable (conn_writes (wc_conn wc)) (32 + length (wire_client_serialize_argv argv) + length path + length buffer +
      length (wc_client_ether_addr wc))"
  shows "\<exists>wc'. wire_client_init malloc argv path buffer wc = Some (Done wc')"
proof -
  let ?args = "wire_client_serialize_argv argv"
  obtain c1 where 1: "wire_client_send_args argv wc = Some (Done (wc\<lparr>wc_conn := c1\<rparr>))" "conn_reads c1 = conn_reads (wc_conn wc)"
    "writable (conn_writes c1) (24 + length path + length buffer + length (wc_client_ether_addr wc))"
    using or_die_writable [of wc ?args "24 + length path + length buffer + length (wc_client_ether_addr wc)"] assms(3)
    unfolding wire_client_send_args_def by (simp add: algebra_simps) blast
  obtain c2 where 2: "wire_client_send_script_path path (wc\<lparr>wc_conn := c1\<rparr>) = Some (Done (wc\<lparr>wc_conn := c2\<rparr>))"
    "conn_reads c2 = conn_reads c1" "writable (conn_writes c2) (16 + length buffer + length (wc_client_ether_addr wc))"
    using or_die_writable [of "wc\<lparr>wc_conn := c1\<rparr>" "bytes_of_string path" "16 + length buffer + length (wc_client_ether_addr wc)"] 1(3)
    unfolding wire_client_send_script_path_def by (simp add: algebra_simps) blast
  obtain c3 where 3: "wire_client_send_script buffer (wc\<lparr>wc_conn := c2\<rparr>) = Some (Done (wc\<lparr>wc_conn := c3\<rparr>))"
    "conn_reads c3 = conn_reads c2" "writable (conn_writes c3) (8 + length (wc_client_ether_addr wc))"
    using or_die_writable [of "wc\<lparr>wc_conn := c2\<rparr>" "bytes_of_string buffer" "8 + length (wc_client_ether_addr wc)"] 2(3)
    unfolding wire_client_send_script_def by (simp add: algebra_simps) blast
  obtain c4 where 4: "wire_client_send_hw_address (wc\<lparr>wc_conn := c3\<rparr>) = Some (Done (wc\<lparr>wc_conn := c4\<rparr>))"
    "conn_reads c4 = conn_reads c3"
    using or_die_writable [of "wc\<lparr>wc_conn := c3\<rparr>" "wc_client_ether_addr wc" 0] 3(3)
    unfolding wire_client_send_hw_address_def by simp blast
  obtain c5 where "wire_conn_read malloc c4 = Some (Some (wire_op WIRE_SERVER_READY, 0), c5)"
    using wire_conn_read_taken [of c4 WIRE_SERVER_READY "[]" rest malloc] assms(1,2) 1(2) 2(2) 3(2) 4(2) by auto
  then show ?thesis
    using 1(1) 2(1) 3(1) 4(1) by (simp add: wire_client_init_def wire_client_receive_server_ready_def)
qed

text \<open>C25: When the client has sent its command line, the path and the text of the script and its hardware
  address, the server reads exactly these, without the arguments that mention the wire client and with
  \<^verbatim>\<open>--wire_server\<close> added, however the stream is cut. The copy of one argument too many, from behind the
  message, runs past the buffer unless \<^verbatim>\<open>malloc\<close> left a zero in its second half.\<close>
theorem wire_handshake:
  assumes "wire_client_init malloc' argv path buffer wc = Some (Done wc')" "conn_sent (wc_conn wc) = []"
    "alive (conn_reads (ws_conn ws))" "stream (conn_reads (ws_conn ws)) = conn_sent (wc_conn wc')"
    "conn_buf (ws_conn ws) = []" "\<forall>a \<in> set argv. c_string a" "c_string path" "c_string buffer"
    "length (wc_client_ether_addr wc) = 6"
    "n = length (wire_client_serialize_argv argv)" "n \<le> 10000000" "length path \<le> 10000000" "length buffer \<le> 10000000"
  shows "\<exists>conn. wire_server_receive malloc ws = Some (if 0 \<in> malloc ` {n..<2 * n}
    then Done (STATUS_OK, ws\<lparr>ws_conn := conn, ws_argv := kept_argv argv, ws_script_path := path,
      ws_script_buffer := buffer, ws_client_ether_addr := wc_client_ether_addr wc\<rparr>)
    else Oob)"
  using wire_server_receive_frames [OF assms(3) _ assms(5-13), of "[]" malloc] wire_client_init_sent [OF assms(1)] assms(2,4)
  by auto

text \<open>A client that runs a script without commands on a connection that answers at once.\<close>

definition test_client :: wire_client where
  "test_client = wire_client_new
     (wire_conn_new [Read [0, 0, 0, 8, 0, 0, 0, 5]] (replicate 50 (Wrote 100))) [2, 0, 0, 0, 0, 7]"

definition test_argv :: "string list" where
  "test_argv = [''p'', ''-wire_client'', ''-v'']"

lemma test_argv_serialized: "wire_client_serialize_argv test_argv = [112, 0, 45, 118, 0]"
proof -
  have "has_substring ''p'' ''-wire_client'' = False" "has_substring ''-v'' ''-wire_client'' = False"
    "has_substring ''-wire_client'' ''-wire_client'' = True" by code_simp+
  then show ?thesis by (simp add: wire_client_serialize_argv_def test_argv_def bytes_of_string_def)
qed

definition test_sent :: bytes where
  "test_sent = frames [(WIRE_COMMAND_LINE_ARGS, [112, 0, 45, 118, 0]), (WIRE_SCRIPT_PATH, [97]), (WIRE_SCRIPT, [98]),
     (WIRE_HARDWARE_ADDR, [2, 0, 0, 0, 0, 7])]"

lemma test_client_stream:
  "alive (conn_reads (wc_conn test_client))" "stream (conn_reads (wc_conn test_client)) = frame WIRE_SERVER_READY [] @ []"
  by (simp_all add: test_client_def wire_client_new_def wire_conn_new_def frame_def wire_header_def be32_bytes_of_def byte_of_def)

lemma test_init_returns:
  obtains wc' where "wire_client_init (\<lambda>_. 0) test_argv ''a'' ''b'' test_client = Some (Done wc')"
    "conn_sent (wc_conn wc') = test_sent"
proof -
  have "writable (conn_writes (wc_conn test_client)) 45"
    by (simp add: test_client_def wire_client_new_def wire_conn_new_def writable_def filter_replicate)
  then obtain wc' where w: "wire_client_init (\<lambda>_. 0) test_argv ''a'' ''b'' test_client = Some (Done wc')"
    using wire_client_init_returns [OF test_client_stream, of test_argv "''a''" "''b''" "\<lambda>_. 0"]
    by (auto simp: test_argv_serialized test_client_def wire_client_new_def)
  then show thesis
    using that wire_client_init_sent [OF w]
    by (simp add: test_client_def wire_client_new_def wire_conn_new_def test_argv_serialized bytes_of_string_def test_sent_def)
qed

lemma wire_handshake_witness:
  "\<exists>conn. wire_server_receive (\<lambda>_. 0) (wire_server_new (wire_conn_new [Read test_sent] [])) =
    Some (Done (STATUS_OK, (wire_server_new (wire_conn_new [Read test_sent] []))\<lparr>ws_conn := conn,
      ws_argv := [''p'', ''-v'', ''--wire_server''], ws_script_path := ''a'', ws_script_buffer := ''b'',
      ws_client_ether_addr := [2, 0, 0, 0, 0, 7]\<rparr>))"
proof -
  obtain wc' where w: "wire_client_init (\<lambda>_. 0) test_argv ''a'' ''b'' test_client = Some (Done wc')"
    "conn_sent (wc_conn wc') = test_sent" by (rule test_init_returns)
  have k: "kept_argv test_argv = [''p'', ''-v'', ''--wire_server'']" by code_simp
  have c: "\<forall>a \<in> set test_argv. c_string a" "c_string ''a''" "c_string ''b''" "test_sent \<noteq> []"
    by (simp_all add: test_argv_def c_string_def test_sent_def frame_def wire_header_def be32_bytes_of_def)
  let ?ws = "wire_server_new (wire_conn_new [Read test_sent] [])"
  have "\<exists>conn. wire_server_receive (\<lambda>_. 0) ?ws = Some (if 0 \<in> (\<lambda>_ :: nat. 0 :: u8) ` {5..<2 * 5}
    then Done (STATUS_OK, ?ws\<lparr>ws_conn := conn, ws_argv := kept_argv test_argv, ws_script_path := ''a'',
      ws_script_buffer := ''b'', ws_client_ether_addr := wc_client_ether_addr test_client\<rparr>) else Oob)"
    by (rule wire_handshake [OF w(1)])
      (use c w(2) in \<open>simp_all add: test_argv_serialized test_client_def wire_client_new_def wire_conn_new_def wire_server_new_def\<close>)
  moreover have "0 \<in> (\<lambda>_ :: nat. 0 :: u8) ` {5..<2 * 5}" by (rule image_eqI [of _ _ 5]) simp_all
  moreover have "wc_client_ether_addr test_client = [2, 0, 0, 0, 0, 7]" by (simp add: test_client_def wire_client_new_def)
  ultimately show ?thesis by (simp only: k if_True)
qed

end
