(* ===== verification/WireSession.thy ===== *)
theory WireSession
  imports Wire
begin

section \<open>A session of wire client and wire server\<close>

text \<open>
  The two ends of \<open>Wire\<close> at work on the same script, as a step relation: a step is a call of
  \<^verbatim>\<open>wire_client_next_event\<close> on one side, one of \<^verbatim>\<open>wire_server_next_event\<close> with the report of a packet event on
  the other, or the arrival of some of the bytes that are on their way. The calls of \<^verbatim>\<open>write\<close> answer at the
  step in which they are made; a call that would block in \<^verbatim>\<open>read\<close> is not a step. A packet event ends well or
  with a warning. In every interleaving the two sides agree on the number of events, no side fails, none
  waits for ever and the session ends.
\<close>

subsection \<open>The step relation\<close>

text \<open>The calls that are left on each side, and the number of bytes of each direction that have arrived.\<close>

record session =
  s_client :: wire_client
  s_client_todo :: "event_t option list"
  s_server :: wire_server
  s_server_todo :: "event_t option list"
  s_down :: nat
  s_up :: nat
  s_failed :: bool

abbreviation set_client_writes :: "write_result list \<Rightarrow> wire_client \<Rightarrow> wire_client" where
  "set_client_writes writes wc \<equiv> wc\<lparr>wc_conn := (wc_conn wc)\<lparr>conn_writes := writes\<rparr>\<rparr>"

abbreviation set_server_writes :: "write_result list \<Rightarrow> wire_server \<Rightarrow> wire_server" where
  "set_server_writes writes ws \<equiv> ws\<lparr>ws_conn := (ws_conn ws)\<lparr>conn_writes := writes\<rparr>\<rparr>"

definition arrive :: "bytes \<Rightarrow> wire_conn \<Rightarrow> wire_conn" where
  "arrive bs conn = conn\<lparr>conn_reads := conn_reads conn @ [Read bs]\<rparr>"

text \<open>The server's turn for an event, which ends with the result of the packet event.\<close>

definition server_turn ::
  "(nat \<Rightarrow> u8) \<Rightarrow> event_t option \<Rightarrow> status \<Rightarrow> string \<Rightarrow> wire_server \<Rightarrow> (status \<times> wire_server) run option" where
  "server_turn malloc event result error ws =
     server_then (wire_server_next_event malloc event ws) (\<lambda>ws.
       if event = Some Packet_event then report_packet_result result error ws else Some (Done (STATUS_OK, ws)))"

inductive wire_step :: "(nat \<Rightarrow> u8) \<Rightarrow> session \<Rightarrow> session \<Rightarrow> bool" for malloc where
  client: "s_client_todo s = event # todo \<Longrightarrow> Write_error \<notin> set writes \<Longrightarrow>
     wire_client_next_event malloc event (set_client_writes writes (s_client s)) = Some (Done wc) \<Longrightarrow>
     wire_step malloc s (s\<lparr>s_client := wc, s_client_todo := todo\<rparr>)"
| client_fault: "s_client_todo s = event # todo \<Longrightarrow> Write_error \<notin> set writes \<Longrightarrow>
     wire_client_next_event malloc event (set_client_writes writes (s_client s)) = Some r \<Longrightarrow> r = Die \<or> r = Oob \<Longrightarrow>
     wire_step malloc s (s\<lparr>s_failed := True\<rparr>)"
| server: "s_server_todo s = event # todo \<Longrightarrow> Write_error \<notin> set writes \<Longrightarrow>
     result \<noteq> STATUS_ERR \<Longrightarrow> length error \<le> 10000000 \<Longrightarrow>
     server_turn malloc event result error (set_server_writes writes (s_server s)) = Some (Done (status, ws)) \<Longrightarrow>
     wire_step malloc s (s\<lparr>s_server := ws, s_server_todo := todo, s_failed := s_failed s \<or> status = STATUS_ERR\<rparr>)"
| server_fault: "s_server_todo s = event # todo \<Longrightarrow> Write_error \<notin> set writes \<Longrightarrow>
     result \<noteq> STATUS_ERR \<Longrightarrow> length error \<le> 10000000 \<Longrightarrow>
     server_turn malloc event result error (set_server_writes writes (s_server s)) = Some r \<Longrightarrow> r = Die \<or> r = Oob \<Longrightarrow>
     wire_step malloc s (s\<lparr>s_failed := True\<rparr>)"
| down: "bs \<noteq> [] \<Longrightarrow> drop (s_down s) (conn_sent (ws_conn (s_server s))) = bs @ rest \<Longrightarrow>
     wire_step malloc s (s\<lparr>s_client := (s_client s)\<lparr>wc_conn := arrive bs (wc_conn (s_client s))\<rparr>,
       s_down := s_down s + length bs\<rparr>)"
| up: "bs \<noteq> [] \<Longrightarrow> drop (s_up s) (conn_sent (wc_conn (s_client s))) = bs @ rest \<Longrightarrow>
     wire_step malloc s (s\<lparr>s_server := (s_server s)\<lparr>ws_conn := arrive bs (ws_conn (s_server s))\<rparr>,
       s_up := s_up s + length bs\<rparr>)"

text \<open>The start: both sides have the script before them, and nothing of the session was sent.\<close>

definition wire_start :: "event_t list \<Rightarrow> wire_client \<Rightarrow> wire_server \<Rightarrow> session" where
  "wire_start events wc ws =
     \<lparr>s_client = wc, s_client_todo = map Some events @ [None], s_server = ws, s_server_todo = map Some events @ [None],
      s_down = length (conn_sent (ws_conn ws)), s_up = length (conn_sent (wc_conn wc)), s_failed = False\<rparr>"

definition session_ready :: "wire_client \<Rightarrow> wire_server \<Rightarrow> bool" where
  "session_ready wc ws \<longleftrightarrow>
     wc_last_event_type wc = Invalid_event \<and> wc_num_events wc = 0 \<and> ws_last_event_type ws = Invalid_event \<and>
     ws_num_events ws = 0 \<and> alive (conn_reads (wc_conn wc)) \<and> stream (conn_reads (wc_conn wc)) = [] \<and>
     alive (conn_reads (ws_conn ws)) \<and> stream (conn_reads (ws_conn ws)) = []"

subsection \<open>Where messages are due\<close>

text \<open>Position \<open>k\<close> of a script: the type of the event before it, and whether the client announces packets or
  waits for the server there.\<close>

definition type_before :: "event_t option list \<Rightarrow> nat \<Rightarrow> event_t" where
  "type_before calls k = (if k = 0 then Invalid_event else the (calls ! (k - 1)))"

definition starts_at :: "event_t option list \<Rightarrow> nat \<Rightarrow> bool" where
  "starts_at calls k \<longleftrightarrow> calls ! k = Some Packet_event \<and> type_before calls k \<noteq> Packet_event"

definition ends_at :: "event_t option list \<Rightarrow> nat \<Rightarrow> bool" where
  "ends_at calls k \<longleftrightarrow> calls ! k \<noteq> Some Packet_event \<and> type_before calls k = Packet_event"

definition start_message :: "nat \<Rightarrow> wire_op_t \<times> bytes" where
  "start_message k = (WIRE_PACKETS_START, be32_bytes_of (word_of_nat k))"

definition done_message :: "nat \<Rightarrow> wire_op_t \<times> bytes" where
  "done_message k = (WIRE_PACKETS_DONE, packets_done STATUS_OK k [])"

definition warn_message :: "string \<Rightarrow> wire_op_t \<times> bytes" where
  "warn_message w = (WIRE_PACKETS_WARN, bytes_of_string w)"

text \<open>Messages of the script in front of position \<open>m\<close> are due from position \<open>n\<close> on.\<close>

definition due :: "(nat \<Rightarrow> bool) \<Rightarrow> nat \<Rightarrow> nat \<Rightarrow> nat list" where
  "due P n m = filter P [n..<m]"

subsection \<open>Reading what is on the way\<close>

lemma append_eq_cases:
  assumes "xs @ later = f @ rest"
  shows "length xs < length f \<and> xs = take (length xs) f \<and> later \<noteq> [] \<or> (\<exists>r. xs = f @ r \<and> r @ later = rest)"
proof (cases "length xs < length f")
  case True
  then show ?thesis using assms by (metis append.right_neutral append_eq_append_conv_if length_append linorder_not_less le_add1)
next
  case False
  then show ?thesis using assms by (auto simp: append_eq_append_conv2)
qed

text \<open>Reading a message of which a part has arrived: it blocks, or the message is taken.\<close>

lemma read_pending:
  assumes "alive (conn_reads conn)" "stream (conn_reads conn) @ later = frame op buf @ rest" "length buf \<le> 10000000"
  shows "wire_conn_read malloc conn = None \<and> later \<noteq> [] \<or>
    (\<exists>conn' r. wire_conn_read malloc conn = Some (Some (wire_op op, length buf), conn') \<and> taken conn conn' r \<and>
      r @ later = rest \<and> (\<exists>junk. conn_buf conn' = buf @ junk))"
  using append_eq_cases [OF assms(2)]
proof
  assume "length (stream (conn_reads conn)) < length (frame op buf) \<and>
    stream (conn_reads conn) = take (length (stream (conn_reads conn))) (frame op buf) \<and> later \<noteq> []"
  then show ?thesis using wire_conn_read_blocks [OF assms(1) _ _ assms(3)] by blast
next
  assume "\<exists>r. stream (conn_reads conn) = frame op buf @ r \<and> r @ later = rest"
  then obtain r where r: "stream (conn_reads conn) = frame op buf @ r" "r @ later = rest" by blast
  show ?thesis using wire_conn_read_taken [OF assms(1) r(1) assms(3), of malloc] r(2) by metis
qed

lemma read_nothing:
  assumes "alive (conn_reads conn)" "stream (conn_reads conn) = []"
  shows "wire_conn_read malloc conn = None"
  using read_loop_alive [OF assms(1), of 8 "[]"] assms(2) by (simp add: wire_conn_read_def read_bytes_def)

text \<open>Without an error of \<^verbatim>\<open>write\<close> a message is written in full, or its writing blocks.\<close>

lemma write_loop_no_error:
  "Write_error \<notin> set writes \<Longrightarrow> write_loop writes buf sent = None \<or>
    (\<exists>writes'. write_loop writes buf sent = Some (STATUS_OK, writes', sent @ buf) \<and> Write_error \<notin> set writes')"
  by (induction writes buf sent rule: write_loop.induct) auto

lemma write_bytes_no_error:
  assumes "Write_error \<notin> set (conn_writes conn)"
  shows "write_bytes conn buf = None \<or> (\<exists>writes'. write_bytes conn buf =
      Some (STATUS_OK, conn\<lparr>conn_writes := writes', conn_sent := conn_sent conn @ buf\<rparr>) \<and> Write_error \<notin> set writes')"
  using write_loop_no_error [OF assms, of buf "[]"] by (auto simp: write_bytes_def)

lemma wire_conn_write_no_error:
  assumes "Write_error \<notin> set (conn_writes conn)"
  shows "wire_conn_write conn op buf = None \<and> \<not> writable (conn_writes conn) (8 + length buf) \<or>
    (\<exists>writes'. wire_conn_write conn op buf =
      Some (STATUS_OK, conn\<lparr>conn_writes := writes', conn_sent := conn_sent conn @ frame op buf\<rparr>))"
proof (cases "writable (conn_writes conn) (8 + length buf)")
  case True
  then show ?thesis using wire_conn_write_frame [of conn buf 0] by auto
next
  case False
  from write_bytes_no_error [OF assms, of "wire_header op (length buf)"] show ?thesis
  proof (elim disjE exE conjE)
    fix w assume w: "write_bytes conn (wire_header op (length buf)) =
        Some (STATUS_OK, conn\<lparr>conn_writes := w, conn_sent := conn_sent conn @ wire_header op (length buf)\<rparr>)" "Write_error \<notin> set w"
    let ?conn = "conn\<lparr>conn_writes := w, conn_sent := conn_sent conn @ wire_header op (length buf)\<rparr>"
    show ?thesis using write_bytes_no_error [of ?conn buf] w False by (auto simp: wire_conn_write_def wire_then_def frame_def)
  qed (use False in \<open>simp add: wire_conn_write_def wire_then_def\<close>)
qed

text \<open>Answers that are enough.\<close>

lemma writable_ones: "writable (replicate n (Wrote 1)) n" "Write_error \<notin> set (replicate n (Wrote 1))"
  by (simp_all add: writable_def filter_replicate)

subsection \<open>The client's calls\<close>

lemma packets_done_bytes: "packets_done STATUS_OK k [] = [0, 0, 0, 0] @ be32_bytes_of (word_of_nat k) @ [0]"
  by (simp add: packets_done_def be32_bytes_of_def byte_of_def bytes_of_string_def)

lemma length_packets_done [simp]: "length (packets_done result k error) = 9 + length error"
  by (simp add: packets_done_def)

lemma check_packets_done_ok:
  assumes "conn_buf (wc_conn wc) = packets_done STATUS_OK k [] @ junk" "wc_num_events wc = k"
  shows "check_packets_done 9 wc = Done wc"
proof -
  have "be32 0 0 0 0 = 0" by (simp add: be32_def le32_def)
  then show ?thesis
    using assms by (simp add: check_packets_done_def packets_done_bytes be32_bytes_of_def ld_be32_def ld8_def)
qed

text \<open>Warnings and the report behind them: reading blocks, or the report is taken and the warnings printed.\<close>

lemma receive_warnings_pending:
  assumes "alive (conn_reads (wc_conn wc))" "\<forall>w \<in> set warnings. length w \<le> 10000000"
    "stream (conn_reads (wc_conn wc)) @ later = frames (map warn_message warnings @ map done_message ks)"
  shows "receive_warnings malloc wc = None \<and> (later \<noteq> [] \<or> ks = []) \<or>
    (\<exists>k ks' conn junk. ks = k # ks' \<and> receive_warnings malloc wc = Some (Done (9, wc\<lparr>wc_conn := conn\<rparr>)) \<and>
      alive (conn_reads conn) \<and> stream (conn_reads conn) @ later = frames (map done_message ks') \<and>
      conn_sent conn = conn_sent (wc_conn wc) \<and> conn_buf conn = packets_done STATUS_OK k [] @ junk)"
  using assms
proof (induction warnings arbitrary: wc)
  case Nil
  show ?case
  proof (cases ks)
    case Nil
    then have "wire_conn_read malloc (wc_conn wc) = None" using Nil.prems by (intro read_nothing) simp_all
    then show ?thesis using Nil by (simp add: receive_warnings.simps)
  next
    case (Cons k ks')
    then have "stream (conn_reads (wc_conn wc)) @ later =
        frame WIRE_PACKETS_DONE (packets_done STATUS_OK k []) @ frames (map done_message ks')"
      using Nil.prems by (simp add: done_message_def [of k])
    from read_pending [OF Nil.prems(1) this, of malloc]
    show ?thesis using Cons by (auto simp: receive_warnings.simps taken_def)
  qed
next
  case (Cons w warnings)
  let ?rest = "frames (map warn_message warnings @ map done_message ks)"
  have "stream (conn_reads (wc_conn wc)) @ later = frame WIRE_PACKETS_WARN (bytes_of_string w) @ ?rest"
    using Cons.prems(3) by (simp add: warn_message_def [of w])
  then consider (blocks) "wire_conn_read malloc (wc_conn wc) = None" "later \<noteq> []"
    | (takes) conn r where "wire_conn_read malloc (wc_conn wc) = Some (Some (wire_op WIRE_PACKETS_WARN, length w), conn)"
      "taken (wc_conn wc) conn r" "r @ later = ?rest"
    using read_pending [OF Cons.prems(1), of later WIRE_PACKETS_WARN "bytes_of_string w" ?rest malloc] Cons.prems(2) by auto
  then show ?case
  proof cases
    case blocks
    then show ?thesis by (simp add: receive_warnings.simps)
  next
    case takes
    let ?wc = "wc\<lparr>wc_conn := print_error (strndup (conn_buf conn) (length w)) conn\<rparr>"
    have e: "receive_warnings malloc wc = receive_warnings malloc ?wc"
      by (subst receive_warnings.simps) (simp add: takes(1))
    have p: "conn_reads (print_error msg conn) = conn_reads conn" "conn_sent (print_error msg conn) = conn_sent conn" for msg
      by (simp_all add: print_error_def)
    from Cons.IH [of ?wc] Cons.prems(2) takes(2,3)
    show ?thesis unfolding e by (auto simp: taken_def p)
  qed
qed

text \<open>A call at position \<open>i\<close> when the state is in order.\<close>

definition client_at :: "event_t option list \<Rightarrow> nat \<Rightarrow> wire_client \<Rightarrow> bool" where
  "client_at calls i wc \<longleftrightarrow> (i < length calls \<longrightarrow> wc_num_events wc = i \<and> wc_last_event_type wc = type_before calls i)"

definition server_at :: "event_t option list \<Rightarrow> nat \<Rightarrow> wire_server \<Rightarrow> bool" where
  "server_at calls j ws \<longleftrightarrow> (j < length calls \<longrightarrow> ws_num_events ws = j \<and> ws_last_event_type ws = type_before calls j)"

text \<open>A script: only the last call is without an event.\<close>

definition is_script :: "event_t option list \<Rightarrow> bool" where
  "is_script calls \<longleftrightarrow> (\<exists>events. calls = map Some events @ [None])"

lemma is_script_Some: "is_script calls \<Longrightarrow> Suc k < length calls \<Longrightarrow> \<exists>t. calls ! k = Some t"
  by (auto simp: is_script_def nth_append)

lemma type_before_Suc: "type_before calls (Suc k) = the (calls ! k)"
  by (simp add: type_before_def)

lemma client_at_Suc:
  assumes "is_script calls" "client_at calls i wc" "i < length calls"
  shows "client_at calls (Suc i) (case calls ! i of None \<Rightarrow> wc
    | Some t \<Rightarrow> wc\<lparr>wc_last_event_type := t, wc_num_events := Suc (wc_num_events wc)\<rparr>)"
  using assms is_script_Some [OF assms(1), of i] by (auto simp: client_at_def type_before_Suc split: option.splits)

lemma server_at_Suc:
  assumes "is_script calls" "server_at calls j ws" "j < length calls"
  shows "server_at calls (Suc j) (case calls ! j of None \<Rightarrow> ws
    | Some t \<Rightarrow> ws\<lparr>ws_last_event_type := t, ws_num_events := Suc (ws_num_events ws)\<rparr>)"
  using assms is_script_Some [OF assms(1), of j] by (auto simp: server_at_def type_before_Suc split: option.splits)

text \<open>The call of the client: it blocks, or it sends the announcement that is due, or takes the report that is
  due, and moves on.\<close>

lemma client_next_event_starts:
  assumes "client_at calls i wc" "i < length calls" "starts_at calls i" "Write_error \<notin> set (conn_writes (wc_conn wc))"
  shows "wire_client_next_event malloc (calls ! i) wc = None \<and> \<not> writable (conn_writes (wc_conn wc)) 12 \<or>
    (\<exists>writes. wire_client_next_event malloc (calls ! i) wc = Some (Done
      (wc\<lparr>wc_conn := (wc_conn wc)\<lparr>conn_writes := writes, conn_sent := conn_sent (wc_conn wc) @ frames [start_message i]\<rparr>,
        wc_last_event_type := Packet_event, wc_num_events := Suc (wc_num_events wc)\<rparr>)))"
  using wire_conn_write_no_error [OF assms(4), of WIRE_PACKETS_START "be32_bytes_of (word_of_nat i)"] assms(1-3)
  by (auto simp: wire_client_next_event_def starts_at_def client_at_def wire_client_send_packets_start_def or_die_def
      start_message_def)

lemma client_next_event_plain:
  assumes "client_at calls i wc" "i < length calls" "\<not> starts_at calls i" "\<not> ends_at calls i"
  shows "wire_client_next_event malloc (calls ! i) wc = Some (Done (case calls ! i of None \<Rightarrow> wc
    | Some t \<Rightarrow> wc\<lparr>wc_last_event_type := t, wc_num_events := Suc (wc_num_events wc)\<rparr>))"
  using assms by (auto simp: wire_client_next_event_def starts_at_def ends_at_def client_at_def)

lemma client_next_event_ends:
  assumes "client_at calls i wc" "i < length calls" "ends_at calls i" "ks = [] \<or> (\<exists>ks'. ks = i # ks')"
    "alive (conn_reads (wc_conn wc))" "\<forall>w \<in> set warnings. length w \<le> 10000000"
    "stream (conn_reads (wc_conn wc)) @ later = frames (map warn_message warnings @ map done_message ks)"
  shows "wire_client_next_event malloc (calls ! i) wc = None \<and> (later \<noteq> [] \<or> ks = []) \<or>
    (\<exists>conn. ks \<noteq> [] \<and> alive (conn_reads conn) \<and> conn_sent conn = conn_sent (wc_conn wc) \<and>
      stream (conn_reads conn) @ later = frames (map done_message (tl ks)) \<and>
      wire_client_next_event malloc (calls ! i) wc = Some (Done (case calls ! i of None \<Rightarrow> wc\<lparr>wc_conn := conn\<rparr>
        | Some t \<Rightarrow> wc\<lparr>wc_conn := conn, wc_last_event_type := t, wc_num_events := Suc (wc_num_events wc)\<rparr>)))"
  using receive_warnings_pending [OF assms(5-7), of malloc]
proof (elim disjE exE conjE)
  fix k ks' conn junk
  assume k: "ks = k # ks'" "receive_warnings malloc wc = Some (Done (9, wc\<lparr>wc_conn := conn\<rparr>))" "alive (conn_reads conn)"
    "stream (conn_reads conn) @ later = frames (map done_message ks')" "conn_sent conn = conn_sent (wc_conn wc)"
    "conn_buf conn = packets_done STATUS_OK k [] @ junk"
  have "check_packets_done 9 (wc\<lparr>wc_conn := conn\<rparr>) = Done (wc\<lparr>wc_conn := conn\<rparr>)"
    by (rule check_packets_done_ok [of _ k]) (use k assms in \<open>auto simp: client_at_def\<close>)
  then show ?thesis using k assms(1-3)
    by (intro disjI2 exI [of _ conn])
      (auto simp: wire_client_next_event_def ends_at_def client_at_def wire_client_receive_packets_done_def split: option.splits)
qed (use assms in \<open>auto simp: wire_client_next_event_def ends_at_def client_at_def wire_client_receive_packets_done_def\<close>)

subsection \<open>The server's calls\<close>

lemma server_write_no_error:
  assumes "Write_error \<notin> set (conn_writes (ws_conn ws))"
  shows "server_write op buf name ws = None \<and> \<not> writable (conn_writes (ws_conn ws)) (8 + length buf) \<or> (\<exists>writes. server_write op buf name ws = Some (Done (STATUS_OK,
    ws\<lparr>ws_conn := (ws_conn ws)\<lparr>conn_writes := writes, conn_sent := conn_sent (ws_conn ws) @ frame op buf\<rparr>\<rparr>)))"
  using wire_conn_write_no_error [OF assms, of op buf] by (auto simp: server_write_def)

lemma receive_packets_start_pending:
  assumes "alive (conn_reads (ws_conn ws))" "ws_num_events ws = k"
    "stream (conn_reads (ws_conn ws)) @ later = frames (map start_message (k # ks))"
  shows "wire_server_receive_packets_start malloc ws = None \<and> later \<noteq> [] \<or>
    (\<exists>conn r. wire_server_receive_packets_start malloc ws = Some (Done (STATUS_OK, ws\<lparr>ws_conn := conn\<rparr>)) \<and>
      taken (ws_conn ws) conn r \<and> r @ later = frames (map start_message ks))"
proof -
  let ?buf = "be32_bytes_of (word_of_nat k)"
  have s: "stream (conn_reads (ws_conn ws)) @ later = frame WIRE_PACKETS_START ?buf @ frames (map start_message ks)"
    using assms(3) by (simp add: start_message_def [of k])
  have l: "length ?buf \<le> 10000000" by simp
  show ?thesis using read_pending [OF assms(1) s l, of malloc]
  proof (elim disjE exE conjE)
    fix conn r junk
    assume c: "wire_conn_read malloc (ws_conn ws) = Some (Some (wire_op WIRE_PACKETS_START, length ?buf), conn)"
      "taken (ws_conn ws) conn r" "r @ later = frames (map start_message ks)" "conn_buf conn = ?buf @ junk"
    have "ld_be32 (conn_buf conn) 0 = Done (word_of_nat k)"
      by (simp add: c(4) ld_be32_def be32_bytes_of_def)
    then show ?thesis using c(1-3) assms(2)
      by (intro disjI2 exI [of _ conn] exI [of _ r]) (simp add: wire_server_receive_packets_start_def expect_def)
  qed (simp_all add: wire_server_receive_packets_start_def expect_def)
qed

lemma report_no_error:
  assumes "Write_error \<notin> set (conn_writes (ws_conn ws))" "result \<noteq> STATUS_ERR"
  shows "report_packet_result result error ws = None \<and> \<not> writable (conn_writes (ws_conn ws)) (8 + length error) \<or> (\<exists>status writes. status \<noteq> STATUS_ERR \<and>
    report_packet_result result error ws = Some (Done (status, ws\<lparr>ws_conn := (ws_conn ws)\<lparr>conn_writes := writes,
      conn_sent := conn_sent (ws_conn ws) @ frames (if result = STATUS_WARN then [warn_message error] else [])\<rparr>\<rparr>)))"
proof (cases result)
  case STATUS_OK
  then show ?thesis
    by (intro disjI2 exI [of _ STATUS_OK] exI [of _ "conn_writes (ws_conn ws)"]) (simp add: report_packet_result_def)
next
  case STATUS_WARN
  then show ?thesis
    using server_write_no_error [OF assms(1), of WIRE_PACKETS_WARN "bytes_of_string error" "''WIRE_PACKETS_WARN''"]
    by (auto simp: report_packet_result_def wire_server_send_packet_warning_def warn_message_def)
qed (use assms(2) in simp)

text \<open>The messages that the server's turn at \<open>j\<close> sends.\<close>

definition turn_messages :: "event_t option list \<Rightarrow> nat \<Rightarrow> status \<Rightarrow> string \<Rightarrow> (wire_op_t \<times> bytes) list" where
  "turn_messages calls j result error =
     (if ends_at calls j then [done_message j]
      else if calls ! j = Some Packet_event \<and> result = STATUS_WARN then [warn_message error] else [])"

definition server_moved :: "event_t option \<Rightarrow> wire_server \<Rightarrow> wire_server" where
  "server_moved event ws = (case event of None \<Rightarrow> ws
     | Some t \<Rightarrow> ws\<lparr>ws_last_event_type := t, ws_num_events := Suc (ws_num_events ws)\<rparr>)"

lemma server_turn_packet:
  assumes "calls ! j = Some Packet_event" "wire_server_next_event malloc (calls ! j) ws = Some (Done (STATUS_OK, ws'))"
    "Write_error \<notin> set (conn_writes (ws_conn ws'))" "result \<noteq> STATUS_ERR"
  shows "server_turn malloc (calls ! j) result error ws = None \<and> \<not> writable (conn_writes (ws_conn ws')) (8 + length error) \<or>
    (\<exists>status conn. status \<noteq> STATUS_ERR \<and> server_turn malloc (calls ! j) result error ws = Some (Done (status, ws'\<lparr>ws_conn := conn\<rparr>)) \<and>
      conn_reads conn = conn_reads (ws_conn ws') \<and>
      conn_sent conn = conn_sent (ws_conn ws') @ frames (turn_messages calls j result error))"
  using report_no_error [OF assms(3,4), of error]
proof (elim disjE exE conjE)
  fix status writes
  let ?conn = "(ws_conn ws')\<lparr>conn_writes := writes,
    conn_sent := conn_sent (ws_conn ws') @ frames (if result = STATUS_WARN then [warn_message error] else [])\<rparr>"
  assume "status \<noteq> STATUS_ERR" "report_packet_result result error ws' = Some (Done (status, ws'\<lparr>ws_conn := ?conn\<rparr>))"
  then show ?thesis using assms(1,2)
    by (intro disjI2 exI [of _ status] exI [of _ ?conn]) (simp add: server_turn_def turn_messages_def ends_at_def)
qed (use assms(1,2) in \<open>simp add: server_turn_def\<close>)

lemma server_turn_starts:
  assumes "server_at calls j ws" "j < length calls" "starts_at calls j" "Write_error \<notin> set (conn_writes (ws_conn ws))"
    "result \<noteq> STATUS_ERR" "alive (conn_reads (ws_conn ws))" "ks = [] \<or> (\<exists>ks'. ks = j # ks')"
    "stream (conn_reads (ws_conn ws)) @ later = frames (map start_message ks)"
  shows "server_turn malloc (calls ! j) result error ws = None \<and>
      (later \<noteq> [] \<or> ks = [] \<or> \<not> writable (conn_writes (ws_conn ws)) (8 + length error)) \<or>
    (\<exists>status conn. status \<noteq> STATUS_ERR \<and> ks \<noteq> [] \<and>
      server_turn malloc (calls ! j) result error ws = Some (Done (status, server_moved (calls ! j) (ws\<lparr>ws_conn := conn\<rparr>))) \<and>
      alive (conn_reads conn) \<and> stream (conn_reads conn) @ later = frames (map start_message (tl ks)) \<and>
      conn_sent conn = conn_sent (ws_conn ws) @ frames (turn_messages calls j result error))"
proof (cases ks)
  case Nil
  then have "wire_conn_read malloc (ws_conn ws) = None" using assms(6,8) by (intro read_nothing) simp_all
  then show ?thesis using Nil assms(1-3)
    by (simp add: server_turn_def wire_server_next_event_def starts_at_def server_at_def
        wire_server_receive_packets_start_def expect_def)
next
  case (Cons k ks')
  then have k: "ks = j # ks'" using assms(7) by simp
  have n: "ws_num_events ws = j" "ws_last_event_type ws \<noteq> Packet_event" "calls ! j = Some Packet_event"
    using assms(1-3) by (auto simp: server_at_def starts_at_def)
  from receive_packets_start_pending [OF assms(6) n(1) assms(8) [unfolded k], of malloc]
  show ?thesis
  proof (elim disjE exE conjE)
    fix conn r
    assume c: "wire_server_receive_packets_start malloc ws = Some (Done (STATUS_OK, ws\<lparr>ws_conn := conn\<rparr>))"
      "taken (ws_conn ws) conn r" "r @ later = frames (map start_message ks')"
    have m: "wire_server_next_event malloc (calls ! j) ws = Some (Done (STATUS_OK, server_moved (calls ! j) (ws\<lparr>ws_conn := conn\<rparr>)))"
      using c(1) n by (simp add: wire_server_next_event_def server_moved_def)
    have w: "Write_error \<notin> set (conn_writes (ws_conn (server_moved (calls ! j) (ws\<lparr>ws_conn := conn\<rparr>))))"
      using c(2) assms(4) n(3) by (simp add: server_moved_def taken_def)
    from server_turn_packet [OF n(3) m w assms(5), of error] show ?thesis
      using c(2,3) k n(3) by (auto simp: server_moved_def taken_def)
  qed (use n in \<open>auto simp: server_turn_def wire_server_next_event_def\<close>)
qed

lemma server_turn_plain:
  assumes "server_at calls j ws" "j < length calls" "\<not> starts_at calls j" "Write_error \<notin> set (conn_writes (ws_conn ws))"
    "result \<noteq> STATUS_ERR"
  shows "server_turn malloc (calls ! j) result error ws = None \<and> \<not> writable (conn_writes (ws_conn ws)) (17 + length error) \<or>
    (\<exists>status conn. status \<noteq> STATUS_ERR \<and>
      server_turn malloc (calls ! j) result error ws = Some (Done (status, server_moved (calls ! j) (ws\<lparr>ws_conn := conn\<rparr>))) \<and>
      conn_reads conn = conn_reads (ws_conn ws) \<and>
      conn_sent conn = conn_sent (ws_conn ws) @ frames (turn_messages calls j result error))"
proof -
  have mono: "writable writes n" if "writable writes m" "n \<le> m" for writes n m using that by (simp add: writable_def)
  have n: "ws_num_events ws = j" "ws_last_event_type ws = type_before calls j" using assms(1,2) by (auto simp: server_at_def)
  consider (ends) "ends_at calls j" | (packet) "calls ! j = Some Packet_event" "type_before calls j = Packet_event"
    | (other) "calls ! j \<noteq> Some Packet_event" "\<not> ends_at calls j"
    using assms(3) by (auto simp: starts_at_def ends_at_def)
  then show ?thesis
  proof cases
    case ends
    then have e: "calls ! j \<noteq> Some Packet_event" "type_before calls j = Packet_event" by (auto simp: ends_at_def)
    have t: "server_turn malloc (calls ! j) result error ws = server_then (server_write WIRE_PACKETS_DONE
        (packets_done STATUS_OK j []) ''WIRE_PACKETS_DONE'' ws) (\<lambda>ws. Some (Done (STATUS_OK, server_moved (calls ! j) ws)))"
      using e n by (simp add: server_turn_def wire_server_next_event_def wire_server_send_packets_done_def server_moved_def
          server_then_def bind_fuel_def split: option.splits run.splits prod.splits)
    show ?thesis
      using server_write_no_error [OF assms(4), of WIRE_PACKETS_DONE "packets_done STATUS_OK j []" "''WIRE_PACKETS_DONE''"]
        mono [of "conn_writes (ws_conn ws)" "17 + length error" 17] ends
      by (fastforce simp: t turn_messages_def done_message_def)
  next
    case packet
    have m: "wire_server_next_event malloc (calls ! j) ws = Some (Done (STATUS_OK, server_moved (calls ! j) ws))"
      using packet n by (simp add: wire_server_next_event_def server_moved_def)
    have "ws_conn (server_moved (calls ! j) ws) = ws_conn ws" by (simp add: server_moved_def split: option.splits)
    then show ?thesis
      using server_turn_packet [OF packet(1) m, of result error] assms(4,5) packet(1)
        mono [of "conn_writes (ws_conn ws)" "17 + length error" "8 + length error"]
      by (fastforce simp: server_moved_def)
  next
    case other
    then have "server_turn malloc (calls ! j) result error ws = Some (Done (STATUS_OK, server_moved (calls ! j) ws))"
      using n by (simp add: server_turn_def wire_server_next_event_def server_moved_def ends_at_def)
    then show ?thesis using other
      by (intro disjI2 exI [of _ STATUS_OK] exI [of _ "ws_conn ws"]) (simp add: turn_messages_def)
  qed
qed

subsection \<open>The invariant\<close>

text \<open>The invariant: \<open>i\<close> and \<open>j\<close> calls are done by client and server. The bytes on the way to the server are the
  announcements that it has not come to, those on the way to the client are warnings and the reports it has
  not come to; neither side is past a message that was not sent.\<close>

definition session_inv :: "event_t option list \<Rightarrow> nat \<Rightarrow> nat \<Rightarrow> string list \<Rightarrow> session \<Rightarrow> bool" where
  "session_inv calls i j warnings s \<longleftrightarrow>
     i \<le> length calls \<and> j \<le> length calls \<and> s_client_todo s = drop i calls \<and> s_server_todo s = drop j calls \<and>
     client_at calls i (s_client s) \<and> server_at calls j (s_server s) \<and>
     alive (conn_reads (wc_conn (s_client s))) \<and> alive (conn_reads (ws_conn (s_server s))) \<and>
     s_down s \<le> length (conn_sent (ws_conn (s_server s))) \<and> s_up s \<le> length (conn_sent (wc_conn (s_client s))) \<and>
     stream (conn_reads (ws_conn (s_server s))) @ drop (s_up s) (conn_sent (wc_conn (s_client s))) =
       frames (map start_message (due (starts_at calls) j i)) \<and>
     stream (conn_reads (wc_conn (s_client s))) @ drop (s_down s) (conn_sent (ws_conn (s_server s))) =
       frames (map warn_message warnings @ map done_message (due (ends_at calls) i j)) \<and>
     (\<forall>w \<in> set warnings. length w \<le> 10000000) \<and>
     due (starts_at calls) i j = [] \<and> due (ends_at calls) j i = [] \<and> \<not> s_failed s"

lemma due_empty [simp]: "m \<le> n \<Longrightarrow> due P n m = []"
  by (simp add: due_def)

lemma due_Suc_right: "n \<le> m \<Longrightarrow> due P n (Suc m) = due P n m @ (if P m then [m] else [])"
  by (simp add: due_def)

lemma due_Suc_left: "n < m \<Longrightarrow> due P n m = (if P n then [n] else []) @ due P (Suc n) m"
  by (simp add: due_def upt_conv_Cons)

lemma due_skip:
  assumes "\<not> P i"
  shows "due P j (Suc i) = due P j i" "due P (Suc i) j = due P i j"
proof -
  show "due P j (Suc i) = due P j i"
    using assms due_Suc_right [of j i P] by (cases "j \<le> i") simp_all
  show "due P (Suc i) j = due P i j"
    using assms due_Suc_left [of i j P] by (cases "i < j") simp_all
qed

lemma due_Nil: "due P n m = [] \<longleftrightarrow> (\<forall>k. n \<le> k \<and> k < m \<longrightarrow> \<not> P k)"
  by (auto simp: due_def filter_empty_conv)

lemma starts_not_ends: "starts_at calls k \<Longrightarrow> \<not> ends_at calls k"
  by (simp add: starts_at_def ends_at_def)

text \<open>A packet event belongs to a run of packet events, which has a start.\<close>

lemma run_of_packets:
  assumes "is_script calls" "j < length calls" "calls ! j = Some Packet_event"
  shows "\<exists>a \<le> j. starts_at calls a \<and> (\<forall>k. a \<le> k \<and> k \<le> j \<longrightarrow> calls ! k = Some Packet_event)"
  using assms(2,3)
proof (induction j)
  case 0
  then show ?case by (auto simp: starts_at_def type_before_def)
next
  case (Suc j)
  show ?case
  proof (cases "calls ! j = Some Packet_event")
    case True
    then obtain a where "a \<le> j" "starts_at calls a" "\<forall>k. a \<le> k \<and> k \<le> j \<longrightarrow> calls ! k = Some Packet_event"
      using Suc by auto
    then show ?thesis using Suc.prems by (intro exI [of _ a]) (auto simp: le_Suc_eq)
  next
    case False
    then have "type_before calls (Suc j) \<noteq> Packet_event"
      using is_script_Some [OF assms(1) Suc.prems(1)] by (auto simp: type_before_Suc)
    then show ?thesis using Suc.prems by (intro exI [of _ "Suc j"]) (auto simp: starts_at_def)
  qed
qed

lemma no_report_due:
  assumes "is_script calls" "j < length calls" "calls ! j = Some Packet_event"
    "due (starts_at calls) i j = []" "starts_at calls j \<longrightarrow> j < i"
  shows "due (ends_at calls) i j = []"
proof -
  obtain a where a: "a \<le> j" "starts_at calls a" "\<forall>k. a \<le> k \<and> k \<le> j \<longrightarrow> calls ! k = Some Packet_event"
    using run_of_packets [OF assms(1-3)] by blast
  show ?thesis unfolding due_Nil
  proof (intro allI impI)
    fix k assume k: "i \<le> k \<and> k < j"
    then have "\<not> starts_at calls a" if "i \<le> a" using assms(4,5) a(1) that by (cases "a = j") (auto simp: due_Nil)
    then have "a \<le> k" using a(2) k by force
    then show "\<not> ends_at calls k" using a(3) k by (simp add: ends_at_def)
  qed
qed

text \<open>Every step keeps the invariant.\<close>

lemma drop_ConsD: "drop i xs = x # ys \<Longrightarrow> i < length xs \<and> x = xs ! i \<and> ys = drop (Suc i) xs"
  by (metis drop_Suc drop_all linorder_not_less list.distinct(1) list.sel(1,3) hd_drop_conv_nth tl_drop)

lemma inv_client_step:
  assumes "is_script calls" "session_inv calls i j warnings s" "s_client_todo s = event # todo"
    "wire_client_next_event malloc event (set_client_writes writes (s_client s)) = Some r" "Write_error \<notin> set writes"
  obtains wc warnings' where "r = Done wc" "session_inv calls (Suc i) j warnings' (s\<lparr>s_client := wc, s_client_todo := todo\<rparr>)"
proof -
  note inv = assms(2) [unfolded session_inv_def]
  have i: "i < length calls" "event = calls ! i" "todo = drop (Suc i) calls"
    using inv drop_ConsD [of i calls event todo] assms(3) by simp_all
  let ?wc = "set_client_writes writes (s_client s)"
  have c: "client_at calls i ?wc" using inv by (simp add: client_at_def)
  consider (starts) "starts_at calls i" | (ends) "ends_at calls i" | (plain) "\<not> starts_at calls i" "\<not> ends_at calls i" by blast
  then show thesis
  proof cases
    case starts
    then have ji: "j \<le> i" using inv by (metis due_Nil le_refl linorder_not_le)
    from client_next_event_starts [OF c i(1) starts, of malloc] obtain writes' where
      r: "r = Done (?wc\<lparr>wc_conn := (wc_conn ?wc)\<lparr>conn_writes := writes',
        conn_sent := conn_sent (wc_conn ?wc) @ frames [start_message i]\<rparr>,
        wc_last_event_type := Packet_event, wc_num_events := Suc (wc_num_events ?wc)\<rparr>)" 
      using assms(4,5) i(2) by auto
    have "client_at calls (Suc i) (?wc\<lparr>wc_last_event_type := Packet_event, wc_num_events := Suc (wc_num_events ?wc)\<rparr>)"
      using client_at_Suc [OF assms(1) c i(1)] starts by (simp add: starts_at_def)
    then show thesis
      by (intro that [OF r, of warnings])
        (use inv i ji starts starts_not_ends [OF starts] in \<open>simp add: session_inv_def client_at_def due_Suc_right\<close>)
  next
    case plain
    then have r: "r = Done (case calls ! i of None \<Rightarrow> ?wc
        | Some t \<Rightarrow> ?wc\<lparr>wc_last_event_type := t, wc_num_events := Suc (wc_num_events ?wc)\<rparr>)"
      using client_next_event_plain [OF c i(1)] assms(4) i(2) by simp
    have d: "due (starts_at calls) j (Suc i) = due (starts_at calls) j i" "due (ends_at calls) j (Suc i) = due (ends_at calls) j i"
      "due (ends_at calls) (Suc i) j = due (ends_at calls) i j" "due (starts_at calls) (Suc i) j = due (starts_at calls) i j"
      using plain by (simp_all add: due_skip)
    define wc where "wc = (case calls ! i of None \<Rightarrow> ?wc
        | Some t \<Rightarrow> ?wc\<lparr>wc_last_event_type := t, wc_num_events := Suc (wc_num_events ?wc)\<rparr>)"
    have wc: "client_at calls (Suc i) wc" "wc_conn wc = wc_conn ?wc"
      using client_at_Suc [OF assms(1) c i(1)] by (simp_all add: wc_def split: option.splits)
    show thesis
      by (rule that [OF r [folded wc_def], of warnings]) (use inv i d wc in \<open>simp add: session_inv_def\<close>)
  next
    case ends
    define ks where "ks = due (ends_at calls) i j"
    have ks: "ks = [] \<or> (\<exists>ks'. ks = i # ks')" using ends by (cases "i < j") (simp_all add: ks_def due_Suc_left)
    let ?later = "drop (s_down s) (conn_sent (ws_conn (s_server s)))"
    have st: "alive (conn_reads (wc_conn ?wc))" "\<forall>w \<in> set warnings. length w \<le> 10000000"
      "stream (conn_reads (wc_conn ?wc)) @ ?later = frames (map warn_message warnings @ map done_message ks)"
      using inv by (simp_all add: ks_def)
    from client_next_event_ends [OF c i(1) ends ks st, of malloc] assms(4) i(2)
    obtain conn where conn: "ks \<noteq> []" "alive (conn_reads conn)" "conn_sent conn = conn_sent (wc_conn ?wc)"
      "stream (conn_reads conn) @ ?later = frames (map done_message (tl ks))"
      "r = Done (case calls ! i of None \<Rightarrow> ?wc\<lparr>wc_conn := conn\<rparr>
        | Some t \<Rightarrow> ?wc\<lparr>wc_conn := conn, wc_last_event_type := t, wc_num_events := Suc (wc_num_events ?wc)\<rparr>)"
      by (auto split del: option.split)
    define wc where "wc = (case calls ! i of None \<Rightarrow> ?wc\<lparr>wc_conn := conn\<rparr>
        | Some t \<Rightarrow> ?wc\<lparr>wc_conn := conn, wc_last_event_type := t, wc_num_events := Suc (wc_num_events ?wc)\<rparr>)"
    have "client_at calls i (?wc\<lparr>wc_conn := conn\<rparr>)" using c by (simp add: client_at_def)
    from client_at_Suc [OF assms(1) this i(1)]
    have wc: "client_at calls (Suc i) wc" "wc_conn wc = conn" by (simp_all add: wc_def split: option.splits)
    have ij: "i < j" using conn(1) by (metis ks_def due_empty linorder_not_less)
    then have d: "due (ends_at calls) (Suc i) j = tl ks" "due (starts_at calls) j (Suc i) = due (starts_at calls) j i"
      "due (starts_at calls) (Suc i) j = []" "due (ends_at calls) j (Suc i) = []"
      using ends inv by (simp_all add: ks_def due_Suc_left due_Nil)
    show thesis
      by (rule that [OF conn(5) [folded wc_def], of "[]"]) (use inv i d wc conn(2-4) in \<open>simp add: session_inv_def\<close>)
  qed
qed

lemma server_moved_conn: "ws_conn (server_moved event ws) = ws_conn ws"
  by (simp add: server_moved_def split: option.splits)

lemma inv_server_step:
  assumes "is_script calls" "session_inv calls i j warnings s" "s_server_todo s = event # todo"
    "server_turn malloc event result error (set_server_writes writes (s_server s)) = Some r" "Write_error \<notin> set writes"
    "result \<noteq> STATUS_ERR" "length error \<le> 10000000"
  obtains status ws warnings' where "r = Done (status, ws)" "status \<noteq> STATUS_ERR"
    "session_inv calls i (Suc j) warnings' (s\<lparr>s_server := ws, s_server_todo := todo\<rparr>)"
proof -
  note inv = assms(2) [unfolded session_inv_def]
  have j: "j < length calls" "event = calls ! j" "todo = drop (Suc j) calls"
    using inv drop_ConsD [of j calls event todo] assms(3) by simp_all
  let ?ws = "set_server_writes writes (s_server s)"
  have c: "server_at calls j ?ws" using inv by (simp add: server_at_def)
  have m: "server_at calls (Suc j) (server_moved (calls ! j) (?ws\<lparr>ws_conn := conn\<rparr>))" for conn
  proof -
    have "server_at calls j (?ws\<lparr>ws_conn := conn\<rparr>)" using c by (simp add: server_at_def)
    from server_at_Suc [OF assms(1) this j(1)] show ?thesis by (simp only: server_moved_def)
  qed
  let ?later = "drop (s_up s) (conn_sent (wc_conn (s_client s)))"
  let ?sent = "turn_messages calls j result error"
  define ks where "ks = due (starts_at calls) j i"
  have "\<exists>status conn. r = Done (status, server_moved (calls ! j) (?ws\<lparr>ws_conn := conn\<rparr>)) \<and> status \<noteq> STATUS_ERR \<and>
    (starts_at calls j \<longrightarrow> ks \<noteq> []) \<and> alive (conn_reads conn) \<and>
    stream (conn_reads conn) @ ?later = frames (map start_message (if starts_at calls j then tl ks else ks)) \<and>
    conn_sent conn = conn_sent (ws_conn ?ws) @ frames ?sent"
  proof (cases "starts_at calls j")
    case True
    have ks: "ks = [] \<or> (\<exists>ks'. ks = j # ks')" using True by (cases "j < i") (simp_all add: ks_def due_Suc_left)
    have st: "alive (conn_reads (ws_conn ?ws))" "stream (conn_reads (ws_conn ?ws)) @ ?later = frames (map start_message ks)"
      "Write_error \<notin> set (conn_writes (ws_conn ?ws))"
      using inv assms(5) by (simp_all add: ks_def)
    from server_turn_starts [OF c j(1) True st(3) assms(6) st(1) ks st(2), of malloc error] assms(4) j(2) True
    show ?thesis by auto
  next
    case False
    have st: "Write_error \<notin> set (conn_writes (ws_conn ?ws))" using assms(5) by simp
    from server_turn_plain [OF c j(1) False st assms(6), of malloc error] assms(4) j(2)
    obtain status conn where "status \<noteq> STATUS_ERR" "r = Done (status, server_moved (calls ! j) (?ws\<lparr>ws_conn := conn\<rparr>))"
      "conn_reads conn = conn_reads (ws_conn ?ws)" "conn_sent conn = conn_sent (ws_conn ?ws) @ frames ?sent" by auto
    then show ?thesis using False inv
      by (intro exI [of _ status] exI [of _ conn]) (simp add: ks_def)
  qed
  then obtain status conn where r: "r = Done (status, server_moved (calls ! j) (?ws\<lparr>ws_conn := conn\<rparr>))" "status \<noteq> STATUS_ERR"
    "starts_at calls j \<Longrightarrow> ks \<noteq> []" "alive (conn_reads conn)"
    "stream (conn_reads conn) @ ?later = frames (map start_message (if starts_at calls j then tl ks else ks))"
    "conn_sent conn = conn_sent (ws_conn ?ws) @ frames ?sent" by blast
  have ji: "j < i" if "starts_at calls j" using r(3) [OF that] by (metis ks_def due_empty linorder_not_less)
  have up: "due (starts_at calls) (Suc j) i = (if starts_at calls j then tl ks else ks)"
    using ji by (simp add: ks_def due_skip due_Suc_left)
  have past: "due (starts_at calls) i (Suc j) = []" "due (ends_at calls) (Suc j) i = []"
    using inv ji by (auto simp: due_Nil less_Suc_eq)
  show thesis
  proof (cases "ends_at calls j")
    case True
    then have ij: "i \<le> j" using inv by (metis due_Nil le_refl linorder_not_le)
    show thesis
      by (rule that [OF r(1,2), of warnings])
        (use inv j m [of conn] r(4-6) up past ij True in
          \<open>simp add: session_inv_def server_moved_conn turn_messages_def due_Suc_right\<close>)
  next
    case False
    define new where "new = (if calls ! j = Some Packet_event \<and> result = STATUS_WARN then [error] else [])"
    have sent: "?sent = map warn_message new" using False by (simp add: turn_messages_def new_def)
    have "due (ends_at calls) i j = []" if "new \<noteq> []"
      using that no_report_due [OF assms(1) j(1), of i] inv ji by (simp add: new_def split: if_splits)
    then have down: "map warn_message warnings @ map done_message (due (ends_at calls) i j) @ map warn_message new =
        map warn_message (warnings @ new) @ map done_message (due (ends_at calls) i (Suc j))"
      using False by (cases "new = []") (simp_all add: due_skip)
    have len: "\<forall>w \<in> set (warnings @ new). length w \<le> 10000000" using inv assms(7) by (auto simp: new_def)
    have "stream (conn_reads (wc_conn (s_client s))) @ drop (s_down s) (conn_sent conn) =
        frames (map warn_message (warnings @ new) @ map done_message (due (ends_at calls) i (Suc j)))"
    proof -
      have "stream (conn_reads (wc_conn (s_client s))) @ drop (s_down s) (conn_sent conn) =
          frames (map warn_message warnings @ map done_message (due (ends_at calls) i j)) @ frames (map warn_message new)"
        using inv by (simp add: r(6) sent del: frames_simps)
      also have "\<dots> = frames (map warn_message (warnings @ new) @ map done_message (due (ends_at calls) i (Suc j)))"
        by (simp only: frames_simps(3) [symmetric] append_assoc down)
      finally show ?thesis .
    qed
    then show thesis
      by (intro that [OF r(1,2), of "warnings @ new"])
        (use inv j m [of conn] r(4-6) up past len in \<open>simp add: session_inv_def server_moved_conn del: frames_simps\<close>)
  qed
qed

lemma inv_start: "session_ready wc ws \<Longrightarrow> session_inv (map Some events @ [None]) 0 0 [] (wire_start events wc ws)"
  by (simp add: session_inv_def wire_start_def session_ready_def client_at_def server_at_def type_before_def)

lemma drop_le:
  assumes "drop n xs = bs @ rest" "bs \<noteq> []"
  shows "n + length bs \<le> length xs"
proof -
  have "length xs - n = length bs + length rest" using arg_cong [OF assms(1), of length] by simp
  moreover have "0 < length bs" using assms(2) by simp
  ultimately show ?thesis by linarith
qed

lemma inv_down:
  assumes "session_inv calls i j warnings s" "bs \<noteq> []" "drop (s_down s) (conn_sent (ws_conn (s_server s))) = bs @ rest"
  shows "session_inv calls i j warnings (s\<lparr>s_client := (s_client s)\<lparr>wc_conn := arrive bs (wc_conn (s_client s))\<rparr>,
    s_down := s_down s + length bs\<rparr>)"
proof -
  have "drop (s_down s + length bs) (conn_sent (ws_conn (s_server s))) = rest"
    using assms(3) by (metis add.commute append_eq_conv_conj drop_drop)
  moreover have "s_down s + length bs \<le> length (conn_sent (ws_conn (s_server s)))"
    by (rule drop_le [OF assms(3,2)])
  ultimately show ?thesis
    using assms by (simp add: session_inv_def arrive_def client_at_def)
qed

lemma inv_up:
  assumes "session_inv calls i j warnings s" "bs \<noteq> []" "drop (s_up s) (conn_sent (wc_conn (s_client s))) = bs @ rest"
  shows "session_inv calls i j warnings (s\<lparr>s_server := (s_server s)\<lparr>ws_conn := arrive bs (ws_conn (s_server s))\<rparr>,
    s_up := s_up s + length bs\<rparr>)"
proof -
  have "drop (s_up s + length bs) (conn_sent (wc_conn (s_client s))) = rest"
    using assms(3) by (metis add.commute append_eq_conv_conj drop_drop)
  moreover have "s_up s + length bs \<le> length (conn_sent (wc_conn (s_client s)))"
    by (rule drop_le [OF assms(3,2)])
  ultimately show ?thesis
    using assms by (simp add: session_inv_def arrive_def server_at_def)
qed

subsection \<open>Every run of a session\<close>

definition session_ok :: "event_t option list \<Rightarrow> session \<Rightarrow> bool" where
  "session_ok calls s \<longleftrightarrow> (\<exists>i j warnings. session_inv calls i j warnings s)"

text \<open>The calls that are left and the bytes on the way: each step makes one of them less.\<close>

definition session_measure :: "session \<Rightarrow> nat \<times> nat" where
  "session_measure s = (length (s_client_todo s) + length (s_server_todo s),
     length (conn_sent (ws_conn (s_server s))) - s_down s + (length (conn_sent (wc_conn (s_client s))) - s_up s))"

lemma session_step:
  assumes "is_script calls" "wire_step malloc s s'" "session_ok calls s"
  shows "session_ok calls s' \<and> (session_measure s', session_measure s) \<in> less_than <*lex*> less_than"
proof -
  obtain i j warnings where inv: "session_inv calls i j warnings s" using assms(3) by (auto simp: session_ok_def)
  have nf: "\<not> s_failed s" using inv by (simp add: session_inv_def)
  show ?thesis using assms(2)
  proof cases
    case (client event todo writes wc)
    obtain wc' warnings' where "Done wc = Done wc'" "session_inv calls (Suc i) j warnings' (s\<lparr>s_client := wc', s_client_todo := todo\<rparr>)"
      by (rule inv_client_step [OF assms(1) inv client(2,4,3)])
    moreover have "(session_measure s', session_measure s) \<in> less_than <*lex*> less_than"
      by (simp add: session_measure_def client(1,2))
    ultimately show ?thesis by (auto simp: session_ok_def client(1))
  next
    case (client_fault event todo writes r)
    obtain wc where "r = Done wc" by (rule inv_client_step [OF assms(1) inv client_fault(2,4,3)])
    then show ?thesis using client_fault(5) by simp
  next
    case (server event todo writes result error status ws)
    obtain status' ws' warnings' where i: "Done (status, ws) = Done (status', ws')" "status' \<noteq> STATUS_ERR"
      "session_inv calls i (Suc j) warnings' (s\<lparr>s_server := ws', s_server_todo := todo\<rparr>)"
      by (rule inv_server_step [OF assms(1) inv server(2,6,3,4,5)])
    then have "session_inv calls i (Suc j) warnings' s'" using nf by (simp add: session_inv_def server(1))
    moreover have "(session_measure s', session_measure s) \<in> less_than <*lex*> less_than"
      by (simp add: session_measure_def server(1,2))
    ultimately show ?thesis by (auto simp: session_ok_def)
  next
    case (server_fault event todo writes result error r)
    obtain status ws where "r = Done (status, ws)" by (rule inv_server_step [OF assms(1) inv server_fault(2,6,3,4,5)])
    then show ?thesis using server_fault(7) by simp
  next
    case (down bs rest)
    have "0 < length bs" "s_down s + length bs \<le> length (conn_sent (ws_conn (s_server s)))"
      using down(2) drop_le [OF down(3,2)] by simp_all
    then have "(session_measure s', session_measure s) \<in> less_than <*lex*> less_than"
      by (simp add: down(1) session_measure_def arrive_def del: length_greater_0_conv)
    then show ?thesis using inv_down [OF inv down(2,3)] down(1) by (auto simp: session_ok_def)
  next
    case (up bs rest)
    have "0 < length bs" "s_up s + length bs \<le> length (conn_sent (wc_conn (s_client s)))"
      using up(2) drop_le [OF up(3,2)] by simp_all
    then have "(session_measure s', session_measure s) \<in> less_than <*lex*> less_than"
      by (simp add: up(1) session_measure_def arrive_def del: length_greater_0_conv)
    then show ?thesis using inv_up [OF inv up(2,3)] up(1) by (auto simp: session_ok_def)
  qed
qed

lemma session_reachable:
  assumes "is_script calls" "(wire_step malloc)\<^sup>*\<^sup>* s s'" "session_ok calls s"
  shows "session_ok calls s'"
  using assms(2,3) by (induction rule: rtranclp_induct) (use session_step [OF assms(1)] in auto)

text \<open>A session in which a side has a call left can move.\<close>

lemma client_moves:
  assumes "is_script calls" "session_inv calls i j warnings s" "i < length calls" "s_down s = length (conn_sent (ws_conn (s_server s)))"
    "ends_at calls i \<Longrightarrow> i < j"
  shows "\<exists>s'. wire_step malloc s s'"
proof -
  note inv = assms(2) [unfolded session_inv_def]
  let ?wc = "set_client_writes (replicate 12 (Wrote 1)) (s_client s)"
  have w: "Write_error \<notin> set (replicate 12 (Wrote 1))" by simp
  have c: "client_at calls i ?wc" using inv by (simp add: client_at_def)
  have t: "s_client_todo s = calls ! i # drop (Suc i) calls" using inv assms(3) by (simp add: Cons_nth_drop_Suc)
  consider (starts) "starts_at calls i" | (ends) "ends_at calls i" | (plain) "\<not> starts_at calls i" "\<not> ends_at calls i" by blast
  then have "\<exists>wc. wire_client_next_event malloc (calls ! i) ?wc = Some (Done wc)"
  proof cases
    case starts
    then show ?thesis using client_next_event_starts [OF c assms(3) starts, of malloc] writable_ones(1) [of 12] by auto
  next
    case plain
    then show ?thesis using client_next_event_plain [OF c assms(3)] by auto
  next
    case ends
    let ?ks = "i # due (ends_at calls) (Suc i) j"
    have st: "alive (conn_reads (wc_conn ?wc))" "\<forall>w \<in> set warnings. length w \<le> 10000000"
      "stream (conn_reads (wc_conn ?wc)) @ [] = frames (map warn_message warnings @ map done_message ?ks)"
      using inv assms(4,5) ends by (simp_all add: due_Suc_left [of i j])
    show ?thesis using client_next_event_ends [OF c assms(3) ends _ st, of malloc] by auto
  qed
  then show ?thesis using wire_step.client [OF t w] by blast
qed

lemma server_moves:
  assumes "is_script calls" "session_inv calls i j warnings s" "j < length calls" "s_up s = length (conn_sent (wc_conn (s_client s)))"
    "starts_at calls j \<Longrightarrow> j < i"
  shows "\<exists>s'. wire_step malloc s s'"
proof -
  note inv = assms(2) [unfolded session_inv_def]
  let ?ws = "set_server_writes (replicate 17 (Wrote 1)) (s_server s)"
  have w: "Write_error \<notin> set (replicate 17 (Wrote 1))" by simp
  have c: "server_at calls j ?ws" using inv by (simp add: server_at_def)
  have t: "s_server_todo s = calls ! j # drop (Suc j) calls" using inv assms(3) by (simp add: Cons_nth_drop_Suc)
  have "\<exists>status ws. server_turn malloc (calls ! j) STATUS_OK [] ?ws = Some (Done (status, ws))"
  proof (cases "starts_at calls j")
    case True
    let ?ks = "j # due (starts_at calls) (Suc j) i"
    have st: "alive (conn_reads (ws_conn ?ws))" "stream (conn_reads (ws_conn ?ws)) @ [] = frames (map start_message ?ks)"
      "Write_error \<notin> set (conn_writes (ws_conn ?ws))"
      using inv assms(4,5) True by (simp_all add: due_Suc_left [of j i])
    have "writable (replicate 17 (Wrote 1)) 8" by (simp add: writable_def filter_replicate)
    then show ?thesis
      using server_turn_starts [OF c assms(3) True st(3) _ st(1) _ st(2), of STATUS_OK malloc "[]"] by auto
  next
    case False
    have "Write_error \<notin> set (conn_writes (ws_conn ?ws))" by simp
    then show ?thesis using server_turn_plain [OF c assms(3) False, of STATUS_OK malloc "[]"] writable_ones(1) [of 17] by auto
  qed
  then show ?thesis using wire_step.server [OF t w, of STATUS_OK "[]" malloc] by auto
qed

lemma session_moves:
  assumes "is_script calls" "session_ok calls s" "s_client_todo s \<noteq> [] \<or> s_server_todo s \<noteq> []"
  shows "\<exists>s'. wire_step malloc s s'"
proof -
  obtain i j warnings where inv: "session_inv calls i j warnings s" using assms(2) by (auto simp: session_ok_def)
  note inv' = inv [unfolded session_inv_def]
  consider (down) "s_down s < length (conn_sent (ws_conn (s_server s)))" | (up) "s_up s < length (conn_sent (wc_conn (s_client s)))"
    | (arrived) "s_down s = length (conn_sent (ws_conn (s_server s)))" "s_up s = length (conn_sent (wc_conn (s_client s)))"
    using inv' by linarith
  then show ?thesis
  proof cases
    case down
    then show ?thesis using wire_step.down [of "drop (s_down s) (conn_sent (ws_conn (s_server s)))" s "[]" malloc] by auto
  next
    case up
    then show ?thesis using wire_step.up [of "drop (s_up s) (conn_sent (wc_conn (s_client s)))" s "[]" malloc] by auto
  next
    case arrived
    have "i < length calls \<and> (ends_at calls i \<longrightarrow> i < j) \<or> j < length calls \<and> (starts_at calls j \<longrightarrow> j < i)"
    proof (rule ccontr)
      assume "\<not> ?thesis"
      then have n: "i < length calls \<Longrightarrow> ends_at calls i \<and> j \<le> i" "j < length calls \<Longrightarrow> starts_at calls j \<and> i \<le> j" by auto
      have "i < length calls \<or> j < length calls" using assms(3) inv' by auto
      then have "i = j \<and> i < length calls" using n by linarith
      then show False using n starts_not_ends by blast
    qed
    then show ?thesis using client_moves [OF assms(1) inv _ arrived(1)] server_moves [OF assms(1) inv _ arrived(2)] by blast
  qed
qed

lemma start_ok: "session_ready wc ws \<Longrightarrow> session_ok (map Some events @ [None]) (wire_start events wc ws)"
  unfolding session_ok_def by (blast intro: inv_start)

lemma calls_script: "is_script (map Some events @ [None])"
  by (auto simp: is_script_def)

text \<open>A run goes on until both sides are done.\<close>

lemma session_finishes:
  assumes "is_script calls" "session_ok calls s"
  shows "\<exists>s'. (wire_step malloc)\<^sup>*\<^sup>* s s' \<and> s_client_todo s' = [] \<and> s_server_todo s' = []"
  using assms(2)
proof (induction "session_measure s" arbitrary: s rule: wf_induct_rule [OF wf_lex_prod [OF wf_less_than wf_less_than]])
  case (1 s)
  show ?case
  proof (cases "s_client_todo s = [] \<and> s_server_todo s = []")
    case False
    then obtain s1 where s1: "wire_step malloc s s1" using session_moves [OF assms(1) 1(2)] by blast
    then obtain s' where "(wire_step malloc)\<^sup>*\<^sup>* s1 s'" "s_client_todo s' = [] \<and> s_server_todo s' = []"
      using 1(1) session_step [OF assms(1) s1 1(2)] by blast
    then show ?thesis using s1 by (meson converse_rtranclp_into_rtranclp)
  qed auto
qed

lemma session_no_infinite_run:
  assumes "is_script calls" "session_ok calls (f 0)" "\<And>n. wire_step malloc (f n) (f (Suc n))"
  shows False
proof -
  have ok: "session_ok calls (f n)" for n
    by (induction n) (use assms(2) session_step [OF assms(1,3)] in auto)
  have "(session_measure (f (Suc n)), session_measure (f n)) \<in> less_than <*lex*> less_than" for n
    using session_step [OF assms(1,3) ok] by blast
  then have "\<exists>g. \<forall>n. (g (Suc n), g n) \<in> less_than <*lex*> less_than"
    by (intro exI [of _ "session_measure \<circ> f"] allI) (simp only: comp_apply)
  moreover have "wf (less_than <*lex*> less_than)" by (intro wf_lex_prod wf_less_than)
  ultimately show False unfolding wf_iff_no_infinite_down_chain by blast
qed

text \<open>C26: In no interleaving of a session, whatever pieces the bytes of either direction arrive in and however often a
  packet event ends with a warning, does the client die or the server end with an error: the announcement and
  the report that a side takes are always the ones the other has sent for the same event, with the same number
  of events.\<close>
theorem wire_session_safe:
  assumes "session_ready wc ws" "(wire_step malloc)\<^sup>*\<^sup>* (wire_start events wc ws) s"
  shows "\<not> s_failed s"
  using session_reachable [OF calls_script assms(2) start_ok [OF assms(1)]] by (auto simp: session_ok_def session_inv_def)

text \<open>C27: From every state of a session both sides can come to the end of the script, a state in which one of them
  has a call left is not stuck, and no session goes on for ever.\<close>
theorem wire_session_completes:
  assumes "session_ready wc ws" "(wire_step malloc)\<^sup>*\<^sup>* (wire_start events wc ws) s"
  shows "(\<exists>s'. (wire_step malloc)\<^sup>*\<^sup>* s s' \<and> s_client_todo s' = [] \<and> s_server_todo s' = []) \<and>
    (s_client_todo s = [] \<and> s_server_todo s = [] \<or> (\<exists>s'. wire_step malloc s s')) \<and>
    \<not> (\<exists>f. f 0 = s \<and> (\<forall>n. wire_step malloc (f n) (f (Suc n))))"
proof -
  have ok: "session_ok (map Some events @ [None]) s"
    by (rule session_reachable [OF calls_script assms(2) start_ok [OF assms(1)]])
  show ?thesis
    using session_finishes [OF calls_script ok] session_moves [OF calls_script ok] session_no_infinite_run [OF calls_script] ok
    by metis
qed

text \<open>A client and a server after the handshake, and a script of two packets around a system call.\<close>

definition fresh_client :: wire_client where "fresh_client = wire_client_new (wire_conn_new [] []) (replicate 6 0)"
definition fresh_server :: wire_server where "fresh_server = wire_server_new (wire_conn_new [] [])"

lemma fresh_ready: "session_ready fresh_client fresh_server"
  by (simp add: session_ready_def fresh_client_def fresh_server_def wire_client_new_def wire_server_new_def wire_conn_new_def)

lemma wire_session_safe_witness:
  "\<exists>s. (wire_step (\<lambda>_. 0))\<^sup>*\<^sup>* (wire_start [Packet_event, Syscall_event, Packet_event] fresh_client fresh_server) s \<and>
    s_client_todo s = [] \<and> s_server_todo s = [] \<and> \<not> s_failed s"
  using session_finishes [OF calls_script start_ok [OF fresh_ready]] wire_session_safe [OF fresh_ready] by blast

lemma wire_session_completes_witness:
  "\<exists>s'. (wire_step (\<lambda>_. 0))\<^sup>*\<^sup>* (wire_start [Packet_event, Syscall_event, Packet_event] fresh_client fresh_server) s' \<and>
    s_client_todo s' = [] \<and> s_server_todo s' = []"
  using wire_session_completes [OF fresh_ready rtranclp.rtrancl_refl] by blast

end
