(* ===== verification/SyscallArgs.thy ===== *)
theory SyscallArgs
  imports RunPacket "HOL-Library.Signed_Division"
begin

section \<open>Arguments of system calls\<close>

text \<open>
  The model of the first half of \<^verbatim>\<open>run_system_call.c\<close>: the checked access to evaluated arguments, the data
  that they describe (vectors, control messages, message headers) and the comparison of received control
  messages with expected ones. A function that returns \<^verbatim>\<open>STATUS_ERR\<close> gives \<open>Inl\<close> the message, \<open>None\<close> when
  it sets none. A control buffer is its bytes in the layout of a 64-bit Linux, its macros are those of
  bionic. Memory is not freed, and \<open>Die\<close> also stands for a loop that does not end.
\<close>

unbundle bit_operations_syntax

subsection \<open>Little-endian fields\<close>

fun le_value :: "bytes \<Rightarrow> nat" where
  "le_value [] = 0"
| "le_value (b # bs) = unat b + 256 * le_value bs"

definition ld_le :: "nat \<Rightarrow> bytes \<Rightarrow> nat \<Rightarrow> nat run" where
  "ld_le n bs i = (if i + n \<le> length bs then Done (le_value (take n (drop i bs))) else Oob)"

fun le_bytes :: "nat \<Rightarrow> nat \<Rightarrow> bytes" where
  "le_bytes 0 v = []"
| "le_bytes (Suc n) v = word_of_nat v # le_bytes n (v div 256)"

text \<open>The bit patterns of numbers, and the numbers that signed types hold.\<close>

definition u32_of :: "int \<Rightarrow> nat" where "u32_of v = nat (v mod 2 ^ 32)"
definition u64_of :: "int \<Rightarrow> nat" where "u64_of v = nat (v mod 2 ^ 64)"

definition s32 :: "int \<Rightarrow> int" where "s32 v = sint (word_of_int v :: 32 word)"
definition s64 :: "int \<Rightarrow> int" where "s64 v = sint (word_of_int v :: 64 word)"

subsection \<open>Access to arguments\<close>

definition get_arg_count :: "expression list \<Rightarrow> nat" where
  "get_arg_count args = length args"

definition check_arg_count :: "expression list \<Rightarrow> nat \<Rightarrow> unit evaluated" where
  "check_arg_count args expected =
     (if get_arg_count args \<noteq> expected
      then eval_error (''Expected '' @ dec expected @ '' args but got '' @ dec (get_arg_count args))
      else Done (Inr ()))"

definition get_arg :: "expression list \<Rightarrow> nat \<Rightarrow> expression evaluated" where
  "get_arg args index =
     (if index < length args then Done (Inr (args ! index)) else eval_error ''Argument list too short'')"

text \<open>The test for a null pointer that follows \<^verbatim>\<open>get_arg\<close>.\<close>

definition need_arg :: "expression list \<Rightarrow> nat \<Rightarrow> (expression \<Rightarrow> 'a evaluated) \<Rightarrow> 'a evaluated" where
  "need_arg args index f = eval_then (get_arg args index) (\<lambda>e. if e = E_NULL then Done (Inl None) else f e)"

definition check_type :: "expression \<Rightarrow> expression_t \<Rightarrow> unit evaluated" where
  "check_type expression expected_type = rbind (expr_type expression) (\<lambda>t.
     if t = expected_type then Done (Inr ())
     else eval_error (''Bad type; actual: '' @ expression_type_to_string t @ '' expected: '' @
       expression_type_to_string expected_type))"

text \<open>The number of an integer expression; the caller has checked the type.\<close>

fun expr_num :: "expression \<Rightarrow> int run" where
  "expr_num (E_INTEGER num) = Done num"
| "expr_num _ = Oob"

fun expr_list :: "expression \<Rightarrow> expression list run" where
  "expr_list (E_LIST es) = Done es"
| "expr_list _ = Oob"

definition get_s32 :: "expression \<Rightarrow> int evaluated" where
  "get_s32 expression = eval_then (check_type expression EXPR_INTEGER) (\<lambda>_. rbind (expr_num expression) (\<lambda>num.
     if 4294967295 < num \<or> num < - 2147483648
     then eval_error (''Value out of range for 32-bit integer: '' @ dec_int num)
     else Done (Inr (s32 num))))"

definition get_s64 :: "expression \<Rightarrow> int evaluated" where
  "get_s64 expression = eval_then (check_type expression EXPR_INTEGER) (\<lambda>_. rbind (expr_num expression) (\<lambda>num.
     Done (Inr num)))"

definition s32_arg :: "expression list \<Rightarrow> nat \<Rightarrow> int evaluated" where
  "s32_arg args index = need_arg args index get_s32"

definition s64_arg :: "expression list \<Rightarrow> nat \<Rightarrow> int evaluated" where
  "s64_arg args index = need_arg args index get_s64"

definition bracketed_arg :: "expression list \<Rightarrow> nat \<Rightarrow> expression evaluated" where
  "bracketed_arg args index = need_arg args index (\<lambda>expression.
     eval_then (check_type expression EXPR_LIST) (\<lambda>_. rbind (expr_list expression) (\<lambda>list.
       case list of [elt] \<Rightarrow> Done (Inr elt)
       | _ \<Rightarrow> eval_error ''Expected [<element>] but got multiple elements'')))"

definition s32_bracketed_arg :: "expression list \<Rightarrow> nat \<Rightarrow> int evaluated" where
  "s32_bracketed_arg args index = eval_then (bracketed_arg args index) get_s32"

definition s64_bracketed_arg :: "expression list \<Rightarrow> nat \<Rightarrow> int evaluated" where
  "s64_bracketed_arg args index = eval_then (bracketed_arg args index) get_s64"

definition ellipsis_arg :: "expression list \<Rightarrow> nat \<Rightarrow> unit evaluated" where
  "ellipsis_arg args index = need_arg args index (\<lambda>expression. check_type expression EXPR_ELLIPSIS)"

text \<open>Whether the buffer is null.\<close>

definition buffer_arg :: "expression list \<Rightarrow> nat \<Rightarrow> bool evaluated" where
  "buffer_arg args index =
     (if index < length args \<and> args ! index = E_ELLIPSIS then Done (Inr False)
      else if index < length args \<and> args ! index = E_INTEGER 0 then Done (Inr True)
      else eval_error ''Expected ... or NULL for buffer'')"

text \<open>A number of bytes that is negative becomes a size that no allocation can give.\<close>

definition alloc_buffer :: "bool \<Rightarrow> int \<Rightarrow> unit run" where
  "alloc_buffer is_null n = check (is_null \<or> 0 \<le> n) (Done ())"

subsection \<open>Vectors\<close>

text \<open>A vector is the list of the sizes of its zeroed buffers.\<close>

fun iovec_elements :: "expression list \<Rightarrow> nat list evaluated" where
  "iovec_elements [] = Done (Inr [])"
| "iovec_elements (e # es) =
     eval_then (check_type e EXPR_IOVEC) (\<lambda>_.
     case e of
       E_IOVEC iov_base iov_len \<Rightarrow>
         rbind (expr_type iov_base) (\<lambda>base_type. check (base_type = EXPR_ELLIPSIS)
         (rbind (expr_type iov_len) (\<lambda>len_type. check (len_type = EXPR_INTEGER)
         (rbind (expr_num iov_len) (\<lambda>num.
           eval_then (iovec_elements es) (\<lambda>iov. Done (Inr (u64_of num # iov))))))))
     | _ \<Rightarrow> Oob)"

definition iovec_new :: "expression \<Rightarrow> nat list evaluated" where
  "iovec_new expression = eval_then (check_type expression EXPR_LIST) (\<lambda>_. rbind (expr_list expression) iovec_elements)"

subsection \<open>Netlink attributes\<close>

definition NLA_HDRLEN :: nat where "NLA_HDRLEN = 4"
definition NLA_ALIGN :: "nat \<Rightarrow> nat" where "NLA_ALIGN n = (n + 3) div 4 * 4"

text \<open>The attribute at the offset \<open>dst\<close> of the buffer, and the offset behind it.\<close>

definition add_nla :: "bytes \<Rightarrow> nat \<Rightarrow> int \<Rightarrow> bytes \<Rightarrow> (bytes \<times> nat) run" where
  "add_nla buf dst ty data =
     (let attr_size = NLA_HDRLEN + length data; total_size = NLA_ALIGN attr_size in
      rbind (store buf dst (le_bytes 2 attr_size @ le_bytes 2 (u64_of ty) @ data @ replicate (total_size - attr_size) 0))
        (\<lambda>buf. Done (buf, dst + total_size)))"

definition nla_value_is_valid :: "expression_t \<Rightarrow> bool" where
  "nla_value_is_valid t \<longleftrightarrow> t = EXPR_INTEGER \<or> t = EXPR_ELLIPSIS"

definition OPT_NLA_IGNORE_VAL :: nat where "OPT_NLA_IGNORE_VAL = 4294967295"

definition get_nla_value :: "expression \<Rightarrow> nat \<Rightarrow> bytes" where
  "get_nla_value expr num_bytes =
     (case expr of E_INTEGER num \<Rightarrow> le_bytes num_bytes (u64_of num) | _ \<Rightarrow> le_bytes num_bytes OPT_NLA_IGNORE_VAL)"

text \<open>The names and lengths, by the number of the attribute.\<close>

definition tcp_nla :: "(string \<times> nat) list" where
  "tcp_nla = [(''TCP_NLA_PAD'', 4), (''TCP_NLA_BUSY'', 8), (''TCP_NLA_RWND_LIMITED'', 8),
     (''TCP_NLA_SNDBUF_LIMITED'', 8), (''TCP_NLA_DATA_SEGS_OUT'', 8), (''TCP_NLA_TOTAL_RETRANS'', 8),
     (''TCP_NLA_PACING_RATE'', 8), (''TCP_NLA_DELIVERY_RATE'', 8), (''TCP_NLA_SND_CWND'', 4),
     (''TCP_NLA_REORDERING'', 4), (''TCP_NLA_MIN_RTT'', 4), (''TCP_NLA_RECUR_RETRANS'', 1),
     (''TCP_NLA_DELIVERY_RATE_APP_LMT'', 1), (''TCP_NLA_SNDQ_SIZE'', 4), (''TCP_NLA_CA_STATE'', 1)]"

fun nla_in_range :: "nat \<Rightarrow> expression \<Rightarrow> bool" where
  "nla_in_range num_bytes (E_INTEGER v) \<longleftrightarrow> (num_bytes = 1 \<longrightarrow> is_valid_u8 v) \<and> (num_bytes = 4 \<longrightarrow> is_valid_u32 v)"
| "nla_in_range num_bytes _ \<longleftrightarrow> True"

text \<open>One element of the list; the key is used as an index without a check.\<close>

definition nla_element :: "expression \<Rightarrow> bytes \<Rightarrow> nat \<Rightarrow> (bytes \<times> nat) evaluated" where
  "nla_element element buf dst =
     eval_then (check_type element EXPR_BINARY) (\<lambda>_.
     case element of
       E_BINARY op key v \<Rightarrow>
         (if op \<noteq> ''='' then Done (Inl None)
          else eval_then (check_type key EXPR_INTEGER) (\<lambda>_.
          rbind (expr_type v) (\<lambda>value_type.
          if \<not> nla_value_is_valid value_type then eval_error ''values must be numeric or ellipsis''
          else rbind (expr_num key) (\<lambda>key_num.
          if key_num < 0 \<or> int (length tcp_nla) \<le> key_num then Oob
          else (let num_bytes = snd (tcp_nla ! nat key_num) in
            check (nla_in_range num_bytes v)
            (rbind (add_nla buf dst key_num (get_nla_value v num_bytes)) (\<lambda>r. Done (Inr r))))))))
     | _ \<Rightarrow> Oob)"

fun nla_expr_list_to_nla :: "expression list \<Rightarrow> bytes \<Rightarrow> nat \<Rightarrow> (bytes \<times> nat) evaluated" where
  "nla_expr_list_to_nla [] buf dst = Done (Inr (buf, dst))"
| "nla_expr_list_to_nla (element # list) buf dst =
     eval_then (nla_element element buf dst) (\<lambda>(buf, dst). nla_expr_list_to_nla list buf dst)"

subsection \<open>Control messages\<close>

text \<open>The six fields are stored one after the other, each as four bytes: the stores of the one-byte fields
  reach over the fields behind them.\<close>

definition ee_fields :: "expression \<Rightarrow> (expression \<times> nat) list" where
  "ee_fields e = (case e of
     E_SOCK_EXTENDED_ERR ee_errno ee_origin ee_type ee_code ee_info ee_data \<Rightarrow>
       [(ee_errno, 0), (ee_origin, 4), (ee_type, 5), (ee_code, 6), (ee_info, 8), (ee_data, 12)]
   | _ \<Rightarrow> [])"

fun store_s32s :: "(expression \<times> nat) list \<Rightarrow> bytes \<Rightarrow> nat \<Rightarrow> bytes evaluated" where
  "store_s32s [] buf base = Done (Inr buf)"
| "store_s32s ((e, i) # fs) buf base =
     eval_then (get_s32 e) (\<lambda>v. rbind (store buf (base + i) (le_bytes 4 (u32_of v))) (\<lambda>buf. store_s32s fs buf base))"

definition new_extended_err :: "expression \<Rightarrow> bytes \<Rightarrow> nat \<Rightarrow> bytes evaluated" where
  "new_extended_err expr buf ee = store_s32s (ee_fields expr) buf ee"

definition CMSG_HDR :: nat where "CMSG_HDR = 16"
definition CMSG_ALIGN :: "nat \<Rightarrow> nat" where "CMSG_ALIGN n = (n + 7) div 8 * 8"
definition CMSG_LEN :: "nat \<Rightarrow> nat" where "CMSG_LEN n = CMSG_HDR + n"
definition CMSG_SPACE :: "nat \<Rightarrow> nat" where "CMSG_SPACE n = CMSG_HDR + CMSG_ALIGN n"

text \<open>Headers as offsets in the control buffer, \<open>None\<close> for a null pointer.\<close>

definition CMSG_FIRSTHDR :: "nat \<Rightarrow> nat option" where
  "CMSG_FIRSTHDR controllen = (if CMSG_HDR \<le> controllen then Some 0 else None)"

definition CMSG_NXTHDR :: "nat \<Rightarrow> nat \<Rightarrow> nat \<Rightarrow> nat option" where
  "CMSG_NXTHDR controllen cmsg cmsg_len =
     (let next_hdr = cmsg + CMSG_ALIGN cmsg_len in
      if controllen < next_hdr + CMSG_HDR then None else Some next_hdr)"

definition MSGHDR_MAX_CONTROLLEN :: nat where "MSGHDR_MAX_CONTROLLEN = 1000"
definition SOL_IP :: int where "SOL_IP = 0"
definition SOL_SOCKET :: int where "SOL_SOCKET = 1"
definition SOL_IPV6 :: int where "SOL_IPV6 = 41"

text \<open>\<^verbatim>\<open>struct scm_timestamping\<close>: seconds and nanoseconds of each time.\<close>

definition scm_bytes :: "(int \<times> int) list \<Rightarrow> bytes" where
  "scm_bytes ts = concat (map (\<lambda>(sec, nsec). le_bytes 8 (u64_of sec) @ le_bytes 8 (u64_of nsec)) ts)"

text \<open>The data of a message: the buffer and the length.\<close>

definition cmsg_data_new :: "expression \<Rightarrow> int \<Rightarrow> bytes \<Rightarrow> nat \<Rightarrow> (bytes \<times> nat) evaluated" where
  "cmsg_data_new cmsg_data cmsg_level buf data =
     (case cmsg_data of
        E_NULL \<Rightarrow> Oob
      | E_INTEGER _ \<Rightarrow> eval_then (get_s32 cmsg_data) (\<lambda>v.
          rbind (store buf data (le_bytes 4 (u32_of v))) (\<lambda>buf. Done (Inr (buf, 4))))
      | E_SCM_TIMESTAMPING ts \<Rightarrow> rbind (store buf data (scm_bytes ts)) (\<lambda>buf. Done (Inr (buf, length (scm_bytes ts))))
      | E_LIST stats_expr \<Rightarrow> eval_then (nla_expr_list_to_nla stats_expr buf data) (\<lambda>(buf, dst). Done (Inr (buf, dst - data)))
      | E_SOCK_EXTENDED_ERR _ _ _ _ _ _ \<Rightarrow> eval_then (new_extended_err cmsg_data buf data) (\<lambda>buf.
          Done (Inr (buf, 16 + (if cmsg_level = SOL_IP then 16 else 28))))
      | _ \<Rightarrow> eval_error ''Unrecognized type for cmsg_data'')"

text \<open>The loop over the expressions: the buffer and the sum of the spaces.\<close>

fun cmsg_loop :: "expression list \<Rightarrow> bytes \<Rightarrow> nat option \<Rightarrow> nat \<Rightarrow> (bytes \<times> nat) evaluated" where
  "cmsg_loop [] buf cmsg space = Done (Inr (buf, space))"
| "cmsg_loop (e # es) buf cmsg space =
     eval_then (check_type e EXPR_CMSG) (\<lambda>_.
     case e of
       E_CMSG level ty cmsg_data \<Rightarrow>
         eval_then (get_s32 level) (\<lambda>cmsg_level.
         case cmsg of
           None \<Rightarrow> Oob
         | Some cmsg \<Rightarrow>
             rbind (store buf (cmsg + 8) (le_bytes 4 (u32_of cmsg_level))) (\<lambda>buf.
             eval_then (get_s32 ty) (\<lambda>cmsg_type.
             rbind (store buf (cmsg + 12) (le_bytes 4 (u32_of cmsg_type))) (\<lambda>buf.
             eval_then (cmsg_data_new cmsg_data cmsg_level buf (cmsg + CMSG_HDR)) (\<lambda>(buf, len).
             rbind (store buf cmsg (le_bytes 8 (CMSG_LEN len))) (\<lambda>buf.
               cmsg_loop es buf (CMSG_NXTHDR MSGHDR_MAX_CONTROLLEN cmsg (CMSG_LEN len)) (space + CMSG_SPACE len)))))))
     | _ \<Rightarrow> Oob)"

definition cmsg_new :: "expression \<Rightarrow> (bytes \<times> nat) evaluated" where
  "cmsg_new expr =
     rbind (expr_type expr) (\<lambda>t. check (t = EXPR_LIST)
     (rbind (expr_list expr) (\<lambda>list.
       cmsg_loop list (replicate MSGHDR_MAX_CONTROLLEN 0) (CMSG_FIRSTHDR MSGHDR_MAX_CONTROLLEN) 0)))"

subsection \<open>Comparison of control messages\<close>

text \<open>The first field that differs gives the message; the fields with their offsets and lengths.\<close>

definition ee_compared :: "(string \<times> nat \<times> nat) list" where
  "ee_compared = [(''errno'', 0, 4), (''origin'', 4, 1), (''type'', 5, 1), (''code'', 6, 1), (''info'', 8, 4), (''data'', 12, 4)]"

fun fields_expect_eq :: "(string \<times> nat \<times> nat) list \<Rightarrow> bytes \<Rightarrow> bytes \<Rightarrow> nat \<Rightarrow> unit evaluated" where
  "fields_expect_eq [] expected actual index = Done (Inr ())"
| "fields_expect_eq ((name, i, n) # fs) expected actual index =
     rbind (ld_le n actual i) (\<lambda>a. rbind (ld_le n expected i) (\<lambda>e.
       if a \<noteq> e then eval_error (''Bad '' @ name @ '' in extended err '' @ dec index @ '': expected='' @ dec e @
         '' actual='' @ dec a)
       else fields_expect_eq fs expected actual index))"

definition sock_ee_expect_eq :: "bytes \<Rightarrow> bytes \<Rightarrow> nat \<Rightarrow> unit evaluated" where
  "sock_ee_expect_eq expected actual index = fields_expect_eq ee_compared expected actual index"

text \<open>A time: seconds and nanoseconds. The division of C rounds to zero.\<close>

definition timespec_to_usecs :: "int \<times> int \<Rightarrow> int" where
  "timespec_to_usecs ts = fst ts * 1000000 + snd ts sdiv 1000"

definition ld_timespec :: "bytes \<Rightarrow> nat \<Rightarrow> (int \<times> int) run" where
  "ld_timespec data i = rbind (ld_le 8 data (16 * i)) (\<lambda>sec. rbind (ld_le 8 data (16 * i + 8)) (\<lambda>nsec.
     Done (s64 (int sec), s64 (int nsec))))"

fun timestamps_expect_eq :: "state \<Rightarrow> bytes \<Rightarrow> bytes \<Rightarrow> nat \<Rightarrow> nat list \<Rightarrow> unit evaluated" where
  "timestamps_expect_eq st expected actual index [] = Done (Inr ())"
| "timestamps_expect_eq st expected actual index (i # is) =
     rbind (ld_timespec expected i) (\<lambda>exp_ts.
     if exp_ts = (0, 0) then timestamps_expect_eq st expected actual index is
     else rbind (ld_timespec actual i) (\<lambda>act_ts.
       let exp_usecs = script_time_to_live_time_usecs st (timespec_to_usecs exp_ts);
           actual_usecs = timespec_to_usecs act_ts;
           start = live_start_time_usecs st
       in if tolerance_usecs (st_config st) < \<bar>exp_usecs - actual_usecs\<bar>
          then eval_error (''Bad timestamp '' @ dec i @ '' in scm_timestamping '' @ dec index @
            '': expected='' @ dec_int exp_usecs @ '' ('' @ dec_int (exp_usecs - start) @ '') actual='' @
            dec_int actual_usecs @ '' ('' @ dec_int (actual_usecs - start) @ '') start='' @ dec_int start)
          else timestamps_expect_eq st expected actual index is))"

definition scm_timestamping_expect_eq :: "state \<Rightarrow> bytes \<Rightarrow> bytes \<Rightarrow> nat \<Rightarrow> unit evaluated" where
  "scm_timestamping_expect_eq st expected actual index = timestamps_expect_eq st expected actual index [0, 1, 2]"

text \<open>The values of an attribute: times of the first three counters may differ by the tolerance unless zero is
  expected, the others are equal, and a value that the script leaves out matches everything.\<close>

definition nla_time_eq :: "int \<Rightarrow> nat \<Rightarrow> nat \<Rightarrow> bool" where
  "nla_time_eq tolerance_us ev av \<longleftrightarrow>
     (if ev = OPT_NLA_IGNORE_VAL then True
      else if ev \<noteq> 0 then \<bar>s64 (int ev - int av)\<bar> \<le> tolerance_us
      else av = 0)"

definition nla_value_eq :: "int \<Rightarrow> nat \<Rightarrow> bytes \<Rightarrow> bytes \<Rightarrow> unit evaluated" where
  "nla_value_eq tolerance_us ty enla anla =
     (let compare = (\<lambda>n eq. rbind (ld_le n enla NLA_HDRLEN) (\<lambda>ev. rbind (ld_le n anla NLA_HDRLEN) (\<lambda>av.
        if eq ev av then Done (Inr ())
        else eval_error (''Bad '' @ fst (tcp_nla ! ty) @ '': expected='' @ dec ev @ '' actual='' @ dec av))))
      in if ty \<in> {1, 2, 3} then compare 8 (nla_time_eq tolerance_us)
         else if ty \<in> {4, 5, 6, 7} then compare 8 (\<lambda>ev av. ev = av \<or> ev = OPT_NLA_IGNORE_VAL)
         else if ty \<in> {8, 9, 10, 13} then compare 4 (\<lambda>ev av. ev = av \<or> ev = OPT_NLA_IGNORE_VAL)
         else if ty \<in> {11, 12, 14} then compare 1 (\<lambda>ev av. ev = av \<or> ev = OPT_NLA_IGNORE_VAL mod 256)
         else Done (Inl None))"

text \<open>One pair of attributes; the result is the length in their headers.\<close>

definition nla_expect_eq :: "int \<Rightarrow> bytes \<Rightarrow> bytes \<Rightarrow> nat \<Rightarrow> nat evaluated" where
  "nla_expect_eq tolerance_us enla anla index =
     rbind (ld_le 2 enla 2) (\<lambda>ety. rbind (ld_le 2 anla 2) (\<lambda>aty.
     if ety \<noteq> aty then eval_error (''Bad nla_type '' @ dec index @ '': expected='' @ dec ety @ '' actual='' @ dec aty)
     else rbind (ld_le 2 enla 0) (\<lambda>elen. rbind (ld_le 2 anla 0) (\<lambda>alen.
     if elen \<noteq> alen then eval_error (''Bad nla_len '' @ dec index @ '': expected='' @ dec elen @ '' actual='' @ dec alen)
     else eval_then (nla_value_eq tolerance_us ety enla anla) (\<lambda>_. Done (Inr elen))))))"

text \<open>A step of no bytes is made again and again.\<close>

function scm_opt_stats_loop :: "int \<Rightarrow> bytes \<Rightarrow> bytes \<Rightarrow> nat \<Rightarrow> nat \<Rightarrow> nat \<Rightarrow> unit evaluated" where
  "scm_opt_stats_loop tolerance_us expected actual len index offset =
     (if len \<le> offset then Done (Inr ())
      else eval_then (nla_expect_eq tolerance_us (drop offset expected) (drop offset actual) index) (\<lambda>nla_len.
        if NLA_ALIGN nla_len = 0 then Die
        else scm_opt_stats_loop tolerance_us expected actual len index (offset + NLA_ALIGN nla_len)))"
  by pat_completeness auto
termination
  by (relation "measure (\<lambda>(_, _, _, len, _, offset). len - offset)") auto

declare scm_opt_stats_loop.simps [simp del]

definition scm_opt_stats_expect_eq :: "state \<Rightarrow> bytes \<Rightarrow> bytes \<Rightarrow> nat \<Rightarrow> nat \<Rightarrow> unit evaluated" where
  "scm_opt_stats_expect_eq st expected actual len index =
     scm_opt_stats_loop (tolerance_usecs (st_config st)) expected actual len index 0"

text \<open>The text that \<^verbatim>\<open>%s\<close> prints.\<close>

definition c_string :: "bytes \<Rightarrow> string" where
  "c_string bs = map (\<lambda>b. char_of (unat b)) (takeWhile (\<lambda>b. b \<noteq> 0) bs)"

definition IP_RECVERR :: int where "IP_RECVERR = 11"
definition IPV6_RECVERR :: int where "IPV6_RECVERR = 25"
definition SCM_TIMESTAMPING :: int where "SCM_TIMESTAMPING = 37"
definition SCM_TIMESTAMPING_OPT_STATS :: int where "SCM_TIMESTAMPING_OPT_STATS = 54"

text \<open>The data of two messages with the same header.\<close>

definition cmsg_data_expect_eq :: "state \<Rightarrow> int \<Rightarrow> int \<Rightarrow> nat \<Rightarrow> bytes \<Rightarrow> bytes \<Rightarrow> nat \<Rightarrow> unit evaluated" where
  "cmsg_data_expect_eq st level ty len edata adata i =
     (if level = SOL_IP \<and> ty = IP_RECVERR \<or> level = SOL_IPV6 \<and> ty = IPV6_RECVERR
      then sock_ee_expect_eq edata adata i
      else if level = SOL_SOCKET \<and> ty = SCM_TIMESTAMPING then scm_timestamping_expect_eq st edata adata i
      else if level = SOL_SOCKET \<and> ty = SCM_TIMESTAMPING_OPT_STATS then scm_opt_stats_expect_eq st edata adata len i
      else rbind (ld_bytes adata 0 len) (\<lambda>a. rbind (ld_bytes edata 0 len) (\<lambda>e.
        if a \<noteq> e then eval_error (''Bad data in cmsg '' @ dec i @ '': expected='' @ c_string edata @ '' actual='' @ c_string adata)
        else Done (Inr ()))))"

text \<open>The headers: the length, the level and the type.\<close>

definition ld_cmsg :: "bytes \<Rightarrow> nat \<Rightarrow> (nat \<times> int \<times> int) run" where
  "ld_cmsg buf cmsg = rbind (ld_le 8 buf cmsg) (\<lambda>len. rbind (ld_le 4 buf (cmsg + 8)) (\<lambda>level.
     rbind (ld_le 4 buf (cmsg + 12)) (\<lambda>ty. Done (len, s32 (int level), s32 (int ty)))))"

definition cmsg_pair_expect_eq ::
  "state \<Rightarrow> bytes \<Rightarrow> bytes \<Rightarrow> nat \<Rightarrow> nat \<times> int \<times> int \<Rightarrow> nat \<Rightarrow> nat \<times> int \<times> int \<Rightarrow> nat \<Rightarrow> unit evaluated" where
  "cmsg_pair_expect_eq st ebuf abuf ecm eh acm ah i =
     (case eh of (elen, elevel, etype) \<Rightarrow> case ah of (alen, alevel, atype) \<Rightarrow>
      if alevel \<noteq> elevel then eval_error (''Bad level in cmsg '' @ dec i @ '': expected='' @ dec_int elevel @ '' actual='' @ dec_int alevel)
      else if atype \<noteq> etype then eval_error (''Bad type in cmsg '' @ dec i @ '': expected='' @ dec_int etype @ '' actual='' @ dec_int atype)
      else if alen \<noteq> elen then eval_error (''Bad len in cmsg '' @ dec i @ '': expected='' @ dec elen @ '' actual='' @ dec alen)
      else cmsg_data_expect_eq st alevel atype (u64_of (int alen - int CMSG_HDR))
        (drop (ecm + CMSG_HDR) ebuf) (drop (acm + CMSG_HDR) abuf) i)"

text \<open>What is left of a buffer behind a header.\<close>

definition cmsg_rest :: "nat \<Rightarrow> nat option \<Rightarrow> nat" where
  "cmsg_rest controllen cmsg = (case cmsg of None \<Rightarrow> 0 | Some i \<Rightarrow> Suc (Suc controllen - i))"

lemma cmsg_rest_less: "0 < len \<Longrightarrow> cmsg_rest controllen (CMSG_NXTHDR controllen cmsg len) < cmsg_rest controllen (Some cmsg)"
  by (auto simp: cmsg_rest_def CMSG_NXTHDR_def CMSG_ALIGN_def Let_def CMSG_HDR_def)

text \<open>The loop over both lists of headers. The result of \<^verbatim>\<open>CMSG_DATA\<close> is never null, so the tests of the code
  for that are left out.\<close>

function cmsg_pairs_expect_eq ::
  "state \<Rightarrow> bytes \<Rightarrow> nat \<Rightarrow> bytes \<Rightarrow> nat \<Rightarrow> nat option \<Rightarrow> nat option \<Rightarrow> nat \<Rightarrow> unit evaluated" where
  "cmsg_pairs_expect_eq st ebuf econtrollen abuf acontrollen (Some ecm) (Some acm) i =
     rbind (ld_cmsg abuf acm) (\<lambda>ah. rbind (ld_cmsg ebuf ecm) (\<lambda>eh.
     if fst ah = 0 \<or> fst eh = 0 then eval_error ''cmsgs do not match''
     else eval_then (cmsg_pair_expect_eq st ebuf abuf ecm eh acm ah i) (\<lambda>_.
       cmsg_pairs_expect_eq st ebuf econtrollen abuf acontrollen
         (CMSG_NXTHDR econtrollen ecm (fst eh)) (CMSG_NXTHDR acontrollen acm (fst ah)) (i + 1))))"
| "cmsg_pairs_expect_eq st ebuf econtrollen abuf acontrollen None None i = Done (Inr ())"
| "cmsg_pairs_expect_eq st ebuf econtrollen abuf acontrollen None (Some acm) i =
     eval_error (''received more than '' @ dec i @ '' cmsgs'')"
| "cmsg_pairs_expect_eq st ebuf econtrollen abuf acontrollen (Some ecm) None i =
     eval_error (''received only '' @ dec i @ '' cmsgs'')"
  by pat_completeness auto
termination
  by (relation "measure (\<lambda>(_, _, econtrollen, _, _, ecm, _, _). cmsg_rest econtrollen ecm)") (auto simp: cmsg_rest_less)

definition cmsg_expect_eq :: "state \<Rightarrow> bytes \<Rightarrow> nat \<Rightarrow> bytes \<Rightarrow> nat \<Rightarrow> unit evaluated" where
  "cmsg_expect_eq st ebuf econtrollen abuf acontrollen =
     cmsg_pairs_expect_eq st ebuf econtrollen abuf acontrollen (CMSG_FIRSTHDR econtrollen) (CMSG_FIRSTHDR acontrollen) 0"

subsection \<open>Message headers\<close>

text \<open>The name is the space for an address; \<open>None\<close> is a null pointer.\<close>

record msghdr =
  msg_name :: "bytes option"
  msg_namelen :: nat
  msg_iov :: "nat list option"
  msg_iovlen :: int
  msg_control :: "bytes option"
  msg_controllen :: nat
  msg_flags :: int

definition SOCKADDR_STORAGE :: nat where "SOCKADDR_STORAGE = 128"

text \<open>A member of the expression that must be an ellipsis if it is there, and one that is evaluated if it is
  there.\<close>

definition ellipsis_member :: "expression \<Rightarrow> bool run" where
  "ellipsis_member e = (if e = E_NULL then Done False
     else rbind (expr_type e) (\<lambda>t. check (t = EXPR_ELLIPSIS) (Done True)))"

definition optional_member :: "expression \<Rightarrow> 'a \<Rightarrow> (expression \<Rightarrow> 'a evaluated) \<Rightarrow> 'a evaluated" where
  "optional_member e absent f = (if e = E_NULL then Done (Inr absent) else f e)"

text \<open>The header, and the number of buffers; \<open>iov_len\<close> is what the caller's variable holds before.\<close>

definition msghdr_new :: "expression \<Rightarrow> nat \<Rightarrow> (msghdr \<times> nat) evaluated" where
  "msghdr_new expression iov_len =
     eval_then (check_type expression EXPR_MSGHDR) (\<lambda>_.
     case expression of
       E_MSGHDR name namelen iov iovlen control flags \<Rightarrow>
         rbind (ellipsis_member name) (\<lambda>has_name. rbind (ellipsis_member namelen) (\<lambda>has_namelen.
         eval_then (optional_member iov None (\<lambda>e. eval_then (iovec_new e) (\<lambda>v. Done (Inr (Some v))))) (\<lambda>new_iov.
         eval_then (optional_member iovlen 0 get_s32) (\<lambda>new_iovlen.
         let iov_len = (case new_iov of None \<Rightarrow> iov_len | Some v \<Rightarrow> length v) in
         if new_iovlen \<noteq> int iov_len
         then eval_error (''msg_iovlen '' @ dec_int new_iovlen @ '' does not match '' @ dec iov_len @ ''-element iovec array'')
         else
         eval_then (optional_member control (None, 0) (\<lambda>e. eval_then (cmsg_new e) (\<lambda>(buf, space).
           Done (Inr (Some buf, space))))) (\<lambda>(new_control, space).
         eval_then (optional_member flags 0 get_s32) (\<lambda>new_flags.
           Done (Inr (\<lparr>msg_name = (if has_name then Some (replicate SOCKADDR_STORAGE 0) else None),
             msg_namelen = (if has_namelen then SOCKADDR_STORAGE else 0),
             msg_iov = new_iov, msg_iovlen = new_iovlen, msg_control = new_control, msg_controllen = space,
             msg_flags = new_flags\<rparr>, iov_len))))))))
     | _ \<Rightarrow> Oob)"

subsection \<open>Pipes\<close>

definition get_pipe_expression :: "expression \<Rightarrow> (int \<times> int) evaluated" where
  "get_pipe_expression pipe_expr =
     eval_then (check_type pipe_expr EXPR_LIST) (\<lambda>_. rbind (expr_list pipe_expr) (\<lambda>list.
       if length list \<noteq> 2
       then eval_error (dec (length list) @ '' pipe file descriptors instead of 2'' @ [CHR 0x0A])
       else eval_then (check_type (list ! 0) EXPR_INTEGER) (\<lambda>_. rbind (expr_num (list ! 0)) (\<lambda>r.
         eval_then (check_type (list ! 1) EXPR_INTEGER) (\<lambda>_. rbind (expr_num (list ! 1)) (\<lambda>w.
           Done (Inr (s32 r, s32 w))))))))"

end
