(* ===== verification/FdTable.thy ===== *)
theory FdTable
  imports SyscallArgs
begin

section \<open>File descriptors of the test\<close>

text \<open>
  The model of \<^verbatim>\<open>fd_state.h\<close>, \<^verbatim>\<open>file.c\<close>, \<^verbatim>\<open>pipe.c\<close>, \<^verbatim>\<open>epoll.c\<close> and of the functions of
  \<^verbatim>\<open>run_system_call.c\<close> that keep the list of descriptors: each has a number in the script and a live number.
  The list has the newest descriptor first. The numbers of a socket are in its record, and the member
  \<^verbatim>\<open>type\<close> of a socket, which only system calls use, stands beside its position among the sockets of the state.
  The calls of the operating system (or of the shared object that replaces it) are collected; its answers
  are a function of their number and arguments.
\<close>

subsection \<open>System calls and their answers\<close>

datatype epoll_data = EPOLL_DATA_PTR nat | EPOLL_DATA_FD int | EPOLL_DATA_U32 nat | EPOLL_DATA_U64 nat

text \<open>The live arguments. A buffer that is written is its bytes, \<open>None\<close> for a null pointer; for one that is
  read into only its being null counts. An address is the bytes that are filled in, and its length; the value of
  an option is the expression that it points to.\<close>

datatype sys_call =
    SYS_SOCKET address_family int int
  | SYS_BIND int bytes
  | SYS_LISTEN int int
  | SYS_ACCEPT int
  | SYS_CONNECT int bytes nat
  | SYS_READ int bool int
  | SYS_READV int "nat list" int
  | SYS_RECV int bool int int
  | SYS_RECVFROM int bool int int
  | SYS_RECVMSG int msghdr int
  | SYS_WRITE int "bytes option" int
  | SYS_WRITEV int "nat list" int
  | SYS_SEND int "bytes option" int int
  | SYS_SENDTO int "bytes option" int int bytes nat
  | SYS_SENDMSG int msghdr int
  | SYS_FCNTL int int "int option"
  | SYS_IOCTL int int bool
  | SYS_CLOSE int
  | SYS_SHUTDOWN int int
  | SYS_GETSOCKOPT int int int int
  | SYS_SETSOCKOPT int int int expression int
  | SYS_POLL "(int \<times> int \<times> int) list" int int
  | SYS_CAP_SET int int int
  | SYS_OPEN string int
  | SYS_SENDFILE int int int int
  | SYS_EPOLL_CREATE int
  | SYS_EPOLL_CTL int int int nat epoll_data
  | SYS_EPOLL_WAIT int int int
  | SYS_PIPE
  | SYS_SPLICE int int int int int int

text \<open>The result and \<^verbatim>\<open>errno\<close>, and what a call fills in: an address and its length, the flags and the control
  bytes of a message, an option and its length, the \<^verbatim>\<open>revents\<close> of a poll, the events and their 64 bits of
  data, and the two ends of a pipe.\<close>

record sys_answer =
  ans_result :: int
  ans_errno :: int
  ans_addr :: bytes
  ans_addrlen :: nat
  ans_flags :: int
  ans_control :: bytes
  ans_optval :: bytes
  ans_optlen :: nat
  ans_revents :: "int list"
  ans_events :: "(nat \<times> nat) list"
  ans_fds :: "int \<times> int"

record system =
  sy_world :: world
  sy_answer :: "nat \<Rightarrow> sys_call \<Rightarrow> sys_answer"
  sy_strerror :: "int \<Rightarrow> string"
  sy_symbols :: int_symbols

subsection \<open>The interpreter\<close>

record fd_state =
  script_fd :: int
  live_fd :: int
  is_closed :: bool

datatype fd = FD_SOCKET nat int | FD_FILE fd_state | FD_PIPE fd_state | FD_EPOLL fd_state

datatype syscall_state_t = SYSCALL_IDLE | SYSCALL_ENQUEUED | SYSCALL_RUNNING | SYSCALL_DONE | SYSCALL_EXITING

record interp =
  in_state :: state
  in_fds :: "fd list"
  in_syscalls :: syscall_state_t
  in_live_end_usecs :: int
  in_calls :: "sys_call list"

text \<open>Where the interpreter is in the script.\<close>

definition cursor :: "state \<Rightarrow> event list \<times> nat option \<times> nat" where
  "cursor st = (st_events st, st_event st, num_events st)"

definition state_add_fd :: "fd \<Rightarrow> interp \<Rightarrow> interp" where
  "state_add_fd fd s = s\<lparr>in_fds := fd # in_fds s\<rparr>"

definition fd_state_new :: "int \<Rightarrow> int \<Rightarrow> fd_state" where
  "fd_state_new script live = \<lparr>script_fd = script, live_fd = live, is_closed = False\<rparr>"

definition file_new :: "int \<Rightarrow> int \<Rightarrow> interp \<Rightarrow> interp" where
  "file_new script live s = state_add_fd (FD_FILE (fd_state_new script live)) s"

definition pipe_new :: "int \<Rightarrow> int \<Rightarrow> interp \<Rightarrow> interp" where
  "pipe_new script live s = state_add_fd (FD_PIPE (fd_state_new script live)) s"

definition epoll_new :: "int \<Rightarrow> int \<Rightarrow> interp \<Rightarrow> interp" where
  "epoll_new script live s = state_add_fd (FD_EPOLL (fd_state_new script live)) s"

text \<open>\<^verbatim>\<open>socket_new\<close> of a socket with these fields and this type.\<close>

definition add_socket_fd :: "socket \<Rightarrow> int \<Rightarrow> interp \<Rightarrow> interp" where
  "add_socket_fd socket ty s =
     state_add_fd (FD_SOCKET (length (st_sockets (in_state s))) ty) (s\<lparr>in_state := snd (add_socket socket (in_state s))\<rparr>)"

text \<open>The fields that all kinds of descriptors have.\<close>

definition socket_fd :: "socket \<Rightarrow> fd_state" where
  "socket_fd socket = \<lparr>script_fd = sk_script_fd socket, live_fd = sk_live_fd socket, is_closed = sk_is_closed socket\<rparr>"

fun to_fd :: "interp \<Rightarrow> fd \<Rightarrow> fd_state" where
  "to_fd s (FD_SOCKET i _) = socket_fd (st_sockets (in_state s) ! i)"
| "to_fd s (FD_FILE f) = f"
| "to_fd s (FD_PIPE f) = f"
| "to_fd s (FD_EPOLL f) = f"

text \<open>The position in the list of the first open descriptor with a property.\<close>

fun find_fd :: "interp \<Rightarrow> (fd_state \<Rightarrow> bool) \<Rightarrow> fd list \<Rightarrow> nat \<Rightarrow> nat option run" where
  "find_fd s p [] i = Done None"
| "find_fd s p (fd # fds) i =
     (let f = to_fd s fd in
      if \<not> is_closed f \<and> p f then check (0 \<le> live_fd f) (check (0 \<le> script_fd f) (Done (Some i)))
      else find_fd s p fds (Suc i))"

definition find_by_script_fd :: "interp \<Rightarrow> int \<Rightarrow> nat option run" where
  "find_by_script_fd s script = find_fd s (\<lambda>f. script_fd f = script) (in_fds s) 0"

definition find_by_live_fd :: "interp \<Rightarrow> int \<Rightarrow> nat option run" where
  "find_by_live_fd s live = find_fd s (\<lambda>f. live_fd f = live) (in_fds s) 0"

text \<open>The position among the sockets, and the type.\<close>

definition fd_to_socket :: "interp \<Rightarrow> nat option \<Rightarrow> (nat \<times> int) option" where
  "fd_to_socket s fd = (case fd of None \<Rightarrow> None
     | Some k \<Rightarrow> (case in_fds s ! k of FD_SOCKET i ty \<Rightarrow> Some (i, ty) | _ \<Rightarrow> None))"

definition script_socket :: "interp \<Rightarrow> int \<Rightarrow> (nat \<times> int) option run" where
  "script_socket s script = rbind (find_by_script_fd s script) (\<lambda>fd. Done (fd_to_socket s fd))"

definition to_live_fd :: "interp \<Rightarrow> int \<Rightarrow> int evaluated" where
  "to_live_fd s script = rbind (find_by_script_fd s script) (\<lambda>fd. case fd of
     Some k \<Rightarrow> Done (Inr (live_fd (to_fd s (in_fds s ! k))))
   | None \<Rightarrow> eval_error (''unable to find fd with script fd '' @ dec_int script))"

definition check_duplicate_fd :: "interp \<Rightarrow> int \<Rightarrow> int \<Rightarrow> unit evaluated" where
  "check_duplicate_fd s script live =
     rbind (find_by_script_fd s script) (\<lambda>d. if d \<noteq> None then eval_error (''duplicate fd '' @ dec_int script @ '' in script'')
     else rbind (find_by_live_fd s live) (\<lambda>d. if d \<noteq> None then eval_error (''duplicate live fd '' @ dec_int live)
     else Done (Inr ())))"

subsection \<open>The effects of successful calls\<close>

definition run_syscall_open :: "int \<Rightarrow> int \<Rightarrow> interp \<Rightarrow> interp evaluated" where
  "run_syscall_open script live s = eval_then (check_duplicate_fd s script live) (\<lambda>_. Done (Inr (file_new script live s)))"

definition run_syscall_socket :: "address_family \<Rightarrow> int \<Rightarrow> int \<Rightarrow> int \<Rightarrow> int \<Rightarrow> interp \<Rightarrow> interp evaluated" where
  "run_syscall_socket family ty protocol script live s =
     (if script < 0 then eval_error (''invalid socket fd '' @ dec_int script @ '' in script'')
      else if live < 0 then eval_error (''invalid live socket fd '' @ dec_int live)
      else eval_then (check_duplicate_fd s script live) (\<lambda>_.
        Done (Inr (add_socket_fd (socket_new\<lparr>sk_state := SOCKET_NEW, sk_address_family := family,
          sk_protocol := u32_of protocol, sk_script_fd := script, sk_live_fd := live\<rparr>) ty s))))"

fun set_closed :: "fd \<Rightarrow> fd" where
  "set_closed (FD_SOCKET i ty) = FD_SOCKET i ty"
| "set_closed (FD_FILE f) = FD_FILE (f\<lparr>is_closed := True\<rparr>)"
| "set_closed (FD_PIPE f) = FD_PIPE (f\<lparr>is_closed := True\<rparr>)"
| "set_closed (FD_EPOLL f) = FD_EPOLL (f\<lparr>is_closed := True\<rparr>)"

definition close_fd :: "nat \<Rightarrow> interp \<Rightarrow> interp" where
  "close_fd k s = (case in_fds s ! k of
     FD_SOCKET i _ \<Rightarrow> s\<lparr>in_state := upd_socket i (\<lambda>k. k\<lparr>sk_is_closed := True\<rparr>) (in_state s)\<rparr>
   | fd \<Rightarrow> s\<lparr>in_fds := (in_fds s)[k := set_closed fd]\<rparr>)"

definition run_syscall_close :: "int \<Rightarrow> int \<Rightarrow> interp \<Rightarrow> interp evaluated" where
  "run_syscall_close script live s =
     rbind (find_by_script_fd s script) (\<lambda>fd. case fd of
       Some k \<Rightarrow> if live_fd (to_fd s (in_fds s ! k)) \<noteq> live
         then eval_error (''unable to find fd with script fd '' @ dec_int script @ '' and live fd '' @ dec_int live)
         else Done (Inr (close_fd k s))
     | None \<Rightarrow> eval_error (''unable to find fd with script fd '' @ dec_int script @ '' and live fd '' @ dec_int live))"

definition run_syscall_bind :: "interp \<Rightarrow> bytes evaluated" where
  "run_syscall_bind s = (let config = st_config (in_state s) in
     rbind (ip_to_sockaddr (live_bind_ip config) (live_bind_port config)) (\<lambda>live_addr. Done (Inr live_addr)))"

definition update_socket :: "nat \<Rightarrow> (socket \<Rightarrow> socket) \<Rightarrow> interp \<Rightarrow> interp" where
  "update_socket i f s = s\<lparr>in_state := upd_socket i f (in_state s)\<rparr>"

definition run_syscall_listen :: "int \<Rightarrow> int \<Rightarrow> interp \<Rightarrow> interp evaluated" where
  "run_syscall_listen script live s =
     rbind (script_socket s script) (\<lambda>k. case k of
       Some (i, ty) \<Rightarrow> (let socket = st_sockets (in_state s) ! i in
         check (sk_script_fd socket = script) (check (sk_live_fd socket = live)
         (Done (Inr (update_socket i (\<lambda>k. k\<lparr>sk_state := SOCKET_PASSIVE_LISTENING\<rparr>) s)))))
     | None \<Rightarrow> eval_error (''unable to find socket with script fd '' @ dec_int script))"

text \<open>The newest socket whose handshake the script has seen; closed ones count too.\<close>

fun accept_candidate :: "interp \<Rightarrow> fd list \<Rightarrow> nat option" where
  "accept_candidate s [] = None"
| "accept_candidate s (FD_SOCKET i ty # fds) =
     (if sk_state (st_sockets (in_state s) ! i) \<in> {SOCKET_PASSIVE_SYNACK_SENT, SOCKET_PASSIVE_SYNACK_ACKED}
      then Some i else accept_candidate s fds)"
| "accept_candidate s (_ # fds) = accept_candidate s fds"

text \<open>A child socket of a wire client: the remote port is stored in host order, which stands for another
  port.\<close>

definition accepted_child :: "config \<Rightarrow> ip_address \<Rightarrow> u16 \<Rightarrow> int \<Rightarrow> int \<Rightarrow> socket" where
  "accepted_child config ip port script live =
     socket_new\<lparr>sk_address_family := ip_family ip,
       sk_live := no_socket_state\<lparr>s_remote := \<lparr>ep_ip = ip, ep_port = htons port\<rparr>,
         s_local := \<lparr>ep_ip = live_local_ip config, ep_port = live_bind_port config\<rparr>\<rparr>,
       sk_live_fd := live, sk_script_fd := script\<rparr>"

definition run_syscall_accept :: "int \<Rightarrow> int \<Rightarrow> bytes \<Rightarrow> nat \<Rightarrow> interp \<Rightarrow> interp evaluated" where
  "run_syscall_accept script live live_addr live_addrlen s =
     rbind (ip_from_sockaddr live_addr live_addrlen) (\<lambda>(ip, port).
     let ip = (if ip_family ip = AF_INET6 then (case ipv6_map_to_ipv4 ip of Some ipv4 \<Rightarrow> ipv4 | None \<Rightarrow> ip) else ip);
         config = st_config (in_state s)
     in case accept_candidate s (in_fds s) of
       Some i \<Rightarrow> (let socket = st_sockets (in_state s) ! i; remote = s_remote (sk_live socket) in
         rbind (is_equal_ip (ep_ip remote) ip) (\<lambda>same. check same (check (ep_port remote = port)
         (Done (Inr (update_socket i (\<lambda>k. k\<lparr>sk_script_fd := script, sk_live_fd := live\<rparr>) s))))))
     | None \<Rightarrow>
         if \<not> is_wire_client config then eval_error ''unable to find socket matching accept() call''
         else Done (Inr (add_socket_fd (accepted_child config ip port script live) 0 s)))"

text \<open>The address of a \<^verbatim>\<open>connect\<close>: the one of the configuration, or a bare family (\<open>-1\<close> for none).\<close>

definition connect_address :: "config \<Rightarrow> int \<Rightarrow> nat \<Rightarrow> (bytes \<times> nat) run" where
  "connect_address config family addrlen =
     (if family \<noteq> -1 then Done (le16_bytes_of (word_of_int family) @ replicate 14 0, addrlen)
      else rbind (ip_to_sockaddr (live_connect_ip config) (live_connect_port config)) (\<lambda>live_addr.
        Done (live_addr, length live_addr)))"

definition connecting :: "config \<Rightarrow> socket \<Rightarrow> socket" where
  "connecting config socket =
     (let script = sk_script socket; live = sk_live socket in
      socket\<lparr>sk_state := SOCKET_ACTIVE_CONNECTING,
        sk_script := script\<lparr>s_remote := no_endpoint, s_local := no_endpoint\<rparr>,
        sk_live := live\<lparr>s_remote := \<lparr>ep_ip = live_remote_ip config, ep_port = live_connect_port config\<rparr>\<rparr>\<rparr>)"

definition run_syscall_connect :: "int \<Rightarrow> bool \<Rightarrow> int \<Rightarrow> nat \<Rightarrow> interp \<Rightarrow> ((bytes \<times> nat) \<times> interp) evaluated" where
  "run_syscall_connect script must_be_new_socket family addrlen s =
     (let config = st_config (in_state s) in
      rbind (connect_address config family addrlen) (\<lambda>live_addr.
      rbind (script_socket s script) (\<lambda>k. case k of
        None \<Rightarrow> Die
      | Some (i, ty) \<Rightarrow>
          rbind (sa_family (fst live_addr)) (\<lambda>fam.
          if fam = family_number AF_UNSPEC
          then Done (Inr (live_addr, update_socket i (\<lambda>k. k\<lparr>sk_state := SOCKET_NEW\<rparr>) s))
          else if sk_state (st_sockets (in_state s) ! i) \<noteq> SOCKET_NEW
          then (if must_be_new_socket then eval_error ''socket is not new'' else Done (Inr (live_addr, s)))
          else Done (Inr (live_addr, update_socket i (connecting config) s))))))"

definition run_syscall_epoll_create :: "int \<Rightarrow> int \<Rightarrow> interp \<Rightarrow> interp evaluated" where
  "run_syscall_epoll_create script live s =
     eval_then (check_duplicate_fd s script live) (\<lambda>_. Done (Inr (epoll_new script live s)))"

text \<open>Both ends are checked before the first one is added.\<close>

definition run_syscall_pipe :: "int \<times> int \<Rightarrow> int \<times> int \<Rightarrow> interp \<Rightarrow> interp evaluated" where
  "run_syscall_pipe pfd_script pfd_live s =
     eval_then (check_duplicate_fd s (fst pfd_script) (fst pfd_live)) (\<lambda>_.
     eval_then (check_duplicate_fd s (snd pfd_script) (snd pfd_live)) (\<lambda>_.
       Done (Inr (pipe_new (snd pfd_script) (snd pfd_live) (pipe_new (fst pfd_script) (fst pfd_live) s)))))"

subsection \<open>The table as a map\<close>

text \<open>What the list of descriptors promises: a finite map from the script's numbers of the open descriptors to
  their live numbers, which is injective.\<close>

definition fd_states :: "interp \<Rightarrow> fd_state list" where
  "fd_states s = map (to_fd s) (in_fds s)"

definition open_pairs :: "fd_state list \<Rightarrow> (int \<times> int) list" where
  "open_pairs fs = map (\<lambda>f. (script_fd f, live_fd f)) (filter (\<lambda>f. \<not> is_closed f) fs)"

definition fd_map :: "interp \<Rightarrow> int \<Rightarrow> int option" where
  "fd_map s = map_of (open_pairs (fd_states s))"

fun fd_socket :: "fd \<Rightarrow> nat option" where
  "fd_socket (FD_SOCKET i _) = Some i"
| "fd_socket _ = None"

text \<open>Each socket of the state stands once in the list at most, an open descriptor has both numbers or none,
  and no number is used twice.\<close>

definition fd_indices :: "interp \<Rightarrow> nat list" where
  "fd_indices s = List.map_filter fd_socket (in_fds s)"

definition pairs_ok :: "(int \<times> int) list \<Rightarrow> bool" where
  "pairs_ok ps \<longleftrightarrow> list_all (\<lambda>(n, l). 0 \<le> n \<longleftrightarrow> 0 \<le> l) ps \<and>
     distinct (filter (\<lambda>n. 0 \<le> n) (map fst ps)) \<and> distinct (filter (\<lambda>l. 0 \<le> l) (map snd ps))"

definition fds_ok :: "interp \<Rightarrow> bool" where
  "fds_ok s \<longleftrightarrow> distinct (fd_indices s) \<and> list_all (\<lambda>i. i < length (st_sockets (in_state s))) (fd_indices s) \<and>
     pairs_ok (open_pairs (fd_states s))"

lemma open_pairs_simps [simp]:
  "open_pairs [] = []"
  "open_pairs (f # fs) = (if is_closed f then open_pairs fs else (script_fd f, live_fd f) # open_pairs fs)"
  "open_pairs (as @ bs) = open_pairs as @ open_pairs bs"
  by (simp_all add: open_pairs_def)

text \<open>The search goes over the states of the descriptors.\<close>

lemma find_fd_none:
  "list_all (\<lambda>f. is_closed f \<or> \<not> p f) (map (to_fd s) fds) \<Longrightarrow> find_fd s p fds i = Done None"
  by (induction fds arbitrary: i) (auto simp: Let_def)

lemma find_fd_some:
  assumes "map (to_fd s) fds = as @ f # bs" "list_all (\<lambda>f. is_closed f \<or> \<not> p f) as" "\<not> is_closed f" "p f"
    "0 \<le> live_fd f" "0 \<le> script_fd f"
  shows "find_fd s p fds i = Done (Some (i + length as))"
  using assms
proof (induction fds arbitrary: i as)
  case (Cons fd fds)
  show ?case
  proof (cases as)
    case Nil
    then show ?thesis using Cons.prems by (auto simp: Let_def)
  next
    case (Cons a as')
    then show ?thesis using Cons.prems Cons.IH [of as' "Suc i"] by (auto simp: Let_def)
  qed
qed simp

text \<open>The descriptor of a pair, which is the first and only one with its script number and with its live
  number.\<close>

lemma open_pair_split:
  assumes "(n, l) \<in> set (open_pairs fs)" "pairs_ok (open_pairs fs)" "0 \<le> n \<or> 0 \<le> l"
  obtains as f bs where "fs = as @ f # bs" "\<not> is_closed f" "script_fd f = n" "live_fd f = l" "0 \<le> n" "0 \<le> l"
    "list_all (\<lambda>f. is_closed f \<or> script_fd f \<noteq> n) as" "list_all (\<lambda>f. is_closed f \<or> live_fd f \<noteq> l) as"
    "list_all (\<lambda>f. is_closed f \<or> script_fd f \<noteq> n) bs"
proof -
  obtain f where f: "f \<in> set fs" "\<not> is_closed f" "script_fd f = n" "live_fd f = l"
    using assms(1) by (auto simp: open_pairs_def)
  obtain as bs where s: "fs = as @ f # bs" using f(1) by (meson split_list)
  have nn: "0 \<le> n" "0 \<le> l" using assms f by (auto simp: pairs_ok_def list_all_iff)
  have a: "list_all (\<lambda>f. is_closed f \<or> script_fd f \<noteq> n) as" "list_all (\<lambda>f. is_closed f \<or> live_fd f \<noteq> l) as"
    "list_all (\<lambda>f. is_closed f \<or> script_fd f \<noteq> n) bs"
    using assms(2) nn f by (auto simp: s pairs_ok_def list_all_iff open_pairs_def image_def)
  show thesis using that s f(2-4) nn a by blast
qed

lemma no_pair_closed:
  "n \<notin> fst ` set (open_pairs fs) \<Longrightarrow> list_all (\<lambda>f. is_closed f \<or> script_fd f \<noteq> n) fs"
  "l \<notin> snd ` set (open_pairs fs) \<Longrightarrow> list_all (\<lambda>f. is_closed f \<or> live_fd f \<noteq> l) fs"
  by (force simp: open_pairs_def list_all_iff)+

lemma pairs_ok_map_of:
  assumes "pairs_ok ps" "0 \<le> n"
  shows "map_of ps n = Some l \<longleftrightarrow> (n, l) \<in> set ps"
proof
  assume "(n, l) \<in> set ps"
  with assms show "map_of ps n = Some l"
    by (induction ps) (auto simp: pairs_ok_def image_iff split: if_splits)
qed (rule map_of_SomeD)

lemma map_of_none: "map_of ps n = None \<longleftrightarrow> n \<notin> fst ` set ps"
  by (simp add: map_of_eq_None_iff)

text \<open>The lookups, when the table is well-formed.\<close>

lemma find_by_script_fd_none:
  "fd_map s n = None \<Longrightarrow> find_by_script_fd s n = Done None"
  unfolding find_by_script_fd_def fd_map_def map_of_none fd_states_def
  by (rule find_fd_none) (rule no_pair_closed(1))

lemma find_by_script_fd_some:
  assumes "fds_ok s" "fd_map s n = Some l" "0 \<le> n"
  obtains k where "find_by_script_fd s n = Done (Some k)" "k < length (in_fds s)" "fd_states s ! k = to_fd s (in_fds s ! k)"
    "\<not> is_closed (to_fd s (in_fds s ! k))" "script_fd (to_fd s (in_fds s ! k)) = n" "live_fd (to_fd s (in_fds s ! k)) = l"
    "list_all (\<lambda>f. is_closed f \<or> script_fd f \<noteq> n) (take k (fd_states s))"
    "list_all (\<lambda>f. is_closed f \<or> script_fd f \<noteq> n) (drop (Suc k) (fd_states s))" "0 \<le> l"
proof -
  have p: "pairs_ok (open_pairs (fd_states s))" using assms(1) by (simp add: fds_ok_def)
  have m: "(n, l) \<in> set (open_pairs (fd_states s))" using assms(2) by (auto simp: fd_map_def dest: map_of_SomeD)
  from m p obtain as f bs where s: "fd_states s = as @ f # bs" "\<not> is_closed f" "script_fd f = n" "live_fd f = l" "0 \<le> l"
    "list_all (\<lambda>f. is_closed f \<or> script_fd f \<noteq> n) as" "list_all (\<lambda>f. is_closed f \<or> script_fd f \<noteq> n) bs"
    using assms(3) by (rule_tac open_pair_split) auto
  have k: "length as < length (in_fds s)" using arg_cong [OF s(1), of length] by (simp add: fd_states_def)
  have f: "to_fd s (in_fds s ! length as) = f" using s(1) k nth_map [OF k, of "to_fd s"] by (simp add: fd_states_def)
  have "find_by_script_fd s n = Done (Some (length as))"
    using find_fd_some [of s "in_fds s" as f bs "\<lambda>f. script_fd f = n" 0] s assms(3)
    by (simp add: fd_states_def find_by_script_fd_def)
  then show thesis using that [of "length as"] k f s by simp
qed

lemma find_by_live_fd_none:
  "l \<notin> ran (fd_map s) \<Longrightarrow> fds_ok s \<Longrightarrow> 0 \<le> l \<Longrightarrow> find_by_live_fd s l = Done None"
  unfolding find_by_live_fd_def
proof (rule find_fd_none)
  assume l: "l \<notin> ran (fd_map s)" and ok: "fds_ok s" "0 \<le> l"
  have p: "pairs_ok (open_pairs (fd_states s))" using ok by (simp add: fds_ok_def)
  have "l \<notin> snd ` set (open_pairs (fd_states s))"
  proof
    assume "l \<in> snd ` set (open_pairs (fd_states s))"
    then obtain n where n: "(n, l) \<in> set (open_pairs (fd_states s))" by auto
    then have "0 \<le> n" using p ok(2) by (auto simp: pairs_ok_def list_all_iff)
    then have "fd_map s n = Some l" using n pairs_ok_map_of [OF p] by (simp add: fd_map_def)
    then show False using l by (auto simp: ran_def)
  qed
  then show "list_all (\<lambda>f. is_closed f \<or> live_fd f \<noteq> l) (map (to_fd s) (in_fds s))"
    using no_pair_closed(2) by (simp add: fd_states_def)
qed

lemma find_by_live_fd_some:
  assumes "fds_ok s" "fd_map s n = Some l" "0 \<le> l"
  shows "\<exists>k. find_by_live_fd s l = Done (Some k)"
proof -
  have p: "pairs_ok (open_pairs (fd_states s))" using assms(1) by (simp add: fds_ok_def)
  have m: "(n, l) \<in> set (open_pairs (fd_states s))" using assms(2) by (auto simp: fd_map_def dest: map_of_SomeD)
  from m p obtain as f bs where s: "fd_states s = as @ f # bs" "\<not> is_closed f" "live_fd f = l" "script_fd f = n" "0 \<le> n"
    "list_all (\<lambda>f. is_closed f \<or> live_fd f \<noteq> l) as"
    using assms(3) by (rule_tac open_pair_split) auto
  then show ?thesis
    using find_fd_some [of s "in_fds s" as f bs "\<lambda>f. live_fd f = l" 0] assms(3)
    by (simp add: fd_states_def find_by_live_fd_def)
qed

subsection \<open>The operations on the map\<close>

lemma to_live_fd_map:
  assumes "fds_ok s" "0 \<le> n"
  shows "to_live_fd s n = (case fd_map s n of Some l \<Rightarrow> Done (Inr l)
    | None \<Rightarrow> eval_error (''unable to find fd with script fd '' @ dec_int n))"
proof (cases "fd_map s n")
  case None
  then show ?thesis by (simp add: to_live_fd_def find_by_script_fd_none)
next
  case (Some l)
  then obtain k where "find_by_script_fd s n = Done (Some k)" "live_fd (to_fd s (in_fds s ! k)) = l"
    using assms by (rule_tac find_by_script_fd_some)
  then show ?thesis using Some by (simp add: to_live_fd_def)
qed

lemma check_duplicate_fd_map:
  assumes "fds_ok s" "0 \<le> n" "0 \<le> l"
  shows "check_duplicate_fd s n l =
    (if n \<in> dom (fd_map s) then eval_error (''duplicate fd '' @ dec_int n @ '' in script'')
     else if l \<in> ran (fd_map s) then eval_error (''duplicate live fd '' @ dec_int l) else Done (Inr ()))"
proof (cases "fd_map s n")
  case None
  then have d: "n \<notin> dom (fd_map s)" by auto
  show ?thesis
  proof (cases "l \<in> ran (fd_map s)")
    case True
    then obtain m where "fd_map s m = Some l" by (auto simp: ran_def)
    then obtain k where "find_by_live_fd s l = Done (Some k)" using find_by_live_fd_some assms by blast
    then show ?thesis using None d True by (simp add: check_duplicate_fd_def find_by_script_fd_none)
  next
    case False
    then show ?thesis using None d assms
      by (simp add: check_duplicate_fd_def find_by_script_fd_none find_by_live_fd_none)
  qed
next
  case (Some v)
  obtain k where "find_by_script_fd s n = Done (Some k)"
    using Some assms by (rule_tac find_by_script_fd_some) auto
  then show ?thesis using Some by (auto simp: check_duplicate_fd_def)
qed

lemma map_to_fd_cong:
  assumes "list_all (\<lambda>i. i < length (st_sockets (in_state s))) (List.map_filter fd_socket fds)"
    "\<And>i. i < length (st_sockets (in_state s)) \<Longrightarrow> i \<in> set (List.map_filter fd_socket fds) \<Longrightarrow>
       socket_fd (st_sockets (in_state s') ! i) = socket_fd (st_sockets (in_state s) ! i)"
  shows "map (to_fd s') fds = map (to_fd s) fds"
proof (rule map_cong [OF refl])
  fix fd
  assume fd: "fd \<in> set fds"
  show "to_fd s' fd = to_fd s fd"
  proof (cases fd)
    case (FD_SOCKET i ty)
    then have "i \<in> set (List.map_filter fd_socket fds)" using fd by (force simp: List.map_filter_def)
    then show ?thesis using assms FD_SOCKET by (auto simp: list_all_iff)
  qed simp_all
qed

text \<open>A new open descriptor in front of the others.\<close>

lemma fd_added:
  assumes "fds_ok s" "0 \<le> n" "0 \<le> l" "n \<notin> dom (fd_map s)" "l \<notin> ran (fd_map s)"
    "fd_states s' = f # fd_states s" "\<not> is_closed f" "script_fd f = n" "live_fd f = l"
    "distinct (fd_indices s')" "list_all (\<lambda>i. i < length (st_sockets (in_state s'))) (fd_indices s')"
  shows "fds_ok s'" "fd_map s' = (fd_map s)(n \<mapsto> l)"
proof -
  have p: "pairs_ok (open_pairs (fd_states s))" using assms(1) by (simp add: fds_ok_def)
  have n: "n \<notin> fst ` set (open_pairs (fd_states s))"
    using assms(4) by (auto simp: fd_map_def map_of_none [symmetric])
  have "l \<notin> snd ` set (open_pairs (fd_states s))"
  proof
    assume "l \<in> snd ` set (open_pairs (fd_states s))"
    then obtain m where m: "(m, l) \<in> set (open_pairs (fd_states s))" by auto
    then have "0 \<le> m" using p assms(3) by (auto simp: pairs_ok_def list_all_iff)
    then show False using m pairs_ok_map_of [OF p] assms(5) by (auto simp: fd_map_def ran_def)
  qed
  then have "pairs_ok (open_pairs (fd_states s'))"
    using p n assms(2,3,6-9) by (auto simp: pairs_ok_def)
  then show "fds_ok s'" using assms(10,11) by (simp add: fds_ok_def)
  show "fd_map s' = (fd_map s)(n \<mapsto> l)" using assms(6-9) by (simp add: fd_map_def)
qed

lemma state_add_fd_states:
  "fd_states (state_add_fd fd s) = to_fd s fd # fd_states s"
  "fd_indices (state_add_fd fd s) = (case fd_socket fd of None \<Rightarrow> fd_indices s | Some i \<Rightarrow> i # fd_indices s)"
  "in_state (state_add_fd fd s) = in_state s"
proof -
  have "to_fd (s\<lparr>in_fds := x\<rparr>) = to_fd s" for x by (rule ext) (rename_tac fd; case_tac fd; simp)
  then show "fd_states (state_add_fd fd s) = to_fd s fd # fd_states s" by (simp add: fd_states_def state_add_fd_def)
qed (auto simp: fd_indices_def state_add_fd_def List.map_filter_def split: option.splits)

lemma plain_fd_added:
  assumes "fds_ok s" "0 \<le> n" "0 \<le> l" "n \<notin> dom (fd_map s)" "l \<notin> ran (fd_map s)"
    "fd \<in> {FD_FILE (fd_state_new n l), FD_PIPE (fd_state_new n l), FD_EPOLL (fd_state_new n l)}"
  shows "fds_ok (state_add_fd fd s)" "fd_map (state_add_fd fd s) = (fd_map s)(n \<mapsto> l)"
proof -
  have f: "to_fd s fd = fd_state_new n l" "fd_socket fd = None" using assms(6) by auto
  then have i: "distinct (fd_indices (state_add_fd fd s))"
    "list_all (\<lambda>i. i < length (st_sockets (in_state (state_add_fd fd s)))) (fd_indices (state_add_fd fd s))"
    using assms(1) by (simp_all add: state_add_fd_states fds_ok_def)
  have s: "fd_states (state_add_fd fd s) = fd_state_new n l # fd_states s" by (simp add: state_add_fd_states f)
  show "fds_ok (state_add_fd fd s)" "fd_map (state_add_fd fd s) = (fd_map s)(n \<mapsto> l)"
    by (rule fd_added [OF assms(1-5) s _ _ _ i]; simp add: fd_state_new_def)+
qed

lemma socket_fd_added:
  assumes "fds_ok s" "0 \<le> n" "0 \<le> l" "n \<notin> dom (fd_map s)" "l \<notin> ran (fd_map s)"
    "sk_script_fd socket = n" "sk_live_fd socket = l" "\<not> sk_is_closed socket"
  shows "fds_ok (add_socket_fd socket ty s)" "fd_map (add_socket_fd socket ty s) = (fd_map s)(n \<mapsto> l)"
proof -
  let ?s = "s\<lparr>in_state := snd (add_socket socket (in_state s))\<rparr>"
  have len: "length (st_sockets (in_state ?s)) = Suc (length (st_sockets (in_state s)))" by (simp add: add_socket_def)
  have ok: "distinct (fd_indices s)" "list_all (\<lambda>i. i < length (st_sockets (in_state s))) (fd_indices s)"
    using assms(1) by (simp_all add: fds_ok_def)
  have "fd_states ?s = fd_states s"
    using map_to_fd_cong [of s "in_fds s" ?s] ok(2)
    by (simp add: fd_states_def fd_indices_def add_socket_def nth_append)
  then have s: "fd_states (add_socket_fd socket ty s) = socket_fd socket # fd_states s"
    by (simp add: add_socket_fd_def state_add_fd_states) (simp add: add_socket_def)
  have d: "fd_indices (add_socket_fd socket ty s) = length (st_sockets (in_state s)) # fd_indices s"
    by (simp add: add_socket_fd_def state_add_fd_states) (simp add: fd_indices_def)
  have i: "distinct (fd_indices (add_socket_fd socket ty s))"
    "list_all (\<lambda>i. i < length (st_sockets (in_state (add_socket_fd socket ty s)))) (fd_indices (add_socket_fd socket ty s))"
    using ok len by (auto simp: d list_all_iff) (auto simp: add_socket_fd_def state_add_fd_states)
  show "fds_ok (add_socket_fd socket ty s)" "fd_map (add_socket_fd socket ty s) = (fd_map s)(n \<mapsto> l)"
    by (rule fd_added [OF assms(1-5) s _ _ _ i]; simp add: socket_fd_def assms)+
qed

text \<open>A descriptor that is closed.\<close>

lemma fd_socket_unique:
  assumes "distinct (List.map_filter fd_socket fds)" "j < length fds" "k < length fds"
    "fd_socket (fds ! j) = Some i" "fd_socket (fds ! k) = Some i"
  shows "j = k"
  using assms
proof (induction fds arbitrary: j k)
  case (Cons fd fds)
  have "fd_socket fd' \<noteq> Some i'" if "fd_socket fd = Some i'" "fd' \<in> set fds" for fd' i'
    using Cons.prems(1) that by (force simp: List.map_filter_def)
  moreover have "distinct (List.map_filter fd_socket fds)"
    using Cons.prems(1) by (auto simp: List.map_filter_def split: if_splits)
  ultimately show ?case
    using Cons.prems(2-) Cons.IH by (cases j; cases k) force+
qed simp

lemma close_fd_states:
  assumes "fds_ok s" "k < length (in_fds s)"
  shows "fd_states (close_fd k s) = (fd_states s)[k := (fd_states s ! k)\<lparr>is_closed := True\<rparr>]"
    "fd_indices (close_fd k s) = fd_indices s"
    "length (st_sockets (in_state (close_fd k s))) = length (st_sockets (in_state s))"
proof -
  have f: "fd_states s ! k = to_fd s (in_fds s ! k)" using assms(2) by (simp add: fd_states_def)
  have d: "distinct (List.map_filter fd_socket (in_fds s))" "list_all (\<lambda>i. i < length (st_sockets (in_state s))) (fd_indices s)"
    using assms(1) by (simp_all add: fds_ok_def fd_indices_def)
  show "length (st_sockets (in_state (close_fd k s))) = length (st_sockets (in_state s))"
    by (simp add: close_fd_def upd_socket_def split: fd.splits)
  consider (socket) i ty where "in_fds s ! k = FD_SOCKET i ty" | (plain) "fd_socket (in_fds s ! k) = None"
    by (cases "in_fds s ! k") auto
  then have "fd_states (close_fd k s) = (fd_states s)[k := (fd_states s ! k)\<lparr>is_closed := True\<rparr>] \<and>
    fd_indices (close_fd k s) = fd_indices s"
  proof cases
    case socket
    then have c: "close_fd k s = update_socket i (\<lambda>k. k\<lparr>sk_is_closed := True\<rparr>) s"
      by (simp add: close_fd_def update_socket_def)
    have i: "i < length (st_sockets (in_state s))"
      using d(2) socket assms(2) nth_mem [OF assms(2)] by (force simp: fd_indices_def List.map_filter_def list_all_iff)
    have "to_fd (close_fd k s) (in_fds s ! j) =
        (if j = k then (fd_states s ! k)\<lparr>is_closed := True\<rparr> else to_fd s (in_fds s ! j))" if "j < length (in_fds s)" for j
    proof (cases "j = k")
      case True
      then show ?thesis using socket i by (simp add: f c update_socket_def upd_socket_def socket_fd_def)
    next
      case False
      then have "fd_socket (in_fds s ! j) \<noteq> Some i"
        using fd_socket_unique [OF d(1) that assms(2)] socket by fastforce
      then show ?thesis using False
        by (cases "in_fds s ! j") (auto simp: c update_socket_def upd_socket_def)
    qed
    then show ?thesis
      by (auto simp: fd_states_def list_eq_iff_nth_eq nth_list_update fd_indices_def c update_socket_def)
  next
    case plain
    then have c: "close_fd k s = s\<lparr>in_fds := (in_fds s)[k := set_closed (in_fds s ! k)]\<rparr>"
      by (cases "in_fds s ! k") (simp_all add: close_fd_def)
    have t: "to_fd (s\<lparr>in_fds := x\<rparr>) = to_fd s" for x by (rule ext) (rename_tac fd; case_tac fd; simp)
    have e: "to_fd s (set_closed (in_fds s ! k)) = (fd_states s ! k)\<lparr>is_closed := True\<rparr>"
      "fd_socket (set_closed (in_fds s ! k)) = None"
      using plain by (cases "in_fds s ! k"; simp add: f)+
    have "List.map_filter fd_socket ((in_fds s)[k := set_closed (in_fds s ! k)]) = List.map_filter fd_socket (in_fds s)"
      using plain e(2) arg_cong [OF id_take_nth_drop [OF assms(2)], of "List.map_filter fd_socket"]
      by (simp add: upd_conv_take_nth_drop [OF assms(2)] List.map_filter_def)
    moreover have "fd_states (close_fd k s) = (fd_states s)[k := (fd_states s ! k)\<lparr>is_closed := True\<rparr>]"
      using e(1) by (simp add: c fd_states_def map_update t)
    ultimately show ?thesis by (simp add: fd_indices_def c)
  qed
  then show "fd_states (close_fd k s) = (fd_states s)[k := (fd_states s ! k)\<lparr>is_closed := True\<rparr>]"
    "fd_indices (close_fd k s) = fd_indices s" by blast+
qed

lemma pairs_ok_remove: "pairs_ok (ps @ p # qs) \<Longrightarrow> pairs_ok (ps @ qs)"
  by (auto simp: pairs_ok_def split: if_splits)

lemma close_fd_map:
  assumes "fds_ok s" "fd_map s n = Some l" "0 \<le> n"
  shows "\<exists>s'. run_syscall_close n l s = Done (Inr s') \<and> fds_ok s' \<and> fd_map s' = (fd_map s)(n := None)"
proof -
  obtain k where k: "find_by_script_fd s n = Done (Some k)" "k < length (in_fds s)" "fd_states s ! k = to_fd s (in_fds s ! k)"
    "\<not> is_closed (to_fd s (in_fds s ! k))" "script_fd (to_fd s (in_fds s ! k)) = n" "live_fd (to_fd s (in_fds s ! k)) = l"
    "list_all (\<lambda>f. is_closed f \<or> script_fd f \<noteq> n) (take k (fd_states s))"
    "list_all (\<lambda>f. is_closed f \<or> script_fd f \<noteq> n) (drop (Suc k) (fd_states s))"
    using assms by (rule_tac find_by_script_fd_some)
  let ?as = "take k (fd_states s)" and ?f = "fd_states s ! k" and ?bs = "drop (Suc k) (fd_states s)"
  have len: "k < length (fd_states s)" using k(2) by (simp add: fd_states_def)
  have s: "fd_states s = ?as @ ?f # ?bs" by (rule id_take_nth_drop [OF len])
  have s': "fd_states (close_fd k s) = ?as @ ?f\<lparr>is_closed := True\<rparr> # ?bs"
    unfolding close_fd_states(1) [OF assms(1) k(2)] by (rule upd_conv_take_nth_drop [OF len])
  have o: "open_pairs (fd_states s) = open_pairs ?as @ (n, l) # open_pairs ?bs"
    using arg_cong [OF s, of open_pairs] k(3-6) by simp
  have o': "open_pairs (fd_states (close_fd k s)) = open_pairs ?as @ open_pairs ?bs" unfolding s' by simp
  have new: "n \<notin> fst ` set (open_pairs ?as)" "n \<notin> fst ` set (open_pairs ?bs)"
    using k(7,8) by (auto simp: open_pairs_def list_all_iff)
  have "fds_ok (close_fd k s)"
    using assms(1) o pairs_ok_remove [of "open_pairs ?as" "(n, l)" "open_pairs ?bs"]
    by (simp add: fds_ok_def close_fd_states [OF assms(1) k(2)] o' [unfolded close_fd_states [OF assms(1) k(2)]])
  moreover have "fd_map (close_fd k s) = (fd_map s)(n := None)"
  proof
    fix m
    show "fd_map (close_fd k s) m = ((fd_map s)(n := None)) m"
      using new [folded map_of_none] by (auto simp: fd_map_def o o' map_add_def split: option.splits)
  qed
  moreover have "run_syscall_close n l s = Done (Inr (close_fd k s))" using k by (simp add: run_syscall_close_def)
  ultimately show ?thesis by blast
qed

lemma update_socket_states:
  assumes "\<And>k. socket_fd (f k) = socket_fd k"
  shows "fd_states (update_socket i f s) = fd_states s" "fd_indices (update_socket i f s) = fd_indices s"
    "length (st_sockets (in_state (update_socket i f s))) = length (st_sockets (in_state s))"
proof -
  have "to_fd (update_socket i f s) fd = to_fd s fd" for fd
    using assms by (cases fd; cases "i < length (st_sockets (in_state s))")
      (auto simp: update_socket_def upd_socket_def nth_list_update list_update_beyond)
  then show "fd_states (update_socket i f s) = fd_states s" by (simp add: fd_states_def update_socket_def)
qed (simp_all add: update_socket_def fd_indices_def upd_socket_def)

lemma fds_ok_cong:
  assumes "fd_states s' = fd_states s" "fd_indices s' = fd_indices s"
    "length (st_sockets (in_state s')) = length (st_sockets (in_state s))"
  shows "fds_ok s' = fds_ok s" "fd_map s' = fd_map s"
  using assms by (simp_all add: fds_ok_def fd_map_def)

subsection \<open>Refinement of the map\<close>

definition fd_open_spec :: "(int \<Rightarrow> int option) \<Rightarrow> int \<Rightarrow> int \<Rightarrow> (int \<Rightarrow> int option) option" where
  "fd_open_spec m n l = (if n \<in> dom m \<or> l \<in> ran m then None else Some (m(n \<mapsto> l)))"

definition fd_close_spec :: "(int \<Rightarrow> int option) \<Rightarrow> int \<Rightarrow> int \<Rightarrow> (int \<Rightarrow> int option) option" where
  "fd_close_spec m n l = (if m n = Some l then Some (m(n := None)) else None)"

text \<open>An error with its message where the specification gives nothing, otherwise a well-formed table for the new
  map.\<close>

definition refines_fd :: "interp evaluated \<Rightarrow> (int \<Rightarrow> int option) option \<Rightarrow> bool" where
  "refines_fd r spec \<longleftrightarrow> (case spec of
     None \<Rightarrow> (case r of Done (Inl (Some e)) \<Rightarrow> True | _ \<Rightarrow> False)
   | Some m \<Rightarrow> (case r of Done (Inr s) \<Rightarrow> fds_ok s \<and> fd_map s = m | _ \<Rightarrow> False))"

lemma refines_fdD:
  "refines_fd (Done (Inr s)) spec \<Longrightarrow> fds_ok s \<and> spec = Some (fd_map s)"
  by (auto simp: refines_fd_def split: option.splits)

lemma refines_fd_simps [simp]:
  "refines_fd (Done (Inr s)) (Some m) \<longleftrightarrow> fds_ok s \<and> fd_map s = m"
  "refines_fd (eval_error e) None" "\<not> refines_fd (eval_error e) (Some m)"
  by (simp_all add: refines_fd_def eval_error_def)

lemma eval_then_error [simp]: "eval_then (eval_error e) f = eval_error e"
  by (simp add: eval_error_def)

lemma run_syscall_open_refines:
  "fds_ok s \<Longrightarrow> 0 \<le> n \<Longrightarrow> 0 \<le> l \<Longrightarrow> refines_fd (run_syscall_open n l s) (fd_open_spec (fd_map s) n l)"
  by (simp add: run_syscall_open_def check_duplicate_fd_map fd_open_spec_def file_new_def plain_fd_added)

lemma run_syscall_epoll_create_refines:
  "fds_ok s \<Longrightarrow> 0 \<le> n \<Longrightarrow> 0 \<le> l \<Longrightarrow> refines_fd (run_syscall_epoll_create n l s) (fd_open_spec (fd_map s) n l)"
  by (simp add: run_syscall_epoll_create_def check_duplicate_fd_map fd_open_spec_def epoll_new_def plain_fd_added)

lemma run_syscall_socket_refines:
  "fds_ok s \<Longrightarrow> 0 \<le> n \<Longrightarrow> 0 \<le> l \<Longrightarrow> refines_fd (run_syscall_socket family ty protocol n l s) (fd_open_spec (fd_map s) n l)"
  by (simp add: run_syscall_socket_def check_duplicate_fd_map fd_open_spec_def socket_fd_added socket_new_def)

lemma run_syscall_close_refines:
  assumes "fds_ok s" "0 \<le> n"
  shows "refines_fd (run_syscall_close n l s) (fd_close_spec (fd_map s) n l)"
proof (cases "fd_map s n")
  case None
  then show ?thesis by (simp add: run_syscall_close_def find_by_script_fd_none fd_close_spec_def)
next
  case (Some v)
  show ?thesis
  proof (cases "v = l")
    case True
    then show ?thesis using close_fd_map [OF assms(1)] Some assms(2) by (force simp: fd_close_spec_def)
  next
    case False
    obtain k where "find_by_script_fd s n = Done (Some k)" "live_fd (to_fd s (in_fds s ! k)) = v"
      using assms Some by (rule_tac find_by_script_fd_some)
    then show ?thesis using False Some by (simp add: run_syscall_close_def fd_close_spec_def)
  qed
qed

text \<open>What every operation gives that opens a descriptor.\<close>

locale fd_opener =
  fixes open_fd :: "int \<Rightarrow> int \<Rightarrow> interp \<Rightarrow> interp evaluated"
  assumes open_refines: "fds_ok s \<Longrightarrow> 0 \<le> n \<Longrightarrow> 0 \<le> l \<Longrightarrow> refines_fd (open_fd n l s) (fd_open_spec (fd_map s) n l)"
begin

lemma open_fresh:
  assumes "fds_ok s" "0 \<le> n" "0 \<le> l" "n \<notin> dom (fd_map s)" "l \<notin> ran (fd_map s)"
  obtains s' where "open_fd n l s = Done (Inr s')" "fds_ok s'" "fd_map s' = (fd_map s)(n \<mapsto> l)"
  using open_refines [OF assms(1-3)] assms(4,5)
  by (auto simp: fd_open_spec_def refines_fd_def split: run.splits sum.splits)

lemma open_keeps:
  "fds_ok s \<Longrightarrow> 0 \<le> n \<Longrightarrow> 0 \<le> l \<Longrightarrow> open_fd n l s = Done (Inr s') \<Longrightarrow> fds_ok s'"
  using open_refines [of s n l] refines_fdD by fastforce

lemma open_lookup:
  assumes "fds_ok s" "0 \<le> n" "0 \<le> l" "open_fd n l s = Done (Inr s')"
  shows "to_live_fd s' n = Done (Inr l)" "to_live_fd s n \<noteq> Done (Inr k)"
proof -
  have r: "fds_ok s'" "n \<notin> dom (fd_map s)" "fd_map s' = (fd_map s)(n \<mapsto> l)"
    using refines_fdD [of s'] open_refines [OF assms(1-3)] assms(4)
    by (auto simp: fd_open_spec_def split: if_splits)
  show "to_live_fd s' n = Done (Inr l)" using to_live_fd_map [of s' n] r assms(2) by simp
  have "fd_map s n = None" using r(2) by auto
  then show "to_live_fd s n \<noteq> Done (Inr k)" using to_live_fd_map [of s n] assms(1,2) by (simp add: eval_error_def)
qed

lemma open_close:
  assumes "fds_ok s" "0 \<le> n" "0 \<le> l" "open_fd n l s = Done (Inr s')"
  shows "\<exists>s''. run_syscall_close n l s' = Done (Inr s'') \<and> fds_ok s'' \<and> fd_map s'' = fd_map s"
proof -
  have r: "fds_ok s'" "n \<notin> dom (fd_map s)" "fd_map s' = (fd_map s)(n \<mapsto> l)"
    using refines_fdD [of s'] open_refines [OF assms(1-3)] assms(4)
    by (auto simp: fd_open_spec_def split: if_splits)
  have "(fd_map s)(n := None) = fd_map s" using r(2) by (auto simp: fun_eq_iff)
  then show ?thesis using close_fd_map [of s' n l] r assms(2) by simp
qed

end

interpretation files: fd_opener run_syscall_open
  by unfold_locales (rule run_syscall_open_refines)

interpretation epolls: fd_opener run_syscall_epoll_create
  by unfold_locales (rule run_syscall_epoll_create_refines)

interpretation sockets: fd_opener "run_syscall_socket family ty protocol" for family ty protocol
  by unfold_locales (rule run_syscall_socket_refines)

text \<open>Two different ends of a pipe.\<close>

lemma run_syscall_pipe_map:
  assumes "fds_ok s" "n \<noteq> m" "l \<noteq> k" "0 \<le> n" "0 \<le> m" "0 \<le> l" "0 \<le> k"
    "{n, m} \<inter> dom (fd_map s) = {}" "{l, k} \<inter> ran (fd_map s) = {}"
  shows "\<exists>s'. run_syscall_pipe (n, m) (l, k) s = Done (Inr s') \<and> fds_ok s' \<and> fd_map s' = (fd_map s)(n \<mapsto> l, m \<mapsto> k)"
proof -
  let ?s = "pipe_new n l s"
  have 1: "fds_ok ?s" "fd_map ?s = (fd_map s)(n \<mapsto> l)"
    unfolding pipe_new_def by (rule plain_fd_added; use assms in auto)+
  have "m \<notin> dom (fd_map ?s)" "k \<notin> ran (fd_map ?s)" using assms by (auto simp: 1(2) ran_def split: if_splits)
  then have 2: "fds_ok (pipe_new m k ?s)" "fd_map (pipe_new m k ?s) = (fd_map ?s)(m \<mapsto> k)"
    unfolding pipe_new_def [of m k] by (rule_tac plain_fd_added; use assms 1(1) in auto)+
  show ?thesis using assms 1(2) 2 by (simp add: run_syscall_pipe_def check_duplicate_fd_map)
qed

text \<open>A lookup succeeds for numbers that are not negative only.\<close>

lemma find_fd_found: "find_fd s p fds i = Done (Some k) \<Longrightarrow>
    i \<le> k \<and> k < i + length fds \<and> p (to_fd s (fds ! (k - i))) \<and> 0 \<le> live_fd (to_fd s (fds ! (k - i))) \<and>
    0 \<le> script_fd (to_fd s (fds ! (k - i)))"
proof (induction fds arbitrary: i)
  case (Cons fd fds)
  show ?case
  proof (cases "\<not> is_closed (to_fd s fd) \<and> p (to_fd s fd)")
    case True
    then show ?thesis using Cons.prems by (auto simp: Let_def check_def split: if_splits)
  next
    case False
    then have "find_fd s p fds (Suc i) = Done (Some k)" using Cons.prems by (auto simp: Let_def split: if_splits)
    from Cons.IH [OF this] show ?thesis by (auto simp: nth_Cons' Suc_diff_le)
  qed
qed simp

lemma to_live_fd_found: "to_live_fd s n = Done (Inr l) \<Longrightarrow> 0 \<le> n \<and> 0 \<le> l"
  by (auto simp: to_live_fd_def find_by_script_fd_def run_simps eval_error_def split: option.splits dest!: find_fd_found)

subsection \<open>Properties\<close>

text \<open>C28: On a well-formed table the operations on descriptors are those of an injective finite map: a descriptor
  that is opened (a file, an epoll instance or a socket) is added when both of its numbers are new and refused
  otherwise, closing removes the pair it names and is refused otherwise, and the lookup of a script's number
  gives its live number or an error.\<close>
theorem fd_operations_refine:
  assumes "fds_ok s" "0 \<le> n" "0 \<le> l"
  shows "refines_fd (run_syscall_open n l s) (fd_open_spec (fd_map s) n l) \<and>
    refines_fd (run_syscall_epoll_create n l s) (fd_open_spec (fd_map s) n l) \<and>
    refines_fd (run_syscall_socket fam ty protocol n l s) (fd_open_spec (fd_map s) n l) \<and>
    refines_fd (run_syscall_close n l s) (fd_close_spec (fd_map s) n l) \<and>
    to_live_fd s n = (case fd_map s n of Some k \<Rightarrow> Done (Inr k)
      | None \<Rightarrow> eval_error (''unable to find fd with script fd '' @ dec_int n))"
  using assms
  by (simp add: run_syscall_open_refines run_syscall_epoll_create_refines run_syscall_socket_refines
      run_syscall_close_refines to_live_fd_map)

text \<open>A table with a socket and an epoll instance.\<close>

definition empty_interp :: interp where
  "empty_interp = \<lparr>in_state = test_state, in_fds = [], in_syscalls = SYSCALL_IDLE, in_live_end_usecs = 0, in_calls = []\<rparr>"

definition test_fds :: interp where
  "test_fds = epoll_new 4 9 (add_socket_fd (socket_new\<lparr>sk_script_fd := 3, sk_live_fd := 8\<rparr>) 1 empty_interp)"

lemma test_fds_states:
  "fd_states test_fds = [fd_state_new 4 9, fd_state_new 3 8]" "fd_indices test_fds = [0]"
  "length (st_sockets (in_state test_fds)) = 1"
  by (simp_all add: test_fds_def epoll_new_def add_socket_fd_def state_add_fd_def empty_interp_def test_state_def
      add_socket_def fd_states_def fd_indices_def socket_fd_def socket_new_def fd_state_new_def List.map_filter_def)

lemma test_fds_ok: "fds_ok test_fds" "fd_map test_fds = [4 \<mapsto> 9, 3 \<mapsto> 8]"
  by (auto simp: fds_ok_def fd_map_def test_fds_states pairs_ok_def fd_state_new_def fun_eq_iff)

lemma fd_operations_refine_witness:
  "fd_map test_fds 4 = Some 9 \<and> refines_fd (run_syscall_open 5 10 test_fds) (fd_open_spec (fd_map test_fds) 5 10) \<and>
   to_live_fd test_fds 4 = Done (Inr 9) \<and> refines_fd (run_syscall_close 4 9 test_fds) (fd_close_spec (fd_map test_fds) 4 9)"
  using fd_operations_refine [of test_fds 5 10] fd_operations_refine [of test_fds 4 9] test_fds_ok by simp

end
