(* ===== verification/SyscallThread.thy ===== *)
theory SyscallThread
  imports FdTable
begin

section \<open>The two threads\<close>

text \<open>
  The model of the protocol between the main thread and the system call thread in \<^verbatim>\<open>run_system_call.c\<close>: the
  lock, the state of the system call thread, the three condition variables and the places of the code where
  each thread is, as a step relation in which the threads interleave. A blocking call of the script is made by
  the system call thread; the handler of \<^verbatim>\<open>splice\<close>, which does not begin its call, is a kind of its own. A
  waiting thread wakes when its condition is signalled, or without a reason. A failed assertion is a place
  of its own.
\<close>

subsection \<open>Threads and their places\<close>

datatype who = MAIN | SYS

datatype script_call = NONBLOCKING | BLOCKING | BLOCKING_SPLICE

text \<open>The places of the main thread: between two steps of the script; asleep until the time of an event; waiting for
  the other thread to be idle, or to have dequeued the call; having given up the lock to let the call start;
  waiting for the other thread to exit; at the end; dead after an error.\<close>

datatype main_pc = M_RUN | M_SLEEP | M_AWAIT | M_DEQ | M_YIELD | M_JOIN | M_END | M_DEAD

text \<open>The places of the system call thread: before its first lock; at the switch; waiting for a call; with a call
  that it took, or asleep until its time; after the unlock of \<^verbatim>\<open>begin_syscall\<close>; in the call; after the lock of
  \<^verbatim>\<open>end_syscall\<close>; exited; stuck at a lock that it holds; at a failed assertion.\<close>

datatype thread_pc = T_START | T_LOOP | T_WAIT | T_TAKEN | T_SLEEP | T_SIGNAL | T_CALL | T_RETURNED
  | T_EXITED | T_STUCK | T_BAD

text \<open>\<open>todo\<close> is the calls of the script from the current one on, \<open>started\<close> those that the system call thread has
  taken. The flags say that the condition a thread waits for was signalled.\<close>

record threads =
  lock :: "who option"
  sstate :: syscall_state_t
  mpc :: main_pc
  tpc :: thread_pc
  todo :: "script_call list"
  started :: "script_call list"
  m_woken :: bool
  t_woken :: bool

text \<open>\<^verbatim>\<open>syscalls_new\<close>: the main thread holds the lock that the new thread waits for.\<close>

definition syscalls_new :: "script_call list \<Rightarrow> threads" where
  "syscalls_new calls = \<lparr>lock = Some MAIN, sstate = SYSCALL_IDLE, mpc = M_RUN, tpc = T_START, todo = calls, started = [],
     m_woken = False, t_woken = False\<rparr>"

text \<open>The signals of the three conditions reach the thread that waits for them.\<close>

definition signal_enqueued :: "threads \<Rightarrow> threads" where
  "signal_enqueued s = (if tpc s = T_WAIT then s\<lparr>t_woken := True\<rparr> else s)"

definition signal_dequeued :: "threads \<Rightarrow> threads" where
  "signal_dequeued s = (if mpc s = M_DEQ then s\<lparr>m_woken := True\<rparr> else s)"

definition signal_idle :: "threads \<Rightarrow> threads" where
  "signal_idle s = (if mpc s = M_AWAIT then s\<lparr>m_woken := True\<rparr> else s)"

subsection \<open>Steps\<close>

text \<open>Whether a step belongs to a thread, is the end of the second that the main thread waits at most, or is a
  wake-up without a signal.\<close>

datatype step_kind = STEP who | TIMEOUT | SPURIOUS

text \<open>The main thread with the lock: it may sleep (\<^verbatim>\<open>wait_for_event\<close>), make a call that does not block when the
  other thread is idle, start to wait for that, or enqueue a blocking call and wait until it is dequeued. After the call was dequeued it takes the lock again and again,
  until the system says that the other thread sleeps (which it may say at any time) or the call is done.\<close>

inductive main_step :: "threads \<Rightarrow> threads \<Rightarrow> bool" where
  m_sleep: "mpc s = M_RUN \<Longrightarrow> lock s = Some MAIN \<Longrightarrow> main_step s (s\<lparr>mpc := M_SLEEP, lock := None\<rparr>)"
| m_wake: "mpc s = M_SLEEP \<Longrightarrow> lock s = None \<Longrightarrow> main_step s (s\<lparr>mpc := M_RUN, lock := Some MAIN\<rparr>)"
| m_call: "mpc s = M_RUN \<Longrightarrow> lock s = Some MAIN \<Longrightarrow> todo s = NONBLOCKING # cs \<Longrightarrow> sstate s = SYSCALL_IDLE \<Longrightarrow>
    main_step s (s\<lparr>todo := cs\<rparr>)"
| m_await: "mpc s = M_RUN \<Longrightarrow> lock s = Some MAIN \<Longrightarrow> sstate s \<noteq> SYSCALL_IDLE \<Longrightarrow>
    main_step s (s\<lparr>mpc := M_AWAIT, lock := None, m_woken := False\<rparr>)"
| m_await_woken: "mpc s = M_AWAIT \<Longrightarrow> m_woken s \<Longrightarrow> lock s = None \<Longrightarrow> main_step s (s\<lparr>mpc := M_RUN, lock := Some MAIN\<rparr>)"
| m_enqueue: "mpc s = M_RUN \<Longrightarrow> lock s = Some MAIN \<Longrightarrow> todo s = c # cs \<Longrightarrow> c \<noteq> NONBLOCKING \<Longrightarrow> sstate s = SYSCALL_IDLE \<Longrightarrow>
    main_step s ((signal_enqueued s)\<lparr>sstate := SYSCALL_ENQUEUED, mpc := M_DEQ, lock := None, m_woken := False\<rparr>)"
| m_not_dequeued: "mpc s = M_DEQ \<Longrightarrow> m_woken s \<Longrightarrow> lock s = None \<Longrightarrow> sstate s = SYSCALL_ENQUEUED \<Longrightarrow>
    main_step s (s\<lparr>m_woken := False\<rparr>)"
| m_dequeued: "mpc s = M_DEQ \<Longrightarrow> m_woken s \<Longrightarrow> lock s = None \<Longrightarrow> sstate s \<noteq> SYSCALL_ENQUEUED \<Longrightarrow>
    main_step s (s\<lparr>mpc := M_YIELD\<rparr>)"
| m_yielded: "mpc s = M_YIELD \<Longrightarrow> lock s = None \<Longrightarrow> todo s = c # cs \<Longrightarrow>
    main_step s (s\<lparr>mpc := M_RUN, lock := Some MAIN, todo := cs\<rparr>)"
| m_not_asleep: "mpc s = M_YIELD \<Longrightarrow> lock s = None \<Longrightarrow> sstate s \<noteq> SYSCALL_IDLE \<Longrightarrow> main_step s s"

text \<open>At the end of the script the main thread stops the other one (\<^verbatim>\<open>syscalls_free\<close>).\<close>

inductive free_step :: "threads \<Rightarrow> threads \<Rightarrow> bool" where
  m_exit: "mpc s = M_RUN \<Longrightarrow> lock s = Some MAIN \<Longrightarrow> todo s = [] \<Longrightarrow> sstate s = SYSCALL_IDLE \<Longrightarrow>
    free_step s ((signal_enqueued s)\<lparr>sstate := SYSCALL_EXITING, mpc := M_JOIN, lock := None\<rparr>)"
| m_joined: "mpc s = M_JOIN \<Longrightarrow> tpc s = T_EXITED \<Longrightarrow> lock s = None \<Longrightarrow>
    free_step s (s\<lparr>mpc := M_END, lock := Some MAIN\<rparr>)"

text \<open>After a second of waiting a call that does not block is made all the same; anything else is an error.\<close>

inductive timeout_step :: "threads \<Rightarrow> threads \<Rightarrow> bool" where
  m_timeout_call: "mpc s = M_AWAIT \<Longrightarrow> lock s = None \<Longrightarrow> todo s = NONBLOCKING # cs \<Longrightarrow>
    timeout_step s (s\<lparr>mpc := M_RUN, lock := Some MAIN, todo := cs\<rparr>)"
| m_timeout: "mpc s = M_AWAIT \<Longrightarrow> lock s = None \<Longrightarrow> (\<And>cs. todo s \<noteq> NONBLOCKING # cs) \<Longrightarrow>
    timeout_step s (s\<lparr>mpc := M_DEAD, lock := Some MAIN\<rparr>)"

text \<open>The system call thread takes the call of the current event, which is the first of \<open>todo\<close>.\<close>

inductive sys_step :: "threads \<Rightarrow> threads \<Rightarrow> bool" where
  t_start: "tpc s = T_START \<Longrightarrow> lock s = None \<Longrightarrow> sys_step s (s\<lparr>tpc := T_LOOP, lock := Some SYS\<rparr>)"
| t_wait: "tpc s = T_LOOP \<Longrightarrow> lock s = Some SYS \<Longrightarrow> sstate s = SYSCALL_IDLE \<Longrightarrow>
    sys_step s (s\<lparr>tpc := T_WAIT, lock := None, t_woken := False\<rparr>)"
| t_woken: "tpc s = T_WAIT \<Longrightarrow> t_woken s \<Longrightarrow> lock s = None \<Longrightarrow> sys_step s (s\<lparr>tpc := T_LOOP, lock := Some SYS\<rparr>)"
| t_unreached: "tpc s = T_LOOP \<Longrightarrow> lock s = Some SYS \<Longrightarrow> sstate s \<in> {SYSCALL_RUNNING, SYSCALL_DONE} \<Longrightarrow>
    sys_step s (s\<lparr>tpc := T_BAD\<rparr>)"
| t_take: "tpc s = T_LOOP \<Longrightarrow> lock s = Some SYS \<Longrightarrow> sstate s = SYSCALL_ENQUEUED \<Longrightarrow>
    sys_step s (s\<lparr>tpc := T_TAKEN, started := started s @ take 1 (todo s)\<rparr>)"
| t_sleep: "tpc s = T_TAKEN \<Longrightarrow> lock s = Some SYS \<Longrightarrow> sys_step s (s\<lparr>tpc := T_SLEEP, lock := None\<rparr>)"
| t_wake: "tpc s = T_SLEEP \<Longrightarrow> lock s = None \<Longrightarrow> sys_step s (s\<lparr>tpc := T_TAKEN, lock := Some SYS\<rparr>)"
| t_begin: "tpc s = T_TAKEN \<Longrightarrow> lock s = Some SYS \<Longrightarrow> started s \<noteq> [] \<Longrightarrow> last (started s) \<noteq> BLOCKING_SPLICE \<Longrightarrow>
    sys_step s (if sstate s = SYSCALL_ENQUEUED then s\<lparr>sstate := SYSCALL_RUNNING, lock := None, tpc := T_SIGNAL\<rparr>
      else s\<lparr>tpc := T_BAD\<rparr>)"
| t_splice: "tpc s = T_TAKEN \<Longrightarrow> lock s = Some SYS \<Longrightarrow> started s \<noteq> [] \<Longrightarrow> last (started s) = BLOCKING_SPLICE \<Longrightarrow>
    sys_step s (s\<lparr>tpc := T_STUCK\<rparr>)"
| t_signal: "tpc s = T_SIGNAL \<Longrightarrow> sys_step s ((signal_dequeued s)\<lparr>tpc := T_CALL\<rparr>)"
| t_end: "tpc s = T_CALL \<Longrightarrow> lock s = None \<Longrightarrow>
    sys_step s (if sstate s = SYSCALL_RUNNING then s\<lparr>sstate := SYSCALL_DONE, lock := Some SYS, tpc := T_RETURNED\<rparr>
      else s\<lparr>lock := Some SYS, tpc := T_BAD\<rparr>)"
| t_idle: "tpc s = T_RETURNED \<Longrightarrow> lock s = Some SYS \<Longrightarrow>
    sys_step s (if sstate s = SYSCALL_DONE then (signal_idle s)\<lparr>sstate := SYSCALL_IDLE, tpc := T_LOOP\<rparr> else s\<lparr>tpc := T_BAD\<rparr>)"
| t_exit: "tpc s = T_LOOP \<Longrightarrow> lock s = Some SYS \<Longrightarrow> sstate s = SYSCALL_EXITING \<Longrightarrow>
    sys_step s (s\<lparr>tpc := T_EXITED, lock := None\<rparr>)"

inductive spurious_step :: "threads \<Rightarrow> threads \<Rightarrow> bool" where
  m_spurious: "mpc s \<in> {M_AWAIT, M_DEQ} \<Longrightarrow> spurious_step s (s\<lparr>m_woken := True\<rparr>)"
| t_spurious: "tpc s = T_WAIT \<Longrightarrow> spurious_step s (s\<lparr>t_woken := True\<rparr>)"

inductive threads_step :: "step_kind \<Rightarrow> threads \<Rightarrow> threads \<Rightarrow> bool" where
  "main_step s s' \<Longrightarrow> threads_step (STEP MAIN) s s'"
| "free_step s s' \<Longrightarrow> threads_step (STEP MAIN) s s'"
| "sys_step s s' \<Longrightarrow> threads_step (STEP SYS) s s'"
| "timeout_step s s' \<Longrightarrow> threads_step TIMEOUT s s'"
| "spurious_step s s' \<Longrightarrow> threads_step SPURIOUS s s'"

inductive reachable :: "script_call list \<Rightarrow> threads \<Rightarrow> bool" for calls where
  initial: "reachable calls (syscalls_new calls)"
| step: "reachable calls s \<Longrightarrow> threads_step k s s' \<Longrightarrow> reachable calls s'"

subsection \<open>The invariant\<close>

text \<open>Who holds the lock, where the threads are in each state, and which calls were started.\<close>

definition lock_inv :: "threads \<Rightarrow> bool" where
  "lock_inv s \<longleftrightarrow> (lock s = Some MAIN \<longleftrightarrow> mpc s \<in> {M_RUN, M_END, M_DEAD}) \<and>
     (lock s = Some SYS \<longleftrightarrow> tpc s \<in> {T_LOOP, T_TAKEN, T_RETURNED, T_STUCK, T_BAD})"

definition waits :: "threads \<Rightarrow> bool" where
  "waits s \<longleftrightarrow> tpc s \<in> {T_START, T_LOOP} \<or> tpc s = T_WAIT \<and> t_woken s"

fun state_inv :: "syscall_state_t \<Rightarrow> threads \<Rightarrow> bool" where
  "state_inv SYSCALL_IDLE s \<longleftrightarrow> tpc s \<in> {T_START, T_LOOP, T_WAIT} \<and> mpc s \<notin> {M_JOIN, M_END} \<and>
     (mpc s \<in> {M_AWAIT, M_DEQ} \<longrightarrow> m_woken s)"
| "state_inv SYSCALL_ENQUEUED s \<longleftrightarrow> mpc s = M_DEQ \<and> (waits s \<or> tpc s \<in> {T_TAKEN, T_SLEEP, T_STUCK})"
| "state_inv SYSCALL_RUNNING s \<longleftrightarrow> tpc s \<in> {T_SIGNAL, T_CALL} \<and> mpc s \<notin> {M_JOIN, M_END} \<and>
     (mpc s = M_DEQ \<and> tpc s = T_CALL \<longrightarrow> m_woken s)"
| "state_inv SYSCALL_DONE s \<longleftrightarrow> tpc s = T_RETURNED \<and> mpc s \<notin> {M_JOIN, M_END} \<and> (mpc s = M_DEQ \<longrightarrow> m_woken s)"
| "state_inv SYSCALL_EXITING s \<longleftrightarrow> todo s = [] \<and> (mpc s = M_JOIN \<and> (waits s \<or> tpc s = T_EXITED) \<or> mpc s = M_END \<and> tpc s = T_EXITED)"

text \<open>Whether the first call of \<open>todo\<close> was taken.\<close>

definition first_taken :: "threads \<Rightarrow> bool" where
  "first_taken s \<longleftrightarrow> mpc s = M_YIELD \<or> mpc s = M_DEQ \<and> (sstate s = SYSCALL_ENQUEUED \<longrightarrow> tpc s \<in> {T_TAKEN, T_SLEEP, T_STUCK})"

text \<open>The calls split into those the script is done with and \<open>todo\<close>.\<close>

definition calls_at :: "script_call list \<Rightarrow> script_call list \<Rightarrow> threads \<Rightarrow> bool" where
  "calls_at calls before s \<longleftrightarrow> calls = before @ todo s \<and>
     started s = filter (\<lambda>c. c \<noteq> NONBLOCKING) before @ (if first_taken s then take 1 (todo s) else []) \<and>
     (mpc s \<in> {M_DEQ, M_YIELD} \<longrightarrow> todo s \<noteq> [] \<and> hd (todo s) \<noteq> NONBLOCKING) \<and>
     (tpc s = T_STUCK \<longrightarrow> BLOCKING_SPLICE \<in> set (started s))"

definition calls_inv :: "script_call list \<Rightarrow> threads \<Rightarrow> bool" where
  "calls_inv calls s \<longleftrightarrow> (\<exists>before. calls_at calls before s)"

definition threads_inv :: "script_call list \<Rightarrow> threads \<Rightarrow> bool" where
  "threads_inv calls s \<longleftrightarrow> lock_inv s \<and> state_inv (sstate s) s \<and> calls_inv calls s"

lemmas threads_inv_simps = lock_inv_def waits_def first_taken_def signal_enqueued_def signal_dequeued_def
  signal_idle_def

lemma lock_inv_main: "main_step s s' \<Longrightarrow> lock_inv s \<Longrightarrow> lock_inv s'"
  by (induction rule: main_step.induct) (auto simp: threads_inv_simps)

lemma lock_inv_free: "free_step s s' \<Longrightarrow> lock_inv s \<Longrightarrow> lock_inv s'"
  by (induction rule: free_step.induct) (auto simp: threads_inv_simps)

lemma lock_inv_sys: "sys_step s s' \<Longrightarrow> lock_inv s \<Longrightarrow> lock_inv s'"
  by (induction rule: sys_step.induct) (auto simp: threads_inv_simps)

lemma lock_inv_timeout: "timeout_step s s' \<Longrightarrow> lock_inv s \<Longrightarrow> lock_inv s'"
  by (induction rule: timeout_step.induct) (auto simp: threads_inv_simps)

lemma lock_inv_spurious: "spurious_step s s' \<Longrightarrow> lock_inv s \<Longrightarrow> lock_inv s'"
  by (induction rule: spurious_step.induct) (auto simp: threads_inv_simps)

lemma state_inv_main: "main_step s s' \<Longrightarrow> lock_inv s \<Longrightarrow> state_inv (sstate s) s \<Longrightarrow> state_inv (sstate s') s'"
  by (cases "sstate s"; erule main_step.cases) (auto simp: threads_inv_simps split: if_splits)

lemma state_inv_free: "free_step s s' \<Longrightarrow> lock_inv s \<Longrightarrow> state_inv (sstate s) s \<Longrightarrow> state_inv (sstate s') s'"
  by (cases "sstate s"; erule free_step.cases) (auto simp: threads_inv_simps split: if_splits)

lemma state_inv_sys: "sys_step s s' \<Longrightarrow> lock_inv s \<Longrightarrow> state_inv (sstate s) s \<Longrightarrow> state_inv (sstate s') s'"
  by (cases "sstate s"; erule sys_step.cases) (auto simp: threads_inv_simps split: if_splits)

lemma state_inv_timeout: "timeout_step s s' \<Longrightarrow> lock_inv s \<Longrightarrow> state_inv (sstate s) s \<Longrightarrow> state_inv (sstate s') s'"
  by (cases "sstate s"; erule timeout_step.cases) (auto simp: threads_inv_simps split: if_splits)

lemma state_inv_spurious: "spurious_step s s' \<Longrightarrow> lock_inv s \<Longrightarrow> state_inv (sstate s) s \<Longrightarrow> state_inv (sstate s') s'"
  by (cases "sstate s"; erule spurious_step.cases) (auto simp: threads_inv_simps split: if_splits)

lemma calls_at_sys: "sys_step s s' \<Longrightarrow> state_inv (sstate s) s \<Longrightarrow> calls_at calls before s \<Longrightarrow> calls_at calls before s'"
  by (cases "sstate s"; erule sys_step.cases)
    (auto simp: threads_inv_simps calls_at_def neq_Nil_conv split: if_splits)

lemma calls_at_spurious: "spurious_step s s' \<Longrightarrow> calls_at calls before s \<Longrightarrow> calls_at calls before s'"
  by (erule spurious_step.cases) (auto simp: threads_inv_simps calls_at_def)

lemma calls_at_main:
  "main_step s s' \<Longrightarrow> state_inv (sstate s) s \<Longrightarrow> calls_at calls before s \<Longrightarrow>
    calls_at calls (before @ take (length (todo s) - length (todo s')) (todo s)) s'"
  by (cases "sstate s"; erule main_step.cases) (auto simp: threads_inv_simps calls_at_def split: if_splits)

lemma calls_at_free:
  "free_step s s' \<Longrightarrow> state_inv (sstate s) s \<Longrightarrow> calls_at calls before s \<Longrightarrow>
    calls_at calls (before @ take (length (todo s) - length (todo s')) (todo s)) s'"
  by (cases "sstate s"; erule free_step.cases) (auto simp: threads_inv_simps calls_at_def split: if_splits)

lemma calls_at_timeout:
  "timeout_step s s' \<Longrightarrow> calls_at calls before s \<Longrightarrow>
    calls_at calls (before @ take (length (todo s) - length (todo s')) (todo s)) s'"
  by (erule timeout_step.cases) (auto simp: threads_inv_simps calls_at_def)

inductive_cases threads_stepE: "threads_step k s s'"

lemma threads_inv_step:
  assumes step: "threads_step k s s'" and inv: "threads_inv calls s"
  shows "threads_inv calls s'"
proof -
  have inv': "lock_inv s" "state_inv (sstate s) s" and "\<exists>before. calls_at calls before s"
    using inv by (auto simp: threads_inv_def calls_inv_def)
  then obtain before where at: "calls_at calls before s" by blast
  have "lock_inv s'" "state_inv (sstate s') s'"
    using step inv' by (auto elim!: threads_stepE intro: lock_inv_main state_inv_main lock_inv_free state_inv_free lock_inv_sys state_inv_sys
      lock_inv_timeout state_inv_timeout lock_inv_spurious state_inv_spurious)
  moreover have "\<exists>before. calls_at calls before s'"
    using step inv' at by (auto elim!: threads_stepE dest: calls_at_main calls_at_free calls_at_sys calls_at_timeout calls_at_spurious)
  ultimately show ?thesis by (simp add: threads_inv_def calls_inv_def)
qed

lemma threads_inv_reachable: "reachable calls s \<Longrightarrow> threads_inv calls s"
proof (induction rule: reachable.induct)
  case initial
  then show ?case
    by (auto simp: threads_inv_def syscalls_new_def threads_inv_simps calls_inv_def calls_at_def)
next
  case (step s k s')
  then show ?case by (blast intro: threads_inv_step)
qed

subsection \<open>Progress\<close>

text \<open>What is left to do, as a number that the right steps make smaller: the calls of the script first, then the
  place of the main thread, then that of the other thread.\<close>

definition main_rank :: "threads \<Rightarrow> nat" where
  "main_rank s = (case mpc s of M_RUN \<Rightarrow> if sstate s = SYSCALL_IDLE then 30 else 32 | M_SLEEP \<Rightarrow> 33 | M_AWAIT \<Rightarrow> 31
     | M_DEQ \<Rightarrow> 5 | M_YIELD \<Rightarrow> 4 | M_JOIN \<Rightarrow> 2 | M_END \<Rightarrow> 0 | M_DEAD \<Rightarrow> 0)"

definition sys_rank :: "threads \<Rightarrow> nat" where
  "sys_rank s = (if sstate s = SYSCALL_IDLE then (case tpc s of T_START \<Rightarrow> 2 | T_LOOP \<Rightarrow> 1 | _ \<Rightarrow> 0)
     else (case tpc s of T_START \<Rightarrow> 9 | T_WAIT \<Rightarrow> 9 | T_LOOP \<Rightarrow> 8 | T_SLEEP \<Rightarrow> 8 | T_TAKEN \<Rightarrow> 7 | T_SIGNAL \<Rightarrow> 6 | T_CALL \<Rightarrow> 5
       | T_RETURNED \<Rightarrow> 4 | _ \<Rightarrow> 0))"

definition rank :: "threads \<Rightarrow> nat" where
  "rank s = 40 * length (todo s) + main_rank s + sys_rank s"

lemmas rank_simps = rank_def main_rank_def sys_rank_def signal_enqueued_def signal_dequeued_def signal_idle_def

definition own_step :: "threads \<Rightarrow> threads \<Rightarrow> bool" where
  "own_step s s' \<longleftrightarrow> (\<exists>w. threads_step (STEP w) s s')"

definition advances :: "threads \<Rightarrow> bool" where
  "advances s \<longleftrightarrow> (\<exists>s'. own_step s s' \<and> rank s' < rank s \<and> mpc s' \<noteq> M_DEAD)"

lemma advances_main: "main_step s s' \<Longrightarrow> rank s' < rank s \<Longrightarrow> mpc s' \<noteq> M_DEAD \<Longrightarrow> advances s"
  unfolding advances_def own_step_def by (blast intro: threads_step.intros)

lemma advances_free: "free_step s s' \<Longrightarrow> rank s' < rank s \<Longrightarrow> mpc s' \<noteq> M_DEAD \<Longrightarrow> advances s"
  unfolding advances_def own_step_def by (blast intro: threads_step.intros)

lemma advances_sys: "sys_step s s' \<Longrightarrow> rank s' < rank s \<Longrightarrow> mpc s' \<noteq> M_DEAD \<Longrightarrow> advances s"
  unfolding advances_def own_step_def by (blast intro: threads_step.intros)

lemma lock_free: "lock_inv s \<Longrightarrow> mpc s \<notin> {M_RUN, M_END, M_DEAD} \<Longrightarrow>
    tpc s \<notin> {T_LOOP, T_TAKEN, T_RETURNED, T_STUCK, T_BAD} \<Longrightarrow> lock s = None"
  unfolding lock_inv_def by (metis (full_types) not_Some_eq who.exhaust)

lemma advances_idle:
  assumes "lock_inv s" "state_inv SYSCALL_IDLE s" "calls_inv calls s" "sstate s = SYSCALL_IDLE" "mpc s \<noteq> M_DEAD"
  shows "advances s"
proof (cases "mpc s = M_RUN")
  case run: True
  then have locked: "lock s = Some MAIN" using assms(1) by (auto simp: lock_inv_def)
  show ?thesis
  proof (cases "todo s")
    case Nil
    then show ?thesis
      by (intro advances_free [OF m_exit]) (use run locked assms(2,4) in \<open>auto simp: rank_simps\<close>)
  next
    case (Cons c cs)
    show ?thesis
    proof (cases "c = NONBLOCKING")
      case True
      then show ?thesis
        using Cons run locked assms(4) by (intro advances_main [OF m_call]) (auto simp: rank_simps)
    next
      case False
      then show ?thesis
        by (intro advances_main [OF m_enqueue]) (use run locked assms(2,4) Cons in \<open>auto simp: rank_simps\<close>)
    qed
  qed
next
  case False
  show ?thesis
  proof (cases "tpc s = T_LOOP")
    case True
    then show ?thesis
      using assms by (intro advances_sys [OF t_wait]) (auto simp: lock_inv_def rank_simps)
  next
    case notloop: False
    then have free: "lock s = None"
      using assms(2,4,5) False by (intro lock_free [OF assms(1)]) auto
    have rest: "todo s \<noteq> []" if "mpc s = M_YIELD"
      using assms(3) that by (auto simp: calls_inv_def calls_at_def)
    consider "mpc s = M_SLEEP" | "mpc s = M_AWAIT" | "mpc s = M_DEQ" | "mpc s = M_YIELD"
      using False assms(2,5) by (cases "mpc s") auto
    then show ?thesis
    proof cases
      case 1
      then show ?thesis using free assms(4) by (intro advances_main [OF m_wake]) (auto simp: rank_simps)
    next
      case 2
      then show ?thesis using free assms(2,4) by (intro advances_main [OF m_await_woken]) (auto simp: rank_simps)
    next
      case 3
      then show ?thesis using free assms(2,4) by (intro advances_main [OF m_dequeued]) (auto simp: rank_simps)
    next
      case 4
      then obtain c cs where "todo s = c # cs" using rest by (cases "todo s") auto
      then show ?thesis using 4 free assms(4) by (intro advances_main [OF m_yielded]) (auto simp: rank_simps)
    qed
  qed
qed

lemma advances_enqueued:
  assumes "lock_inv s" "state_inv SYSCALL_ENQUEUED s" "calls_inv calls s" "sstate s = SYSCALL_ENQUEUED"
    "BLOCKING_SPLICE \<notin> set calls"
  shows "advances s"
proof -
  have deq: "mpc s = M_DEQ" using assms(2) by simp
  obtain before where at: "calls_at calls before s" using assms(3) by (auto simp: calls_inv_def)
  have taken: "started s \<noteq> [] \<and> last (started s) \<noteq> BLOCKING_SPLICE" if "tpc s = T_TAKEN"
    using at that deq assms(4,5) by (cases "todo s") (auto simp: calls_at_def first_taken_def)
  have "tpc s \<noteq> T_STUCK"
    using at deq assms(4,5) by (auto simp: calls_at_def first_taken_def dest: in_set_takeD split: if_splits)
  then consider "tpc s = T_START" | "tpc s = T_LOOP" | "tpc s = T_WAIT" "t_woken s" | "tpc s = T_TAKEN" | "tpc s = T_SLEEP"
    using assms(2) by (auto simp: waits_def)
  then show ?thesis
  proof cases
    case 1
    then have "lock s = None" using deq by (intro lock_free [OF assms(1)]) auto
    then show ?thesis using 1 assms(4) deq by (intro advances_sys [OF t_start]) (auto simp: rank_simps)
  next
    case 2
    then show ?thesis using assms(1,4) deq by (intro advances_sys [OF t_take]) (auto simp: lock_inv_def rank_simps)
  next
    case 3
    then have "lock s = None" using deq by (intro lock_free [OF assms(1)]) auto
    then show ?thesis using 3 assms(4) deq by (intro advances_sys [OF sys_step.t_woken]) (auto simp: rank_simps)
  next
    case 4
    then show ?thesis
      using assms(1,4) deq taken by (intro advances_sys [OF t_begin]) (auto simp: lock_inv_def rank_simps)
  next
    case 5
    then have "lock s = None" using deq by (intro lock_free [OF assms(1)]) auto
    then show ?thesis using 5 assms(4) deq by (intro advances_sys [OF t_wake]) (auto simp: rank_simps)
  qed
qed

lemma advances_running:
  assumes "lock_inv s" "state_inv SYSCALL_RUNNING s" "sstate s = SYSCALL_RUNNING" "mpc s \<noteq> M_DEAD"
  shows "advances s"
proof (cases "tpc s = T_SIGNAL")
  case True
  then show ?thesis using assms(3,4) by (intro advances_sys [OF t_signal]) (auto simp: rank_simps)
next
  case False
  then have call: "tpc s = T_CALL" using assms(2) by auto
  show ?thesis
  proof (cases "mpc s = M_RUN")
    case True
    then show ?thesis
      using assms(1,3) call by (intro advances_main [OF m_await]) (auto simp: lock_inv_def rank_simps)
  next
    case False
    then have "lock s = None" using assms(2,4) call by (intro lock_free [OF assms(1)]) auto
    then show ?thesis
      using call assms(3,4) False by (intro advances_sys [OF t_end]) (auto simp: rank_simps split: main_pc.splits)
  qed
qed

lemma advances_done:
  assumes "lock_inv s" "state_inv SYSCALL_DONE s" "sstate s = SYSCALL_DONE" "mpc s \<noteq> M_DEAD"
  shows "advances s"
  using assms by (intro advances_sys [OF t_idle]) (auto simp: lock_inv_def rank_simps split: main_pc.splits)

lemma advances_exiting:
  assumes "lock_inv s" "state_inv SYSCALL_EXITING s" "sstate s = SYSCALL_EXITING" "mpc s \<noteq> M_END"
  shows "advances s"
proof -
  have join: "mpc s = M_JOIN" using assms(2,4) by auto
  consider "tpc s = T_START" | "tpc s = T_LOOP" | "tpc s = T_WAIT" "t_woken s" | "tpc s = T_EXITED"
    using assms(2,4) by (auto simp: waits_def)
  then show ?thesis
  proof cases
    case 1
    then have "lock s = None" using join by (intro lock_free [OF assms(1)]) auto
    then show ?thesis using 1 assms(3) join by (intro advances_sys [OF t_start]) (auto simp: rank_simps)
  next
    case 2
    then show ?thesis using assms(1,3) join by (intro advances_sys [OF t_exit]) (auto simp: lock_inv_def rank_simps)
  next
    case 3
    then have "lock s = None" using join by (intro lock_free [OF assms(1)]) auto
    then show ?thesis using 3 assms(3) join by (intro advances_sys [OF sys_step.t_woken]) (auto simp: rank_simps)
  next
    case 4
    then have "lock s = None" using join by (intro lock_free [OF assms(1)]) auto
    then show ?thesis using 4 assms(3) join by (intro advances_free [OF m_joined]) (auto simp: rank_simps)
  qed
qed

lemma threads_advance:
  assumes "threads_inv calls s" "BLOCKING_SPLICE \<notin> set calls" "mpc s \<notin> {M_END, M_DEAD}"
  shows "advances s"
proof (cases "sstate s")
  case SYSCALL_IDLE
  then show ?thesis using assms advances_idle [of s calls] by (simp add: threads_inv_def)
next
  case SYSCALL_ENQUEUED
  then show ?thesis using assms advances_enqueued [of s calls] by (simp add: threads_inv_def)
next
  case SYSCALL_RUNNING
  then show ?thesis using assms advances_running [of s] by (simp add: threads_inv_def)
next
  case SYSCALL_DONE
  then show ?thesis using assms advances_done [of s] by (simp add: threads_inv_def)
next
  case SYSCALL_EXITING
  then show ?thesis using assms advances_exiting [of s] by (simp add: threads_inv_def)
qed

lemma own_steps_to_end:
  assumes "threads_inv calls s" "BLOCKING_SPLICE \<notin> set calls" "mpc s \<noteq> M_DEAD"
  shows "\<exists>s'. own_step\<^sup>*\<^sup>* s s' \<and> threads_inv calls s' \<and> mpc s' = M_END"
  using assms
proof (induction "rank s" arbitrary: s rule: less_induct)
  case less
  show ?case
  proof (cases "mpc s = M_END")
    case True
    then show ?thesis using less.prems by blast
  next
    case False
    then obtain s1 where s1: "own_step s s1" "rank s1 < rank s" "mpc s1 \<noteq> M_DEAD"
      using threads_advance [of calls s] less.prems by (auto simp: advances_def)
    moreover have "threads_inv calls s1"
      using s1(1) less.prems(1) threads_inv_step by (auto simp: own_step_def)
    ultimately show ?thesis
      using less.hyps [of s1] less.prems(2) converse_rtranclp_into_rtranclp [of own_step] by blast
  qed
qed

lemma ended_calls:
  assumes "threads_inv calls s" "mpc s = M_END"
  shows "started s = filter (\<lambda>c. c \<noteq> NONBLOCKING) calls"
proof -
  have "sstate s = SYSCALL_EXITING"
    using assms by (cases "sstate s") (auto simp: threads_inv_def)
  then show ?thesis
    using assms by (auto simp: threads_inv_def calls_inv_def calls_at_def first_taken_def)
qed

text \<open>C31: In every reachable state of the two threads no assertion of the system call thread has failed (it never sees
  a running or finished call at the switch, and begins and ends a call only in the states it expects), the lock
  is with the thread whose place in the code holds it, a call runs only while the system call thread is in it,
  and the calls that thread took are the blocking calls of the script in their order. This holds for every
  interleaving, for wake-ups without a signal and for waits that time out.\<close>
theorem threads_safe:
  assumes "reachable calls s"
  shows "tpc s \<noteq> T_BAD \<and>
    (lock s = Some MAIN \<longleftrightarrow> mpc s \<in> {M_RUN, M_END, M_DEAD}) \<and>
    (lock s = Some SYS \<longleftrightarrow> tpc s \<in> {T_LOOP, T_TAKEN, T_RETURNED, T_STUCK}) \<and>
    (sstate s = SYSCALL_RUNNING \<longleftrightarrow> tpc s \<in> {T_SIGNAL, T_CALL}) \<and>
    (\<exists>rest. filter (\<lambda>c. c \<noteq> NONBLOCKING) calls = started s @ rest)"
proof -
  have inv: "lock_inv s" "state_inv (sstate s) s" "calls_inv calls s"
    using threads_inv_reachable [OF assms] by (auto simp: threads_inv_def)
  have bad: "tpc s \<noteq> T_BAD" using inv(2) by (cases "sstate s") (auto simp: waits_def)
  obtain before where at: "calls_at calls before s" using inv(3) by (auto simp: calls_inv_def)
  have "\<exists>rest. filter (\<lambda>c. c \<noteq> NONBLOCKING) calls = started s @ rest"
    using at by (cases "todo s") (auto simp: calls_at_def first_taken_def)
  moreover have "sstate s = SYSCALL_RUNNING \<longleftrightarrow> tpc s \<in> {T_SIGNAL, T_CALL}"
    using inv(2) by (cases "sstate s") (auto simp: waits_def)
  ultimately show ?thesis using inv(1) bad by (auto simp: lock_inv_def)
qed

theorem threads_safe_witness:
  "\<exists>s. reachable [BLOCKING] s \<and> mpc s = M_DEQ \<and> tpc s \<noteq> T_BAD"
proof -
  let ?s = "(syscalls_new [BLOCKING])\<lparr>sstate := SYSCALL_ENQUEUED, mpc := M_DEQ, lock := None\<rparr>"
  have "main_step (syscalls_new [BLOCKING]) ((signal_enqueued (syscalls_new [BLOCKING]))
      \<lparr>sstate := SYSCALL_ENQUEUED, mpc := M_DEQ, lock := None, m_woken := False\<rparr>)"
    by (rule m_enqueue [of _ BLOCKING "[]"]) (simp_all add: syscalls_new_def)
  then have "reachable [BLOCKING] ?s"
    using reachable.intros threads_step.intros(1) by (fastforce simp: signal_enqueued_def syscalls_new_def)
  then show ?thesis using threads_safe [of "[BLOCKING]" ?s] by auto
qed

text \<open>C32: A script whose blocking calls all begin their call can always be finished: from every reachable state in which
  the main thread has not died of an error, steps of the two threads alone, without a time-out and without a
  wake-up that nobody signalled, lead to the end, where every blocking call was made, in the order of the
  script. So no signal is lost and the threads never block each other.\<close>
theorem threads_can_finish:
  assumes "reachable calls s" "BLOCKING_SPLICE \<notin> set calls" "mpc s \<noteq> M_DEAD"
  shows "\<exists>s'. own_step\<^sup>*\<^sup>* s s' \<and> mpc s' = M_END \<and> tpc s' = T_EXITED \<and> started s' = filter (\<lambda>c. c \<noteq> NONBLOCKING) calls"
proof -
  obtain s' where s': "own_step\<^sup>*\<^sup>* s s'" "threads_inv calls s'" "mpc s' = M_END"
    using own_steps_to_end [OF threads_inv_reachable [OF assms(1)] assms(2,3)] by blast
  moreover have "tpc s' = T_EXITED"
    using s'(2,3) by (cases "sstate s'") (auto simp: threads_inv_def)
  ultimately show ?thesis using ended_calls by blast
qed

theorem threads_can_finish_witness:
  "\<exists>s'. own_step\<^sup>*\<^sup>* (syscalls_new [NONBLOCKING, BLOCKING]) s' \<and> mpc s' = M_END \<and> started s' = [BLOCKING]"
  using threads_can_finish [OF reachable.initial [of "[NONBLOCKING, BLOCKING]"]] by (auto simp: syscalls_new_def)

text \<open>C33: Once the system call thread has taken a call of the kind of \<^verbatim>\<open>splice\<close>, whose handler does not begin the call,
  and has come to the end of it, the two threads are stuck for good: neither has a step, and wake-ups change
  nothing about that.\<close>
theorem threads_stuck:
  assumes "reachable calls s" "tpc s = T_STUCK"
  shows "mpc s = M_DEQ \<and> (\<nexists>s'. own_step s s') \<and> (\<nexists>k s'. threads_step k s s' \<and> tpc s' \<noteq> T_STUCK)"
proof -
  have "lock_inv s" "state_inv (sstate s) s"
    using threads_inv_reachable [OF assms(1)] by (auto simp: threads_inv_def)
  then have "mpc s = M_DEQ" "lock s = Some SYS"
    using assms(2) by (cases "sstate s"; auto simp: lock_inv_def waits_def)+
  then show ?thesis
    using assms(2)
    by (auto simp: own_step_def elim!: threads_stepE main_step.cases free_step.cases sys_step.cases timeout_step.cases spurious_step.cases)
qed

theorem threads_stuck_witness:
  "\<exists>s. reachable [BLOCKING_SPLICE] s \<and> tpc s = T_STUCK \<and> (\<nexists>s'. own_step s s')"
proof -
  define s0 where "s0 = syscalls_new [BLOCKING_SPLICE]"
  define s1 where "s1 = (signal_enqueued s0)\<lparr>sstate := SYSCALL_ENQUEUED, mpc := M_DEQ, lock := None, m_woken := False\<rparr>"
  define s2 where "s2 = s1\<lparr>tpc := T_LOOP, lock := Some SYS\<rparr>"
  define s3 where "s3 = s2\<lparr>tpc := T_TAKEN, started := started s2 @ take 1 (todo s2)\<rparr>"
  define s4 where "s4 = s3\<lparr>tpc := T_STUCK\<rparr>"
  note defs = s0_def s1_def s2_def s3_def s4_def syscalls_new_def signal_enqueued_def
  have "main_step s0 s1"
    unfolding s1_def by (rule m_enqueue [of _ BLOCKING_SPLICE "[]"]) (simp_all add: defs)
  moreover have "sys_step s1 s2" unfolding s2_def by (rule t_start) (simp_all add: defs)
  moreover have "sys_step s2 s3" unfolding s3_def by (rule t_take) (simp_all add: defs)
  moreover have "sys_step s3 s4" unfolding s4_def by (rule t_splice) (simp_all add: defs)
  ultimately have "reachable [BLOCKING_SPLICE] s4"
    unfolding s0_def by (meson reachable.intros threads_step.intros)
  moreover have "tpc s4 = T_STUCK" by (simp add: s4_def)
  ultimately show ?thesis using threads_stuck by blast
qed

end
