(* ===== verification/Syscall.thy ===== *)
theory Syscall
  imports FdTable
begin

section \<open>System calls\<close>

text \<open>
  The model of the second half of \<^verbatim>\<open>run_system_call.c\<close>: the start and the end of a call with the check of
  its result, the handlers of all the calls of the dispatch table, and the evaluation and invocation of a
  call. A blocking call gives up the lock while it runs; what the main thread does meanwhile is not part of
  these definitions (the protocol of the two threads is modelled in its own theory). A handler that returns
  an error ends the process, so the state is kept only on success. An allocation fails for a negative size
  only.
\<close>

unbundle bit_operations_syntax

subsection \<open>Start and end of a call\<close>

definition do_call :: "system \<Rightarrow> sys_call \<Rightarrow> interp \<Rightarrow> sys_answer \<times> interp" where
  "do_call sys call s = (sy_answer sys (length (in_calls s)) call, s\<lparr>in_calls := in_calls s @ [call]\<rparr>)"

definition begin_syscall :: "syscall_spec \<Rightarrow> interp \<Rightarrow> interp run" where
  "begin_syscall syscall s =
     (if is_blocking_syscall syscall
      then check (in_syscalls s = SYSCALL_ENQUEUED) (Done (s\<lparr>in_syscalls := SYSCALL_RUNNING\<rparr>))
      else Done s)"

datatype result_check_t = CHECK_EXACT | CHECK_FD

text \<open>The state of the thread after a blocking call. Taking the lock while it is held, which happens when the
  call was not begun, never returns and is \<open>Die\<close>, as is the assertion behind it.\<close>

definition finish_blocking :: "system \<Rightarrow> syscall_spec \<Rightarrow> interp \<Rightarrow> interp run" where
  "finish_blocking sys syscall s =
     (if is_blocking_syscall syscall
      then (let (live_end_usecs, st) = now_usecs (sy_world sys) (in_state s) in
        check (in_syscalls s = SYSCALL_RUNNING)
          (Done (s\<lparr>in_state := st, in_live_end_usecs := live_end_usecs, in_syscalls := SYSCALL_DONE\<rparr>)))
      else Done s)"

definition print_syscall :: "system \<Rightarrow> interp \<Rightarrow> interp" where
  "print_syscall sys s =
     (if verbose (st_config (in_state s)) then s\<lparr>in_state := snd (now_usecs (sy_world sys) (in_state s))\<rparr> else s)"

text \<open>The comparison of the result with the script, and that of \<^verbatim>\<open>errno\<close>.\<close>

definition check_result :: "system \<Rightarrow> syscall_spec \<Rightarrow> result_check_t \<Rightarrow> int \<Rightarrow> int \<Rightarrow> unit evaluated" where
  "check_result sys syscall mode actual actual_errno =
     (let with_errno = '' with errno '' @ dec_int actual_errno @ '' ('' @ sy_strerror sys actual_errno @ '')'' in
      eval_then (get_s32 (sys_result syscall)) (\<lambda>expected.
      if mode = CHECK_FD \<and> 0 \<le> expected
      then (if actual < 0 then eval_error (''Expected non-negative result but got '' @ dec_int actual @ with_errno)
            else Done (Inr ()))
      else (if actual \<noteq> expected
            then eval_error (''Expected result '' @ dec_int expected @ '' but got '' @ dec_int actual @ with_errno)
            else Done (Inr ()))))"

definition check_errno :: "system \<Rightarrow> syscall_spec \<Rightarrow> int \<Rightarrow> unit evaluated" where
  "check_errno sys syscall actual_errno =
     (case sys_errno_macro syscall of
        None \<Rightarrow> Done (Inr ())
      | Some macro \<Rightarrow> (case symbol_to_int (sy_symbols sys) macro of
          Inl e \<Rightarrow> eval_error e
        | Inr expected_errno \<Rightarrow>
            if actual_errno \<noteq> expected_errno
            then eval_error (''Expected errno '' @ dec_int (s32 expected_errno) @ '' ('' @ sy_strerror sys expected_errno @
              '') but got '' @ dec_int actual_errno @ '' ('' @ sy_strerror sys actual_errno @ '')'')
            else Done (Inr ())))"

definition end_syscall :: "system \<Rightarrow> syscall_spec \<Rightarrow> result_check_t \<Rightarrow> sys_answer \<Rightarrow> interp \<Rightarrow> interp evaluated" where
  "end_syscall sys syscall mode ans s =
     rbind (finish_blocking sys syscall s) (\<lambda>s.
     let s = print_syscall sys s in
     eval_then (check_result sys syscall mode (ans_result ans) (ans_errno ans)) (\<lambda>_.
     eval_then (check_errno sys syscall (ans_errno ans)) (\<lambda>_. Done (Inr s))))"

text \<open>What all the handlers do but one.\<close>

definition make_call ::
  "system \<Rightarrow> syscall_spec \<Rightarrow> result_check_t \<Rightarrow> sys_call \<Rightarrow> interp \<Rightarrow> (sys_answer \<times> interp) evaluated" where
  "make_call sys syscall mode call s =
     rbind (begin_syscall syscall s) (\<lambda>s.
     case do_call sys call s of (ans, s) \<Rightarrow>
     eval_then (end_syscall sys syscall mode ans s) (\<lambda>s. Done (Inr (ans, s))))"

text \<open>A call whose answer the handler does not look at.\<close>

definition plain_call :: "system \<Rightarrow> syscall_spec \<Rightarrow> sys_call \<Rightarrow> interp \<Rightarrow> interp evaluated" where
  "plain_call sys syscall call s = eval_then (make_call sys syscall CHECK_EXACT call s) (\<lambda>(ans, s). Done (Inr s))"

text \<open>A call that returns a new descriptor.\<close>

definition fd_call ::
  "system \<Rightarrow> syscall_spec \<Rightarrow> sys_call \<Rightarrow> (int \<Rightarrow> sys_answer \<Rightarrow> interp \<Rightarrow> interp evaluated) \<Rightarrow> interp \<Rightarrow> interp evaluated" where
  "fd_call sys syscall call track s =
     eval_then (make_call sys syscall CHECK_FD call s) (\<lambda>(ans, s).
     if 0 \<le> ans_result ans
     then eval_then (get_s32 (sys_result syscall)) (\<lambda>script. track script ans s)
     else Done (Inr s))"

subsection \<open>Descriptors and addresses in arguments\<close>

definition fd_arg :: "interp \<Rightarrow> expression list \<Rightarrow> nat \<Rightarrow> (int \<times> int) evaluated" where
  "fd_arg s args index = eval_then (s32_arg args index) (\<lambda>script.
     eval_then (to_live_fd s script) (\<lambda>live. Done (Inr (script, live))))"

text \<open>An ellipsis or a number; the message of the first attempt is lost.\<close>

definition sa_family_arg :: "expression list \<Rightarrow> nat \<Rightarrow> int evaluated" where
  "sa_family_arg args index = rbind (ellipsis_arg args index) (\<lambda>r.
     case r of Inr _ \<Rightarrow> Done (Inr (-1)) | Inl _ \<Rightarrow> s32_arg args index)"

text \<open>A zeroed buffer of the given size.\<close>

definition zero_buffer :: "bool \<Rightarrow> int \<Rightarrow> bytes option" where
  "zero_buffer is_null n = (if is_null then None else Some (replicate (nat n) 0))"

subsection \<open>Sockets\<close>

type_synonym handler = "system \<Rightarrow> syscall_spec \<Rightarrow> expression list \<Rightarrow> interp \<Rightarrow> interp evaluated"

definition syscall_socket :: handler where
  "syscall_socket sys syscall args s =
     eval_then (check_arg_count args 3) (\<lambda>_.
     eval_then (ellipsis_arg args 0) (\<lambda>_.
     eval_then (s32_arg args 1) (\<lambda>ty.
     eval_then (s32_arg args 2) (\<lambda>protocol.
     let domain = socket_domain (st_config (in_state s)) in
     fd_call sys syscall (SYS_SOCKET domain ty protocol)
       (\<lambda>script ans. run_syscall_socket domain ty protocol script (ans_result ans)) s))))"

definition syscall_bind :: handler where
  "syscall_bind sys syscall args s =
     eval_then (check_arg_count args 3) (\<lambda>_.
     eval_then (fd_arg s args 0) (\<lambda>(script, live).
     eval_then (ellipsis_arg args 1) (\<lambda>_.
     eval_then (ellipsis_arg args 2) (\<lambda>_.
     eval_then (run_syscall_bind s) (\<lambda>live_addr.
     plain_call sys syscall (SYS_BIND live live_addr) s)))))"

definition syscall_listen :: handler where
  "syscall_listen sys syscall args s =
     eval_then (check_arg_count args 2) (\<lambda>_.
     eval_then (fd_arg s args 0) (\<lambda>(script, live).
     eval_then (s32_arg args 1) (\<lambda>backlog.
     eval_then (plain_call sys syscall (SYS_LISTEN live backlog) s) (run_syscall_listen script live))))"

definition syscall_accept :: handler where
  "syscall_accept sys syscall args s =
     eval_then (check_arg_count args 3) (\<lambda>_.
     eval_then (fd_arg s args 0) (\<lambda>(script, live).
     eval_then (ellipsis_arg args 1) (\<lambda>_.
     eval_then (ellipsis_arg args 2) (\<lambda>_.
     fd_call sys syscall (SYS_ACCEPT live)
       (\<lambda>script_accepted ans. run_syscall_accept script_accepted (ans_result ans) (ans_addr ans) (ans_addrlen ans)) s))))"

definition syscall_connect :: handler where
  "syscall_connect sys syscall args s =
     eval_then (check_arg_count args 3) (\<lambda>_.
     eval_then (fd_arg s args 0) (\<lambda>(script, live).
     eval_then (sa_family_arg args 1) (\<lambda>family.
     eval_then (ellipsis_arg args 2) (\<lambda>_.
     eval_then (run_syscall_connect script False family SOCKADDR_STORAGE s) (\<lambda>((live_addr, addrlen), s).
     plain_call sys syscall (SYS_CONNECT live live_addr addrlen) s)))))"

subsection \<open>Receiving\<close>

definition syscall_read :: handler where
  "syscall_read sys syscall args s =
     eval_then (check_arg_count args 3) (\<lambda>_.
     eval_then (fd_arg s args 0) (\<lambda>(script, live).
     eval_then (buffer_arg args 1) (\<lambda>is_null.
     eval_then (s32_arg args 2) (\<lambda>n.
     rbind (alloc_buffer is_null n) (\<lambda>_.
     plain_call sys syscall (SYS_READ live is_null n) s)))))"

text \<open>The vector of \<^verbatim>\<open>readv\<close> and \<^verbatim>\<open>writev\<close>, and its count.\<close>

definition iovec_args :: "expression list \<Rightarrow> (nat list \<times> int) evaluated" where
  "iovec_args args =
     need_arg args 1 (\<lambda>iov_expression.
     eval_then (iovec_new iov_expression) (\<lambda>iov.
     eval_then (s32_arg args 2) (\<lambda>iov_count.
     if iov_count \<noteq> int (length iov)
     then eval_error (''iov_count '' @ dec_int iov_count @ '' does not match '' @ dec (length iov) @ ''-element iovec array'')
     else Done (Inr (iov, iov_count)))))"

definition syscall_readv :: handler where
  "syscall_readv sys syscall args s =
     eval_then (check_arg_count args 3) (\<lambda>_.
     eval_then (fd_arg s args 0) (\<lambda>(script, live).
     eval_then (iovec_args args) (\<lambda>(iov, iov_count).
     plain_call sys syscall (SYS_READV live iov iov_count) s)))"

definition syscall_recv :: handler where
  "syscall_recv sys syscall args s =
     eval_then (check_arg_count args 4) (\<lambda>_.
     eval_then (fd_arg s args 0) (\<lambda>(script, live).
     eval_then (buffer_arg args 1) (\<lambda>is_null.
     eval_then (s32_arg args 2) (\<lambda>n.
     eval_then (s32_arg args 3) (\<lambda>flags.
     rbind (alloc_buffer is_null n) (\<lambda>_.
     plain_call sys syscall (SYS_RECV live is_null n flags) s))))))"

definition syscall_recvfrom :: handler where
  "syscall_recvfrom sys syscall args s =
     eval_then (check_arg_count args 6) (\<lambda>_.
     eval_then (fd_arg s args 0) (\<lambda>(script, live).
     eval_then (buffer_arg args 1) (\<lambda>is_null.
     eval_then (s32_arg args 2) (\<lambda>n.
     eval_then (s32_arg args 3) (\<lambda>flags.
     eval_then (ellipsis_arg args 4) (\<lambda>_.
     eval_then (ellipsis_arg args 5) (\<lambda>_.
     rbind (alloc_buffer is_null n) (\<lambda>_.
     plain_call sys syscall (SYS_RECVFROM live is_null n flags) s))))))))"

text \<open>\<^verbatim>\<open>%08X\<close>.\<close>

definition upper_char :: "char \<Rightarrow> char" where
  "upper_char c = (if 97 \<le> (of_char c :: nat) \<and> (of_char c :: nat) \<le> 122 then char_of (of_char c - 32 :: nat) else c)"

definition hex8 :: "nat \<Rightarrow> string" where
  "hex8 n = replicate (8 - length (hex n)) (CHR ''0'') @ map upper_char (hex n)"

text \<open>The checks of a received message: its flags and its control messages, which overwrite the expected ones
  in the buffer.\<close>

definition check_message :: "state \<Rightarrow> msghdr \<Rightarrow> msghdr \<Rightarrow> sys_answer \<Rightarrow> unit evaluated" where
  "check_message st expected_msg msg ans =
     (let control = (\<lambda>m. case msg_control m of None \<Rightarrow> [] | Some buf \<Rightarrow> buf) in
      if ans_flags ans \<noteq> msg_flags expected_msg
      then eval_error (''Expected msg_flags 0x'' @ hex8 (u32_of (msg_flags expected_msg)) @ '' but got 0x'' @ hex8 (u32_of (ans_flags ans)))
      else rbind (store (control msg) 0 (ans_control ans)) (\<lambda>abuf.
        cmsg_expect_eq st (control expected_msg) (msg_controllen expected_msg) abuf (length (ans_control ans))))"

definition syscall_recvmsg :: handler where
  "syscall_recvmsg sys syscall args s =
     eval_then (check_arg_count args 3) (\<lambda>_.
     eval_then (fd_arg s args 0) (\<lambda>(script, live).
     need_arg args 1 (\<lambda>msg_expression.
     eval_then (msghdr_new msg_expression 0) (\<lambda>(msg, iov_len).
     eval_then (msghdr_new msg_expression iov_len) (\<lambda>(expected_msg, iov_len).
     eval_then (s32_arg args 2) (\<lambda>flags.
     eval_then (make_call sys syscall CHECK_EXACT (SYS_RECVMSG live msg flags) s) (\<lambda>(ans, s).
     eval_then (check_message (in_state s) expected_msg msg ans) (\<lambda>_. Done (Inr s)))))))))"

subsection \<open>Sending\<close>

definition syscall_write :: handler where
  "syscall_write sys syscall args s =
     eval_then (check_arg_count args 3) (\<lambda>_.
     eval_then (fd_arg s args 0) (\<lambda>(script, live).
     eval_then (buffer_arg args 1) (\<lambda>is_null.
     eval_then (s32_arg args 2) (\<lambda>n.
     rbind (alloc_buffer is_null n) (\<lambda>_.
     plain_call sys syscall (SYS_WRITE live (zero_buffer is_null n) n) s)))))"

definition syscall_writev :: handler where
  "syscall_writev sys syscall args s =
     eval_then (check_arg_count args 3) (\<lambda>_.
     eval_then (fd_arg s args 0) (\<lambda>(script, live).
     eval_then (iovec_args args) (\<lambda>(iov, iov_count).
     plain_call sys syscall (SYS_WRITEV live iov iov_count) s)))"

definition syscall_send :: handler where
  "syscall_send sys syscall args s =
     eval_then (check_arg_count args 4) (\<lambda>_.
     eval_then (fd_arg s args 0) (\<lambda>(script, live).
     eval_then (buffer_arg args 1) (\<lambda>is_null.
     eval_then (s32_arg args 2) (\<lambda>n.
     eval_then (s32_arg args 3) (\<lambda>flags.
     rbind (alloc_buffer is_null n) (\<lambda>_.
     plain_call sys syscall (SYS_SEND live (zero_buffer is_null n) n flags) s))))))"

text \<open>The type of an echo request in the first byte, when there is room for an ICMP header. The comparison is
  unsigned, so a negative size is large; a null buffer is written to as well.\<close>

definition icmp_buffer :: "address_family \<Rightarrow> bool \<Rightarrow> int \<Rightarrow> bytes option run" where
  "icmp_buffer family is_null n =
     (let buf = zero_buffer is_null n;
          put = (\<lambda>ty. case buf of None \<Rightarrow> Oob | Some b \<Rightarrow> rbind (store b 0 [ty]) (\<lambda>b. Done (Some b)));
          large = (n < 0 \<or> 8 \<le> n)
      in if family = AF_INET \<and> large then put 8
         else if family = AF_INET6 \<and> large then put 128
         else Done buf)"

definition syscall_icmp_sendto :: handler where
  "syscall_icmp_sendto sys syscall args s =
     eval_then (check_arg_count args 6) (\<lambda>_.
     eval_then (fd_arg s args 0) (\<lambda>(script, live).
     eval_then (buffer_arg args 1) (\<lambda>is_null.
     eval_then (s32_arg args 2) (\<lambda>n.
     eval_then (s32_arg args 3) (\<lambda>flags.
     eval_then (ellipsis_arg args 4) (\<lambda>_.
     eval_then (ellipsis_arg args 5) (\<lambda>_.
     eval_then (run_syscall_connect script False (-1) SOCKADDR_STORAGE s) (\<lambda>((live_addr, addrlen), s).
     rbind (alloc_buffer is_null n) (\<lambda>_.
     rbind (icmp_buffer (wire_protocol (st_config (in_state s))) is_null n) (\<lambda>buf.
     plain_call sys syscall (SYS_SENDTO live buf n flags live_addr addrlen) s))))))))))"

text \<open>A datagram socket of a ping.\<close>

definition SOCK_DGRAM :: int where "SOCK_DGRAM = 2"

definition is_icmp_socket :: "interp \<Rightarrow> (nat \<times> int) option \<Rightarrow> bool" where
  "is_icmp_socket s k = (case k of None \<Rightarrow> False
     | Some (i, ty) \<Rightarrow> (let socket = st_sockets (in_state s) ! i in
         ty = SOCK_DGRAM \<and>
         (sk_address_family socket = AF_INET \<and> sk_protocol socket = IPPROTO_ICMP \<or>
          sk_address_family socket = AF_INET6 \<and> sk_protocol socket = IPPROTO_ICMPV6)))"

definition syscall_sendto :: handler where
  "syscall_sendto sys syscall args s =
     eval_then (check_arg_count args 6) (\<lambda>_.
     eval_then (fd_arg s args 0) (\<lambda>(script, live).
     eval_then (buffer_arg args 1) (\<lambda>is_null.
     eval_then (s32_arg args 2) (\<lambda>n.
     eval_then (s32_arg args 3) (\<lambda>flags.
     eval_then (sa_family_arg args 4) (\<lambda>family.
     eval_then (ellipsis_arg args 5) (\<lambda>_.
     rbind (script_socket s script) (\<lambda>k.
     if is_icmp_socket s k then syscall_icmp_sendto sys syscall args s
     else
     eval_then (run_syscall_connect script False family SOCKADDR_STORAGE s) (\<lambda>((live_addr, addrlen), s).
     rbind (alloc_buffer is_null n) (\<lambda>_.
     plain_call sys syscall (SYS_SENDTO live (zero_buffer is_null n) n flags live_addr addrlen) s))))))))))"

text \<open>The address of a message is filled in when it has space for one.\<close>

definition connect_message :: "int \<Rightarrow> msghdr \<Rightarrow> interp \<Rightarrow> (msghdr \<times> interp) evaluated" where
  "connect_message script msg s = (case msg_name msg of
     None \<Rightarrow> Done (Inr (msg, s))
   | Some name \<Rightarrow> eval_then (run_syscall_connect script False (-1) (msg_namelen msg) s) (\<lambda>((live_addr, addrlen), s).
       rbind (store name 0 live_addr) (\<lambda>name.
         Done (Inr (msg\<lparr>msg_name := Some name, msg_namelen := addrlen\<rparr>, s)))))"

definition syscall_sendmsg :: handler where
  "syscall_sendmsg sys syscall args s =
     eval_then (check_arg_count args 3) (\<lambda>_.
     eval_then (fd_arg s args 0) (\<lambda>(script, live).
     need_arg args 1 (\<lambda>msg_expression.
     eval_then (msghdr_new msg_expression 0) (\<lambda>(msg, iov_len).
     eval_then (s32_arg args 2) (\<lambda>flags.
     eval_then (connect_message script msg s) (\<lambda>(msg, s).
     if msg_flags msg \<noteq> 0 then eval_error ''sendmsg ignores msg_flags field in msghdr''
     else plain_call sys syscall (SYS_SENDMSG live msg flags) s))))))"

subsection \<open>Control of descriptors\<close>

definition syscall_fcntl :: handler where
  "syscall_fcntl sys syscall args s =
     (let actual_arg_count = get_arg_count args in
      if actual_arg_count \<noteq> 2 \<and> actual_arg_count \<noteq> 3
      then eval_error (''fcntl expected 2-3 args but got '' @ dec actual_arg_count)
      else
      eval_then (fd_arg s args 0) (\<lambda>(script, live).
      eval_then (s32_arg args 1) (\<lambda>command.
      if actual_arg_count = 2 then plain_call sys syscall (SYS_FCNTL live command None) s
      else eval_then (s32_arg args 2) (\<lambda>arg. plain_call sys syscall (SYS_FCNTL live command (Some arg)) s))))"

definition syscall_ioctl :: handler where
  "syscall_ioctl sys syscall args s =
     (let actual_arg_count = get_arg_count args in
      if actual_arg_count \<noteq> 2 \<and> actual_arg_count \<noteq> 3
      then eval_error (''ioctl expected 2-3 args but got '' @ dec actual_arg_count)
      else
      eval_then (fd_arg s args 0) (\<lambda>(script, live).
      eval_then (s32_arg args 1) (\<lambda>command.
      if actual_arg_count = 2 then plain_call sys syscall (SYS_IOCTL live command False) s
      else eval_then (s32_bracketed_arg args 2) (\<lambda>script_optval.
        eval_then (make_call sys syscall CHECK_EXACT (SYS_IOCTL live command True) s) (\<lambda>(ans, s).
        rbind (ld_le 4 (ans_optval ans) 0) (\<lambda>v. let live_optval = s32 (int v) in
        if live_optval \<noteq> script_optval
        then eval_error (''Bad ioctl optval: expected: '' @ dec_int script_optval @ '' actual: '' @ dec_int live_optval)
        else Done (Inr s)))))))"

definition syscall_close :: handler where
  "syscall_close sys syscall args s =
     eval_then (check_arg_count args 1) (\<lambda>_.
     eval_then (fd_arg s args 0) (\<lambda>(script, live).
     eval_then (plain_call sys syscall (SYS_CLOSE live) s) (run_syscall_close script live)))"

definition syscall_shutdown :: handler where
  "syscall_shutdown sys syscall args s =
     eval_then (check_arg_count args 2) (\<lambda>_.
     eval_then (fd_arg s args 0) (\<lambda>(script, live).
     eval_then (s32_arg args 1) (\<lambda>how.
     plain_call sys syscall (SYS_SHUTDOWN live how) s)))"

subsection \<open>Socket options\<close>

text \<open>The comparison of the value of an option that was read with the expression of the script.\<close>

definition optval_expect_string :: "bytes \<Rightarrow> string \<Rightarrow> unit evaluated" where
  "optval_expect_string live_optval script_optval =
     (if 0 \<notin> set live_optval then Oob
      else (let expected = takeWhile (\<lambda>c. c \<noteq> CHR 0x00) script_optval; actual = c_string live_optval in
        if actual \<noteq> expected
        then eval_error (''Bad getsockopt optval: expected: '' @ [CHR 0x27] @ expected @ [CHR 0x27] @ '' actual: '' @
          [CHR 0x27] @ actual @ [CHR 0x27])
        else Done (Inr ())))"

definition bad_optlen :: "int \<Rightarrow> unit evaluated" where
  "bad_optlen script_optlen = eval_error (''Unsupported getsockopt optlen: '' @ dec_int script_optlen)"

definition optval_expect_s32 :: "bytes \<Rightarrow> expression list \<Rightarrow> int \<Rightarrow> unit evaluated" where
  "optval_expect_s32 live_optval args script_optlen =
     (if script_optlen \<noteq> 4 then bad_optlen script_optlen
      else eval_then (s32_bracketed_arg args 3) (\<lambda>expected.
      rbind (ld_le 4 live_optval 0) (\<lambda>v. let actual = s32 (int v) in
      if actual \<noteq> expected
      then eval_error (''Bad getsockopt optval: expected: '' @ dec_int expected @ '' actual: '' @ dec_int actual)
      else Done (Inr ()))))"

text \<open>The fields that are compared are all but the protocol.\<close>

definition optval_expect_gre :: "bytes \<Rightarrow> bytes \<Rightarrow> int \<Rightarrow> unit evaluated" where
  "optval_expect_gre live_gre script_gre script_optlen =
     (if script_optlen \<noteq> 16 then bad_optlen script_optlen
      else rbind (ld_bytes live_gre 0 2) (\<lambda>live_flags. rbind (ld_bytes script_gre 0 2) (\<lambda>script_flags.
      rbind (ld_bytes live_gre 4 12) (\<lambda>live_rest. rbind (ld_bytes script_gre 4 12) (\<lambda>script_rest.
      if live_flags \<noteq> script_flags \<or> live_rest \<noteq> script_rest then eval_error ''Bad getsockopt optval.''
      else Done (Inr ()))))))"

text \<open>An address that cannot be printed leaves its buffer as it was, which is not defined.\<close>

definition optval_expect_in6 :: "ntop \<Rightarrow> bytes \<Rightarrow> bytes \<Rightarrow> int \<Rightarrow> unit evaluated" where
  "optval_expect_in6 inet_ntop live_optval script_ipv6 script_optlen =
     (if script_optlen \<noteq> 16 then bad_optlen script_optlen
      else rbind (ld_bytes live_optval 0 16) (\<lambda>live_ipv6. rbind (ld_bytes script_ipv6 0 16) (\<lambda>script_ipv6.
      if live_ipv6 \<noteq> script_ipv6
      then (case (inet_ntop AF_INET6 script_ipv6, inet_ntop AF_INET6 live_ipv6) of
          (Some expected, Some actual) \<Rightarrow> eval_error (''Bad getsockopt optval: expected: '' @ expected @ '' actual: '' @ actual @ '' '')
        | _ \<Rightarrow> Oob)
      else Done (Inr ()))))"

definition optval_expect_eq :: "ntop \<Rightarrow> bytes \<Rightarrow> expression \<Rightarrow> expression list \<Rightarrow> int \<Rightarrow> unit evaluated" where
  "optval_expect_eq inet_ntop live_optval val_expression args script_optlen =
     (case val_expression of
        E_STRING script_optval \<Rightarrow> optval_expect_string live_optval script_optval
      | E_LIST _ \<Rightarrow> optval_expect_s32 live_optval args script_optlen
      | E_GRE script_gre \<Rightarrow> optval_expect_gre live_optval script_gre script_optlen
      | E_IN6_ADDR script_ipv6 \<Rightarrow> optval_expect_in6 inet_ntop live_optval script_ipv6 script_optlen
      | _ \<Rightarrow> rbind (expr_type val_expression) (\<lambda>t.
          eval_error (''unsupported getsockopt value type: '' @ expression_type_to_string t)))"

text \<open>The buffer has one byte more than the length, in the arithmetic of 32 bits.\<close>

definition syscall_getsockopt :: handler where
  "syscall_getsockopt sys syscall args s =
     eval_then (check_arg_count args 5) (\<lambda>_.
     eval_then (fd_arg s args 0) (\<lambda>(script, live).
     eval_then (s32_arg args 1) (\<lambda>level.
     eval_then (s32_arg args 2) (\<lambda>optname.
     need_arg args 3 (\<lambda>val_expression.
     eval_then (s32_bracketed_arg args 4) (\<lambda>script_optlen.
     eval_then (make_call sys syscall CHECK_EXACT (SYS_GETSOCKOPT live level optname script_optlen) s) (\<lambda>(ans, s).
     rbind (store (replicate (u32_of (script_optlen + 1)) 0) 0 (ans_optval ans)) (\<lambda>live_optval.
     let live_optlen = s32 (int (ans_optlen ans)) in
     if live_optlen \<noteq> script_optlen
     then eval_error (''Bad getsockopt optlen: expected: '' @ dec_int script_optlen @ '' actual: '' @ dec_int live_optlen)
     else eval_then (optval_expect_eq (w_ntop (sy_world sys)) live_optval val_expression args script_optlen) (\<lambda>_.
       Done (Inr s))))))))))"

text \<open>What \<^verbatim>\<open>optval\<close> points to.\<close>

definition optval_arg :: "expression \<Rightarrow> expression list \<Rightarrow> expression evaluated" where
  "optval_arg val_expression args =
     (case val_expression of
        E_LINGER _ _ \<Rightarrow> Done (Inr val_expression)
      | E_GRE _ \<Rightarrow> Done (Inr val_expression)
      | E_IN6_ADDR _ \<Rightarrow> Done (Inr val_expression)
      | E_MPLS_STACK _ \<Rightarrow> Done (Inr val_expression)
      | E_STRING _ \<Rightarrow> Done (Inr val_expression)
      | E_LIST _ \<Rightarrow> eval_then (s32_bracketed_arg args 3) (\<lambda>v. Done (Inr (E_INTEGER v)))
      | _ \<Rightarrow> rbind (expr_type val_expression) (\<lambda>t.
          eval_error (''unsupported setsockopt value type: '' @ expression_type_to_string t)))"

definition syscall_setsockopt :: handler where
  "syscall_setsockopt sys syscall args s =
     eval_then (check_arg_count args 5) (\<lambda>_.
     eval_then (fd_arg s args 0) (\<lambda>(script, live).
     eval_then (s32_arg args 1) (\<lambda>level.
     eval_then (s32_arg args 2) (\<lambda>optname.
     eval_then (s32_arg args 4) (\<lambda>optlen.
     need_arg args 3 (\<lambda>val_expression.
     eval_then (optval_arg val_expression args) (\<lambda>optval.
     plain_call sys syscall (SYS_SETSOCKOPT live level optname optval optlen) s)))))))"

subsection \<open>Polling\<close>

definition s16 :: "int \<Rightarrow> int" where "s16 v = sint (word_of_int v :: 16 word)"

text \<open>An array is descriptor, events and returned events of each element.\<close>

fun pollfds_elements :: "interp \<Rightarrow> expression list \<Rightarrow> (int \<times> int \<times> int) list evaluated" where
  "pollfds_elements s [] = Done (Inr [])"
| "pollfds_elements s (e # es) =
     eval_then (check_type e EXPR_POLLFD) (\<lambda>_.
     case e of
       E_POLLFD fd events revents \<Rightarrow>
         eval_then (check_type fd EXPR_INTEGER) (\<lambda>_. eval_then (check_type events EXPR_INTEGER) (\<lambda>_.
         eval_then (check_type revents EXPR_INTEGER) (\<lambda>_.
         rbind (expr_num fd) (\<lambda>fd_num. rbind (expr_num events) (\<lambda>events_num. rbind (expr_num revents) (\<lambda>revents_num.
         eval_then (to_live_fd s (s32 fd_num)) (\<lambda>live.
         eval_then (pollfds_elements s es) (\<lambda>fds. Done (Inr ((live, s16 events_num, s16 revents_num) # fds))))))))))
     | _ \<Rightarrow> Oob)"

definition pollfds_new :: "interp \<Rightarrow> expression \<Rightarrow> (int \<times> int \<times> int) list evaluated" where
  "pollfds_new s fds_expression =
     eval_then (check_type fds_expression EXPR_LIST) (\<lambda>_. rbind (expr_list fds_expression) (pollfds_elements s))"

text \<open>The returned events of the array after the call.\<close>

definition poll_revents :: "(int \<times> int \<times> int) list \<Rightarrow> sys_answer \<Rightarrow> int list" where
  "poll_revents fds ans = (let answered = map s16 (take (length fds) (ans_revents ans)) in
     answered @ map (snd \<circ> snd) (drop (length answered) fds))"

text \<open>The names of flags in a message; a mask is extended with its sign.\<close>

definition poll_string :: "int \<Rightarrow> string run" where
  "poll_string flags = flags_to_string poll_flags (word_of_int flags)"

fun pollfds_check_loop :: "expression list \<Rightarrow> int list \<Rightarrow> nat \<Rightarrow> unit evaluated" where
  "pollfds_check_loop list [] i = Done (Inr ())"
| "pollfds_check_loop [] (r # rs) i = Oob"
| "pollfds_check_loop (e # es) (actual_revents # rs) i =
     (case e of
        E_POLLFD fd events revents \<Rightarrow>
          rbind (expr_type fd) (\<lambda>t1. rbind (expr_type events) (\<lambda>t2. rbind (expr_type revents) (\<lambda>t3.
          check (t1 = EXPR_INTEGER \<and> t2 = EXPR_INTEGER \<and> t3 = EXPR_INTEGER)
          (rbind (expr_num revents) (\<lambda>num. let expected_revents = s32 num in
          if actual_revents \<noteq> expected_revents
          then rbind (poll_string expected_revents) (\<lambda>expected. rbind (poll_string actual_revents) (\<lambda>actual.
            eval_error (''Expected revents of '' @ expected @ '' but got '' @ actual @ '' for pollfd '' @ dec i)))
          else pollfds_check_loop es rs (Suc i))))))
      | E_NULL \<Rightarrow> Oob
      | _ \<Rightarrow> Die)"

definition pollfds_check :: "expression \<Rightarrow> int list \<Rightarrow> unit evaluated" where
  "pollfds_check fds_expression revents =
     rbind (expr_type fds_expression) (\<lambda>t. check (t = EXPR_LIST)
       (rbind (expr_list fds_expression) (\<lambda>list. pollfds_check_loop list revents 0)))"

definition syscall_poll :: handler where
  "syscall_poll sys syscall args s =
     eval_then (check_arg_count args 3) (\<lambda>_.
     need_arg args 0 (\<lambda>fds_expression.
     eval_then (pollfds_new s fds_expression) (\<lambda>fds.
     eval_then (s32_arg args 1) (\<lambda>nfds.
     eval_then (s32_arg args 2) (\<lambda>timeout.
     if nfds \<noteq> int (length fds)
     then eval_error (''nfds '' @ dec_int nfds @ '' does not match '' @ dec (length fds) @ ''-element pollfd array'')
     else eval_then (make_call sys syscall CHECK_EXACT (SYS_POLL fds nfds timeout) s) (\<lambda>(ans, s).
     eval_then (pollfds_check fds_expression (poll_revents fds ans)) (\<lambda>_. Done (Inr s))))))))"

subsection \<open>Capabilities and files\<close>

text \<open>Whether the library accepts the flag, the value and the operation.\<close>

definition syscall_cap_set :: "(int \<Rightarrow> int \<Rightarrow> int \<Rightarrow> bool) \<Rightarrow> handler" where
  "syscall_cap_set cap_ok sys syscall args s =
     eval_then (check_arg_count args 3) (\<lambda>_.
     eval_then (s32_arg args 0) (\<lambda>cap_flag.
     eval_then (s32_arg args 1) (\<lambda>cap_value.
     eval_then (s32_arg args 2) (\<lambda>cap_op.
     check (cap_ok cap_flag cap_value cap_op)
     (eval_then (make_call sys syscall CHECK_FD (SYS_CAP_SET cap_flag cap_value cap_op) s) (\<lambda>(ans, s). Done (Inr s)))))))"

definition syscall_open :: handler where
  "syscall_open sys syscall args s =
     eval_then (check_arg_count args 2) (\<lambda>_.
     eval_then (get_arg args 0) (\<lambda>name_expression.
     eval_then (check_type name_expression EXPR_STRING) (\<lambda>_.
     case name_expression of
       E_STRING name \<Rightarrow>
         eval_then (s32_arg args 1) (\<lambda>flags.
         fd_call sys syscall (SYS_OPEN name flags) (\<lambda>script ans. run_syscall_open script (ans_result ans)) s)
     | _ \<Rightarrow> Oob)))"

definition syscall_sendfile :: handler where
  "syscall_sendfile sys syscall args s =
     eval_then (check_arg_count args 4) (\<lambda>_.
     eval_then (fd_arg s args 0) (\<lambda>(script_outfd, live_outfd).
     eval_then (fd_arg s args 1) (\<lambda>(script_infd, live_infd).
     eval_then (s64_bracketed_arg args 2) (\<lambda>script_offset.
     eval_then (s32_arg args 3) (\<lambda>n.
     plain_call sys syscall (SYS_SENDFILE live_outfd live_infd script_offset n) s)))))"

subsection \<open>Epoll\<close>

text \<open>The events and the data; the first member that is there counts. A script descriptor of \<open>-1\<close> stands for
  none.\<close>

definition get_epoll_data :: "interp \<Rightarrow> expression \<Rightarrow> expression \<Rightarrow> expression \<Rightarrow> expression \<Rightarrow> int \<Rightarrow> int \<Rightarrow> epoll_data evaluated" where
  "get_epoll_data s ptr fd v32 v64 script live =
     (if ptr \<noteq> E_NULL
      then eval_then (check_type ptr EXPR_INTEGER) (\<lambda>_. rbind (expr_num ptr) (\<lambda>num. Done (Inr (EPOLL_DATA_PTR (u64_of num)))))
      else if fd \<noteq> E_NULL
      then eval_then (check_type fd EXPR_INTEGER) (\<lambda>_. rbind (expr_num fd) (\<lambda>num.
        if script = -1 then eval_then (to_live_fd s (s32 num)) (\<lambda>live. Done (Inr (EPOLL_DATA_FD live)))
        else if num \<noteq> script then eval_error (''wrong fd specified in epoll_event'' @ [CHR 0x0A])
        else Done (Inr (EPOLL_DATA_FD live))))
      else if v32 \<noteq> E_NULL
      then eval_then (check_type v32 EXPR_INTEGER) (\<lambda>_. rbind (expr_num v32) (\<lambda>num. Done (Inr (EPOLL_DATA_U32 (u32_of num)))))
      else if v64 \<noteq> E_NULL
      then eval_then (check_type v64 EXPR_INTEGER) (\<lambda>_. rbind (expr_num v64) (\<lambda>num. Done (Inr (EPOLL_DATA_U64 (u64_of num)))))
      else eval_error ''epoll_event specified incorrectly'')"

definition get_epoll_event_from_expr :: "interp \<Rightarrow> expression \<Rightarrow> int \<Rightarrow> int \<Rightarrow> (nat \<times> epoll_data) evaluated" where
  "get_epoll_event_from_expr s epollev script live =
     (if epollev = E_NULL then Done (Inl None)
      else eval_then (check_type epollev EXPR_EPOLLEV) (\<lambda>_.
        case epollev of
          E_EPOLLEV events ptr fd v32 v64 \<Rightarrow>
            eval_then (check_type events EXPR_INTEGER) (\<lambda>_. rbind (expr_num events) (\<lambda>num.
            eval_then (get_epoll_data s ptr fd v32 v64 script live) (\<lambda>data. Done (Inr (u32_of num, data)))))
        | _ \<Rightarrow> Oob))"

definition syscall_epoll_create :: handler where
  "syscall_epoll_create sys syscall args s =
     eval_then (check_arg_count args 1) (\<lambda>_.
     eval_then (s32_arg args 0) (\<lambda>n.
     fd_call sys syscall (SYS_EPOLL_CREATE n) (\<lambda>script ans. run_syscall_epoll_create script (ans_result ans)) s))"

definition syscall_epoll_ctl :: handler where
  "syscall_epoll_ctl sys syscall args s =
     eval_then (check_arg_count args 4) (\<lambda>_.
     eval_then (fd_arg s args 0) (\<lambda>(epfd_script, epfd_live).
     eval_then (s32_arg args 1) (\<lambda>op.
     eval_then (fd_arg s args 2) (\<lambda>(script, live).
     eval_then (get_arg args 3) (\<lambda>epollev.
     eval_then (get_epoll_event_from_expr s epollev script live) (\<lambda>(events, data).
     plain_call sys syscall (SYS_EPOLL_CTL epfd_live op live events data) s))))))"

text \<open>The member of the 64 bits of data that the script names, and the comparison with the first event. The
  conversion of a message that does not fit its argument is left out with the number.\<close>

definition data_mismatch :: "string \<Rightarrow> string \<Rightarrow> unit evaluated" where
  "data_mismatch expected actual =
     eval_error (''epoll_event->data does not match script: expected: '' @ expected @ '' actual: '' @ actual @ [CHR 0x0A])"

fun epoll_data_expect_eq :: "epoll_data \<Rightarrow> nat \<Rightarrow> unit evaluated" where
  "epoll_data_expect_eq (EPOLL_DATA_PTR p) live =
     (if p \<noteq> live then data_mismatch (''0x'' @ hex p) (''0x'' @ hex live) else Done (Inr ()))"
| "epoll_data_expect_eq (EPOLL_DATA_FD fd) live =
     (let actual = s32 (int live) in if fd \<noteq> actual then data_mismatch (dec_int fd) (dec_int actual) else Done (Inr ()))"
| "epoll_data_expect_eq (EPOLL_DATA_U32 v) live =
     (let actual = live mod 2 ^ 32 in if v \<noteq> actual then data_mismatch (dec v) (dec actual) else Done (Inr ()))"
| "epoll_data_expect_eq (EPOLL_DATA_U64 v) live =
     (if v \<noteq> live then data_mismatch (dec v) (dec live) else Done (Inr ()))"

text \<open>The array of events is zeroed; an array of no elements is read past its end.\<close>

definition first_event :: "sys_answer \<Rightarrow> int \<Rightarrow> (nat \<times> nat) run" where
  "first_event ans maxevents =
     (if maxevents = 0 then Oob else Done (case ans_events ans of [] \<Rightarrow> (0, 0) | e # _ \<Rightarrow> e))"

definition syscall_epoll_wait :: handler where
  "syscall_epoll_wait sys syscall args s =
     eval_then (check_arg_count args 4) (\<lambda>_.
     eval_then (fd_arg s args 0) (\<lambda>(epfd_script, epfd_live).
     eval_then (get_arg args 1) (\<lambda>epollev.
     eval_then (get_epoll_event_from_expr s epollev (-1) (-1)) (\<lambda>(events, data).
     eval_then (s32_arg args 2) (\<lambda>maxevents.
     eval_then (s32_arg args 3) (\<lambda>timeout.
     if maxevents < 0 then eval_error (''Failed to calloc '' @ dec_int maxevents @ '' struct epoll_event'' @ [CHR 0x0A])
     else eval_then (make_call sys syscall CHECK_EXACT (SYS_EPOLL_WAIT epfd_live maxevents timeout) s) (\<lambda>(ans, s).
     rbind (first_event ans maxevents) (\<lambda>(live_events, live_data).
     if events \<noteq> live_events
     then eval_error (''epoll_event->events does not match script: expected: 0x'' @ hex events @ '' actual: 0x'' @
       hex live_events @ [CHR 0x0A])
     else eval_then (epoll_data_expect_eq data live_data) (\<lambda>_. Done (Inr s))))))))))"

subsection \<open>Pipes\<close>

definition syscall_pipe :: handler where
  "syscall_pipe sys syscall args s =
     eval_then (check_arg_count args 1) (\<lambda>_.
     need_arg args 0 (\<lambda>pipe_expr.
     eval_then (get_pipe_expression pipe_expr) (\<lambda>pipefd_script.
     eval_then (make_call sys syscall CHECK_EXACT SYS_PIPE s) (\<lambda>(ans, s).
     if 0 \<le> ans_result ans then run_syscall_pipe pipefd_script (ans_fds ans) s else Done (Inr s)))))"

text \<open>This handler does not begin its call.\<close>

definition syscall_splice :: handler where
  "syscall_splice sys syscall args s =
     eval_then (check_arg_count args 6) (\<lambda>_.
     eval_then (fd_arg s args 0) (\<lambda>(fd_in_script, fd_in_live).
     eval_then (s64_arg args 1) (\<lambda>off_in.
     eval_then (fd_arg s args 2) (\<lambda>(fd_out_script, fd_out_live).
     eval_then (s64_arg args 3) (\<lambda>off_out.
     eval_then (s32_arg args 4) (\<lambda>len.
     eval_then (s32_arg args 5) (\<lambda>flags.
     case do_call sys (SYS_SPLICE fd_in_live off_in fd_out_live off_out len flags) s of (ans, s) \<Rightarrow>
     end_syscall sys syscall CHECK_EXACT ans s)))))))"

subsection \<open>Dispatch\<close>

definition system_call_table :: "(int \<Rightarrow> int \<Rightarrow> int \<Rightarrow> bool) \<Rightarrow> (string \<times> handler) list" where
  "system_call_table cap_ok =
    [(''socket'', syscall_socket), (''bind'', syscall_bind), (''listen'', syscall_listen), (''accept'', syscall_accept),
     (''connect'', syscall_connect), (''read'', syscall_read), (''readv'', syscall_readv), (''recv'', syscall_recv),
     (''recvfrom'', syscall_recvfrom), (''recvmsg'', syscall_recvmsg), (''write'', syscall_write),
     (''writev'', syscall_writev), (''send'', syscall_send), (''sendto'', syscall_sendto),
     (''sendmsg'', syscall_sendmsg), (''fcntl'', syscall_fcntl), (''ioctl'', syscall_ioctl),
     (''close'', syscall_close), (''shutdown'', syscall_shutdown), (''getsockopt'', syscall_getsockopt),
     (''setsockopt'', syscall_setsockopt), (''poll'', syscall_poll), (''cap_set'', syscall_cap_set cap_ok),
     (''open'', syscall_open), (''sendfile'', syscall_sendfile), (''epoll_create'', syscall_epoll_create),
     (''epoll_ctl'', syscall_epoll_ctl), (''epoll_wait'', syscall_epoll_wait), (''pipe'', syscall_pipe),
     (''splice'', syscall_splice)]"

text \<open>The call once its time has come; an error ends the process with its message.\<close>

definition run_handler :: "(int \<Rightarrow> int \<Rightarrow> int \<Rightarrow> bool) \<Rightarrow> system \<Rightarrow> syscall_spec \<Rightarrow> interp \<Rightarrow> interp evaluated" where
  "run_handler cap_ok sys syscall s =
     (case map_of (system_call_table cap_ok) (sys_name syscall) of
        None \<Rightarrow> eval_error (''Unknown system call: '' @ [CHR 0x27] @ sys_name syscall @ [CHR 0x27])
      | Some handler \<Rightarrow> eval_then (evaluate_expression_list (sy_symbols sys) (sys_arguments syscall)) (\<lambda>args.
          handler sys syscall args s))"

definition invoke_system_call ::
  "(int \<Rightarrow> int \<Rightarrow> int \<Rightarrow> bool) \<Rightarrow> system \<Rightarrow> nat \<Rightarrow> syscall_spec \<Rightarrow> interp \<Rightarrow> interp run option" where
  "invoke_system_call cap_ok sys fuel syscall s =
     (case wait_for_event (sy_world sys) fuel (in_state s) of
        None \<Rightarrow> None
      | Some r \<Rightarrow> Some (rbind r (\<lambda>st. rbind (run_handler cap_ok sys syscall (s\<lparr>in_state := st\<rparr>)) (\<lambda>out.
          case out of Inl _ \<Rightarrow> Die | Inr s \<Rightarrow> Done s))))"

subsection \<open>One call for each event\<close>

lemma eval_then_Inr:
  "eval_then r f = Done (Inr y) \<longleftrightarrow> (\<exists>x. r = Done (Inr x) \<and> f x = Done (Inr y))"
  by (cases "(r, f)" rule: eval_then.cases) auto

lemma eval_error_Inr: "eval_error e \<noteq> Done (Inr y)"
  by (simp add: eval_error_def)

lemma need_arg_Inr:
  "need_arg args i f = Done (Inr y) \<longleftrightarrow> i < length args \<and> args ! i \<noteq> E_NULL \<and> f (args ! i) = Done (Inr y)"
  by (simp add: need_arg_def get_arg_def eval_then_Inr eval_error_def)

lemmas handler_simps = eval_then_Inr eval_error_Inr need_arg_Inr run_simps

text \<open>The answer agrees with the script: the result is the expected one, or both are descriptors, and \<^verbatim>\<open>errno\<close>
  is the expected one if the script names one.\<close>

definition answer_matches :: "system \<Rightarrow> syscall_spec \<Rightarrow> sys_answer \<Rightarrow> bool" where
  "answer_matches sys syscall ans \<longleftrightarrow>
     (\<exists>expected. get_s32 (sys_result syscall) = Done (Inr expected) \<and>
       (ans_result ans = expected \<or> 0 \<le> expected \<and> 0 \<le> ans_result ans)) \<and>
     (case sys_errno_macro syscall of None \<Rightarrow> True | Some macro \<Rightarrow> symbol_to_int (sy_symbols sys) macro = Inr (ans_errno ans))"

text \<open>The part of the interpreter that calls leave alone.\<close>

definition same_fds :: "interp \<Rightarrow> interp \<Rightarrow> bool" where
  "same_fds s s' \<longleftrightarrow> in_fds s' = in_fds s \<and> st_sockets (in_state s') = st_sockets (in_state s) \<and>
     st_config (in_state s') = st_config (in_state s) \<and> cursor (in_state s') = cursor (in_state s)"

text \<open>The calls made so far and the place in the script.\<close>

definition trace :: "interp \<Rightarrow> sys_call list \<times> event list \<times> nat option \<times> nat" where
  "trace s = (in_calls s, cursor (in_state s))"

definition made :: "system \<Rightarrow> syscall_spec \<Rightarrow> sys_call \<Rightarrow> interp \<Rightarrow> interp \<Rightarrow> bool" where
  "made sys syscall call s s' \<longleftrightarrow> in_calls s' = in_calls s @ [call] \<and>
     answer_matches sys syscall (sy_answer sys (length (in_calls s)) call) \<and> same_fds s s'"

lemma check_result_ok:
  "check_result sys syscall mode actual e = Done (Inr u) \<Longrightarrow>
     \<exists>expected. get_s32 (sys_result syscall) = Done (Inr expected) \<and>
       (actual = expected \<or> 0 \<le> expected \<and> 0 \<le> actual)"
  by (auto simp: check_result_def Let_def handler_simps split: if_splits)

lemma check_errno_ok:
  "check_errno sys syscall e = Done (Inr u) \<Longrightarrow>
     (case sys_errno_macro syscall of None \<Rightarrow> True | Some macro \<Rightarrow> symbol_to_int (sy_symbols sys) macro = Inr e)"
  by (auto simp: check_errno_def handler_simps split: option.splits sum.splits if_splits)

lemma end_syscall_ok:
  assumes "end_syscall sys syscall mode ans s = Done (Inr s')"
  shows "answer_matches sys syscall ans" "in_calls s' = in_calls s" "same_fds s s'"
    "is_blocking_syscall syscall \<Longrightarrow> in_syscalls s = SYSCALL_RUNNING"
  using assms
  by (auto simp: end_syscall_def Let_def handler_simps answer_matches_def finish_blocking_def print_syscall_def same_fds_def
      now_usecs_def cursor_def dest!: check_result_ok check_errno_ok split: if_splits)

lemma make_call_ok:
  assumes "make_call sys syscall mode call s = Done (Inr (ans, s'))"
  shows "made sys syscall call s s'" "ans = sy_answer sys (length (in_calls s)) call"
proof -
  obtain s1 where s1: "begin_syscall syscall s = Done s1"
    "end_syscall sys syscall mode (sy_answer sys (length (in_calls s1)) call) (s1\<lparr>in_calls := in_calls s1 @ [call]\<rparr>) = Done (Inr s')"
    "ans = sy_answer sys (length (in_calls s1)) call"
    using assms by (auto simp: make_call_def handler_simps do_call_def)
  have "in_calls s1 = in_calls s" "same_fds s s1"
    using s1(1) by (auto simp: begin_syscall_def run_simps same_fds_def split: if_splits)
  then show "made sys syscall call s s'" "ans = sy_answer sys (length (in_calls s)) call"
    using end_syscall_ok [OF s1(2)] s1(3) by (simp_all add: made_def same_fds_def)
qed

lemma plain_call_ok: "plain_call sys syscall call s = Done (Inr s') \<Longrightarrow> made sys syscall call s s'"
  by (auto simp: plain_call_def handler_simps dest: make_call_ok)

lemma fd_call_ok:
  assumes "fd_call sys syscall call track s = Done (Inr s')"
  obtains s1 where "made sys syscall call s s1" "s' = s1"
  | s1 script where "made sys syscall call s s1" "0 \<le> script"
      "0 \<le> ans_result (sy_answer sys (length (in_calls s)) call)"
      "track script (sy_answer sys (length (in_calls s)) call) s1 = Done (Inr s')"
proof -
  obtain ans s1 where m: "make_call sys syscall CHECK_FD call s = Done (Inr (ans, s1))"
    "(if 0 \<le> ans_result ans then eval_then (get_s32 (sys_result syscall)) (\<lambda>script. track script ans s1) else Done (Inr s1))
      = Done (Inr s')"
    using assms by (auto simp: fd_call_def handler_simps)
  note ok = make_call_ok [OF m(1)]
  show thesis
  proof (cases "0 \<le> ans_result ans")
    case True
    then obtain script where "get_s32 (sys_result syscall) = Done (Inr script)" "track script ans s1 = Done (Inr s')"
      using m(2) by (auto simp: handler_simps)
    moreover have "0 \<le> script" using ok True calculation(1) by (auto simp: made_def answer_matches_def)
    ultimately show thesis using that(2) ok True by blast
  qed (use that(1) ok m(2) in auto)
qed

text \<open>What a handler that succeeds has done.\<close>

definition handled :: "system \<Rightarrow> syscall_spec \<Rightarrow> interp \<Rightarrow> interp \<Rightarrow> bool" where
  "handled sys syscall s s' \<longleftrightarrow> (\<exists>call. in_calls s' = in_calls s @ [call] \<and>
     answer_matches sys syscall (sy_answer sys (length (in_calls s)) call)) \<and> cursor (in_state s') = cursor (in_state s)"

lemma made_handled: "made sys syscall call s s1 \<Longrightarrow> trace s' = trace s1 \<Longrightarrow> handled sys syscall s s'"
  by (auto simp: made_def handled_def same_fds_def trace_def)

lemma handled_later: "made sys syscall call s1 s' \<Longrightarrow> trace s1 = trace s \<Longrightarrow> handled sys syscall s s'"
  by (auto simp: made_def handled_def same_fds_def trace_def)

text \<open>The effects of calls make no calls.\<close>

lemma frame_calls [simp]:
  "trace (file_new n l s) = trace s" "trace (pipe_new n l s) = trace s"
  "trace (epoll_new n l s) = trace s" "trace (add_socket_fd socket ty s) = trace s"
  "trace (close_fd k s) = trace s" "trace (update_socket i f s) = trace s"
  by (simp_all add: file_new_def pipe_new_def epoll_new_def add_socket_fd_def state_add_fd_def close_fd_def
      update_socket_def add_socket_def upd_socket_def trace_def cursor_def split: fd.split)

lemma run_syscall_new_calls:
  "run_syscall_open script live s = Done (Inr s') \<Longrightarrow> trace s' = trace s"
  "run_syscall_epoll_create script live s = Done (Inr s') \<Longrightarrow> trace s' = trace s"
  "run_syscall_socket fam ty protocol script live s = Done (Inr s') \<Longrightarrow> trace s' = trace s"
  "run_syscall_pipe p q s = Done (Inr s') \<Longrightarrow> trace s' = trace s"
  by (auto simp: run_syscall_open_def run_syscall_epoll_create_def run_syscall_socket_def run_syscall_pipe_def
      handler_simps split: if_splits)

lemma run_syscall_close_calls: "run_syscall_close script live s = Done (Inr s') \<Longrightarrow> trace s' = trace s"
  by (auto simp: run_syscall_close_def handler_simps split: if_splits option.splits)

lemma run_syscall_listen_calls: "run_syscall_listen script live s = Done (Inr s') \<Longrightarrow> trace s' = trace s"
  by (auto simp: run_syscall_listen_def handler_simps Let_def split: option.splits)

lemma run_syscall_accept_calls:
  "run_syscall_accept script live addr addrlen s = Done (Inr s') \<Longrightarrow> trace s' = trace s"
  by (auto simp: run_syscall_accept_def handler_simps Let_def split: option.splits if_splits)

lemma run_syscall_connect_calls:
  "run_syscall_connect script must fam len s = Done (Inr (a, s')) \<Longrightarrow> trace s' = trace s"
  by (auto simp: run_syscall_connect_def handler_simps Let_def split: option.splits if_splits)

lemmas run_syscall_calls = run_syscall_new_calls run_syscall_close_calls run_syscall_listen_calls
  run_syscall_accept_calls run_syscall_connect_calls

subsection \<open>Every handler\<close>

text \<open>A step of a handler that succeeds: one call with a good answer, and a table of descriptors that stays
  well-formed.\<close>

definition good_step :: "system \<Rightarrow> syscall_spec \<Rightarrow> interp \<Rightarrow> interp \<Rightarrow> bool" where
  "good_step sys syscall s s' \<longleftrightarrow> handled sys syscall s s' \<and> (fds_ok s \<longrightarrow> fds_ok s')"

lemma same_fds_ok: "same_fds s s' \<Longrightarrow> fds_ok s' = fds_ok s"
proof -
  assume s: "same_fds s s'"
  have "to_fd s' fd = to_fd s fd" for fd using s by (cases fd) (simp_all add: same_fds_def)
  then show ?thesis using s by (simp add: fds_ok_def fd_states_def fd_indices_def same_fds_def cong: map_cong)
qed

lemma made_good: "made sys syscall call s s' \<Longrightarrow> good_step sys syscall s s'"
  using same_fds_ok [of s s'] by (auto simp: good_step_def handled_def made_def same_fds_def trace_def)

lemma made_then_good:
  "made sys syscall call s s1 \<Longrightarrow> trace s' = trace s1 \<Longrightarrow> (fds_ok s1 \<Longrightarrow> fds_ok s') \<Longrightarrow> good_step sys syscall s s'"
  using same_fds_ok [of s s1] by (auto simp: good_step_def handled_def made_def same_fds_def trace_def)

lemma good_then_made:
  "made sys syscall call s1 s' \<Longrightarrow> trace s1 = trace s \<Longrightarrow> (fds_ok s \<Longrightarrow> fds_ok s1) \<Longrightarrow> good_step sys syscall s s'"
  using same_fds_ok [of s1 s'] by (auto simp: good_step_def handled_def made_def same_fds_def trace_def)

lemma plain_good: "plain_call sys syscall call s = Done (Inr s') \<Longrightarrow> good_step sys syscall s s'"
  by (blast dest: plain_call_ok made_good)

lemma make_good: "make_call sys syscall mode call s = Done (Inr (ans, s')) \<Longrightarrow> good_step sys syscall s s'"
  by (blast dest: make_call_ok made_good)

lemma receive_good:
  "syscall_read sys syscall args s = Done (Inr s') \<Longrightarrow> good_step sys syscall s s'"
  "syscall_readv sys syscall args s = Done (Inr s') \<Longrightarrow> good_step sys syscall s s'"
  "syscall_recv sys syscall args s = Done (Inr s') \<Longrightarrow> good_step sys syscall s s'"
  "syscall_recvfrom sys syscall args s = Done (Inr s') \<Longrightarrow> good_step sys syscall s s'"
  "syscall_recvmsg sys syscall args s = Done (Inr s') \<Longrightarrow> good_step sys syscall s s'"
  unfolding syscall_read_def syscall_readv_def syscall_recv_def syscall_recvfrom_def syscall_recvmsg_def
  by (auto simp: handler_simps split: prod.splits dest: plain_good make_good)

lemma send_good:
  "syscall_write sys syscall args s = Done (Inr s') \<Longrightarrow> good_step sys syscall s s'"
  "syscall_writev sys syscall args s = Done (Inr s') \<Longrightarrow> good_step sys syscall s s'"
  "syscall_send sys syscall args s = Done (Inr s') \<Longrightarrow> good_step sys syscall s s'"
  unfolding syscall_write_def syscall_writev_def syscall_send_def
  by (auto simp: handler_simps split: prod.splits dest: plain_good make_good)

lemma control_good:
  "syscall_bind sys syscall args s = Done (Inr s') \<Longrightarrow> good_step sys syscall s s'"
  "syscall_fcntl sys syscall args s = Done (Inr s') \<Longrightarrow> good_step sys syscall s s'"
  "syscall_ioctl sys syscall args s = Done (Inr s') \<Longrightarrow> good_step sys syscall s s'"
  "syscall_shutdown sys syscall args s = Done (Inr s') \<Longrightarrow> good_step sys syscall s s'"
  "syscall_getsockopt sys syscall args s = Done (Inr s') \<Longrightarrow> good_step sys syscall s s'"
  "syscall_setsockopt sys syscall args s = Done (Inr s') \<Longrightarrow> good_step sys syscall s s'"
  unfolding syscall_bind_def syscall_fcntl_def syscall_ioctl_def syscall_shutdown_def syscall_getsockopt_def
    syscall_setsockopt_def Let_def
  by (auto simp: handler_simps split: prod.splits if_splits dest: plain_good make_good)

lemma poll_good:
  "syscall_poll sys syscall args s = Done (Inr s') \<Longrightarrow> good_step sys syscall s s'"
  "syscall_cap_set cap_ok sys syscall args s = Done (Inr s') \<Longrightarrow> good_step sys syscall s s'"
  "syscall_sendfile sys syscall args s = Done (Inr s') \<Longrightarrow> good_step sys syscall s s'"
  "syscall_epoll_ctl sys syscall args s = Done (Inr s') \<Longrightarrow> good_step sys syscall s s'"
  "syscall_epoll_wait sys syscall args s = Done (Inr s') \<Longrightarrow> good_step sys syscall s s'"
  unfolding syscall_poll_def syscall_cap_set_def syscall_sendfile_def syscall_epoll_ctl_def syscall_epoll_wait_def
  by (auto simp: handler_simps split: prod.splits if_splits dest: plain_good make_good)

lemma splice_good: "syscall_splice sys syscall args s = Done (Inr s') \<Longrightarrow> good_step sys syscall s s'"
proof -
  assume "syscall_splice sys syscall args s = Done (Inr s')"
  then obtain call s1 where s1: "s1 = s\<lparr>in_calls := in_calls s @ [call]\<rparr>"
    "end_syscall sys syscall CHECK_EXACT (sy_answer sys (length (in_calls s)) call) s1 = Done (Inr s')"
    unfolding syscall_splice_def by (auto simp: handler_simps do_call_def split: prod.splits)
  have "same_fds s s1" "in_calls s1 = in_calls s @ [call]" by (simp_all add: s1(1) same_fds_def)
  then have "made sys syscall call s s'"
    using end_syscall_ok [OF s1(2)] by (simp add: made_def same_fds_def)
  then show ?thesis by (rule made_good)
qed

lemma update_socket_ok:
  "(\<And>k. socket_fd (f k) = socket_fd k) \<Longrightarrow> fds_ok s \<Longrightarrow> fds_ok (update_socket i f s)"
  using fds_ok_cong(1) [OF update_socket_states [of f i s]] by simp

lemma run_syscall_listen_ok:
  "run_syscall_listen script live s = Done (Inr s') \<Longrightarrow> fds_ok s \<Longrightarrow> fds_ok s'"
  by (auto simp: run_syscall_listen_def handler_simps Let_def socket_fd_def split: option.splits intro!: update_socket_ok)

lemma run_syscall_connect_ok:
  "run_syscall_connect script must fam len s = Done (Inr (a, s')) \<Longrightarrow> fds_ok s \<Longrightarrow> fds_ok s'"
  by (auto simp: run_syscall_connect_def handler_simps Let_def socket_fd_def connecting_def
      split: option.splits if_splits intro!: update_socket_ok)

lemma run_syscall_close_ok:
  "run_syscall_close n l s = Done (Inr s') \<Longrightarrow> fds_ok s \<Longrightarrow> 0 \<le> n \<Longrightarrow> fds_ok s'"
  using run_syscall_close_refines [of s n l] refines_fdD by fastforce

lemma connect_message_ok:
  "connect_message script msg s = Done (Inr (msg', s')) \<Longrightarrow> trace s' = trace s \<and> (fds_ok s \<longrightarrow> fds_ok s')"
  by (auto simp: connect_message_def handler_simps dest: run_syscall_calls run_syscall_connect_ok split: option.splits)

lemma fd_arg_ok: "fd_arg s args i = Done (Inr (n, l)) \<Longrightarrow> 0 \<le> n \<and> 0 \<le> l \<and> to_live_fd s n = Done (Inr l)"
  by (auto simp: fd_arg_def handler_simps dest: to_live_fd_found)

lemma plain_then_good:
  assumes "plain_call sys syscall call s = Done (Inr s1)" "trace s' = trace s1" "fds_ok s1 \<Longrightarrow> fds_ok s'"
  shows "good_step sys syscall s s'"
  using plain_call_ok [OF assms(1)] assms(2,3) by (blast intro: made_then_good)

lemma good_then_plain:
  assumes "plain_call sys syscall call s1 = Done (Inr s')" "trace s1 = trace s" "fds_ok s \<Longrightarrow> fds_ok s1"
  shows "good_step sys syscall s s'"
  using plain_call_ok [OF assms(1)] assms(2,3) by (blast intro: good_then_made)

lemma fd_call_good:
  assumes "fd_call sys syscall call track s = Done (Inr s')"
    "\<And>script ans s1. track script ans s1 = Done (Inr s') \<Longrightarrow> trace s' = trace s1"
    "\<And>script ans s1. track script ans s1 = Done (Inr s') \<Longrightarrow> 0 \<le> script \<Longrightarrow> 0 \<le> ans_result ans \<Longrightarrow> fds_ok s1 \<Longrightarrow> fds_ok s'"
  shows "good_step sys syscall s s'"
  using assms(1)
proof (cases rule: fd_call_ok)
  case (1 s1)
  then show ?thesis using made_good by blast
next
  case (2 s1 script)
  then show ?thesis using assms(2,3) by (blast intro: made_then_good)
qed

lemma fd_call_open_good:
  "fd_call sys syscall call (\<lambda>script ans. run_syscall_open script (ans_result ans)) s = Done (Inr s') \<Longrightarrow> good_step sys syscall s s'"
  by (erule fd_call_good; blast dest: run_syscall_new_calls(1) intro: files.open_keeps)

lemma fd_call_epoll_good:
  "fd_call sys syscall call (\<lambda>script ans. run_syscall_epoll_create script (ans_result ans)) s = Done (Inr s') \<Longrightarrow> good_step sys syscall s s'"
  by (erule fd_call_good; blast dest: run_syscall_new_calls(2) intro: epolls.open_keeps)

lemma fd_call_socket_good:
  "fd_call sys syscall call (\<lambda>script ans. run_syscall_socket domain ty protocol script (ans_result ans)) s = Done (Inr s')
    \<Longrightarrow> good_step sys syscall s s'"
  by (erule fd_call_good; blast dest: run_syscall_new_calls(3) intro: sockets.open_keeps)

lemma socket_good: "syscall_socket sys syscall args s = Done (Inr s') \<Longrightarrow> good_step sys syscall s s'"
  unfolding syscall_socket_def Let_def by (auto simp: handler_simps dest: fd_call_socket_good)

lemma epoll_create_good: "syscall_epoll_create sys syscall args s = Done (Inr s') \<Longrightarrow> good_step sys syscall s s'"
  unfolding syscall_epoll_create_def by (auto simp: handler_simps dest: fd_call_epoll_good)

lemma open_good:
  assumes "syscall_open sys syscall args s = Done (Inr s')"
  shows "good_step sys syscall s s'"
proof -
  obtain e where "(case e of E_STRING name \<Rightarrow> eval_then (s32_arg args 1) (\<lambda>flags.
      fd_call sys syscall (SYS_OPEN name flags) (\<lambda>script ans. run_syscall_open script (ans_result ans)) s) | _ \<Rightarrow> Oob)
    = Done (Inr s')"
    using assms unfolding syscall_open_def handler_simps by blast
  then show ?thesis by (cases e) (auto simp: handler_simps dest: fd_call_open_good)
qed

lemma close_good: "syscall_close sys syscall args s = Done (Inr s') \<Longrightarrow> good_step sys syscall s s'"
  unfolding syscall_close_def
  by (auto simp: handler_simps split: prod.splits dest!: fd_arg_ok
      elim: plain_then_good dest: run_syscall_close_calls run_syscall_close_ok)

lemma listen_good: "syscall_listen sys syscall args s = Done (Inr s') \<Longrightarrow> good_step sys syscall s s'"
  unfolding syscall_listen_def
  by (auto simp: handler_simps split: prod.splits
      elim: plain_then_good dest: run_syscall_listen_calls run_syscall_listen_ok)

lemma connect_good:
  "syscall_connect sys syscall args s = Done (Inr s') \<Longrightarrow> good_step sys syscall s s'"
  "syscall_icmp_sendto sys syscall args s = Done (Inr s') \<Longrightarrow> good_step sys syscall s s'"
  unfolding syscall_connect_def syscall_icmp_sendto_def
  by (auto simp: handler_simps split: prod.splits elim!: good_then_plain
      dest: run_syscall_connect_calls run_syscall_connect_ok)

lemma sendto_good: "syscall_sendto sys syscall args s = Done (Inr s') \<Longrightarrow> good_step sys syscall s s'"
  unfolding syscall_sendto_def
  by (auto simp: handler_simps split: prod.splits if_splits elim!: good_then_plain
      dest: connect_good run_syscall_connect_calls run_syscall_connect_ok)

lemma sendmsg_good: "syscall_sendmsg sys syscall args s = Done (Inr s') \<Longrightarrow> good_step sys syscall s s'"
  unfolding syscall_sendmsg_def
  by (auto simp: handler_simps split: prod.splits if_splits elim!: good_then_plain dest: connect_message_ok)

lemma accept_handled: "syscall_accept sys syscall args s = Done (Inr s') \<Longrightarrow> handled sys syscall s s'"
  unfolding syscall_accept_def
  by (auto simp: handler_simps split: prod.splits elim!: fd_call_ok intro: made_handled dest: run_syscall_accept_calls)

lemma pipe_handled: "syscall_pipe sys syscall args s = Done (Inr s') \<Longrightarrow> handled sys syscall s s'"
  unfolding syscall_pipe_def
  by (auto simp: handler_simps split: prod.splits if_splits dest!: make_call_ok(1) intro: made_handled
      dest: run_syscall_new_calls)

lemma run_handler_good:
  assumes "run_handler cap_ok sys syscall s = Done (Inr s')"
  shows "handled sys syscall s s' \<and> (sys_name syscall \<notin> {''accept'', ''pipe''} \<and> fds_ok s \<longrightarrow> fds_ok s')"
proof -
  obtain h args where h: "map_of (system_call_table cap_ok) (sys_name syscall) = Some h" "h sys syscall args s = Done (Inr s')"
    using assms by (auto simp: run_handler_def handler_simps split: option.splits)
  from map_of_SomeD [OF h(1)] have "(sys_name syscall, h) \<in> set (system_call_table cap_ok)" .
  then consider "good_step sys syscall s s'" | "handled sys syscall s s'" "sys_name syscall \<in> {''accept'', ''pipe''}"
    using h(2) unfolding system_call_table_def
    by (auto dest: receive_good send_good control_good poll_good splice_good socket_good epoll_create_good open_good
        close_good listen_good connect_good sendto_good sendmsg_good accept_handled pipe_handled)
  then show ?thesis by cases (auto simp: good_step_def)
qed

text \<open>A blocking call that was not begun.\<close>

lemma end_syscall_not_begun:
  "is_blocking_syscall syscall \<Longrightarrow> in_syscalls s \<noteq> SYSCALL_RUNNING \<Longrightarrow> end_syscall sys syscall mode ans s = Die"
  by (simp add: end_syscall_def finish_blocking_def now_usecs_def)

text \<open>The state of the thread around the other blocking calls.\<close>

lemma make_call_thread:
  assumes "make_call sys syscall mode call s = Done (Inr (ans, s'))" "is_blocking_syscall syscall"
  shows "in_syscalls s = SYSCALL_ENQUEUED" "in_syscalls s' = SYSCALL_DONE"
    "in_live_end_usecs s' = w_clock (sy_world sys) (st_reads (in_state s))"
  using assms
  by (auto simp: make_call_def begin_syscall_def end_syscall_def finish_blocking_def do_call_def now_usecs_def
      print_syscall_def Let_def handler_simps split: if_splits)

subsection \<open>Properties\<close>


text \<open>A system that answers every call with the same number.\<close>

definition answer_of :: "int \<Rightarrow> sys_answer" where
  "answer_of n = \<lparr>ans_result = n, ans_errno = 0, ans_addr = [], ans_addrlen = 0, ans_flags = 0, ans_control = [],
     ans_optval = [], ans_optlen = 0, ans_revents = [], ans_events = [], ans_fds = (0, 0)\<rparr>"

definition test_system :: "int \<Rightarrow> system" where
  "test_system n = \<lparr>sy_world = test_world, sy_answer = (\<lambda>_ _. answer_of n), sy_strerror = (\<lambda>_. []), sy_symbols = []\<rparr>"

definition test_socket_call :: syscall_spec where
  "test_socket_call = \<lparr>sys_name = ''socket'', sys_arguments = [E_ELLIPSIS, E_WORD ''SOCK_STREAM'', E_WORD ''IPPROTO_TCP''],
     sys_result = E_INTEGER 5, sys_errno_macro = None, end_usecs = -1\<rparr>"

definition test_cap :: "int \<Rightarrow> int \<Rightarrow> int \<Rightarrow> bool" where "test_cap a b c \<longleftrightarrow> True"

text \<open>The new socket.\<close>

definition test_new_socket :: socket where
  "test_new_socket = socket_new\<lparr>sk_state := SOCKET_NEW, sk_address_family := AF_UNSPEC, sk_protocol := 6,
     sk_script_fd := 5, sk_live_fd := 10\<rparr>"

lemma check_test_fds: "check_duplicate_fd test_fds 5 10 = Done (Inr ())"
  using check_duplicate_fd_map [of test_fds 5 10] test_fds_ok by (auto simp: ran_def split: if_splits)

lemma check_duplicate_fd_cong:
  "in_fds s' = in_fds s \<Longrightarrow> in_state s' = in_state s \<Longrightarrow> check_duplicate_fd s' n l = check_duplicate_fd s n l"
proof -
  assume s: "in_fds s' = in_fds s" "in_state s' = in_state s"
  have "to_fd s' fd = to_fd s fd" for fd using s(2) by (cases fd) simp_all
  then have "find_fd s' p fds i = find_fd s p fds i" for p fds i by (induction fds arbitrary: i) (simp_all add: Let_def)
  then have f: "find_by_script_fd s' n = find_by_script_fd s n" "find_by_live_fd s' l = find_by_live_fd s l"
    by (simp_all add: find_by_script_fd_def find_by_live_fd_def s(1))
  show ?thesis unfolding check_duplicate_fd_def f ..
qed

lemma s32_small: "- 2147483648 \<le> n \<Longrightarrow> n < 2147483648 \<Longrightarrow> s32 n = n"
  by (simp add: s32_def signed_of_int signed_take_bit_int_eq_self)

lemma test_socket_handled:
  "run_handler test_cap (test_system 10) test_socket_call test_fds =
    Done (Inr (add_socket_fd test_new_socket 1 (test_fds\<lparr>in_calls := [SYS_SOCKET AF_UNSPEC 1 6]\<rparr>)))"
proof -
  have n: "is_blocking_syscall test_socket_call = False" 
    by (simp add: is_blocking_syscall_def test_socket_call_def SYSCALL_NON_BLOCKING_def)
  have c: "verbose (st_config (in_state test_fds)) = False" "socket_domain (st_config (in_state test_fds)) = AF_UNSPEC"
    "in_calls test_fds = []"
    by (simp_all add: test_fds_def epoll_new_def state_add_fd_def add_socket_fd_def add_socket_def empty_interp_def
        test_state_def set_default_config_def)
  have d: "check_duplicate_fd (test_fds\<lparr>in_calls := x\<rparr>) 5 10 = Done (Inr ())" for x
    using check_test_fds check_duplicate_fd_cong [of "test_fds\<lparr>in_calls := x\<rparr>" test_fds 5 10] by simp
  have a: "evaluate_expression_list [] (sys_arguments test_socket_call) = Done (Inr [E_ELLIPSIS, E_INTEGER 1, E_INTEGER 6])"
    by (simp add: test_socket_call_def symbol_to_int_def cross_platform_symbols_def)
  have r: "sys_result test_socket_call = E_INTEGER 5" "sys_errno_macro test_socket_call = None"
    "sys_name test_socket_call = ''socket''"
    by (simp_all add: test_socket_call_def)
  have m: "map_of (system_call_table test_cap) ''socket'' = Some syscall_socket" by (simp add: system_call_table_def)
  have y: "sy_symbols (test_system 10) = []" "sy_answer (test_system 10) i call = answer_of 10" for i call
    by (simp_all add: test_system_def)
  have call: "make_call (test_system 10) test_socket_call CHECK_FD call test_fds =
      Done (Inr (answer_of 10, test_fds\<lparr>in_calls := [call]\<rparr>))" for call
    by (simp add: make_call_def begin_syscall_def n do_call_def c y end_syscall_def finish_blocking_def print_syscall_def
        check_result_def check_errno_def r get_s32_def check_type_def s32_small answer_of_def)
  have h: "syscall_socket (test_system 10) test_socket_call [E_ELLIPSIS, E_INTEGER 1, E_INTEGER 6] test_fds =
    Done (Inr (add_socket_fd test_new_socket 1 (test_fds\<lparr>in_calls := [SYS_SOCKET AF_UNSPEC 1 6]\<rparr>)))"
    by (simp add: syscall_socket_def check_arg_count_def get_arg_count_def ellipsis_arg_def s32_arg_def need_arg_def
        get_arg_def check_type_def get_s32_def s32_small c fd_call_def call r run_syscall_socket_def d u32_of_def
        test_new_socket_def) (simp add: answer_of_def d)
  show ?thesis by (simp add: run_handler_def r(3) m a y(1) h)
qed




text \<open>A blocking \<^verbatim>\<open>splice\<close> never returns: its handler does not begin the call, so the thread still holds the lock
  that the end of the call takes.\<close>
theorem blocking_splice_stuck:
  assumes "is_blocking_syscall syscall" "in_syscalls s = SYSCALL_ENQUEUED"
  shows "syscall_splice sys syscall args s \<noteq> Done (Inr s')"
proof -
  have "end_syscall sys syscall mode ans (s\<lparr>in_calls := cs\<rparr>) = Die" for mode ans cs
    by (rule end_syscall_not_begun) (use assms in simp_all)
  then show ?thesis
    by (auto simp: syscall_splice_def handler_simps do_call_def split: prod.splits)
qed

text \<open>A blocking call of a thread that has just taken it.\<close>

definition blocking_call :: syscall_spec where
  "blocking_call = test_socket_call\<lparr>end_usecs := 100\<rparr>"

lemma blocking_splice_stuck_witness:
  "\<nexists>s'. syscall_splice (test_system 10) blocking_call [] (test_fds\<lparr>in_syscalls := SYSCALL_ENQUEUED\<rparr>) = Done (Inr s')"
proof -
  have "is_blocking_syscall blocking_call" "in_syscalls (test_fds\<lparr>in_syscalls := SYSCALL_ENQUEUED\<rparr>) = SYSCALL_ENQUEUED"
    by (simp_all add: is_blocking_syscall_def blocking_call_def SYSCALL_NON_BLOCKING_def)
  then show ?thesis by (blast dest: blocking_splice_stuck)
qed

end
