(* ===== verification/Code.thy ===== *)
theory Code
  imports Syscall
begin

section \<open>Commands and code\<close>

text \<open>
  The model of \<^verbatim>\<open>system.c\<close>, which runs a shell command, and of \<^verbatim>\<open>code.c\<close> with \<^verbatim>\<open>code.h\<close>, which collects the code of
  a script together with what the system knows about the socket under test, writes them as a Python program
  at the end of the script and runs it. The structures that the kernel fills in (\<^verbatim>\<open>struct _tcp_info\<close> and its
  kind in \<^verbatim>\<open>tcp.h\<close>) are bytes; their members are placed by the rules of the C compiler. The platform is Linux.
  A command is answered by its wait status; the file is the text written to it.
\<close>

subsection \<open>Shell commands\<close>

text \<open>The answers of the outside world: \<open>-1\<close> when \<^verbatim>\<open>system\<close> fails, the wait status otherwise; the texts for an
  error and a signal; the name of a new temporary file, \<open>None\<close> when it cannot be made; whether it can be deleted.\<close>

record shell =
  sh_system :: "nat \<Rightarrow> string \<Rightarrow> int"
  sh_strerror :: string
  sh_strsignal :: "int \<Rightarrow> string"
  sh_mkstemp :: "string option"
  sh_unlink_ok :: bool

text \<open>The commands that ran, and the macros of \<^verbatim>\<open>sys/wait.h\<close>.\<close>

definition system_cmd :: "shell \<Rightarrow> string \<Rightarrow> string list \<Rightarrow> int \<times> string list" where
  "system_cmd sh command hist = (sh_system sh (length hist) command, hist @ [command])"

definition WTERMSIG :: "int \<Rightarrow> int" where "WTERMSIG st = st mod 128"
definition WIFSIGNALED :: "int \<Rightarrow> bool" where "WIFSIGNALED st \<longleftrightarrow> WTERMSIG st \<noteq> 0 \<and> WTERMSIG st \<noteq> 127"
definition WEXITSTATUS :: "int \<Rightarrow> int" where "WEXITSTATUS st = st div 256 mod 256"

definition SIGINT :: int where "SIGINT = 2"
definition SIGQUIT :: int where "SIGQUIT = 3"

text \<open>\<open>None\<close> is \<^verbatim>\<open>STATUS_OK\<close>, otherwise the error message.\<close>

definition safe_system :: "shell \<Rightarrow> string \<Rightarrow> string list \<Rightarrow> string option \<times> string list" where
  "safe_system sh command hist =
     (let (st, hist) = system_cmd sh command hist in
      if st = -1 then (Some (sh_strerror sh), hist)
      else if WIFSIGNALED st \<and> (WTERMSIG st = SIGINT \<or> WTERMSIG st = SIGQUIT)
      then (Some (''got signal '' @ dec_int (WTERMSIG st) @ '' ('' @ sh_strsignal sh (WTERMSIG st) @ '')''), hist)
      else if WEXITSTATUS st \<noteq> 0 then (Some (''non-zero status '' @ dec_int (WEXITSTATUS st)), hist)
      else (None, hist))"

subsection \<open>Structures of the kernel\<close>

text \<open>A member of a structure, and where it is: the first byte, the number of bytes to load, the lowest bit and the
  number of bits.\<close>

datatype member = U8 | U16 | U32 | U64 | BITS nat

record field =
  f_at :: nat
  f_bytes :: nat
  f_shift :: nat
  f_width :: nat

fun member_size :: "member \<Rightarrow> nat" where
  "member_size U8 = 1"
| "member_size U16 = 2"
| "member_size U32 = 4"
| "member_size U64 = 8"
| "member_size (BITS n) = 1"

definition align_up :: "nat \<Rightarrow> nat \<Rightarrow> nat" where
  "align_up i n = (i + n - 1) div n * n"

text \<open>\<open>i\<close> is the next free byte, \<open>used\<close> the number of bits used in the byte before it when that holds bit fields.\<close>

fun place :: "nat \<Rightarrow> nat \<Rightarrow> (string \<times> member) list \<Rightarrow> (string \<times> field) list" where
  "place i used [] = []"
| "place i used ((name, BITS n) # ms) =
     (if 0 < used \<and> used + n \<le> 8
      then (name, \<lparr>f_at = i - 1, f_bytes = 1, f_shift = used, f_width = n\<rparr>) # place i (used + n) ms
      else (name, \<lparr>f_at = i, f_bytes = 1, f_shift = 0, f_width = n\<rparr>) # place (Suc i) n ms)"
| "place i used ((name, m) # ms) =
     (let n = member_size m; at = align_up i n in
      (name, \<lparr>f_at = at, f_bytes = n, f_shift = 0, f_width = 8 * n\<rparr>) # place (at + n) 0 ms)"

definition tcp_info_members :: "(string \<times> member) list" where
  "tcp_info_members =
    [(''tcpi_state'', U8), (''tcpi_ca_state'', U8), (''tcpi_retransmits'', U8), (''tcpi_probes'', U8),
     (''tcpi_backoff'', U8), (''tcpi_options'', U8), (''tcpi_snd_wscale'', BITS 4), (''tcpi_rcv_wscale'', BITS 4),
     (''tcpi_delivery_rate_app_limited'', BITS 1), (''tcpi_rto'', U32), (''tcpi_ato'', U32), (''tcpi_snd_mss'', U32),
     (''tcpi_rcv_mss'', U32), (''tcpi_unacked'', U32), (''tcpi_sacked'', U32), (''tcpi_lost'', U32),
     (''tcpi_retrans'', U32), (''tcpi_fackets'', U32), (''tcpi_last_data_sent'', U32), (''tcpi_last_ack_sent'', U32),
     (''tcpi_last_data_recv'', U32), (''tcpi_last_ack_recv'', U32), (''tcpi_pmtu'', U32),
     (''tcpi_rcv_ssthresh'', U32), (''tcpi_rtt'', U32), (''tcpi_rttvar'', U32), (''tcpi_snd_ssthresh'', U32),
     (''tcpi_snd_cwnd'', U32), (''tcpi_advmss'', U32), (''tcpi_reordering'', U32), (''tcpi_rcv_rtt'', U32),
     (''tcpi_rcv_space'', U32), (''tcpi_total_retrans'', U32), (''tcpi_pacing_rate'', U64),
     (''tcpi_max_pacing_rate'', U64), (''tcpi_bytes_acked'', U64), (''tcpi_bytes_received'', U64),
     (''tcpi_segs_out'', U32), (''tcpi_segs_in'', U32), (''tcpi_notsent_bytes'', U32), (''tcpi_min_rtt'', U32),
     (''tcpi_data_segs_in'', U32), (''tcpi_data_segs_out'', U32), (''tcpi_delivery_rate'', U64),
     (''tcpi_busy_time'', U64), (''tcpi_rwnd_limited'', U64), (''tcpi_sndbuf_limited'', U64)]"

definition tcp_info_size :: nat where "tcp_info_size = 192"

definition tcpvegas_info_members :: "(string \<times> member) list" where
  "tcpvegas_info_members = [(''tcpv_enabled'', U32), (''tcpv_rttcnt'', U32), (''tcpv_rtt'', U32), (''tcpv_minrtt'', U32)]"

definition tcp_dctcp_info_members :: "(string \<times> member) list" where
  "tcp_dctcp_info_members = [(''dctcp_enabled'', U16), (''dctcp_ce_state'', U16), (''dctcp_alpha'', U32),
     (''dctcp_ab_ecn'', U32), (''dctcp_ab_tot'', U32)]"

definition tcp_bbr_info_members :: "(string \<times> member) list" where
  "tcp_bbr_info_members = [(''bbr_bw_lo'', U32), (''bbr_bw_hi'', U32), (''bbr_min_rtt'', U32),
     (''bbr_pacing_gain'', U32), (''bbr_cwnd_gain'', U32)]"

text \<open>The union of the three has the size of its largest member.\<close>

definition tcp_cc_info_size :: nat where "tcp_cc_info_size = 20"

definition SK_MEMINFO_VARS :: nat where "SK_MEMINFO_VARS = 9"

text \<open>The value of a member of the structure in a buffer.\<close>

definition load_field :: "bytes \<Rightarrow> field \<Rightarrow> nat run" where
  "load_field buf f = rbind (ld_le (f_bytes f) buf (f_at f)) (\<lambda>v. Done (v div 2 ^ f_shift f mod 2 ^ f_width f))"

definition load_member :: "(string \<times> member) list \<Rightarrow> bytes \<Rightarrow> string \<Rightarrow> nat run" where
  "load_member ms buf name = (case map_of (place 0 0 ms) name of None \<Rightarrow> Oob | Some f \<Rightarrow> load_field buf f)"

subsection \<open>State\<close>

datatype code_format_t = FORMAT_NONE | FORMAT_PYTHON

datatype code_data_t = DATA_NONE | DATA_TCP_INFO | DATA_TCP_CC_INFO | DATA_SO_MEMINFO

record code_text =
  tx_text :: string
  tx_file_name :: string
  tx_line_number :: int

record code_data =
  da_buffer :: bytes
  da_type :: code_data_t
  da_len :: int

datatype code_fragment = FRAGMENT_TEXT code_text | FRAGMENT_DATA code_data

record code_state =
  cs_verbose :: bool
  cs_format :: code_format_t
  cs_data_type :: code_data_t
  cs_command_line :: string
  cs_path :: "string option"
  cs_file :: string
  cs_list :: "code_fragment list"

definition code_new :: "config \<Rightarrow> code_state run" where
  "code_new config =
     (if code_format config = ''python''
      then rbind (if code_sockopt config = [] then Done DATA_NONE
          else if code_sockopt config = ''TCP_INFO'' then Done DATA_TCP_INFO
          else if code_sockopt config = ''TCP_CC_INFO'' then Done DATA_TCP_CC_INFO
          else if code_sockopt config = ''SO_MEMINFO'' then Done DATA_SO_MEMINFO
          else Die) (\<lambda>data_type.
        Done \<lparr>cs_verbose = verbose config, cs_format = FORMAT_PYTHON, cs_data_type = data_type,
          cs_command_line = code_command_line config, cs_path = None, cs_file = [], cs_list = []\<rparr>)
      else Die)"

definition append_fragment :: "code_fragment \<Rightarrow> code_state \<Rightarrow> code_state" where
  "append_fragment fragment code = code\<lparr>cs_list := cs_list code @ [fragment]\<rparr>"

definition append_text :: "string \<Rightarrow> int \<Rightarrow> string \<Rightarrow> code_state \<Rightarrow> code_state" where
  "append_text file_name line text_buffer code =
     append_fragment (FRAGMENT_TEXT \<lparr>tx_text = text_buffer, tx_file_name = file_name, tx_line_number = line\<rparr>) code"

definition append_data :: "code_data_t \<Rightarrow> bytes \<Rightarrow> int \<Rightarrow> code_state \<Rightarrow> code_state" where
  "append_data data_type data_buffer data_len code =
     append_fragment (FRAGMENT_DATA \<lparr>da_buffer = data_buffer, da_type = data_type, da_len = data_len\<rparr>) code"

subsection \<open>The program\<close>

definition newline :: string where "newline = [CHR 0x0A]"

definition fprintf :: "string \<Rightarrow> code_state \<Rightarrow> code_state" where
  "fprintf s code = code\<lparr>cs_file := cs_file code @ s\<rparr>"

definition python_preamble :: string where
  "python_preamble = concat (map (\<lambda>l. l @ newline)
     [''import sys'', ''import traceback'', ''def excepthook(etype, value, tb):'',
      ''  sys.stderr.write('' @ [CHR 0x22] @ ''%s:%d: error in Python code'' @ [CHR 0x5C] @ ''n'' @ [CHR 0x22] @ '' %'',
      ''                   (_file, _line))'', ''  traceback.print_exception(etype, value, tb)'', [],
      ''sys.excepthook = excepthook'', []])"

definition write_preamble :: "code_state \<Rightarrow> code_state run" where
  "write_preamble code = check (cs_format code \<noteq> FORMAT_NONE) (Done (fprintf (python_preamble @ newline) code))"

definition emit_var :: "string \<Rightarrow> nat \<Rightarrow> code_state \<Rightarrow> code_state run" where
  "emit_var name v code = check (cs_format code \<noteq> FORMAT_NONE) (Done (fprintf (name @ '' = '' @ dec v @ newline) code))"

definition emit_var_end :: "code_state \<Rightarrow> code_state" where
  "emit_var_end code = fprintf newline code"

text \<open>Variables with given values, and variables with the values of members.\<close>

fun emit_values :: "(string \<times> nat) list \<Rightarrow> code_state \<Rightarrow> code_state run" where
  "emit_values [] code = Done code"
| "emit_values ((name, v) # vs) code = rbind (emit_var name v code) (emit_values vs)"

fun emit_members :: "(string \<times> member) list \<Rightarrow> bytes \<Rightarrow> (string \<times> string) list \<Rightarrow> code_state \<Rightarrow> code_state run" where
  "emit_members ms buf [] code = Done code"
| "emit_members ms buf ((name, m) # vs) code =
     rbind (load_member ms buf m) (\<lambda>v. rbind (emit_var name v code) (emit_members ms buf vs))"

definition tcp_symbols :: "(string \<times> nat) list" where
  "tcp_symbols =
    [(''TCP_ESTABLISHED'', 1), (''TCP_SYN_SENT'', 2), (''TCP_SYN_RECV'', 3), (''TCP_FIN_WAIT1'', 4),
     (''TCP_FIN_WAIT2'', 5), (''TCP_TIME_WAIT'', 6), (''TCP_CLOSE'', 7), (''TCP_CLOSE_WAIT'', 8), (''TCP_LAST_ACK'', 9),
     (''TCP_LISTEN'', 10), (''TCP_CLOSING'', 11), (''TCP_CA_Open'', 0), (''TCP_CA_Disorder'', 1), (''TCP_CA_CWR'', 2),
     (''TCP_CA_Recovery'', 3), (''TCP_CA_Loss'', 4), (''TCPI_OPT_TIMESTAMPS'', 1), (''TCPI_OPT_WSCALE'', 4),
     (''TCPI_OPT_ECN'', 8), (''TCPI_OPT_SYN_DATA'', 32)]"

definition write_symbols :: "code_state \<Rightarrow> code_state run" where
  "write_symbols code = emit_values tcp_symbols code"

text \<open>The order in which the members are written is not that of the structure.\<close>

definition tcp_info_order :: "string list" where
  "tcp_info_order =
    [''tcpi_state'', ''tcpi_ca_state'', ''tcpi_retransmits'', ''tcpi_probes'', ''tcpi_backoff'', ''tcpi_options'',
     ''tcpi_snd_wscale'', ''tcpi_rcv_wscale'', ''tcpi_delivery_rate_app_limited'', ''tcpi_rto'', ''tcpi_ato'',
     ''tcpi_snd_mss'', ''tcpi_rcv_mss'', ''tcpi_unacked'', ''tcpi_sacked'', ''tcpi_lost'', ''tcpi_retrans'',
     ''tcpi_fackets'', ''tcpi_last_data_sent'', ''tcpi_last_ack_sent'', ''tcpi_last_data_recv'',
     ''tcpi_last_ack_recv'', ''tcpi_pmtu'', ''tcpi_rcv_ssthresh'', ''tcpi_rtt'', ''tcpi_rttvar'',
     ''tcpi_snd_ssthresh'', ''tcpi_snd_cwnd'', ''tcpi_advmss'', ''tcpi_reordering'', ''tcpi_total_retrans'',
     ''tcpi_pacing_rate'', ''tcpi_max_pacing_rate'', ''tcpi_rcv_rtt'', ''tcpi_rcv_space'', ''tcpi_bytes_acked'',
     ''tcpi_bytes_received'', ''tcpi_segs_out'', ''tcpi_segs_in'', ''tcpi_notsent_bytes'', ''tcpi_min_rtt'',
     ''tcpi_data_segs_in'', ''tcpi_data_segs_out'', ''tcpi_delivery_rate'', ''tcpi_busy_time'',
     ''tcpi_rwnd_limited'', ''tcpi_sndbuf_limited'']"

text \<open>A length is compared with the size of a structure as an unsigned number, so a negative one is large.\<close>

definition write_tcp_info :: "bytes \<Rightarrow> int \<Rightarrow> code_state \<Rightarrow> code_state run" where
  "write_tcp_info info len code =
     check (len < 0 \<or> int tcp_info_size \<le> len)
       (rbind (write_symbols code) (\<lambda>code.
        rbind (emit_members tcp_info_members info (map (\<lambda>n. (n, n)) tcp_info_order) code) (\<lambda>code.
        Done (emit_var_end code))))"

definition write_tcp_bbr_cc_info :: "bytes \<Rightarrow> int \<Rightarrow> code_state \<Rightarrow> code_state run" where
  "write_tcp_bbr_cc_info info len code =
     (if 0 \<le> len \<and> len < 20 then Done code
      else
        rbind (emit_members tcp_bbr_info_members info [(''bbr_bw_lo'', ''bbr_bw_lo''), (''bbr_bw_hi'', ''bbr_bw_hi'')] code) (\<lambda>code.
        rbind (load_member tcp_bbr_info_members info ''bbr_bw_hi'') (\<lambda>bw_hi.
        rbind (load_member tcp_bbr_info_members info ''bbr_bw_lo'') (\<lambda>bw_lo.
        rbind (emit_var ''bbr_bw'' (bw_hi * 2 ^ 32 + bw_lo) code) (\<lambda>code.
        emit_members tcp_bbr_info_members info [(''bbr_min_rtt'', ''bbr_min_rtt''), (''bbr_pacing_gain'', ''bbr_pacing_gain''),
          (''bbr_cwnd_gain'', ''bbr_cwnd_gain'')] code)))))"

definition write_tcp_dctcp_cc_info :: "bytes \<Rightarrow> int \<Rightarrow> code_state \<Rightarrow> code_state run" where
  "write_tcp_dctcp_cc_info info len code =
     (if 0 \<le> len \<and> len < 16 then Done code
      else emit_members tcp_dctcp_info_members info
        [(''dctcp_enabled'', ''dctcp_enabled''), (''dctcp_ce_state'', ''dctcp_ce_state''), (''dctcp_alpha'', ''dctcp_alpha''),
         (''dctcp_ab_ecn'', ''dctcp_ab_ecn''), (''dctcp_ab_tot'', ''dctcp_ab_tot'')] code)"

definition write_tcp_vegas_cc_info :: "bytes \<Rightarrow> int \<Rightarrow> code_state \<Rightarrow> code_state run" where
  "write_tcp_vegas_cc_info info len code =
     (if 0 \<le> len \<and> len < 16 then Done code
      else emit_members tcpvegas_info_members info
        [(''tcpv_enabled'', ''tcpv_enabled''), (''tcpv_rttcnt'', ''tcpv_rttcnt''), (''tcp_rtt'', ''tcpv_rtt''),
         (''tcp_minrtt'', ''tcpv_minrtt'')] code)"

definition write_tcp_cc_info :: "bytes \<Rightarrow> int \<Rightarrow> code_state \<Rightarrow> code_state run" where
  "write_tcp_cc_info info len code =
     rbind (write_tcp_bbr_cc_info info len code) (\<lambda>code.
     rbind (write_tcp_dctcp_cc_info info len code) (\<lambda>code.
     rbind (write_tcp_vegas_cc_info info len code) (\<lambda>code.
     Done (emit_var_end code))))"

text \<open>An array of nine numbers.\<close>

definition mem_info_members :: "(string \<times> member) list" where
  "mem_info_members = map (\<lambda>n. (n, U32))
     [''SK_MEMINFO_RMEM_ALLOC'', ''SK_MEMINFO_RCVBUF'', ''SK_MEMINFO_WMEM_ALLOC'', ''SK_MEMINFO_SNDBUF'',
      ''SK_MEMINFO_FWD_ALLOC'', ''SK_MEMINFO_WMEM_QUEUED'', ''SK_MEMINFO_OPTMEM'', ''SK_MEMINFO_BACKLOG'',
      ''SK_MEMINFO_DROPS'']"

definition write_so_meminfo :: "bytes \<Rightarrow> int \<Rightarrow> code_state \<Rightarrow> code_state run" where
  "write_so_meminfo mem_info len code =
     check (len < 0 \<or> int (4 * SK_MEMINFO_VARS) \<le> len)
       (rbind (emit_members mem_info_members mem_info (map (\<lambda>(n, _). (n, n)) mem_info_members) code) (\<lambda>code.
        Done (emit_var_end code)))"

definition write_text :: "code_text \<Rightarrow> code_state \<Rightarrow> code_state run" where
  "write_text text code = check (cs_format code \<noteq> FORMAT_NONE)
     (Done (fprintf (''_file = '' @ [CHR 0x27] @ tx_file_name text @ [CHR 0x27] @ newline @
       ''_line = '' @ dec_int (tx_line_number text) @ newline @ tx_text text @ newline @ newline) code))"

definition write_data :: "code_data \<Rightarrow> code_state \<Rightarrow> code_state run" where
  "write_data data code = (case da_type data of
     DATA_NONE \<Rightarrow> Die
   | DATA_TCP_INFO \<Rightarrow> write_tcp_info (da_buffer data) (da_len data) code
   | DATA_TCP_CC_INFO \<Rightarrow> write_tcp_cc_info (da_buffer data) (da_len data) code
   | DATA_SO_MEMINFO \<Rightarrow> write_so_meminfo (da_buffer data) (da_len data) code)"

fun write_fragment :: "code_fragment \<Rightarrow> code_state \<Rightarrow> code_state run" where
  "write_fragment (FRAGMENT_TEXT text) code = write_text text code"
| "write_fragment (FRAGMENT_DATA data) code = write_data data code"

fun write_fragments :: "code_fragment list \<Rightarrow> code_state \<Rightarrow> code_state run" where
  "write_fragments [] code = Done code"
| "write_fragments (f # fs) code = rbind (write_fragment f code) (write_fragments fs)"

definition write_all_fragments :: "code_state \<Rightarrow> code_state run" where
  "write_all_fragments code = write_fragments (cs_list code) code"

subsection \<open>Running the program\<close>

text \<open>The file is closed without an error.\<close>

definition write_code_file :: "shell \<Rightarrow> code_state \<Rightarrow> code_state run" where
  "write_code_file sh code = (case sh_mkstemp sh of
     None \<Rightarrow> Die
   | Some path \<Rightarrow> check (cs_path code = None)
       (rbind (write_preamble (code\<lparr>cs_path := Some path, cs_file := []\<rparr>)) write_all_fragments))"

definition execute_code_command_line :: "shell \<Rightarrow> code_state \<Rightarrow> string list \<Rightarrow> string option \<times> string list" where
  "execute_code_command_line sh code hist =
     (let path = (case cs_path code of None \<Rightarrow> ''(null)'' | Some p \<Rightarrow> p);
          hist = (if cs_verbose code then snd (system_cmd sh (''cat '' @ path) hist) else hist);
          quoted = [CHR 0x27] @ cs_command_line code @ [CHR 0x27];
          (st, hist) = system_cmd sh (cs_command_line code @ '' '' @ path) hist in
      if st = -1 then (Some (''error running '' @ quoted @ '' with system(3): '' @ sh_strerror sh), hist)
      else if WIFSIGNALED st \<and> (WTERMSIG st = SIGINT \<or> WTERMSIG st = SIGQUIT)
      then (Some (quoted @ '' got signal '' @ dec_int (WTERMSIG st) @ '' ('' @ sh_strsignal sh (WTERMSIG st) @ '')''), hist)
      else if WEXITSTATUS st \<noteq> 0
      then (Some (quoted @ '' returned non-zero status '' @ dec_int (WEXITSTATUS st)), hist)
      else (None, hist))"

definition delete_code_file :: "shell \<Rightarrow> code_state \<Rightarrow> unit run" where
  "delete_code_file sh code = check (cs_path code = None \<or> sh_unlink_ok sh) (Done ())"

text \<open>The error message, the state with the text of the file, and the commands.\<close>

definition code_execute :: "shell \<Rightarrow> code_state \<Rightarrow> string list \<Rightarrow> (string option \<times> code_state \<times> string list) run" where
  "code_execute sh code hist =
     (if cs_list code = [] then Done (None, code, hist)
      else rbind (write_code_file sh code) (\<lambda>code.
        case execute_code_command_line sh code hist of (result, hist) \<Rightarrow>
        rbind (delete_code_file sh code) (\<lambda>_. Done (result, code, hist))))"

subsection \<open>Code events\<close>

definition SOL_TCP :: int where "SOL_TCP = 6"
definition TCP_INFO :: int where "TCP_INFO = 11"
definition TCP_CC_INFO :: int where "TCP_CC_INFO = 26"
definition SO_MEMINFO :: int where "SO_MEMINFO = 55"

fun data_option :: "code_data_t \<Rightarrow> (int \<times> int \<times> nat) run" where
  "data_option DATA_NONE = Die"
| "data_option DATA_TCP_INFO = Done (SOL_TCP, TCP_INFO, tcp_info_size)"
| "data_option DATA_TCP_CC_INFO = Done (SOL_TCP, TCP_CC_INFO, tcp_cc_info_size)"
| "data_option DATA_SO_MEMINFO = Done (1, SO_MEMINFO, 4 * SK_MEMINFO_VARS)"

text \<open>\<open>None\<close> is a null pointer: the system does not know the option.\<close>

definition get_data :: "system \<Rightarrow> int \<Rightarrow> code_data_t \<Rightarrow> interp \<Rightarrow> ((bytes \<times> int) option \<times> interp) run" where
  "get_data sys fd data_type s =
     rbind (data_option data_type) (\<lambda>(level, opt_name, data_len).
     case do_call sys (SYS_GETSOCKOPT fd level opt_name (int data_len)) s of (ans, s) \<Rightarrow>
     if ans_result ans < 0 then Done (None, s)
     else rbind (store (replicate data_len 0) 0 (ans_optval ans)) (\<lambda>data.
       Done (Some (data, s32 (int (ans_optlen ans))), s)))"

definition add_data :: "system \<Rightarrow> int \<Rightarrow> code_data_t \<Rightarrow> interp \<times> code_state \<Rightarrow> (interp \<times> code_state) run" where
  "add_data sys fd data_type = (\<lambda>(s, code).
     rbind (get_data sys fd data_type s) (\<lambda>(data, s). case data of
       None \<Rightarrow> Die
     | Some (buf, len) \<Rightarrow> Done (s, append_data data_type buf len (code\<lparr>cs_data_type := data_type\<rparr>))))"

definition run_code_event ::
  "system \<Rightarrow> nat \<Rightarrow> event \<Rightarrow> string \<Rightarrow> interp \<times> code_state \<Rightarrow> (interp \<times> code_state) run option" where
  "run_code_event sys fuel event txt = (\<lambda>(s, code).
     bind_fuel (wait_for_event (sy_world sys) fuel (in_state s)) (\<lambda>st.
     let s = s\<lparr>in_state := st\<rparr> in
     Some (case socket_under_test st of
       None \<Rightarrow> Die
     | Some i \<Rightarrow>
         (let fd = sk_live_fd (st_sockets st ! i) in
          rbind (add_data sys fd DATA_TCP_INFO (s, code)) (\<lambda>r.
          rbind (add_data sys fd DATA_TCP_CC_INFO r) (\<lambda>r.
          rbind (add_data sys fd DATA_SO_MEMINFO r) (\<lambda>(s, code).
          Done (s, append_text (cfg_script_path (st_config st)) (line_number event) txt code))))))))"

subsection \<open>Every member is written\<close>

text \<open>Where the compiler puts the members: side by side, without a gap, up to the size of the structure.\<close>

definition field_in :: "nat \<Rightarrow> field \<Rightarrow> bool" where
  "field_in n f \<longleftrightarrow> f_at f + f_bytes f \<le> n \<and> f_shift f + f_width f \<le> 8 * f_bytes f"

lemma tcp_info_places: "list_all (\<lambda>(n, f). field_in tcp_info_size f) (place 0 0 tcp_info_members)"
  by code_simp

lemma tcp_bbr_places: "list_all (\<lambda>(n, f). field_in 20 f) (place 0 0 tcp_bbr_info_members)"
  by code_simp

lemma tcp_dctcp_places: "list_all (\<lambda>(n, f). field_in 16 f) (place 0 0 tcp_dctcp_info_members)"
  by code_simp

lemma tcpvegas_places: "list_all (\<lambda>(n, f). field_in 16 f) (place 0 0 tcpvegas_info_members)"
  by code_simp

lemma mem_info_places: "list_all (\<lambda>(n, f). field_in 36 f) (place 0 0 mem_info_members)"
  by code_simp

lemma load_field_Done: "field_in n f \<Longrightarrow> n \<le> length buf \<Longrightarrow> \<exists>v. load_field buf f = Done v \<and> v < 2 ^ f_width f"
  by (simp add: load_field_def ld_le_def field_in_def)

lemma fst_place: "map fst (place i used ms) = map fst ms"
  by (induction i used ms rule: place.induct) (auto simp: Let_def)

lemma load_member_Done:
  assumes "list_all (\<lambda>(n, f). field_in k f) (place 0 0 ms)" "k \<le> length buf" "m \<in> set (map fst ms)"
  shows "\<exists>v. load_member ms buf m = Done v"
proof -
  obtain f where f: "map_of (place 0 0 ms) m = Some f"
    using assms(3) by (metis fst_place list.set_map map_of_eq_None_iff not_None_eq)
  then have "(m, f) \<in> set (place 0 0 ms)" by (rule map_of_SomeD)
  then have "field_in k f" using assms(1) by (auto simp: list_all_iff)
  then show ?thesis using f load_field_Done [OF _ assms(2)] by (auto simp: load_member_def)
qed

text \<open>A piece of the program is added to the file, and nothing else changes.\<close>

definition prints :: "(code_state \<Rightarrow> code_state run) \<Rightarrow> string \<Rightarrow> bool" where
  "prints w out \<longleftrightarrow> (\<forall>code. cs_format code = FORMAT_PYTHON \<longrightarrow> w code = Done (fprintf out code))"

lemma fprintf_simps [simp]:
  "cs_format (fprintf s code) = cs_format code" "cs_list (fprintf s code) = cs_list code"
  "cs_path (fprintf s code) = cs_path code" "fprintf t (fprintf s code) = fprintf (s @ t) code"
  "fprintf [] code = code" "cs_file (fprintf s code) = cs_file code @ s"
  "cs_command_line (fprintf s code) = cs_command_line code" "cs_verbose (fprintf s code) = cs_verbose code"
  by (simp_all add: fprintf_def)

lemma prints_emit_values: "prints (emit_values vs) (concat (map (\<lambda>(n, v). n @ '' = '' @ dec v @ newline) vs))"
  unfolding prints_def
proof (induction vs)
  case (Cons v vs)
  then show ?case by (cases v) (auto simp: emit_var_def)
qed simp

lemma prints_emit_members:
  assumes "list_all (\<lambda>(n, f). field_in k f) (place 0 0 ms)" "k \<le> length buf" "set (map snd vs) \<subseteq> set (map fst ms)"
  shows "\<exists>out. prints (emit_members ms buf vs) out"
  using assms(3)
proof (induction vs)
  case Nil
  then show ?case by (auto simp: prints_def intro: exI [of _ "[]"])
next
  case (Cons p vs)
  obtain n m where p: "p = (n, m)" by (cases p)
  obtain out where out: "prints (emit_members ms buf vs) out" using Cons by auto
  obtain v where v: "load_member ms buf m = Done v"
    using load_member_Done [OF assms(1,2), of m] Cons.prems p by auto
  have "prints (emit_members ms buf (p # vs)) (n @ '' = '' @ dec v @ newline @ out)"
    using out v p by (simp add: prints_def emit_var_def)
  then show ?case by blast
qed

lemma prints_then: "prints f out1 \<Longrightarrow> prints g out2 \<Longrightarrow> prints (\<lambda>code. rbind (f code) g) (out1 @ out2)"
  by (simp add: prints_def)

lemma prints_end: "prints (\<lambda>code. Done (emit_var_end code)) newline"
  by (simp add: prints_def emit_var_end_def)

text \<open>A fragment whose buffer has the size of its structure, filled in by a system that knows the structure.\<close>

fun data_ok :: "code_data_t \<Rightarrow> bytes \<Rightarrow> int \<Rightarrow> bool" where
  "data_ok DATA_NONE buf len \<longleftrightarrow> False"
| "data_ok DATA_TCP_INFO buf len \<longleftrightarrow> length buf = tcp_info_size \<and> len = int tcp_info_size"
| "data_ok DATA_TCP_CC_INFO buf len \<longleftrightarrow> length buf = tcp_cc_info_size \<and> 0 \<le> len \<and> len \<le> int tcp_cc_info_size"
| "data_ok DATA_SO_MEMINFO buf len \<longleftrightarrow> length buf = 4 * SK_MEMINFO_VARS \<and> len = int (4 * SK_MEMINFO_VARS)"

fun fragment_ok :: "code_fragment \<Rightarrow> bool" where
  "fragment_ok (FRAGMENT_TEXT text) \<longleftrightarrow> True"
| "fragment_ok (FRAGMENT_DATA data) \<longleftrightarrow> data_ok (da_type data) (da_buffer data) (da_len data)"

lemma order_members: "set tcp_info_order = set (map fst tcp_info_members)"
  by code_simp

lemma order_distinct: "distinct tcp_info_order \<and> distinct (map fst tcp_info_members)"
  by code_simp

lemma prints_tcp_info:
  assumes "length buf = tcp_info_size"
  shows "\<exists>out. prints (write_tcp_info buf (int tcp_info_size)) out"
proof -
  have "set (map snd (map (\<lambda>n. (n, n)) tcp_info_order)) \<subseteq> set (map fst tcp_info_members)"
    using order_members by (simp add: comp_def)
  from prints_emit_members [OF tcp_info_places _ this, of buf]
  obtain out where "prints (emit_members tcp_info_members buf (map (\<lambda>n. (n, n)) tcp_info_order)) out"
    using assms by auto
  then have "prints (\<lambda>code. rbind (emit_values tcp_symbols code) (\<lambda>code. rbind
      (emit_members tcp_info_members buf (map (\<lambda>n. (n, n)) tcp_info_order) code) (\<lambda>code. Done (emit_var_end code))))
    (concat (map (\<lambda>(n, v). n @ '' = '' @ dec v @ newline) tcp_symbols) @ out @ newline)"
    by (intro prints_then prints_emit_values prints_end)
  then show ?thesis unfolding write_tcp_info_def write_symbols_def prints_def by auto
qed

lemma prints_skip: "\<exists>out. prints w out \<Longrightarrow> \<exists>out. prints (\<lambda>code. if b then Done code else w code) out"
  by (cases b) (auto simp: prints_def intro: exI [of _ "[]"])

lemma prints_value:
  assumes "load_member ms buf m = Done v" "prints (f v) out"
  shows "prints (\<lambda>code. rbind (load_member ms buf m) (\<lambda>x. f x code)) out"
  using assms by (simp add: prints_def)

lemma bbr_bandwidth: "''bbr_bw_hi'' \<in> set (map fst tcp_bbr_info_members)" "''bbr_bw_lo'' \<in> set (map fst tcp_bbr_info_members)"
  by (simp_all add: tcp_bbr_info_members_def)

lemma prints_bbr:
  assumes "length buf = tcp_cc_info_size"
  shows "\<exists>out. prints (write_tcp_bbr_cc_info buf len) out"
proof -
  have size: "20 \<le> length buf" using assms by (simp add: tcp_cc_info_size_def)
  note members = prints_emit_members [OF tcp_bbr_places size]
  obtain o1 where o1: "prints (emit_members tcp_bbr_info_members buf [(''bbr_bw_lo'', ''bbr_bw_lo''), (''bbr_bw_hi'', ''bbr_bw_hi'')]) o1"
    using members [of "[(''bbr_bw_lo'', ''bbr_bw_lo''), (''bbr_bw_hi'', ''bbr_bw_hi'')]"] by (auto simp: tcp_bbr_info_members_def)
  obtain o2 where o2: "prints (emit_members tcp_bbr_info_members buf [(''bbr_min_rtt'', ''bbr_min_rtt''),
      (''bbr_pacing_gain'', ''bbr_pacing_gain''), (''bbr_cwnd_gain'', ''bbr_cwnd_gain'')]) o2"
    using members [of "[(''bbr_min_rtt'', ''bbr_min_rtt''), (''bbr_pacing_gain'', ''bbr_pacing_gain''), (''bbr_cwnd_gain'', ''bbr_cwnd_gain'')]"]
    by (auto simp: tcp_bbr_info_members_def)
  obtain hi lo where v: "load_member tcp_bbr_info_members buf ''bbr_bw_hi'' = Done hi"
      "load_member tcp_bbr_info_members buf ''bbr_bw_lo'' = Done lo"
    using load_member_Done [OF tcp_bbr_places size] bbr_bandwidth by blast
  have "prints (\<lambda>code. write_tcp_bbr_cc_info buf 20 code) (o1 @ (''bbr_bw'' @ '' = '' @ dec (hi * 2 ^ 32 + lo) @ newline) @ o2)"
    using o1 o2 v by (simp add: prints_def write_tcp_bbr_cc_info_def emit_var_def del: emit_members.simps)
  then have "\<exists>out. prints (\<lambda>code. if 0 \<le> len \<and> len < 20 then Done code else write_tcp_bbr_cc_info buf 20 code) out"
    by (intro prints_skip) blast
  then show ?thesis by (auto simp: prints_def write_tcp_bbr_cc_info_def simp del: emit_members.simps split: if_splits)
qed

lemma prints_dctcp:
  assumes "length buf = tcp_cc_info_size"
  shows "\<exists>out. prints (write_tcp_dctcp_cc_info buf len) out"
  unfolding write_tcp_dctcp_cc_info_def
  by (intro prints_skip prints_emit_members [OF tcp_dctcp_places])
    (use assms in \<open>auto simp: tcp_cc_info_size_def tcp_dctcp_info_members_def\<close>)

lemma prints_vegas:
  assumes "length buf = tcp_cc_info_size"
  shows "\<exists>out. prints (write_tcp_vegas_cc_info buf len) out"
  unfolding write_tcp_vegas_cc_info_def
  by (intro prints_skip prints_emit_members [OF tcpvegas_places])
    (use assms in \<open>auto simp: tcp_cc_info_size_def tcpvegas_info_members_def\<close>)

lemma prints_cc_info:
  assumes "length buf = tcp_cc_info_size"
  shows "\<exists>out. prints (write_tcp_cc_info buf len) out"
proof -
  obtain o1 o2 o3 where "prints (write_tcp_bbr_cc_info buf len) o1" "prints (write_tcp_dctcp_cc_info buf len) o2"
      "prints (write_tcp_vegas_cc_info buf len) o3"
    using prints_bbr [OF assms] prints_dctcp [OF assms] prints_vegas [OF assms] by metis
  then have "prints (\<lambda>code. rbind (write_tcp_bbr_cc_info buf len code) (\<lambda>code. rbind (write_tcp_dctcp_cc_info buf len code)
      (\<lambda>code. rbind (write_tcp_vegas_cc_info buf len code) (\<lambda>code. Done (emit_var_end code))))) (o1 @ o2 @ o3 @ newline)"
    by (intro prints_then prints_end)
  then show ?thesis unfolding write_tcp_cc_info_def by blast
qed

lemma prints_meminfo:
  assumes "length buf = 4 * SK_MEMINFO_VARS"
  shows "\<exists>out. prints (write_so_meminfo buf (int (4 * SK_MEMINFO_VARS))) out"
proof -
  have "set (map snd (map (\<lambda>(n, _). (n, n)) mem_info_members)) \<subseteq> set (map fst mem_info_members)"
    by (auto simp: case_prod_beta comp_def)
  from prints_emit_members [OF mem_info_places _ this, of buf]
  obtain out where "prints (emit_members mem_info_members buf (map (\<lambda>(n, _). (n, n)) mem_info_members)) out"
    using assms by (auto simp: SK_MEMINFO_VARS_def)
  then have "prints (\<lambda>code. rbind (emit_members mem_info_members buf (map (\<lambda>(n, _). (n, n)) mem_info_members) code)
      (\<lambda>code. Done (emit_var_end code))) (out @ newline)"
    by (intro prints_then prints_end)
  then show ?thesis unfolding write_so_meminfo_def prints_def by auto
qed

lemma prints_fragment: "fragment_ok f \<Longrightarrow> \<exists>out. prints (write_fragment f) out"
proof (cases f)
  case (FRAGMENT_TEXT t)
  then show ?thesis by (auto simp: prints_def write_text_def)
next
  case (FRAGMENT_DATA data)
  assume ok: "fragment_ok f"
  have "write_fragment f = write_data data" using FRAGMENT_DATA by (simp add: fun_eq_iff)
  then show ?thesis
    using ok FRAGMENT_DATA prints_tcp_info prints_cc_info prints_meminfo unfolding write_data_def
    by (cases "da_type data") auto
qed

lemma write_fragments_prints:
  assumes "list_all fragment_ok fs"
  shows "\<exists>outs. list_all2 (\<lambda>f. prints (write_fragment f)) fs outs \<and> prints (write_fragments fs) (concat outs)"
  using assms
proof (induction fs)
  case Nil
  then show ?case by (auto simp: prints_def)
next
  case (Cons f fs)
  then obtain out outs where "prints (write_fragment f) out" "list_all2 (\<lambda>f. prints (write_fragment f)) fs outs"
      "prints (write_fragments fs) (concat outs)"
    using prints_fragment by fastforce
  then have "list_all2 (\<lambda>f. prints (write_fragment f)) (f # fs) (out # outs) \<and> prints (write_fragments (f # fs)) (concat (out # outs))"
    by (simp add: prints_def)
  then show ?case by blast
qed

subsection \<open>From the events to the program\<close>

text \<open>The state of the module before the program is written.\<close>

definition code_ok :: "code_state \<Rightarrow> bool" where
  "code_ok code \<longleftrightarrow> cs_format code = FORMAT_PYTHON \<and> cs_path code = None \<and> list_all fragment_ok (cs_list code)"

text \<open>A system that writes no more than it is given room for, and knows the two structures of fixed size.\<close>

definition knows_structures :: "system \<Rightarrow> bool" where
  "knows_structures sys \<longleftrightarrow> (\<forall>n fd t level opt len. data_option t = Done (level, opt, len) \<longrightarrow>
     (let ans = sy_answer sys n (SYS_GETSOCKOPT fd level opt (int len)) in
      length (ans_optval ans) \<le> len \<and> ans_optlen ans \<le> len \<and> (t \<noteq> DATA_TCP_CC_INFO \<longrightarrow> ans_optlen ans = len)))"

lemma code_new_ok: "code_new config = Done code \<Longrightarrow> code_ok code \<and> cs_list code = []"
  by (auto simp: code_new_def run_simps code_ok_def split: if_splits)

lemma get_data_ok:
  assumes "knows_structures sys" "get_data sys fd t s = Done (Some (buf, len), s')"
  shows "data_ok t buf len"
proof -
  obtain level opt n where o: "data_option t = Done (level, opt, n)"
    using assms(2) by (auto simp: get_data_def run_simps)
  let ?ans = "sy_answer sys (length (in_calls s)) (SYS_GETSOCKOPT fd level opt (int n))"
  have k: "length (ans_optval ?ans) \<le> n" "ans_optlen ?ans \<le> n" "t \<noteq> DATA_TCP_CC_INFO \<longrightarrow> ans_optlen ?ans = n"
    using assms(1) o unfolding knows_structures_def Let_def by blast+
  have b: "buf = poke (replicate n 0) 0 (ans_optval ?ans)" "len = s32 (int (ans_optlen ?ans))"
    using assms(2) o k(1) by (auto simp: get_data_def do_call_def store_in run_simps split: if_splits)
  have "length buf = n" using b(1) k(1) by simp
  moreover have "n \<le> 192"
    using o by (cases t) (auto simp: tcp_info_size_def tcp_cc_info_size_def SK_MEMINFO_VARS_def)
  then have "len = int (ans_optlen ?ans)" using b(2) k(2) by (simp add: s32_small)
  ultimately show ?thesis using k o by (cases t) auto
qed

lemma add_data_ok:
  assumes "knows_structures sys" "add_data sys fd t (s, code) = Done (s', code')" "code_ok code"
  shows "code_ok code'"
proof -
  obtain buf len where "get_data sys fd t s = Done (Some (buf, len), s')"
      "code' = append_data t buf len (code\<lparr>cs_data_type := t\<rparr>)"
    using assms(2) by (auto simp: add_data_def run_simps split: option.splits)
  then show ?thesis
    using get_data_ok [OF assms(1)] assms(3) by (auto simp: code_ok_def append_data_def append_fragment_def)
qed

lemma run_code_event_Done:
  assumes "run_code_event sys fuel event txt (s, code) = Some (Done (s', code'))"
  obtains st i s1 c1 s2 c2 c3 where
    "wait_for_event (sy_world sys) fuel (in_state s) = Some (Done st)" "socket_under_test st = Some i"
    "add_data sys (sk_live_fd (st_sockets st ! i)) DATA_TCP_INFO (s\<lparr>in_state := st\<rparr>, code) = Done (s1, c1)"
    "add_data sys (sk_live_fd (st_sockets st ! i)) DATA_TCP_CC_INFO (s1, c1) = Done (s2, c2)"
    "add_data sys (sk_live_fd (st_sockets st ! i)) DATA_SO_MEMINFO (s2, c2) = Done (s', c3)"
    "code' = append_text (cfg_script_path (st_config st)) (line_number event) txt c3"
  using assms by (auto simp: run_code_event_def bind_fuel_Done run_simps Let_def split: option.splits)

lemma run_code_event_ok:
  assumes "knows_structures sys" "run_code_event sys fuel event txt (s, code) = Some (Done (s', code'))" "code_ok code"
  shows "code_ok code'"
  using assms(2)
proof (cases rule: run_code_event_Done)
  case (1 st i s1 c1 s2 c2 c3)
  then have "code_ok c3" using add_data_ok [OF assms(1)] assms(3) by blast
  then show ?thesis using 1 by (simp add: code_ok_def append_text_def append_fragment_def)
qed

lemma code_execute_written:
  assumes "code_ok code" "cs_list code \<noteq> []" "sh_mkstemp sh = Some path" "sh_unlink_ok sh"
  shows "\<exists>err code' hist' outs. code_execute sh code hist = Done (err, code', hist') \<and>
    cs_file code' = python_preamble @ newline @ concat outs \<and>
    list_all2 (\<lambda>f. prints (write_fragment f)) (cs_list code) outs \<and>
    last hist' = cs_command_line code @ '' '' @ path"
proof -
  obtain outs where outs: "list_all2 (\<lambda>f. prints (write_fragment f)) (cs_list code) outs"
      "prints (write_fragments (cs_list code)) (concat outs)"
    using write_fragments_prints assms(1) by (auto simp: code_ok_def)
  let ?c = "fprintf (python_preamble @ newline @ concat outs) (code\<lparr>cs_path := Some path, cs_file := []\<rparr>)"
  have "write_code_file sh code = Done ?c"
    using outs(2) assms(1,3)
    by (simp add: write_code_file_def code_ok_def write_preamble_def write_all_fragments_def prints_def)
  moreover obtain err hist' where e: "execute_code_command_line sh ?c hist = (err, hist')" by fastforce
  ultimately have "code_execute sh code hist = Done (err, ?c, hist')"
    using assms(2,4) by (simp add: code_execute_def delete_code_file_def)
  moreover have "last hist' = cs_command_line code @ '' '' @ path"
    using e by (auto simp: execute_code_command_line_def Let_def system_cmd_def split: if_splits)
  ultimately show ?thesis using outs(1) by fastforce
qed

lemma safe_system_None:
  "fst (safe_system sh command hist) = None \<longleftrightarrow>
     (let st = sh_system sh (length hist) command in
      st \<noteq> -1 \<and> WEXITSTATUS st = 0 \<and> WTERMSIG st \<notin> {SIGINT, SIGQUIT})"
  by (auto simp: safe_system_def system_cmd_def Let_def WIFSIGNALED_def SIGINT_def SIGQUIT_def)

subsection \<open>Properties\<close>


text \<open>A system whose options are zeros of the size that is asked for, and a code event on its first socket.\<close>

definition zero_options :: system where
  "zero_options = (test_system 0)\<lparr>sy_answer := (\<lambda>_ call. case call of
     SYS_GETSOCKOPT fd level opt len \<Rightarrow> (answer_of 0)\<lparr>ans_optlen := nat len\<rparr> | _ \<Rightarrow> answer_of 0)\<rparr>"

definition code_interp :: interp where
  "code_interp = add_socket_fd (socket_new\<lparr>sk_script_fd := 3, sk_live_fd := 8\<rparr>) 1
     (empty_interp\<lparr>in_state := test_state\<lparr>st_event := Some 0, num_events := 0\<rparr>\<rparr>)"

definition new_code :: code_state where
  "new_code = \<lparr>cs_verbose = False, cs_format = FORMAT_PYTHON, cs_data_type = DATA_NONE,
     cs_command_line = ''/usr/bin/python'', cs_path = None, cs_file = [], cs_list = []\<rparr>"

definition test_shell :: shell where
  "test_shell = \<lparr>sh_system = (\<lambda>_ _. 0), sh_strerror = [], sh_strsignal = (\<lambda>_. []), sh_mkstemp = Some ''/tmp/code_1'',
     sh_unlink_ok = True\<rparr>"

lemma code_event_runs:
  "\<exists>s' code'. run_code_event zero_options 1 (test_event 0 ABSOLUTE_TIME) ''assert tcpi_state == 1'' (code_interp, new_code)
     = Some (Done (s', code'))"
  by (simp add: run_code_event_def bind_fuel_def code_interp_def add_socket_fd_def state_add_fd_def empty_interp_def
      test_state_def add_socket_def wait_for_event_def current_event_def test_event_def zero_options_def test_system_def
      script_time_to_live_time_usecs_def now_usecs_def test_world_def add_data_def get_data_def do_call_def
      answer_of_def store_def Let_def del: replicate.simps)


text \<open>\<^verbatim>\<open>safe_system\<close> accepts a command exactly when it could be run, the exit status in its wait status is zero, and
  it was not ended by an interrupt or a quit signal. The exit status of a command that a signal ended is zero,
  so one that was killed is accepted.\<close>
theorem safe_system_status:
  "(fst (safe_system sh command hist) = None) = (let st = sh_system sh (length hist) command in
      st \<noteq> -1 \<and> WEXITSTATUS st = 0 \<and> WTERMSIG st \<notin> {SIGINT, SIGQUIT}) \<and>
   (let killed = 9 in WIFSIGNALED killed \<and> fst (safe_system (sh\<lparr>sh_system := (\<lambda>_ _. killed)\<rparr>) command hist) = None)"
  using safe_system_None [of sh command hist] safe_system_None [of "sh\<lparr>sh_system := (\<lambda>_ _. 9)\<rparr>" command hist]
  by (simp add: WIFSIGNALED_def WTERMSIG_def WEXITSTATUS_def SIGINT_def SIGQUIT_def Let_def)

end
