(* ===== verification/RunScript.thy ===== *)
theory RunScript
  imports Code Wire
begin

section \<open>Running a script\<close>

text \<open>
  The model of the main loop of \<^verbatim>\<open>run.c\<close> with \<^verbatim>\<open>run_command.c\<close>, for a local run: the interpreter of the packet
  events, the descriptors, the code and the shell commands put together. The events run on the main thread. A
  blocking system call is run in the schedule in which the system call thread finishes it before the main
  thread looks again; the other schedules are those of the model of the two threads. An error of a script, which
  ends the process, is \<open>Die\<close>.
\<close>

subsection \<open>State\<close>

text \<open>The operating system with the check of capabilities, the shell, and the readings of \<^verbatim>\<open>times\<close>.\<close>

record machine =
  mc_system :: system
  mc_cap_ok :: "int \<Rightarrow> int \<Rightarrow> int \<Rightarrow> bool"
  mc_shell :: shell
  mc_times :: "nat \<Rightarrow> int"

abbreviation mc_world :: "machine \<Rightarrow> world" where
  "mc_world m \<equiv> sy_world (mc_system m)"

record runner =
  rn_interp :: interp
  rn_code :: code_state
  rn_hist :: "string list"

text \<open>A script with its optional commands.\<close>

record script =
  sc_init_command :: "string option"
  sc_events :: "event list"
  sc_cleanup_command :: "string option"

definition rn_state :: "runner \<Rightarrow> state" where
  "rn_state r = in_state (rn_interp r)"

definition set_state :: "state \<Rightarrow> runner \<Rightarrow> runner" where
  "set_state st r = r\<lparr>rn_interp := (rn_interp r)\<lparr>in_state := st\<rparr>\<rparr>"

subsection \<open>Events\<close>

text \<open>The sockets that a packet creates are put in front of the list of descriptors.\<close>

definition new_fds :: "state \<Rightarrow> state \<Rightarrow> fd list" where
  "new_fds st st' = rev (map (\<lambda>i. FD_SOCKET i 0) [length (st_sockets st)..<length (st_sockets st')])"

definition run_local_packet_event :: "machine \<Rightarrow> nat \<Rightarrow> event \<Rightarrow> packet \<Rightarrow> runner \<Rightarrow> runner run option" where
  "run_local_packet_event m fuel event packet r =
     bind_fuel (run_packet_event (mc_world m) fuel (rn_state r) event packet) (\<lambda>(result, error, st).
     Some (if result = STATUS_ERR then Die
       else Done (r\<lparr>rn_interp := (rn_interp r)\<lparr>in_state := st, in_fds := new_fds (rn_state r) st @ in_fds (rn_interp r)\<rparr>\<rparr>)))"

text \<open>What the system call thread does with a call once it took it.\<close>

definition thread_call :: "machine \<Rightarrow> nat \<Rightarrow> event \<Rightarrow> syscall_spec \<Rightarrow> interp \<Rightarrow> interp run option" where
  "thread_call m fuel event syscall s =
     bind_fuel (invoke_system_call (mc_cap_ok m) (mc_system m) fuel syscall (s\<lparr>in_live_end_usecs := -1\<rparr>)) (\<lambda>s.
     Some (check (0 \<le> in_live_end_usecs s)
       (rbind (verify_time (in_state s) (time_type event) (end_usecs syscall) 0 (in_live_end_usecs s) ''system call return'')
         (\<lambda>error. if error \<noteq> None then Die
           else check (in_syscalls s = SYSCALL_DONE) (Done (s\<lparr>in_syscalls := SYSCALL_IDLE, in_live_end_usecs := -1\<rparr>))))))"

definition run_system_call_event :: "machine \<Rightarrow> nat \<Rightarrow> event \<Rightarrow> syscall_spec \<Rightarrow> runner \<Rightarrow> runner run option" where
  "run_system_call_event m fuel event syscall r =
     bind_fuel (if is_blocking_syscall syscall
       then (if in_syscalls (rn_interp r) \<noteq> SYSCALL_IDLE then Some Die
         else thread_call m fuel event syscall ((rn_interp r)\<lparr>in_syscalls := SYSCALL_ENQUEUED\<rparr>))
       else invoke_system_call (mc_cap_ok m) (mc_system m) fuel syscall (rn_interp r)) (\<lambda>s.
     Some (Done (r\<lparr>rn_interp := s\<rparr>)))"

definition run_command_event :: "machine \<Rightarrow> nat \<Rightarrow> string \<Rightarrow> runner \<Rightarrow> runner run option" where
  "run_command_event m fuel command r =
     bind_fuel (wait_for_event (mc_world m) fuel (rn_state r)) (\<lambda>st.
     case safe_system (mc_shell m) command (rn_hist r) of (error, hist) \<Rightarrow>
     Some (if error \<noteq> None then Die else Done ((set_state st r)\<lparr>rn_hist := hist\<rparr>)))"

definition run_event :: "machine \<Rightarrow> nat \<Rightarrow> event \<Rightarrow> runner \<Rightarrow> runner run option" where
  "run_event m fuel event r = (case ev_body event of
     PACKET_EVENT packet \<Rightarrow> run_local_packet_event m fuel event packet r
   | SYSCALL_EVENT syscall \<Rightarrow> run_system_call_event m fuel event syscall r
   | COMMAND_EVENT command \<Rightarrow> run_command_event m fuel command r
   | CODE_EVENT txt \<Rightarrow> bind_fuel (run_code_event (mc_system m) fuel event txt (rn_interp r, rn_code r)) (\<lambda>(s, code).
       Some (Done (r\<lparr>rn_interp := s, rn_code := code\<rparr>)))
   | INVALID_EVENT \<Rightarrow> Some Die)"

subsection \<open>The loop\<close>

text \<open>\<open>n\<close> bounds the rounds; each takes one event, and the last finds the end of the script.\<close>

fun run_events :: "machine \<Rightarrow> nat \<Rightarrow> nat \<Rightarrow> runner \<Rightarrow> runner run option" where
  "run_events m fuel 0 r = None"
| "run_events m fuel (Suc n) r =
     bind_fuel (Some (get_next_event (rn_state r))) (\<lambda>(error, st).
     if error \<noteq> None then Some Die
     else (case st_event st of
       None \<Rightarrow> Some (Done (set_state st r))
     | Some i \<Rightarrow>
         (let st = adjust_relative_event_times (mc_world m) i st in
          bind_fuel (run_event m fuel (st_events st ! i) (set_state st r)) (\<lambda>r.
          run_events m fuel n (set_state ((rn_state r)\<lparr>num_events := Suc (num_events (rn_state r))\<rparr>) r)))))"

subsection \<open>Start and end\<close>

text \<open>The loop over \<^verbatim>\<open>times\<close>: \<open>k\<close> readings were taken, and the last time stands in \<open>start_usecs\<close>.\<close>

definition TARGET_JIFFY_TICKS :: nat where "TARGET_JIFFY_TICKS = 10"
definition JIFFY_OFFSET_USECS :: int where "JIFFY_OFFSET_USECS = 250"

fun jiffy_loop :: "machine \<Rightarrow> nat \<Rightarrow> nat \<Rightarrow> int \<Rightarrow> nat \<Rightarrow> int \<Rightarrow> state \<Rightarrow> (int \<times> state) option" where
  "jiffy_loop m 0 k last_jiffies jiffy_ticks start_usecs st = None"
| "jiffy_loop m (Suc fuel) k last_jiffies jiffy_ticks start_usecs st =
     (if TARGET_JIFFY_TICKS \<le> jiffy_ticks then Some (start_usecs, st)
      else (let jiffies = mc_times m k in
        if jiffies \<noteq> last_jiffies
        then (let (now, st) = now_usecs (mc_world m) st in jiffy_loop m fuel (Suc k) jiffies (Suc jiffy_ticks) now st)
        else jiffy_loop m fuel (Suc k) jiffies jiffy_ticks start_usecs st))"

definition schedule_start_time_usecs :: "machine \<Rightarrow> nat \<Rightarrow> state \<Rightarrow> (int \<times> state) option" where
  "schedule_start_time_usecs m fuel st =
     map_option (\<lambda>(start_usecs, st). (start_usecs + JIFFY_OFFSET_USECS, st)) (jiffy_loop m fuel 1 (mc_times m 0) 0 0 st)"

text \<open>The cleanup command runs when an initial command did.\<close>

definition run_cleanup_command :: "machine \<Rightarrow> script \<Rightarrow> bool \<Rightarrow> string list \<Rightarrow> status \<times> string list" where
  "run_cleanup_command m script init_cmd_exed hist = (case sc_cleanup_command script of
     Some command \<Rightarrow> if init_cmd_exed
       then (case safe_system (mc_shell m) command hist of (error, hist) \<Rightarrow> (if error \<noteq> None then STATUS_ERR else STATUS_OK, hist))
       else (STATUS_OK, hist)
   | None \<Rightarrow> (STATUS_OK, hist))"

definition run_init_command :: "machine \<Rightarrow> script \<Rightarrow> (bool \<times> string list) run" where
  "run_init_command m script = (case sc_init_command script of
     None \<Rightarrow> Done (False, [])
   | Some command \<Rightarrow> (case safe_system (mc_shell m) command [] of (error, hist) \<Rightarrow>
       if error \<noteq> None then Die else Done (True, hist)))"

text \<open>Closing a socket at the end: its descriptor, then its connection.\<close>

definition socket_close :: "system \<Rightarrow> nat \<Rightarrow> interp \<Rightarrow> interp run" where
  "socket_close sys i s =
     (let socket = st_sockets (in_state s) ! i in
      rbind (if 0 \<le> sk_live_fd socket \<and> \<not> sk_is_closed socket
        then check (0 \<le> sk_script_fd socket)
          (case do_call sys (SYS_CLOSE (sk_live_fd socket)) s of (ans, s) \<Rightarrow> if ans_result ans \<noteq> 0 then Die else Done s)
        else Done s) (\<lambda>s.
      if sk_protocol socket = IPPROTO_TCP \<and> ep_port (s_local (sk_live socket)) \<noteq> 0 \<and>
        ep_port (s_remote (sk_live socket)) \<noteq> 0 \<and> \<not> is_wire_client (st_config (in_state s))
      then rbind (reset_connection (sy_world sys) (in_state s) i) (\<lambda>(result, st).
        if result \<noteq> STATUS_OK then Die else Done (s\<lparr>in_state := st\<rparr>))
      else Done s))"

text \<open>Files, pipes and epoll instances are only freed.\<close>

fun close_fds :: "system \<Rightarrow> fd list \<Rightarrow> interp \<Rightarrow> interp run" where
  "close_fds sys [] s = Done s"
| "close_fds sys (FD_SOCKET i ty # fds) s = rbind (socket_close sys i s) (close_fds sys fds)"
| "close_fds sys (fd # fds) s = close_fds sys fds s"

definition close_all_fds :: "system \<Rightarrow> interp \<Rightarrow> interp run" where
  "close_all_fds sys s = close_fds sys (in_fds s) s"

text \<open>Stopping the thread, which must be idle, and closing the descriptors.\<close>

definition state_free :: "system \<Rightarrow> interp \<Rightarrow> interp run" where
  "state_free sys s =
     (if in_syscalls s \<noteq> SYSCALL_IDLE then Die
      else close_all_fds sys (s\<lparr>in_syscalls := SYSCALL_EXITING\<rparr>))"

text \<open>A new state, with the module for code.\<close>

definition runner_new :: "machine \<Rightarrow> config \<Rightarrow> script \<Rightarrow> runner run" where
  "runner_new m config script =
     rbind (code_new config) (\<lambda>code.
     Done \<lparr>rn_interp = \<lparr>in_state = state_new (mc_world m) config (sc_events script), in_fds = [],
       in_syscalls = SYSCALL_IDLE, in_live_end_usecs = 0, in_calls = []\<rparr>, rn_code = code, rn_hist = []\<rparr>)"

definition finish_script :: "machine \<Rightarrow> script \<Rightarrow> bool \<Rightarrow> runner \<Rightarrow> runner run" where
  "finish_script m script init_cmd_exed r =
     (case run_cleanup_command m script init_cmd_exed (rn_hist r) of (status, hist) \<Rightarrow>
      if status = STATUS_ERR then Die
      else rbind (code_execute (mc_shell m) (rn_code r) hist) (\<lambda>(error, code, hist).
        if error \<noteq> None then Die
        else rbind (state_free (mc_system m) (rn_interp r)) (\<lambda>s.
          Done \<lparr>rn_interp = s, rn_code = code, rn_hist = hist\<rparr>)))"

text \<open>The command line of the configuration is that of a local run.\<close>

definition run_script :: "machine \<Rightarrow> nat \<Rightarrow> config \<Rightarrow> script \<Rightarrow> runner run option" where
  "run_script m fuel config script =
     bind_fuel (Some (check (\<not> is_wire_server config) (runner_new m config script))) (\<lambda>r.
     bind_fuel (Some (run_init_command m script)) (\<lambda>(init_cmd_exed, hist).
     case schedule_start_time_usecs m fuel (rn_state r) of None \<Rightarrow> None
     | Some (start_usecs, st) \<Rightarrow>
         bind_fuel (run_events m fuel (Suc (length (sc_events script)))
             ((set_state (st\<lparr>live_start_time_usecs := start_usecs\<rparr>) r)\<lparr>rn_hist := hist\<rparr>)) (\<lambda>r.
         Some (finish_script m script init_cmd_exed r))))"

subsection \<open>Packet events leave the script alone\<close>

text \<open>Every value that a run gives has a property; the same with fuel.\<close>

definition post :: "('a \<Rightarrow> bool) \<Rightarrow> 'a run \<Rightarrow> bool" where
  "post P r \<longleftrightarrow> (\<forall>x. r = Done x \<longrightarrow> P x)"

definition fpost :: "('a \<Rightarrow> bool) \<Rightarrow> 'a run option \<Rightarrow> bool" where
  "fpost P r \<longleftrightarrow> (\<forall>x. r = Some (Done x) \<longrightarrow> P x)"

lemma post_simps [simp]: "post P (Done x) = P x" "post P Oob" "post P Die"
  by (simp_all add: post_def)

lemma fpost_simps [simp]: "fpost P None" "fpost P (Some r) = post P r"
  by (simp_all add: post_def fpost_def)

lemma post_any: "(\<And>x. post P (f x)) \<Longrightarrow> post P (rbind r f)"
  by (auto simp: post_def run_simps)

lemma post_bind: "post Q r \<Longrightarrow> (\<And>x. Q x \<Longrightarrow> post P (f x)) \<Longrightarrow> post P (rbind r f)"
  by (auto simp: post_def run_simps)

lemma post_check: "post P r \<Longrightarrow> post P (check b r)"
  by (cases b) simp_all

lemma post_D: "post P r \<Longrightarrow> r = Done x \<Longrightarrow> P x"
  by (simp add: post_def)

lemma fpost_bind: "fpost Q r \<Longrightarrow> (\<And>x. Q x \<Longrightarrow> fpost P (f x)) \<Longrightarrow> fpost P (bind_fuel r f)"
  by (auto simp: fpost_def bind_fuel_Done)

lemma fpost_D: "fpost P r \<Longrightarrow> r = Some (Done x) \<Longrightarrow> P x"
  by (simp add: fpost_def)

text \<open>The state is at a place of the script.\<close>

type_synonym place = "event list \<times> nat option \<times> nat"

abbreviation at_cursor :: "place \<Rightarrow> 'a \<times> state \<Rightarrow> bool" where
  "at_cursor c \<equiv> \<lambda>(x, st). cursor st = c"

lemma cursor_simps [simp]:
  "cursor (upd_socket i f st) = cursor st" "cursor (st\<lparr>st_rx := n\<rparr>) = cursor st"
  "cursor (st\<lparr>next_ephemeral_port := p\<rparr>) = cursor st" "cursor (st\<lparr>st_ports := n\<rparr>) = cursor st"
  "cursor (st\<lparr>st_reads := n\<rparr>) = cursor st" "cursor (st\<lparr>st_sent := ps\<rparr>) = cursor st"
  "cursor (st\<lparr>st_sleeps := l\<rparr>) = cursor st" "cursor (st\<lparr>live_start_time_usecs := t\<rparr>) = cursor st"
  by (simp_all add: cursor_def upd_socket_def)

lemma wait_loop_cursor: "wait_loop w fuel t st = Some st' \<Longrightarrow> cursor st' = cursor st"
proof (induction fuel arbitrary: st)
  case (Suc fuel)
  then show ?case by (fastforce simp: now_usecs_def Let_def split: if_splits)
qed simp

lemma wait_post: "cursor st = c \<Longrightarrow> fpost (\<lambda>st. cursor st = c) (wait_for_event w fuel st)"
  by (auto simp: wait_for_event_def now_usecs_def Let_def dest!: wait_loop_cursor intro!: post_any
      split: run.split option.split)

lemma now_cursor: "cursor st = c \<Longrightarrow> at_cursor c (now_usecs w st)"
  by (simp add: now_usecs_def)

lemma add_socket_cursor: "add_socket socket st = (i, st') \<Longrightarrow> cursor st' = cursor st"
  by (auto simp: add_socket_def cursor_def)

lemma post_cursor:
  "post (at_cursor c) r \<Longrightarrow> (\<And>x st. cursor st = c \<Longrightarrow> post P (f (x, st))) \<Longrightarrow> post P (rbind r f)"
  by (auto simp: post_def run_simps)

lemma fpost_cursor:
  "fpost (at_cursor c) r \<Longrightarrow> (\<And>x st. cursor st = c \<Longrightarrow> fpost P (f (x, st))) \<Longrightarrow> fpost P (bind_fuel r f)"
  by (auto simp: fpost_def bind_fuel_Done)

lemma take_ephemeral_port_post: "cursor st = c \<Longrightarrow> post (at_cursor c) (take_ephemeral_port w st)"
  by (simp add: take_ephemeral_port_def post_check)

lemma handle_listen_post:
  assumes c: "cursor st = c"
  shows "post (at_cursor c) (handle_listen_for_script_packet w st packet direction)"
proof -
  have "post (at_cursor c) (rbind (take_ephemeral_port w st) (\<lambda>(port, st). rbind (child_socket config packet port)
      (\<lambda>socket. let (i, st) = add_socket socket st in Done (Some i, st))))" for config
    by (rule post_cursor [OF take_ephemeral_port_post [OF c]])
      (auto intro!: post_any dest!: add_socket_cursor split: prod.split)
  then show ?thesis unfolding handle_listen_for_script_packet_def Let_def by (simp add: c)
qed

lemma connect_socket_post:
  "cursor st = c \<Longrightarrow> post (at_cursor c) (case socket_under_test st of Some i \<Rightarrow> Done (i, st)
     | None \<Rightarrow> rbind (connect_socket config packet) (\<lambda>socket. Done (add_socket socket st)))"
  by (auto intro!: post_any dest!: add_socket_cursor split: option.split)

lemma handle_connect_post:
  assumes c: "cursor st = c"
  shows "post (at_cursor c) (handle_connect_for_script_packet st packet direction)"
proof (cases "p_tcp packet")
  case (Some tcp)
  have "post (at_cursor c) (rbind (case socket_under_test st of Some i \<Rightarrow> Done (i, st)
        | None \<Rightarrow> rbind (connect_socket config packet) (\<lambda>socket. Done (add_socket socket st))) (\<lambda>(i, st).
      rbind (get_packet_tuple packet) (\<lambda>tuple. rbind (ld_be32 (p_buffer packet) (tcp + 4)) (\<lambda>seq.
      Done (Some i, upd_socket i (f tuple seq) st)))))" for config f
    by (rule post_cursor [OF connect_socket_post [OF c]]) (auto intro!: post_any)
  then show ?thesis
    unfolding handle_connect_for_script_packet_def Let_def Some option.case by (intro post_any) (simp add: c)
qed (simp add: handle_connect_for_script_packet_def)

lemma find_or_create_post:
  assumes "cursor st = c"
  shows "post (at_cursor c) (find_or_create_socket_for_script_packet w st packet direction)"
proof -
  have "post (at_cursor c) (if p_tcp packet \<noteq> None
       then rbind (handle_listen_for_script_packet w st packet direction) (\<lambda>(socket, st).
         if socket \<noteq> None then Done (socket, st) else handle_connect_for_script_packet st packet direction)
       else Done (None, st))"
    using assms by (auto intro!: post_cursor [OF handle_listen_post] handle_connect_post)
  then show ?thesis
    unfolding find_or_create_socket_for_script_packet_def by (rule post_cursor) (auto intro!: post_any)
qed

lemma find_connect_post: "cursor st = c \<Longrightarrow> post (at_cursor c) (find_connect_for_live_packet st packet)"
  unfolding find_connect_for_live_packet_def Let_def
  by (auto intro!: post_any split: option.split)

lemma found_post:
  assumes c: "cursor st = c"
  shows "post (at_cursor c) (rbind (find_socket_for_live_packet st packet) (\<lambda>found. case found of
      Some (i, DIRECTION_OUTBOUND) \<Rightarrow> Done (Some i, st)
    | _ \<Rightarrow> rbind (find_connect_for_live_packet st packet) (\<lambda>(found, st). Done (map_option fst found, st))))"
  by (rule post_any)
    (auto simp: c intro!: post_cursor [OF find_connect_post [OF c]] split: option.split prod.split direction.split)

lemma sniff_post: "cursor st = c \<Longrightarrow> fpost (at_cursor c) (sniff_outbound_live_packet w fuel i st)"
proof (induction fuel arbitrary: st)
  case (Suc fuel)
  show ?case
  proof (cases "w_receive w (st_rx st)")
    case (Inl e)
    then show ?thesis using Suc.prems by simp
  next
    case (Inr packet)
    have c: "cursor (st\<lparr>st_rx := st_rx st + 1\<rparr>) = c" using Suc.prems by simp
    show ?thesis
      unfolding sniff_outbound_live_packet.simps Inr sum.case Let_def
      by (rule fpost_cursor, simp only: fpost_simps, rule found_post [OF c]) (simp add: Suc.IH split: option.split)
  qed
qed simp

lemma update_post:
  "cursor st = c \<Longrightarrow> post (\<lambda>st. cursor st = c) (if b then rbind r (\<lambda>x. Done (upd_socket i (f x) st)) else Done st)"
  by (auto intro!: post_any)

lemma learn_post:
  assumes c: "cursor st = c"
  shows "post (\<lambda>(p, err, st). cursor st = c) (learn_from_sniffed i packet live_packet st)"
  unfolding learn_from_sniffed_def
  by (rule post_any, rule post_bind [OF update_post [OF c]]) (auto simp: Let_def intro!: post_any split: option.split)

lemma fragments_post: "cursor st = c \<Longrightarrow> fpost (at_cursor c) (sniff_fragments w fuel i packet expected sniffed len st)"
proof (induction fuel arbitrary: sniffed len st)
  case (Suc fuel)
  have step: "post (at_cursor c) (rbind (packet_payload_len live_packet) (\<lambda>live_payload.
           rbind (verbose_packet_dump w st live_packet) (\<lambda>_.
           rbind (learn_from_sniffed i packet live_packet st) (\<lambda>(live_packet, err, st).
           case err of Some e \<Rightarrow> Done (Inl e, st)
           | None \<Rightarrow> rbind (add_fragment sniffed len live_packet live_payload expected) (\<lambda>r.
               Done (r, st))))))" if "cursor st = c" for live_packet st sniffed len
    by (rule post_any, rule post_any, rule post_bind [OF learn_post [OF that]]) (auto intro!: post_any split: option.split)
  show ?case
    unfolding sniff_fragments.simps
  proof (rule fpost_cursor [OF sniff_post [OF Suc.prems]], unfold prod.case, goal_cases)
    case (1 r st1)
    show ?case
    proof (cases r)
      case (Inl e)
      then show ?thesis using 1 by simp
    next
      case (Inr live_packet)
      show ?thesis
        unfolding Inr sum.case
        by (rule fpost_cursor, simp only: fpost_simps, rule step [OF 1]) (simp add: Suc.IH split: sum.split prod.split)
    qed
  qed
qed simp

lemma verify_post:
  assumes c: "cursor st = c"
  shows "post (\<lambda>(r, e, st). cursor st = c) (verify_outbound_live_packet w st i packet live_packet)"
  unfolding verify_outbound_live_packet_def using c by (auto intro!: post_any)

lemma do_outbound_post:
  assumes c: "cursor st = c"
  shows "fpost (\<lambda>(r, e, st). cursor st = c) (do_outbound_script_packet w fuel st packet i)"
proof -
  have start: "post (at_cursor c) (rbind (packet_payload_len packet) (\<lambda>expected. rbind (is_synack packet) (\<lambda>synack.
       rbind (if sk_state (st_sockets st ! i) = SOCKET_PASSIVE_PACKET_RECEIVED \<and> synack
         then rbind (tcp_seq packet) (\<lambda>seq. Done (upd_socket i (f seq) st))
         else Done st) (\<lambda>st. Done (expected, st)))))" for f
    by (rule post_any, rule post_any, rule post_bind [OF update_post [OF c]]) simp
  show ?thesis
    unfolding do_outbound_script_packet_def
  proof (rule fpost_cursor, simp only: fpost_simps, rule start, unfold prod.case, goal_cases)
    case (1 len st1)
    show ?case
      by (rule fpost_cursor [OF fragments_post [OF 1]])
        (auto intro!: post_any verify_post split: sum.split)
  qed
qed

lemma send_post: "cursor st = c \<Longrightarrow> post (at_cursor c) (send_live_ip_packet w st packet)"
  unfolding send_live_ip_packet_def by (auto intro!: post_check post_any)

lemma do_inbound_post:
  assumes c: "cursor st = c"
  shows "post (\<lambda>(r, e, st). cursor st = c) (do_inbound_script_packet w st packet i)"
proof -
  have upd: "post (\<lambda>st. cursor st = c) (case p of None \<Rightarrow> Done st
       | Some tcp \<Rightarrow> rbind (ld_bytes buf tcp 20) (\<lambda>h. rbind len (\<lambda>len. Done (upd_socket i (f h len) st))))"
    if "cursor st = c" for p st buf len f
    using that by (auto intro!: post_any split: option.split)
  have body: "post (\<lambda>(r, e, st). cursor st = c) (rbind (case p_tcp live_packet of None \<Rightarrow> Done st
       | Some tcp \<Rightarrow> rbind (ld_bytes (p_buffer live_packet) tcp 20) (\<lambda>h. rbind (packet_payload_len live_packet) (\<lambda>len.
           Done (upd_socket i (f h len) st))))
      (\<lambda>st. rbind (send_live_ip_packet w st live_packet) (\<lambda>(result, st). Done (result, None, st))))"
    if "cursor st = c" for live_packet st f
    by (rule post_bind [OF upd [OF that]], rule post_cursor [OF send_post]) simp_all
  show ?thesis
    unfolding do_inbound_script_packet_def Let_def now_usecs_def
  proof (rule post_any, rule post_any, rule post_any, goal_cases)
    case (1 socket lp x)
    obtain live_packet err where x: "x = (live_packet, err)" by fastforce
    show ?case
      unfolding x prod.case
      by (cases err) (auto simp: c intro!: post_any [where r = "verbose_packet_dump w _ _"] body)
  qed
qed

lemma run_packet_event_post:
  assumes c: "cursor st = c"
  shows "fpost (\<lambda>(r, e, st). cursor st = c) (run_packet_event w fuel st event packet)"
  unfolding run_packet_event_def Let_def
proof (rule fpost_cursor [where c = c], simp only: fpost_simps, rule post_check, rule find_or_create_post [OF c],
    unfold prod.case, goal_cases)
  case (1 r st1)
  have out: "fpost (\<lambda>(r, e, st). cursor st = c) (bind_fuel (do_outbound_script_packet w fuel st1 packet i) (\<lambda>(result, err, st).
      Some (Done (if result = STATUS_OK then (STATUS_OK, [], st) else (result, f result err st, st)))))" for i f
    by (rule fpost_bind [OF do_outbound_post [OF 1]]) auto
  have inb: "fpost (\<lambda>(r, e, st). cursor st = c) (bind_fuel (wait_for_event w fuel st1) (\<lambda>st.
      Some (rbind (do_inbound_script_packet w st packet i) (\<lambda>(result, err, st).
        Done (if result = STATUS_OK then (STATUS_OK, [], st) else (STATUS_ERR, f err st, st))))))" for i f
    by (rule fpost_bind [OF wait_post [OF 1]], simp only: fpost_simps, rule post_bind [OF do_inbound_post]) auto
  show ?case using 1 out inb by (auto split: sum.split option.split)
qed

subsection \<open>What an event does\<close>

text \<open>The calls of an event when \<open>n\<close> calls were made before, and its commands.\<close>

definition option_call :: "int \<Rightarrow> code_data_t \<Rightarrow> sys_call" where
  "option_call fd t = (case data_option t of Done (level, opt, len) \<Rightarrow> SYS_GETSOCKOPT fd level opt (int len)
     | _ \<Rightarrow> SYS_GETSOCKOPT fd 0 0 0)"

fun event_calls :: "system \<Rightarrow> event_body \<Rightarrow> nat \<Rightarrow> sys_call list \<Rightarrow> bool" where
  "event_calls sys (SYSCALL_EVENT syscall) n calls \<longleftrightarrow>
     (\<exists>call. calls = [call] \<and> answer_matches sys syscall (sy_answer sys n call))"
| "event_calls sys (CODE_EVENT txt) n calls \<longleftrightarrow>
     (\<exists>fd. calls = map (option_call fd) [DATA_TCP_INFO, DATA_TCP_CC_INFO, DATA_SO_MEMINFO])"
| "event_calls sys b n calls \<longleftrightarrow> calls = []"

fun event_commands :: "event_body \<Rightarrow> string list" where
  "event_commands (COMMAND_EVENT command) = [command]"
| "event_commands b = []"

text \<open>An event whose relative times were adjusted is the same but for the end of a blocking call.\<close>

fun timeless :: "event_body \<Rightarrow> event_body" where
  "timeless (SYSCALL_EVENT syscall) = SYSCALL_EVENT (syscall\<lparr>end_usecs := 0\<rparr>)"
| "timeless b = b"

lemma event_calls_timeless: "event_calls sys (timeless b) = event_calls sys b"
  by (cases b) (auto simp: fun_eq_iff answer_matches_def)

lemma event_commands_timeless: "event_commands (timeless b) = event_commands b"
  by (cases b) auto

lemma timeless_same: "timeless a = timeless b \<Longrightarrow> event_calls sys a = event_calls sys b \<and> event_commands a = event_commands b"
  by (metis event_calls_timeless event_commands_timeless)

definition event_done :: "system \<Rightarrow> event_body \<Rightarrow> runner \<Rightarrow> runner \<Rightarrow> bool" where
  "event_done sys b r r' \<longleftrightarrow> cursor (rn_state r') = cursor (rn_state r) \<and>
     rn_hist r' = rn_hist r @ event_commands b \<and>
     (\<exists>calls. in_calls (rn_interp r') = in_calls (rn_interp r) @ calls \<and>
       event_calls sys b (length (in_calls (rn_interp r))) calls)"

lemma invoke_handled:
  assumes "invoke_system_call cap_ok sys fuel syscall s = Some (Done s')"
  shows "handled sys syscall s s'"
proof -
  obtain st where st: "wait_for_event (sy_world sys) fuel (in_state s) = Some (Done st)"
      "run_handler cap_ok sys syscall (s\<lparr>in_state := st\<rparr>) = Done (Inr s')"
    using assms by (auto simp: invoke_system_call_def run_simps split: option.splits) (metis run.distinct(3) run.inject sum.case sum.exhaust)
  have "cursor st = cursor (in_state s)" using fpost_D [OF wait_post [OF refl] st(1)] .
  then show ?thesis using run_handler_good [OF st(2)] by (auto simp: handled_def)
qed

lemma system_call_event_done:
  assumes "run_system_call_event m fuel event syscall r = Some (Done r')"
  shows "event_done (mc_system m) (SYSCALL_EVENT syscall) r r'"
proof -
  have finished: "event_done (mc_system m) (SYSCALL_EVENT syscall) r (r\<lparr>rn_interp := s'\<rparr>)"
    if "handled (mc_system m) syscall s s'" "in_calls s = in_calls (rn_interp r)" "in_state s = rn_state r" for s s'
    using that by (auto simp: event_done_def handled_def rn_state_def)
  show ?thesis
  proof (cases "is_blocking_syscall syscall")
    case False
    then obtain s' where "invoke_system_call (mc_cap_ok m) (mc_system m) fuel syscall (rn_interp r) = Some (Done s')"
        "r' = r\<lparr>rn_interp := s'\<rparr>"
      using assms by (auto simp: run_system_call_event_def bind_fuel_Done)
    then show ?thesis using finished [OF invoke_handled] by (simp add: rn_state_def)
  next
    case True
    then obtain s1 s' where s1: "thread_call m fuel event syscall ((rn_interp r)\<lparr>in_syscalls := SYSCALL_ENQUEUED\<rparr>) = Some (Done s1)"
        "r' = r\<lparr>rn_interp := s1\<rparr>"
      using assms by (auto simp: run_system_call_event_def bind_fuel_Done split: if_splits)
    then obtain s' where s': "invoke_system_call (mc_cap_ok m) (mc_system m) fuel syscall
          ((rn_interp r)\<lparr>in_syscalls := SYSCALL_ENQUEUED, in_live_end_usecs := -1\<rparr>) = Some (Done s')"
        "s1 = s'\<lparr>in_syscalls := SYSCALL_IDLE, in_live_end_usecs := -1\<rparr>"
      by (auto simp: thread_call_def bind_fuel_Done run_simps split: if_splits)
    have "handled (mc_system m) syscall ((rn_interp r)\<lparr>in_syscalls := SYSCALL_ENQUEUED, in_live_end_usecs := -1\<rparr>) s1"
      using invoke_handled [OF s'(1)] s'(2) by (simp add: handled_def)
    then show ?thesis using finished s1(2) by (simp add: rn_state_def)
  qed
qed

lemma add_data_calls:
  assumes "add_data sys fd t (s, code) = Done (s', code')"
  shows "in_calls s' = in_calls s @ [option_call fd t]" "in_state s' = in_state s"
proof -
  obtain level opt len where "data_option t = Done (level, opt, len)"
    using assms by (auto simp: add_data_def get_data_def run_simps)
  then show "in_calls s' = in_calls s @ [option_call fd t]" "in_state s' = in_state s"
    using assms
    by (auto simp: add_data_def get_data_def do_call_def option_call_def run_simps split: if_splits option.splits)
qed

lemma code_event_done:
  assumes "run_code_event (mc_system m) fuel event txt (rn_interp r, rn_code r) = Some (Done (s, code))"
  shows "event_done (mc_system m) (CODE_EVENT txt) r (r\<lparr>rn_interp := s, rn_code := code\<rparr>)"
  using assms
proof (cases rule: run_code_event_Done)
  case (1 st i s1 c1 s2 c2 c3)
  have "cursor st = cursor (in_state (rn_interp r))" using fpost_D [OF wait_post [OF refl] 1(1)] .
  then show ?thesis
    using add_data_calls [OF 1(3)] add_data_calls [OF 1(4)] add_data_calls [OF 1(5)]
    by (auto simp: event_done_def rn_state_def)
qed

lemma packet_event_done:
  assumes "run_local_packet_event m fuel event packet r = Some (Done r')"
  shows "event_done (mc_system m) (PACKET_EVENT packet) r r'"
proof -
  obtain result err st where "run_packet_event (mc_world m) fuel (rn_state r) event packet = Some (Done (result, err, st))"
      "r' = r\<lparr>rn_interp := (rn_interp r)\<lparr>in_state := st, in_fds := new_fds (rn_state r) st @ in_fds (rn_interp r)\<rparr>\<rparr>"
    using assms by (auto simp: run_local_packet_event_def bind_fuel_Done split: if_splits)
  then show ?thesis
    using fpost_D [OF run_packet_event_post [OF refl]] by (fastforce simp: event_done_def rn_state_def)
qed

lemma command_event_done:
  assumes "run_command_event m fuel command r = Some (Done r')"
  shows "event_done (mc_system m) (COMMAND_EVENT command) r r'"
proof -
  obtain st where st: "wait_for_event (mc_world m) fuel (rn_state r) = Some (Done st)"
      "r' = (set_state st r)\<lparr>rn_hist := snd (safe_system (mc_shell m) command (rn_hist r))\<rparr>"
    using assms by (cases "safe_system (mc_shell m) command (rn_hist r)")
      (auto simp: run_command_event_def bind_fuel_Done split: if_splits)
  have "cursor st = cursor (rn_state r)" using fpost_D [OF wait_post [OF refl] st(1)] .
  moreover have "snd (safe_system sh command hist) = hist @ [command]" for sh hist
    by (simp add: safe_system_def system_cmd_def Let_def)
  ultimately show ?thesis using st(2) by (simp add: event_done_def rn_state_def set_state_def)
qed

lemma run_event_done:
  "run_event m fuel event r = Some (Done r') \<Longrightarrow> event_done (mc_system m) (ev_body event) r r'"
  by (cases "ev_body event")
    (auto simp: run_event_def bind_fuel_Done dest: packet_event_done system_call_event_done command_event_done code_event_done)

subsection \<open>The whole script\<close>

text \<open>The state stands before the event at position \<open>j\<close>.\<close>

definition before :: "nat \<Rightarrow> state \<Rightarrow> bool" where
  "before j st \<longleftrightarrow> st_event st = (if j = 0 then None else Some (j - 1)) \<and> j \<le> length (st_events st)"

lemma check_event_order_same: "check_event_order st = Done (err, st') \<Longrightarrow> st' = st"
  by (auto simp: check_event_order_def Let_def run_simps split: option.splits if_splits)

lemma get_next_event_before:
  assumes "before j st" "get_next_event st = Done (None, st')"
  shows "st_event st' = (if j < length (st_events st) then Some j else None)" "st_events st' = st_events st"
    "num_events st' = num_events st"
  using assms by (auto simp: before_def get_next_event_def Let_def split: if_splits dest!: check_event_order_same)

definition bodies :: "state \<Rightarrow> event_body list" where
  "bodies st = map (\<lambda>event. timeless (ev_body event)) (st_events st)"

lemma adjust_cursor:
  "st_event (adjust_relative_event_times w i st) = st_event st"
  "num_events (adjust_relative_event_times w i st) = num_events st"
  "i < length (st_events st) \<Longrightarrow> bodies (adjust_relative_event_times w i st) = bodies st"
  by (auto simp: adjust_relative_event_times_def Let_def now_usecs_def bodies_def map_update list_update_same_conv
      split: option.split event_body.split prod.split)

fun script_calls :: "system \<Rightarrow> event_body list \<Rightarrow> nat \<Rightarrow> sys_call list \<Rightarrow> bool" where
  "script_calls sys [] n calls \<longleftrightarrow> calls = []"
| "script_calls sys (b # bs) n calls \<longleftrightarrow>
     (\<exists>now later. calls = now @ later \<and> event_calls sys b n now \<and> script_calls sys bs (n + length now) later)"

lemma script_calls_timeless: "script_calls sys (map timeless bs) n calls = script_calls sys bs n calls"
  by (induction bs arbitrary: n calls) (simp_all add: event_calls_timeless)

text \<open>The events from position \<open>j\<close> on were run.\<close>

definition ran_from :: "system \<Rightarrow> nat \<Rightarrow> runner \<Rightarrow> runner \<Rightarrow> bool" where
  "ran_from sys j r r' \<longleftrightarrow>
     (\<exists>calls. in_calls (rn_interp r') = in_calls (rn_interp r) @ calls \<and>
       script_calls sys (drop j (bodies (rn_state r))) (length (in_calls (rn_interp r))) calls) \<and>
     rn_hist r' = rn_hist r @ concat (map event_commands (drop j (bodies (rn_state r)))) \<and>
     num_events (rn_state r') = num_events (rn_state r) + (length (bodies (rn_state r)) - j) \<and>
     bodies (rn_state r') = bodies (rn_state r)"

lemma set_state_simps [simp]:
  "rn_state (set_state st r) = st" "rn_hist (set_state st r) = rn_hist r"
  "in_calls (rn_interp (set_state st r)) = in_calls (rn_interp r)" "rn_code (set_state st r) = rn_code r"
  by (simp_all add: set_state_def rn_state_def)

lemma ran_from_step:
  assumes "event_done sys b (set_state st r) r1" "bodies st = bodies (rn_state r)" "num_events st = num_events (rn_state r)"
    "j < length (bodies st)" "timeless b = bodies st ! j" "ran_from sys (Suc j) r2 r'"
    "rn_state r2 = (rn_state r1)\<lparr>num_events := Suc (num_events (rn_state r1))\<rparr>" "rn_hist r2 = rn_hist r1"
    "in_calls (rn_interp r2) = in_calls (rn_interp r1)"
  shows "ran_from sys j r r'"
proof -
  have c: "cursor (rn_state r1) = cursor st" "rn_hist r1 = rn_hist r @ event_commands b"
    using assms(1) by (auto simp: event_done_def)
  then have b1: "bodies (rn_state r2) = bodies (rn_state r)" "num_events (rn_state r2) = Suc (num_events (rn_state r))"
    using assms(2,3,7) by (auto simp: cursor_def bodies_def)
  have d: "drop j (bodies (rn_state r)) = bodies (rn_state r) ! j # drop (Suc j) (bodies (rn_state r))"
    using assms(2,4) by (simp add: Cons_nth_drop_Suc)
  have e: "event_calls sys (bodies (rn_state r) ! j) = event_calls sys b"
      "event_commands (bodies (rn_state r) ! j) = event_commands b"
    using assms(2,5) event_calls_timeless event_commands_timeless by metis+
  obtain now later where now: "in_calls (rn_interp r1) = in_calls (rn_interp r) @ now"
      "event_calls sys b (length (in_calls (rn_interp r))) now"
      "in_calls (rn_interp r') = in_calls (rn_interp r2) @ later"
      "script_calls sys (drop (Suc j) (bodies (rn_state r2))) (length (in_calls (rn_interp r2))) later"
    using assms(1,6) by (auto simp: event_done_def ran_from_def)
  have "script_calls sys (drop j (bodies (rn_state r))) (length (in_calls (rn_interp r))) (now @ later)"
    unfolding d using now b1(1) e(1) assms(9) by auto
  then show ?thesis
    using now b1 c(2) d e(2) assms(2,4,6,8,9) by (auto simp: ran_from_def)
qed

lemma run_events_ran:
  "run_events m fuel n r = Some (Done r') \<Longrightarrow> before j (rn_state r) \<Longrightarrow> ran_from (mc_system m) j r r'"
proof (induction n arbitrary: j r)
  case (Suc n)
  obtain st where st: "get_next_event (rn_state r) = Done (None, st)"
      "(case st_event st of None \<Rightarrow> Some (Done (set_state st r))
        | Some i \<Rightarrow> (let st = adjust_relative_event_times (mc_world m) i st in
          bind_fuel (run_event m fuel (st_events st ! i) (set_state st r)) (\<lambda>r.
          run_events m fuel n (set_state ((rn_state r)\<lparr>num_events := Suc (num_events (rn_state r))\<rparr>) r)))) = Some (Done r')"
    using Suc.prems(1) by (auto simp: bind_fuel_Done split: if_splits)
  note nxt = get_next_event_before [OF Suc.prems(2) st(1)]
  have len: "length (bodies (rn_state r)) = length (st_events (rn_state r))" by (simp add: bodies_def)
  show ?case
  proof (cases "j < length (st_events (rn_state r))")
    case False
    then show ?thesis
      using st(2) nxt len Suc.prems(2) by (auto simp: ran_from_def bodies_def before_def)
  next
    case True
    define st1 where "st1 = adjust_relative_event_times (mc_world m) j st"
    obtain r1 where r1: "run_event m fuel (st_events st1 ! j) (set_state st1 r) = Some (Done r1)"
        "run_events m fuel n (set_state ((rn_state r1)\<lparr>num_events := Suc (num_events (rn_state r1))\<rparr>) r1) = Some (Done r')"
      using st(2) nxt True by (auto simp: bind_fuel_Done Let_def st1_def)
    have b: "bodies st1 = bodies (rn_state r)" "num_events st1 = num_events (rn_state r)" "st_event st1 = Some j"
      using nxt True adjust_cursor [where w = "mc_world m" and i = j and st = st] by (simp_all add: st1_def bodies_def)
    then have len1: "length (st_events st1) = length (st_events (rn_state r))"
      using len by (metis bodies_def length_map)
    have d: "event_done (mc_system m) (ev_body (st_events st1 ! j)) (set_state st1 r) r1"
      using run_event_done [OF r1(1)] .
    have t: "timeless (ev_body (st_events st1 ! j)) = bodies st1 ! j"
      using True len1 by (simp add: bodies_def)
    have "before (Suc j) (rn_state (set_state ((rn_state r1)\<lparr>num_events := Suc (num_events (rn_state r1))\<rparr>) r1))"
      using d b(3) len1 True by (auto simp: event_done_def cursor_def before_def)
    then have later: "ran_from (mc_system m) (Suc j) (set_state ((rn_state r1)\<lparr>num_events := Suc (num_events (rn_state r1))\<rparr>) r1) r'"
      by (rule Suc.IH [OF r1(2)])
    show ?thesis
      using True len b by (intro ran_from_step [OF d b(1,2) _ t later]) simp_all
  qed
qed simp

lemma reset_post:
  assumes c: "cursor st = c"
  shows "post (at_cursor c) (reset_connection w st i)"
  unfolding reset_connection_def Let_def case_prod_beta
  by (auto intro!: post_any send_post [OF c, unfolded case_prod_beta] split: sum.split)

lemma socket_close_calls:
  assumes "socket_close sys i s = Done s'"
  shows "\<exists>closed. in_calls s' = in_calls s @ map SYS_CLOSE closed" "cursor (in_state s') = cursor (in_state s)"
  using assms
  by (auto simp: socket_close_def Let_def do_call_def run_simps split: if_splits dest!: post_D [OF reset_post [OF refl]]
      intro: exI [of _ "[]"] exI [of _ "[_]"])

lemma close_fds_calls:
  "close_fds sys fds s = Done s' \<Longrightarrow>
     (\<exists>closed. in_calls s' = in_calls s @ map SYS_CLOSE closed) \<and> cursor (in_state s') = cursor (in_state s)"
proof (induction sys fds s rule: close_fds.induct)
  case (2 sys i ty fds s)
  then obtain s1 where s1: "socket_close sys i s = Done s1" "close_fds sys fds s1 = Done s'" by (auto simp: run_simps)
  obtain c1 c2 where "in_calls s1 = in_calls s @ map SYS_CLOSE c1" "in_calls s' = in_calls s1 @ map SYS_CLOSE c2"
    using socket_close_calls(1) [OF s1(1)] 2(1) [OF s1(2)] by blast
  then have "in_calls s' = in_calls s @ map SYS_CLOSE (c1 @ c2)" by simp
  then show ?case using socket_close_calls(2) [OF s1(1)] 2(1) [OF s1(2)] by metis
qed (auto intro: exI [of _ "[]"])

lemma code_execute_hist: "code_execute sh code hist = Done (err, code', hist') \<Longrightarrow> \<exists>commands. hist' = hist @ commands"
  by (auto simp: code_execute_def execute_code_command_line_def system_cmd_def Let_def run_simps
      split: if_splits prod.splits option.splits)

definition optional :: "'a option \<Rightarrow> 'a list" where
  "optional x = (case x of None \<Rightarrow> [] | Some y \<Rightarrow> [y])"

lemma jiffy_loop_cursor: "jiffy_loop m fuel k l t s st = Some (now, st') \<Longrightarrow> cursor st' = cursor st"
proof (induction fuel arbitrary: k l t s st)
  case (Suc fuel)
  then show ?case by (fastforce simp: now_usecs_def Let_def split: if_splits)
qed simp

lemma safe_system_hist: "snd (safe_system sh command hist) = hist @ [command]"
  by (simp add: safe_system_def system_cmd_def Let_def)

lemma finish_script_done:
  assumes "finish_script m script b r = Done r'"
  shows "\<exists>closed. in_calls (rn_interp r') = in_calls (rn_interp r) @ map SYS_CLOSE closed"
    "cursor (rn_state r') = cursor (rn_state r)"
    "\<exists>commands. rn_hist r' = rn_hist r @ (if b then optional (sc_cleanup_command script) else []) @ commands"
proof -
  obtain status hist where h: "run_cleanup_command m script b (rn_hist r) = (status, hist)" by fastforce
  obtain code hist' s where f: "code_execute (mc_shell m) (rn_code r) hist = Done (None, code, hist')"
      "state_free (mc_system m) (rn_interp r) = Done s" "r' = \<lparr>rn_interp = s, rn_code = code, rn_hist = hist'\<rparr>"
    using assms h by (auto simp: finish_script_def run_simps split: if_splits)
  have "hist = rn_hist r @ (if b then optional (sc_cleanup_command script) else [])"
    using h safe_system_hist [of "mc_shell m" "the (sc_cleanup_command script)" "rn_hist r"]
    by (auto simp: run_cleanup_command_def optional_def split: option.splits if_splits prod.splits)
  then show "\<exists>commands. rn_hist r' = rn_hist r @ (if b then optional (sc_cleanup_command script) else []) @ commands"
    using code_execute_hist [OF f(1)] f(3) by auto
  have "close_fds (mc_system m) (in_fds (rn_interp r)) ((rn_interp r)\<lparr>in_syscalls := SYSCALL_EXITING\<rparr>) = Done s"
    using f(2) by (auto simp: state_free_def close_all_fds_def split: if_splits)
  from close_fds_calls [OF this]
  show "\<exists>closed. in_calls (rn_interp r') = in_calls (rn_interp r) @ map SYS_CLOSE closed"
    "cursor (rn_state r') = cursor (rn_state r)"
    using f(3) by (auto simp: rn_state_def)
qed

lemma run_init_command_done:
  "run_init_command m script = Done (b, hist) \<Longrightarrow> hist = optional (sc_init_command script) \<and> (b \<longleftrightarrow> sc_init_command script \<noteq> None)"
  using safe_system_hist [of "mc_shell m" "the (sc_init_command script)" "[]"]
  by (auto simp: run_init_command_def optional_def split: option.splits prod.splits if_splits)

lemma run_script_parts:
  assumes "run_script m fuel config script = Some (Done r)"
  obtains r0 r1 b where "before 0 (rn_state r0)" "st_events (rn_state r0) = sc_events script" "num_events (rn_state r0) = 0"
    "in_calls (rn_interp r0) = []" "rn_hist r0 = optional (sc_init_command script)" "b \<longleftrightarrow> sc_init_command script \<noteq> None"
    "run_events m fuel (Suc (length (sc_events script))) r0 = Some (Done r1)" "finish_script m script b r1 = Done r"
proof -
  obtain rn b hist where i: "runner_new m config script = Done rn" "run_init_command m script = Done (b, hist)"
      "(case schedule_start_time_usecs m fuel (rn_state rn) of None \<Rightarrow> None
     | Some (start_usecs, st) \<Rightarrow>
         bind_fuel (run_events m fuel (Suc (length (sc_events script)))
             ((set_state (st\<lparr>live_start_time_usecs := start_usecs\<rparr>) rn)\<lparr>rn_hist := hist\<rparr>)) (\<lambda>r.
         Some (finish_script m script b r))) = Some (Done r)"
    using assms by (auto simp: run_script_def bind_fuel_Done run_simps simp del: run_events.simps split: prod.splits)
  obtain start st r1 where s: "schedule_start_time_usecs m fuel (rn_state rn) = Some (start, st)"
      "run_events m fuel (Suc (length (sc_events script)))
         ((set_state (st\<lparr>live_start_time_usecs := start\<rparr>) rn)\<lparr>rn_hist := hist\<rparr>) = Some (Done r1)"
      "finish_script m script b r1 = Done r"
    using i(3) by (auto simp: bind_fuel_Done simp del: run_events.simps split: option.splits)
  have c: "cursor st = cursor (rn_state rn)"
    using s(1) by (auto simp: schedule_start_time_usecs_def dest!: jiffy_loop_cursor)
  let ?r0 = "(set_state (st\<lparr>live_start_time_usecs := start\<rparr>) rn)\<lparr>rn_hist := hist\<rparr>"
  show thesis
    by (rule that [of ?r0 b r1])
      (use i(1) c s(2,3) run_init_command_done [OF i(2)] in
        \<open>auto simp: runner_new_def run_simps state_new_def rn_state_def cursor_def before_def set_state_def simp del: run_events.simps\<close>)
qed


text \<open>A machine on which everything succeeds, and a script of two commands between two others.\<close>

definition test_machine :: machine where
  "test_machine = \<lparr>mc_system = zero_options, mc_cap_ok = test_cap, mc_shell = test_shell, mc_times = int\<rparr>"

definition test_script :: script where
  "test_script = \<lparr>sc_init_command = Some ''init'', sc_events = [test_event 0 ABSOLUTE_TIME, test_event 100 ABSOLUTE_TIME],
     sc_cleanup_command = Some ''cleanup''\<rparr>"

fun ends :: "runner run option \<Rightarrow> bool" where
  "ends (Some (Done r)) \<longleftrightarrow> True"
| "ends r \<longleftrightarrow> False"

lemma test_script_ends: "ends (run_script test_machine 14 set_default_config test_script)"
  by code_simp


end
