(* ===== verification/Netdev.thy ===== *)
theory Netdev
  imports Code Config
begin

section \<open>Network devices and packet sockets\<close>

text \<open>
  The model of the Linux parts of \<^verbatim>\<open>packet_socket_linux.c\<close>, \<^verbatim>\<open>netdev.c\<close>, \<^verbatim>\<open>wire_server_netdev.c\<close>,
  \<^verbatim>\<open>wire_client_netdev.c\<close>, \<^verbatim>\<open>so_testing.c\<close>, \<^verbatim>\<open>net_utils.c\<close> and of \<^verbatim>\<open>wrap.c\<close>: the filter for the packets of
  the machine under test, the loop that sniffs packets until one can be parsed, the bytes that are sent, and the
  setup of a device. What the system answers is an argument: the packets that \<^verbatim>\<open>recvfrom\<close> returns, in order, the
  bytes that a new buffer holds, the interfaces with their addresses, and the status of every command.
\<close>

subsection \<open>The filter\<close>

text \<open>\<^verbatim>\<open>struct sock_filter\<close>.\<close>

record sock_filter =
  bpf_code :: u16
  bpf_jt :: u8
  bpf_jf :: u8
  bpf_k :: u32

definition sf :: "u16 \<Rightarrow> u8 \<Rightarrow> u8 \<Rightarrow> u32 \<Rightarrow> sock_filter" where
  "sf code jt jf k = \<lparr>bpf_code = code, bpf_jt = jt, bpf_jf = jf, bpf_k = k\<rparr>"

definition bpf_ipv4_src :: "sock_filter list" where
  "bpf_ipv4_src =
     [sf 0x20 0 0 0x00000008, sf 0x15 0 7 0x33445566, sf 0x28 0 0 0x00000006, sf 0x15 0 5 0x00001122,
      sf 0x28 0 0 0x0000000c, sf 0x15 0 3 0x00000800, sf 0x20 0 0 0x0000001a, sf 0x15 0 1 0x01020304,
      sf 0x6 0 0 0x0000ffff, sf 0x6 0 0 0x00000000]"

definition bpf_ipv6_src :: "sock_filter list" where
  "bpf_ipv6_src =
     [sf 0x20 0 0 0x00000008, sf 0x15 0 13 0x33445566, sf 0x28 0 0 0x00000006, sf 0x15 0 11 0x00001122,
      sf 0x28 0 0 0x0000000c, sf 0x15 0 9 0x000086dd, sf 0x20 0 0 0x00000016, sf 0x15 0 7 0x00010002,
      sf 0x20 0 0 0x0000001a, sf 0x15 0 5 0x00030004, sf 0x20 0 0 0x0000001e, sf 0x15 0 3 0x00050006,
      sf 0x20 0 0 0x00000022, sf 0x15 0 1 0x00070008, sf 0x6 0 0 0x0000ffff, sf 0x6 0 0 0x00000000]"

definition set_k :: "nat \<Rightarrow> u32 \<Rightarrow> sock_filter list \<Rightarrow> sock_filter list" where
  "set_k i k prog = prog[i := (prog ! i)\<lparr>bpf_k := k\<rparr>]"

text \<open>The 32-bit word of an address, or of an Ethernet address, in host order.\<close>

definition word_at :: "bytes \<Rightarrow> nat \<Rightarrow> u32" where
  "word_at b i = be32 (b ! i) (b ! (i + 1)) (b ! (i + 2)) (b ! (i + 3))"

text \<open>The filter that is attached to the packet socket.\<close>

definition packet_socket_set_filter :: "bytes \<Rightarrow> ip_address \<Rightarrow> sock_filter list run" where
  "packet_socket_set_filter client_ether client_live_ip =
     rbind (case ip_family client_live_ip of
         AF_INET \<Rightarrow> Done (set_k 7 (word_at (ip_data client_live_ip) 0) bpf_ipv4_src)
       | AF_INET6 \<Rightarrow> Done (set_k 13 (word_at (ip_data client_live_ip) 12)
           (set_k 11 (word_at (ip_data client_live_ip) 8)
           (set_k 9 (word_at (ip_data client_live_ip) 4)
           (set_k 7 (word_at (ip_data client_live_ip) 0) bpf_ipv6_src))))
       | AF_UNSPEC \<Rightarrow> Die) (\<lambda>prog.
     Done (set_k 3 (be32 0 0 (client_ether ! 0) (client_ether ! 1)) (set_k 1 (word_at client_ether 2) prog)))"

text \<open>What the code relies on: the kernel's documented machine for such programs, for the four instructions that they
  use. It returns how much of a frame is kept; \<open>a\<close> is its accumulator.\<close>

definition bpf_machine :: "(sock_filter list \<Rightarrow> u32 \<Rightarrow> bytes \<Rightarrow> u32) \<Rightarrow> bool" where
  "bpf_machine m \<longleftrightarrow>
     (\<forall>jt jf k p a frame. m (sf 0x20 jt jf k # p) a frame =
        (case ld_be32 frame (unat k) of Done w \<Rightarrow> m p w frame | _ \<Rightarrow> 0)) \<and>
     (\<forall>jt jf k p a frame. m (sf 0x28 jt jf k # p) a frame =
        (case ld_be16 frame (unat k) of Done w \<Rightarrow> m p (word_of_nat (unat w)) frame | _ \<Rightarrow> 0)) \<and>
     (\<forall>jt jf k p a frame. m (sf 0x15 jt jf k # p) a frame =
        m (drop (unat (if a = k then jt else jf)) p) a frame) \<and>
     (\<forall>jt jf k p a frame. m (sf 0x6 jt jf k # p) a frame = k)"

text \<open>The frames of the client: its Ethernet address as the source, and an IP packet from its address.\<close>

definition from_client :: "bytes \<Rightarrow> ip_address \<Rightarrow> bytes \<Rightarrow> bool" where
  "from_client client_ether client_live_ip frame \<longleftrightarrow>
     (let ipv4 = (ip_family client_live_ip = AF_INET) in
      (if ipv4 then 30 else 38) \<le> length frame \<and> take 6 (drop 6 frame) = client_ether \<and>
      take 2 (drop 12 frame) = (if ipv4 then [0x08, 0x00] else [0x86, 0xdd]) \<and>
      (if ipv4 then take 4 (drop 26 frame) = take 4 (ip_data client_live_ip)
       else take 16 (drop 22 frame) = ip_data client_live_ip))"

subsection \<open>Packet sockets\<close>

text \<open>A packet that \<^verbatim>\<open>recvfrom\<close> returns, with what the kernel says about it; the time is \<open>None\<close> when \<^verbatim>\<open>ioctl\<close> fails.\<close>

datatype pkttype = PACKET_HOST | PACKET_OUTGOING | PACKET_OTHERHOST

record sniffed_frame =
  fr_bytes :: bytes
  fr_pkttype :: pkttype
  fr_ifindex :: int
  fr_time_usecs :: "int option"

datatype recv_answer = Frame sniffed_frame | Interrupted | Recv_failed

text \<open>\<open>None\<close> is \<^verbatim>\<open>STATUS_ERR\<close>; otherwise the packet and the number of its bytes, at most as many as the buffer has.\<close>

definition packet_socket_receive ::
  "int \<Rightarrow> direction \<Rightarrow> packet \<Rightarrow> recv_answer \<Rightarrow> (packet \<times> nat) option run" where
  "packet_socket_receive index dir packet answer =
     (case answer of
        Interrupted \<Rightarrow> Done None
      | Recv_failed \<Rightarrow> Die
      | Frame fr \<Rightarrow>
          (let data = take (length (p_buffer packet)) (fr_bytes fr) in
           rbind (store (p_buffer packet) 0 data) (\<lambda>buf.
           if dir = DIRECTION_OUTBOUND \<and> fr_pkttype fr \<noteq> PACKET_OUTGOING then Done None
           else if dir = DIRECTION_INBOUND \<and> fr_pkttype fr \<noteq> PACKET_HOST then Done None
           else if fr_ifindex fr \<noteq> index then Done None
           else (case fr_time_usecs fr of
               None \<Rightarrow> Die
             | Some t \<Rightarrow> Done (Some (packet\<lparr>p_buffer := buf, p_time_usecs := t\<rparr>, length data))))))"

subsection \<open>Sniffing\<close>

definition PACKET_READ_BYTES :: nat where "PACKET_READ_BYTES = 65536"

text \<open>What a call to \<^verbatim>\<open>netdev_receive\<close> does: it still waits for a packet, or it returns one, or an error.\<close>

datatype received = Waiting | Received packet | Bad_packet string

text \<open>\<open>mem k\<close> is what the \<open>k\<close>-th new buffer holds. The result has the number of packets that were read and the
  answers that are left.\<close>

fun netdev_receive_loop ::
  "(nat \<Rightarrow> bytes) \<Rightarrow> int \<Rightarrow> packet_layer_t \<Rightarrow> direction \<Rightarrow> nat \<Rightarrow> recv_answer list \<Rightarrow> nat \<Rightarrow>
     (received \<times> nat \<times> recv_answer list) run" where
  "netdev_receive_loop mem index layer dir k [] num_packets = Done (Waiting, num_packets, [])"
| "netdev_receive_loop mem index layer dir k (answer # answers) num_packets =
     rbind (packet_socket_receive index dir (packet_new (mem k)) answer) (\<lambda>r.
       case r of
         None \<Rightarrow> netdev_receive_loop mem index layer dir (Suc k) answers num_packets
       | Some (packet, in_bytes) \<Rightarrow>
           rbind (parse_packet packet in_bytes layer) (\<lambda>(packet, result, error).
             case result of
               PACKET_OK \<Rightarrow> Done (Received packet, Suc num_packets, answers)
             | PACKET_BAD \<Rightarrow> Done (Bad_packet (the error), Suc num_packets, answers)
             | PACKET_UNKNOWN_L4 \<Rightarrow> netdev_receive_loop mem index layer dir (Suc k) answers (Suc num_packets)))"

text \<open>The reads that take packets out of the queue of the tun device. The result counts the packets that were taken.\<close>

datatype tun_read = Tun_bytes nat | Tun_interrupted | Tun_failed

definition TUN_READ_BYTES :: nat where "TUN_READ_BYTES = 11"

fun local_netdev_read_queue :: "(nat \<Rightarrow> tun_read) \<Rightarrow> nat \<Rightarrow> nat \<Rightarrow> nat \<Rightarrow> nat run" where
  "local_netdev_read_queue tun i 0 taken = Done taken"
| "local_netdev_read_queue tun i (Suc n) taken =
     (case tun i of
        Tun_bytes in_bytes \<Rightarrow> check (in_bytes \<le> TUN_READ_BYTES) (local_netdev_read_queue tun (Suc i) n (Suc taken))
      | Tun_interrupted \<Rightarrow> local_netdev_read_queue tun (Suc i) n taken
      | Tun_failed \<Rightarrow> Die)"

text \<open>While the loop waits no packet is taken.\<close>

definition local_netdev_receive ::
  "(nat \<Rightarrow> bytes) \<Rightarrow> int \<Rightarrow> (nat \<Rightarrow> tun_read) \<Rightarrow> recv_answer list \<Rightarrow> (received \<times> nat \<times> recv_answer list) run" where
  "local_netdev_receive mem index tun answers =
     rbind (netdev_receive_loop mem index PACKET_LAYER_3_IP DIRECTION_OUTBOUND 0 answers 0) (\<lambda>(r, num_packets, rest).
     if r = Waiting then Done (r, 0, rest)
     else rbind (local_netdev_read_queue tun 0 num_packets 0) (\<lambda>taken. Done (r, taken, rest)))"

definition wire_server_netdev_receive ::
  "(nat \<Rightarrow> bytes) \<Rightarrow> int \<Rightarrow> recv_answer list \<Rightarrow> (received \<times> recv_answer list) run" where
  "wire_server_netdev_receive mem index answers =
     rbind (netdev_receive_loop mem index PACKET_LAYER_2_ETHERNET DIRECTION_INBOUND 0 answers 0) (\<lambda>(r, _, rest).
     Done (r, rest))"

definition wire_client_netdev_send :: "packet \<Rightarrow> bytes run" where
  "wire_client_netdev_send packet = Die"

definition wire_client_netdev_receive :: "(received \<times> recv_answer list) run" where
  "wire_client_netdev_receive = Die"

text \<open>The stack under test of a shared object: it hands out a packet and its time, or fails. The size it returns may be
  anything up to the size of the buffer.\<close>

fun so_netdev_receive ::
  "(nat \<Rightarrow> bytes) \<Rightarrow> nat \<Rightarrow> (bytes \<times> int) option list \<Rightarrow> (received \<times> (bytes \<times> int) option list) run" where
  "so_netdev_receive mem k [] = Done (Waiting, [])"
| "so_netdev_receive mem k (None # answers) = so_netdev_receive mem (Suc k) answers"
| "so_netdev_receive mem k (Some (data, t) # answers) =
     rbind (store (mem k) 0 data) (\<lambda>buf.
     rbind (parse_packet ((packet_new buf)\<lparr>p_time_usecs := t\<rparr>) (length data) PACKET_LAYER_3_IP) (\<lambda>(packet, result, error).
       case result of
         PACKET_OK \<Rightarrow> Done (Received packet, answers)
       | PACKET_BAD \<Rightarrow> Done (Bad_packet (the error), answers)
       | PACKET_UNKNOWN_L4 \<Rightarrow> so_netdev_receive mem (Suc k) answers))"

subsection \<open>Sending\<close>

definition packet_bytes :: "packet \<Rightarrow> bytes run" where
  "packet_bytes packet = rbind (packet_start packet) (\<lambda>p. ld_bytes (p_buffer packet) p (p_ip_bytes packet))"

text \<open>The assertions that \<^verbatim>\<open>local_netdev_send\<close> and \<^verbatim>\<open>so_netdev_send\<close> share.\<close>

definition sendable :: "packet \<Rightarrow> bool" where
  "sendable packet \<longleftrightarrow> 0 < p_ip_bytes packet \<and> (p_ipv4 packet \<noteq> None \<or> p_ipv6 packet \<noteq> None) \<and>
     (p_tcp packet \<noteq> None \<or> p_udp packet \<noteq> None \<or> p_icmpv4 packet \<noteq> None \<or> p_icmpv6 packet \<noteq> None)"

definition VIRTIO_NET_HDR_GSO_TCPV4 :: u8 where "VIRTIO_NET_HDR_GSO_TCPV4 = 1"
definition VIRTIO_NET_HDR_GSO_TCPV6 :: u8 where "VIRTIO_NET_HDR_GSO_TCPV6 = 4"

text \<open>\<^verbatim>\<open>struct virtio_net_hdr\<close>: flags, type, length of the headers, size, and the checksum's start and offset.\<close>

definition gso_header :: "packet \<Rightarrow> bytes" where
  "gso_header packet =
     (if p_tcp packet \<noteq> None \<and> p_mss packet \<noteq> 0
      then [0, if p_ipv4 packet \<noteq> None then VIRTIO_NET_HDR_GSO_TCPV4 else VIRTIO_NET_HDR_GSO_TCPV6, 0, 0] @
        le16_bytes_of (word_of_int (p_mss packet)) @ [0, 0, 0, 0]
      else replicate 10 0)"

definition linux_tun_write :: "packet \<Rightarrow> bytes run" where
  "linux_tun_write packet = rbind (packet_bytes packet) (\<lambda>data. Done (gso_header packet @ data))"

definition local_netdev_send :: "packet \<Rightarrow> bytes run" where
  "local_netdev_send packet = check (sendable packet) (linux_tun_write packet)"

definition so_netdev_send :: "packet \<Rightarrow> bytes run" where
  "so_netdev_send packet = check (sendable packet) (packet_bytes packet)"

fun ether_type_for_family :: "address_family \<Rightarrow> u16 run" where
  "ether_type_for_family AF_INET = Done 0x0800"
| "ether_type_for_family AF_INET6 = Done 0x86dd"
| "ether_type_for_family AF_UNSPEC = Die"

definition wire_server_netdev_send :: "bytes \<Rightarrow> bytes \<Rightarrow> packet \<Rightarrow> bytes run" where
  "wire_server_netdev_send client_ether server_ether packet =
     rbind (ether_type_for_family (packet_address_family packet)) (\<lambda>ether_type.
     rbind (packet_bytes packet) (\<lambda>data.
     Done (take 6 client_ether @ take 6 server_ether @ be16_bytes_of ether_type @ data)))"

subsection \<open>Setting up a device\<close>

text \<open>What the system answers: the names of the addresses and the interfaces that have them, the status of commands,
  whether the tun device can be opened the \<open>n\<close>-th time and the name of the device that is then made, the index of a
  device, and whether a socket can be made, set up and bound.\<close>

datatype dev_ioctl = TUNSETOFFLOAD | SIOCGIFFLAGS | SIOCSIFFLAGS

record net_env =
  ne_ntop :: ntop
  ne_ifs :: "(string \<times> bytes option) list"
  ne_shell :: shell
  ne_open :: "nat \<Rightarrow> bool"
  ne_tunsetiff :: "nat \<Rightarrow> string option"
  ne_if_nametoindex :: "string \<Rightarrow> nat"
  ne_ioctl :: "dev_ioctl \<Rightarrow> bool"
  ne_socket :: "address_family \<Rightarrow> bool"
  ne_packet_socket :: "string \<Rightarrow> bool"

text \<open>The commands that ran are threaded through.\<close>

definition verbose_system :: "net_env \<Rightarrow> string \<Rightarrow> string list \<Rightarrow> string list" where
  "verbose_system env command hist = snd (system_cmd (ne_shell env) command hist)"

definition addr_command :: "string \<Rightarrow> string \<Rightarrow> nat \<Rightarrow> string \<Rightarrow> string" where
  "addr_command verb ip_string plen dev_name =
     ''ip addr '' @ verb @ '' '' @ ip_string @ ''/'' @ dec plen @ '' dev '' @ dev_name @ '' > /dev/null 2>&1''"

definition net_add_ipv4_address :: "net_env \<Rightarrow> string \<Rightarrow> ip_address \<Rightarrow> nat \<Rightarrow> string list \<Rightarrow> string list run" where
  "net_add_ipv4_address env dev_name ip plen hist =
     rbind (ip_to_string (ne_ntop env) ip) (\<lambda>ip_string.
     Done (verbose_system env (addr_command ''add'' ip_string plen dev_name) hist))"

text \<open>The wait for the duplicate address detection is left out.\<close>

definition net_add_ipv6_address :: "net_env \<Rightarrow> string \<Rightarrow> ip_address \<Rightarrow> nat \<Rightarrow> string list \<Rightarrow> string list run" where
  "net_add_ipv6_address env dev_name ip plen hist =
     rbind (ip_to_string (ne_ntop env) ip) (\<lambda>ip_string.
     Done (verbose_system env (addr_command ''add'' ip_string plen dev_name) hist))"

definition net_add_dev_address :: "net_env \<Rightarrow> string \<Rightarrow> ip_address \<Rightarrow> nat \<Rightarrow> string list \<Rightarrow> string list run" where
  "net_add_dev_address env dev_name ip plen hist =
     (case ip_family ip of
        AF_INET \<Rightarrow> net_add_ipv4_address env dev_name ip plen hist
      | AF_INET6 \<Rightarrow> net_add_ipv6_address env dev_name ip plen hist
      | AF_UNSPEC \<Rightarrow> Die)"

definition net_del_dev_address :: "net_env \<Rightarrow> string \<Rightarrow> ip_address \<Rightarrow> nat \<Rightarrow> string list \<Rightarrow> string list run" where
  "net_del_dev_address env dev_name ip plen hist =
     rbind (ip_to_string (ne_ntop env) ip) (\<lambda>ip_string.
     Done (verbose_system env (addr_command ''del'' ip_string plen dev_name) hist))"

definition net_setup_dev_address :: "net_env \<Rightarrow> string \<Rightarrow> ip_address \<Rightarrow> nat \<Rightarrow> string list \<Rightarrow> string list run" where
  "net_setup_dev_address env dev_name ip plen hist =
     rbind (get_ip_device (ne_ifs env) ip) (\<lambda>found.
     if found = Some dev_name then Done hist
     else rbind (case found of
         Some cur_dev_name \<Rightarrow> net_del_dev_address env cur_dev_name ip plen hist
       | None \<Rightarrow> Done hist) (\<lambda>hist.
       net_add_dev_address env dev_name ip plen hist))"

definition check_remote_address :: "net_env \<Rightarrow> config \<Rightarrow> unit run" where
  "check_remote_address env config =
     rbind (is_ip_local (ne_ifs env) (live_remote_ip config)) (\<lambda>loc. if loc then Die else Done ())"

definition check_local_anyip :: "net_env \<Rightarrow> config \<Rightarrow> unit run" where
  "check_local_anyip env config =
     rbind (is_ip_local (ne_ifs env) (live_local_ip config)) (\<lambda>loc. if loc then Die else Done ())"

text \<open>The loop that waits for the name \<^verbatim>\<open>tun0\<close>; \<open>n\<close> is the number of tries left of ten.\<close>

fun open_tun :: "net_env \<Rightarrow> nat \<Rightarrow> string run" where
  "open_tun env 0 = Die"
| "open_tun env (Suc n) =
     check (ne_open env (9 - n))
       (case ne_tunsetiff env (9 - n) of
          None \<Rightarrow> Die
        | Some name \<Rightarrow> if name \<noteq> ''tun0'' then open_tun env n else Done name)"

text \<open>A command whose status must not be negative.\<close>

definition must_run :: "net_env \<Rightarrow> string \<Rightarrow> string list \<Rightarrow> string list run" where
  "must_run env command hist =
     (let (st, hist) = system_cmd (ne_shell env) command hist in if st < 0 then Die else Done hist)"

definition wrap_socket :: "net_env \<Rightarrow> ip_version \<Rightarrow> unit run" where
  "wrap_socket env ipv = check (ne_socket env (if ipv = IP_VERSION_4 then AF_INET else AF_INET6)) (Done ())"

definition create_device :: "net_env \<Rightarrow> config \<Rightarrow> string list \<Rightarrow> (string \<times> nat \<times> string list) run" where
  "create_device env config hist =
     rbind (open_tun env 10) (\<lambda>name.
     let index = ne_if_nametoindex env name in
     if index = 0 then Die
     else rbind (if speed config \<noteq> 0
         then rbind (must_run env (''ethtool -s '' @ name @ '' speed '' @ dec (unat (speed config)) @ '' autoneg off'') hist)
           (must_run env (''ifconfig '' @ name @ '' down; sleep 1; ifconfig '' @ name @ '' up; sleep 1''))
         else Done hist) (\<lambda>hist.
       rbind (if cfg_mtu config \<noteq> 1500
         then must_run env (''ifconfig '' @ name @ '' mtu '' @ dec_int (cfg_mtu config)) hist
         else Done hist) (\<lambda>hist.
       rbind (wrap_socket env (ip_version config)) (\<lambda>_. Done (name, index, hist)))))"

definition set_device_offload_flags :: "net_env \<Rightarrow> unit run" where
  "set_device_offload_flags env = check (ne_ioctl env TUNSETOFFLOAD) (Done ())"

definition bring_up_device :: "net_env \<Rightarrow> unit run" where
  "bring_up_device env = check (ne_ioctl env SIOCGIFFLAGS) (check (ne_ioctl env SIOCSIFFLAGS) (Done ()))"

definition route_command :: "config \<Rightarrow> string \<Rightarrow> string" where
  "route_command config name =
     (let v = (if wire_protocol config = AF_INET then ''4'' else ''6''); prefix = live_remote_prefix_string config
      in ''ip -'' @ v @ '' route del '' @ prefix @ '' > /dev/null 2>&1 ; ip -'' @ v @ '' route add '' @ prefix @
        '' dev '' @ name @ '' '' @ (if is_anyip config then [] else ''via '' @ live_gateway_ip_string config) @
        '' > /dev/null 2>&1'')"

definition route_traffic_to_device :: "net_env \<Rightarrow> config \<Rightarrow> string \<Rightarrow> string list \<Rightarrow> string list run" where
  "route_traffic_to_device env config name hist =
     (let (result, hist) = system_cmd (ne_shell env) (route_command config name) hist in
      if result = -1 \<or> WEXITSTATUS result \<noteq> 0 then Die else Done hist)"

text \<open>The socket is made, bound and given a receive buffer; the result is the index of the device.\<close>

definition packet_socket_setup :: "net_env \<Rightarrow> string \<Rightarrow> nat run" where
  "packet_socket_setup env device_name =
     check (ne_if_nametoindex env device_name \<noteq> 0 \<and> ne_packet_socket env device_name)
       (Done (ne_if_nametoindex env device_name))"

definition packet_socket_new :: "net_env \<Rightarrow> string \<Rightarrow> nat run" where
  "packet_socket_new env device_name = packet_socket_setup env device_name"

text \<open>The name of the device, the index that the packet socket is bound to, and the commands.\<close>

definition local_netdev_new :: "net_env \<Rightarrow> config \<Rightarrow> (string \<times> nat \<times> string list) run" where
  "local_netdev_new env config =
     rbind (check_remote_address env config) (\<lambda>_.
     rbind (create_device env config []) (\<lambda>(name, index, hist).
     rbind (set_device_offload_flags env) (\<lambda>_.
     rbind (bring_up_device env) (\<lambda>_.
     rbind (if is_anyip config then rbind (check_local_anyip env config) (\<lambda>_. Done hist)
       else net_setup_dev_address env name (live_local_ip config) (live_prefix_len config) hist) (\<lambda>hist.
     rbind (route_traffic_to_device env config name hist) (\<lambda>hist.
     rbind (packet_socket_new env name) (\<lambda>psock_index. Done (name, psock_index, hist))))))))"

definition wire_route_command :: "config \<Rightarrow> string \<Rightarrow> string" where
  "wire_route_command config name =
     (let v = (if wire_protocol config = AF_INET6 then ''-6'' else []); prefix = live_remote_prefix_string config
      in ''ip '' @ v @ '' route del '' @ prefix @ '' > /dev/null 2>&1 ; ip '' @ v @ '' route add '' @ prefix @
        '' dev '' @ name @ '' via '' @ live_gateway_ip_string config @ '' > /dev/null 2>&1'')"

definition wire_client_netdev_new :: "net_env \<Rightarrow> config \<Rightarrow> (string \<times> string list) run" where
  "wire_client_netdev_new env config =
     rbind (check_remote_address env config) (\<lambda>_.
     let name = wire_client_device config in
     rbind (net_setup_dev_address env name (live_local_ip config) (live_prefix_len config) []) (\<lambda>hist.
     Done (name, verbose_system env (wire_route_command config name) hist)))"

text \<open>The device, the index of the packet socket, its filter and the commands.\<close>

definition wire_server_netdev_new ::
  "net_env \<Rightarrow> config \<Rightarrow> string \<Rightarrow> bytes \<Rightarrow> (string \<times> nat \<times> sock_filter list \<times> string list) run" where
  "wire_server_netdev_new env config device client_ether =
     rbind (net_setup_dev_address env device (live_gateway_ip config) (live_prefix_len config) []) (\<lambda>hist.
     rbind (packet_socket_new env device) (\<lambda>index.
     rbind (packet_socket_set_filter client_ether (live_local_ip config)) (\<lambda>prog.
     Done (device, index, prog, hist))))"

definition wire_server_netdev_free :: "net_env \<Rightarrow> config \<Rightarrow> string \<Rightarrow> string list \<Rightarrow> string list run" where
  "wire_server_netdev_free env config name hist =
     net_del_dev_address env name (live_gateway_ip config) (live_prefix_len config) hist"

subsection \<open>What the filter accepts\<close>

lemma bpf_ldw:
  "bpf_machine m \<Longrightarrow> m (sf 0x20 jt jf k # p) a frame =
     (if unat k + 3 < length frame then m p (word_at frame (unat k)) frame else 0)"
  by (simp add: bpf_machine_def ld_be32_def word_at_def)

lemma bpf_ldh:
  "bpf_machine m \<Longrightarrow> m (sf 0x28 jt jf k # p) a frame =
     (if unat k + 1 < length frame then m p (word_of_nat (unat (be16 (frame ! unat k) (frame ! (unat k + 1))))) frame else 0)"
  by (simp add: bpf_machine_def ld_be16_def)

lemma bpf_jeq:
  "bpf_machine m \<Longrightarrow> m (sf 0x15 jt jf k # p) a frame =
     (if a = k then m (drop (unat jt) p) a frame else m (drop (unat jf) p) a frame)"
  by (simp add: bpf_machine_def)

lemma bpf_ret: "bpf_machine m \<Longrightarrow> m (sf 0x6 jt jf k # p) a frame = k"
  by (simp add: bpf_machine_def)

lemmas bpf_simps = bpf_ldw bpf_ldh bpf_jeq bpf_ret

lemma sf_set_k: "(sf code jt jf k)\<lparr>bpf_k := k'\<rparr> = sf code jt jf k'"
  by (simp add: sf_def)

lemma be32_inject: "be32 a b c d = be32 a' b' c' d' \<longleftrightarrow> a = a' \<and> b = b' \<and> c = c' \<and> d = d'"
  unfolding be32_def by (metis byte_of_le32)

lemma be32_low: "word_of_nat (unat (be16 a b)) = be32 0 0 a b"
  by (simp add: unat_be16 be32_def le32_def)

lemma be32_low_ucast: "(ucast (be16 a b) :: u32) = be32 0 0 a b"
  by (simp only: be32_low [symmetric] of_nat_unat)

lemma be32_lit: "(0x800 :: u32) = be32 0 0 8 0" "(0x86dd :: u32) = be32 0 0 0x86 0xdd"
  by (simp_all add: word_unat_eq_iff unat_be32)

lemma take_drop_nth: "i + n \<le> length xs \<Longrightarrow> take n (drop i xs) = map (\<lambda>j. xs ! (i + j)) [0..<n]"
  by (rule nth_equalityI) simp_all

lemma length_nth_eq: "length xs = n \<Longrightarrow> xs = map (\<lambda>j. xs ! j) [0..<n]"
  by (rule nth_equalityI) simp_all

lemma if_chain: "(if a then if b then x else y else y) = (if a \<and> b then x else y)"
  by simp

lemmas filter_simps = packet_socket_set_filter_def set_k_def bpf_ipv4_src_def bpf_ipv6_src_def sf_set_k bpf_simps
  be32_low_ucast word_at_def be32_inject be32_lit

lemma ether_bytes:
  assumes "length ether = 6" "30 \<le> length frame"
  shows "take 6 (drop 6 frame) = ether \<longleftrightarrow>
     (frame ! 8 = ether ! 2 \<and> frame ! 9 = ether ! 3 \<and> frame ! 10 = ether ! 4 \<and> frame ! 11 = ether ! 5) \<and>
     (frame ! 6 = ether ! 0 \<and> frame ! 7 = ether ! 1)"
proof -
  have e: "ether = map (\<lambda>j. ether ! j) [0, 1, 2, 3, 4, 5]"
    using length_nth_eq [OF assms(1)] by (simp add: upt_rec eval_nat_numeral)
  have f: "take 6 (drop 6 frame) = map (\<lambda>j. frame ! j) [6, 7, 8, 9, 10, 11]"
    using assms(2) by (simp add: take_drop_nth upt_rec)
  show ?thesis unfolding f by (subst e) auto
qed

lemma from_client_ipv4:
  assumes "length ether = 6" "ip_family ip = AF_INET" "4 \<le> length (ip_data ip)" "30 \<le> length frame"
  shows "from_client ether ip frame \<longleftrightarrow>
     (frame ! 8 = ether ! 2 \<and> frame ! 9 = ether ! 3 \<and> frame ! 10 = ether ! 4 \<and> frame ! 11 = ether ! 5) \<and>
     (frame ! 6 = ether ! 0 \<and> frame ! 7 = ether ! 1) \<and> (frame ! 12 = 8 \<and> frame ! 13 = 0) \<and>
     (frame ! 26 = ip_data ip ! 0 \<and> frame ! 27 = ip_data ip ! 1 \<and> frame ! 28 = ip_data ip ! 2 \<and> frame ! 29 = ip_data ip ! 3)"
proof -
  have i: "take 4 (ip_data ip) = map (\<lambda>j. ip_data ip ! j) [0, 1, 2, 3]"
    using take_drop_nth [of 0 4 "ip_data ip"] assms(3) by (simp add: upt_rec eval_nat_numeral)
  have f: "take 2 (drop 12 frame) = map (\<lambda>j. frame ! j) [12, 13]"
    "take 4 (drop 26 frame) = map (\<lambda>j. frame ! j) [26, 27, 28, 29]"
    using assms(4) by (simp_all add: take_drop_nth upt_rec)
  show ?thesis using assms(2,4) ether_bytes [OF assms(1), of frame] by (simp add: from_client_def i f conj_assoc)
qed

lemma filter_ipv4:
  assumes "bpf_machine m" "length ether = 6" "ip_family ip = AF_INET" "4 \<le> length (ip_data ip)"
  shows "\<exists>prog. packet_socket_set_filter ether ip = Done prog \<and>
     m prog 0 frame = (if from_client ether ip frame then 0xffff else 0)"
proof (cases "30 \<le> length frame")
  case True
  show ?thesis unfolding from_client_ipv4 [OF assms(2-4) True] if_chain [symmetric] using assms(1,3) True
    by (simp add: filter_simps del: add_2_eq_Suc')
next
  case False
  then have "\<not> from_client ether ip frame" using assms(3) by (simp add: from_client_def)
  then show ?thesis using assms(1,3) False by (simp add: filter_simps)
qed
lemma from_client_ipv6:
  assumes "length ether = 6" "ip_family ip = AF_INET6" "length (ip_data ip) = 16" "38 \<le> length frame"
  shows "from_client ether ip frame \<longleftrightarrow>
     (frame ! 8 = ether ! 2 \<and> frame ! 9 = ether ! 3 \<and> frame ! 10 = ether ! 4 \<and> frame ! 11 = ether ! 5) \<and>
     (frame ! 6 = ether ! 0 \<and> frame ! 7 = ether ! 1) \<and> (frame ! 12 = 0x86 \<and> frame ! 13 = 0xdd) \<and>
     (frame ! 22 = ip_data ip ! 0 \<and> frame ! 23 = ip_data ip ! 1 \<and> frame ! 24 = ip_data ip ! 2 \<and> frame ! 25 = ip_data ip ! 3) \<and>
     (frame ! 26 = ip_data ip ! 4 \<and> frame ! 27 = ip_data ip ! 5 \<and> frame ! 28 = ip_data ip ! 6 \<and> frame ! 29 = ip_data ip ! 7) \<and>
     (frame ! 30 = ip_data ip ! 8 \<and> frame ! 31 = ip_data ip ! 9 \<and> frame ! 32 = ip_data ip ! 10 \<and> frame ! 33 = ip_data ip ! 11) \<and>
     (frame ! 34 = ip_data ip ! 12 \<and> frame ! 35 = ip_data ip ! 13 \<and> frame ! 36 = ip_data ip ! 14 \<and> frame ! 37 = ip_data ip ! 15)"
proof -
  have i: "ip_data ip = map (\<lambda>j. ip_data ip ! j) [0, 1, 2, 3, 4, 5, 6, 7, 8, 9, 10, 11, 12, 13, 14, 15]"
    using length_nth_eq [OF assms(3)] by (simp add: upt_rec eval_nat_numeral)
  have f: "take 2 (drop 12 frame) = map (\<lambda>j. frame ! j) [12, 13]"
    "take 16 (drop 22 frame) = map (\<lambda>j. frame ! j) [22, 23, 24, 25, 26, 27, 28, 29, 30, 31, 32, 33, 34, 35, 36, 37]"
    using assms(4) by (simp_all add: take_drop_nth upt_rec)
  have d: "take 16 (drop 22 frame) = ip_data ip \<longleftrightarrow>
     (frame ! 22 = ip_data ip ! 0 \<and> frame ! 23 = ip_data ip ! 1 \<and> frame ! 24 = ip_data ip ! 2 \<and> frame ! 25 = ip_data ip ! 3) \<and>
     (frame ! 26 = ip_data ip ! 4 \<and> frame ! 27 = ip_data ip ! 5 \<and> frame ! 28 = ip_data ip ! 6 \<and> frame ! 29 = ip_data ip ! 7) \<and>
     (frame ! 30 = ip_data ip ! 8 \<and> frame ! 31 = ip_data ip ! 9 \<and> frame ! 32 = ip_data ip ! 10 \<and> frame ! 33 = ip_data ip ! 11) \<and>
     (frame ! 34 = ip_data ip ! 12 \<and> frame ! 35 = ip_data ip ! 13 \<and> frame ! 36 = ip_data ip ! 14 \<and> frame ! 37 = ip_data ip ! 15)"
    unfolding f by (subst i) (simp add: conj_assoc)
  show ?thesis using assms(2,4) ether_bytes [OF assms(1), of frame] by (simp add: from_client_def d f(1) conj_assoc)
qed

lemma filter_ipv6:
  assumes "bpf_machine m" "length ether = 6" "ip_family ip = AF_INET6" "length (ip_data ip) = 16"
  shows "\<exists>prog. packet_socket_set_filter ether ip = Done prog \<and>
     m prog 0 frame = (if from_client ether ip frame then 0xffff else 0)"
proof (cases "38 \<le> length frame")
  case True
  show ?thesis unfolding from_client_ipv6 [OF assms(2-4) True] if_chain [symmetric] using assms(1,3) True
    by (simp add: filter_simps del: add_2_eq_Suc')
next
  case False
  then have "\<not> from_client ether ip frame" using assms(3) by (simp add: from_client_def)
  then show ?thesis using assms(1,3) False by (simp add: filter_simps)
qed

text \<open>A machine for the instructions of the filter.\<close>

function bpf_run :: "sock_filter list \<Rightarrow> u32 \<Rightarrow> bytes \<Rightarrow> u32" where
  "bpf_run [] a frame = 0"
| "bpf_run (i # p) a frame =
     (if bpf_code i = 0x20 then (case ld_be32 frame (unat (bpf_k i)) of Done w \<Rightarrow> bpf_run p w frame | _ \<Rightarrow> 0)
      else if bpf_code i = 0x28
      then (case ld_be16 frame (unat (bpf_k i)) of Done w \<Rightarrow> bpf_run p (word_of_nat (unat w)) frame | _ \<Rightarrow> 0)
      else if bpf_code i = 0x15
      then bpf_run (drop (unat (if a = bpf_k i then bpf_jt i else bpf_jf i)) p) a frame
      else bpf_k i)"
  by pat_completeness auto
termination
  by (relation "measure (\<lambda>(p, a, frame). length p)") auto

lemma bpf_machine_run: "bpf_machine bpf_run"
  by (simp add: bpf_machine_def sf_def)

text \<open>C38: The filter of the wire server: on every machine that runs such programs as documented, it keeps exactly the
  frames with the client's Ethernet address as their source that hold an IP packet of the configured family from
  the client's live address, and of a frame it keeps at most 65535 bytes.\<close>

theorem packet_filter_exact:
  assumes "bpf_machine m" "length client_ether = 6" "length (ip_data client_live_ip) = 16"
    "ip_family client_live_ip \<noteq> AF_UNSPEC"
  shows "\<exists>prog. packet_socket_set_filter client_ether client_live_ip = Done prog \<and>
    (\<forall>frame. m prog 0 frame = (if from_client client_ether client_live_ip frame then 0xffff else 0))"
proof -
  let ?ok = "\<lambda>frame prog. packet_socket_set_filter client_ether client_live_ip = Done prog \<and>
    m prog 0 frame = (if from_client client_ether client_live_ip frame then 0xffff else 0)"
  have "\<exists>prog. ?ok frame prog" for frame
  proof (cases "ip_family client_live_ip")
    case AF_INET
    then show ?thesis using assms by (intro filter_ipv4) simp_all
  next
    case AF_INET6
    then show ?thesis using assms by (intro filter_ipv6) simp_all
  qed (use assms(4) in simp)
  then show ?thesis by (metis run.inject)
qed

theorem packet_filter_exact_witness:
  "\<exists>prog. packet_socket_set_filter [2, 0, 0, 0, 0, 1] (ip_from_ipv4 [10, 0, 0, 1]) = Done prog \<and>
    bpf_run prog 0 ([2, 0, 0, 0, 0, 2, 2, 0, 0, 0, 0, 1, 8, 0] @ replicate 12 0 @ [10, 0, 0, 1, 10, 0, 0, 2]) = 0xffff"
  using packet_filter_exact [OF bpf_machine_run, of "[2, 0, 0, 0, 0, 1]" "ip_from_ipv4 [10, 0, 0, 1]"]
  by (auto simp: from_client_def ip_from_ipv4_def ipv4_init_def poke_def numeral_eq_Suc)

subsection \<open>What sniffing returns\<close>

text \<open>The packet with a frame in its buffer, as it is given to the parser.\<close>

definition fresh_packet :: "bytes \<Rightarrow> sniffed_frame \<Rightarrow> packet" where
  "fresh_packet buf fr = (packet_new (poke buf 0 (fr_bytes fr)))\<lparr>p_time_usecs := the (fr_time_usecs fr)\<rparr>"

lemma timed_update [simp]:
  "used_headers (packet\<lparr>p_time_usecs := t\<rparr>) = used_headers packet"
  "packet_clean (packet\<lparr>p_time_usecs := t\<rparr>) = packet_clean packet"
  "used_headers (packet\<lparr>p_l2_header_bytes := n, p_time_usecs := t\<rparr>) = used_headers packet"
  by (simp_all add: used_headers_def packet_clean_def packet_wf_def packet_header_count_def)

lemma parse_timed_ok:
  assumes "n < length buf"
  shows "parse_ok (if layer = PACKET_LAYER_2_ETHERNET \<and> 14 \<le> n then (packet_new buf)\<lparr>p_l2_header_bytes := 14, p_time_usecs := t\<rparr>
      else (packet_new buf)\<lparr>p_time_usecs := t\<rparr>)
    (case layer of
      PACKET_LAYER_2_ETHERNET \<Rightarrow> parse_layer2_packet ((packet_new buf)\<lparr>p_time_usecs := t\<rparr>) 0 n
    | PACKET_LAYER_3_IP \<Rightarrow> parse_layer3_packet ((packet_new buf)\<lparr>p_time_usecs := t\<rparr>) 0 n)"
proof -
  have r: "ready ((packet_new buf)\<lparr>p_time_usecs := t\<rparr>) 0 n"
    "14 \<le> n \<Longrightarrow> ready ((packet_new buf)\<lparr>p_l2_header_bytes := 14, p_time_usecs := t\<rparr>) 14 n"
    using assms by (simp_all add: ready_def chained_def) (simp_all add: packet_new_def)
  show ?thesis
  proof (cases layer)
    case PACKET_LAYER_3_IP
    then show ?thesis using parsers_ok(6) [OF r(1)] by simp
  next
    case PACKET_LAYER_2_ETHERNET
    show ?thesis
    proof (cases "n < 14")
      case True
      then show ?thesis using parse_ok_bad [OF r(1)] PACKET_LAYER_2_ETHERNET by (simp add: parse_layer2_packet_def)
    next
      case False
      then have "ld_be16 buf 12 = Done (be16 (buf ! 12) (buf ! 13))" using assms by (simp add: ld_be16_def)
      then show ?thesis using parsers_ok(5) [OF r(2)] PACKET_LAYER_2_ETHERNET False
        by (simp add: parse_layer2_packet_def Let_def packet_new_def)
    qed
  qed
qed

lemma parse_ok_Done:
  "parse_ok packet r \<Longrightarrow> \<exists>packet' result error. r = Done (packet', result, error) \<and>
     p_buffer packet' = p_buffer packet \<and> chained packet'"
  by (auto simp: parse_ok_def parsed_def)

lemma parse_fresh:
  assumes "length (fr_bytes fr) < length buf"
  obtains packet result error where
    "parse_packet (fresh_packet buf fr) (length (fr_bytes fr)) layer = Done (packet, result, error)"
    "p_buffer packet = poke buf 0 (fr_bytes fr)" "chained packet"
proof -
  let ?buf = "poke buf 0 (fr_bytes fr)" let ?n = "length (fr_bytes fr)"
  have n: "?n < length ?buf" using assms by simp
  obtain packet result error where r: "(case layer of
      PACKET_LAYER_2_ETHERNET \<Rightarrow> parse_layer2_packet (fresh_packet buf fr) 0 ?n
    | PACKET_LAYER_3_IP \<Rightarrow> parse_layer3_packet (fresh_packet buf fr) 0 ?n) = Done (packet, result, error)"
    "p_buffer packet = ?buf" "chained packet"
    using parse_ok_Done [OF parse_timed_ok [OF n, of layer "the (fr_time_usecs fr)"]]
    unfolding fresh_packet_def by (auto split: if_splits)
  have b: "p_buffer (fresh_packet buf fr) = ?buf" by (simp add: fresh_packet_def)
  obtain hex where "hex_dump ?buf ?n = Done hex" using hex_dump_safe [of ?n ?buf] n by auto
  then show ?thesis using that r n b by (cases "result = PACKET_BAD") (auto simp: parse_packet_def)
qed

text \<open>The answers that are a packet of the right kind on the right device, and those among them that the parser does not
  know. The \<open>k\<close>-th answer is read into the \<open>k\<close>-th buffer.\<close>

definition wanted :: "int \<Rightarrow> direction \<Rightarrow> recv_answer \<Rightarrow> bool" where
  "wanted index dir answer \<longleftrightarrow> (case answer of
     Frame fr \<Rightarrow> (dir = DIRECTION_OUTBOUND \<longrightarrow> fr_pkttype fr = PACKET_OUTGOING) \<and>
       (dir = DIRECTION_INBOUND \<longrightarrow> fr_pkttype fr = PACKET_HOST) \<and> fr_ifindex fr = index
   | _ \<Rightarrow> False)"

definition unknown :: "packet_layer_t \<Rightarrow> bytes \<Rightarrow> recv_answer \<Rightarrow> bool" where
  "unknown layer buf answer \<longleftrightarrow> (case answer of
     Frame fr \<Rightarrow> (case parse_packet (fresh_packet buf fr) (length (fr_bytes fr)) layer of
         Done (packet, result, error) \<Rightarrow> result = PACKET_UNKNOWN_L4
       | _ \<Rightarrow> False)
   | _ \<Rightarrow> False)"

fun skipped :: "(nat \<Rightarrow> bytes) \<Rightarrow> int \<Rightarrow> packet_layer_t \<Rightarrow> direction \<Rightarrow> nat \<Rightarrow> recv_answer list \<Rightarrow> bool" where
  "skipped mem index layer dir k [] = True"
| "skipped mem index layer dir k (answer # answers) =
     ((wanted index dir answer \<longrightarrow> unknown layer (mem k) answer) \<and> skipped mem index layer dir (Suc k) answers)"

text \<open>What the code needs of the system: no call fails, and a packet is smaller than the buffer.\<close>

definition proper :: "recv_answer \<Rightarrow> bool" where
  "proper answer \<longleftrightarrow> (case answer of
     Frame fr \<Rightarrow> length (fr_bytes fr) < PACKET_READ_BYTES \<and> fr_time_usecs fr \<noteq> None
   | Interrupted \<Rightarrow> True | Recv_failed \<Rightarrow> False)"

lemma receive_proper:
  assumes "proper answer" "length buf = PACKET_READ_BYTES"
  shows "packet_socket_receive index dir (packet_new buf) answer =
    Done (case answer of
        Frame fr \<Rightarrow> if wanted index dir answer then Some (fresh_packet buf fr, length (fr_bytes fr)) else None
      | _ \<Rightarrow> None)"
  using assms
  by (cases answer)
    (auto simp: packet_socket_receive_def Let_def proper_def wanted_def store_def fresh_packet_def packet_new_def)

definition sniffed_result ::
  "(nat \<Rightarrow> bytes) \<Rightarrow> int \<Rightarrow> packet_layer_t \<Rightarrow> direction \<Rightarrow> nat \<Rightarrow> recv_answer list \<Rightarrow> nat \<Rightarrow> received \<Rightarrow> recv_answer list \<Rightarrow> bool"
  where
  "sniffed_result mem index layer dir k answers n r rest \<longleftrightarrow>
     (case r of
        Waiting \<Rightarrow> rest = [] \<and> skipped mem index layer dir k answers \<and> n = length (filter (wanted index dir) answers)
      | _ \<Rightarrow> \<exists>before fr. answers = before @ Frame fr # rest \<and> skipped mem index layer dir k before \<and>
          wanted index dir (Frame fr) \<and> \<not> unknown layer (mem (k + length before)) (Frame fr) \<and>
          n = Suc (length (filter (wanted index dir) before)) \<and>
          (\<forall>packet. r = Received packet \<longrightarrow> chained packet \<and> take (length (fr_bytes fr)) (p_buffer packet) = fr_bytes fr))"

lemma sniffed_result_skip:
  assumes "sniffed_result mem index layer dir (Suc k) answers n r rest"
    "wanted index dir answer \<longrightarrow> unknown layer (mem k) answer"
  shows "sniffed_result mem index layer dir k (answer # answers) (if wanted index dir answer then Suc n else n) r rest"
proof (cases "r = Waiting")
  case True
  then show ?thesis using assms by (simp add: sniffed_result_def)
next
  case False
  then obtain before fr where b: "answers = before @ Frame fr # rest" "skipped mem index layer dir (Suc k) before"
    "wanted index dir (Frame fr)" "\<not> unknown layer (mem (Suc k + length before)) (Frame fr)"
    "n = Suc (length (filter (wanted index dir) before))"
    "\<forall>packet. r = Received packet \<longrightarrow> chained packet \<and> take (length (fr_bytes fr)) (p_buffer packet) = fr_bytes fr"
    using assms(1) by (cases r) (auto simp: sniffed_result_def)
  then show ?thesis using assms(2) False
    by (cases r) (auto simp: sniffed_result_def intro!: exI [of _ "answer # before"])
qed

lemma netdev_receive_loop_ok:
  assumes "\<forall>k. length (mem k) = PACKET_READ_BYTES" "list_all proper answers"
  shows "\<exists>r n rest. netdev_receive_loop mem index layer dir k answers num_packets = Done (r, num_packets + n, rest) \<and>
    sniffed_result mem index layer dir k answers n r rest"
  using assms(2)
proof (induction answers arbitrary: k num_packets)
  case Nil
  then show ?case by (simp add: sniffed_result_def)
next
  case (Cons answer answers)
  have len: "length (mem k) = PACKET_READ_BYTES" using assms(1) by simp
  have proper: "proper answer" "list_all proper answers" using Cons.prems by simp_all
  note receive = receive_proper [OF proper(1) len, of index dir]
  have skip: "\<exists>r n rest. netdev_receive_loop mem index layer dir (Suc k) answers num = Done (r, num + n, rest) \<and>
      sniffed_result mem index layer dir (Suc k) answers n r rest" for num
    by (rule Cons.IH [OF proper(2)])
  show ?case
  proof (cases "wanted index dir answer")
    case False
    then have "netdev_receive_loop mem index layer dir k (answer # answers) num_packets =
        netdev_receive_loop mem index layer dir (Suc k) answers num_packets"
      using receive by (simp split: recv_answer.splits)
    then show ?thesis using skip [of num_packets] sniffed_result_skip [of mem index layer dir k answers _ _ _ answer] False
      by fastforce
  next
    case True
    then obtain fr where fr: "answer = Frame fr" by (auto simp: wanted_def split: recv_answer.splits)
    have "length (fr_bytes fr) < length (mem k)" using proper(1) len fr by (simp add: proper_def)
    then obtain packet result error where p:
      "parse_packet (fresh_packet (mem k) fr) (length (fr_bytes fr)) layer = Done (packet, result, error)"
      "p_buffer packet = poke (mem k) 0 (fr_bytes fr)" "chained packet" by (rule parse_fresh)
    have u: "unknown layer (mem k) answer \<longleftrightarrow> result = PACKET_UNKNOWN_L4" using p(1) fr by (simp add: unknown_def)
    have data: "take (length (fr_bytes fr)) (p_buffer packet) = fr_bytes fr" using p(2) by (simp add: poke_def)
    show ?thesis
    proof (cases "result = PACKET_UNKNOWN_L4")
      case unknown_l4: True
      then have "netdev_receive_loop mem index layer dir k (answer # answers) num_packets =
          netdev_receive_loop mem index layer dir (Suc k) answers (Suc num_packets)"
        using receive p(1) True fr by simp
      then show ?thesis using skip [of "Suc num_packets"] u unknown_l4 True
          sniffed_result_skip [of mem index layer dir k answers _ _ _ answer] by fastforce
    next
      case False
      then obtain r where "netdev_receive_loop mem index layer dir k (answer # answers) num_packets =
          Done (r, num_packets + 1, answers)" "r = Received packet \<or> (\<exists>e. r = Bad_packet e)"
        using receive p(1) True fr by (cases result) simp_all
      then show ?thesis using False True u p(3) data fr
        by (intro exI [of _ r] exI [of _ 1] exI [of _ answers] conjI)
          (auto simp: sniffed_result_def intro!: exI [of _ "[]"])
    qed
  qed
qed



text \<open>Every read that a signal interrupts leaves a packet in the queue of the tun device.\<close>

lemma local_netdev_read_queue_takes:
  assumes "\<forall>j. tun j \<noteq> Tun_failed \<and> (\<forall>b. tun j = Tun_bytes b \<longrightarrow> b \<le> TUN_READ_BYTES)"
  shows "local_netdev_read_queue tun i n taken = Done (taken + length (filter (\<lambda>j. tun j \<noteq> Tun_interrupted) [i..<i + n]))"
proof (induction n arbitrary: i taken)
  case (Suc n)
  then show ?case using assms by (cases "tun i") (simp_all add: upt_conv_Cons del: upt_Suc)
qed simp

lemma open_tun_name: "open_tun env n = Done name \<Longrightarrow> name = ''tun0''"
  by (induction n) (auto simp: run_simps split: option.splits if_splits)

lemma create_device_name: "create_device env config hist = Done (name, index, hist') \<Longrightarrow> name = ''tun0''"
  by (auto simp: create_device_def rbind_Done_iff Let_def dest: open_tun_name split: if_splits)

lemma route_traffic_last: "route_traffic_to_device env config name hist = Done hist' \<Longrightarrow> last hist' = route_command config name"
  by (auto simp: route_traffic_to_device_def system_cmd_def split: if_splits)

lemma packet_socket_index: "packet_socket_new env name = Done index \<Longrightarrow> index = ne_if_nametoindex env name \<and> index \<noteq> 0"
  by (auto simp: packet_socket_new_def packet_socket_setup_def check_Done_iff)

text \<open>A device for local tests: its name is \<^verbatim>\<open>tun0\<close>, the remote address is on no interface, and the last command that ran
  set up the route and succeeded.\<close>

lemma local_netdev_new_result:
  assumes "local_netdev_new env config = Done (name, index, hist)"
  shows "name = ''tun0''" "get_ip_device (ne_ifs env) (live_remote_ip config) = Done None"
    "index = ne_if_nametoindex env ''tun0''" "index \<noteq> 0" "last hist = route_command config ''tun0''"
  using assms
  by (auto simp: local_netdev_new_def rbind_Done_iff check_remote_address_def is_ip_local_def
      dest: create_device_name route_traffic_last packet_socket_index split: if_splits)

text \<open>Nothing is changed when the device has the address already.\<close>

lemma net_setup_dev_address_idle:
  "get_ip_device (ne_ifs env) ip = Done (Some dev_name) \<Longrightarrow> net_setup_dev_address env dev_name ip n hist = Done hist"
  by (simp add: net_setup_dev_address_def)

end
