(* ===== verification/Tunnel.thy ===== *)
theory Tunnel
  imports Socket PacketParser
begin

section \<open>The tunnel\<close>

text \<open>
  The model of \<^verbatim>\<open>qosmos_native.cpp\<close>: the sockets of the tunnel, its handshake with the server, the two threads that
  carry packets between the device of the VPN and the sockets, and the rewriting of a packet's type of
  service. The threads interleave in a step relation; a thread that takes the mutex while it is held has no
  step, as with the mutex of the system, which is not recursive. \<^verbatim>\<open>get_dscp\<close>, which the header declares and no file
  defines, is a parameter. What the system reads and whether a write succeeds is left open. The Java side and
  the logging are not modelled, nor is \<^verbatim>\<open>thread_read_vpn\<close>, which nothing starts.
\<close>

subsection \<open>Sockets\<close>

datatype tunnel_sock = SOCK_CSSIX | ASS_FORWARD_31 | ASS_FORWARD_33 | ASS_FORWARD_41 | ASS_FORWARD_43
  | EXP_FORWARD_EF | CLASS_ZERO_CS0

text \<open>The global variables, in the order in which they are returned to Java.\<close>

definition tunnel_socks :: "tunnel_sock list" where
  "tunnel_socks = [SOCK_CSSIX, ASS_FORWARD_31, ASS_FORWARD_33, ASS_FORWARD_41, ASS_FORWARD_43, EXP_FORWARD_EF, CLASS_ZERO_CS0]"

definition sock_tos :: "tunnel_sock \<Rightarrow> int" where
  "sock_tos s = (if s = CLASS_ZERO_CS0 then 0 else 0x45)"

text \<open>The sockets are made when the first is not there; \<open>new\<close> is what \<^verbatim>\<open>socket\<close> returns. The result is the
  variables, the types of service that were set and what Java gets.\<close>

definition getTunnelSock ::
  "(tunnel_sock \<Rightarrow> int) \<Rightarrow> (tunnel_sock \<Rightarrow> int) \<Rightarrow> (tunnel_sock \<Rightarrow> int) \<times> (int \<times> int) list \<times> int list" where
  "getTunnelSock new fds =
     (let make = (fds SOCK_CSSIX = -1); fds = (if make then new else fds)
      in (fds, if make then map (\<lambda>s. (fds s, sock_tos s)) tunnel_socks else [], map fds tunnel_socks))"

text \<open>The socket for a type of service.\<close>

definition tunnel_for :: "int \<Rightarrow> tunnel_sock" where
  "tunnel_for dscp =
     (if dscp = 140 then ASS_FORWARD_31 else if dscp = 142 then ASS_FORWARD_33
      else if dscp = 143 then ASS_FORWARD_41 else if dscp = 145 then ASS_FORWARD_43
      else if dscp = 146 then EXP_FORWARD_EF else CLASS_ZERO_CS0)"

subsection \<open>The handshake\<close>

definition CTRL_PACKET_BYTES :: nat where "CTRL_PACKET_BYTES = 1024"
definition RECV_BUF_BYTES :: nat where "RECV_BUF_BYTES = 2048"

text \<open>The control packet: a zero and the secret.\<close>

definition control_packet :: "bytes \<Rightarrow> bytes run" where
  "control_packet secret =
     rbind (store (replicate CTRL_PACKET_BYTES 0) 1 secret) (\<lambda>buf. Done (take (length secret + 1) buf))"

text \<open>\<open>recv i\<close> is the \<open>i\<close>-th answer, empty when there is none. The buffer keeps what was received before.\<close>

fun await_answer :: "(nat \<Rightarrow> bytes) \<Rightarrow> nat \<Rightarrow> nat \<Rightarrow> bytes \<Rightarrow> bytes run" where
  "await_answer recv 0 i recvBuf = Done []"
| "await_answer recv (Suc n) i recvBuf =
     rbind (store recvBuf 0 (recv i)) (\<lambda>recvBuf.
     if recv i \<noteq> [] \<and> recvBuf ! 0 = 0
     then rbind (store recvBuf (length (recv i)) [0]) (\<lambda>recvBuf. Done (takeWhile (\<lambda>b. b \<noteq> 0) (drop 1 recvBuf)))
     else await_answer recv n (Suc i) recvBuf)"

text \<open>The packets that were sent, and the answer.\<close>

definition startTunnel :: "(nat \<Rightarrow> bytes) \<Rightarrow> bytes \<Rightarrow> (bytes list \<times> bytes) run" where
  "startTunnel recv secret =
     rbind (control_packet secret) (\<lambda>ctrlPacket.
     rbind (await_answer recv 50 0 (replicate RECV_BUF_BYTES 0)) (\<lambda>answer.
     Done (replicate 2 ctrlPacket, answer)))"

subsection \<open>The type of service of a packet\<close>

text \<open>\<^verbatim>\<open>get_flow_tuples\<close> returns the address of an array of its own frame: there is no string behind it.\<close>

definition get_flow_tuples :: "packet \<Rightarrow> unit run" where
  "get_flow_tuples packet = rbind (get_packet_tuple packet) (\<lambda>_. Done ())"

text \<open>\<open>sizeof(data)\<close> is the size of a pointer. The rest of the function, which starts by reading the string for a key of
  the flow table, reads that dead array.\<close>

definition SIZEOF_POINTER :: nat where "SIZEOF_POINTER = 8"

definition check_modify_dscp :: "bytes \<Rightarrow> packet option run" where
  "check_modify_dscp data =
     (if length data < SIZEOF_POINTER then Oob
      else rbind (parse_packet (packet_new (take SIZEOF_POINTER data)) SIZEOF_POINTER PACKET_LAYER_3_IP) (\<lambda>(newpack, result, error).
        rbind (get_flow_tuples newpack) (\<lambda>_. Oob)))"

subsection \<open>The two threads\<close>

datatype holder = OUTGOING | INCOMING

text \<open>The places of the thread for outgoing packets: before it takes the mutex; before it reads; with a packet; at its
  end.\<close>

datatype out_place = O_LOOP | O_READ | O_SEND bytes | O_END

text \<open>The places of the other thread: before it receives; with a packet before it takes the mutex; with the mutex;
  before it sends a control packet, with the idle time; before it writes; at its end.\<close>

datatype in_place = I_RECV | I_LOCK bytes | I_CHECK bytes | I_KEEP bytes int | I_WRITE bytes | I_END

record tunnel =
  tn_lock :: "holder option"
  tn_running :: bool
  tn_out :: out_place
  tn_in :: in_place
  tn_last_recv_time :: int
  tn_forwarded :: "(tunnel_sock \<times> bytes) list"
  tn_keepalives :: "bytes list"
  tn_delivered :: "bytes list"
  tn_closed :: bool

text \<open>\<^verbatim>\<open>tunnelLoop\<close> starts the threads.\<close>

definition tunnel_start :: tunnel where
  "tunnel_start = \<lparr>tn_lock = None, tn_running = True, tn_out = O_LOOP, tn_in = I_RECV, tn_last_recv_time = 0,
     tn_forwarded = [], tn_keepalives = [], tn_delivered = [], tn_closed = False\<rparr>"

definition BUF_BYTES :: nat where "BUF_BYTES = 4096"

inductive threadOutgoing :: "(bytes \<Rightarrow> int) \<Rightarrow> tunnel \<Rightarrow> tunnel \<Rightarrow> bool" for get_dscp where
  out_stop: "tn_out t = O_LOOP \<Longrightarrow> tn_lock t = None \<Longrightarrow> \<not> tn_running t \<Longrightarrow>
    threadOutgoing get_dscp t (t\<lparr>tn_out := O_END\<rparr>)"
| out_lock: "tn_out t = O_LOOP \<Longrightarrow> tn_lock t = None \<Longrightarrow> tn_running t \<Longrightarrow>
    threadOutgoing get_dscp t (t\<lparr>tn_lock := Some OUTGOING, tn_out := O_READ\<rparr>)"
| out_read: "tn_out t = O_READ \<Longrightarrow> 0 < length buf \<Longrightarrow> length buf \<le> BUF_BYTES \<Longrightarrow>
    threadOutgoing get_dscp t (t\<lparr>tn_out := O_SEND buf\<rparr>)"
| out_again: "tn_out t = O_READ \<Longrightarrow> threadOutgoing get_dscp t (t\<lparr>tn_out := O_LOOP\<rparr>)"
| out_vpn_closed: "tn_out t = O_READ \<Longrightarrow> threadOutgoing get_dscp t (t\<lparr>tn_out := O_END, tn_running := False\<rparr>)"
| out_sent: "tn_out t = O_SEND buf \<Longrightarrow>
    threadOutgoing get_dscp t (t\<lparr>tn_out := O_LOOP, tn_forwarded := tn_forwarded t @ [(tunnel_for (get_dscp buf), buf)]\<rparr>)"
| out_sock_closed: "tn_out t = O_SEND buf \<Longrightarrow> threadOutgoing get_dscp t (t\<lparr>tn_out := O_END, tn_running := False\<rparr>)"

text \<open>The thread reads the clock twice with the mutex; \<open>d\<close> bounds the seconds between the two.\<close>

inductive threadIncoming :: "int \<Rightarrow> tunnel \<Rightarrow> tunnel \<Rightarrow> bool" for d where
  in_recv: "tn_in t = I_RECV \<Longrightarrow> 0 < length buf \<Longrightarrow> length buf \<le> BUF_BYTES \<Longrightarrow> threadIncoming d t (t\<lparr>tn_in := I_LOCK buf\<rparr>)"
| in_again: "tn_in t = I_RECV \<Longrightarrow> threadIncoming d t t"
| in_closed: "tn_in t = I_RECV \<Longrightarrow> threadIncoming d t (t\<lparr>tn_in := I_END, tn_running := False\<rparr>)"
| in_lock: "tn_in t = I_LOCK buf \<Longrightarrow> tn_lock t = None \<Longrightarrow>
    threadIncoming d t (t\<lparr>tn_lock := Some INCOMING, tn_in := I_CHECK buf\<rparr>)"
| in_stopped: "tn_in t = I_CHECK buf \<Longrightarrow> \<not> tn_running t \<Longrightarrow> threadIncoming d t (t\<lparr>tn_lock := None, tn_in := I_END\<rparr>)"
| in_check: "tn_in t = I_CHECK buf \<Longrightarrow> tn_running t \<Longrightarrow> t1 \<le> t2 \<Longrightarrow> t2 \<le> t1 + d \<Longrightarrow>
    threadIncoming d t (if 30 < t2 - t1
      then t\<lparr>tn_last_recv_time := t1, tn_running := False, tn_lock := None, tn_in := I_END\<rparr>
      else t\<lparr>tn_last_recv_time := t1, tn_running := True, tn_lock := None, tn_in := I_KEEP buf (t2 - t1)\<rparr>)"
| in_keep: "tn_in t = I_KEEP buf idle \<Longrightarrow>
    threadIncoming d t (t\<lparr>tn_keepalives := tn_keepalives t @ (if 15 \<le> idle then [buf] else []),
      tn_in := (if hd buf = 0 then I_RECV else I_WRITE buf)\<rparr>)"
| in_written: "tn_in t = I_WRITE buf \<Longrightarrow> threadIncoming d t (t\<lparr>tn_delivered := tn_delivered t @ [buf], tn_in := I_RECV\<rparr>)"
| in_vpn_closed: "tn_in t = I_WRITE buf \<Longrightarrow> threadIncoming d t (t\<lparr>tn_in := I_END, tn_running := False\<rparr>)"

text \<open>\<^verbatim>\<open>tunnelStop\<close>, and the end of \<^verbatim>\<open>tunnelLoop\<close>, which joins both threads and closes the descriptors.\<close>

definition tunnelStop :: "tunnel \<Rightarrow> tunnel" where
  "tunnelStop t = t\<lparr>tn_running := False\<rparr>"

inductive tunnelLoop :: "tunnel \<Rightarrow> tunnel \<Rightarrow> bool" where
  joined: "tn_out t = O_END \<Longrightarrow> tn_in t = I_END \<Longrightarrow> tunnelLoop t (t\<lparr>tn_closed := True\<rparr>)"

inductive tunnel_step :: "(bytes \<Rightarrow> int) \<Rightarrow> int \<Rightarrow> tunnel \<Rightarrow> tunnel \<Rightarrow> bool" for get_dscp d where
  "threadOutgoing get_dscp t t' \<Longrightarrow> tunnel_step get_dscp d t t'"
| "threadIncoming d t t' \<Longrightarrow> tunnel_step get_dscp d t t'"
| "tunnel_step get_dscp d t (tunnelStop t)"
| "tunnelLoop t t' \<Longrightarrow> tunnel_step get_dscp d t t'"

inductive_cases tunnel_stepE: "tunnel_step get_dscp d t t'"

definition tunnel_reachable :: "(bytes \<Rightarrow> int) \<Rightarrow> int \<Rightarrow> tunnel \<Rightarrow> bool" where
  "tunnel_reachable get_dscp d t \<longleftrightarrow> (tunnel_step get_dscp d)\<^sup>*\<^sup>* tunnel_start t"


subsection \<open>The mutex\<close>

text \<open>The thread for outgoing packets takes the mutex at most once and never gives it back.\<close>

fun out_busy :: "out_place \<Rightarrow> bool" where
  "out_busy O_READ = True"
| "out_busy (O_SEND buf) = True"
| "out_busy O_LOOP = False"
| "out_busy O_END = False"

fun in_busy :: "in_place \<Rightarrow> bool" where
  "in_busy (I_CHECK buf) = True"
| "in_busy I_RECV = False"
| "in_busy (I_LOCK buf) = False"
| "in_busy (I_KEEP buf idle) = False"
| "in_busy (I_WRITE buf) = False"
| "in_busy I_END = False"

fun idle_at_most :: "int \<Rightarrow> in_place \<Rightarrow> bool" where
  "idle_at_most d (I_KEEP buf idle) \<longleftrightarrow> idle \<le> d"
| "idle_at_most d (I_CHECK buf) \<longleftrightarrow> True"
| "idle_at_most d I_RECV \<longleftrightarrow> True"
| "idle_at_most d (I_LOCK buf) \<longleftrightarrow> True"
| "idle_at_most d (I_WRITE buf) \<longleftrightarrow> True"
| "idle_at_most d I_END \<longleftrightarrow> True"

definition tunnel_inv :: "int \<Rightarrow> tunnel \<Rightarrow> bool" where
  "tunnel_inv d t \<longleftrightarrow>
     (out_busy (tn_out t) \<longrightarrow> tn_lock t = Some OUTGOING \<and> tn_forwarded t = []) \<and>
     (tn_forwarded t \<noteq> [] \<longrightarrow> tn_lock t = Some OUTGOING \<and> length (tn_forwarded t) = 1 \<and> tn_out t = O_LOOP) \<and>
     (tn_lock t = Some INCOMING \<longleftrightarrow> in_busy (tn_in t)) \<and>
     idle_at_most d (tn_in t) \<and> (d < 15 \<longrightarrow> tn_keepalives t = []) \<and> (tn_closed t \<longrightarrow> tn_out t = O_END)"

lemma tunnel_inv_start: "tunnel_inv d tunnel_start"
  by (simp add: tunnel_inv_def tunnel_start_def)

lemma tunnel_inv_outgoing: "threadOutgoing get_dscp t t' \<Longrightarrow> tunnel_inv d t \<Longrightarrow> tunnel_inv d t'"
  by (induction rule: threadOutgoing.induct) (auto simp: tunnel_inv_def)

lemma tunnel_inv_incoming: "threadIncoming d t t' \<Longrightarrow> tunnel_inv d t \<Longrightarrow> tunnel_inv d t'"
  by (induction rule: threadIncoming.induct) (auto simp: tunnel_inv_def)

lemma tunnel_inv_other: "tunnelLoop t t' \<Longrightarrow> tunnel_inv d t \<Longrightarrow> tunnel_inv d t'" "tunnel_inv d t \<Longrightarrow> tunnel_inv d (tunnelStop t)"
  by (simp_all add: tunnelLoop.simps tunnel_inv_def tunnelStop_def)

lemma tunnel_inv_step: "tunnel_step get_dscp d t t' \<Longrightarrow> tunnel_inv d t \<Longrightarrow> tunnel_inv d t'"
  by (erule tunnel_stepE) (simp_all only: tunnel_inv_outgoing tunnel_inv_incoming tunnel_inv_other)

lemma tunnel_reachable_inv:
  assumes "tunnel_reachable get_dscp d t"
  shows "tunnel_inv d t"
  using assms unfolding tunnel_reachable_def
  by (induction rule: rtranclp_induct) (auto intro: tunnel_inv_start tunnel_inv_step)

text \<open>After its first packet the thread waits for the mutex that it holds itself, and the other thread can hand on
  at most the packet for which it had the mutex before.\<close>

fun pending_of :: "in_place \<Rightarrow> nat" where
  "pending_of (I_KEEP buf idle) = 1"
| "pending_of (I_WRITE buf) = 1"
| "pending_of (I_CHECK buf) = 0"
| "pending_of I_RECV = 0"
| "pending_of (I_LOCK buf) = 0"
| "pending_of I_END = 0"

definition wedged :: "tunnel \<Rightarrow> bool" where
  "wedged t \<longleftrightarrow> tn_lock t = Some OUTGOING \<and> tn_out t = O_LOOP \<and> \<not> in_busy (tn_in t) \<and> \<not> tn_closed t"

definition no_more :: "tunnel \<Rightarrow> tunnel \<Rightarrow> bool" where
  "no_more t t' \<longleftrightarrow> wedged t' \<and> tn_forwarded t' = tn_forwarded t \<and>
     length (tn_delivered t') + pending_of (tn_in t') \<le> length (tn_delivered t) + pending_of (tn_in t)"

lemma wedged_outgoing: "threadOutgoing get_dscp t t' \<Longrightarrow> wedged t \<Longrightarrow> no_more t t'"
  by (induction rule: threadOutgoing.induct) (simp_all add: wedged_def)

lemma wedged_incoming: "threadIncoming d t t' \<Longrightarrow> wedged t \<Longrightarrow> no_more t t'"
  by (induction rule: threadIncoming.induct) (auto simp: wedged_def no_more_def)

lemma wedged_other: "tunnelLoop t t' \<Longrightarrow> wedged t \<Longrightarrow> no_more t t'" "wedged t \<Longrightarrow> no_more t (tunnelStop t)"
  by (auto simp: tunnelLoop.simps wedged_def no_more_def tunnelStop_def)

lemma wedged_step: "tunnel_step get_dscp d t t' \<Longrightarrow> wedged t \<Longrightarrow> no_more t t'"
  by (erule tunnel_stepE) (simp_all only: wedged_outgoing wedged_incoming wedged_other)

lemma wedged_steps:
  assumes "(tunnel_step get_dscp d)\<^sup>*\<^sup>* t t'" "wedged t"
  shows "no_more t t'"
  using assms(1)
proof (induction rule: rtranclp_induct)
  case base
  show ?case using assms(2) by (simp add: no_more_def)
next
  case (step u v)
  have "no_more u v" using step wedged_step by (simp add: no_more_def)
  then show ?case using step.IH by (simp add: no_more_def)
qed

text \<open>C36: A defect: once the tunnel has forwarded a packet it has forwarded its only one. From then on, whatever
  happens, the thread for outgoing packets waits for the mutex that it holds itself, nothing more is forwarded,
  at most one more packet is delivered to the device, and the tunnel never closes its sockets, not even after
  \<^verbatim>\<open>tunnelStop\<close>.\<close>

theorem tunnel_forwards_once:
  assumes "tunnel_reachable get_dscp d t" "tn_forwarded t \<noteq> []" "(tunnel_step get_dscp d)\<^sup>*\<^sup>* t t'"
  shows "length (tn_forwarded t) = 1 \<and> tn_forwarded t' = tn_forwarded t \<and>
    tn_lock t' = Some OUTGOING \<and> tn_out t' = O_LOOP \<and> \<not> tn_closed t' \<and>
    length (tn_delivered t') \<le> length (tn_delivered t) + 1"
proof -
  have inv: "tunnel_inv d t" using assms(1) by (rule tunnel_reachable_inv)
  have "wedged t" using inv assms(2) by (auto simp: tunnel_inv_def wedged_def)
  then have "no_more t t'" by (rule wedged_steps [OF assms(3)])
  moreover have "pending_of (tn_in t) \<le> 1" by (cases "tn_in t") simp_all
  ultimately show ?thesis using inv assms(2) by (auto simp: tunnel_inv_def no_more_def wedged_def)
qed

definition one_forwarded :: tunnel where
  "one_forwarded = tunnel_start\<lparr>tn_lock := Some OUTGOING, tn_forwarded := [(EXP_FORWARD_EF, [69])]\<rparr>"

lemma one_forwarded_reachable: "tunnel_reachable (\<lambda>buf. 146) 1 one_forwarded"
proof -
  let ?step = "tunnel_step (\<lambda>buf. 146) 1"
  let ?a = "tunnel_start\<lparr>tn_lock := Some OUTGOING, tn_out := O_READ\<rparr>"
  let ?b = "?a\<lparr>tn_out := O_SEND [69]\<rparr>"
  let ?c = "?b\<lparr>tn_out := O_LOOP, tn_forwarded := tn_forwarded ?b @ [(tunnel_for 146, [69])]\<rparr>"
  have "?step tunnel_start ?a"
    by (rule tunnel_step.intros(1), rule out_lock) (simp_all add: tunnel_start_def)
  moreover have "?step ?a ?b"
    by (rule tunnel_step.intros(1), rule out_read) (simp_all add: BUF_BYTES_def)
  moreover have "?step ?b ?c"
    by (rule tunnel_step.intros(1), rule out_sent) simp
  ultimately have "?step\<^sup>*\<^sup>* tunnel_start ?c"
    by (blast intro: converse_rtranclp_into_rtranclp)
  moreover have "?c = one_forwarded"
    by (simp add: one_forwarded_def tunnel_start_def tunnel_for_def)
  ultimately show ?thesis by (simp add: tunnel_reachable_def)
qed

theorem tunnel_forwards_once_witness:
  "tn_forwarded (tunnelStop one_forwarded) = [(EXP_FORWARD_EF, [69])] \<and> \<not> tn_closed (tunnelStop one_forwarded)"
proof -
  have "(tunnel_step (\<lambda>buf. 146) 1)\<^sup>*\<^sup>* one_forwarded (tunnelStop one_forwarded)"
    by (rule r_into_rtranclp) (rule tunnel_step.intros(3))
  then show ?thesis
    using tunnel_forwards_once [OF one_forwarded_reachable] by (simp add: one_forwarded_def)
qed

text \<open>A defect: while the two clock readings that the thread for incoming packets makes with the mutex are less
  than 15 seconds apart, the tunnel never sends a keep-alive packet, for however long it was idle: the time
  of the last packet is set right before the idle time is computed from it.\<close>

theorem tunnel_never_keeps_alive:
  assumes "tunnel_reachable get_dscp d t" "d < 15"
  shows "tn_keepalives t = []"
  using tunnel_reachable_inv [OF assms(1)] assms(2) by (simp add: tunnel_inv_def)

theorem tunnel_never_keeps_alive_witness: "tn_keepalives one_forwarded = []"
  by (rule tunnel_never_keeps_alive [OF one_forwarded_reachable]) simp

subsection \<open>The handshake's buffers\<close>

lemma control_packet_bytes:
  "control_packet secret = (if length secret < CTRL_PACKET_BYTES then Done (0 # secret) else Oob)"
proof (cases "length secret < CTRL_PACKET_BYTES")
  case True
  have "poke (replicate CTRL_PACKET_BYTES 0) 1 secret = (0 # secret) @ replicate (CTRL_PACKET_BYTES - 1 - length secret) 0"
    using True by (simp add: poke_def take_Cons' CTRL_PACKET_BYTES_def)
  then show ?thesis using True by (simp add: control_packet_def store_def)
next
  case False
  then show ?thesis by (simp add: control_packet_def store_def)
qed

definition is_answer :: "bytes \<Rightarrow> bool" where
  "is_answer m \<longleftrightarrow> m \<noteq> [] \<and> hd m = 0"

definition answer_text :: "bytes \<Rightarrow> bytes" where
  "answer_text m = takeWhile (\<lambda>b. b \<noteq> 0) (tl m)"

lemma takeWhile_stop [simp]: "takeWhile (\<lambda>b. b \<noteq> 0) (xs @ 0 # ys) = takeWhile (\<lambda>b. b \<noteq> 0) xs"
  by (induction xs) simp_all

lemma await_answer_first:
  assumes "\<forall>k. length (recv k) < RECV_BUF_BYTES" "length buf = RECV_BUF_BYTES"
  shows "await_answer recv n i buf =
    Done (case find is_answer (map recv [i..<n + i]) of None \<Rightarrow> [] | Some m \<Rightarrow> answer_text m)"
  using assms(2)
proof (induction n arbitrary: i buf)
  case 0
  then show ?case by simp
next
  case (Suc n)
  let ?m = "recv i" let ?buf = "poke buf 0 ?m"
  have m: "length ?m < length buf" using assms(1) Suc.prems by simp
  have upt: "[i..<Suc (n + i)] = i # [Suc i..<Suc (n + i)]" by (simp add: upt_conv_Cons)
  have hd: "?m \<noteq> [] \<Longrightarrow> ?buf ! 0 = hd ?m" using m by (simp add: poke_def nth_append hd_conv_nth)
  have cut: "?m \<noteq> [] \<Longrightarrow> takeWhile (\<lambda>b. b \<noteq> 0) (drop 1 (poke ?buf (length ?m) [0])) = answer_text ?m"
    using m by (cases ?m) (simp_all add: poke_def answer_text_def)
  show ?case
  proof (cases "is_answer ?m")
    case True
    then have "?m \<noteq> []" "?buf ! 0 = 0" using hd by (auto simp: is_answer_def)
    then show ?thesis using True m cut by (simp add: upt store_def del: upt_Suc)
  next
    case False
    then have "\<not> (?m \<noteq> [] \<and> ?buf ! 0 = 0)" using hd by (auto simp: is_answer_def)
    then have "await_answer recv (Suc n) i buf = await_answer recv n (Suc i) ?buf"
      using m by (auto simp: store_def)
    then show ?thesis using m False Suc.prems Suc.IH [of ?buf "Suc i"] by (simp add: upt del: upt_Suc)
  qed
qed

text \<open>C37: The handshake sends a zero and the secret twice and returns the text of the first of fifty answers that
  starts with a zero, when the secret is shorter than the control packet and every answer shorter than the
  receive buffer; a longer secret is written behind the control packet.\<close>

theorem startTunnel_result:
  assumes "\<forall>k. length (recv k) < RECV_BUF_BYTES"
  shows "startTunnel recv secret =
    (if length secret < CTRL_PACKET_BYTES
     then Done ([0 # secret, 0 # secret],
       case find is_answer (map recv [0..<50]) of None \<Rightarrow> [] | Some m \<Rightarrow> answer_text m)
     else Oob)"
  using await_answer_first [OF assms, of "replicate RECV_BUF_BYTES 0" 50 0]
  by (simp add: startTunnel_def control_packet_bytes numeral_2_eq_2)

theorem startTunnel_result_witness:
  "startTunnel (\<lambda>k. if k = 3 then [0, 79, 75] else [1]) [7, 8] = Done ([[0, 7, 8], [0, 7, 8]], [79, 75])"
  using startTunnel_result [of "\<lambda>k. if k = 3 then [0, 79, 75] else [1]" "[7, 8]"]
  by (simp add: CTRL_PACKET_BYTES_def RECV_BUF_BYTES_def is_answer_def answer_text_def upt_rec)

text \<open>An answer that fills the buffer has a zero written behind it.\<close>

lemma await_answer_full:
  assumes "length (recv 0) = RECV_BUF_BYTES" "hd (recv 0) = 0"
  shows "await_answer recv 50 0 (replicate RECV_BUF_BYTES 0) = Oob"
proof -
  have "recv 0 \<noteq> []" using assms(1) by (auto simp: RECV_BUF_BYTES_def)
  moreover have "poke (replicate RECV_BUF_BYTES 0) 0 (recv 0) = recv 0" using assms(1) by (simp add: poke_def)
  moreover have "recv 0 ! 0 = 0" using assms(2) \<open>recv 0 \<noteq> []\<close> by (simp add: hd_conv_nth)
  ultimately show ?thesis using assms(1) by (simp add: store_def eval_nat_numeral)
qed

subsection \<open>A packet's type of service\<close>

text \<open>Eight bytes hold no IP header: nothing is parsed and no pointer of the packet is set.\<close>

lemma parse_eight:
  assumes "length data = 8"
  shows "\<exists>result error. parse_packet (packet_new data) 8 PACKET_LAYER_3_IP = Done (packet_new data, result, error)"
proof -
  have "\<exists>result error. parse_new data 8 PACKET_LAYER_3_IP = Done (packet_new data, result, error)"
    using assms by (simp add: parse_new_def parse_layer3_packet.simps parse_ipv4.simps parse_ipv6.simps ld8_def bad_def)
  then obtain result error where "parse_new data 8 PACKET_LAYER_3_IP = Done (packet_new data, result, error)"
    by blast
  then show ?thesis
    using parse_packet_new [of 8 data PACKET_LAYER_3_IP] assms by (auto simp: packet_new_def)
qed

text \<open>A defect: on every packet of the device the function that should rewrite the type of service fails: it copies
  as many bytes as a pointer has, which is less than an IP header, and then looks for the addresses of a packet
  that has none.\<close>

theorem check_modify_dscp_fails:
  "check_modify_dscp data = (if length data < 8 then Oob else Die)"
proof (cases "length data < 8")
  case True
  then show ?thesis by (simp add: check_modify_dscp_def SIZEOF_POINTER_def)
next
  case False
  then obtain result error where
    "parse_packet (packet_new (take 8 data)) 8 PACKET_LAYER_3_IP = Done (packet_new (take 8 data), result, error)"
    using parse_eight [of "take 8 data"] by auto
  moreover have "get_packet_tuple (packet_new (take 8 data)) = Die"
    by (simp add: get_packet_tuple_def get_ip_pair_def packet_new_def)
  ultimately show ?thesis using False by (simp add: check_modify_dscp_def SIZEOF_POINTER_def get_flow_tuples_def)
qed

end
