(* ===== verification/MemStream.thy ===== *)
theory MemStream
  imports PacketParser
begin

section \<open>Streams in memory\<close>

text \<open>
  The model of \<^verbatim>\<open>open_memstream.c\<close> and \<^verbatim>\<open>fmemopen.c\<close>, the functions behind the streams of systems that lack
  them: a growing buffer that is written, and a buffer that is read. \<^verbatim>\<open>realloc\<close> is a parameter, as it may fail and the
  new part of a block holds any bytes. Sizes are natural numbers: a block that exists is smaller than the range of
  \<^verbatim>\<open>size_t\<close>.
\<close>

subsection \<open>The interfaces\<close>

text \<open>What the library that calls the functions relies on: bytes are appended to what a sink holds, and taken from the
  front of what a source has left.\<close>

locale sink =
  fixes put :: "'s \<Rightarrow> bytes \<Rightarrow> 's option run"
    and held :: "'s \<Rightarrow> bytes"
    and good :: "'s \<Rightarrow> bool"
  assumes put_good: "good s \<Longrightarrow> \<exists>r. put s data = Done r \<and> (\<forall>s'. r = Some s' \<longrightarrow> good s' \<and> held s' = held s @ data)"
begin

fun put_all :: "'s \<Rightarrow> bytes list \<Rightarrow> 's option run" where
  "put_all s [] = Done (Some s)"
| "put_all s (data # rest) = rbind (put s data) (\<lambda>r. case r of None \<Rightarrow> Done None | Some s \<Rightarrow> put_all s rest)"

lemma put_all_good:
  "good s \<Longrightarrow> \<exists>r. put_all s datas = Done r \<and> (\<forall>s'. r = Some s' \<longrightarrow> good s' \<and> held s' = held s @ concat datas)"
proof (induction datas arbitrary: s)
  case (Cons data datas)
  obtain r where r: "put s data = Done r" "\<forall>s'. r = Some s' \<longrightarrow> good s' \<and> held s' = held s @ data"
    using put_good [OF Cons.prems] by blast
  show ?case
  proof (cases r)
    case (Some s')
    then show ?thesis using r Cons.IH [of s'] by auto
  qed (use r in simp)
qed simp

end

locale source =
  fixes get :: "'s \<Rightarrow> nat \<Rightarrow> (bytes \<times> 's) run"
    and remaining :: "'s \<Rightarrow> bytes"
    and good :: "'s \<Rightarrow> bool"
  assumes get_good: "good s \<Longrightarrow> \<exists>s'. get s n = Done (take n (remaining s), s') \<and> good s' \<and> remaining s' = drop n (remaining s)"
begin

fun get_all :: "'s \<Rightarrow> nat list \<Rightarrow> bytes run" where
  "get_all s [] = Done []"
| "get_all s (n # ns) = rbind (get s n) (\<lambda>(data, s). rbind (get_all s ns) (\<lambda>rest. Done (data @ rest)))"

lemma get_all_good: "good s \<Longrightarrow> get_all s ns = Done (take (sum_list ns) (remaining s))"
proof (induction ns arbitrary: s)
  case (Cons n ns)
  obtain s' where s': "get s n = Done (take n (remaining s), s')" "good s'" "remaining s' = drop n (remaining s)"
    using get_good [OF Cons.prems] by blast
  then show ?case using Cons.IH [OF s'(2)] by (simp add: take_add)
qed simp

end

subsection \<open>Writing\<close>

record mem_stream =
  ms_buf :: bytes
  ms_sizeloc :: nat
  ms_buf_size :: nat
  ms_offset :: nat

definition INITIAL_BUF_SIZE :: nat where "INITIAL_BUF_SIZE = 1024"

text \<open>A result of \<open>None\<close> is \<open>-1\<close>.\<close>

definition mem_stream_grow :: "(bytes \<Rightarrow> nat \<Rightarrow> bytes option) \<Rightarrow> mem_stream \<Rightarrow> nat \<Rightarrow> mem_stream option" where
  "mem_stream_grow re stream write_bytes =
     (let needed_bytes = ms_offset stream + write_bytes + 1 in
      if needed_bytes \<le> ms_buf_size stream then Some stream
      else
        let new_size = (if ms_buf_size stream = 0 then INITIAL_BUF_SIZE else 2 * ms_buf_size stream);
            new_size = (if new_size < needed_bytes then needed_bytes else new_size)
        in case re (ms_buf stream) new_size of
             None \<Rightarrow> None
           | Some new_buf \<Rightarrow> Some (stream\<lparr>ms_buf := new_buf, ms_buf_size := new_size\<rparr>))"

definition write_memstream ::
  "(bytes \<Rightarrow> nat \<Rightarrow> bytes option) \<Rightarrow> mem_stream \<Rightarrow> bytes \<Rightarrow> mem_stream option run" where
  "write_memstream re stream data =
     (case mem_stream_grow re stream (length data) of
        None \<Rightarrow> Done None
      | Some stream \<Rightarrow>
          rbind (store (ms_buf stream) (ms_offset stream) data) (\<lambda>buf.
          let offset = ms_offset stream + length data in
          rbind (store buf offset [0]) (\<lambda>buf.
          Done (Some (stream\<lparr>ms_buf := buf, ms_offset := offset, ms_sizeloc := offset\<rparr>)))))"

definition open_memstream :: mem_stream where
  "open_memstream = \<lparr>ms_buf = [], ms_sizeloc = 0, ms_buf_size = 0, ms_offset = 0\<rparr>"

subsection \<open>Reading\<close>

record fmemopen_read_state =
  rs_str :: bytes
  rs_next :: nat
  rs_end :: nat

definition fmemopen :: "bytes \<Rightarrow> nat \<Rightarrow> fmemopen_read_state" where
  "fmemopen str n = \<lparr>rs_str = str, rs_next = 0, rs_end = n\<rparr>"

definition fmemopen_readfn :: "fmemopen_read_state \<Rightarrow> nat \<Rightarrow> (bytes \<times> fmemopen_read_state) run" where
  "fmemopen_readfn st len =
     check (rs_next st \<le> rs_end st)
       (if rs_next st = rs_end st then Done ([], st)
        else
          let bytes = rs_end st - rs_next st; bytes = (if len < bytes then len else bytes)
          in rbind (ld_bytes (rs_str st) (rs_next st) bytes) (\<lambda>data.
             Done (data, st\<lparr>rs_next := rs_next st + bytes\<rparr>)))"

subsection \<open>The interfaces are provided\<close>

definition realloc_keeps :: "(bytes \<Rightarrow> nat \<Rightarrow> bytes option) \<Rightarrow> bool" where
  "realloc_keeps re \<longleftrightarrow> (\<forall>b n b'. re b n = Some b' \<longrightarrow> length b \<le> n \<longrightarrow> length b' = n \<and> take (length b) b' = b)"

definition written :: "mem_stream \<Rightarrow> bytes" where
  "written stream = take (ms_offset stream) (ms_buf stream)"

text \<open>The zero behind what was written, and the size of the block.\<close>

definition stream_ok :: "mem_stream \<Rightarrow> bool" where
  "stream_ok stream \<longleftrightarrow> length (ms_buf stream) = ms_buf_size stream \<and> ms_sizeloc stream = ms_offset stream \<and>
     (ms_buf_size stream = 0 \<longrightarrow> ms_offset stream = 0) \<and>
     (0 < ms_buf_size stream \<longrightarrow> ms_offset stream < ms_buf_size stream \<and> ms_buf stream ! ms_offset stream = 0 \<and>
       ms_buf_size stream \<le> max INITIAL_BUF_SIZE (2 * (ms_offset stream + 1)))"

lemma grow_ok:
  assumes "realloc_keeps re" "stream_ok stream" "mem_stream_grow re stream n = Some stream'"
  shows "ms_offset stream' = ms_offset stream \<and> length (ms_buf stream') = ms_buf_size stream' \<and>
    ms_offset stream + n < ms_buf_size stream' \<and> take (ms_offset stream) (ms_buf stream') = written stream \<and>
    ms_buf_size stream' \<le> max INITIAL_BUF_SIZE (2 * (ms_offset stream + n + 1))"
proof (cases "ms_offset stream + n + 1 \<le> ms_buf_size stream")
  case True
  then show ?thesis using assms(2,3) by (auto simp: mem_stream_grow_def stream_ok_def written_def)
next
  case False
  define new_size where "new_size = max (if ms_buf_size stream = 0 then INITIAL_BUF_SIZE else 2 * ms_buf_size stream)
    (ms_offset stream + n + 1)"
  have g: "mem_stream_grow re stream n = map_option (\<lambda>b. stream\<lparr>ms_buf := b, ms_buf_size := new_size\<rparr>) (re (ms_buf stream) new_size)"
    using False by (auto simp: mem_stream_grow_def Let_def new_size_def max_def split: option.splits)
  then obtain b where b: "re (ms_buf stream) new_size = Some b" "stream' = stream\<lparr>ms_buf := b, ms_buf_size := new_size\<rparr>"
    using assms(3) by (cases "re (ms_buf stream) new_size") auto
  have size: "ms_buf_size stream \<le> new_size" "ms_offset stream + n < new_size"
    "new_size \<le> max INITIAL_BUF_SIZE (2 * (ms_offset stream + n + 1))"
    using False by (auto simp: new_size_def)
  have "length (ms_buf stream) \<le> new_size" using assms(2) size(1) by (simp add: stream_ok_def)
  then have keep: "length b = new_size" "take (length (ms_buf stream)) b = ms_buf stream"
    using assms(1) b(1) unfolding realloc_keeps_def by blast+
  moreover have "ms_offset stream \<le> length (ms_buf stream)" using assms(2) by (auto simp: stream_ok_def)
  then have "take (ms_offset stream) b = written stream"
    using keep(2) by (metis written_def min.absorb2 min.commute take_take)
  ultimately show ?thesis using size b(2) by simp
qed

lemma write_memstream_ok:
  assumes "realloc_keeps re" "stream_ok stream"
  shows "\<exists>r. write_memstream re stream data = Done r \<and>
    (\<forall>stream'. r = Some stream' \<longrightarrow> stream_ok stream' \<and> written stream' = written stream @ data \<and> 0 < ms_buf_size stream')"
proof (cases "mem_stream_grow re stream (length data)")
  case None
  then show ?thesis by (simp add: write_memstream_def)
next
  case (Some s)
  note g = grow_ok [OF assms Some]
  let ?n = "ms_offset stream + length data"
  let ?b = "poke (poke (ms_buf s) (ms_offset s) data) ?n [0]"
  have w: "write_memstream re stream data = Done (Some (s\<lparr>ms_buf := ?b, ms_offset := ?n, ms_sizeloc := ?n\<rparr>))"
    using Some g by (simp add: write_memstream_def store_def Let_def)
  have n: "length (written stream) = ms_offset stream" using assms(2) by (auto simp: written_def stream_ok_def)
  have b: "?b = written stream @ data @ [0] @ drop (?n + 1) (ms_buf s)"
    using g n by (simp add: poke_def)
  show ?thesis using w g b n by (simp add: stream_ok_def written_def nth_append)
qed

definition fm_left :: "fmemopen_read_state \<Rightarrow> bytes" where
  "fm_left st = take (rs_end st - rs_next st) (drop (rs_next st) (rs_str st))"

definition fm_ok :: "fmemopen_read_state \<Rightarrow> bool" where
  "fm_ok st \<longleftrightarrow> rs_next st \<le> rs_end st \<and> rs_end st \<le> length (rs_str st)"

lemma fmemopen_readfn_ok:
  assumes "fm_ok st"
  shows "\<exists>st'. fmemopen_readfn st n = Done (take n (fm_left st), st') \<and> fm_ok st' \<and> fm_left st' = drop n (fm_left st)"
proof (cases "rs_next st = rs_end st")
  case True
  then show ?thesis using assms by (simp add: fmemopen_readfn_def fm_left_def)
next
  case False
  let ?k = "min n (rs_end st - rs_next st)"
  have "fmemopen_readfn st n = Done (take ?k (drop (rs_next st) (rs_str st)), st\<lparr>rs_next := rs_next st + ?k\<rparr>)"
    using assms False by (auto simp: fmemopen_readfn_def fm_ok_def Let_def ld_bytes_def min_def)
  then show ?thesis using assms by (auto simp: fm_ok_def fm_left_def min_def drop_take add.commute)
qed

interpretation fm: source fmemopen_readfn fm_left fm_ok
  by unfold_locales (rule fmemopen_readfn_ok)

text \<open>A stream with the \<^verbatim>\<open>realloc\<close> that it uses.\<close>

definition mem_put :: "(bytes \<Rightarrow> nat \<Rightarrow> bytes option) \<times> mem_stream \<Rightarrow> bytes \<Rightarrow>
    ((bytes \<Rightarrow> nat \<Rightarrow> bytes option) \<times> mem_stream) option run" where
  "mem_put = (\<lambda>(re, stream) data. rbind (write_memstream re stream data) (\<lambda>r. Done (map_option (Pair re) r)))"

lemma mem_put_eq: "mem_put (re, stream) data = rbind (write_memstream re stream data) (\<lambda>r. Done (map_option (Pair re) r))"
  by (simp add: mem_put_def)

interpretation mem: sink mem_put "\<lambda>(re, stream). written stream" "\<lambda>(re, stream). realloc_keeps re \<and> stream_ok stream"
proof
  fix s data
  assume g: "case s of (re, stream) \<Rightarrow> realloc_keeps re \<and> stream_ok stream"
  obtain re stream where s: "s = (re, stream)" by (cases s)
  obtain r where "write_memstream re stream data = Done r"
    "\<forall>stream'. r = Some stream' \<longrightarrow> stream_ok stream' \<and> written stream' = written stream @ data"
    using write_memstream_ok [of re stream data] g s by auto
  then show "\<exists>r. mem_put s data = Done r \<and> (\<forall>s'. r = Some s' \<longrightarrow> (case s' of (re, stream) \<Rightarrow> realloc_keeps re \<and> stream_ok stream) \<and>
      (case s' of (re, stream) \<Rightarrow> written stream) = (case s of (re, stream) \<Rightarrow> written stream) @ data)"
    using g s by (auto simp: mem_put_def)
qed

text \<open>Writing a list of pieces through a stream, and reading with the given sizes.\<close>

fun write_memstreams ::
  "(bytes \<Rightarrow> nat \<Rightarrow> bytes option) \<Rightarrow> mem_stream \<Rightarrow> bytes list \<Rightarrow> mem_stream option run" where
  "write_memstreams re stream [] = Done (Some stream)"
| "write_memstreams re stream (data # rest) =
     rbind (write_memstream re stream data) (\<lambda>r.
     case r of None \<Rightarrow> Done None | Some stream \<Rightarrow> write_memstreams re stream rest)"

fun fmemopen_reads :: "fmemopen_read_state \<Rightarrow> nat list \<Rightarrow> bytes run" where
  "fmemopen_reads st [] = Done []"
| "fmemopen_reads st (len # lens) =
     rbind (fmemopen_readfn st len) (\<lambda>(data, st). rbind (fmemopen_reads st lens) (\<lambda>rest. Done (data @ rest)))"

lemma mem_put_all: "mem.put_all (re, stream) datas = rbind (write_memstreams re stream datas) (\<lambda>r. Done (map_option (Pair re) r))"
proof (induction datas arbitrary: stream)
  case (Cons data datas)
  then show ?case
    by (cases "write_memstream re stream data") (auto simp: mem_put_eq split: option.splits)
qed simp

lemma fm_get_all: "fm.get_all st lens = fmemopen_reads st lens"
  by (induction lens arbitrary: st) simp_all

lemma write_memstreams_ok:
  assumes "realloc_keeps re" "stream_ok stream"
  shows "\<exists>r. write_memstreams re stream datas = Done r \<and>
    (\<forall>stream'. r = Some stream' \<longrightarrow> stream_ok stream' \<and> written stream' = written stream @ concat datas)"
  using mem.put_all_good [of "(re, stream)" datas] assms unfolding mem_put_all
  by (cases "write_memstreams re stream datas") auto

lemma write_memstreams_allocated:
  assumes "realloc_keeps re" "stream_ok stream" "datas \<noteq> []" "write_memstreams re stream datas = Done (Some stream')"
  shows "0 < ms_buf_size stream'"
  using assms(2-)
proof (induction datas arbitrary: stream)
  case (Cons data datas)
  obtain s where s: "write_memstream re stream data = Done (Some s)" "write_memstreams re s datas = Done (Some stream')"
    using Cons.prems(3) by (auto simp: rbind_Done_iff split: option.splits)
  then have "stream_ok s" "0 < ms_buf_size s" using write_memstream_ok [OF assms(1) Cons.prems(1), of data] by auto
  then show ?case using Cons.IH [of s] s(2) by (cases "datas = []") auto
qed simp

lemma write_memstreams_returns:
  "\<forall>b n. re b n \<noteq> None \<Longrightarrow> write_memstreams re stream datas \<noteq> Done None"
proof (induction datas arbitrary: stream)
  case (Cons data datas)
  have "mem_stream_grow re stream (length data) \<noteq> None"
    using Cons.prems by (simp add: mem_stream_grow_def Let_def option.case_eq_if del: not_None_eq)
  then have "write_memstream re stream data \<noteq> Done None"
    by (auto simp: write_memstream_def Let_def rbind_Done_iff)
  then show ?case using Cons by (auto simp: rbind_Done_iff split: option.splits)
qed simp

text \<open>C40: A round trip through the streams in memory: whatever pieces are written, no write leaves the block; when no
  allocation failed, the block holds their concatenation with a zero behind it, its reported size is the number
  of bytes, the block is at most twice as large as needed or 1024 bytes, and reading it back in any portions gives
  the bytes in order and then the end of the file.\<close>

theorem memstream_roundtrip:
  assumes "realloc_keeps re"
  shows "\<exists>r. write_memstreams re open_memstream datas = Done r \<and> ((\<forall>b n. re b n \<noteq> None) \<longrightarrow> r \<noteq> None) \<and>
    (\<forall>stream. r = Some stream \<longrightarrow>
       ms_sizeloc stream = length (concat datas) \<and>
       (datas \<noteq> [] \<longrightarrow> ms_buf stream ! ms_sizeloc stream = 0 \<and>
         length (ms_buf stream) \<le> max INITIAL_BUF_SIZE (2 * (length (concat datas) + 1))) \<and>
       fmemopen_reads (fmemopen (ms_buf stream) (ms_sizeloc stream)) lens = Done (take (sum_list lens) (concat datas)))"
proof -
  have "stream_ok open_memstream" by (simp add: stream_ok_def open_memstream_def)
  then obtain r where r: "write_memstreams re open_memstream datas = Done r"
    "\<forall>stream. r = Some stream \<longrightarrow> stream_ok stream \<and> written stream = concat datas"
    using write_memstreams_ok [OF assms, of open_memstream datas] by (auto simp: written_def open_memstream_def)
  have "ms_sizeloc stream = length (concat datas) \<and>
       (datas \<noteq> [] \<longrightarrow> ms_buf stream ! ms_sizeloc stream = 0 \<and>
         length (ms_buf stream) \<le> max INITIAL_BUF_SIZE (2 * (length (concat datas) + 1))) \<and>
       fmemopen_reads (fmemopen (ms_buf stream) (ms_sizeloc stream)) lens = Done (take (sum_list lens) (concat datas))"
    if "r = Some stream" for stream
  proof -
    have s: "stream_ok stream" "written stream = concat datas" using r(2) that by blast+
    then have n: "ms_offset stream = ms_sizeloc stream" "ms_offset stream \<le> length (ms_buf stream)"
      by (auto simp: stream_ok_def)
    have len: "ms_sizeloc stream = length (concat datas)"
      using arg_cong [OF s(2), of length] n by (simp add: written_def)
    have "fm_ok (fmemopen (ms_buf stream) (ms_sizeloc stream))" "fm_left (fmemopen (ms_buf stream) (ms_sizeloc stream)) = concat datas"
      using s(2) n by (simp_all add: fm_ok_def fm_left_def fmemopen_def written_def)
    then show ?thesis using s(1) n len fm.get_all_good write_memstreams_allocated [OF assms \<open>stream_ok open_memstream\<close>, of datas stream] r(1) that
      unfolding fm_get_all [symmetric] by (auto simp: stream_ok_def)
  qed
  then show ?thesis using r(1) write_memstreams_returns [of re open_memstream datas] by auto
qed

theorem memstream_roundtrip_witness:
  "\<exists>r. write_memstreams (\<lambda>b n. Some (b @ replicate (n - length b) 7)) open_memstream [[1, 2], [], [3]] = Done r \<and> r \<noteq> None \<and>
    (\<forall>stream. r = Some stream \<longrightarrow> ms_sizeloc stream = 3 \<and>
      fmemopen_reads (fmemopen (ms_buf stream) (ms_sizeloc stream)) [1, 5] = Done [1, 2, 3])"
proof -
  have "realloc_keeps (\<lambda>b n. Some (b @ replicate (n - length b) 7))" by (simp add: realloc_keeps_def)
  then show ?thesis using memstream_roundtrip [of _ "[[1, 2], [], [3]]" "[1, 5]"] by fastforce
qed

end
