(* ===== verification/Packetdrill.thy ===== *)
theory Packetdrill
  imports Code Config
begin

section \<open>The main function\<close>

text \<open>
  The model of \<^verbatim>\<open>packetdrill.c\<close>: the scripts that the command line asks to run first, and the loop over the test
  scripts. The options and arguments that \<^verbatim>\<open>getopt_long\<close> finds are arguments, as are the parser of the scripts,
  whose grammar file is not part of the repository, the wire server and the run of a script, which append to the
  commands that were run.
\<close>

text \<open>The commands in the option: they are separated by commas, and there is none after a last comma.\<close>

function init_commands :: "string \<Rightarrow> string list" where
  "init_commands cp1 =
     (if cp1 = [] then []
      else takeWhile (\<lambda>ch. ch \<noteq> CHR '','') cp1 #
        (case dropWhile (\<lambda>ch. ch \<noteq> CHR '','') cp1 of [] \<Rightarrow> [] | _ # cp2 \<Rightarrow> init_commands cp2))"
  by pat_completeness auto
termination
proof (relation "measure length")
  fix cp1 :: string and ch cp2
  assume "dropWhile (\<lambda>ch. ch \<noteq> CHR '','') cp1 = ch # cp2"
  then have "length (ch # cp2) \<le> length cp1" by (metis length_dropWhile_le)
  then show "(cp2, cp1) \<in> measure length" by simp
qed simp

declare init_commands.simps [simp del]

text \<open>The commands run one after the other; an error ends the program.\<close>

fun run_commands :: "shell \<Rightarrow> string list \<Rightarrow> string list \<Rightarrow> string list run" where
  "run_commands sh [] hist = Done hist"
| "run_commands sh (command # commands) hist =
     (let (error, hist) = safe_system sh command hist in
      if error \<noteq> None then Die else run_commands sh commands hist)"

definition run_init_scripts :: "shell \<Rightarrow> config \<Rightarrow> string list \<Rightarrow> string list run" where
  "run_init_scripts sh config hist =
     (case init_scripts config of
        None \<Rightarrow> Done hist
      | Some scripts \<Rightarrow> run_commands sh (init_commands scripts) hist)"

datatype exit_status = EXIT_SUCCESS | EXIT_FAILURE

text \<open>The parser gives the configuration of a script and the script, or an error.\<close>

fun run_scripts ::
  "shell \<Rightarrow> (string \<Rightarrow> (config \<times> 's) option run) \<Rightarrow> (config \<Rightarrow> 's \<Rightarrow> string list \<Rightarrow> string list run) \<Rightarrow> string list \<Rightarrow>
     string list \<Rightarrow> (exit_status \<times> string list) run" where
  "run_scripts sh parse exec [] hist = Done (EXIT_SUCCESS, hist)"
| "run_scripts sh parse exec (script_path # paths) hist =
     rbind (parse script_path) (\<lambda>r.
     case r of
       None \<Rightarrow> Done (EXIT_FAILURE, hist)
     | Some (config, script) \<Rightarrow>
         if dry_run config then run_scripts sh parse exec paths hist
         else rbind (run_init_scripts sh config hist) (\<lambda>hist.
           rbind (exec config script hist) (\<lambda>hist.
           run_scripts sh parse exec paths hist)))"

definition main ::
  "shell \<Rightarrow> config_env \<Rightarrow> (config \<Rightarrow> string list run) \<Rightarrow> (string \<Rightarrow> (config \<times> 's) option run) \<Rightarrow>
     (config \<Rightarrow> 's \<Rightarrow> string list \<Rightarrow> string list run) \<Rightarrow> (opt \<times> string option) list \<Rightarrow> string list \<Rightarrow>
     (exit_status \<times> string list) run" where
  "main sh env run_wire_server parse exec opts args =
     rbind (parse_command_line_options env opts set_default_config) (\<lambda>config.
     if is_wire_server config
     then (if args \<noteq> [] then Done (EXIT_FAILURE, [])
       else rbind (run_wire_server config) (\<lambda>hist. Done (EXIT_SUCCESS, hist)))
     else if args = [] then Done (EXIT_FAILURE, [])
     else run_scripts sh parse exec args [])"

subsection \<open>What is run\<close>

definition comma_join :: "string list \<Rightarrow> string" where
  "comma_join commands = concat (map (\<lambda>command. command @ '','') commands)"

lemma init_commands_join:
  "\<forall>command \<in> set commands. CHR '','' \<notin> set command \<Longrightarrow> init_commands (comma_join commands) = commands"
proof (induction commands)
  case Nil
  show ?case by (simp add: comma_join_def init_commands.simps)
next
  case (Cons command commands)
  have c: "comma_join (command # commands) = command @ CHR '','' # comma_join commands" by (simp add: comma_join_def)
  have "\<forall>ch \<in> set command. ch \<noteq> CHR '',''" using Cons.prems by auto
  then have "takeWhile (\<lambda>ch. ch \<noteq> CHR '','') (comma_join (command # commands)) = command"
    "dropWhile (\<lambda>ch. ch \<noteq> CHR '','') (comma_join (command # commands)) = CHR '','' # comma_join commands"
    unfolding c by (simp_all add: takeWhile_append2 dropWhile_append2)
  then show ?case using Cons c by (subst init_commands.simps) simp
qed

text \<open>The commands run in their order, when all of them succeed.\<close>

lemma run_commands_Done:
  "run_commands sh commands hist = Done hist' \<Longrightarrow> hist' = hist @ commands"
  by (induction commands arbitrary: hist)
    (fastforce simp: safe_system_def system_cmd_def Let_def split: if_splits)+

lemma run_scripts_dry:
  assumes "\<forall>path \<in> set paths. \<exists>config script. parse path = Done (Some (config, script)) \<and> dry_run config"
  shows "run_scripts sh parse exec paths hist = Done (EXIT_SUCCESS, hist)"
  using assms by (induction paths) auto

end
