(* ===== verification/Spec2Isabelle.thy ===== *)
theory Spec2Isabelle
  imports Checksum Hash HashMap FlowMaps LruCache TcpOptions PacketParser PacketEncap Config RunPacket Script WireSession SyscallThread RunScript Netdev Tunnel MemStream Packetdrill
begin

section \<open>QoSMos\<close>

text \<open>
  A verification development of the C and C++ code of QoSMos in \<^verbatim>\<open>app/src/main/cpp\<close>.

  \<^bold>\<open>The program.\<close> An Android application carries the packets of a VPN device to a server through UDP sockets
  (\<^verbatim>\<open>qosmos_native.cpp\<close>). To look into packets it contains the sources of packetdrill, an interpreter for test scripts of
  network stacks: a script says which system calls to make, which packets to inject and which packets the kernel
  must send, with their times. \<^verbatim>\<open>packetdrill.c\<close> reads the configuration (\<^verbatim>\<open>config.c\<close>) and runs each script with the main
  loop of \<^verbatim>\<open>run.c\<close>. Packet events (\<^verbatim>\<open>run_packet.c\<close>) build on the packet library (\<^verbatim>\<open>packet.c\<close>, \<^verbatim>\<open>packet_parser.c\<close>, the
  builders, checksums, TCP options) and on the table of sockets; system call events (\<^verbatim>\<open>run_system_call.c\<close>) on the evaluation
  of expressions (\<^verbatim>\<open>script.c\<close>) and the table of descriptors, and blocking calls run on a second thread; code events
  (\<^verbatim>\<open>code.c\<close>) write and run a Python program. Packets pass through a network device (\<^verbatim>\<open>netdev.c\<close> and its variants). In a
  remote test a client runs the system calls and a server the packets; they keep in step with messages over TCP
  (\<^verbatim>\<open>wire_*.c\<close>).

  \<^bold>\<open>Conventions\<close> (\<open>Prelude\<close>). Integers of the C code are words of their width where overflow matters, and integers
  or natural numbers where it cannot happen. Memory is a list of bytes and a pointer into it an offset. A
  function that may fail gives a \<open>run\<close>: \<open>Done\<close> with its result, \<open>Oob\<close> for an access outside a buffer, and
  \<open>Die\<close> for a failed assertion, \<^verbatim>\<open>die\<close>, or a null pointer; an error that the code reports is a value (\<open>Inl\<close>, \<open>STATUS_ERR\<close>
  or a message). The host is little-endian and 64-bit Linux. What the system does is an argument of a model:
  the readings of the clock, the packets that arrive, the results of system calls, the status of
  commands, \<^verbatim>\<open>inet_pton\<close> and \<^verbatim>\<open>inet_ntop\<close>, random bytes.

  \<^bold>\<open>Theories.\<close>
  \<^item> Data structures: \<open>Hash\<close> (\<^verbatim>\<open>hash.c\<close>), \<open>HashMap\<close> (\<^verbatim>\<open>hash_map.c\<close>), \<open>FlowMaps\<close> (\<^verbatim>\<open>flowmaps.c\<close>) and \<open>LruCache\<close>
    (\<^verbatim>\<open>lrucache.h\<close>). They are shown to implement finite maps and a least-recently-used list. \<open>MapInterface\<close> is the
    contract of a map; the hash map, the flow table and the definitions of symbols in \<open>Config\<close> provide it.
  \<^item> Packets: \<open>Checksum\<close> (\<^verbatim>\<open>checksum.c\<close>: equal to the RFC 1071 sum and to the bitwise CRC), \<open>TcpOptions\<close>
    (\<^verbatim>\<open>tcp_options*.c\<close>: the iterator is safe and inverts appending), \<open>Packet\<close> (\<^verbatim>\<open>packet.h\<close>), \<open>PacketParser\<close>
    (\<^verbatim>\<open>packet_parser.c\<close>: memory safety, termination and what the headers it leaves satisfy, on all inputs), \<open>IpPacket\<close>,
    \<open>PacketBuild\<close>, \<open>IcmpPacket\<close> (the builders), \<open>PacketChecksum\<close>, \<open>PacketRoundtrip\<close> (a packet that was built and
    checksummed parses to the headers it was built with), \<open>PacketEncap\<close> (the rest of \<^verbatim>\<open>packet.c\<close>) and \<open>PacketToString\<close>.
  \<^item> Addresses and configuration: \<open>IpAddress\<close> (\<^verbatim>\<open>ip_address.c\<close>, \<^verbatim>\<open>ip_prefix.c\<close>) and \<open>Config\<close> (\<^verbatim>\<open>config.c\<close>).
  \<^item> The interpreter's packets: \<open>Socket\<close> (\<^verbatim>\<open>socket.h\<close>), \<open>PacketMapping\<close>, \<open>PacketVerify\<close> and \<open>RunPacket\<close> (\<^verbatim>\<open>run_packet.c\<close>), and
    \<open>RunTiming\<close> (the waiting and the order of events of \<^verbatim>\<open>run.c\<close>).
  \<^item> The interpreter's calls: \<open>Script\<close> (\<^verbatim>\<open>script.c\<close>), \<open>SyscallArgs\<close>, \<open>FdTable\<close> and \<open>Syscall\<close> (\<^verbatim>\<open>run_system_call.c\<close> with
    \<^verbatim>\<open>fd_state.h\<close>, \<^verbatim>\<open>file.c\<close>, \<^verbatim>\<open>pipe.c\<close>, \<^verbatim>\<open>epoll.c\<close>): every handler makes at most one call, its result and errno are
    compared, and the table of descriptors stays well-formed. \<open>fd_opener\<close> is the contract of the operations that
    make a descriptor. \<open>SyscallThread\<close> is the protocol of the two threads as a step relation: its invariant, that
    no signal is lost, and the one case in which they wait for each other for ever.
  \<^item> The program: \<open>Code\<close> (\<^verbatim>\<open>code.c\<close>, \<^verbatim>\<open>system.c\<close>), \<open>RunScript\<close> (the main loop of \<^verbatim>\<open>run.c\<close> over all kinds of events) and
    \<open>Packetdrill\<close> (\<^verbatim>\<open>packetdrill.c\<close>).
  \<^item> The wire: \<open>WireConn\<close> (\<^verbatim>\<open>wire_conn.c\<close>: messages survive any cutting of the stream), \<open>Wire\<close> (the two ends) and
    \<open>WireSession\<close> (both ends as a step relation: neither fails, and a session ends).
  \<^item> Devices: \<open>Netdev\<close> (\<^verbatim>\<open>netdev.c\<close>, \<^verbatim>\<open>packet_socket_linux.c\<close>, \<^verbatim>\<open>wire_client_netdev.c\<close>, \<^verbatim>\<open>wire_server_netdev.c\<close>,
    \<^verbatim>\<open>so_testing.c\<close>, \<^verbatim>\<open>net_utils.c\<close>): the packet filter keeps exactly the client's packets, and sniffing ends at the first
    packet that the parser knows or rejects. \<open>MemStream\<close> (\<^verbatim>\<open>open_memstream.c\<close>, \<^verbatim>\<open>fmemopen.c\<close>): the contracts \<open>sink\<close> and
    \<open>source\<close>, which the two files provide, and the round trip through both.
  \<^item> The tunnel: \<open>Tunnel\<close> (\<^verbatim>\<open>qosmos_native.cpp\<close>), whose threads are a step relation. The theorems are mostly about
    defects: the mutex is never given back after a packet was forwarded.

  \<^bold>\<open>Composition.\<close> \<open>RunScript\<close> runs \<open>RunPacket\<close>, \<open>Syscall\<close> and \<open>Code\<close> on one state; \<open>RunPacket\<close> uses \<open>PacketMapping\<close> and
  \<open>PacketVerify\<close>, which use the packet library; \<open>Wire\<close> runs \<open>RunPacket\<close> on the server's side; \<open>Netdev\<close> runs the parser on
  what a packet socket receives; \<open>Tunnel\<close> uses the parser and \<open>Socket\<close>.

  \<^bold>\<open>Loops and fuel.\<close> Loops over data are structural or have a measure, so that their termination is proved. A loop
  that lasts as long as the system answers in some way takes either the list of the answers, and then says that it
  still waits when the list ends, or an amount of fuel, and then gives \<open>None\<close> when the fuel runs out. The fuel of
  \<open>wait_for_event\<close> is the number of readings of the clock: more than the index of the first one that has reached the time
  is enough (\<open>wait_for_event_returns\<close>). That of \<open>sniff_outbound_live_packet\<close> is the number of packets: more than there
  are before the first one for a socket is enough (\<open>sniff_outbound_live_packet_returns\<close>). The main loop has one unit
  per event and one for the end. The loops over the headers of a packet take the number of entries of its array,
  which is what the code counts. The tries for the name of the tun device are the ten of the code.

  \<^bold>\<open>Not modelled.\<close>
  \<^item> The grammar of scripts: \<^verbatim>\<open>parser.y\<close> is not in the repository. A script is given as its events, and where the code
    calls the parser it is a parameter.
  \<^item> The values of the constants of the platforms (\<^verbatim>\<open>symbols_*.c\<close>, \<^verbatim>\<open>uapi_linux.h\<close>, \<^verbatim>\<open>platforms.h\<close>): they come from headers of
    the systems. The lookup of a symbol takes the table as a parameter.
  \<^item> The branches for BSD, among them \<^verbatim>\<open>packet_socket_pcap.c\<close>; \<^verbatim>\<open>link_layer.c\<close>, \<^verbatim>\<open>wrap_bind_listen\<close> and the opening and
    accepting of the wire connection, which are sequences of system calls; the loading of a shared object.
  \<^item> Freeing memory and running out of it (except in \<open>MemStream\<close>), logging, the scheduling priority, memory
    locking and signal dispositions, \<^verbatim>\<open>getopt_long\<close> (the options it finds are arguments) and the usage message.
  \<^item> What other threads do during a sleep or a blocking call in \<open>RunScript\<close>, which runs the events in their order:
    the interleavings are the subject of \<open>SyscallThread\<close>.
  \<^item> In the tunnel: \<^verbatim>\<open>thread_read_vpn\<close>, which nothing starts, the flow table behind a call that always fails, the media
    context, which is only stored, and the Java side. \<^verbatim>\<open>get_dscp\<close> is declared and nowhere defined, so it is a
    parameter.
  \<^item> \<^verbatim>\<open>native.h\<close>, which repeats functions of \<^verbatim>\<open>ip_packet.c\<close> for C++, and the test programs.
\<close>

end
